(* ===== verification/Prelude.thy ===== *)
theory Prelude imports
  Main
  "HOL-Library.Multiset"
  "HOL-Library.AList"
  "HOL-Library.While_Combinator"
begin

text \<open>
  What every component shares.

  A failed \<^verbatim>\<open>CHECK\<close>, \<^verbatim>\<open>ABSL_DIE_IF_NULL\<close> or \<^verbatim>\<open>LOG(FATAL)\<close> of the code aborts the process; a
  read out of range or through a dangling pointer is undefined. Both are values of type
  \<open>error\<close> here, and an operation that can fail returns \<open>error + 'a\<close>.

  \<^verbatim>\<open>absl::flat_hash_map\<close> is an association list with distinct keys and
  \<^verbatim>\<open>absl::flat_hash_set\<close> a list without duplicates wherever the code iterates over it; the order
  of the iteration is unspecified in C++, so the definitions that iterate take the order as
  a parameter (a function that permutes the entries) and the theorems hold for every such
  function. Containers that are only searched are plain HOL maps and sets.
\<close>

section \<open>Automation collections\<close>

named_theorems result_simps \<open>unfolding rules of the error monad\<close>
named_theorems hash_simps \<open>characteristic equations of the hash containers\<close>

section \<open>Errors as values\<close>

datatype error =
    Check_failed string
  | Undefined_behaviour string

type_synonym 'a result = "error + 'a"

definition rbind :: "'a result \<Rightarrow> ('a \<Rightarrow> 'b result) \<Rightarrow> 'b result" where
  "rbind m f = (case m of Inl e \<Rightarrow> Inl e | Inr x \<Rightarrow> f x)"

definition check :: "bool \<Rightarrow> string \<Rightarrow> unit result" where
  "check b msg = (if b then Inr () else Inl (Check_failed msg))"

definition check_some :: "'a option \<Rightarrow> string \<Rightarrow> 'a result" where
  "check_some x msg = (case x of None \<Rightarrow> Inl (Check_failed msg) | Some y \<Rightarrow> Inr y)"

definition deref :: "'a option \<Rightarrow> string \<Rightarrow> 'a result" where
  "deref x msg = (case x of None \<Rightarrow> Inl (Undefined_behaviour msg) | Some y \<Rightarrow> Inr y)"

text \<open>\<^verbatim>\<open>common::utils::fold\<close> and \<^verbatim>\<open>utils::MapIter\<close> with a function that can fail: the first
  failure ends the loop.\<close>

fun fold_result :: "('x \<Rightarrow> 'a \<Rightarrow> 'a result) \<Rightarrow> 'x list \<Rightarrow> 'a \<Rightarrow> 'a result" where
  "fold_result f [] a = Inr a"
| "fold_result f (x # xs) a = rbind (f x a) (fold_result f xs)"

fun map_result :: "('x \<Rightarrow> 'y result) \<Rightarrow> 'x list \<Rightarrow> 'y list result" where
  "map_result f [] = Inr []"
| "map_result f (x # xs) = rbind (f x) (\<lambda>y. rbind (map_result f xs) (\<lambda>ys. Inr (y # ys)))"

text \<open>The same with a function that also changes a state, from left to right.\<close>

fun map_state :: "('a \<Rightarrow> 's \<Rightarrow> ('b \<times> 's) result) \<Rightarrow> 'a list \<Rightarrow> 's \<Rightarrow> ('b list \<times> 's) result" where
  "map_state f [] s = Inr ([], s)"
| "map_state f (x # xs) s = rbind (f x s) (\<lambda>(y, s). rbind (map_state f xs s) (\<lambda>(ys, s). Inr (y # ys, s)))"

definition is_ok :: "'a result \<Rightarrow> bool" where
  "is_ok r = (case r of Inl _ \<Rightarrow> False | Inr _ \<Rightarrow> True)"

lemma rbind_simps [simp, result_simps]:
  "rbind (Inl e) f = Inl e"
  "rbind (Inr x) f = f x"
  by (simp_all add: rbind_def)

lemma rbind_Inr_iff [result_simps]: "rbind m f = Inr y \<longleftrightarrow> (\<exists>x. m = Inr x \<and> f x = Inr y)"
  by (cases m) simp_all

lemma rbind_InrE [elim!]:
  assumes "rbind m f = Inr y"
  obtains x where "m = Inr x" and "f x = Inr y"
  using assms by (auto simp: rbind_Inr_iff)

lemma rbind_assoc: "rbind (rbind m f) g = rbind m (\<lambda>x. rbind (f x) g)"
  by (cases m) simp_all

lemma check_simps [simp, result_simps]:
  "check True msg = Inr ()"
  "check False msg = Inl (Check_failed msg)"
  by (simp_all add: check_def)

lemma check_Inr_iff [simp, result_simps]: "check b msg = Inr u \<longleftrightarrow> b"
  by (simp add: check_def)

lemma check_some_simps [simp, result_simps]:
  "check_some None msg = Inl (Check_failed msg)"
  "check_some (Some x) msg = Inr x"
  by (simp_all add: check_some_def)

lemma check_some_Inr_iff [simp, result_simps]: "check_some m msg = Inr x \<longleftrightarrow> m = Some x"
  by (cases m) simp_all

lemma deref_simps [simp, result_simps]:
  "deref None msg = Inl (Undefined_behaviour msg)"
  "deref (Some x) msg = Inr x"
  by (simp_all add: deref_def)

lemma deref_Inr_iff [simp, result_simps]: "deref m msg = Inr x \<longleftrightarrow> m = Some x"
  by (cases m) simp_all

lemma is_ok_simps [simp]: "is_ok (Inr x)" "\<not> is_ok (Inl e)"
  by (simp_all add: is_ok_def)

lemma is_ok_iff: "is_ok r \<longleftrightarrow> (\<exists>x. r = Inr x)"
  by (cases r) simp_all

lemma is_ok_rbind: "is_ok (rbind m f) \<longleftrightarrow> (\<exists>x. m = Inr x \<and> is_ok (f x))"
  by (cases m) simp_all

lemma fold_result_append:
  "fold_result f (xs @ ys) a = rbind (fold_result f xs a) (fold_result f ys)"
proof (induction xs arbitrary: a)
  case (Cons x xs)
  then show ?case by (cases "f x a") simp_all
qed simp

lemma fold_result_invariant:
  assumes "fold_result f xs a = Inr b" and "P a"
    and "\<And>x c d. x \<in> set xs \<Longrightarrow> P c \<Longrightarrow> f x c = Inr d \<Longrightarrow> P d"
  shows "P b"
  using assms by (induction xs arbitrary: a) auto

lemma fold_result_ok:
  assumes "P a"
    and "\<And>x c. x \<in> set xs \<Longrightarrow> P c \<Longrightarrow> \<exists>d. f x c = Inr d \<and> P d"
  shows "\<exists>b. fold_result f xs a = Inr b \<and> P b"
  using assms
proof (induction xs arbitrary: a)
  case Nil
  then show ?case by simp
next
  case (Cons x xs)
  then obtain d where "f x a = Inr d" "P d" by (meson list.set_intros(1))
  with Cons show ?case by auto
qed

lemma fold_result_pure: "fold_result (\<lambda>x a. Inr (f x a)) xs a = Inr (fold f xs a)"
  by (induction xs arbitrary: a) simp_all

lemma fold_result_cong:
  "(\<And>x a. x \<in> set xs \<Longrightarrow> f x a = g x a) \<Longrightarrow> fold_result f xs a = fold_result g xs a"
proof (induction xs arbitrary: a)
  case (Cons x xs)
  then show ?case by (cases "g x a") simp_all
qed simp

lemma map_result_length: "map_result f xs = Inr ys \<Longrightarrow> length ys = length xs"
  by (induction xs arbitrary: ys) auto

lemma map_result_nth:
  "map_result f xs = Inr ys \<Longrightarrow> i < length xs \<Longrightarrow> f (xs ! i) = Inr (ys ! i)"
  by (induction xs arbitrary: ys i) (auto simp: nth_Cons split: nat.splits)

lemma map_result_set:
  "map_result f xs = Inr ys \<Longrightarrow> y \<in> set ys \<Longrightarrow> \<exists>x \<in> set xs. f x = Inr y"
  by (induction xs arbitrary: ys) auto

lemma map_result_ok: "(\<And>x. x \<in> set xs \<Longrightarrow> \<exists>y. f x = Inr y) \<Longrightarrow> \<exists>ys. map_result f xs = Inr ys"
  by (induction xs) force+

lemma map_result_pure: "map_result (\<lambda>x. Inr (f x)) xs = Inr (map f xs)"
  by (induction xs) simp_all

lemma map_state_results:
  "map_state f xs s = Inr (ys, s') \<Longrightarrow> list_all2 (\<lambda>x y. \<exists>t t'. f x t = Inr (y, t')) xs ys"
  by (induction xs arbitrary: s ys) (auto simp: list_all2_Cons1)

section \<open>Hash containers\<close>

type_synonym ('k, 'v) hash_map = "('k \<times> 'v) list"
type_synonym 'a hash_set = "'a list"

text \<open>\<^verbatim>\<open>insert\<close> keeps the entry that is there and says whether it inserted;
  \<^verbatim>\<open>insert_or_assign\<close> overwrites.\<close>

definition hm_wf :: "('k, 'v) hash_map \<Rightarrow> bool" where
  "hm_wf m \<longleftrightarrow> distinct (map fst m)"

definition hm_insert :: "'k \<Rightarrow> 'v \<Rightarrow> ('k, 'v) hash_map \<Rightarrow> ('k, 'v) hash_map \<times> bool" where
  "hm_insert k v m = (case map_of m k of None \<Rightarrow> (m @ [(k, v)], True) | Some _ \<Rightarrow> (m, False))"

definition hm_assign :: "'k \<Rightarrow> 'v \<Rightarrow> ('k, 'v) hash_map \<Rightarrow> ('k, 'v) hash_map" where
  "hm_assign k v m = AList.update k v m"

definition hs_insert :: "'a \<Rightarrow> 'a hash_set \<Rightarrow> 'a hash_set" where
  "hs_insert x s = (if x \<in> set s then s else s @ [x])"

definition hs_erase :: "'a \<Rightarrow> 'a hash_set \<Rightarrow> 'a hash_set" where
  "hs_erase x s = filter (\<lambda>y. y \<noteq> x) s"

text \<open>An iteration order of a hash container.\<close>

definition is_order :: "('a list \<Rightarrow> 'a list) \<Rightarrow> bool" where
  "is_order f \<longleftrightarrow> (\<forall>xs. mset (f xs) = mset xs)"

lemma hm_wf_Nil [simp]: "hm_wf []"
  by (simp add: hm_wf_def)

lemma hm_insert_eq:
  "hm_insert k v m = (if map_of m k = None then (m @ [(k, v)], True) else (m, False))"
  by (auto simp: hm_insert_def)

lemma hm_insert_flag [simp, hash_simps]: "snd (hm_insert k v m) \<longleftrightarrow> map_of m k = None"
  by (simp add: hm_insert_def split: option.splits)

lemma hm_insert_new [hash_simps]: "map_of m k = None \<Longrightarrow> fst (hm_insert k v m) = m @ [(k, v)]"
  by (simp add: hm_insert_def)

lemma hm_insert_old [hash_simps]: "map_of m k \<noteq> None \<Longrightarrow> fst (hm_insert k v m) = m"
  by (auto simp: hm_insert_def)

lemma map_of_hm_insert [hash_simps]:
  "map_of (fst (hm_insert k v m)) k' =
     (if k' = k \<and> map_of m k = None then Some v else map_of m k')"
  by (auto simp: hm_insert_def map_add_def split: option.splits)

lemma hm_wf_insert [simp]: "hm_wf m \<Longrightarrow> hm_wf (fst (hm_insert k v m))"
  by (auto simp: hm_insert_def hm_wf_def map_of_eq_None_iff split: option.splits)

lemma keys_hm_insert [hash_simps]: "fst ` set (fst (hm_insert k v m)) = insert k (fst ` set m)"
  by (force simp: hm_insert_def split: option.splits dest: map_of_SomeD)

lemma map_of_hm_assign [simp, hash_simps]: "map_of (hm_assign k v m) = (map_of m)(k \<mapsto> v)"
  by (simp add: hm_assign_def update_conv fun_eq_iff)

lemma hm_wf_assign [simp]: "hm_wf m \<Longrightarrow> hm_wf (hm_assign k v m)"
  by (simp add: hm_wf_def hm_assign_def distinct_update)

lemma hm_wf_map_of: "hm_wf m \<Longrightarrow> (k, v) \<in> set m \<Longrightarrow> map_of m k = Some v"
  by (simp add: hm_wf_def)

lemma set_hs_insert [simp, hash_simps]: "set (hs_insert x s) = insert x (set s)"
  by (auto simp: hs_insert_def)

lemma distinct_hs_insert [simp]: "distinct s \<Longrightarrow> distinct (hs_insert x s)"
  by (simp add: hs_insert_def)

lemma set_hs_erase [simp, hash_simps]: "set (hs_erase x s) = set s - {x}"
  by (auto simp: hs_erase_def)

lemma distinct_hs_erase [simp]: "distinct s \<Longrightarrow> distinct (hs_erase x s)"
  by (simp add: hs_erase_def)

lemma set_fold_hs_insert [simp, hash_simps]: "set (fold hs_insert xs s) = set xs \<union> set s"
  by (induction xs arbitrary: s) auto

lemma distinct_fold_hs_insert [simp]: "distinct s \<Longrightarrow> distinct (fold hs_insert xs s)"
  by (induction xs arbitrary: s) auto

lemma is_order_set: "is_order f \<Longrightarrow> set (f xs) = set xs"
  by (metis is_order_def set_mset_mset)

lemma is_order_distinct: "is_order f \<Longrightarrow> distinct (f xs) = distinct xs"
  by (metis is_order_def mset_eq_imp_distinct_iff)

lemma is_order_length: "is_order f \<Longrightarrow> length (f xs) = length xs"
  by (metis is_order_def mset_eq_length)

lemma is_order_id [simp]: "is_order (\<lambda>xs. xs)" "is_order id" "is_order rev"
  by (simp_all add: is_order_def)

section \<open>Numbers as strings\<close>

text \<open>\<^verbatim>\<open>absl::StrCat\<close> of an integer and \<^verbatim>\<open>absl::StrJoin\<close>.\<close>

definition digit_char :: "nat \<Rightarrow> char" where
  "digit_char d = char_of (48 + d)"

fun string_of_nat :: "nat \<Rightarrow> string" where
  "string_of_nat n =
     (if n < 10 then [digit_char n] else string_of_nat (n div 10) @ [digit_char (n mod 10)])"

declare string_of_nat.simps [simp del]

definition string_of_int :: "int \<Rightarrow> string" where
  "string_of_int i =
     (if i < 0 then ''-'' @ string_of_nat (nat (- i)) else string_of_nat (nat i))"

fun str_join :: "string \<Rightarrow> string list \<Rightarrow> string" where
  "str_join sep [] = []"
| "str_join sep [x] = x"
| "str_join sep (x # y # xs) = x @ sep @ str_join sep (y # xs)"

definition is_digit :: "char \<Rightarrow> bool" where
  "is_digit c \<longleftrightarrow> 48 \<le> (of_char c :: nat) \<and> (of_char c :: nat) \<le> 57"

definition is_letter :: "char \<Rightarrow> bool" where
  "is_letter c \<longleftrightarrow> 65 \<le> (of_char c :: nat) \<and> (of_char c :: nat) \<le> 90 \<or> 97 \<le> (of_char c :: nat) \<and> (of_char c :: nat) \<le> 122"

definition nat_of_digits :: "string \<Rightarrow> nat" where
  "nat_of_digits s = foldl (\<lambda>n c. 10 * n + (of_char c - 48)) 0 s"

lemma of_char_digit_char: "d < 10 \<Longrightarrow> (of_char (digit_char d) :: nat) = 48 + d"
  by (simp add: digit_char_def)

lemma nat_of_digits_string_of_nat [simp]: "nat_of_digits (string_of_nat n) = n"
proof (induction n rule: string_of_nat.induct)
  case (1 n)
  then show ?case
    by (subst string_of_nat.simps) (simp add: nat_of_digits_def of_char_digit_char)
qed

lemma string_of_nat_eq_iff [simp]: "string_of_nat m = string_of_nat n \<longleftrightarrow> m = n"
  by (metis nat_of_digits_string_of_nat)

lemma string_of_nat_digits: "c \<in> set (string_of_nat n) \<Longrightarrow> is_digit c"
proof (induction n rule: string_of_nat.induct)
  case (1 n)
  have digit: "is_digit (digit_char d)" if "d < 10" for d
    using that by (simp add: is_digit_def of_char_digit_char)
  show ?case
  proof (cases "n < 10")
    case True
    with 1(2) digit show ?thesis by (subst (asm) string_of_nat.simps) simp
  next
    case False
    with 1(2) have "c \<in> set (string_of_nat (n div 10)) \<or> c = digit_char (n mod 10)"
      by (subst (asm) string_of_nat.simps) auto
    with 1(1) False digit show ?thesis by auto
  qed
qed

lemma string_of_nat_nonempty [simp]: "string_of_nat n \<noteq> []"
  by (subst string_of_nat.simps) simp

end
