(* ===== verification/Type_System.thy ===== *)
theory Type_System imports
  Prelude
  "HOL-Library.List_Lexorder"
  "HOL-Library.Char_ord"
begin

text \<open>
  Selectors, access paths and the IR's types: \<^verbatim>\<open>src/ir/field_selector.h\<close>, \<^verbatim>\<open>selector.h\<close>,
  \<^verbatim>\<open>access_path_selectors.h\<close>, \<^verbatim>\<open>access_path_selectors_set.h\<close>, \<^verbatim>\<open>types/*\<close> and the proto
  encoding of types in \<^verbatim>\<open>types/proto/*\<close>.

  A type is an immutable object behind a reference-counted pointer and is modelled by its
  value. A schema's fields are a hash map, so their list is in the iteration order of the map;
  nothing is assumed of that order.
\<close>

section \<open>Selectors and access paths\<close>

datatype selector = FieldSelector (field_name: string)

definition FieldSelector_ToString :: "string \<Rightarrow> string" where
  "FieldSelector_ToString name = ''.'' @ name"

fun Selector_ToString :: "selector \<Rightarrow> string" where
  "Selector_ToString (FieldSelector name) = FieldSelector_ToString name"

text \<open>The path is stored in reverse, child first.\<close>

datatype access_path_selectors = AccessPathSelectors (reverse_selectors: "selector list")

definition empty_path :: access_path_selectors where
  "empty_path = AccessPathSelectors []"

definition leaf_path :: "selector \<Rightarrow> access_path_selectors" where
  "leaf_path leaf = AccessPathSelectors [leaf]"

definition add_parent :: "selector \<Rightarrow> access_path_selectors \<Rightarrow> access_path_selectors" where
  "add_parent parent_selector child_path =
     AccessPathSelectors (reverse_selectors child_path @ [parent_selector])"

text \<open>What \<^verbatim>\<open>begin()\<close> and \<^verbatim>\<open>end()\<close> iterate over: the selectors from the parent down.\<close>

definition path_range :: "access_path_selectors \<Rightarrow> selector list" where
  "path_range p = rev (reverse_selectors p)"

definition AccessPathSelectors_ToString :: "access_path_selectors \<Rightarrow> string" where
  "AccessPathSelectors_ToString p = concat (map Selector_ToString (rev (reverse_selectors p)))"

section \<open>Sets of access paths\<close>

datatype access_path_set = AccessPathSelectorsSet (inner_vec: "access_path_selectors list")

definition path_set_Union :: "access_path_set \<Rightarrow> access_path_set \<Rightarrow> access_path_set" where
  "path_set_Union set1 set2 = AccessPathSelectorsSet (inner_vec set1 @ inner_vec set2)"

definition CreateAbslSet :: "access_path_set \<Rightarrow> access_path_selectors set" where
  "CreateAbslSet original_set = set (inner_vec original_set)"

definition path_set_Intersect :: "access_path_set \<Rightarrow> access_path_set \<Rightarrow> access_path_set" where
  "path_set_Intersect set1 set2 =
     AccessPathSelectorsSet (filter (\<lambda>path. path \<in> CreateAbslSet set1) (inner_vec set2))"

definition AddParentToAll :: "selector \<Rightarrow> access_path_set \<Rightarrow> access_path_set" where
  "AddParentToAll parent_selector child_set =
     AccessPathSelectorsSet (map (add_parent parent_selector) (inner_vec child_set))"

section \<open>Types and schemas\<close>

datatype ty = PrimitiveType | EntityType (entity_schema: schema)
  and schema = Schema (schema_name: "string option") (schema_fields: "(string \<times> ty) list")

datatype type_kind = kPrimitive | kEntity

fun TypeBase_kind :: "ty \<Rightarrow> type_kind" where
  "TypeBase_kind PrimitiveType = kPrimitive"
| "TypeBase_kind (EntityType _) = kEntity"

fun GetAccessPathSelectorsSet :: "ty \<Rightarrow> access_path_set"
  and Schema_GetAccessPathSelectorsSet :: "schema \<Rightarrow> access_path_set"
  and fields_paths :: "(string \<times> ty) list \<Rightarrow> access_path_set \<Rightarrow> access_path_set"
where
  "GetAccessPathSelectorsSet PrimitiveType = AccessPathSelectorsSet [empty_path]"
| "GetAccessPathSelectorsSet (EntityType s) = Schema_GetAccessPathSelectorsSet s"
| "Schema_GetAccessPathSelectorsSet (Schema name fields) =
     (if fields = [] then AccessPathSelectorsSet [empty_path]
      else fields_paths fields (AccessPathSelectorsSet []))"
| "fields_paths [] result = result"
| "fields_paths ((name, t) # rest) result =
     fields_paths rest
       (path_set_Union result
          (AddParentToAll (FieldSelector name) (GetAccessPathSelectorsSet t)))"

fun Schema_ToString :: "schema \<Rightarrow> string" where
  "Schema_ToString (Schema name fields) =
     (let schema_name = (case name of None \<Rightarrow> '''' | Some n \<Rightarrow> n);
          field_string = (\<lambda>(n, t). ''  '' @ n @ '': '' @
             (if TypeBase_kind t = kPrimitive then ''primitive'' else ''entity''));
          fields_to_string = sort (map field_string fields);
          join = (\<lambda>xs. case xs of [] \<Rightarrow> [] | y # ys \<Rightarrow> y @ concat (map (\<lambda>z. [CHR 10] @ z) ys))
      in ''schema '' @ schema_name @ (if schema_name = '''' then ''{'' @ [CHR 10] else '' {'' @ [CHR 10])
         @ join fields_to_string @ [CHR 10] @ ''}'')"

text \<open>
  The factory owns the schemas it registered; \<^verbatim>\<open>RegisterSchema\<close> appends one and returns it.
\<close>

type_synonym type_factory = "schema list"

definition MakePrimitiveType :: "type_factory \<Rightarrow> ty" where
  "MakePrimitiveType f = PrimitiveType"

definition MakeEntityType :: "type_factory \<Rightarrow> schema \<Rightarrow> ty" where
  "MakeEntityType f s = EntityType s"

definition RegisterSchema ::
  "type_factory \<Rightarrow> string option \<Rightarrow> (string \<times> ty) list \<Rightarrow> schema \<times> type_factory" where
  "RegisterSchema f name fields = (Schema name fields, f @ [Schema name fields])"

section \<open>Types as protos\<close>

datatype primitive_type_proto = TEXT

datatype type_proto =
    DATA_NOT_SET
  | TypeProto_primitive primitive_type_proto
  | TypeProto_entity entity_type_proto
  and entity_type_proto = EntityTypeProto "schema_proto option"
  and schema_proto = SchemaProto (names: "string list") (proto_fields: "(string \<times> type_proto) list")

text \<open>
  A schema message has its fields in a protobuf map and a schema has them in a hash map. A loop over a
  map visits its entries in an order that depends on the map: the argument \<open>ord\<close> says in which
  order the names of the fields come. The entries of \<open>m'\<close> are what the loop has for the names of \<open>m\<close>.
\<close>

type_synonym 'a field_order = "(string \<times> 'a) list \<Rightarrow> string list"

definition in_order :: "'a field_order \<Rightarrow> (string \<times> 'a) list \<Rightarrow> (string \<times> 'b) list \<Rightarrow> (string \<times> 'b) list" where
  "in_order ord m m' = List.map_filter (\<lambda>name. map_option (Pair name) (map_of m' name)) (ord m)"

definition decode_field ::
  "string \<times> (type_factory \<Rightarrow> (ty \<times> type_factory) result) \<Rightarrow> (string, ty) hash_map \<times> type_factory
     \<Rightarrow> ((string, ty) hash_map \<times> type_factory) result" where
  "decode_field entry st =
     rbind (snd entry (snd st)) (\<lambda>(t, f). Inr (fst (hm_insert (fst entry) t (fst st)), f))"

fun Decode :: "type_proto field_order \<Rightarrow> type_factory \<Rightarrow> type_proto \<Rightarrow> (ty \<times> type_factory) result"
  and decode_entity :: "type_proto field_order \<Rightarrow> type_factory \<Rightarrow> entity_type_proto \<Rightarrow> (ty \<times> type_factory) result"
  and decode_schema :: "type_proto field_order \<Rightarrow> type_factory \<Rightarrow> schema_proto \<Rightarrow> (schema \<times> type_factory) result"
  and decode_entries :: "type_proto field_order \<Rightarrow> (string \<times> type_proto) list
         \<Rightarrow> (string \<times> (type_factory \<Rightarrow> (ty \<times> type_factory) result)) list"
where
  "Decode ord f DATA_NOT_SET = Inl (Check_failed ''Found a TypeProto with an unset specific type.'')"
| "Decode ord f (TypeProto_primitive p) = Inr (MakePrimitiveType f, f)"
| "Decode ord f (TypeProto_entity e) = decode_entity ord f e"
| "decode_entity ord f (EntityTypeProto None) =
     Inl (Check_failed ''Schema is required for Entity types.'')"
| "decode_entity ord f (EntityTypeProto (Some s)) =
     rbind (decode_schema ord f s) (\<lambda>(schema, f'). Inr (MakeEntityType f' schema, f'))"
| "decode_schema ord f (SchemaProto ns fields) =
     rbind (check (length ns \<le> 1) ''Multiple names for a Schema not yet supported.'') (\<lambda>_.
     rbind (fold_result decode_field (in_order ord fields (decode_entries ord fields)) ([], f)) (\<lambda>(field_map, f').
     Inr (RegisterSchema f' (if length ns = 1 then Some (hd ns) else None) field_map)))"
| "decode_entries ord [] = []"
| "decode_entries ord ((fname, tp) # rest) = (fname, \<lambda>f. Decode ord f tp) # decode_entries ord rest"

definition encode_field :: "string \<times> type_proto result \<Rightarrow> (string, type_proto) hash_map \<Rightarrow> (string, type_proto) hash_map result" where
  "encode_field entry fields_map =
     rbind (snd entry) (\<lambda>p.
     rbind (check (snd (hm_insert (fst entry) p fields_map)) ''Found duplicate for field name'') (\<lambda>_.
     Inr (fst (hm_insert (fst entry) p fields_map))))"

fun Encode :: "ty field_order \<Rightarrow> ty \<Rightarrow> type_proto result"
  and encode_entity :: "ty field_order \<Rightarrow> schema \<Rightarrow> entity_type_proto result"
  and encode_schema :: "ty field_order \<Rightarrow> schema \<Rightarrow> schema_proto result"
  and encode_entries :: "ty field_order \<Rightarrow> (string \<times> ty) list \<Rightarrow> (string \<times> type_proto result) list"
where
  "Encode ord PrimitiveType = Inr (TypeProto_primitive TEXT)"
| "Encode ord (EntityType s) = rbind (encode_entity ord s) (\<lambda>e. Inr (TypeProto_entity e))"
| "encode_entity ord s = rbind (encode_schema ord s) (\<lambda>p. Inr (EntityTypeProto (Some p)))"
| "encode_schema ord (Schema n fields) =
     rbind (fold_result encode_field (in_order ord fields (encode_entries ord fields)) []) (\<lambda>fs.
     Inr (SchemaProto (case n of None \<Rightarrow> [] | Some x \<Rightarrow> [x]) fs))"
| "encode_entries ord [] = []"
| "encode_entries ord ((fname, t) # rest) = (fname, Encode ord t) # encode_entries ord rest"

section \<open>Well-formed types\<close>

text \<open>Every field map has distinct keys, at every level.\<close>

fun ty_wf :: "ty \<Rightarrow> bool" and schema_wf :: "schema \<Rightarrow> bool" and fields_wf :: "(string \<times> ty) list \<Rightarrow> bool"
where
  "ty_wf PrimitiveType = True"
| "ty_wf (EntityType s) = schema_wf s"
| "schema_wf (Schema n fields) = (distinct (map fst fields) \<and> fields_wf fields)"
| "fields_wf [] = True"
| "fields_wf ((n, t) # rest) = (ty_wf t \<and> fields_wf rest)"

section \<open>Paths: the vector is the set of root-to-leaf paths\<close>

fun leaf_paths :: "ty \<Rightarrow> selector list set"
  and schema_leaf_paths :: "schema \<Rightarrow> selector list set"
  and fields_leaf_paths :: "(string \<times> ty) list \<Rightarrow> selector list set"
where
  "leaf_paths PrimitiveType = {[]}"
| "leaf_paths (EntityType s) = schema_leaf_paths s"
| "schema_leaf_paths (Schema n fields) = (if fields = [] then {[]} else fields_leaf_paths fields)"
| "fields_leaf_paths [] = {}"
| "fields_leaf_paths ((n, t) # rest) =
     (Cons (FieldSelector n)) ` leaf_paths t \<union> fields_leaf_paths rest"

lemma path_range_add_parent [simp]: "path_range (add_parent s p) = s # path_range p"
  by (simp add: path_range_def add_parent_def)

lemma path_range_inj: "path_range p = path_range q \<longleftrightarrow> p = q"
  by (cases p; cases q) (simp add: path_range_def)

lemma path_set_simps [simp]:
  "CreateAbslSet (path_set_Union a b) = CreateAbslSet a \<union> CreateAbslSet b"
  "CreateAbslSet (path_set_Intersect a b) = CreateAbslSet a \<inter> CreateAbslSet b"
  "CreateAbslSet (AddParentToAll s a) = add_parent s ` CreateAbslSet a"
  "CreateAbslSet (AccessPathSelectorsSet xs) = set xs"
  by (auto simp: CreateAbslSet_def path_set_Union_def path_set_Intersect_def AddParentToAll_def)

lemma leaf_paths_correct_aux:
  "path_range ` CreateAbslSet (GetAccessPathSelectorsSet t) = leaf_paths t"
  "path_range ` CreateAbslSet (Schema_GetAccessPathSelectorsSet s) = schema_leaf_paths s"
  "path_range ` CreateAbslSet (fields_paths fs r) =
     path_range ` CreateAbslSet r \<union> fields_leaf_paths fs"
proof (induction t and s and fs r
    rule: GetAccessPathSelectorsSet_Schema_GetAccessPathSelectorsSet_fields_paths.induct)
  case 1
  show ?case by (simp add: path_range_def empty_path_def)
next
  case (3 n fs)
  then show ?case by (simp add: path_range_def empty_path_def)
next
  case (5 n t rest r)
  have "path_range ` CreateAbslSet (AddParentToAll (FieldSelector n) (GetAccessPathSelectorsSet t))
      = Cons (FieldSelector n) ` path_range ` CreateAbslSet (GetAccessPathSelectorsSet t)"
    by (simp add: image_image)
  with 5 show ?case by (simp add: image_Un Un_assoc)
qed simp_all

text \<open>A field's paths start with the field's selector, so distinct field names keep them apart.\<close>

lemma fields_leaf_paths_head:
  "p \<in> fields_leaf_paths fs \<Longrightarrow> \<exists>n q. n \<in> fst ` set fs \<and> p = FieldSelector n # q"
  by (induction fs) force+

lemma distinct_add_parent: "distinct (map (add_parent s) ps) = distinct ps"
proof -
  have "inj (add_parent s)"
    by (auto simp: inj_def add_parent_def intro: access_path_selectors.expand)
  then show ?thesis by (auto simp: distinct_map inj_def inj_on_def)
qed

lemma distinct_paths_aux:
  "ty_wf t \<Longrightarrow> distinct (inner_vec (GetAccessPathSelectorsSet t))"
  "schema_wf s \<Longrightarrow> distinct (inner_vec (Schema_GetAccessPathSelectorsSet s))"
  "fields_wf fs \<Longrightarrow> distinct (map fst fs) \<Longrightarrow> distinct (inner_vec r) \<Longrightarrow>
   path_range ` CreateAbslSet r \<inter> fields_leaf_paths fs = {} \<Longrightarrow>
   distinct (inner_vec (fields_paths fs r))"
proof (induction t and s and fs r
    rule: GetAccessPathSelectorsSet_Schema_GetAccessPathSelectorsSet_fields_paths.induct)
  case (5 n t rest r)
  let ?new = "AddParentToAll (FieldSelector n) (GetAccessPathSelectorsSet t)"
  have new: "path_range ` CreateAbslSet ?new = Cons (FieldSelector n) ` leaf_paths t"
    by (simp add: image_image leaf_paths_correct_aux(1) [symmetric])
  have apart: "Cons (FieldSelector n) ` leaf_paths t \<inter> fields_leaf_paths rest = {}"
    using 5(4) by (force dest: fields_leaf_paths_head)
  have "inner_vec ?new = map (add_parent (FieldSelector n)) (inner_vec (GetAccessPathSelectorsSet t))"
    by (simp add: AddParentToAll_def)
  with 5 have dnew: "distinct (inner_vec ?new)" by (simp add: distinct_add_parent)
  have "path_range ` CreateAbslSet r \<inter> path_range ` CreateAbslSet ?new = {}"
    using 5(6) unfolding new by auto
  then have "set (inner_vec r) \<inter> set (inner_vec ?new) = {}"
    unfolding CreateAbslSet_def by blast
  with 5(5) dnew have "distinct (inner_vec (path_set_Union r ?new))"
    by (simp add: path_set_Union_def)
  moreover have "path_range ` CreateAbslSet (path_set_Union r ?new)
      = path_range ` CreateAbslSet r \<union> Cons (FieldSelector n) ` leaf_paths t"
    by (simp only: path_set_simps(1) image_Un new)
  then have "path_range ` CreateAbslSet (path_set_Union r ?new) \<inter> fields_leaf_paths rest = {}"
    using 5(6) apart by auto
  ultimately show ?case using 5 by simp
qed (simp_all add: CreateAbslSet_def)

section \<open>The proto encoding loses nothing\<close>

text \<open>The schemas that decoding a type registers, in order: a schema after those of its fields.\<close>

fun registered :: "ty \<Rightarrow> schema list"
  and schema_registered :: "schema \<Rightarrow> schema list"
  and fields_registered :: "(string \<times> ty) list \<Rightarrow> schema list"
where
  "registered PrimitiveType = []"
| "registered (EntityType s) = schema_registered s"
| "schema_registered (Schema n fields) = fields_registered fields @ [Schema n fields]"
| "fields_registered [] = []"
| "fields_registered ((n, t) # rest) = registered t @ fields_registered rest"

text \<open>Two types are the same when they differ in the orders of their field maps only: when they agree
  with all fields sorted by name.\<close>

fun canon :: "ty \<Rightarrow> ty" and canon_schema :: "schema \<Rightarrow> schema" and canon_fields :: "(string \<times> ty) list \<Rightarrow> (string \<times> ty) list"
where
  "canon PrimitiveType = PrimitiveType"
| "canon (EntityType s) = EntityType (canon_schema s)"
| "canon_schema (Schema n fields) = Schema n (sort_key fst (canon_fields fields))"
| "canon_fields [] = []"
| "canon_fields ((n, t) # rest) = (n, canon t) # canon_fields rest"

definition names_order :: "'a field_order \<Rightarrow> bool" where
  "names_order ord \<longleftrightarrow> (\<forall>m. mset (ord m) = mset (map fst m))"

lemma names_order_simps [simp]: "names_order (map fst)" "names_order (\<lambda>m. rev (map fst m))"
  by (simp_all add: names_order_def)

lemma entries_eq:
  "encode_entries ord fs = map (apsnd (Encode ord)) fs"
  "canon_fields fs = map (apsnd canon) fs" "fields_registered fs = concat (map (registered \<circ> snd) fs)"
  "fields_wf fs = list_all (ty_wf \<circ> snd) fs"
  by (induction fs) auto+

lemma decode_entries_eq: "decode_entries ord ps = map (apsnd (\<lambda>p f. Decode ord f p)) ps"
  by (induction ps) auto

lemma map_filter_mset: "mset xs = mset ys \<Longrightarrow> mset (List.map_filter f xs) = mset (List.map_filter f ys)"
  by (simp add: List.map_filter_def)

lemma in_order_mset:
  assumes "names_order ord" and "distinct (map fst m')" and "mset (map fst m') = mset (map fst m)"
  shows "mset (in_order ord m m') = mset m'"
proof -
  have "List.map_filter (\<lambda>name. map_option (Pair name) (map_of m' name)) (map fst xs) = xs" if "set xs \<subseteq> set m'" for xs
    using that assms(2) by (induction xs) (auto simp: List.map_filter_simps)
  from this [of m'] have all: "List.map_filter (\<lambda>name. map_option (Pair name) (map_of m' name)) (map fst m') = m'" by simp
  have "mset (ord m) = mset (map fst m)" using assms(1) by (simp add: names_order_def)
  also have "\<dots> = mset (map fst m')" using assms(3) by simp
  finally show ?thesis unfolding in_order_def by (rule map_filter_mset [THEN trans]) (simp only: all)
qed

lemma in_order_apsnd: "in_order ord m (map (apsnd g) m') = map (apsnd g) (in_order ord m m')"
proof -
  have "map_of (map (apsnd g) m') name = map_option g (map_of m' name)" for name
    by (induction m') auto
  moreover have "List.map_filter (\<lambda>name. map_option (Pair name) (map_option g (F name))) xs =
      map (apsnd g) (List.map_filter (\<lambda>name. map_option (Pair name) (F name)) xs)" for F xs
    by (induction xs) (auto simp: List.map_filter_simps split: option.split)
  ultimately show ?thesis by (simp add: in_order_def)
qed

lemma hm_insert_fresh: "k \<notin> fst ` set m \<Longrightarrow> hm_insert k v m = (m @ [(k, v)], True)"
  by (simp add: hm_insert_def map_of_eq_None_iff [symmetric] split: option.splits)

lemma encode_fields_fold:
  "distinct (map fst (m @ ps)) \<Longrightarrow> fold_result encode_field (map (apsnd Inr) ps) m = Inr (m @ ps)"
  by (induction ps arbitrary: m) (auto simp: encode_field_def hm_insert_fresh)

lemma decode_fields_fold:
  assumes "distinct (map fst (m @ fs))" and "\<And>n t f. (n, t) \<in> set fs \<Longrightarrow> D t f = Inr (T t, f @ registered (T t))"
  shows "fold_result decode_field (map (apsnd D) fs) (m, f) =
    Inr (m @ map (apsnd T) fs, f @ fields_registered (map (apsnd T) fs))"
  using assms
proof (induction fs arbitrary: m f)
  case (Cons x fs)
  obtain n t where x: "x = (n, t)" by (cases x)
  have "decode_field (n, D t) (m, f) = Inr (m @ [(n, T t)], f @ registered (T t))"
    using Cons.prems(1) Cons.prems(2) [of n t f] by (simp add: x decode_field_def hm_insert_fresh)
  moreover have "D u g = Inr (T u, g @ registered (T u))" if "(k, u) \<in> set fs" for k u g
    using Cons.prems(2) [of k u g] that by simp
  ultimately show ?case using Cons.IH [of "m @ [(n, T t)]" "f @ registered (T t)"] Cons.prems(1) by (simp add: x)
qed simp

text \<open>What a type and the type read from its message have in common.\<close>

definition reread_type :: "type_proto field_order \<Rightarrow> ty \<Rightarrow> type_proto \<Rightarrow> ty \<Rightarrow> bool" where
  "reread_type ord t p t' \<longleftrightarrow> (\<forall>f. Decode ord f p = Inr (t', f @ registered t')) \<and> canon t' = canon t \<and> ty_wf t' \<and>
     mset (map canon_schema (registered t')) = mset (map canon_schema (registered t))"

lemma registered_fields_mset:
  "mset (map canon_schema (fields_registered fs)) = (\<Sum>x \<in># mset fs. mset (map canon_schema (registered (snd x))))"
  by (induction fs) (auto simp: entries_eq(3))

lemma schema_reread:
  assumes ords: "names_order ord" "names_order ord'" and names: "distinct (map fst fields)"
    and fields: "\<And>n t. (n, t) \<in> set fields \<Longrightarrow> Encode ord t = Inr (P t) \<and> reread_type ord' t (P t) (T t)"
  shows "\<exists>p s'. encode_schema ord (Schema n fields) = Inr p \<and>
    (\<forall>f. decode_schema ord' f p = Inr (s', f @ schema_registered s')) \<and> canon_schema s' = canon_schema (Schema n fields) \<and> schema_wf s' \<and>
    mset (map canon_schema (schema_registered s')) = mset (map canon_schema (schema_registered (Schema n fields)))"
proof -
  let ?fs1 = "in_order ord fields fields"
  let ?ps = "map (apsnd P) ?fs1"
  let ?fs2 = "in_order ord' ?ps ?fs1"
  let ?s = "Schema n (map (apsnd T) ?fs2)"
  have fs1: "mset ?fs1 = mset fields" using in_order_mset [OF ords(1) names] by simp
  then have names1: "distinct (map fst ?fs1)" using names by (metis mset_eq_imp_distinct_iff mset_map)
  have fs2: "mset ?fs2 = mset ?fs1" by (rule in_order_mset [OF ords(2) names1]) (simp add: image_mset.compositionality comp_def)
  then have names2: "distinct (map fst ?fs2)" using names1 by (metis mset_eq_imp_distinct_iff mset_map)
  have sets: "set ?fs1 = set fields" "set ?fs2 = set fields" using mset_eq_setD [OF fs1] mset_eq_setD [OF fs2] by simp_all
  have all: "\<forall>x \<in> set fields. Encode ord (snd x) = Inr (P (snd x)) \<and> reread_type ord' (snd x) (P (snd x)) (T (snd x))"
    using fields by force
  have "encode_entries ord fields = map (apsnd (Inr \<circ> P)) fields" using all by (auto simp: entries_eq)
  then have "in_order ord fields (encode_entries ord fields) = map (apsnd (Inr \<circ> P)) ?fs1" by (simp only: in_order_apsnd)
  then have "in_order ord fields (encode_entries ord fields) = map (apsnd Inr) ?ps" by (simp add: apsnd_compose)
  moreover have "distinct (map fst ([] @ ?ps))" using names1 by (simp add: comp_def)
  ultimately have p: "encode_schema ord (Schema n fields) = Inr (SchemaProto (case n of None \<Rightarrow> [] | Some x \<Rightarrow> [x]) ?ps)"
    using encode_fields_fold [of "[]" ?ps] by simp
  let ?D = "\<lambda>t f. Decode ord' f (P t)"
  have "decode_entries ord' ?ps = map (apsnd ?D) ?fs1" by (simp add: decode_entries_eq apsnd_def map_prod_def split_beta)
  then have "in_order ord' ?ps (decode_entries ord' ?ps) = map (apsnd ?D) ?fs2" by (simp only: in_order_apsnd)
  moreover have "fold_result decode_field (map (apsnd ?D) ?fs2) ([], f) =
      Inr (map (apsnd T) ?fs2, f @ fields_registered (map (apsnd T) ?fs2))" for f
    using decode_fields_fold [of "[]" ?fs2 ?D T f] names2 fields by (simp add: reread_type_def sets)
  ultimately have decode: "decode_schema ord' f (SchemaProto (case n of None \<Rightarrow> [] | Some x \<Rightarrow> [x]) ?ps) =
      Inr (?s, f @ schema_registered ?s)" for f
    by (cases n) (simp_all add: RegisterSchema_def)
  have canon: "canon_fields (map (apsnd T) ?fs2) = map (apsnd canon) ?fs2" using all by (auto simp: entries_eq reread_type_def sets)
  have "sort_key fst (map (apsnd canon) ?fs2) = sort_key fst (map (apsnd canon) fields)"
  proof (rule sort_key_inj_key_eq)
    show "mset (map (apsnd canon) ?fs2) = mset (sort_key fst (map (apsnd canon) fields))" using fs1 fs2 by simp
    show "inj_on fst (set (map (apsnd canon) ?fs2))" using names2 by (auto simp: distinct_map inj_on_def)
  qed simp
  then have "canon_schema ?s = canon_schema (Schema n fields)" by (simp add: canon) (simp add: entries_eq)
  moreover have "schema_wf ?s" using names2 all by (auto simp: entries_eq list_all_iff reread_type_def comp_def sets)
  moreover have "mset (map canon_schema (fields_registered (map (apsnd T) ?fs2))) = mset (map canon_schema (fields_registered fields))"
  proof -
    have "mset (map canon_schema (fields_registered (map (apsnd T) ?fs2))) = (\<Sum>x \<in># mset ?fs2. mset (map canon_schema (registered (T (snd x)))))"
      unfolding registered_fields_mset by (simp add: image_mset.compositionality comp_def)
    also have "\<dots> = (\<Sum>x \<in># mset ?fs2. mset (map canon_schema (registered (snd x))))"
      using all by (intro arg_cong [where f = sum_mset] image_mset_cong) (auto simp: reread_type_def sets)
    finally show ?thesis unfolding registered_fields_mset fs1 fs2 .
  qed
  ultimately show ?thesis using p decode by (intro exI conjI allI) (auto simp: fs1)
qed

lemma reread_type_exists:
  assumes ords: "names_order ord" "names_order ord'"
  shows "ty_wf t \<Longrightarrow> \<exists>p t'. Encode ord t = Inr p \<and> reread_type ord' t p t'"
proof (induction "size t" arbitrary: t rule: less_induct)
  case less
  show ?case
  proof (cases t)
    case PrimitiveType
    then show ?thesis by (auto simp: reread_type_def MakePrimitiveType_def)
  next
    case (EntityType s)
    obtain n fields where s: "s = Schema n fields" by (cases s)
    have "\<forall>x \<in> set fields. \<exists>p t'. Encode ord (snd x) = Inr p \<and> reread_type ord' (snd x) p t'"
    proof
      fix x assume x: "x \<in> set fields"
      have "size (snd x) < size t"
        using size_list_estimation' [OF x, of "size (snd x)" "size_prod (\<lambda>_. 0) size"] by (cases x) (simp add: EntityType s)
      moreover have "ty_wf (snd x)" using less.prems x by (auto simp: EntityType s entries_eq list_all_iff)
      ultimately show "\<exists>p t'. Encode ord (snd x) = Inr p \<and> reread_type ord' (snd x) p t'" by (rule less.hyps)
    qed
    then have "\<forall>t \<in> snd ` set fields. \<exists>q. Encode ord t = Inr (fst q) \<and> reread_type ord' t (fst q) (snd q)" by auto
    then obtain Q where "\<forall>t \<in> snd ` set fields. Encode ord t = Inr (fst (Q t)) \<and> reread_type ord' t (fst (Q t)) (snd (Q t))"
      by (rule bchoice [THEN exE])
    then have "Encode ord t = Inr (fst (Q t)) \<and> reread_type ord' t (fst (Q t)) (snd (Q t))" if "(k, t) \<in> set fields" for k t
      using that by force
    moreover have "distinct (map fst fields)" using less.prems by (simp add: EntityType s)
    ultimately obtain p s' where "encode_schema ord s = Inr p"
      "\<forall>f. decode_schema ord' f p = Inr (s', f @ schema_registered s')" "canon_schema s' = canon_schema s" "schema_wf s'"
      "mset (map canon_schema (schema_registered s')) = mset (map canon_schema (schema_registered s))"
      using schema_reread [OF ords, of fields "\<lambda>t. fst (Q t)" "\<lambda>t. snd (Q t)" n] unfolding s by blast
    then show ?thesis
      by (intro exI [of _ "TypeProto_entity (EntityTypeProto (Some p))"] exI [of _ "EntityType s'"])
        (simp add: EntityType reread_type_def MakeEntityType_def)
  qed
qed

section \<open>Properties\<close>

text \<open>C37: The access paths a type computes are exactly the root-to-leaf paths of its fields,
  whatever the order of its field maps: \<^verbatim>\<open>Type::GetAccessPathSelectorsSet\<close> over
  \<^verbatim>\<open>Schema::GetAccessPathSelectorsSet\<close>, read from the parent down.\<close>

theorem access_paths_are_leaf_paths:
  "path_range ` CreateAbslSet (GetAccessPathSelectorsSet t) = leaf_paths t"
  by (rule leaf_paths_correct_aux)

text \<open>The vector behind an \<^verbatim>\<open>AccessPathSelectorsSet\<close> never holds a path twice for a
  type whose field maps are maps, although \<^verbatim>\<open>Union\<close> only concatenates: so the vector has as
  many paths as the type has leaves.\<close>

theorem access_paths_distinct:
  assumes "ty_wf t"
  shows "distinct (inner_vec (GetAccessPathSelectorsSet t)) \<and>
    length (inner_vec (GetAccessPathSelectorsSet t)) = card (leaf_paths t)"
proof -
  have "card (leaf_paths t) = card (CreateAbslSet (GetAccessPathSelectorsSet t))"
    unfolding leaf_paths_correct_aux(1) [symmetric]
    by (intro card_image inj_onI) (simp add: path_range_inj)
  with distinct_paths_aux(1) [OF assms] show ?thesis
    by (simp add: CreateAbslSet_def distinct_card)
qed

definition person_type :: ty where
  "person_type = EntityType (Schema (Some ''Person'')
     [(''name'', PrimitiveType), (''address'', EntityType (Schema None [(''city'', PrimitiveType)]))])"

lemma person_type_wf: "ty_wf person_type"
  by (simp add: person_type_def)

theorem access_paths_distinct_witness:
  "map AccessPathSelectors_ToString (inner_vec (GetAccessPathSelectorsSet person_type))
     = [''.name'', ''.address.city''] \<and>
   distinct (inner_vec (GetAccessPathSelectorsSet person_type)) \<and>
   length (inner_vec (GetAccessPathSelectorsSet person_type)) = card (leaf_paths person_type)"
  using access_paths_distinct [OF person_type_wf]
  by (simp add: person_type_def path_set_Union_def AddParentToAll_def add_parent_def empty_path_def
      AccessPathSelectors_ToString_def FieldSelector_ToString_def)

text \<open>C36: Encoding a type as a proto never fails when its field maps are maps, and decoding
  that proto with any type factory returns the type, up to the order of its fields, and leaves the factory with exactly the
  type's schemas appended, each after the schemas of its fields. This holds for all orders in which the
  field maps of the schemas and of the messages are visited.\<close>

theorem type_proto_roundtrip:
  assumes "ty_wf t" and "names_order ord" and "names_order ord'"
  shows "\<exists>p t'. Encode ord t = Inr p \<and> (\<forall>f. Decode ord' f p = Inr (t', f @ registered t')) \<and> canon t' = canon t \<and>
    mset (map canon_schema (registered t')) = mset (map canon_schema (registered t))"
  using reread_type_exists [OF assms(2,3,1)] by (auto simp: reread_type_def)

theorem type_proto_roundtrip_witness:
  "\<exists>p t'. Encode (\<lambda>m. rev (map fst m)) person_type = Inr p \<and> Decode (map fst) [] p = Inr (t', registered t') \<and>
     canon t' = EntityType (Schema (Some ''Person'')
       [(''address'', EntityType (Schema None [(''city'', PrimitiveType)])), (''name'', PrimitiveType)])"
proof -
  have "canon person_type = EntityType (Schema (Some ''Person'')
       [(''address'', EntityType (Schema None [(''city'', PrimitiveType)])), (''name'', PrimitiveType)])" by code_simp
  with type_proto_roundtrip [OF person_type_wf, of "\<lambda>m. rev (map fst m)" "map fst"] show ?thesis by auto
qed

end
