(* ===== verification/Ir_Core.thy ===== *)
theory Ir_Core imports
  Type_System
  "HOL-Library.Word"
begin

text \<open>
  The data model of the IR: \<^verbatim>\<open>src/ir/operator.h\<close>, \<^verbatim>\<open>value.h\<close>, \<^verbatim>\<open>attributes/*.h\<close>,
  \<^verbatim>\<open>data_decl.h\<close>, \<^verbatim>\<open>storage.h\<close>, \<^verbatim>\<open>module.h\<close>, \<^verbatim>\<open>block_builder.h\<close>, \<^verbatim>\<open>ir_context.h\<close> and the
  traversal of \<^verbatim>\<open>ir_traversing_visitor.h\<close>.

  Values refer to blocks, operations and storages by address. An address is a number here, and
  a \<^verbatim>\<open>unique_ptr\<close> is the pair of the address and the object. Operators are immutable and
  owned by the context, so an operation holds the operator's value.
\<close>

section \<open>Operators, values and attributes\<close>

type_synonym op_id = nat
type_synonym block_id = nat
type_synonym module_id = nat
type_synonym storage_id = nat

record operator =
  op_name :: string
  number_of_return_values :: nat

definition make_operator :: "string \<Rightarrow> operator" where
  "make_operator name = \<lparr>op_name = name, number_of_return_values = 1\<rparr>"

datatype ir_value =
    BlockArgument block_id nat
  | OperationResult op_id nat
  | StoredValue storage_id
  | Any

definition kDefaultValueIndex :: nat where
  "kDefaultValueIndex = 0"

definition MakeDefaultOperationResultValue :: "op_id \<Rightarrow> ir_value" where
  "MakeDefaultOperationResultValue oid = OperationResult oid kDefaultValueIndex"

definition MakeOperationResultValue :: "op_id \<Rightarrow> nat \<Rightarrow> ir_value" where
  "MakeOperationResultValue oid index = OperationResult oid index"

fun is_operation_result :: "ir_value \<Rightarrow> bool" where
  "is_operation_result (OperationResult _ _) = True"
| "is_operation_result _ = False"

text \<open>
  A \<^verbatim>\<open>double\<close> is its IEEE-754 bit pattern, so that equality is C++'s: a NaN differs from
  itself and the two zeros are equal. An \<^verbatim>\<open>int64_t\<close> payload is an \<open>int\<close>.
\<close>

type_synonym double = "64 word"

datatype attribute =
    FloatAttribute double
  | Int64Attribute int
  | StringAttribute string

datatype attribute_kind = kInt64 | kString | kFloat

fun kind_of_attribute :: "attribute \<Rightarrow> attribute_kind" where
  "kind_of_attribute (FloatAttribute _) = kFloat"
| "kind_of_attribute (Int64Attribute _) = kInt64"
| "kind_of_attribute (StringAttribute _) = kString"

definition double_is_nan :: "double \<Rightarrow> bool" where
  "double_is_nan d \<longleftrightarrow> drop_bit 52 (take_bit 63 d) = 2047 \<and> take_bit 52 d \<noteq> 0"

definition double_eq :: "double \<Rightarrow> double \<Rightarrow> bool" where
  "double_eq x y \<longleftrightarrow> \<not> double_is_nan x \<and> \<not> double_is_nan y \<and>
     (x = y \<or> take_bit 63 x = 0 \<and> take_bit 63 y = 0)"

fun IsEqual :: "attribute \<Rightarrow> attribute \<Rightarrow> bool" where
  "IsEqual (FloatAttribute x) (FloatAttribute y) = double_eq x y"
| "IsEqual (Int64Attribute x) (Int64Attribute y) = (x = y)"
| "IsEqual (StringAttribute x) (StringAttribute y) = (x = y)"
| "IsEqual _ _ = False"

text \<open>\<^verbatim>\<open>operator==\<close> compares the pointers first: \<open>same_object\<close> says they are equal.\<close>

definition attribute_eq :: "bool \<Rightarrow> attribute \<Rightarrow> attribute \<Rightarrow> bool" where
  "attribute_eq same_object lhs rhs = (if same_object then True else IsEqual lhs rhs)"

fun GetIf_Float :: "attribute \<Rightarrow> double option" where
  "GetIf_Float (FloatAttribute d) = Some d"
| "GetIf_Float _ = None"

fun GetIf_Int64 :: "attribute \<Rightarrow> int option" where
  "GetIf_Int64 (Int64Attribute i) = Some i"
| "GetIf_Int64 _ = None"

fun GetIf_String :: "attribute \<Rightarrow> string option" where
  "GetIf_String (StringAttribute s) = Some s"
| "GetIf_String _ = None"

text \<open>\<open>lg\<close> is what \<^verbatim>\<open>absl::StrFormat\<close> prints for the conversion \<^verbatim>\<open>%lg\<close>.\<close>

fun Attribute_ToString :: "(double \<Rightarrow> string) \<Rightarrow> attribute \<Rightarrow> string" where
  "Attribute_ToString lg (FloatAttribute d) = lg d @ ''l''"
| "Attribute_ToString lg (Int64Attribute i) = string_of_int i"
| "Attribute_ToString lg (StringAttribute s) = [CHR 34] @ s @ [CHR 34]"

type_synonym named_attribute_map = "(string, attribute) hash_map"

section \<open>Data declarations and storages\<close>

record data_decl =
  decl_name :: string
  decl_type :: ty

type_synonym data_decl_collection = "(string, data_decl) hash_map"

definition AddDecl :: "string \<Rightarrow> ty \<Rightarrow> data_decl_collection \<Rightarrow> data_decl_collection result" where
  "AddDecl name t decls =
     (let (decls', inserted) = hm_insert name \<lparr>decl_name = name, decl_type = t\<rparr> decls
      in rbind (check inserted ''Adding a duplicate declaration'') (\<lambda>_. Inr decls'))"

definition FindDecl :: "string \<Rightarrow> data_decl_collection \<Rightarrow> data_decl option" where
  "FindDecl name decls = map_of decls name"

record storage =
  storage_name :: string
  storage_type :: ty
  input_values :: "ir_value hash_set"

definition make_storage :: "string \<Rightarrow> ty \<Rightarrow> storage" where
  "make_storage name t = \<lparr>storage_name = name, storage_type = t, input_values = []\<rparr>"

definition Storage_AddInputValue :: "ir_value \<Rightarrow> storage \<Rightarrow> storage" where
  "Storage_AddInputValue v s = s\<lparr>input_values := hs_insert v (input_values s)\<rparr>"

definition Storage_ToString :: "storage \<Rightarrow> string" where
  "Storage_ToString s = ''store:'' @ storage_name s @ '':type''"

section \<open>Operations, blocks and modules\<close>

record operation =
  parent :: "block_id option"
  op_of :: operator
  attributes :: named_attribute_map
  inputs :: "ir_value list"

definition make_operation ::
  "block_id option \<Rightarrow> operator \<Rightarrow> named_attribute_map \<Rightarrow> ir_value list \<Rightarrow> operation" where
  "make_operation p oprt attrs ins = \<lparr>parent = p, op_of = oprt, attributes = attrs, inputs = ins\<rparr>"

definition GetInputValue :: "operation \<Rightarrow> nat \<Rightarrow> ir_value result" where
  "GetInputValue operation index =
     rbind (check (index < length (inputs operation))
              ''Operation:GetInputValue fails because index is out of bounds'')
       (\<lambda>_. Inr (inputs operation ! index))"

definition NumberOfOutputs :: "operation \<Rightarrow> nat" where
  "NumberOfOutputs operation = number_of_return_values (op_of operation)"

definition GetOutputValue :: "op_id \<times> operation \<Rightarrow> nat \<Rightarrow> ir_value result" where
  "GetOutputValue oper index =
     rbind (check (index < number_of_return_values (op_of (snd oper)))
              ''Operation:GetOutputValue fails because index is out of bounds'')
       (\<lambda>_. Inr (MakeOperationResultValue (fst oper) index))"

definition AddInput :: "ir_value \<Rightarrow> operation \<Rightarrow> operation" where
  "AddInput v operation = operation\<lparr>inputs := inputs operation @ [v]\<rparr>"

definition AddAttribute :: "string \<Rightarrow> attribute \<Rightarrow> operation \<Rightarrow> operation" where
  "AddAttribute name v operation =
     operation\<lparr>attributes := fst (hm_insert name v (attributes operation))\<rparr>"

definition set_parent :: "block_id \<Rightarrow> operation \<Rightarrow> operation" where
  "set_parent b operation = operation\<lparr>parent := Some b\<rparr>"

record block =
  parent_module :: "module_id option"
  block_inputs :: data_decl_collection
  block_outputs :: data_decl_collection
  operations :: "(op_id \<times> operation) list"
  results :: "(string, ir_value) hash_map"

definition empty_block :: block where
  "empty_block = \<lparr>parent_module = None, block_inputs = [], block_outputs = [],
     operations = [], results = []\<rparr>"

record ir_module =
  blocks :: "(block_id \<times> block) list"
  named_storage_map :: "(string, storage_id \<times> storage) hash_map"

definition empty_module :: ir_module where
  "empty_module = \<lparr>blocks = [], named_storage_map = []\<rparr>"

definition AddBlock :: "module_id \<Rightarrow> block_id \<times> block \<Rightarrow> ir_module \<Rightarrow> ir_module result" where
  "AddBlock this b m =
     rbind (check (parent_module (snd b) = None) ''Attempt to add a Block to two different Modules!'')
       (\<lambda>_. Inr (m\<lparr>blocks := blocks m @ [(fst b, (snd b)\<lparr>parent_module := Some this\<rparr>)]\<rparr>))"

definition CreateStorage :: "string \<Rightarrow> ty \<Rightarrow> storage_id \<Rightarrow> ir_module \<Rightarrow> ir_module result" where
  "CreateStorage name t addr m =
     (let (sm, inserted) = hm_insert name (addr, make_storage name t) (named_storage_map m)
      in rbind (check inserted ''Multiple stores with name'')
           (\<lambda>_. Inr (m\<lparr>named_storage_map := sm\<rparr>)))"

definition Module_GetStorage :: "string \<Rightarrow> ir_module \<Rightarrow> (storage_id \<times> storage) result" where
  "Module_GetStorage name m =
     check_some (map_of (named_storage_map m) name) ''Could not find Storage with name''"

definition AddInputValueToStorage :: "string \<Rightarrow> ir_value \<Rightarrow> ir_module \<Rightarrow> ir_module result" where
  "AddInputValueToStorage name v m =
     rbind (check_some (map_of (named_storage_map m) name) ''find_result != named_storage_map_.end()'')
       (\<lambda>(addr, s). Inr (m\<lparr>named_storage_map :=
          hm_assign name (addr, Storage_AddInputValue v s) (named_storage_map m)\<rparr>))"

text \<open>All operations of a module in the order the traversal meets them.\<close>

definition module_operations :: "ir_module \<Rightarrow> (op_id \<times> operation) list" where
  "module_operations m = concat (map (\<lambda>b. operations (snd b)) (blocks m))"

section \<open>The block builder\<close>

text \<open>
  \<^verbatim>\<open>block_\<close> is null once \<^verbatim>\<open>build\<close> has moved the block out. The block's address does not
  change when it is moved.
\<close>

record block_builder =
  builder_block :: "(block_id \<times> block) option"

definition IsBuilt :: "block_builder \<Rightarrow> bool" where
  "IsBuilt b \<longleftrightarrow> builder_block b = None"

definition new_builder :: "block_id \<Rightarrow> block_builder" where
  "new_builder addr = \<lparr>builder_block = Some (addr, empty_block)\<rparr>"

definition unbuilt :: "block_builder \<Rightarrow> (block_id \<times> block) result" where
  "unbuilt b = check_some (builder_block b)
     ''Attempt to use a `BlockBuilder` that has already been built.''"

definition put_block :: "block_id \<Rightarrow> block \<Rightarrow> block_builder" where
  "put_block addr blk = \<lparr>builder_block = Some (addr, blk)\<rparr>"

definition Builder_AddInput :: "string \<Rightarrow> ty \<Rightarrow> block_builder \<Rightarrow> block_builder result" where
  "Builder_AddInput name t b =
     rbind (unbuilt b) (\<lambda>(addr, blk).
     rbind (AddDecl name t (block_inputs blk)) (\<lambda>decls.
     Inr (put_block addr (blk\<lparr>block_inputs := decls\<rparr>))))"

definition Builder_AddOutput :: "string \<Rightarrow> ty \<Rightarrow> block_builder \<Rightarrow> block_builder result" where
  "Builder_AddOutput name t b =
     rbind (unbuilt b) (\<lambda>(addr, blk).
     rbind (AddDecl name t (block_outputs blk)) (\<lambda>decls.
     Inr (put_block addr (blk\<lparr>block_outputs := decls\<rparr>))))"

definition Builder_AddResult :: "string \<Rightarrow> ir_value \<Rightarrow> block_builder \<Rightarrow> block_builder result" where
  "Builder_AddResult name output b =
     rbind (unbuilt b) (\<lambda>(addr, blk).
     rbind (check (FindDecl name (block_outputs blk) \<noteq> None) ''Output is not declared in the block.'')
       (\<lambda>_. Inr (put_block addr (blk\<lparr>results := fst (hm_insert name output (results blk))\<rparr>))))"

definition Builder_AddOperation ::
  "op_id \<times> operation \<Rightarrow> block_builder \<Rightarrow> block_builder result" where
  "Builder_AddOperation oper b =
     rbind (unbuilt b) (\<lambda>(addr, blk).
     rbind (check (parent (snd oper) = None)
       ''`AddOperation` received an operation with its Parent pointer already defined.'')
       (\<lambda>_. Inr (put_block addr (blk\<lparr>operations :=
              operations blk @ [(fst oper, set_parent addr (snd oper))]\<rparr>))))"

text \<open>
  The template \<^verbatim>\<open>AddOperation<T>\<close>: \<open>create\<close> is \<^verbatim>\<open>T::Create\<close>, which gets the block's
  address and returns the new operation (a failure inside it is the whole call's failure).
\<close>

definition Builder_AddOperation_T ::
  "(block_id \<Rightarrow> (op_id \<times> operation) result) \<Rightarrow> block_builder
     \<Rightarrow> ((op_id \<times> operation) \<times> block_builder) result" where
  "Builder_AddOperation_T create b =
     rbind (unbuilt b) (\<lambda>(addr, blk).
     rbind (create addr) (\<lambda>oper.
     rbind (check (parent (snd oper) = Some addr)
       ''`T::Create` did not set the correct parent block.'')
       (\<lambda>_. Inr (oper, put_block addr (blk\<lparr>operations := operations blk @ [oper]\<rparr>)))))"

text \<open>\<^verbatim>\<open>AddImplementation\<close> calls back with the builder itself and its block, here the address.\<close>

definition Builder_AddImplementation ::
  "(block_builder \<Rightarrow> block_id \<Rightarrow> block_builder result) \<Rightarrow> block_builder \<Rightarrow> block_builder result" where
  "Builder_AddImplementation callback b = rbind (unbuilt b) (\<lambda>(addr, blk). callback b addr)"

definition build :: "block_builder \<Rightarrow> ((block_id \<times> block) \<times> block_builder) result" where
  "build b = rbind (check_some (builder_block b)
       ''Attempt to build a `BlockBuilder` that has already been built.'')
     (\<lambda>blk. Inr (blk, \<lparr>builder_block = None\<rparr>))"

definition GetBlockPtr :: "block_builder \<Rightarrow> block_id result" where
  "GetBlockPtr b = rbind (check_some (builder_block b)
       ''Attempt to get block pointer from a `BlockBuilder` that has already been built.'')
     (\<lambda>blk. Inr (fst blk))"

section \<open>The context\<close>

text \<open>The template \<^verbatim>\<open>NamedIRNodeRegistry\<close>, with the node's \<^verbatim>\<open>name()\<close> as a parameter.\<close>

definition RegisterNode ::
  "('n \<Rightarrow> string) \<Rightarrow> 'n \<Rightarrow> (string, 'n) hash_map \<Rightarrow> (string, 'n) hash_map result" where
  "RegisterNode name_of node nodes =
     (let (nodes', inserted) = hm_insert (name_of node) node nodes
      in rbind (check inserted ''Cannot register duplicate'') (\<lambda>_. Inr nodes'))"

definition GetNode :: "string \<Rightarrow> (string, 'n) hash_map \<Rightarrow> 'n option" where
  "GetNode node_name nodes = map_of nodes node_name"

definition IsRegisteredNode :: "string \<Rightarrow> (string, 'n) hash_map \<Rightarrow> bool" where
  "IsRegisteredNode node_name nodes \<longleftrightarrow> map_of nodes node_name \<noteq> None"

record ir_context =
  ctx_operators :: "(string, operator) hash_map"
  ctx_storages :: "(string, storage_id \<times> storage) hash_map"
  type_factory :: type_factory

definition empty_context :: ir_context where
  "empty_context = \<lparr>ctx_operators = [], ctx_storages = [], type_factory = []\<rparr>"

definition RegisterOperator :: "operator \<Rightarrow> ir_context \<Rightarrow> ir_context result" where
  "RegisterOperator oprt c =
     rbind (RegisterNode op_name oprt (ctx_operators c)) (\<lambda>ns. Inr (c\<lparr>ctx_operators := ns\<rparr>))"

definition GetOperator :: "string \<Rightarrow> ir_context \<Rightarrow> operator option" where
  "GetOperator name c = GetNode name (ctx_operators c)"

definition IsRegisteredOperator :: "string \<Rightarrow> ir_context \<Rightarrow> bool" where
  "IsRegisteredOperator name c = IsRegisteredNode name (ctx_operators c)"

definition RegisterStorage :: "storage_id \<times> storage \<Rightarrow> ir_context \<Rightarrow> ir_context result" where
  "RegisterStorage s c =
     rbind (RegisterNode (\<lambda>x. storage_name (snd x)) s (ctx_storages c))
       (\<lambda>ns. Inr (c\<lparr>ctx_storages := ns\<rparr>))"

definition GetStorage :: "string \<Rightarrow> ir_context \<Rightarrow> (storage_id \<times> storage) option" where
  "GetStorage name c = GetNode name (ctx_storages c)"

definition IsRegisteredStorage :: "string \<Rightarrow> ir_context \<Rightarrow> bool" where
  "IsRegisteredStorage name c = IsRegisteredNode name (ctx_storages c)"

definition make_context ::
  "operator list \<Rightarrow> (storage_id \<times> storage) list \<Rightarrow> ir_context result" where
  "make_context ops storages =
     rbind (fold_result RegisterOperator ops empty_context) (fold_result RegisterStorage storages)"

section \<open>The traversing visitor\<close>

text \<open>
  The overridable methods of \<^verbatim>\<open>IRTraversingVisitor\<close>, over the state \<open>'s\<close> of the derived
  visitor; a method that is not overridden is the one of \<open>default_visitor\<close>.
\<close>

record ('s, 'r) visitor =
  FoldResult :: "'r \<Rightarrow> 'r \<Rightarrow> 's \<Rightarrow> ('r \<times> 's) result"
  PreVisit_module :: "module_id \<times> ir_module \<Rightarrow> 's \<Rightarrow> ('r \<times> 's) result"
  PostVisit_module :: "module_id \<times> ir_module \<Rightarrow> 'r \<Rightarrow> 's \<Rightarrow> ('r \<times> 's) result"
  PreVisit_block :: "block_id \<times> block \<Rightarrow> 's \<Rightarrow> ('r \<times> 's) result"
  PostVisit_block :: "block_id \<times> block \<Rightarrow> 'r \<Rightarrow> 's \<Rightarrow> ('r \<times> 's) result"
  PreVisit_operation :: "op_id \<times> operation \<Rightarrow> 's \<Rightarrow> ('r \<times> 's) result"
  PostVisit_operation :: "op_id \<times> operation \<Rightarrow> 'r \<Rightarrow> 's \<Rightarrow> ('r \<times> 's) result"

definition default_visitor :: "'r \<Rightarrow> ('s, 'r) visitor" where
  "default_visitor d = \<lparr>FoldResult = (\<lambda>acc child s. Inr (acc, s)),
     PreVisit_module = (\<lambda>_ s. Inr (d, s)), PostVisit_module = (\<lambda>_ r s. Inr (r, s)),
     PreVisit_block = (\<lambda>_ s. Inr (d, s)), PostVisit_block = (\<lambda>_ r s. Inr (r, s)),
     PreVisit_operation = (\<lambda>_ s. Inr (d, s)), PostVisit_operation = (\<lambda>_ r s. Inr (r, s))\<rparr>"

definition Visit_operation ::
  "('s, 'r) visitor \<Rightarrow> op_id \<times> operation \<Rightarrow> 's \<Rightarrow> ('r \<times> 's) result" where
  "Visit_operation v oper s =
     rbind (PreVisit_operation v oper s) (\<lambda>(r, s'). PostVisit_operation v oper r s')"

definition Visit_block :: "('s, 'r) visitor \<Rightarrow> block_id \<times> block \<Rightarrow> 's \<Rightarrow> ('r \<times> 's) result" where
  "Visit_block v b s =
     rbind (PreVisit_block v b s) (\<lambda>pre.
     rbind (fold_result (\<lambda>oper (acc, s'). rbind (Visit_operation v oper s')
              (\<lambda>(child, s''). FoldResult v acc child s'')) (operations (snd b)) pre)
       (\<lambda>(r, s'). PostVisit_block v b r s'))"

definition Visit_module ::
  "('s, 'r) visitor \<Rightarrow> module_id \<times> ir_module \<Rightarrow> 's \<Rightarrow> ('r \<times> 's) result" where
  "Visit_module v m s =
     rbind (PreVisit_module v m s) (\<lambda>pre.
     rbind (fold_result (\<lambda>b (acc, s'). rbind (Visit_block v b s')
              (\<lambda>(child, s''). FoldResult v acc child s'')) (blocks (snd m)) pre)
       (\<lambda>(r, s'). PostVisit_module v m r s'))"

section \<open>The contract of a registry\<close>

text \<open>
  Registering an entry fails exactly when its name is taken, and afterwards the name finds it
  and every other name finds what it found before.
\<close>

locale node_registry =
  fixes register :: "'n \<Rightarrow> 's \<Rightarrow> 's result"
    and lookup :: "string \<Rightarrow> 's \<Rightarrow> 'v option"
    and name_of :: "'n \<Rightarrow> string"
    and entry :: "'n \<Rightarrow> 'v"
  assumes register_ok: "is_ok (register n s) \<longleftrightarrow> lookup (name_of n) s = None"
    and lookup_register: "register n s = Inr s' \<Longrightarrow>
      lookup k s' = (if k = name_of n then Some (entry n) else lookup k s)"
begin

lemma lookup_stable:
  assumes "register n s = Inr s'" and "lookup k s = Some v"
  shows "lookup k s' = Some v"
  using assms register_ok [of n s] lookup_register [OF assms(1), of k] by auto

lemma register_all_iff:
  "is_ok (fold_result register ns s) \<longleftrightarrow>
     distinct (map name_of ns) \<and> (\<forall>n \<in> set ns. lookup (name_of n) s = None)"
proof (induction ns arbitrary: s)
  case (Cons n ns)
  show ?case
  proof (cases "register n s")
    case (Inl e)
    then have "lookup (name_of n) s \<noteq> None" using register_ok [of n s] by simp
    with Inl show ?thesis by simp
  next
    case (Inr s')
    then have "lookup (name_of n) s = None" using register_ok [of n s] by simp
    moreover have "lookup (name_of m) s' = None \<longleftrightarrow> name_of m \<noteq> name_of n \<and> lookup (name_of m) s = None"
      for m using lookup_register [OF Inr] by simp
    ultimately show ?thesis using Inr by (auto simp: Cons.IH image_iff)
  qed
qed simp

lemma lookup_register_all:
  assumes "fold_result register ns s = Inr s'"
  shows "lookup k s' = (case find (\<lambda>n. name_of n = k) ns of
     Some n \<Rightarrow> Some (entry n) | None \<Rightarrow> lookup k s)"
  using assms
proof (induction ns arbitrary: s)
  case (Cons n ns)
  then obtain t where t: "register n s = Inr t" and rest: "fold_result register ns t = Inr s'" by auto
  have "find (\<lambda>m. name_of m = name_of n) ns = None"
  proof -
    have "lookup (name_of n) t = Some (entry n)" using lookup_register [OF t] by simp
    moreover have "\<forall>m \<in> set ns. lookup (name_of m) t = None"
      using register_all_iff [of ns t] rest by simp
    ultimately show ?thesis by (auto simp: find_None_iff)
  qed
  with Cons.IH [OF rest] lookup_register [OF t, of k] show ?case
    by (auto split: option.splits)
qed simp

end

lemma registered_node_iff: "IsRegisteredNode k nodes \<longleftrightarrow> GetNode k nodes \<noteq> None"
  by (simp add: IsRegisteredNode_def GetNode_def)

lemma RegisterNode_eq: "RegisterNode name_of node nodes =
    (if GetNode (name_of node) nodes = None then Inr (nodes @ [(name_of node, node)])
     else Inl (Check_failed ''Cannot register duplicate''))"
  by (simp add: RegisterNode_def GetNode_def hm_insert_eq)

lemma GetNode_append: "GetNode name nodes = None \<Longrightarrow>
    GetNode k (nodes @ [(name, node)]) = (if k = name then Some node else GetNode k nodes)"
  by (auto simp: GetNode_def map_add_def split: option.splits)

interpretation operator_registry: node_registry RegisterOperator GetOperator op_name "\<lambda>x. x"
  by unfold_locales
    (auto simp: RegisterOperator_def GetOperator_def RegisterNode_eq GetNode_append split: if_splits)

interpretation storage_registry:
  node_registry RegisterStorage GetStorage "\<lambda>s. storage_name (snd s)" "\<lambda>s. s"
  by unfold_locales
    (auto simp: RegisterStorage_def GetStorage_def RegisterNode_eq GetNode_append split: if_splits)

interpretation decl_registry:
  node_registry "\<lambda>d. AddDecl (decl_name d) (decl_type d)" FindDecl decl_name "\<lambda>d. d"
  by unfold_locales
    (auto simp: AddDecl_def FindDecl_def hm_insert_eq map_add_def split: if_splits option.splits)

interpretation module_storage_registry:
  node_registry "\<lambda>(addr, name, t). CreateStorage name t addr"
    "\<lambda>name m. map_of (named_storage_map m) name" "\<lambda>(addr, name, t). name"
    "\<lambda>(addr, name, t). (addr, make_storage name t)"
  by unfold_locales
    (auto simp: CreateStorage_def hm_insert_eq map_add_def split: if_splits option.splits)

section \<open>What a block builder can build\<close>

text \<open>Every state a builder reaches by calls that succeed.\<close>

inductive builder_reach :: "block_id \<Rightarrow> block_builder \<Rightarrow> bool" for addr where
  new_block: "builder_reach addr (new_builder addr)"
| add_input: "builder_reach addr b \<Longrightarrow> Builder_AddInput name t b = Inr b' \<Longrightarrow> builder_reach addr b'"
| add_output: "builder_reach addr b \<Longrightarrow> Builder_AddOutput name t b = Inr b' \<Longrightarrow> builder_reach addr b'"
| add_result: "builder_reach addr b \<Longrightarrow> Builder_AddResult name v b = Inr b' \<Longrightarrow> builder_reach addr b'"
| add_operation: "builder_reach addr b \<Longrightarrow> Builder_AddOperation oper b = Inr b' \<Longrightarrow>
    builder_reach addr b'"
| add_operation_T: "builder_reach addr b \<Longrightarrow> Builder_AddOperation_T create b = Inr (oper, b') \<Longrightarrow>
    builder_reach addr b'"
| built: "builder_reach addr b \<Longrightarrow> build b = Inr (blk, b') \<Longrightarrow> builder_reach addr b'"

definition decls_wf :: "data_decl_collection \<Rightarrow> bool" where
  "decls_wf decls \<longleftrightarrow> hm_wf decls \<and> (\<forall>(name, d) \<in> set decls. decl_name d = name)"

definition block_wf :: "block_id \<Rightarrow> block \<Rightarrow> bool" where
  "block_wf addr blk \<longleftrightarrow> decls_wf (block_inputs blk) \<and> decls_wf (block_outputs blk) \<and>
     hm_wf (results blk) \<and> fst ` set (results blk) \<subseteq> fst ` set (block_outputs blk) \<and>
     (\<forall>oper \<in> set (operations blk). parent (snd oper) = Some addr)"

lemma AddDecl_wf: "AddDecl name t decls = Inr decls' \<Longrightarrow> decls_wf decls \<Longrightarrow>
    decls_wf decls' \<and> fst ` set decls' = insert name (fst ` set decls)"
  by (auto simp: AddDecl_def hm_insert_eq decls_wf_def hm_wf_def map_of_eq_None_iff split: if_splits)

lemma AddResult_wf: "FindDecl name (block_outputs blk) = Some d \<Longrightarrow> block_wf addr blk \<Longrightarrow>
    block_wf addr (blk\<lparr>results := fst (hm_insert name v (results blk))\<rparr>)"
  by (auto simp: block_wf_def keys_hm_insert FindDecl_def dest!: map_of_SomeD)
    (metis fst_conv imageI)

lemma block_wf_AddOperation: "parent (snd oper) = Some addr \<Longrightarrow> block_wf addr blk \<Longrightarrow>
    block_wf addr (blk\<lparr>operations := operations blk @ [oper]\<rparr>)"
  by (simp add: block_wf_def ball_Un)

lemma empty_block_wf: "block_wf addr empty_block"
  by (simp add: block_wf_def empty_block_def decls_wf_def)

lemma builder_reach_wf:
  "builder_reach addr b \<Longrightarrow> builder_block b = Some (a, blk) \<Longrightarrow> a = addr \<and> block_wf addr blk"
proof (induction arbitrary: a blk rule: builder_reach.induct)
  case new_block
  then show ?case by (auto simp: new_builder_def empty_block_wf)
next
  case (add_input b name t b')
  from add_input(2) obtain addr' blk' decls where old: "builder_block b = Some (addr', blk')"
    and decls: "AddDecl name t (block_inputs blk') = Inr decls"
    and new: "b' = put_block addr' (blk'\<lparr>block_inputs := decls\<rparr>)"
    by (auto simp: Builder_AddInput_def unbuilt_def)
  from add_input.prems new have blk: "a = addr'" "blk = blk'\<lparr>block_inputs := decls\<rparr>"
    by (simp_all add: put_block_def)
  from add_input.IH [OF old] AddDecl_wf [OF decls] blk show ?case
    by (auto simp: block_wf_def)
next
  case (add_output b name t b')
  from add_output(2) obtain addr' blk' decls where old: "builder_block b = Some (addr', blk')"
    and decls: "AddDecl name t (block_outputs blk') = Inr decls"
    and new: "b' = put_block addr' (blk'\<lparr>block_outputs := decls\<rparr>)"
    by (auto simp: Builder_AddOutput_def unbuilt_def)
  from add_output.prems new have blk: "a = addr'" "blk = blk'\<lparr>block_outputs := decls\<rparr>"
    by (simp_all add: put_block_def)
  from add_output.IH [OF old] AddDecl_wf [OF decls] blk show ?case
    by (auto simp: block_wf_def)
next
  case (add_result b name v b')
  then show ?case
    by (auto simp: Builder_AddResult_def unbuilt_def put_block_def intro!: AddResult_wf)
next
  case (add_operation b oper b')
  then show ?case
    by (auto simp: Builder_AddOperation_def unbuilt_def put_block_def set_parent_def
        intro!: block_wf_AddOperation)
next
  case (add_operation_T b create oper b')
  then show ?case
    by (auto simp: Builder_AddOperation_T_def unbuilt_def put_block_def
        intro!: block_wf_AddOperation)
next
  case (built b blk' b')
  then show ?case by (auto simp: build_def)
qed

text \<open>A callback of \<^verbatim>\<open>AddImplementation\<close> that only makes calls on the builder stays within reach.\<close>

lemma builder_reach_AddImplementation:
  assumes "Builder_AddImplementation callback b = Inr b'" and "builder_reach addr b"
    and "\<And>a c. builder_reach addr b \<Longrightarrow> callback b a = Inr c \<Longrightarrow> builder_reach addr c"
  shows "builder_reach addr b'"
  using assms by (auto simp: Builder_AddImplementation_def)

text \<open>A visitor that overrides \<^verbatim>\<open>PreVisit(const Operation &)\<close> only folds it over the operations.\<close>

lemma Visit_module_operations:
  assumes "v = (default_visitor d)\<lparr>PreVisit_operation := f\<rparr>"
  shows "Visit_module v m s =
    rbind (fold_result (\<lambda>oper s. rbind (f oper s) (\<lambda>(_, s'). Inr s')) (module_operations (snd m)) s)
      (\<lambda>s'. Inr (d, s'))"
proof -
  let ?g = "\<lambda>oper s. rbind (f oper s) (\<lambda>(_, s'). Inr s')"
  have ops: "fold_result (\<lambda>oper (acc, s'). rbind (Visit_operation v oper s')
        (\<lambda>(child, s''). FoldResult v acc child s'')) opers (e, t) =
      rbind (fold_result ?g opers t) (\<lambda>s'. Inr (e, s'))" for opers e t
  proof (induction opers arbitrary: t)
    case (Cons oper opers)
    show ?case
    proof (cases "f oper t")
      case (Inr rs)
      then show ?thesis
        using Cons.IH [of "snd rs"]
        by (cases rs) (simp add: assms Visit_operation_def default_visitor_def)
    qed (simp add: assms Visit_operation_def default_visitor_def)
  qed simp
  have block: "Visit_block v b t = rbind (fold_result ?g (operations (snd b)) t) (\<lambda>s'. Inr (d, s'))" for b t
    unfolding Visit_block_def using ops
    by (simp add: assms default_visitor_def rbind_assoc)
  have "fold_result (\<lambda>b (acc, s'). rbind (Visit_block v b s')
        (\<lambda>(child, s''). FoldResult v acc child s'')) bs (e, t) =
      rbind (fold_result ?g (concat (map (\<lambda>b. operations (snd b)) bs)) t) (\<lambda>s'. Inr (e, s'))" for bs e t
  proof (induction bs arbitrary: t)
    case (Cons b bs)
    show ?case
      by (cases "fold_result ?g (operations (snd b)) t")
        (use Cons.IH in \<open>simp_all add: block fold_result_append, simp add: assms default_visitor_def\<close>)
  qed simp
  then show ?thesis
    by (simp add: Visit_module_def module_operations_def assms default_visitor_def rbind_assoc)
qed

section \<open>Properties\<close>

text \<open>C35: Whatever sequence of calls a \<^verbatim>\<open>BlockBuilder\<close> went through, the block that
  \<^verbatim>\<open>build\<close> returns has distinct declarations stored under their own names, one value at most
  for a result, results only for declared outputs, and operations whose parent is the block.
  The builder is spent afterwards: every further call fails its \<^verbatim>\<open>CHECK\<close>.\<close>

theorem built_block_wf:
  assumes "builder_reach addr b" and "build b = Inr ((a, blk), b')"
  shows "a = addr \<and> block_wf addr blk \<and> IsBuilt b' \<and>
    \<not> is_ok (Builder_AddInput name t b') \<and> \<not> is_ok (Builder_AddOutput name t b') \<and>
    \<not> is_ok (Builder_AddResult name v b') \<and> \<not> is_ok (Builder_AddOperation oper b') \<and>
    \<not> is_ok (Builder_AddOperation_T create b') \<and> \<not> is_ok (build b') \<and> \<not> is_ok (GetBlockPtr b')"
proof -
  from assms(2) have "builder_block b = Some (a, blk)" and b': "b' = \<lparr>builder_block = None\<rparr>"
    by (auto simp: build_def)
  with builder_reach_wf [OF assms(1)] show ?thesis
    by (simp add: IsBuilt_def Builder_AddInput_def Builder_AddOutput_def Builder_AddResult_def
        Builder_AddOperation_def Builder_AddOperation_T_def build_def GetBlockPtr_def unbuilt_def)
qed

definition sample_block :: block where
  "sample_block = \<lparr>parent_module = None, block_inputs = [],
     block_outputs = [(''out'', \<lparr>decl_name = ''out'', decl_type = PrimitiveType\<rparr>)],
     operations = [(1, make_operation (Some 7) (make_operator ''core.plus'') [] [Any])],
     results = [(''out'', OperationResult 1 0)]\<rparr>"

lemma sample_builder_reach: "builder_reach 7 \<lparr>builder_block = Some (7, sample_block)\<rparr>"
proof -
  define oper where "oper = (1::nat, make_operation None (make_operator ''core.plus'') [] [Any])"
  obtain b1 where b1: "Builder_AddOutput ''out'' PrimitiveType (new_builder 7) = Inr b1"
    and e1: "b1 = \<lparr>builder_block = Some (7, empty_block\<lparr>block_outputs :=
      [(''out'', \<lparr>decl_name = ''out'', decl_type = PrimitiveType\<rparr>)]\<rparr>)\<rparr>"
    by (simp add: Builder_AddOutput_def new_builder_def unbuilt_def AddDecl_def hm_insert_def
        put_block_def empty_block_def)
  obtain b2 where b2: "Builder_AddOperation oper b1 = Inr b2"
    and e2: "b2 = \<lparr>builder_block = Some (7, sample_block\<lparr>results := []\<rparr>)\<rparr>"
    by (simp add: e1 oper_def Builder_AddOperation_def unbuilt_def put_block_def empty_block_def
        make_operation_def sample_block_def set_parent_def)
  have "Builder_AddResult ''out'' (OperationResult 1 0) b2 = Inr \<lparr>builder_block = Some (7, sample_block)\<rparr>"
    by (simp add: e2 Builder_AddResult_def unbuilt_def put_block_def FindDecl_def hm_insert_def
        sample_block_def)
  then show ?thesis
    by (meson b1 b2 builder_reach.intros)
qed

theorem built_block_wf_witness:
  "block_wf 7 sample_block \<and> \<not> is_ok (build \<lparr>builder_block = None\<rparr>)"
  using built_block_wf [OF sample_builder_reach, of 7 sample_block "\<lparr>builder_block = None\<rparr>"]
  by (simp add: build_def)

text \<open>An \<^verbatim>\<open>IRContext\<close> constructed from lists of operators and storages exists exactly
  when no two operators and no two storages share a name; otherwise \<^verbatim>\<open>RegisterNode\<close> aborts.
  The context then finds each of them under its name and nothing else.\<close>

theorem make_context_registers:
  "case make_context ops storages of
     Inl _ \<Rightarrow> \<not> (distinct (map op_name ops) \<and> distinct (map (\<lambda>s. storage_name (snd s)) storages))
   | Inr c \<Rightarrow> distinct (map op_name ops) \<and> distinct (map (\<lambda>s. storage_name (snd s)) storages) \<and>
       GetOperator k c = find (\<lambda>oprt. op_name oprt = k) ops \<and>
       GetStorage k c = find (\<lambda>s. storage_name (snd s) = k) storages"
proof -
  let ?ops = "fold_result RegisterOperator ops empty_context"
  have none: "GetOperator k empty_context = None" "GetStorage k empty_context = None" for k
    by (simp_all add: GetOperator_def GetStorage_def GetNode_def empty_context_def)
  have ops_ok: "is_ok ?ops \<longleftrightarrow> distinct (map op_name ops)"
    by (simp add: operator_registry.register_all_iff none)
  show ?thesis
  proof (cases ?ops)
    case (Inl e)
    with ops_ok show ?thesis by (simp add: make_context_def)
  next
    case (Inr d)
    have st: "GetStorage k d = None" for k
      using Inr by (rule fold_result_invariant [where P = "\<lambda>c. GetStorage k c = None"])
        (auto simp: none, auto simp: GetStorage_def RegisterOperator_def)
    show ?thesis
    proof (cases "fold_result RegisterStorage storages d")
      case (Inl e)
      with storage_registry.register_all_iff [of storages d] st \<open>?ops = Inr d\<close>
      show ?thesis by (simp add: make_context_def)
    next
      case c: (Inr c)
      have "GetOperator k c = GetOperator k d"
        by (rule fold_result_invariant [OF c, where P = "\<lambda>c. GetOperator k c = GetOperator k d"])
          (auto simp: GetOperator_def RegisterStorage_def)
      with operator_registry.lookup_register_all [OF Inr, of k]
        storage_registry.lookup_register_all [OF c, of k] st none ops_ok Inr c
        storage_registry.register_all_iff [of storages d]
      show ?thesis by (auto simp: make_context_def split: option.splits)
    qed
  qed
qed

end
