(* ===== verification/Sql_Ops.thy ===== *)
theory Sql_Ops imports
  Ir_Core
begin

text \<open>
  The SQL operations (\<^verbatim>\<open>src/frontends/sql/ops/*\<close>): typed views of an IR operation. \<^verbatim>\<open>Create\<close>
  lays the arguments out as operands and attributes, the accessors read them back; an
  \<^verbatim>\<open>int64_t\<close> attribute holds an index of the operand list.

  \<^verbatim>\<open>Create\<close> returns the operation without an address; the caller allocates it. Accessors that
  iterate over the attributes, a hash map, take the iteration order.
\<close>

section \<open>Operators\<close>

definition kLiteralOp :: string where "kLiteralOp = ''sql.literal''"
definition kMergeOp :: string where "kMergeOp = ''sql.merge''"
definition kTagTransformOp :: string where "kTagTransformOp = ''sql.tag_transform''"
definition kSqlOutputOp :: string where "kSqlOutputOp = ''sql.sql_output''"

lemmas sql_op_names = kLiteralOp_def kMergeOp_def kTagTransformOp_def kSqlOutputOp_def

definition SqlOp_GetOperator :: "string \<Rightarrow> ir_context \<Rightarrow> operator option" where
  "SqlOp_GetOperator kName context = GetOperator kName context"

definition SqlOp_RegisterOperator :: "string \<Rightarrow> ir_context \<Rightarrow> ir_context result" where
  "SqlOp_RegisterOperator kName context = RegisterOperator (make_operator kName) context"

definition SqlOp_GetIf :: "string \<Rightarrow> operation \<Rightarrow> operation option" where
  "SqlOp_GetIf kName operation = (if kName \<noteq> op_name (op_of operation) then None else Some operation)"

definition sql_operator :: "string \<Rightarrow> ir_context \<Rightarrow> operator result" where
  "sql_operator kName context = check_some (SqlOp_GetOperator kName context) ''SqlOp::GetOperator''"

section \<open>Literals and outputs\<close>

definition kLiteralStringAttrName :: string where
  "kLiteralStringAttrName = ''literal_string''"

definition LiteralOp_Create :: "block_id option \<Rightarrow> ir_context \<Rightarrow> string \<Rightarrow> operation result" where
  "LiteralOp_Create parent_block context literal =
     rbind (sql_operator kLiteralOp context) (\<lambda>oprt.
     Inr (make_operation parent_block oprt [(kLiteralStringAttrName, StringAttribute literal)] []))"

definition GetLiteralString :: "operation \<Rightarrow> string result" where
  "GetLiteralString operation =
     rbind (check_some (map_of (attributes operation) kLiteralStringAttrName)
              ''find_result != attributes().end()'') (\<lambda>literal.
     check_some (GetIf_String literal) ''literal.GetIf<ir::StringAttribute>()'')"

definition SqlOutputOp_Create :: "block_id option \<Rightarrow> ir_context \<Rightarrow> ir_value \<Rightarrow> operation result" where
  "SqlOutputOp_Create parent_block context v =
     rbind (sql_operator kSqlOutputOp context) (\<lambda>oprt. Inr (make_operation parent_block oprt [] [v]))"

definition GetValueMarkedAsOutput :: "operation \<Rightarrow> ir_value result" where
  "GetValueMarkedAsOutput operation =
     deref (case inputs operation of [] \<Rightarrow> None | v # _ \<Rightarrow> Some v) ''inputs().front()''"

section \<open>Merges\<close>

definition kControlInputStartIndex :: string where
  "kControlInputStartIndex = ''control_input_start_index''"

definition int64_max :: int where
  "int64_max = 9223372036854775807"

definition MergeOp_Create ::
  "block_id option \<Rightarrow> ir_context \<Rightarrow> ir_value list \<Rightarrow> ir_value list \<Rightarrow> operation result" where
  "MergeOp_Create parent_block context direct_inputs control_inputs =
     rbind (check (direct_inputs \<noteq> [] \<or> control_inputs \<noteq> [])
              ''Both direct inputs and control inputs are empty.'') (\<lambda>_.
     rbind (check (int (length direct_inputs) < int64_max) ''Too many direct_inputs.'') (\<lambda>_.
     let control_start_index = int (length direct_inputs) in
     rbind (sql_operator kMergeOp context) (\<lambda>oprt.
     Inr (make_operation parent_block oprt
       [(kControlInputStartIndex, Int64Attribute control_start_index)]
       (direct_inputs @ control_inputs)))))"

definition GetControlInputStartIndex :: "operation \<Rightarrow> nat result" where
  "GetControlInputStartIndex operation =
     rbind (check_some (map_of (attributes operation) kControlInputStartIndex)
              ''find_result != attributes_map.end()'') (\<lambda>attr.
     rbind (check_some (GetIf_Int64 attr) ''GetIf<ir::Int64Attribute>()'') (\<lambda>i.
     rbind (check (0 \<le> i) ''int_attribute->value() >= 0'') (\<lambda>_. Inr (nat i))))"

text \<open>The ranges are iterators into the operand list: a start index past its end is undefined.\<close>

definition GetDirectInputs :: "operation \<Rightarrow> ir_value list result" where
  "GetDirectInputs operation =
     rbind (GetControlInputStartIndex operation) (\<lambda>i.
     deref (if i \<le> length (inputs operation) then Some (take i (inputs operation)) else None)
       ''inputs().begin() + GetControlInputStartIndex()'')"

definition GetControlInputs :: "operation \<Rightarrow> ir_value list result" where
  "GetControlInputs operation =
     rbind (GetControlInputStartIndex operation) (\<lambda>i.
     deref (if i \<le> length (inputs operation) then Some (drop i (inputs operation)) else None)
       ''inputs().begin() + GetControlInputStartIndex()'')"

section \<open>Tag transforms\<close>

definition kRuleNameAttribute :: string where
  "kRuleNameAttribute = ''rule_name''"

definition kIntersectItagRule :: string where
  "kIntersectItagRule = ''##raksha_internal#intersect_itag_rule''"

definition kUnionItagRule :: string where
  "kUnionItagRule = ''##raksha_internal#union_itag_rule''"

definition add_precondition ::
  "string \<times> ir_value \<Rightarrow> ir_value list \<times> named_attribute_map \<times> int
     \<Rightarrow> (ir_value list \<times> named_attribute_map \<times> int) result" where
  "add_precondition precondition st =
     (case (precondition, st) of ((name, v), (ins, attrs, index)) \<Rightarrow>
       (let (attrs', inserted) = hm_insert name (Int64Attribute index) attrs
        in rbind (check inserted ''Duplicate precondition name'')
             (\<lambda>_. Inr (ins @ [v], attrs', index + 1))))"

definition TagTransformOp_Create ::
  "block_id option \<Rightarrow> ir_context \<Rightarrow> string \<Rightarrow> ir_value \<Rightarrow> (string \<times> ir_value) list \<Rightarrow> operation result" where
  "TagTransformOp_Create parent_block context rule_name transformed_value preconditions =
     rbind (check (int (length preconditions) < int64_max) ''preconditions.size()'') (\<lambda>_.
     rbind (fold_result add_precondition preconditions
              ([transformed_value], [(kRuleNameAttribute, StringAttribute rule_name)], 1))
       (\<lambda>(ins, attrs, index).
     rbind (sql_operator kTagTransformOp context) (\<lambda>oprt.
     Inr (make_operation parent_block oprt attrs ins))))"

definition GetTransformedValueIndex :: "operation \<Rightarrow> nat result" where
  "GetTransformedValueIndex operation =
     rbind (check (inputs operation \<noteq> []) ''!inputs().empty()'') (\<lambda>_. Inr 0)"

definition GetTransformedValue :: "operation \<Rightarrow> ir_value result" where
  "GetTransformedValue operation =
     rbind (GetTransformedValueIndex operation) (GetInputValue operation)"

type_synonym attribute_order = "(string \<times> attribute) list \<Rightarrow> (string \<times> attribute) list"

definition precondition_index :: "operation \<Rightarrow> attribute \<Rightarrow> nat result" where
  "precondition_index operation attr =
     rbind (check_some (GetIf_Int64 attr) ''attribute.GetIf<ir::Int64Attribute>()'') (\<lambda>input_index.
     rbind (check (1 \<le> input_index \<and> input_index < int (length (inputs operation)))
              ''Invalid index in TagTransformOp'') (\<lambda>_. Inr (nat input_index)))"

definition GetPreconditions ::
  "attribute_order \<Rightarrow> operation \<Rightarrow> (string, ir_value) hash_map result" where
  "GetPreconditions ord operation =
     fold_result (\<lambda>(name, attr) res. if name = kRuleNameAttribute then Inr res
         else rbind (precondition_index operation attr) (\<lambda>i.
              Inr (fst (hm_insert name (inputs operation ! i) res))))
       (ord (attributes operation)) []"

definition GetPreconditionInputIndices ::
  "attribute_order \<Rightarrow> operation \<Rightarrow> (string, nat) hash_map result" where
  "GetPreconditionInputIndices ord operation =
     fold_result (\<lambda>(name, attr) res. if name = kRuleNameAttribute then Inr res
         else rbind (precondition_index operation attr) (\<lambda>i.
              Inr (fst (hm_insert name i res))))
       (ord (attributes operation)) []"

definition GetRuleName :: "operation \<Rightarrow> string result" where
  "GetRuleName operation =
     rbind (check_some (map_of (attributes operation) kRuleNameAttribute)
              ''find_result != attribute_map.end()'') (\<lambda>attr.
     check_some (GetIf_String attr) ''GetIf<ir::StringAttribute>()'')"

section \<open>What Create lays out\<close>

lemma add_preconditions_eq:
  "fold_result add_precondition ps (ins, attrs, k) =
    (if distinct (map fst ps) \<and> (\<forall>p \<in> set ps. map_of attrs (fst p) = None)
     then Inr (ins @ map snd ps, attrs @ map (\<lambda>(i, p). (fst p, Int64Attribute (k + int i))) (enumerate 0 ps),
        k + int (length ps))
     else Inl (Check_failed ''Duplicate precondition name''))"
proof (induction ps arbitrary: ins attrs k)
  case (Cons p ps)
  obtain name v where p: "p = (name, v)" by (cases p)
  have shift: "map (\<lambda>(i, p). (fst p, Int64Attribute (k + 1 + int i))) (enumerate 0 ps) =
      map (\<lambda>(i, p). (fst p, Int64Attribute (k + int i))) (enumerate (Suc 0) ps)"
    by (intro nth_equalityI) (simp_all add: nth_enumerate_eq algebra_simps)
  have fresh: "(\<forall>q \<in> set ps. map_of (attrs @ [(name, a)]) (fst q) = None) \<longleftrightarrow>
      (\<forall>q \<in> set ps. map_of attrs (fst q) = None) \<and> name \<notin> fst ` set ps" for a
    by (auto simp: map_add_def split: option.splits if_splits)
  have step: "add_precondition p (ins, attrs, k) = (if map_of attrs name = None
      then Inr (ins @ [v], attrs @ [(name, Int64Attribute k)], k + 1)
      else Inl (Check_failed ''Duplicate precondition name''))"
    by (simp add: add_precondition_def p hm_insert_eq)
  show ?case
    by (simp add: step Cons.IH fresh shift) (auto simp: p)
qed simp

definition tag_transform_operation ::
  "block_id option \<Rightarrow> operator \<Rightarrow> string \<Rightarrow> ir_value \<Rightarrow> (string \<times> ir_value) list \<Rightarrow> operation" where
  "tag_transform_operation p oprt rule_name v ps = make_operation p oprt
     ((kRuleNameAttribute, StringAttribute rule_name) #
        map (\<lambda>(i, p). (fst p, Int64Attribute (1 + int i))) (enumerate 0 ps)) (v # map snd ps)"

lemma TagTransformOp_Create_eq:
  "TagTransformOp_Create p c rule_name v ps = Inr oper \<longleftrightarrow>
     int (length ps) < int64_max \<and> distinct (map fst ps) \<and> kRuleNameAttribute \<notin> fst ` set ps \<and>
     (\<exists>oprt. GetOperator kTagTransformOp c = Some oprt \<and>
        oper = tag_transform_operation p oprt rule_name v ps)"
proof -
  have "(\<forall>q \<in> set ps. map_of [(kRuleNameAttribute, StringAttribute rule_name)] (fst q) = None) \<longleftrightarrow>
      kRuleNameAttribute \<notin> fst ` set ps" by force
  then show ?thesis
    by (auto simp: TagTransformOp_Create_def add_preconditions_eq sql_operator_def SqlOp_GetOperator_def
        tag_transform_operation_def rbind_Inr_iff simp del: map_of.simps)
qed

lemma MergeOp_Create_eq:
  "MergeOp_Create p c direct control = Inr oper \<longleftrightarrow>
     (direct \<noteq> [] \<or> control \<noteq> []) \<and> int (length direct) < int64_max \<and>
     (\<exists>oprt. GetOperator kMergeOp c = Some oprt \<and> oper = make_operation p oprt
        [(kControlInputStartIndex, Int64Attribute (int (length direct)))] (direct @ control))"
  by (auto simp: MergeOp_Create_def sql_operator_def SqlOp_GetOperator_def rbind_Inr_iff)

text \<open>Reading the indices back, in any iteration order of the attributes.\<close>

definition indexed_preconditions :: "operation \<Rightarrow> string \<Rightarrow> nat option" where
  "indexed_preconditions oper name = (if name = kRuleNameAttribute then None else
     case map_of (attributes oper) name of Some (Int64Attribute i) \<Rightarrow> Some (nat i) | _ \<Rightarrow> None)"

definition collect_preconditions ::
  "(nat \<Rightarrow> 'v) \<Rightarrow> operation \<Rightarrow> string \<times> attribute \<Rightarrow> (string, 'v) hash_map \<Rightarrow> (string, 'v) hash_map result"
where
  "collect_preconditions g oper entry res =
     (case entry of (name, attr) \<Rightarrow> if name = kRuleNameAttribute then Inr res
      else rbind (precondition_index oper attr) (\<lambda>i. Inr (fst (hm_insert name (g i) res))))"

lemma GetPreconditions_collect:
  "GetPreconditions ord oper =
     fold_result (collect_preconditions (\<lambda>i. inputs oper ! i) oper) (ord (attributes oper)) []"
  "GetPreconditionInputIndices ord oper =
     fold_result (collect_preconditions (\<lambda>i. i) oper) (ord (attributes oper)) []"
  by (simp_all add: GetPreconditions_def GetPreconditionInputIndices_def collect_preconditions_def [abs_def]
      case_prod_beta')

lemma precondition_index_Inr:
  "precondition_index oper attr = Inr k \<longleftrightarrow>
     (\<exists>j. attr = Int64Attribute j \<and> k = nat j \<and> 1 \<le> j \<and> j < int (length (inputs oper)))"
  by (cases attr) (auto simp: precondition_index_def)

lemma collect_preconditions_fold:
  assumes "fold_result (collect_preconditions g oper) xs r = Inr m" and "distinct (map fst xs)"
  shows "map_of m name = (case map_of r name of Some v \<Rightarrow> Some v | None \<Rightarrow>
      if name = kRuleNameAttribute then None
      else case map_of xs name of Some (Int64Attribute i) \<Rightarrow> Some (g (nat i)) | _ \<Rightarrow> None)"
    and "map_of m name = Some v \<Longrightarrow> map_of r name = Some v \<or> (\<exists>i \<ge> 1. i < length (inputs oper) \<and> v = g i)"
  using assms
proof (induction xs arbitrary: r)
  case Nil
  {
    case 1
    then show ?case by (auto split: option.splits)
  next
    case 2
    then show ?case by simp
  }
next
  case (Cons x xs)
  obtain key attr where x: "x = (key, attr)" by (cases x)
  have step: "\<exists>r'. collect_preconditions g oper x r = Inr r' \<and> fold_result (collect_preconditions g oper) xs r' = Inr m \<and>
      (key = kRuleNameAttribute \<and> r' = r \<or> key \<noteq> kRuleNameAttribute \<and>
        (\<exists>j. attr = Int64Attribute j \<and> 1 \<le> j \<and> j < int (length (inputs oper)) \<and>
           r' = fst (hm_insert key (g (nat j)) r)))"
    if "fold_result (collect_preconditions g oper) (x # xs) r = Inr m" for r
  proof (cases "key = kRuleNameAttribute")
    case True
    with that show ?thesis by (auto simp: x collect_preconditions_def)
  next
    case False
    with that obtain i where i: "precondition_index oper attr = Inr i"
      "fold_result (collect_preconditions g oper) xs (fst (hm_insert key (g i) r)) = Inr m"
      by (cases "precondition_index oper attr") (auto simp: x collect_preconditions_def)
    moreover from i(1) obtain j where "attr = Int64Attribute j" "i = nat j" "1 \<le> j"
      "j < int (length (inputs oper))" by (auto simp: precondition_index_Inr)
    ultimately show ?thesis using False by (auto simp: x collect_preconditions_def)
  qed
  {
    case 1
    from step [OF 1(1)] obtain r' where r': "fold_result (collect_preconditions g oper) xs r' = Inr m"
      "key = kRuleNameAttribute \<and> r' = r \<or> key \<noteq> kRuleNameAttribute \<and>
        (\<exists>j. attr = Int64Attribute j \<and> 1 \<le> j \<and> j < int (length (inputs oper)) \<and>
           r' = fst (hm_insert key (g (nat j)) r))" by blast
    have "map_of xs key = None" using 1(2) x by (simp add: map_of_eq_None_iff)
    with Cons.IH(1) [OF r'(1)] r'(2) 1(2) show ?case
      by (auto simp: x map_of_hm_insert split: option.splits)
  next
    case 2
    from step [OF 2(2)] obtain r' where r': "fold_result (collect_preconditions g oper) xs r' = Inr m"
      "key = kRuleNameAttribute \<and> r' = r \<or> key \<noteq> kRuleNameAttribute \<and>
        (\<exists>j. attr = Int64Attribute j \<and> 1 \<le> j \<and> j < int (length (inputs oper)) \<and>
           r' = fst (hm_insert key (g (nat j)) r))" by blast
    from Cons.IH(2) [OF 2(1) r'(1)] 2(3) have
      "map_of r' name = Some v \<or> (\<exists>i \<ge> 1. i < length (inputs oper) \<and> v = g i)" by simp
    with r'(2) show ?case
    proof (elim disjE conjE exE)
      fix j
      assume "map_of r' name = Some v" "1 \<le> j" "j < int (length (inputs oper))"
        "r' = fst (hm_insert key (g (nat j)) r)"
      then show ?thesis by (auto simp: map_of_hm_insert split: if_splits intro!: exI [of _ "nat j"])
    qed auto
  }
qed

lemma collect_preconditions_ok:
  assumes "\<And>name attr. (name, attr) \<in> set xs \<Longrightarrow> name \<noteq> kRuleNameAttribute \<Longrightarrow> is_ok (precondition_index oper attr)"
  shows "\<exists>m. fold_result (collect_preconditions g oper) xs r = Inr m"
proof -
  have "\<exists>d. collect_preconditions g oper x c = Inr d" if "x \<in> set xs" for x c
    using assms [of "fst x" "snd x"] that by (cases x) (auto simp: collect_preconditions_def is_ok_iff)
  then have "\<exists>m. fold_result (collect_preconditions g oper) xs r = Inr m \<and> True"
    by (intro fold_result_ok [where P = "\<lambda>_. True"]) auto
  then show ?thesis by simp
qed

lemma ordered_attributes:
  assumes "hm_wf m" and "is_order ord"
  shows "distinct (map fst (ord m))" and "map_of (ord m) = map_of m"
proof -
  have perm: "mset (ord m) = mset m" using assms(2) by (simp add: is_order_def)
  then show d: "distinct (map fst (ord m))"
    using assms(1) unfolding hm_wf_def by (metis mset_map mset_eq_imp_distinct_iff)
  show "map_of (ord m) = map_of m"
    using perm d assms(1) unfolding hm_wf_def by (metis map_of_inject_set mset_eq_setD)
qed

lemma GetPreconditionInputIndices_Inr:
  assumes "hm_wf (attributes oper)" and "is_order ord" and "GetPreconditionInputIndices ord oper = Inr m"
  shows "map_of m = indexed_preconditions oper"
    and "map_of m name = Some i \<Longrightarrow> 1 \<le> i \<and> i < length (inputs oper)"
  using collect_preconditions_fold [OF assms(3) [unfolded GetPreconditions_collect]
      ordered_attributes(1) [OF assms(1,2)]] ordered_attributes(2) [OF assms(1,2)]
  by (auto simp: fun_eq_iff indexed_preconditions_def)

section \<open>Properties\<close>

text \<open>\<^verbatim>\<open>MergeOp::Create\<close> fails exactly when it gets no input at all, too many direct inputs
  or a context without the operator; otherwise the accessors return the direct and the
  control inputs it was given.\<close>

theorem merge_op_roundtrip:
  "case MergeOp_Create p c direct control of
     Inl _ \<Rightarrow> direct @ control = [] \<or> int64_max \<le> int (length direct) \<or> GetOperator kMergeOp c = None
   | Inr oper \<Rightarrow> GetDirectInputs oper = Inr direct \<and> GetControlInputs oper = Inr control \<and>
       GetControlInputStartIndex oper = Inr (length direct) \<and>
       inputs oper = direct @ control \<and> direct @ control \<noteq> []"
proof (cases "MergeOp_Create p c direct control")
  case (Inl e)
  then show ?thesis
    by (cases "GetOperator kMergeOp c")
      (auto simp: MergeOp_Create_def sql_operator_def SqlOp_GetOperator_def Let_def check_def
        split: if_splits)
next
  case (Inr oper)
  note made = MergeOp_Create_eq [THEN iffD1, OF Inr]
  show ?thesis unfolding Inr using made
    by (auto simp: GetDirectInputs_def GetControlInputs_def GetControlInputStartIndex_def
        make_operation_def)
qed

text \<open>An operation that \<^verbatim>\<open>TagTransformOp::Create\<close> made gives back its rule name, the
  transformed value and, in any iteration order of its attributes, exactly the preconditions
  it was created with, each at the operand index one past its position.\<close>

theorem tag_transform_op_roundtrip:
  assumes "TagTransformOp_Create p c rule_name v ps = Inr oper" and "is_order ord"
  shows "GetRuleName oper = Inr rule_name \<and> GetTransformedValue oper = Inr v \<and>
    (\<exists>m. GetPreconditions ord oper = Inr m \<and> map_of m = map_of ps) \<and>
    (\<exists>m. GetPreconditionInputIndices ord oper = Inr m \<and>
       (\<forall>name i. map_of m name = Some i \<longleftrightarrow> (\<exists>k < length ps. i = Suc k \<and> fst (ps ! k) = name)))"
proof -
  from assms(1) obtain oprt where ps: "distinct (map fst ps)" "kRuleNameAttribute \<notin> fst ` set ps"
    and oper: "oper = tag_transform_operation p oprt rule_name v ps"
    by (auto simp: TagTransformOp_Create_eq)
  let ?index = "\<lambda>(i, p). (fst p, Int64Attribute (1 + int i))"
  have attrs: "attributes oper = (kRuleNameAttribute, StringAttribute rule_name) # map ?index (enumerate 0 ps)"
    and ins: "inputs oper = v # map snd ps"
    by (simp_all add: oper tag_transform_operation_def make_operation_def)
  have keys: "map fst (map ?index (enumerate 0 ps)) = map fst ps"
    by (intro nth_equalityI) (simp_all add: nth_enumerate_eq)
  have lookup: "map_of (map ?index (enumerate 0 ps)) name = Some a \<longleftrightarrow>
      (\<exists>k < length ps. a = Int64Attribute (1 + int k) \<and> fst (ps ! k) = name)" for name a
  proof -
    have "map_of (map ?index (enumerate 0 ps)) name = Some a \<longleftrightarrow> (name, a) \<in> set (map ?index (enumerate 0 ps))"
      using ps(1) keys by (metis map_of_eq_Some_iff)
    moreover have "(name, a) \<in> set (map ?index (enumerate 0 ps)) \<longleftrightarrow>
        (\<exists>k < length ps. (name, a) = ?index (k, ps ! k))"
      unfolding in_set_conv_nth by (auto simp: nth_enumerate_eq)
    ultimately show ?thesis by auto
  qed
  have lookup_none: "map_of (map ?index (enumerate 0 ps)) name = None \<longleftrightarrow> name \<notin> fst ` set ps" for name
    unfolding map_of_eq_None_iff by (metis keys set_map)
  have wf: "hm_wf (attributes oper)"
    unfolding hm_wf_def attrs using ps keys by (simp del: map_map)
  have none: "map_of ps name = None \<longleftrightarrow> name \<notin> fst ` set ps" for name
    by (simp add: map_of_eq_None_iff)
  have some: "map_of ps name = Some w \<longleftrightarrow> (\<exists>k < length ps. w = snd (ps ! k) \<and> fst (ps ! k) = name)" for name w
    using ps(1) by (auto simp: in_set_conv_nth)
  have ok: "is_ok (precondition_index oper attr)"
    if "(name, attr) \<in> set (ord (attributes oper))" "name \<noteq> kRuleNameAttribute" for name attr
    using that is_order_set [OF assms(2)]
    by (auto simp: attrs ins is_ok_iff precondition_index_Inr in_set_enumerate_eq)
  obtain m where m: "GetPreconditions ord oper = Inr m"
    using collect_preconditions_ok [of "ord (attributes oper)" oper "\<lambda>i. inputs oper ! i" "[]"] ok
    unfolding GetPreconditions_collect by blast
  obtain n where n: "GetPreconditionInputIndices ord oper = Inr n"
    using collect_preconditions_ok [of "ord (attributes oper)" oper "\<lambda>i. i" "[]"] ok
    unfolding GetPreconditions_collect by blast
  note m_eq = collect_preconditions_fold(1) [OF m [unfolded GetPreconditions_collect]
      ordered_attributes(1) [OF wf assms(2)]]
  have "map_of m name = map_of ps name" for name
  proof (cases "map_of (map ?index (enumerate 0 ps)) name")
    case None
    then have "map_of ps name = None" using lookup_none none by blast
    moreover have "map_of m name = None"
      using None m_eq [of name, unfolded ordered_attributes(2) [OF wf assms(2)]] by (simp add: attrs)
    ultimately show ?thesis by simp
  next
    case (Some a)
    then obtain k where k: "k < length ps" "a = Int64Attribute (1 + int k)" "fst (ps ! k) = name"
      by (auto simp: lookup)
    then have "name \<noteq> kRuleNameAttribute" using ps(2) by (metis image_eqI nth_mem)
    with Some k m_eq [of name, unfolded ordered_attributes(2) [OF wf assms(2)]]
    have "map_of m name = Some (snd (ps ! k))" by (simp add: attrs ins nat_add_distrib)
    with k some show ?thesis by metis
  qed
  moreover have "map_of n name = Some i \<longleftrightarrow> (\<exists>k < length ps. i = Suc k \<and> fst (ps ! k) = name)" for name i
  proof -
    have rule_name: "fst (ps ! k) \<noteq> kRuleNameAttribute" if "k < length ps" for k
      using ps(2) that by (metis image_eqI nth_mem)
    have "map_of n name = Some i \<longleftrightarrow> name \<noteq> kRuleNameAttribute \<and>
        (\<exists>j. map_of (map ?index (enumerate 0 ps)) name = Some (Int64Attribute j) \<and> i = nat j)"
      unfolding GetPreconditionInputIndices_Inr(1) [OF wf assms(2) n]
      by (auto simp: indexed_preconditions_def attrs split: option.splits attribute.splits)
    then show ?thesis unfolding lookup using rule_name by (auto simp: nat_add_distrib)
  qed
  ultimately have "map_of m = map_of ps"
    "\<forall>name i. map_of n name = Some i \<longleftrightarrow> (\<exists>k < length ps. i = Suc k \<and> fst (ps ! k) = name)" by auto
  moreover have "GetRuleName oper = Inr rule_name" "GetTransformedValue oper = Inr v"
    by (simp_all add: GetRuleName_def attrs GetTransformedValue_def GetTransformedValueIndex_def
        GetInputValue_def ins)
  ultimately show ?thesis using m n by blast
qed

definition sql_context :: ir_context where
  "sql_context = \<lparr>ctx_operators = map (\<lambda>n. (n, make_operator n))
     [kLiteralOp, kMergeOp, kTagTransformOp, kSqlOutputOp], ctx_storages = [], type_factory = []\<rparr>"

theorem tag_transform_op_roundtrip_witness:
  "\<exists>oper m. TagTransformOp_Create (Some 0) sql_context ''r'' Any [(''a'', OperationResult 1 0)] = Inr oper \<and>
     GetRuleName oper = Inr ''r'' \<and> GetPreconditions rev oper = Inr m \<and>
     map_of m ''a'' = Some (OperationResult 1 0)"
proof -
  obtain oper where oper: "TagTransformOp_Create (Some 0) sql_context ''r'' Any [(''a'', OperationResult 1 0)] = Inr oper"
    by (simp add: TagTransformOp_Create_eq sql_context_def GetOperator_def GetNode_def sql_op_names
        int64_max_def kRuleNameAttribute_def)
  from tag_transform_op_roundtrip [OF this is_order_id(3)] this show ?thesis by fastforce
qed

end
