(* ===== verification/Ifc_Tags.thy ===== *)
theory Ifc_Tags imports
  Prelude
begin

text \<open>
  The abstract domain of the taint analysis (\<^verbatim>\<open>src/analysis/taint/abstract_ifc_tags.h\<close> and
  \<^verbatim>\<open>.cc\<close>) and the contract an abstract domain keeps with the fixpoint iterators.

  A null \<^verbatim>\<open>tags_\<close> is \<open>Bottom\<close>. Tag sets are only searched, merged and compared, so they are
  HOL sets; \<^verbatim>\<open>ToString\<close>, which iterates over them, takes the iteration order.
\<close>

section \<open>The domain\<close>

type_synonym tag_id = nat

datatype abstract_ifc_tags = Bottom | IfcTags "tag_id set" "tag_id set"

fun IsBottom :: "abstract_ifc_tags \<Rightarrow> bool" where
  "IsBottom Bottom = True"
| "IsBottom (IfcTags _ _) = False"

fun IsEquivalentTo :: "abstract_ifc_tags \<Rightarrow> abstract_ifc_tags \<Rightarrow> bool" where
  "IsEquivalentTo Bottom other = IsBottom other"
| "IsEquivalentTo (IfcTags s i) Bottom = False"
| "IsEquivalentTo (IfcTags s i) (IfcTags s' i') = (i = i' \<and> s = s')"

fun Join :: "abstract_ifc_tags \<Rightarrow> abstract_ifc_tags \<Rightarrow> abstract_ifc_tags" where
  "Join Bottom other = other"
| "Join (IfcTags s i) Bottom = IfcTags s i"
| "Join (IfcTags s i) (IfcTags s' i') = IfcTags (s \<union> s') {tag \<in> i. tag \<in> i'}"

fun SetIntegrity :: "tag_id \<Rightarrow> abstract_ifc_tags \<Rightarrow> abstract_ifc_tags" where
  "SetIntegrity tag Bottom = Bottom"
| "SetIntegrity tag (IfcTags s i) = IfcTags s (insert tag i)"

fun ClearIntegrity :: "tag_id \<Rightarrow> abstract_ifc_tags \<Rightarrow> abstract_ifc_tags" where
  "ClearIntegrity tag Bottom = Bottom"
| "ClearIntegrity tag (IfcTags s i) = IfcTags s (i - {tag})"

fun SetSecrecy :: "tag_id \<Rightarrow> abstract_ifc_tags \<Rightarrow> abstract_ifc_tags" where
  "SetSecrecy tag Bottom = Bottom"
| "SetSecrecy tag (IfcTags s i) = IfcTags (insert tag s) i"

fun ClearSecrecy :: "tag_id \<Rightarrow> abstract_ifc_tags \<Rightarrow> abstract_ifc_tags" where
  "ClearSecrecy tag Bottom = Bottom"
| "ClearSecrecy tag (IfcTags s i) = IfcTags (s - {tag}) i"

fun secrecy_tags :: "abstract_ifc_tags \<Rightarrow> tag_id set result" where
  "secrecy_tags Bottom = Inl (Check_failed ''Cannot return secrecy tags for bottom.'')"
| "secrecy_tags (IfcTags s i) = Inr s"

fun integrity_tags :: "abstract_ifc_tags \<Rightarrow> tag_id set result" where
  "integrity_tags Bottom = Inl (Check_failed ''Cannot return integrity tags for bottom.'')"
| "integrity_tags (IfcTags s i) = Inr i"

fun HasIntegrity :: "tag_id \<Rightarrow> abstract_ifc_tags \<Rightarrow> bool result" where
  "HasIntegrity tag Bottom = Inl (Check_failed ''Cannot check integrity for bottom.'')"
| "HasIntegrity tag (IfcTags s i) = Inr (tag \<in> i)"

fun HasNoSecrecy :: "abstract_ifc_tags \<Rightarrow> bool result" where
  "HasNoSecrecy Bottom = Inl (Check_failed ''Cannot check secrecy for bottom.'')"
| "HasNoSecrecy (IfcTags s i) = Inr (s = {})"

definition render_tags ::
  "(tag_id set \<Rightarrow> tag_id list) \<Rightarrow> string list \<Rightarrow> string \<Rightarrow> tag_id set \<Rightarrow> string" where
  "render_tags order tag_names label tags_set =
     label @ '': {'' @ str_join '', '' (map (\<lambda>tag. if tag < length tag_names then tag_names ! tag
        else ''<<'' @ string_of_nat tag @ ''>>'') (order tags_set)) @ ''}''"

fun Tags_ToString ::
  "(tag_id set \<Rightarrow> tag_id list) \<Rightarrow> string list \<Rightarrow> abstract_ifc_tags \<Rightarrow> string" where
  "Tags_ToString order tag_names Bottom = ''[Bottom]''"
| "Tags_ToString order tag_names (IfcTags s i) =
     render_tags order tag_names ''s'' s @ '', '' @ render_tags order tag_names ''i'' i"

section \<open>The order of the domain\<close>

text \<open>
  More secrecy tags and fewer integrity tags is higher. With \<open>Join\<close> as supremum the domain is
  a bounded semilattice of the library.
\<close>

instantiation abstract_ifc_tags :: bounded_semilattice_sup_bot
begin

definition "bot = Bottom"
definition "sup x y = Join x y"

fun less_eq_abstract_ifc_tags :: "abstract_ifc_tags \<Rightarrow> abstract_ifc_tags \<Rightarrow> bool" where
  "less_eq_abstract_ifc_tags Bottom y = True"
| "less_eq_abstract_ifc_tags (IfcTags s i) Bottom = False"
| "less_eq_abstract_ifc_tags (IfcTags s i) (IfcTags s' i') = (s \<subseteq> s' \<and> i' \<subseteq> i)"

definition "(x :: abstract_ifc_tags) < y \<longleftrightarrow> x \<le> y \<and> \<not> y \<le> x"

instance
proof
  fix x y z :: abstract_ifc_tags
  show "x < y \<longleftrightarrow> x \<le> y \<and> \<not> y \<le> x" by (rule less_abstract_ifc_tags_def)
  show "x \<le> x" by (cases x) auto
  show "x \<le> z" if "x \<le> y" "y \<le> z" using that by (cases x; cases y; cases z) auto
  show "x = y" if "x \<le> y" "y \<le> x" using that by (cases x; cases y) auto
  show "x \<le> sup x y" by (cases x; cases y) (auto simp: sup_abstract_ifc_tags_def)
  show "y \<le> sup x y" by (cases x; cases y) (auto simp: sup_abstract_ifc_tags_def)
  show "sup y z \<le> x" if "y \<le> x" "z \<le> x"
    using that by (cases x; cases y; cases z) (auto simp: sup_abstract_ifc_tags_def)
  show "bot \<le> x" by (cases x) (simp_all add: bot_abstract_ifc_tags_def)
qed

end

lemma Join_sup: "Join x y = sup x y"
  by (simp add: sup_abstract_ifc_tags_def)

lemma Bottom_bot: "Bottom = bot"
  by (simp add: bot_abstract_ifc_tags_def)

lemma IsEquivalentTo_iff [simp]: "IsEquivalentTo x y \<longleftrightarrow> x = y"
  by (cases x; cases y) auto

lemma IsBottom_iff: "IsBottom x \<longleftrightarrow> x = Bottom"
  by (cases x) auto

lemma le_Bottom_iff [simp]: "x \<le> Bottom \<longleftrightarrow> x = Bottom"
  by (cases x) auto

lemma IfcTags_le_iff: "IfcTags s i \<le> y \<longleftrightarrow> (\<exists>s' i'. y = IfcTags s' i' \<and> s \<subseteq> s' \<and> i' \<subseteq> i)"
  by (cases y) auto

text \<open>The setters keep the order.\<close>

lemma setters_mono:
  assumes "x \<le> y"
  shows "SetIntegrity t x \<le> SetIntegrity t y" "ClearIntegrity t x \<le> ClearIntegrity t y"
    "SetSecrecy t x \<le> SetSecrecy t y" "ClearSecrecy t x \<le> ClearSecrecy t y"
  using assms by (cases x; cases y; auto)+

lemma SetIntegrity_le: "SetIntegrity t x \<le> x"
  by (cases x) auto

lemma ClearSecrecy_le: "ClearSecrecy t x \<le> x"
  by (cases x) auto

section \<open>The contract of an abstract domain\<close>

definition below :: "('a \<Rightarrow> 'a \<Rightarrow> 'a) \<Rightarrow> 'a \<Rightarrow> 'a \<Rightarrow> bool" where
  "below join x y \<longleftrightarrow> join x y = y"

locale abstract_join =
  fixes join :: "'a \<Rightarrow> 'a \<Rightarrow> 'a" and equivalent :: "'a \<Rightarrow> 'a \<Rightarrow> bool"
  assumes join_assoc: "join (join x y) z = join x (join y z)"
    and join_commute: "join x y = join y x"
    and join_idem: "join x x = x"
    and equivalent_iff: "equivalent x y \<longleftrightarrow> x = y"
begin

lemma below_refl: "below join x x"
  by (simp add: below_def join_idem)

lemma below_trans: "below join x y \<Longrightarrow> below join y z \<Longrightarrow> below join x z"
  unfolding below_def by (metis join_assoc)

lemma below_antisym: "below join x y \<Longrightarrow> below join y x \<Longrightarrow> x = y"
  unfolding below_def by (metis join_commute)

lemma below_join1: "below join x (join x y)"
  by (simp add: below_def join_idem flip: join_assoc)

lemma below_join2: "below join y (join x y)"
  using below_join1 [of y x] by (simp add: join_commute)

lemma join_below: "below join x z \<Longrightarrow> below join y z \<Longrightarrow> below join (join x y) z"
  by (simp add: below_def join_assoc)

lemma join_below_iff: "below join (join x y) z \<longleftrightarrow> below join x z \<and> below join y z"
  using below_join1 below_join2 below_trans join_below by blast

lemma not_below_iff: "join x y = x \<longleftrightarrow> below join y x"
  by (simp add: below_def join_commute)

end

locale abstract_domain = abstract_join join equivalent
  for join :: "'a \<Rightarrow> 'a \<Rightarrow> 'a" and equivalent :: "'a \<Rightarrow> 'a \<Rightarrow> bool" +
  fixes bottom :: 'a
  assumes join_bottom: "join bottom x = x"
begin

lemma below_bottom: "below join bottom x"
  by (simp add: below_def join_bottom)

end

interpretation ifc_domain: abstract_domain Join IsEquivalentTo Bottom
  by unfold_locales (auto simp: Join_sup sup.assoc Bottom_bot intro: sup.commute)

lemma below_Join_iff: "below Join x y \<longleftrightarrow> x \<le> y"
  by (simp add: below_def Join_sup sup.absorb_iff2)

section \<open>Properties\<close>

text \<open>\<^verbatim>\<open>Join\<close> is the least upper bound of the order "fewer guarantees": above both
  operands, and below everything above both; it is associative, commutative and idempotent,
  \<^verbatim>\<open>Bottom\<close> is its unit, and \<^verbatim>\<open>IsEquivalentTo\<close> decides equality.\<close>

theorem Join_is_lub:
  "x \<le> Join x y \<and> y \<le> Join x y \<and> (Join x y \<le> z) = (x \<le> z \<and> y \<le> z) \<and>
   Join (Join x y) z = Join x (Join y z) \<and> Join x y = Join y x \<and> Join x x = x \<and>
   Join Bottom x = x \<and> IsEquivalentTo x y = (x = y)"
  by (auto simp: Join_sup sup.assoc Bottom_bot intro: sup.commute)

end
