(* ===== verification/Inference_Rules.thy ===== *)
theory Inference_Rules imports
  Ir_Core
  Ifc_Tags
begin

text \<open>
  The taint analysis' inference rules (\<^verbatim>\<open>src/analysis/taint/inference_rule.h\<close>,
  \<^verbatim>\<open>inference_rules.h\<close>) and their builder (\<^verbatim>\<open>inference_rules_builder.h\<close>), with the bijection
  between tag names and tag ids that the builder keeps.
\<close>

section \<open>Rules\<close>

record input_has_integrity =
  premise_index :: nat
  premise_tag :: tag_id

datatype merge_kind = kUnion | kIntersect
datatype modify_kind = kAddSecrecy | kRemoveSecrecy | kAddIntegrity

datatype conclusion =
    CopyInput nat
  | ModifyTag modify_kind tag_id
  | MergeIntegrityTags merge_kind "nat list"

record inference_rule =
  rule_conclusion :: conclusion
  rule_premises :: "input_has_integrity list"

type_synonym inference_rule_sequence = "inference_rule list"
type_synonym output_rules = "(nat, inference_rule_sequence) hash_map"
type_synonym action_rules = "(string, output_rules) hash_map"

record inference_rules =
  rules_action_rules :: action_rules
  rules_actions :: "(op_id, string) hash_map"
  rules_tags :: "(string, tag_id) hash_map"
  rules_tag_names :: "string list"

definition GetTagId :: "string \<Rightarrow> inference_rules \<Rightarrow> tag_id option" where
  "GetTagId tag r = map_of (rules_tags r) tag"

definition GetTagName :: "tag_id \<Rightarrow> inference_rules \<Rightarrow> string option" where
  "GetTagName tag r =
     (if tag < length (rules_tag_names r) then Some (rules_tag_names r ! tag) else None)"

definition GetOutputRulesForAction :: "string \<Rightarrow> inference_rules \<Rightarrow> output_rules option" where
  "GetOutputRulesForAction action r = map_of (rules_action_rules r) action"

definition GetOutputRulesForOperation :: "op_id \<Rightarrow> inference_rules \<Rightarrow> output_rules option" where
  "GetOutputRulesForOperation oid r =
     (case map_of (rules_actions r) oid of
        None \<Rightarrow> None
      | Some action \<Rightarrow> GetOutputRulesForAction action r)"

section \<open>The builder\<close>

record rules_builder =
  builder_tag_names :: "string list"
  builder_tags :: "(string, tag_id) hash_map"
  builder_action_rules :: action_rules
  builder_actions :: "(op_id, string) hash_map"

definition new_rules_builder :: "string list \<Rightarrow> rules_builder result" where
  "new_rules_builder seed_tag_names =
     rbind (fold_result (\<lambda>tag_name tags.
         (let (tags', success) = hm_insert tag_name (length tags) tags
          in rbind (check success ''Duplicate seed tag'') (\<lambda>_. Inr tags'))) seed_tag_names [])
       (\<lambda>tags. Inr \<lparr>builder_tag_names = seed_tag_names, builder_tags = tags,
          builder_action_rules = [], builder_actions = []\<rparr>)"

definition Build :: "rules_builder \<Rightarrow> inference_rules" where
  "Build b = \<lparr>rules_action_rules = builder_action_rules b, rules_actions = builder_actions b,
     rules_tags = builder_tags b, rules_tag_names = builder_tag_names b\<rparr>"

definition MarkOperationAsAction :: "op_id \<Rightarrow> string \<Rightarrow> rules_builder \<Rightarrow> rules_builder result" where
  "MarkOperationAsAction oid action b =
     (let (actions', success) = hm_insert oid action (builder_actions b)
      in rbind (check success ''Duplicate operation inserted'')
           (\<lambda>_. Inr (b\<lparr>builder_actions := actions'\<rparr>)))"

definition AddOutputRulesForAction ::
  "string \<Rightarrow> output_rules \<Rightarrow> rules_builder \<Rightarrow> rules_builder result" where
  "AddOutputRulesForAction action rule b =
     (let (rules', success) = hm_insert action rule (builder_action_rules b)
      in rbind (check success ''Duplicate inference rule inserted'')
           (\<lambda>_. Inr (b\<lparr>builder_action_rules := rules'\<rparr>)))"

definition GetOrCreateTagId :: "string \<Rightarrow> rules_builder \<Rightarrow> (tag_id \<times> rules_builder) result" where
  "GetOrCreateTagId tag b =
     (let (tags', inserted) = hm_insert tag (length (builder_tags b)) (builder_tags b);
          b' = (if inserted
                then b\<lparr>builder_tags := tags', builder_tag_names := builder_tag_names b @ [tag]\<rparr>
                else b)
      in rbind (deref (map_of tags' tag) ''insert_result.first'') (\<lambda>i. Inr (i, b')))"

section \<open>Tag ids and tag names\<close>

definition tags_inv :: "string list \<Rightarrow> (string, tag_id) hash_map \<Rightarrow> bool" where
  "tags_inv tag_names tags \<longleftrightarrow> distinct tag_names \<and>
     tags = zip tag_names [0..<length tag_names]"

lemma tags_inv_lookup:
  assumes "tags_inv tag_names tags"
  shows "map_of tags tag = Some i \<longleftrightarrow> i < length tag_names \<and> tag_names ! i = tag"
proof -
  have d: "distinct (map fst tags)" using assms by (simp add: tags_inv_def)
  have "map_of tags tag = Some i \<longleftrightarrow> (tag, i) \<in> set tags" using d by simp
  also have "\<dots> \<longleftrightarrow> i < length tag_names \<and> tag_names ! i = tag"
    using assms by (auto simp: tags_inv_def in_set_zip)
  finally show ?thesis .
qed

lemma tags_inv_fresh: "tags_inv tag_names tags \<Longrightarrow> map_of tags tag = None \<longleftrightarrow> tag \<notin> set tag_names"
  by (simp add: map_of_eq_None_iff tags_inv_def flip: set_map)

lemma tags_inv_length: "tags_inv tag_names tags \<Longrightarrow> length tags = length tag_names"
  by (simp add: tags_inv_def)

lemma tags_inv_insert:
  assumes "tags_inv tag_names tags" and "tag \<notin> set tag_names"
  shows "tags_inv (tag_names @ [tag]) (tags @ [(tag, length tags)])"
  using assms by (simp add: tags_inv_def)

lemma new_rules_builder_eq:
  "new_rules_builder seeds = (if distinct seeds
     then Inr \<lparr>builder_tag_names = seeds, builder_tags = zip seeds [0..<length seeds],
       builder_action_rules = [], builder_actions = []\<rparr>
     else Inl (Check_failed ''Duplicate seed tag''))"
proof -
  let ?f = "\<lambda>tag_name tags.
      (let (tags', success) = hm_insert tag_name (length tags) tags
       in rbind (check success ''Duplicate seed tag'') (\<lambda>_. Inr tags'))"
  have "fold_result ?f seeds tags = (if distinct (tag_names @ seeds)
      then Inr (zip (tag_names @ seeds) [0..<length (tag_names @ seeds)])
      else Inl (Check_failed ''Duplicate seed tag''))" if "tags_inv tag_names tags" for tag_names tags
    using that
  proof (induction seeds arbitrary: tag_names tags)
    case Nil
    then show ?case by (simp add: tags_inv_def)
  next
    case (Cons s seeds)
    show ?case
    proof (cases "s \<in> set tag_names")
      case True
      with Cons.prems show ?thesis by (auto simp: hm_insert_eq tags_inv_fresh)
    next
      case False
      from Cons.IH [OF tags_inv_insert [OF Cons.prems False]] False Cons.prems
      show ?thesis by (simp add: hm_insert_eq tags_inv_fresh)
    qed
  qed
  from this [of "[]" "[]"] show ?thesis
    by (simp add: new_rules_builder_def tags_inv_def)
qed

lemma GetOrCreateTagId_eq:
  assumes inv: "tags_inv (builder_tag_names b) (builder_tags b)"
  shows "\<exists>i b'. GetOrCreateTagId tag b = Inr (i, b') \<and>
    i < length (builder_tag_names b') \<and> builder_tag_names b' ! i = tag \<and>
    tags_inv (builder_tag_names b') (builder_tags b') \<and>
    builder_tag_names b' = builder_tag_names b @ (if tag \<in> set (builder_tag_names b) then [] else [tag]) \<and>
    builder_tags b' = builder_tags b @ (if tag \<in> set (builder_tag_names b) then [] else [(tag, i)]) \<and>
    builder_action_rules b' = builder_action_rules b \<and> builder_actions b' = builder_actions b"
proof (cases "tag \<in> set (builder_tag_names b)")
  case True
  then obtain i where "map_of (builder_tags b) tag = Some i"
    using tags_inv_fresh [OF inv] by fastforce
  with inv True tags_inv_lookup [OF inv, of tag i] show ?thesis
    by (simp add: GetOrCreateTagId_def hm_insert_eq)
next
  case False
  with tags_inv_insert [OF inv False] tags_inv_fresh [OF inv, of tag] tags_inv_length [OF inv]
  show ?thesis
    by (auto simp: GetOrCreateTagId_def hm_insert_eq nth_append map_add_def split: option.splits)
qed

text \<open>Every state a builder reaches by calls that succeed.\<close>

inductive rules_builder_reach :: "string list \<Rightarrow> rules_builder \<Rightarrow> bool" for seeds where
  seeded: "new_rules_builder seeds = Inr b \<Longrightarrow> rules_builder_reach seeds b"
| mark: "rules_builder_reach seeds b \<Longrightarrow> MarkOperationAsAction oid action b = Inr b' \<Longrightarrow>
    rules_builder_reach seeds b'"
| add_rules: "rules_builder_reach seeds b \<Longrightarrow> AddOutputRulesForAction action rule b = Inr b' \<Longrightarrow>
    rules_builder_reach seeds b'"
| tag: "rules_builder_reach seeds b \<Longrightarrow> GetOrCreateTagId t b = Inr (i, b') \<Longrightarrow>
    rules_builder_reach seeds b'"

lemma rules_builder_reach_inv:
  "rules_builder_reach seeds b \<Longrightarrow> tags_inv (builder_tag_names b) (builder_tags b) \<and>
     (\<exists>more. builder_tag_names b = seeds @ more)"
proof (induction rule: rules_builder_reach.induct)
  case (seeded b)
  then show ?case by (auto simp: new_rules_builder_eq tags_inv_def split: if_splits)
next
  case (mark b oid action b')
  then show ?case by (auto simp: MarkOperationAsAction_def split: prod.splits)
next
  case (add_rules b action rule b')
  then show ?case by (auto simp: AddOutputRulesForAction_def split: prod.splits)
next
  case (tag b t i b')
  then obtain more where inv: "tags_inv (builder_tag_names b) (builder_tags b)"
    and names: "builder_tag_names b = seeds @ more" by blast
  from GetOrCreateTagId_eq [OF inv, of t] obtain j c where call: "GetOrCreateTagId t b = Inr (j, c)"
    and c: "tags_inv (builder_tag_names c) (builder_tags c)"
      "builder_tag_names c = builder_tag_names b @ (if t \<in> set (builder_tag_names b) then [] else [t])"
    by blast
  from call tag(2) have "c = b'" by simp
  with c names show ?case by (metis append_assoc)
qed

section \<open>Properties\<close>

text \<open>C27: In the rules a builder builds, whatever calls it went through, tag ids and tag
  names are in bijection: \<^verbatim>\<open>GetTagId\<close> finds an id for a name exactly when \<^verbatim>\<open>GetTagName\<close> finds
  that name for the id, the ids are the numbers below the number of tags, and the seed tags
  have their positions as ids.\<close>

theorem tag_ids_bijective:
  assumes "rules_builder_reach seeds b"
  shows "(GetTagId tag (Build b) = Some i) = (GetTagName i (Build b) = Some tag) \<and>
    (GetTagName i (Build b) \<noteq> None) = (i < length (rules_tags (Build b))) \<and>
    (i < length seeds \<longrightarrow> GetTagId (seeds ! i) (Build b) = Some i)"
proof -
  from rules_builder_reach_inv [OF assms]
  obtain more where inv: "tags_inv (builder_tag_names b) (builder_tags b)"
    and names: "builder_tag_names b = seeds @ more" by auto
  from tags_inv_lookup [OF inv] tags_inv_length [OF inv] show ?thesis
    by (simp add: GetTagId_def GetTagName_def Build_def names nth_append)
qed

theorem tag_ids_bijective_witness:
  "\<exists>b. rules_builder_reach [''public'', ''raw''] b \<and> GetTagId ''raw'' (Build b) = Some 1 \<and>
     GetTagName 2 (Build b) = Some ''owner''"
proof -
  obtain b0 where b0: "new_rules_builder [''public'', ''raw''] = Inr b0"
    and e0: "b0 = \<lparr>builder_tag_names = [''public'', ''raw''], builder_tags = [(''public'', 0), (''raw'', 1)],
      builder_action_rules = [], builder_actions = []\<rparr>"
    by (simp add: new_rules_builder_eq)
  obtain i b1 where b1: "GetOrCreateTagId ''owner'' b0 = Inr (i, b1)"
    and e1: "GetTagId ''owner'' (Build b1) = Some 2"
    by (simp add: e0 GetOrCreateTagId_def hm_insert_eq GetTagId_def Build_def)
  have reach: "rules_builder_reach [''public'', ''raw''] b1"
    by (meson b0 b1 rules_builder_reach.intros)
  have "GetTagName 2 (Build b1) = Some ''owner''"
    using tag_ids_bijective [OF reach, of "''owner''" 2] e1 by blast
  moreover have "GetTagId ''raw'' (Build b1) = Some 1"
    using tag_ids_bijective [OF reach, of "''raw''" 1] by simp
  ultimately show ?thesis using reach by (intro exI conjI)
qed

text \<open>\<^verbatim>\<open>GetOrCreateTagId\<close> never fails on a reachable builder, returns the id that the
  built rules give the name, and leaves the id of every other name as it was.\<close>

theorem get_or_create_tag_id:
  assumes "rules_builder_reach seeds b"
  shows "\<exists>i b'. GetOrCreateTagId tag b = Inr (i, b') \<and> GetTagId tag (Build b') = Some i \<and>
    (\<forall>other. GetTagId other (Build b) \<noteq> None \<longrightarrow>
       GetTagId other (Build b') = GetTagId other (Build b)) \<and>
    (\<forall>other. other \<noteq> tag \<longrightarrow> GetTagId other (Build b') = GetTagId other (Build b))"
proof -
  have inv: "tags_inv (builder_tag_names b) (builder_tags b)"
    using rules_builder_reach_inv [OF assms] by blast
  from GetOrCreateTagId_eq [OF inv, of tag] obtain i b' where
    call: "GetOrCreateTagId tag b = Inr (i, b')" "i < length (builder_tag_names b')"
      "builder_tag_names b' ! i = tag"
    and inv': "tags_inv (builder_tag_names b') (builder_tags b')"
    and tags': "builder_tags b' = builder_tags b @
      (if tag \<in> set (builder_tag_names b) then [] else [(tag, i)])" by blast
  have new: "GetTagId tag (Build b') = Some i"
    using call tags_inv_lookup [OF inv'] by (simp add: GetTagId_def Build_def)
  have other: "GetTagId other (Build b') = GetTagId other (Build b)" if "other \<noteq> tag" for other
    using that by (auto simp: tags' GetTagId_def Build_def map_add_def split: option.splits)
  have "GetTagId tag (Build b') = GetTagId tag (Build b)" if "GetTagId tag (Build b) \<noteq> None"
    using that tags_inv_fresh [OF inv, of tag] by (auto simp: tags' GetTagId_def Build_def)
  with other have "GetTagId t (Build b') = GetTagId t (Build b)" if "GetTagId t (Build b) \<noteq> None" for t
    using that by (cases "t = tag") simp_all
  with call(1) new other show ?thesis
    by (intro exI [of _ i] exI [of _ b'] conjI allI impI) simp_all
qed

theorem get_or_create_tag_id_witness:
  "\<exists>b i b'. new_rules_builder [''public''] = Inr b \<and> GetOrCreateTagId ''raw'' b = Inr (i, b') \<and>
     GetTagId ''raw'' (Build b') = Some i \<and> GetTagId ''public'' (Build b') = Some 0"
proof -
  obtain b where b: "new_rules_builder [''public''] = Inr b"
    and e: "b = \<lparr>builder_tag_names = [''public''], builder_tags = [(''public'', 0)],
      builder_action_rules = [], builder_actions = []\<rparr>"
    by (simp add: new_rules_builder_eq)
  from get_or_create_tag_id [OF seeded [OF b], of "''raw''"] obtain i b' where
    "GetOrCreateTagId ''raw'' b = Inr (i, b')" "GetTagId ''raw'' (Build b') = Some i"
    and "\<forall>other. other \<noteq> ''raw'' \<longrightarrow> GetTagId other (Build b') = GetTagId other (Build b)" by blast
  moreover from this(3) have "GetTagId ''public'' (Build b') = Some 0"
    by (simp add: e GetTagId_def Build_def)
  ultimately show ?thesis using b by blast
qed

end
