(* ===== verification/Module_Graph.thy ===== *)
theory Module_Graph imports
  Ir_Core
begin

text \<open>
  The use/def graph of a module (\<^verbatim>\<open>src/analysis/common/module_graph.h\<close> and \<^verbatim>\<open>.cc\<close>): its nodes
  are values and operations, an edge from a value to an operation carries the index of the
  input, an edge from an operation to a value the index of the output.

  The adjacency list and the node sets are iterated over, so the functions that iterate take the
  iteration order.
\<close>

section \<open>The graph\<close>

datatype node = ValueNode ir_value | OperationNode op_id

type_synonym edge_index = nat
type_synonym indexed_node_set = "(edge_index \<times> node) hash_set"
type_synonym adjacency_list = "(node, indexed_node_set) hash_map"
type_synonym edge_order = "(edge_index \<times> node) list \<Rightarrow> (edge_index \<times> node) list"

record edge =
  edge_source :: node
  edge_index :: edge_index
  edge_target :: node

text \<open>\<^verbatim>\<open>insert({n, {}})\<close>, and the insertion into the set that it returns.\<close>

definition add_node :: "node \<Rightarrow> adjacency_list \<Rightarrow> adjacency_list" where
  "add_node n adj = fst (hm_insert n [] adj)"

definition add_edge :: "node \<Rightarrow> edge_index \<times> node \<Rightarrow> adjacency_list \<Rightarrow> adjacency_list" where
  "add_edge n e adj =
     (let adj' = add_node n adj in hm_assign n (hs_insert e (the (map_of adj' n))) adj')"

definition add_input_edges :: "op_id \<times> operation \<Rightarrow> adjacency_list \<Rightarrow> adjacency_list" where
  "add_input_edges oper adj =
     fold (\<lambda>(index, v). add_edge (ValueNode v) (index, OperationNode (fst oper)))
       (enumerate 0 (inputs (snd oper))) adj"

definition add_output_edges :: "op_id \<times> operation \<Rightarrow> adjacency_list \<Rightarrow> adjacency_list result" where
  "add_output_edges oper adj =
     fold_result (\<lambda>index adj. rbind (GetOutputValue oper index) (\<lambda>v.
         Inr (add_edge (OperationNode (fst oper)) (index, ValueNode v)
                (add_node (ValueNode v) adj))))
       [0..<NumberOfOutputs (snd oper)] adj"

definition graph_PreVisit ::
  "op_id \<times> operation \<Rightarrow> adjacency_list \<Rightarrow> (unit \<times> adjacency_list) result" where
  "graph_PreVisit oper adj =
     rbind (add_output_edges oper (add_input_edges oper (add_node (OperationNode (fst oper)) adj)))
       (\<lambda>adj'. Inr ((), adj'))"

definition graph_visitor :: "(adjacency_list, unit) visitor" where
  "graph_visitor = (default_visitor ())\<lparr>PreVisit_operation := graph_PreVisit\<rparr>"

definition ComputeAdjacencyList :: "module_id \<times> ir_module \<Rightarrow> adjacency_list result" where
  "ComputeAdjacencyList m = rbind (Visit_module graph_visitor m []) (\<lambda>(_, adj). Inr adj)"

definition GetNodes :: "(node list \<Rightarrow> node list) \<Rightarrow> adjacency_list \<Rightarrow> node list" where
  "GetNodes order adj = order (map fst adj)"

definition GetAdjacentNodes :: "adjacency_list \<Rightarrow> node \<Rightarrow> indexed_node_set result" where
  "GetAdjacentNodes adj source =
     check_some (map_of adj source) ''GetOutEdges: source not found in graph.''"

definition GetOutEdges :: "edge_order \<Rightarrow> adjacency_list \<Rightarrow> node \<Rightarrow> edge list result" where
  "GetOutEdges order adj source =
     rbind (GetAdjacentNodes adj source) (\<lambda>targets.
       Inr (map (\<lambda>(i, target). \<lparr>edge_source = source, edge_index = i, edge_target = target\<rparr>)
              (order targets)))"

fun materialize_operation :: "edge_index \<times> node \<Rightarrow> (edge_index \<times> op_id) result" where
  "materialize_operation (i, OperationNode oid) = Inr (i, oid)"
| "materialize_operation (i, ValueNode v) =
     Inl (Check_failed ''ModuleGraph has an unexpected edge.'')"

fun materialize_value :: "edge_index \<times> node \<Rightarrow> (edge_index \<times> ir_value) result" where
  "materialize_value (i, ValueNode v) = Inr (i, v)"
| "materialize_value (i, OperationNode oid) =
     Inl (Check_failed ''ModuleGraph has an unexpected edge.'')"

definition GetUses :: "edge_order \<Rightarrow> adjacency_list \<Rightarrow> ir_value \<Rightarrow> (edge_index \<times> op_id) list result" where
  "GetUses order adj v =
     rbind (GetAdjacentNodes adj (ValueNode v)) (\<lambda>ns. map_result materialize_operation (order ns))"

definition GetResults :: "edge_order \<Rightarrow> adjacency_list \<Rightarrow> op_id \<Rightarrow> (edge_index \<times> ir_value) list result" where
  "GetResults order adj oid =
     rbind (GetAdjacentNodes adj (OperationNode oid)) (\<lambda>ns. map_result materialize_value (order ns))"

text \<open>The same insertions as one lookup, for evaluation on concrete modules.\<close>

lemma add_node_eq: "add_node n adj = (case map_of adj n of None \<Rightarrow> adj @ [(n, [])] | Some es \<Rightarrow> adj)"
  by (auto simp: add_node_def hm_insert_eq split: option.splits)

lemma update_append:
  "map_of xs k = None \<Longrightarrow> AList.update k v (xs @ ys) = xs @ AList.update k v ys"
  by (induction xs) (auto split: if_splits)

lemma add_edge_eq: "add_edge n e adj = (case map_of adj n of
     None \<Rightarrow> adj @ [(n, [e])]
   | Some es \<Rightarrow> AList.update n (hs_insert e es) adj)"
  by (auto simp: add_edge_def add_node_eq hm_assign_def Let_def update_append map_add_def
      hs_insert_def split: option.splits)

lemmas eval_graph = ComputeAdjacencyList_def Visit_module_operations [OF graph_visitor_def]
  module_operations_def graph_PreVisit_def add_input_edges_def add_output_edges_def add_edge_eq
  add_node_eq hs_insert_def GetOutputValue_def NumberOfOutputs_def MakeOperationResultValue_def
  make_operation_def make_operator_def

section \<open>What the graph of a list of operations is\<close>

definition op_outputs :: "op_id \<times> operation \<Rightarrow> ir_value set" where
  "op_outputs oper = {OperationResult (fst oper) i | i. i < NumberOfOutputs (snd oper)}"

definition graph_nodes :: "(op_id \<times> operation) list \<Rightarrow> node set" where
  "graph_nodes opers = (\<Union>oper \<in> set opers. insert (OperationNode (fst oper))
     (ValueNode ` set (inputs (snd oper)) \<union> ValueNode ` op_outputs oper))"

fun graph_edges :: "(op_id \<times> operation) list \<Rightarrow> node \<Rightarrow> (edge_index \<times> node) set" where
  "graph_edges opers (ValueNode v) =
     {(i, OperationNode (fst oper)) | i oper. oper \<in> set opers \<and> i < length (inputs (snd oper)) \<and>
        inputs (snd oper) ! i = v}"
| "graph_edges opers (OperationNode oid) =
     {(i, ValueNode (OperationResult oid i)) | i oper. oper \<in> set opers \<and> fst oper = oid \<and>
        i < NumberOfOutputs (snd oper)}"

definition edges_at :: "adjacency_list \<Rightarrow> node \<Rightarrow> (edge_index \<times> node) set" where
  "edges_at adj n = (case map_of adj n of None \<Rightarrow> {} | Some es \<Rightarrow> set es)"

definition adj_wf :: "adjacency_list \<Rightarrow> bool" where
  "adj_wf adj \<longleftrightarrow> hm_wf adj \<and> (\<forall>es \<in> snd ` set adj. distinct es)"

lemma adj_wf_map_of: "adj_wf adj \<Longrightarrow> map_of adj n = Some es \<Longrightarrow> distinct es"
  by (force simp: adj_wf_def dest: map_of_SomeD)

lemma keys_map_of: "fst ` set m = dom (map_of m)"
  by (simp add: dom_map_of_conv_image_fst)

lemma edges_add_node [simp]: "edges_at (add_node n adj) k = edges_at adj k"
  by (auto simp: edges_at_def add_node_def map_of_hm_insert split: option.splits)

lemma dom_add_node [simp]: "dom (map_of (add_node n adj)) = insert n (dom (map_of adj))"
  by (auto simp: add_node_def map_of_hm_insert split: if_splits)

lemma edges_add_edge [simp]:
  "edges_at (add_edge n e adj) k = (if k = n then insert e (edges_at adj n) else edges_at adj k)"
  by (auto simp: edges_at_def add_edge_def add_node_def map_of_hm_insert Let_def split: option.splits)

lemma dom_add_edge [simp]: "dom (map_of (add_edge n e adj)) = insert n (dom (map_of adj))"
  by (simp add: add_edge_def Let_def)

lemma adj_wf_iff: "adj_wf adj \<longleftrightarrow> hm_wf adj \<and> (\<forall>n es. map_of adj n = Some es \<longrightarrow> distinct es)"
proof
  assume "adj_wf adj"
  then show "hm_wf adj \<and> (\<forall>n es. map_of adj n = Some es \<longrightarrow> distinct es)"
    using adj_wf_map_of by (auto simp: adj_wf_def)
next
  assume "hm_wf adj \<and> (\<forall>n es. map_of adj n = Some es \<longrightarrow> distinct es)"
  then show "adj_wf adj"
    by (auto simp: adj_wf_def dest: hm_wf_map_of)
qed

lemma adj_wf_add_node [simp]: "adj_wf adj \<Longrightarrow> adj_wf (add_node n adj)"
  by (auto simp: adj_wf_iff add_node_def map_of_hm_insert)

lemma adj_wf_add_edge [simp]:
  assumes "adj_wf adj"
  shows "adj_wf (add_edge n e adj)"
proof -
  have "n \<in> dom (map_of (add_node n adj))" by simp
  then obtain es where "map_of (add_node n adj) n = Some es" by blast
  with adj_wf_add_node [OF assms, of n] show ?thesis
    by (auto simp: add_edge_def Let_def adj_wf_iff)
qed

lemma add_input_edges_spec:
  "edges_at (add_input_edges oper adj) k = edges_at adj k \<union>
     {(i, OperationNode (fst oper)) | i. i < length (inputs (snd oper)) \<and> k = ValueNode (inputs (snd oper) ! i)}"
  "dom (map_of (add_input_edges oper adj)) = ValueNode ` set (inputs (snd oper)) \<union> dom (map_of adj)"
  "adj_wf adj \<Longrightarrow> adj_wf (add_input_edges oper adj)"
proof -
  let ?f = "\<lambda>(index, v). add_edge (ValueNode v) (index, OperationNode (fst oper))"
  have "edges_at (fold ?f ps adj) k = edges_at adj k \<union>
      {(i, OperationNode (fst oper)) | i v. (i, v) \<in> set ps \<and> k = ValueNode v}" for ps adj
    by (induction ps arbitrary: adj) (auto split: if_splits)
  then show "edges_at (add_input_edges oper adj) k = edges_at adj k \<union>
     {(i, OperationNode (fst oper)) | i. i < length (inputs (snd oper)) \<and> k = ValueNode (inputs (snd oper) ! i)}"
    by (auto simp: add_input_edges_def in_set_enumerate_eq)
  have "dom (map_of (fold ?f ps adj)) = ValueNode ` snd ` set ps \<union> dom (map_of adj)" for ps adj
    by (induction ps arbitrary: adj) (simp_all add: case_prod_beta)
  moreover have "snd ` set (enumerate 0 xs) = set xs" for xs :: "ir_value list"
    by (metis map_snd_enumerate set_map)
  ultimately show "dom (map_of (add_input_edges oper adj)) =
      ValueNode ` set (inputs (snd oper)) \<union> dom (map_of adj)"
    by (simp add: add_input_edges_def)
  have "adj_wf adj \<Longrightarrow> adj_wf (fold ?f ps adj)" for ps
    by (induction ps arbitrary: adj) auto
  then show "adj_wf adj \<Longrightarrow> adj_wf (add_input_edges oper adj)"
    by (simp add: add_input_edges_def)
qed

lemma add_output_edges_spec:
  "\<exists>adj'. add_output_edges oper adj = Inr adj' \<and>
    (\<forall>k. edges_at adj' k = edges_at adj k \<union>
       {(i, ValueNode (OperationResult (fst oper) i)) | i. i < NumberOfOutputs (snd oper) \<and>
          k = OperationNode (fst oper)}) \<and>
    dom (map_of adj') = dom (map_of adj) \<union> ValueNode ` op_outputs oper \<union>
      (if NumberOfOutputs (snd oper) = 0 then {} else {OperationNode (fst oper)}) \<and>
    (adj_wf adj \<longrightarrow> adj_wf adj')"
proof -
  let ?f = "\<lambda>index adj. rbind (GetOutputValue oper index) (\<lambda>v.
         Inr (add_edge (OperationNode (fst oper)) (index, ValueNode v) (add_node (ValueNode v) adj)))"
  have "\<exists>adj'. fold_result ?f [0..<n] adj = Inr adj' \<and>
    (\<forall>k. edges_at adj' k = edges_at adj k \<union>
       {(i, ValueNode (OperationResult (fst oper) i)) | i. i < n \<and> k = OperationNode (fst oper)}) \<and>
    dom (map_of adj') = dom (map_of adj) \<union> ValueNode ` {OperationResult (fst oper) i | i. i < n} \<union>
      (if n = 0 then {} else {OperationNode (fst oper)}) \<and>
    (adj_wf adj \<longrightarrow> adj_wf adj')" if "n \<le> NumberOfOutputs (snd oper)" for n
    using that
  proof (induction n)
    case (Suc n)
    then obtain adj' where IH: "fold_result ?f [0..<n] adj = Inr adj'"
      "\<forall>k. edges_at adj' k = edges_at adj k \<union>
         {(i, ValueNode (OperationResult (fst oper) i)) | i. i < n \<and> k = OperationNode (fst oper)}"
      "dom (map_of adj') = dom (map_of adj) \<union> ValueNode ` {OperationResult (fst oper) i | i. i < n} \<union>
        (if n = 0 then {} else {OperationNode (fst oper)})"
      "adj_wf adj \<longrightarrow> adj_wf adj'" by auto
    let ?v = "OperationResult (fst oper) n"
    let ?adj'' = "add_edge (OperationNode (fst oper)) (n, ValueNode ?v) (add_node (ValueNode ?v) adj')"
    have "fold_result ?f [0..<Suc n] adj = Inr ?adj''"
      using Suc.prems IH(1)
      by (simp add: fold_result_append GetOutputValue_def NumberOfOutputs_def MakeOperationResultValue_def)
    moreover have "\<forall>k. edges_at ?adj'' k = edges_at adj k \<union>
         {(i, ValueNode (OperationResult (fst oper) i)) | i. i < Suc n \<and> k = OperationNode (fst oper)}"
      using IH(2) by (auto simp: less_Suc_eq)
    moreover have "dom (map_of ?adj'') = dom (map_of adj) \<union>
        ValueNode ` {OperationResult (fst oper) i | i. i < Suc n} \<union> {OperationNode (fst oper)}"
      using IH(3) by (auto simp: less_Suc_eq split: if_splits)
    ultimately show ?case using IH(4) by auto
  qed simp
  then show ?thesis by (simp add: add_output_edges_def op_outputs_def)
qed

text \<open>One visit, and the whole traversal.\<close>

lemma graph_PreVisit_spec:
  "\<exists>adj'. graph_PreVisit oper adj = Inr ((), adj') \<and>
    (\<forall>k. edges_at adj' k = edges_at adj k \<union> graph_edges [oper] k) \<and>
    dom (map_of adj') = dom (map_of adj) \<union> graph_nodes [oper] \<and>
    (adj_wf adj \<longrightarrow> adj_wf adj')"
proof -
  let ?adj1 = "add_input_edges oper (add_node (OperationNode (fst oper)) adj)"
  obtain adj' where out: "add_output_edges oper ?adj1 = Inr adj'"
    and edges: "\<And>k. edges_at adj' k = edges_at ?adj1 k \<union>
       {(i, ValueNode (OperationResult (fst oper) i)) | i. i < NumberOfOutputs (snd oper) \<and>
          k = OperationNode (fst oper)}"
    and dom: "dom (map_of adj') = dom (map_of ?adj1) \<union> ValueNode ` op_outputs oper \<union>
      (if NumberOfOutputs (snd oper) = 0 then {} else {OperationNode (fst oper)})"
    and wf: "adj_wf ?adj1 \<longrightarrow> adj_wf adj'"
    using add_output_edges_spec [of oper ?adj1] by blast
  have "edges_at adj' k = edges_at adj k \<union> graph_edges [oper] k" for k
    unfolding edges by (cases k; cases oper) (auto simp: add_input_edges_spec)
  moreover have "dom (map_of adj') = dom (map_of adj) \<union> graph_nodes [oper]"
    unfolding dom by (auto simp: add_input_edges_spec graph_nodes_def)
  moreover have "adj_wf adj \<longrightarrow> adj_wf adj'"
    using wf by (simp add: add_input_edges_spec)
  ultimately show ?thesis using out by (auto simp: graph_PreVisit_def)
qed

lemma graph_edges_append: "graph_edges (xs @ ys) k = graph_edges xs k \<union> graph_edges ys k"
  by (cases k) auto

lemma graph_nodes_append: "graph_nodes (xs @ ys) = graph_nodes xs \<union> graph_nodes ys"
  by (simp add: graph_nodes_def)

lemma ComputeAdjacencyList_spec:
  "\<exists>adj. ComputeAdjacencyList m = Inr adj \<and> adj_wf adj \<and>
    (\<forall>k. edges_at adj k = graph_edges (module_operations (snd m)) k) \<and>
    dom (map_of adj) = graph_nodes (module_operations (snd m))"
proof -
  let ?f = "\<lambda>oper s. rbind (graph_PreVisit oper s) (\<lambda>(_, s'). Inr s')"
  have "\<exists>adj'. fold_result ?f opers adj = Inr adj' \<and>
      (\<forall>k. edges_at adj' k = edges_at adj k \<union> graph_edges opers k) \<and>
      dom (map_of adj') = dom (map_of adj) \<union> graph_nodes opers \<and>
      adj_wf adj'" if "adj_wf adj" for opers adj
    using that
  proof (induction opers arbitrary: adj)
    case Nil
    have "graph_edges [] k = {}" for k by (cases k) auto
    with Nil show ?case by (simp add: graph_nodes_def)
  next
    case (Cons oper opers)
    obtain a where a: "graph_PreVisit oper adj = Inr ((), a)"
      "\<And>k. edges_at a k = edges_at adj k \<union> graph_edges [oper] k"
      "dom (map_of a) = dom (map_of adj) \<union> graph_nodes [oper]" "adj_wf a"
      using graph_PreVisit_spec [of oper adj] Cons.prems by blast
    with Cons.IH [OF a(4)] graph_edges_append [of "[oper]" opers] graph_nodes_append [of "[oper]" opers]
    show ?case by (auto simp: Un_assoc)
  qed
  from this [of "[]" "module_operations (snd m)"] show ?thesis
    by (auto simp: ComputeAdjacencyList_def adj_wf_def edges_at_def
        Visit_module_operations [OF graph_visitor_def])
qed

section \<open>Uses and results\<close>

definition uses_of :: "(op_id \<times> operation) list \<Rightarrow> ir_value \<Rightarrow> (edge_index \<times> op_id) set" where
  "uses_of opers v = {(i, fst oper) | i oper. oper \<in> set opers \<and> i < length (inputs (snd oper)) \<and>
     inputs (snd oper) ! i = v}"

definition results_of :: "(op_id \<times> operation) list \<Rightarrow> op_id \<Rightarrow> (edge_index \<times> ir_value) set" where
  "results_of opers oid = {(i, OperationResult oid i) | i oper. oper \<in> set opers \<and> fst oper = oid \<and>
     i < NumberOfOutputs (snd oper)}"

lemma materialize_edges:
  "graph_edges opers (ValueNode v) = (\<lambda>(i, oid). (i, OperationNode oid)) ` uses_of opers v"
  "graph_edges opers (OperationNode oid) = (\<lambda>(i, v). (i, ValueNode v)) ` results_of opers oid"
  by (auto simp: uses_of_def results_of_def image_iff)

lemma map_result_inverse:
  assumes "set xs = g ` S" and "\<And>y. f (g y) = Inr y" and "distinct xs"
  shows "\<exists>ys. map_result f xs = Inr ys \<and> set ys = S \<and> distinct ys"
  using assms(1,3)
proof (induction xs arbitrary: S)
  case (Cons x xs)
  from Cons.prems(1) have "x \<in> g ` S" by auto
  then obtain y where y: "x = g y" "y \<in> S" by blast
  have inj: "a = b" if "g a = g b" for a b 
    using that assms(2) [of a] assms(2) [of b] by (metis Inr_inject)
  have gy: "g y \<notin> set xs" using Cons.prems(2) y by simp
  have "set xs = insert (g y) (set xs) - {g y}" using gy by simp
  also have "\<dots> = g ` S - {g y}" using Cons.prems(1) y(1) by simp
  also have "\<dots> = g ` (S - {y})" using inj by blast
  finally have "set xs = g ` (S - {y})" .
  from Cons.IH [OF \<open>set xs = g ` (S - {y})\<close>] Cons.prems(2) obtain ys where
    "map_result f xs = Inr ys" "set ys = S - {y}" "distinct ys" by auto
  with y assms(2) show ?case by auto
qed simp

lemma GetAdjacentNodes_spec:
  assumes "ComputeAdjacencyList m = Inr adj" and "is_order order"
  shows "case GetAdjacentNodes adj n of
      Inl _ \<Rightarrow> n \<notin> graph_nodes (module_operations (snd m))
    | Inr es \<Rightarrow> n \<in> graph_nodes (module_operations (snd m)) \<and> distinct (order es) \<and>
        set (order es) = graph_edges (module_operations (snd m)) n"
proof -
  have wf: "adj_wf adj" and edges: "edges_at adj n = graph_edges (module_operations (snd m)) n"
    and dom: "dom (map_of adj) = graph_nodes (module_operations (snd m))"
    using ComputeAdjacencyList_spec [of m] assms(1) by auto
  show ?thesis
  proof (cases "map_of adj n")
    case None
    then have "n \<notin> dom (map_of adj)" by blast
    with None dom show ?thesis by (simp add: GetAdjacentNodes_def)
  next
    case (Some es)
    then have "n \<in> dom (map_of adj)" by blast
    with Some dom edges adj_wf_map_of [OF wf Some] assms(2) show ?thesis
      by (simp add: GetAdjacentNodes_def is_order_set is_order_distinct edges_at_def)
  qed
qed

lemma GetUses_spec:
  assumes "ComputeAdjacencyList m = Inr adj" and "is_order order"
  shows "case GetUses order adj v of
      Inl _ \<Rightarrow> ValueNode v \<notin> graph_nodes (module_operations (snd m))
    | Inr uses \<Rightarrow> ValueNode v \<in> graph_nodes (module_operations (snd m)) \<and> distinct uses \<and>
        set uses = uses_of (module_operations (snd m)) v"
proof (cases "GetAdjacentNodes adj (ValueNode v)")
  case (Inl e)
  with GetAdjacentNodes_spec [OF assms, of "ValueNode v"] show ?thesis by (simp add: GetUses_def)
next
  case (Inr es)
  with GetAdjacentNodes_spec [OF assms, of "ValueNode v"]
  have node: "ValueNode v \<in> graph_nodes (module_operations (snd m))" and "distinct (order es)"
    and "set (order es) = (\<lambda>(i, oid). (i, OperationNode oid)) ` uses_of (module_operations (snd m)) v"
    by (simp_all add: materialize_edges del: graph_edges.simps)
  from map_result_inverse [OF this(3) _ this(2), of materialize_operation] obtain ys where
    "map_result materialize_operation (order es) = Inr ys" "distinct ys"
    "set ys = uses_of (module_operations (snd m)) v" by auto
  with Inr node show ?thesis by (simp add: GetUses_def)
qed

lemma GetResults_spec:
  assumes "ComputeAdjacencyList m = Inr adj" and "is_order order"
  shows "case GetResults order adj oid of
      Inl _ \<Rightarrow> OperationNode oid \<notin> graph_nodes (module_operations (snd m))
    | Inr rs \<Rightarrow> OperationNode oid \<in> graph_nodes (module_operations (snd m)) \<and> distinct rs \<and>
        set rs = results_of (module_operations (snd m)) oid"
proof (cases "GetAdjacentNodes adj (OperationNode oid)")
  case (Inl e)
  with GetAdjacentNodes_spec [OF assms, of "OperationNode oid"] show ?thesis by (simp add: GetResults_def)
next
  case (Inr es)
  with GetAdjacentNodes_spec [OF assms, of "OperationNode oid"]
  have node: "OperationNode oid \<in> graph_nodes (module_operations (snd m))" and "distinct (order es)"
    and "set (order es) = (\<lambda>(i, v). (i, ValueNode v)) ` results_of (module_operations (snd m)) oid"
    by (simp_all add: materialize_edges del: graph_edges.simps)
  from map_result_inverse [OF this(3) _ this(2), of materialize_value] obtain ys where
    "map_result materialize_value (order es) = Inr ys" "distinct ys"
    "set ys = results_of (module_operations (snd m)) oid" by auto
  with Inr node show ?thesis by (simp add: GetResults_def)
qed

lemma op_node_iff: "OperationNode oid \<in> graph_nodes opers \<longleftrightarrow> oid \<in> fst ` set opers"
  by (auto simp: graph_nodes_def)

section \<open>Properties\<close>

text \<open>C31: Building the graph of a module never fails, and the graph is the module's use/def
  relation: \<^verbatim>\<open>GetUses\<close> of a value lists each operand position that holds it exactly once,
  \<^verbatim>\<open>GetResults\<close> of an operation each of its output values exactly once, in whatever order the
  hash sets iterate, and both fail exactly for what does not occur in the module.\<close>

theorem module_graph_is_use_def:
  assumes "is_order order"
  shows "\<exists>adj. ComputeAdjacencyList m = Inr adj \<and>
    (case GetUses order adj v of
       Inl _ \<Rightarrow> ValueNode v \<notin> graph_nodes (module_operations (snd m))
     | Inr uses \<Rightarrow> ValueNode v \<in> graph_nodes (module_operations (snd m)) \<and> distinct uses \<and>
         set uses = uses_of (module_operations (snd m)) v) \<and>
    (case GetResults order adj oid of
       Inl _ \<Rightarrow> oid \<notin> fst ` set (module_operations (snd m))
     | Inr rs \<Rightarrow> oid \<in> fst ` set (module_operations (snd m)) \<and> distinct rs \<and>
         set rs = results_of (module_operations (snd m)) oid)"
proof -
  obtain adj where "ComputeAdjacencyList m = Inr adj"
    using ComputeAdjacencyList_spec [of m] by blast
  with GetUses_spec [OF this assms, of v] GetResults_spec [OF this assms, of oid] show ?thesis
    unfolding op_node_iff by blast
qed

definition twice_module :: ir_module where
  "twice_module = \<lparr>blocks = [(9, \<lparr>parent_module = Some 0, block_inputs = [], block_outputs = [],
       operations = [(1, make_operation (Some 9) (make_operator ''op'') [] [Any, Any])],
       results = []\<rparr>)], named_storage_map = []\<rparr>"

theorem module_graph_is_use_def_witness:
  "\<exists>adj uses. ComputeAdjacencyList (0, twice_module) = Inr adj \<and>
     GetUses rev adj Any = Inr uses \<and> set uses = {(0, 1), (1, 1)} \<and> distinct uses"
proof -
  have uses: "uses_of (module_operations twice_module) Any = {(0, 1), (1, 1)}"
    by (auto simp: uses_of_def twice_module_def module_operations_def make_operation_def less_Suc_eq
        intro: exI [of _ "0 :: nat"] exI [of _ "1 :: nat"])
  have node: "ValueNode Any \<in> graph_nodes (module_operations twice_module)"
    by (simp add: graph_nodes_def twice_module_def module_operations_def make_operation_def)
  from module_graph_is_use_def [OF is_order_id(3), of "(0, twice_module)" Any 1] obtain adj
    where "ComputeAdjacencyList (0, twice_module) = Inr adj"
    and "case GetUses rev adj Any of
       Inl _ \<Rightarrow> ValueNode Any \<notin> graph_nodes (module_operations twice_module)
     | Inr us \<Rightarrow> distinct us \<and> set us = uses_of (module_operations twice_module) Any"
    by (fastforce split: sum.splits)
  with node uses show ?thesis by (cases "GetUses rev adj Any") auto
qed

end
