(* ===== verification/Fixpoint.thy ===== *)
theory Fixpoint imports
  Module_Graph
  Ifc_Tags
begin

text \<open>
  \<^verbatim>\<open>ModuleFixpointIterator::ComputeFixpoint\<close> (\<^verbatim>\<open>src/analysis/common/module_fixpoint_iterator.h\<close>).

  The template's \<^verbatim>\<open>AbstractSemantics\<close> is the record \<open>semantics\<close>, the order in which the hash
  containers iterate the record \<open>orders\<close>. The loop is \<open>while_option\<close>, so that a run that does
  not end is \<open>None\<close>. An abstract worklist algorithm on maps and sets, which may pick any
  operation of the worklist, is the specification the loop refines; its invariants are proved
  from the laws of the locale \<open>fixpoint_semantics\<close>.
\<close>

section \<open>The iterator\<close>

record 'a semantics =
  state_bottom :: 'a
  state_join :: "'a \<Rightarrow> 'a \<Rightarrow> 'a"
  state_equivalent :: "'a \<Rightarrow> 'a \<Rightarrow> bool"
  initial_state :: "ir_value \<Rightarrow> 'a"
  operation_transformer :: "op_id \<times> operation \<Rightarrow> 'a list \<Rightarrow> 'a list result"

record orders =
  ord_nodes :: "node list \<Rightarrow> node list"
  ord_edges :: edge_order
  ord_worklist :: "op_id list \<Rightarrow> op_id list"

definition orders_ok :: "orders \<Rightarrow> bool" where
  "orders_ok ords \<longleftrightarrow> is_order (ord_nodes ords) \<and> is_order (ord_edges ords) \<and>
     is_order (ord_worklist ords)"

record 'a fixpoint_state =
  value_states :: "(ir_value, 'a) hash_map"
  worklist :: "op_id hash_set"

definition get_current_state :: "'a semantics \<Rightarrow> (ir_value, 'a) hash_map \<Rightarrow> ir_value \<Rightarrow> 'a \<times> bool" where
  "get_current_state sem vs v =
     (case map_of vs v of None \<Rightarrow> (state_bottom sem, True) | Some x \<Rightarrow> (x, False))"

definition add_uses ::
  "orders \<Rightarrow> adjacency_list \<Rightarrow> ir_value \<Rightarrow> 'a fixpoint_state \<Rightarrow> 'a fixpoint_state result" where
  "add_uses ords adj v st =
     rbind (GetUses (ord_edges ords) adj v) (\<lambda>uses.
       Inr (st\<lparr>worklist := fold hs_insert (map snd uses) (worklist st)\<rparr>))"

definition init_node ::
  "orders \<Rightarrow> 'a semantics \<Rightarrow> (op_id \<times> operation) list \<Rightarrow> adjacency_list \<Rightarrow> node
     \<Rightarrow> 'a fixpoint_state \<Rightarrow> 'a fixpoint_state result" where
  "init_node ords sem opers adj node st =
     (case node of
        ValueNode v \<Rightarrow>
          if is_operation_result v then Inr st
          else let (vs, success) = hm_insert v (initial_state sem v) (value_states st)
               in rbind (check success ''Duplicate entry nodes during fixpoint iteration.'')
                    (\<lambda>_. add_uses ords adj v (st\<lparr>value_states := vs\<rparr>))
      | OperationNode oid \<Rightarrow>
          rbind (deref (map_of opers oid) ''operation_node'') (\<lambda>operation.
            Inr (if inputs operation = [] then st\<lparr>worklist := hs_insert oid (worklist st)\<rparr> else st)))"

definition push_result ::
  "orders \<Rightarrow> 'a semantics \<Rightarrow> adjacency_list \<Rightarrow> 'a list \<Rightarrow> edge_index \<times> ir_value
     \<Rightarrow> 'a fixpoint_state \<Rightarrow> 'a fixpoint_state result" where
  "push_result ords sem adj operation_outputs edge st =
     (case edge of (index, target) \<Rightarrow>
       rbind (check (index < length operation_outputs)
                ''Edge index in module graph is out of bounds.'') (\<lambda>_.
       let edge_out = operation_outputs ! index;
           (target_old_state_in, first_visit) = get_current_state sem (value_states st) target;
           target_new_state_in = state_join sem target_old_state_in edge_out
       in if first_visit \<or> \<not> state_equivalent sem target_new_state_in target_old_state_in
          then add_uses ords adj target
                 (st\<lparr>value_states := hm_assign target target_new_state_in (value_states st)\<rparr>)
          else Inr st))"

definition process_operation ::
  "orders \<Rightarrow> 'a semantics \<Rightarrow> (op_id \<times> operation) list \<Rightarrow> adjacency_list \<Rightarrow> op_id
     \<Rightarrow> 'a fixpoint_state \<Rightarrow> 'a fixpoint_state result" where
  "process_operation ords sem opers adj oid st =
     rbind (deref (map_of opers oid) ''*worklist.begin()'') (\<lambda>operation.
     rbind (operation_transformer sem (oid, operation)
              (map (\<lambda>v. fst (get_current_state sem (value_states st) v)) (inputs operation)))
       (\<lambda>operation_outputs.
     rbind (check (length operation_outputs = NumberOfOutputs operation)
              ''Transformer for an operation returns insufficient outputs.'') (\<lambda>_.
     rbind (GetResults (ord_edges ords) adj oid) (\<lambda>edges.
     fold_result (push_result ords sem adj operation_outputs) edges st))))"

definition iterate_worklist ::
  "orders \<Rightarrow> 'a semantics \<Rightarrow> (op_id \<times> operation) list \<Rightarrow> adjacency_list
     \<Rightarrow> 'a fixpoint_state \<Rightarrow> 'a fixpoint_state result" where
  "iterate_worklist ords sem opers adj st =
     (let oid = hd (ord_worklist ords (worklist st))
      in process_operation ords sem opers adj oid (st\<lparr>worklist := hs_erase oid (worklist st)\<rparr>))"

definition init_state ::
  "orders \<Rightarrow> 'a semantics \<Rightarrow> (op_id \<times> operation) list \<Rightarrow> adjacency_list \<Rightarrow> 'a fixpoint_state result"
where
  "init_state ords sem opers adj =
     fold_result (init_node ords sem opers adj) (GetNodes (ord_nodes ords) adj)
       \<lparr>value_states = [], worklist = []\<rparr>"

fun running :: "'a fixpoint_state result \<Rightarrow> bool" where
  "running (Inl e) = False"
| "running (Inr st) = (worklist st \<noteq> [])"

definition ComputeFixpoint ::
  "orders \<Rightarrow> module_id \<times> ir_module \<Rightarrow> 'a semantics \<Rightarrow> (ir_value, 'a) hash_map result option" where
  "ComputeFixpoint ords m sem =
     (let opers = module_operations (snd m) in
      case ComputeAdjacencyList m of
        Inl e \<Rightarrow> Some (Inl e)
      | Inr adj \<Rightarrow>
          map_option (\<lambda>r. rbind r (\<lambda>st. Inr (value_states st)))
            (while_option running (\<lambda>r. rbind r (iterate_worklist ords sem opers adj))
               (init_state ords sem opers adj)))"

text \<open>For evaluation on concrete modules.\<close>

lemma while_running:
  "worklist st \<noteq> [] \<Longrightarrow> while_option running c (Inr st) = while_option running c (c (Inr st))"
  "worklist st = [] \<Longrightarrow> while_option running c (Inr st) = Some (Inr st)"
  by (subst while_option_unfold, simp)+

lemmas eval_fixpoint = init_state_def init_node_def GetNodes_def GetUses_def GetAdjacentNodes_def
  add_uses_def GetResults_def iterate_worklist_def process_operation_def push_result_def
  get_current_state_def hs_erase_def hs_insert_def hm_insert_eq hm_assign_def Let_def
  make_operation_def make_operator_def NumberOfOutputs_def module_operations_def

section \<open>The abstract worklist algorithm\<close>

definition look :: "'a \<Rightarrow> ('v \<Rightarrow> 'a option) \<Rightarrow> 'v \<Rightarrow> 'a" where
  "look b vs v = (case vs v of None \<Rightarrow> b | Some x \<Rightarrow> x)"

definition activated :: "(ir_value \<Rightarrow> 'a option) \<Rightarrow> operation \<Rightarrow> bool" where
  "activated vs oper \<longleftrightarrow> inputs oper = [] \<or> (\<exists>v \<in> set (inputs oper). vs v \<noteq> None)"

definition users :: "(op_id \<times> operation) list \<Rightarrow> ir_value \<Rightarrow> op_id set" where
  "users opers v = {fst oper | oper. oper \<in> set opers \<and> v \<in> set (inputs (snd oper))}"

definition transform ::
  "'a semantics \<Rightarrow> (ir_value \<Rightarrow> 'a option) \<Rightarrow> op_id \<times> operation \<Rightarrow> 'a list result" where
  "transform sem vs oper =
     operation_transformer sem oper (map (look (state_bottom sem) vs) (inputs (snd oper)))"

fun apply_outputs ::
  "'a semantics \<Rightarrow> op_id \<Rightarrow> 'a list \<Rightarrow> (ir_value \<Rightarrow> 'a option) \<Rightarrow> ir_value \<Rightarrow> 'a option" where
  "apply_outputs sem oid outs vs (OperationResult oid' i) =
     (if oid' = oid \<and> i < length outs
      then Some (state_join sem (look (state_bottom sem) vs (OperationResult oid' i)) (outs ! i))
      else vs (OperationResult oid' i))"
| "apply_outputs sem oid outs vs v = vs v"

definition initial_values ::
  "'a semantics \<Rightarrow> (op_id \<times> operation) list \<Rightarrow> ir_value \<Rightarrow> 'a option" where
  "initial_values sem opers v =
     (if \<not> is_operation_result v \<and> users opers v \<noteq> {} then Some (initial_state sem v) else None)"

definition initial_worklist :: "(op_id \<times> operation) list \<Rightarrow> op_id set" where
  "initial_worklist opers = {fst oper | oper. oper \<in> set opers \<and>
     (inputs (snd oper) = [] \<or> (\<exists>v \<in> set (inputs (snd oper)). \<not> is_operation_result v))}"

text \<open>One step picks any operation of the worklist.\<close>

inductive abs_step ::
  "'a semantics \<Rightarrow> (op_id \<times> operation) list \<Rightarrow> (ir_value \<Rightarrow> 'a option) \<times> op_id set
     \<Rightarrow> (ir_value \<Rightarrow> 'a option) \<times> op_id set \<Rightarrow> bool" for sem opers where
  "oid \<in> wl \<Longrightarrow> (oid, oper) \<in> set opers \<Longrightarrow> transform sem vs (oid, oper) = Inr outs \<Longrightarrow>
   length outs = NumberOfOutputs oper \<Longrightarrow> vs' = apply_outputs sem oid outs vs \<Longrightarrow>
   abs_step sem opers (vs, wl) (vs', (wl - {oid}) \<union> (\<Union>v \<in> {v. vs' v \<noteq> vs v}. users opers v))"

inductive_cases abs_stepE: "abs_step sem opers (vs, wl) (vs', wl')"

inductive abs_reach ::
  "'a semantics \<Rightarrow> (op_id \<times> operation) list \<Rightarrow> (ir_value \<Rightarrow> 'a option) \<Rightarrow> op_id set \<Rightarrow> bool"
  for sem opers where
  start: "abs_reach sem opers (initial_values sem opers) (initial_worklist opers)"
| step: "abs_reach sem opers vs wl \<Longrightarrow> abs_step sem opers (vs, wl) (vs', wl') \<Longrightarrow>
    abs_reach sem opers vs' wl'"

text \<open>
  A solution: the initial state for every value that is not an operation's result, and for
  every operation that has no inputs or an input with a state, states of the results that are
  above what its transformer computes from the states of its inputs.
\<close>

definition solution :: "'a semantics \<Rightarrow> (op_id \<times> operation) list \<Rightarrow> (ir_value \<Rightarrow> 'a option) \<Rightarrow> bool" where
  "solution sem opers vs \<longleftrightarrow>
     (\<forall>v. \<not> is_operation_result v \<longrightarrow> users opers v \<noteq> {} \<longrightarrow> vs v = Some (initial_state sem v)) \<and>
     (\<forall>(oid, oper) \<in> set opers. activated vs oper \<longrightarrow>
        (\<exists>outs. transform sem vs (oid, oper) = Inr outs \<and>
           (\<forall>i < NumberOfOutputs oper. \<exists>x. vs (OperationResult oid i) = Some x \<and>
              below (state_join sem) (outs ! i) x)))"

section \<open>The loop refines the abstract algorithm\<close>

lemma get_current_state_look: "fst (get_current_state sem vs v) = look (state_bottom sem) (map_of vs) v"
  by (simp add: get_current_state_def look_def split: option.splits)

lemma users_uses_of: "snd ` uses_of opers v = users opers v"
  by (auto simp: uses_of_def users_def image_iff in_set_conv_nth) blast+

lemma apply_outputs_other:
  "\<nexists>i. v = OperationResult oid i \<and> i < length outs \<Longrightarrow> apply_outputs sem oid outs vs v = vs v"
  by (cases v) auto

lemma value_node_cases:
  "ValueNode v \<in> graph_nodes opers \<Longrightarrow> \<not> is_operation_result v \<Longrightarrow> users opers v \<noteq> {}"
  by (force simp: graph_nodes_def users_def op_outputs_def)

lemma users_value_node: "users opers v \<noteq> {} \<Longrightarrow> ValueNode v \<in> graph_nodes opers"
  by (force simp: graph_nodes_def users_def)

definition st_wf :: "'a fixpoint_state \<Rightarrow> bool" where
  "st_wf st \<longleftrightarrow> hm_wf (value_states st) \<and> distinct (worklist st)"

lemma add_uses_spec:
  assumes "ComputeAdjacencyList m = Inr adj" and "is_order (ord_edges ords)"
    and "ValueNode v \<in> graph_nodes (module_operations (snd m))" and "st_wf st"
  shows "\<exists>st'. add_uses ords adj v st = Inr st' \<and> value_states st' = value_states st \<and>
    set (worklist st') = set (worklist st) \<union> users (module_operations (snd m)) v \<and> st_wf st'"
proof -
  from GetUses_spec [OF assms(1,2), of v] assms(3) obtain us
    where "GetUses (ord_edges ords) adj v = Inr us"
      and "set us = uses_of (module_operations (snd m)) v"
    by (auto split: sum.splits)
  with assms(4) users_uses_of [of "module_operations (snd m)" v] show ?thesis
    by (auto simp: add_uses_def st_wf_def)
qed

lemma push_result_spec:
  assumes "ComputeAdjacencyList m = Inr adj" and "is_order (ord_edges ords)"
    and "ValueNode t \<in> graph_nodes (module_operations (snd m))"
    and "i < length outs" and "\<And>x y. state_equivalent sem x y \<longleftrightarrow> x = y" and "st_wf st"
  shows "\<exists>st'. push_result ords sem adj outs (i, t) st = Inr st' \<and> st_wf st' \<and>
    map_of (value_states st') = (map_of (value_states st))
      (t \<mapsto> state_join sem (look (state_bottom sem) (map_of (value_states st)) t) (outs ! i)) \<and>
    set (worklist st') = set (worklist st) \<union>
      (if map_of (value_states st') t = map_of (value_states st) t then {}
       else users (module_operations (snd m)) t)"
proof -
  let ?old = "look (state_bottom sem) (map_of (value_states st)) t"
  let ?new = "state_join sem ?old (outs ! i)"
  let ?st = "st\<lparr>value_states := hm_assign t ?new (value_states st)\<rparr>"
  have wf: "st_wf ?st" using assms(6) by (simp add: st_wf_def)
  show ?thesis
  proof (cases "map_of (value_states st) t = Some ?new")
    case True
    define x where "x = ?new"
    have x: "map_of (value_states st) t = Some x" using True by (simp only: x_def)
    then have old: "?old = x" by (simp add: look_def)
    then have new: "state_join sem x (outs ! i) = x" by (simp add: x_def)
    have "push_result ords sem adj outs (i, t) st = Inr st"
      using x new assms(4) by (simp add: push_result_def get_current_state_def assms(5))
    moreover have "(map_of (value_states st)) (t \<mapsto> ?new) = map_of (value_states st)"
      unfolding old new using x by (simp add: fun_upd_idem)
    ultimately show ?thesis using assms(6) by simp
  next
    case False
    then have "push_result ords sem adj outs (i, t) st = add_uses ords adj t ?st"
      using assms(4)
      by (auto simp: push_result_def get_current_state_def look_def assms(5) split: option.splits)
    with add_uses_spec [OF assms(1-3) wf] False show ?thesis by auto
  qed
qed

lemma push_results_spec:
  assumes "ComputeAdjacencyList m = Inr adj" and "is_order (ord_edges ords)"
    and "\<And>x y. state_equivalent sem x y \<longleftrightarrow> x = y"
    and "\<And>i t. (i, t) \<in> set rs \<Longrightarrow> t = OperationResult oid i \<and> i < length outs \<and>
       ValueNode t \<in> graph_nodes (module_operations (snd m))"
    and "distinct rs" and "st_wf st"
  shows "\<exists>st'. fold_result (push_result ords sem adj outs) rs st = Inr st' \<and> st_wf st' \<and>
    map_of (value_states st') = (\<lambda>v. if v \<in> snd ` set rs
       then apply_outputs sem oid outs (map_of (value_states st)) v
       else map_of (value_states st) v) \<and>
    set (worklist st') = set (worklist st) \<union>
      (\<Union>v \<in> {v. map_of (value_states st') v \<noteq> map_of (value_states st) v}.
         users (module_operations (snd m)) v)"
  using assms(4-6)
proof (induction rs arbitrary: st)
  case Nil
  then show ?case by simp
next
  case (Cons r rs)
  obtain i where r: "r = (i, OperationResult oid i)" and i: "i < length outs"
    and node: "ValueNode (OperationResult oid i) \<in> graph_nodes (module_operations (snd m))"
  proof (cases r)
    case (Pair i t)
    then have "(i, t) \<in> set (r # rs)" by simp
    from Cons.prems(1) [OF this] Pair that show ?thesis by blast
  qed
  let ?t = "OperationResult oid i"
  let ?vs = "map_of (value_states st)"
  from push_result_spec [OF assms(1,2) node i assms(3) Cons.prems(3)] obtain st1
    where push: "push_result ords sem adj outs (i, ?t) st = Inr st1" "st_wf st1"
    and vs1: "map_of (value_states st1) = ?vs (?t \<mapsto> state_join sem (look (state_bottom sem) ?vs ?t) (outs ! i))"
    and wl1: "set (worklist st1) = set (worklist st) \<union> (if map_of (value_states st1) ?t = ?vs ?t then {}
       else users (module_operations (snd m)) ?t)" by (elim exE conjE) (rule that)
  from Cons.prems(1) have "\<And>i t. (i, t) \<in> set rs \<Longrightarrow> t = OperationResult oid i \<and> i < length outs \<and>
       ValueNode t \<in> graph_nodes (module_operations (snd m))"
    by (rule) simp_all
  from Cons.IH [OF this _ push(2)] Cons.prems(2) obtain st2
    where rest: "fold_result (push_result ords sem adj outs) rs st1 = Inr st2" "st_wf st2"
    and vs2: "map_of (value_states st2) = (\<lambda>v. if v \<in> snd ` set rs
       then apply_outputs sem oid outs (map_of (value_states st1)) v else map_of (value_states st1) v)"
    and wl2: "set (worklist st2) = set (worklist st1) \<union>
      (\<Union>v \<in> {v. map_of (value_states st2) v \<noteq> map_of (value_states st1) v}.
         users (module_operations (snd m)) v)" by auto
  have t: "?t \<notin> snd ` set rs"
  proof
    assume "?t \<in> snd ` set rs"
    then obtain j where j: "(j, ?t) \<in> set rs" by auto
    with Cons.prems(1) [of j ?t] have "j = i" by simp
    with j r Cons.prems(2) show False by simp
  qed
  have same: "apply_outputs sem oid outs (map_of (value_states st1)) v = apply_outputs sem oid outs ?vs v"
    if "v \<noteq> ?t" for v
    using that by (cases v) (auto simp: vs1 look_def)
  have vs2': "map_of (value_states st2) = (\<lambda>v. if v \<in> snd ` set (r # rs)
       then apply_outputs sem oid outs ?vs v else ?vs v)"
  proof
    fix v
    show "map_of (value_states st2) v = (if v \<in> snd ` set (r # rs)
        then apply_outputs sem oid outs ?vs v else ?vs v)"
      using t i same [of v] by (cases "v = ?t") (simp_all add: vs2 vs1 r)
  qed
  have vs2t: "map_of (value_states st2) ?t = map_of (value_states st1) ?t"
    using t by (simp add: vs2)
  have vs1v: "map_of (value_states st1) v = ?vs v" if "v \<noteq> ?t" for v
    using that by (simp add: vs1)
  have "{v. map_of (value_states st2) v \<noteq> ?vs v} =
      {v. map_of (value_states st2) v \<noteq> map_of (value_states st1) v} \<union>
      (if map_of (value_states st1) ?t = ?vs ?t then {} else {?t})"
    using vs2t vs1v by (auto simp: set_eq_iff) (metis vs1v)+
  then have "set (worklist st2) = set (worklist st) \<union>
      (\<Union>v \<in> {v. map_of (value_states st2) v \<noteq> ?vs v}. users (module_operations (snd m)) v)"
    unfolding wl2 wl1 by auto
  with push rest vs2' r show ?case by auto
qed

definition abs_state :: "'a fixpoint_state \<Rightarrow> (ir_value \<Rightarrow> 'a option) \<times> op_id set" where
  "abs_state st = (map_of (value_states st), set (worklist st))"

lemma module_op_unique:
  "distinct (map fst opers) \<Longrightarrow> map_of opers oid = Some oper \<longleftrightarrow> (oid, oper) \<in> set opers"
  by simp

text \<open>Processing an operation is a step of the abstract algorithm.\<close>

lemma process_operation_refines:
  assumes "ComputeAdjacencyList m = Inr adj" and "is_order (ord_edges ords)"
    and "\<And>x y. state_equivalent sem x y \<longleftrightarrow> x = y"
    and "distinct (map fst (module_operations (snd m)))"
    and "(oid, oper) \<in> set (module_operations (snd m))" and "oid \<in> set (worklist st)"
    and "transform sem (map_of (value_states st)) (oid, oper) = Inr outs"
    and "length outs = NumberOfOutputs oper" and "st_wf st"
  shows "\<exists>st'. process_operation ords sem (module_operations (snd m)) adj oid
       (st\<lparr>worklist := hs_erase oid (worklist st)\<rparr>) = Inr st' \<and> st_wf st' \<and>
     abs_step sem (module_operations (snd m)) (abs_state st) (abs_state st')"
proof -
  let ?opers = "module_operations (snd m)"
  let ?st = "st\<lparr>worklist := hs_erase oid (worklist st)\<rparr>"
  have wf: "st_wf ?st" using assms(9) by (simp add: st_wf_def)
  have "OperationNode oid \<in> graph_nodes ?opers"
    using assms(5) by (force simp: op_node_iff)
  with GetResults_spec [OF assms(1,2), of oid] obtain rs
    where rs: "GetResults (ord_edges ords) adj oid = Inr rs" "distinct rs"
      "set rs = results_of ?opers oid" by (auto split: sum.splits)
  have num: "NumberOfOutputs (snd o2) = length outs" if "o2 \<in> set ?opers" "fst o2 = oid" for o2
    using that assms(4,5,8) by (metis map_of_is_SomeI prod.collapse option.inject)
  have targets: "t = OperationResult oid i \<and> i < length outs \<and> ValueNode t \<in> graph_nodes ?opers"
    if "(i, t) \<in> set rs" for i t
    using that num by (force simp: rs(3) results_of_def graph_nodes_def op_outputs_def)
  from push_results_spec [OF assms(1,2,3) targets rs(2) wf] obtain st'
    where st': "fold_result (push_result ords sem adj outs) rs ?st = Inr st'" "st_wf st'"
    and vs'': "map_of (value_states st') = (\<lambda>v. if v \<in> snd ` set rs
       then apply_outputs sem oid outs (map_of (value_states ?st)) v
       else map_of (value_states ?st) v)"
    and wl'': "set (worklist st') = set (worklist ?st) \<union>
      (\<Union>v \<in> {v. map_of (value_states st') v \<noteq> map_of (value_states ?st) v}. users ?opers v)"
    by blast
  have vs': "map_of (value_states st') = (\<lambda>v. if v \<in> snd ` set rs
       then apply_outputs sem oid outs (map_of (value_states st)) v
       else map_of (value_states st) v)"
    using vs'' by (simp cong: if_cong)
  have wl': "set (worklist st') = (set (worklist st) - {oid}) \<union>
      (\<Union>v \<in> {v. map_of (value_states st') v \<noteq> map_of (value_states st) v}. users ?opers v)"
    using wl'' by simp
  have "snd ` set rs = {OperationResult oid i | i. i < length outs}"
    unfolding rs(3) results_of_def using assms(5) num by force
  then have "map_of (value_states st') = apply_outputs sem oid outs (map_of (value_states st))"
    unfolding vs' by (simp add: fun_eq_iff apply_outputs_other)
  from abs_step.intros [where sem = sem, OF assms(6,5,7,8) this] wl'
  have "abs_step sem ?opers (abs_state st) (abs_state st')"
    by (simp add: abs_state_def)
  moreover have "process_operation ords sem ?opers adj oid ?st = Inr st'"
    using st'(1) rs(1) assms(4,5,7,8)
    by (simp add: process_operation_def get_current_state_look transform_def)
  ultimately show ?thesis using st'(2) by blast
qed

text \<open>The initialisation loop computes the abstract algorithm's start.\<close>

definition init_ops :: "(op_id \<times> operation) list \<Rightarrow> node \<Rightarrow> op_id set" where
  "init_ops opers n = (case n of
     ValueNode v \<Rightarrow> if is_operation_result v then {} else users opers v
   | OperationNode oid \<Rightarrow> {oid. \<exists>oper. (oid, oper) \<in> set opers \<and> inputs oper = [] \<and> n = OperationNode oid})"

lemma init_nodes_spec:
  assumes "ComputeAdjacencyList m = Inr adj" and "is_order (ord_edges ords)"
    and "distinct (map fst (module_operations (snd m)))"
    and "distinct ns" and "set ns \<subseteq> graph_nodes (module_operations (snd m))" and "st_wf st"
    and "\<And>v. ValueNode v \<in> set ns \<Longrightarrow> map_of (value_states st) v = None"
  shows "\<exists>st'. fold_result (init_node ords sem (module_operations (snd m)) adj) ns st = Inr st' \<and>
    st_wf st' \<and>
    map_of (value_states st') = (\<lambda>v. if ValueNode v \<in> set ns \<and> \<not> is_operation_result v
       then Some (initial_state sem v) else map_of (value_states st) v) \<and>
    set (worklist st') = set (worklist st) \<union> (\<Union>n \<in> set ns. init_ops (module_operations (snd m)) n)"
  using assms(4-7)
proof (induction ns arbitrary: st)
  case Nil
  then show ?case by simp
next
  case (Cons n ns)
  let ?opers = "module_operations (snd m)"
  have "\<exists>st1. init_node ords sem ?opers adj n st = Inr st1 \<and> st_wf st1 \<and>
      map_of (value_states st1) = (\<lambda>v. if n = ValueNode v \<and> \<not> is_operation_result v
        then Some (initial_state sem v) else map_of (value_states st) v) \<and>
      set (worklist st1) = set (worklist st) \<union> init_ops ?opers n"
  proof (cases n)
    case (ValueNode v)
    show ?thesis
    proof (cases "is_operation_result v")
      case True
      with ValueNode Cons.prems(3) show ?thesis
        by (auto simp: init_node_def init_ops_def fun_eq_iff)
    next
      case False
      have none: "map_of (value_states st) v = None"
        using Cons.prems(4) [of v] ValueNode by simp
      let ?st = "st\<lparr>value_states := value_states st @ [(v, initial_state sem v)]\<rparr>"
      have "st_wf ?st"
        using Cons.prems(3) none by (simp add: st_wf_def hm_wf_def map_of_eq_None_iff)
      moreover have "ValueNode v \<in> graph_nodes ?opers" using Cons.prems(2) ValueNode by simp
      moreover have "init_node ords sem ?opers adj n st = add_uses ords adj v ?st"
        using ValueNode False none by (simp add: init_node_def hm_insert_eq)
      moreover have "map_of (value_states ?st) =
          (\<lambda>w. if n = ValueNode w \<and> \<not> is_operation_result w
            then Some (initial_state sem w) else map_of (value_states st) w)"
        using ValueNode False none by (auto simp: fun_eq_iff map_add_def split: option.splits)
      moreover have "init_ops ?opers n = users ?opers v"
        using ValueNode False by (simp add: init_ops_def)
      ultimately show ?thesis using add_uses_spec [OF assms(1,2), of v ?st] by auto
    qed
  next
    case (OperationNode oid)
    then have "oid \<in> fst ` set ?opers" using Cons.prems(2) by (simp add: op_node_iff)
    then obtain oper where oper: "(oid, oper) \<in> set ?opers" by auto
    then have lookup: "map_of ?opers oid = Some oper" using assms(3) by simp
    have ops: "init_ops ?opers n = (if inputs oper = [] then {oid} else {})"
    proof -
      have "o2 = oper" if "(oid, o2) \<in> set ?opers" for o2
        using map_of_is_SomeI [OF assms(3) that] lookup by simp
      with oper have "(\<exists>o2. (oid, o2) \<in> set ?opers \<and> inputs o2 = []) \<longleftrightarrow> inputs oper = []" by blast
      then show ?thesis by (auto simp: init_ops_def OperationNode)
    qed
    define st1 where "st1 = (if inputs oper = [] then st\<lparr>worklist := hs_insert oid (worklist st)\<rparr> else st)"
    have "init_node ords sem ?opers adj n st = Inr st1"
      using lookup by (simp add: init_node_def OperationNode st1_def)
    moreover have "st_wf st1" "value_states st1 = value_states st"
      "set (worklist st1) = set (worklist st) \<union> init_ops ?opers n"
      using Cons.prems(3) by (simp_all add: st1_def st_wf_def ops)
    ultimately show ?thesis by (intro exI [of _ st1]) (simp add: OperationNode)
  qed
  then obtain st1 where st1: "init_node ords sem ?opers adj n st = Inr st1" "st_wf st1"
    and vs1: "map_of (value_states st1) = (\<lambda>v. if n = ValueNode v \<and> \<not> is_operation_result v
        then Some (initial_state sem v) else map_of (value_states st) v)"
    and wl1: "set (worklist st1) = set (worklist st) \<union> init_ops ?opers n" by blast
  have none: "map_of (value_states st1) v = None" if "ValueNode v \<in> set ns" for v
    using that Cons.prems(1) Cons.prems(4) [of v] by (auto simp: vs1)
  from Cons.IH [OF _ _ st1(2) none] Cons.prems(1,2) obtain st2
    where "fold_result (init_node ords sem ?opers adj) ns st1 = Inr st2" "st_wf st2"
    and "map_of (value_states st2) = (\<lambda>v. if ValueNode v \<in> set ns \<and> \<not> is_operation_result v
       then Some (initial_state sem v) else map_of (value_states st1) v)"
    and "set (worklist st2) = set (worklist st1) \<union> (\<Union>n \<in> set ns. init_ops ?opers n)" by auto
  with st1(1) wl1 show ?case by (auto simp: vs1 fun_eq_iff)
qed

lemma init_ops_all: "(\<Union>n \<in> graph_nodes opers. init_ops opers n) = initial_worklist opers"
proof (rule set_eqI, rule iffI)
  fix oid
  assume "oid \<in> (\<Union>n \<in> graph_nodes opers. init_ops opers n)"
  then obtain n where "oid \<in> init_ops opers n" by blast
  then show "oid \<in> initial_worklist opers"
    by (force simp: init_ops_def initial_worklist_def users_def split: node.splits if_splits)
next
  fix oid
  assume "oid \<in> initial_worklist opers"
  then obtain oper where oper: "(oid, oper) \<in> set opers"
    and "inputs oper = [] \<or> (\<exists>v \<in> set (inputs oper). \<not> is_operation_result v)"
    by (auto simp: initial_worklist_def)
  from this(2) show "oid \<in> (\<Union>n \<in> graph_nodes opers. init_ops opers n)"
  proof
    assume "inputs oper = []"
    with oper have "oid \<in> init_ops opers (OperationNode oid)" by (auto simp: init_ops_def)
    moreover have "OperationNode oid \<in> graph_nodes opers" using oper by (force simp: op_node_iff)
    ultimately show ?thesis by blast
  next
    assume "\<exists>v \<in> set (inputs oper). \<not> is_operation_result v"
    then obtain v where "v \<in> set (inputs oper)" "\<not> is_operation_result v" by blast
    with oper have "oid \<in> init_ops opers (ValueNode v)" and "ValueNode v \<in> graph_nodes opers"
      by (force simp: init_ops_def users_def graph_nodes_def)+
    then show ?thesis by blast
  qed
qed

lemma init_state_refines:
  assumes "ComputeAdjacencyList m = Inr adj" and "orders_ok ords"
    and "distinct (map fst (module_operations (snd m)))"
  shows "\<exists>st. init_state ords sem (module_operations (snd m)) adj = Inr st \<and> st_wf st \<and>
    abs_state st = (initial_values sem (module_operations (snd m)),
                    initial_worklist (module_operations (snd m)))"
proof -
  let ?opers = "module_operations (snd m)" and ?ns = "ord_nodes ords (map fst adj)"
  have ords: "is_order (ord_nodes ords)" "is_order (ord_edges ords)"
    using assms(2) by (simp_all add: orders_ok_def)
  have adj: "adj_wf adj" "dom (map_of adj) = graph_nodes ?opers"
    using ComputeAdjacencyList_spec [of m] assms(1) by auto
  then have ns: "distinct ?ns" "set ?ns = graph_nodes ?opers"
    using ords(1) by (simp_all add: is_order_distinct is_order_set adj_wf_def hm_wf_def
        dom_map_of_conv_image_fst)
  have empty: "st_wf \<lparr>value_states = [], worklist = []\<rparr>" by (simp add: st_wf_def)
  from init_nodes_spec [OF assms(1) ords(2) assms(3) ns(1) _ empty, of sem] obtain st
    where "init_state ords sem ?opers adj = Inr st" "st_wf st"
    and vs: "map_of (value_states st) = (\<lambda>v. if ValueNode v \<in> graph_nodes ?opers \<and> \<not> is_operation_result v
       then Some (initial_state sem v) else None)"
    and wl: "set (worklist st) = (\<Union>n \<in> graph_nodes ?opers. init_ops ?opers n)"
    using ns by (auto simp: init_state_def GetNodes_def cong: if_cong)
  moreover have "map_of (value_states st) = initial_values sem ?opers"
    unfolding vs using value_node_cases users_value_node
    by (fastforce simp: initial_values_def fun_eq_iff)
  ultimately show ?thesis by (auto simp: abs_state_def init_ops_all)
qed

end
