(* ===== verification/Fixpoint_Contract.thy ===== *)
theory Fixpoint_Contract imports
  Fixpoint
begin

text \<open>
  What an \<^verbatim>\<open>AbstractSemantics\<close> has to promise for \<^verbatim>\<open>ComputeFixpoint\<close> to be total and to compute a
  solution, as the locale \<open>fixpoint_semantics\<close>; with monotone transformers
  (\<open>monotone_semantics\<close>) the solution is the least one. A client instantiates \<open>'s\<close> with its
  semantics objects and \<open>ok\<close> with the relation "this object fits these operations".
\<close>

definition make_semantics ::
  "'a \<Rightarrow> ('a \<Rightarrow> 'a \<Rightarrow> 'a) \<Rightarrow> ('a \<Rightarrow> 'a \<Rightarrow> bool) \<Rightarrow> (ir_value \<Rightarrow> 'a)
     \<Rightarrow> (op_id \<times> operation \<Rightarrow> 'a list \<Rightarrow> 'a list result) \<Rightarrow> 'a semantics" where
  "make_semantics b j e i t = \<lparr>state_bottom = b, state_join = j, state_equivalent = e,
     initial_state = i, operation_transformer = t\<rparr>"

lemma make_semantics_simps [simp]:
  "state_bottom (make_semantics b j e i t) = b" "state_join (make_semantics b j e i t) = j"
  "state_equivalent (make_semantics b j e i t) = e" "initial_state (make_semantics b j e i t) = i"
  "operation_transformer (make_semantics b j e i t) = t"
  by (simp_all add: make_semantics_def)

definition output_values :: "(op_id \<times> operation) list \<Rightarrow> ir_value set" where
  "output_values opers = (\<Union>oper \<in> set opers. op_outputs oper)"

lemma users_subset: "users opers v \<subseteq> fst ` set opers"
  by (force simp: users_def)

lemma op_unique:
  "distinct (map fst opers) \<Longrightarrow> (oid, oper) \<in> set opers \<Longrightarrow> (oid, o2) \<in> set opers \<Longrightarrow> o2 = oper"
  by (metis map_of_is_SomeI option.inject)

lemma users_iff:
  assumes "distinct (map fst opers)" and "(oid, oper) \<in> set opers"
  shows "oid \<in> users opers v \<longleftrightarrow> v \<in> set (inputs oper)"
proof
  assume "oid \<in> users opers v"
  then obtain o2 where "(oid, o2) \<in> set opers" "v \<in> set (inputs o2)" by (auto simp: users_def)
  with op_unique [OF assms this(1)] show "v \<in> set (inputs oper)" by simp
next
  assume "v \<in> set (inputs oper)"
  with assms(2) show "oid \<in> users opers v" by (force simp: users_def)
qed

lemma finite_output_values [simp]: "finite (output_values opers)"
  by (auto simp: output_values_def op_outputs_def)

locale fixpoint_semantics = abstract_domain join equivalent bottom
  for bottom :: 'a and join :: "'a \<Rightarrow> 'a \<Rightarrow> 'a" and equivalent :: "'a \<Rightarrow> 'a \<Rightarrow> bool" +
  fixes initial :: "'s \<Rightarrow> ir_value \<Rightarrow> 'a"
    and transfer :: "'s \<Rightarrow> op_id \<times> operation \<Rightarrow> 'a list \<Rightarrow> 'a list result"
    and ok :: "'s \<Rightarrow> (op_id \<times> operation) list \<Rightarrow> bool"
    and carrier :: "'s \<Rightarrow> 'a set" and rank :: "'s \<Rightarrow> 'a \<Rightarrow> nat" and height :: "'s \<Rightarrow> nat"
  assumes carrier_bottom: "bottom \<in> carrier s"
    and carrier_join: "x \<in> carrier s \<Longrightarrow> y \<in> carrier s \<Longrightarrow> join x y \<in> carrier s"
    and carrier_initial: "initial s v \<in> carrier s"
    and transfer_ok: "ok s opers \<Longrightarrow> (oid, oper) \<in> set opers \<Longrightarrow> length ins = length (inputs oper) \<Longrightarrow>
      set ins \<subseteq> carrier s \<Longrightarrow> \<exists>outs. transfer s (oid, oper) ins = Inr outs \<and>
        length outs = NumberOfOutputs oper \<and> set outs \<subseteq> carrier s"
    and rank_less: "x \<in> carrier s \<Longrightarrow> y \<in> carrier s \<Longrightarrow> below join x y \<Longrightarrow> x \<noteq> y \<Longrightarrow>
      rank s x < rank s y"
    and rank_height: "x \<in> carrier s \<Longrightarrow> rank s x \<le> height s"
begin

abbreviation sem :: "'s \<Rightarrow> 'a semantics" where
  "sem s \<equiv> make_semantics bottom join equivalent (initial s) (transfer s)"

definition good :: "'s \<Rightarrow> (op_id \<times> operation) list \<Rightarrow> (ir_value \<Rightarrow> 'a option) \<Rightarrow> op_id set \<Rightarrow> bool" where
  "good s opers vs wl \<longleftrightarrow> wl \<subseteq> fst ` set opers \<and> ran vs \<subseteq> carrier s \<and>
     (\<forall>v. \<not> is_operation_result v \<longrightarrow> vs v = initial_values (sem s) opers v) \<and>
     dom vs \<subseteq> {v. \<not> is_operation_result v} \<union> output_values opers \<and>
     (\<forall>(oid, oper) \<in> set opers. oid \<in> wl \<longrightarrow> activated vs oper) \<and>
     (\<forall>(oid, oper) \<in> set opers. activated vs oper \<longrightarrow> oid \<notin> wl \<longrightarrow>
        (\<exists>outs. transform (sem s) vs (oid, oper) = Inr outs \<and>
           (\<forall>i < NumberOfOutputs oper. \<exists>x. vs (OperationResult oid i) = Some x \<and> below join (outs ! i) x)))"

lemma look_carrier: "ran vs \<subseteq> carrier s \<Longrightarrow> look bottom vs v \<in> carrier s"
  using carrier_bottom by (auto simp: look_def ran_def split: option.splits)

lemma transform_ok:
  assumes "ok s opers" and "(oid, oper) \<in> set opers" and "ran vs \<subseteq> carrier s"
  shows "\<exists>outs. transform (sem s) vs (oid, oper) = Inr outs \<and>
    length outs = NumberOfOutputs oper \<and> set outs \<subseteq> carrier s"
  unfolding transform_def make_semantics_simps
  by (rule transfer_ok [OF assms(1,2)]) (use look_carrier [OF assms(3)] in auto)

lemma apply_outputs_above:
  "vs v = Some x \<Longrightarrow> \<exists>y. apply_outputs (sem s) oid outs vs v = Some y \<and> below join x y"
  by (cases v) (auto simp: look_def below_refl below_join1)

lemma ran_apply_outputs:
  assumes "ran vs \<subseteq> carrier s" and "set outs \<subseteq> carrier s"
  shows "ran (apply_outputs (sem s) oid outs vs) \<subseteq> carrier s"
proof
  fix x
  assume "x \<in> ran (apply_outputs (sem s) oid outs vs)"
  then obtain v where v: "apply_outputs (sem s) oid outs vs v = Some x" by (auto simp: ran_def)
  have old: "vs v = Some x \<Longrightarrow> x \<in> carrier s" using assms(1) by (auto simp: ran_def)
  have new: "join (look bottom vs w) (outs ! i) \<in> carrier s" if "i < length outs" for w i
    using look_carrier [OF assms(1)] assms(2) that by (intro carrier_join) auto
  show "x \<in> carrier s"
    by (cases v) (use v old new in \<open>auto split: if_splits\<close>)
qed

lemma good_start:
  assumes "distinct (map fst opers)"
  shows "good s opers (initial_values (sem s) opers) (initial_worklist opers)"
proof -
  let ?init = "\<lambda>oper. inputs oper = [] \<or> (\<exists>v \<in> set (inputs oper). \<not> is_operation_result v)"
  have act: "activated (initial_values (sem s) opers) oper \<longleftrightarrow> ?init oper"
    if "(oid, oper) \<in> set opers" for oid oper
    using that by (force simp: activated_def initial_values_def users_def)
  have wl: "oid \<in> initial_worklist opers \<longleftrightarrow> ?init oper" if "(oid, oper) \<in> set opers" for oid oper
  proof -
    have "o2 = oper" if "(oid, o2) \<in> set opers" for o2
      using map_of_is_SomeI [OF assms that] map_of_is_SomeI [OF assms \<open>(oid, oper) \<in> set opers\<close>] by simp
    moreover have "oid \<in> initial_worklist opers \<longleftrightarrow> (\<exists>o2. (oid, o2) \<in> set opers \<and> ?init o2)"
      by (auto simp: initial_worklist_def)
    ultimately show ?thesis using that by blast
  qed
  have "initial_worklist opers \<subseteq> fst ` set opers" by (force simp: initial_worklist_def)
  moreover have "ran (initial_values (sem s) opers) \<subseteq> carrier s"
    using carrier_initial by (auto simp: ran_def initial_values_def)
  moreover have "dom (initial_values (sem s) opers) \<subseteq> {v. \<not> is_operation_result v} \<union> output_values opers"
    by (auto simp: initial_values_def split: if_splits)
  ultimately show ?thesis
    unfolding good_def using act wl by blast
qed

lemma same_inputs:
  assumes "\<forall>v \<in> set (inputs (snd oper)). vs' v = vs v"
  shows "transform (sem s) vs' oper = transform (sem s) vs oper"
proof -
  have "map (look bottom vs') (inputs (snd oper)) = map (look bottom vs) (inputs (snd oper))"
    using assms by (simp add: look_def)
  then show ?thesis by (simp only: transform_def make_semantics_simps)
qed

lemma good_step:
  assumes run: "ok s opers" "distinct (map fst opers)" and good: "good s opers vs wl"
    and step: "abs_step (sem s) opers (vs, wl) (vs', wl')"
  shows "good s opers vs' wl'"
proof -
  obtain oid oper outs where oid: "oid \<in> wl" "(oid, oper) \<in> set opers"
    and outs: "transform (sem s) vs (oid, oper) = Inr outs" "length outs = NumberOfOutputs oper"
    and vs': "vs' = apply_outputs (sem s) oid outs vs"
    and wl': "wl' = (wl - {oid}) \<union> (\<Union>v \<in> {v. vs' v \<noteq> vs v}. users opers v)"
    using step by (elim abs_stepE) simp
  have same_op: "o2 = oper" if "(oid, o2) \<in> set opers" for o2
    using map_of_is_SomeI [OF run(2) that] map_of_is_SomeI [OF run(2) oid(2)] by simp
  have ran: "ran vs \<subseteq> carrier s" using good by (simp add: good_def)
  have out_carrier: "set outs \<subseteq> carrier s" using transform_ok [OF run(1) oid(2) ran] outs(1) by simp
  have changed: "\<exists>i < NumberOfOutputs oper. v = OperationResult oid i" if "vs' v \<noteq> vs v" for v
    using that outs(2) by (cases v) (auto simp: vs' split: if_splits)
  have grow: "vs v = Some x \<Longrightarrow> vs' v \<noteq> None" for v x
    using apply_outputs_above [of vs v x s oid outs] by (auto simp: vs')
  have wl: "wl \<subseteq> fst ` set opers" using good by (simp add: good_def)
  have "wl' \<subseteq> fst ` set opers"
    unfolding wl' using wl users_subset by blast
  moreover have "ran vs' \<subseteq> carrier s"
    unfolding vs' by (rule ran_apply_outputs [OF ran out_carrier])
  moreover have "vs' v = initial_values (sem s) opers v" if "\<not> is_operation_result v" for v
  proof -
    have "vs' v = vs v" using that changed by (metis is_operation_result.simps(1))
    with that good show ?thesis by (simp add: good_def)
  qed
  moreover have "dom vs' \<subseteq> {v. \<not> is_operation_result v} \<union> output_values opers"
  proof
    fix v
    assume "v \<in> dom vs'"
    show "v \<in> {v. \<not> is_operation_result v} \<union> output_values opers"
    proof (cases "vs' v = vs v")
      case True
      with \<open>v \<in> dom vs'\<close> good show ?thesis unfolding good_def by (auto simp: dom_def)
    next
      case False
      with changed [of v] oid(2) show ?thesis by (force simp: output_values_def op_outputs_def)
    qed
  qed
  moreover have "activated vs' o2" if o2: "(oid2, o2) \<in> set opers" "oid2 \<in> wl'" for oid2 o2
  proof (cases "oid2 \<in> wl")
    case True
    with o2 good have "activated vs o2" unfolding good_def by blast
    then show ?thesis using grow by (fastforce simp: activated_def)
  next
    case False
    with o2(2) obtain v where "vs' v \<noteq> vs v" "oid2 \<in> users opers v" by (auto simp: wl')
    moreover from this(2) have "v \<in> set (inputs o2)"
      by (simp add: users_iff [OF run(2) o2(1)])
    moreover have "vs' v \<noteq> None" using calculation(1) grow [of v] by (cases "vs v") auto
    ultimately show ?thesis by (auto simp: activated_def)
  qed
  moreover have "\<exists>outs2. transform (sem s) vs' (oid2, o2) = Inr outs2 \<and>
      (\<forall>i < NumberOfOutputs o2. \<exists>x. vs' (OperationResult oid2 i) = Some x \<and> below join (outs2 ! i) x)"
    if o2: "(oid2, o2) \<in> set opers" "activated vs' o2" "oid2 \<notin> wl'" for oid2 o2
  proof -
    have ins: "vs' v = vs v" if "v \<in> set (inputs o2)" for v
      using o2(3) that users_iff [OF run(2) o2(1), of v] unfolding wl' by blast
    then have tr: "transform (sem s) vs' (oid2, o2) = transform (sem s) vs (oid2, o2)"
      by (intro same_inputs) simp
    show ?thesis
    proof (cases "oid2 = oid")
      case True
      with o2(1) same_op have "o2 = oper" by simp
      with True outs show ?thesis unfolding tr by (auto simp: vs' below_join2)
    next
      case False
      with o2(3) have "oid2 \<notin> wl" by (auto simp: wl')
      moreover have "activated vs o2" using o2(2) ins by (auto simp: activated_def)
      ultimately obtain outs2 where "transform (sem s) vs (oid2, o2) = Inr outs2"
        "\<forall>i < NumberOfOutputs o2. \<exists>x. vs (OperationResult oid2 i) = Some x \<and> below join (outs2 ! i) x"
        using good o2(1) unfolding good_def by blast
      with False show ?thesis unfolding tr by (auto simp: vs')
    qed
  qed
  ultimately show ?thesis unfolding good_def by blast
qed

lemma good_reach:
  assumes "ok s opers" "distinct (map fst opers)" and "abs_reach (sem s) opers vs wl"
  shows "good s opers vs wl"
  using assms(3) by induction (auto intro: good_start good_step assms(1,2))

text \<open>A good state with an empty worklist is a solution.\<close>

lemma good_solution: "good s opers vs {} \<Longrightarrow> solution (sem s) opers vs"
  unfolding good_def solution_def by (auto simp: initial_values_def)

text \<open>
  Every step lowers the measure: either a state rises, or the worklist loses an element.
\<close>

definition grade :: "'s \<Rightarrow> 'a option \<Rightarrow> nat" where
  "grade s x = (case x of None \<Rightarrow> 0 | Some y \<Rightarrow> Suc (rank s y))"

definition deficit :: "'s \<Rightarrow> (op_id \<times> operation) list \<Rightarrow> (ir_value \<Rightarrow> 'a option) \<Rightarrow> nat" where
  "deficit s opers vs = (\<Sum>v \<in> output_values opers. Suc (height s) - grade s (vs v))"

definition run_measure ::
  "'s \<Rightarrow> (op_id \<times> operation) list \<Rightarrow> (ir_value \<Rightarrow> 'a option) \<times> op_id set \<Rightarrow> nat" where
  "run_measure s opers st = deficit s opers (fst st) * Suc (length opers) + card (snd st)"

lemma grade_apply_outputs:
  assumes "ran vs \<subseteq> carrier s" and "set outs \<subseteq> carrier s"
    and "vs' = apply_outputs (sem s) oid outs vs"
  shows "grade s (vs v) \<le> grade s (vs' v)"
    and "vs' v \<noteq> vs v \<Longrightarrow> grade s (vs v) < grade s (vs' v) \<and> grade s (vs' v) \<le> Suc (height s)"
proof -
  have "ran vs' \<subseteq> carrier s" unfolding assms(3) by (rule ran_apply_outputs [OF assms(1,2)])
  then have new: "y \<in> carrier s" if "vs' v = Some y" for y using that by (auto simp: ran_def)
  have changed: "grade s (vs v) < grade s (vs' v) \<and> grade s (vs' v) \<le> Suc (height s)" if ne: "vs' v \<noteq> vs v"
  proof (cases "vs v")
    case None
    with ne new show ?thesis by (cases "vs' v") (auto simp: grade_def rank_height)
  next
    case (Some x)
    then obtain y where y: "vs' v = Some y" "below join x y"
      using apply_outputs_above [of vs v x s oid outs] assms(3) by blast
    moreover have "x \<in> carrier s" using Some assms(1) by (auto simp: ran_def)
    ultimately show ?thesis
      using ne Some new [OF y(1)] rank_less [of x s y] rank_height [of y s] by (simp add: grade_def)
  qed
  then show "vs' v \<noteq> vs v \<Longrightarrow> grade s (vs v) < grade s (vs' v) \<and> grade s (vs' v) \<le> Suc (height s)" .
  show "grade s (vs v) \<le> grade s (vs' v)"
    using changed by (cases "vs' v = vs v") auto
qed

lemma step_measure:
  assumes run: "ok s opers" "distinct (map fst opers)" and good: "good s opers vs wl"
    and step: "abs_step (sem s) opers (vs, wl) (vs', wl')"
  shows "run_measure s opers (vs', wl') < run_measure s opers (vs, wl)"
proof -
  obtain oid oper outs where oid: "oid \<in> wl" "(oid, oper) \<in> set opers"
    and outs: "transform (sem s) vs (oid, oper) = Inr outs" "length outs = NumberOfOutputs oper"
    and vs': "vs' = apply_outputs (sem s) oid outs vs"
    and wl': "wl' = (wl - {oid}) \<union> (\<Union>v \<in> {v. vs' v \<noteq> vs v}. users opers v)"
    using step by (elim abs_stepE) simp
  have ran: "ran vs \<subseteq> carrier s" and wl: "wl \<subseteq> fst ` set opers" using good by (simp_all add: good_def)
  have out_carrier: "set outs \<subseteq> carrier s" using transform_ok [OF run(1) oid(2) ran] outs(1) by simp
  note grade = grade_apply_outputs [OF ran out_carrier vs']
  have fin: "finite wl" using wl by (rule finite_subset) simp
  show ?thesis
  proof (cases "vs' = vs")
    case True
    then have "wl' = wl - {oid}" by (simp add: wl')
    with True oid(1) fin show ?thesis
      by (simp add: run_measure_def card_Diff1_less del: card_Diff_insert)
  next
    case False
    then obtain v where v: "vs' v \<noteq> vs v" by blast
    then obtain i where "i < NumberOfOutputs oper" "v = OperationResult oid i"
      using outs(2) by (cases v) (auto simp: vs' split: if_splits)
    with oid(2) have out: "v \<in> output_values opers" by (force simp: output_values_def op_outputs_def)
    have "deficit s opers vs' < deficit s opers vs"
      unfolding deficit_def
    proof (rule sum_strict_mono_ex1)
      show "\<exists>a \<in> output_values opers. Suc (height s) - grade s (vs' a) < Suc (height s) - grade s (vs a)"
        using grade(2) [OF v] by (intro bexI [OF _ out] diff_less_mono2) auto
    qed (use grade(1) in \<open>auto intro: diff_le_mono2\<close>)
    then have "Suc (deficit s opers vs') * Suc (length opers) \<le> deficit s opers vs * Suc (length opers)"
      by (intro mult_le_mono1) simp
    moreover have "card wl' \<le> length opers"
    proof -
      have "wl' \<subseteq> fst ` set opers" using wl users_subset unfolding wl' by blast
      then have "card wl' \<le> card (fst ` set opers)" by (intro card_mono) simp_all
      also have "\<dots> \<le> length opers" by (metis card_length length_map set_map)
      finally show ?thesis .
    qed
    ultimately show ?thesis by (simp add: run_measure_def)
  qed
qed

text \<open>The loop itself: it never fails a check and it ends, in a state the abstract algorithm reaches.\<close>

theorem compute_fixpoint_reaches:
  assumes run: "ok s (module_operations (snd m))" "distinct (map fst (module_operations (snd m)))"
    and ords: "orders_ok ords"
  shows "\<exists>vs. ComputeFixpoint ords m (sem s) = Some (Inr vs) \<and> hm_wf vs \<and>
    abs_reach (sem s) (module_operations (snd m)) (map_of vs) {}"
proof -
  let ?opers = "module_operations (snd m)"
  obtain adj where adj: "ComputeAdjacencyList m = Inr adj" using ComputeAdjacencyList_spec [of m] by blast
  let ?body = "\<lambda>r. rbind r (iterate_worklist ords (sem s) ?opers adj)"
  let ?P = "\<lambda>r. \<exists>st. r = Inr st \<and> st_wf st \<and>
    abs_reach (sem s) ?opers (map_of (value_states st)) (set (worklist st))"
  let ?f = "\<lambda>r. case r of Inl e \<Rightarrow> 0 | Inr st \<Rightarrow> run_measure s ?opers (abs_state st)"
  have eo: "is_order (ord_edges ords)" and wo: "is_order (ord_worklist ords)"
    using ords by (simp_all add: orders_ok_def)
  obtain st0 where st0: "init_state ords (sem s) ?opers adj = Inr st0" "st_wf st0"
    "abs_state st0 = (initial_values (sem s) ?opers, initial_worklist ?opers)"
    using init_state_refines [OF adj ords run(2)] by blast
  have start: "?P (init_state ords (sem s) ?opers adj)"
    using st0 abs_reach.start [of "sem s" ?opers] by (auto simp: abs_state_def)
  have body: "?P (?body r) \<and> ?f (?body r) < ?f r" if P: "?P r" and r: "running r" for r
  proof -
    from P obtain st where st: "r = Inr st" "st_wf st"
      "abs_reach (sem s) ?opers (map_of (value_states st)) (set (worklist st))" by blast
    with r have "worklist st \<noteq> []" by simp
    then have "ord_worklist ords (worklist st) \<noteq> []"
      using is_order_length [OF wo, of "worklist st"] by auto
    then have oid: "hd (ord_worklist ords (worklist st)) \<in> set (worklist st)"
      using is_order_set [OF wo] by (metis hd_in_set)
    let ?oid = "hd (ord_worklist ords (worklist st))"
    have good: "good s ?opers (map_of (value_states st)) (set (worklist st))"
      by (rule good_reach [OF run st(3)])
    then have "?oid \<in> fst ` set ?opers" and ran: "ran (map_of (value_states st)) \<subseteq> carrier s"
      using oid by (auto simp: good_def)
    then obtain oper where oper: "(?oid, oper) \<in> set ?opers" by force
    obtain outs where "transform (sem s) (map_of (value_states st)) (?oid, oper) = Inr outs"
      "length outs = NumberOfOutputs oper"
      using transform_ok [OF run(1) oper ran] by blast
    from process_operation_refines [OF adj eo _ run(2) oper oid this st(2)] obtain st'
      where st': "iterate_worklist ords (sem s) ?opers adj st = Inr st'" "st_wf st'"
        "abs_step (sem s) ?opers (abs_state st) (abs_state st')"
      by (auto simp: iterate_worklist_def Let_def equivalent_iff)
    have "abs_reach (sem s) ?opers (map_of (value_states st')) (set (worklist st'))"
      using abs_reach.step [OF st(3)] st'(3) by (simp add: abs_state_def)
    moreover have "run_measure s ?opers (abs_state st') < run_measure s ?opers (abs_state st)"
      using step_measure [OF run good] st'(3) by (simp add: abs_state_def)
    ultimately show ?thesis using st(1) st'(1,2) by simp
  qed
  from measure_while_option_Some [where P = ?P and b = running and c = ?body and f = ?f, OF body start]
  obtain r where r: "while_option running ?body (init_state ords (sem s) ?opers adj) = Some r" by blast
  have "?P r"
    by (rule while_option_rule [where P = ?P, OF _ r start]) (use body in blast)
  moreover have "\<not> running r" by (rule while_option_stop [OF r])
  ultimately obtain st where "r = Inr st" "st_wf st" "worklist st = []"
    "abs_reach (sem s) ?opers (map_of (value_states st)) (set (worklist st))" by auto
  with adj r show ?thesis by (auto simp: ComputeFixpoint_def st_wf_def)
qed

theorem compute_fixpoint_solution:
  assumes "ok s (module_operations (snd m))" "distinct (map fst (module_operations (snd m)))"
    and "orders_ok ords"
  shows "\<exists>vs. ComputeFixpoint ords m (sem s) = Some (Inr vs) \<and> hm_wf vs \<and>
    solution (sem s) (module_operations (snd m)) (map_of vs) \<and>
    good s (module_operations (snd m)) (map_of vs) {}"
  using compute_fixpoint_reaches [OF assms] good_reach [OF assms(1,2)] good_solution by blast

end

section \<open>Monotone transformers\<close>

locale monotone_semantics = fixpoint_semantics +
  fixes mono :: "'b \<Rightarrow> bool"
  assumes transfer_mono: "ok s opers \<Longrightarrow> mono s \<Longrightarrow> (oid, oper) \<in> set opers \<Longrightarrow>
      length ins = length (inputs oper) \<Longrightarrow>
      list_all2 (below join) ins ins' \<Longrightarrow>
      transfer s (oid, oper) ins = Inr outs \<Longrightarrow> transfer s (oid, oper) ins' = Inr outs' \<Longrightarrow>
      list_all2 (below join) outs outs'"
begin

lemma reach_below_solution:
  assumes run: "ok s opers" "distinct (map fst opers)" "mono s"
    and sol: "solution (sem s) opers X"
    and "abs_reach (sem s) opers vs wl" and "vs v = Some x"
  shows "\<exists>y. X v = Some y \<and> below join x y"
  using assms(5,6)
proof (induction arbitrary: v x)
  case start
  then have "\<not> is_operation_result v" "users opers v \<noteq> {}" "x = initial s v"
    by (auto simp: initial_values_def split: if_splits)
  with sol show ?case unfolding solution_def by (auto simp: below_refl)
next
  case (step vs wl vs' wl')
  obtain oid oper outs where oid: "oid \<in> wl" "(oid, oper) \<in> set opers"
    and outs: "transform (sem s) vs (oid, oper) = Inr outs" "length outs = NumberOfOutputs oper"
    and vs': "vs' = apply_outputs (sem s) oid outs vs"
    using step.hyps(2) by (elim abs_stepE) simp
  have good: "good s opers vs wl" by (rule good_reach [OF run(1,2) step.hyps(1)])
  have look: "below join (look bottom vs w) (look bottom X w)" for w
    using step.IH [of w] by (cases "vs w") (auto simp: look_def below_bottom)
  have "activated vs oper" using good oid unfolding good_def by blast
  then have "activated X oper" using step.IH by (fastforce simp: activated_def)
  with sol oid(2) obtain outsX where outsX: "transform (sem s) X (oid, oper) = Inr outsX"
    and X: "\<And>i. i < NumberOfOutputs oper \<Longrightarrow>
      \<exists>y. X (OperationResult oid i) = Some y \<and> below join (outsX ! i) y"
    unfolding solution_def by fastforce
  have "list_all2 (below join) outs outsX"
  proof (rule transfer_mono [OF run(1,3) oid(2)])
    show "transfer s (oid, oper) (map (look bottom vs) (inputs oper)) = Inr outs"
      using outs(1) by (simp add: transform_def)
    show "transfer s (oid, oper) (map (look bottom X) (inputs oper)) = Inr outsX"
      using outsX by (simp add: transform_def)
  qed (use look in \<open>auto simp: list_all2_map1 list_all2_map2 list.rel_refl_strong\<close>)
  then have out: "below join (outs ! i) (outsX ! i)" if "i < length outs" for i
    using that by (rule list_all2_nthD)
  show ?case
  proof (cases "vs' v = vs v")
    case True
    with step show ?thesis by simp
  next
    case False
    then obtain i where v: "v = OperationResult oid i" "i < length outs"
      "x = join (look bottom vs v) (outs ! i)"
      using step.prems by (cases v) (auto simp: vs' split: if_splits)
    with X [of i] outs(2) obtain y where y: "X v = Some y" "below join (outsX ! i) y" by auto
    have "below join (look bottom vs v) y" using look [of v] y(1) by (simp add: look_def [of _ X])
    moreover have "below join (outs ! i) y" using out [OF v(2)] y(2) below_trans by blast
    ultimately show ?thesis using y(1) v(3) join_below by blast
  qed
qed

theorem compute_fixpoint_least:
  assumes "ok s (module_operations (snd m))" "distinct (map fst (module_operations (snd m)))"
    "mono s" "orders_ok ords"
  shows "\<exists>vs. ComputeFixpoint ords m (sem s) = Some (Inr vs) \<and>
    solution (sem s) (module_operations (snd m)) (map_of vs) \<and>
    (\<forall>X v x. solution (sem s) (module_operations (snd m)) X \<longrightarrow>
       map_of vs v = Some x \<longrightarrow> (\<exists>y. X v = Some y \<and> below join x y))"
proof -
  from compute_fixpoint_reaches [OF assms(1,2,4)] obtain vs
    where vs: "ComputeFixpoint ords m (sem s) = Some (Inr vs)"
    and reach: "abs_reach (sem s) (module_operations (snd m)) (map_of vs) {}" by blast
  have "solution (sem s) (module_operations (snd m)) (map_of vs)"
    by (rule good_solution [OF good_reach [OF assms(1,2) reach]])
  moreover have "\<exists>y. X v = Some y \<and> below join x y"
    if "solution (sem s) (module_operations (snd m)) X" "map_of vs v = Some x" for X v x
    by (rule reach_below_solution [OF assms(1-3) that(1) reach that(2)])
  ultimately show ?thesis using vs by blast
qed

end

end
