(* ===== verification/Taint_Semantics.thy ===== *)
theory Taint_Semantics imports
  Inference_Rules
  Fixpoint_Contract
begin

text \<open>
  The abstract semantics of the taint analysis (\<^verbatim>\<open>src/analysis/taint/abstract_semantics.h\<close> and
  \<^verbatim>\<open>.cc\<close>): the default transformer and the interpretation of the inference rules. The theory
  shows that rules whose indices fit the module's operations meet the contract of the
  fixpoint iterator.

  \<^verbatim>\<open>ApplyOperationTransformer\<close> iterates over a hash map of output rules, in the order \<open>ord\<close>.
\<close>

section \<open>The transformers\<close>

definition GetInitialState :: "ir_value \<Rightarrow> abstract_ifc_tags" where
  "GetInitialState v = IfcTags {} {}"

definition ApplyDefaultOperationTransformer ::
  "op_id \<times> operation \<Rightarrow> abstract_ifc_tags list \<Rightarrow> abstract_ifc_tags result" where
  "ApplyDefaultOperationTransformer oper input_states =
     (if input_states = [] then Inr (GetInitialState (MakeDefaultOperationResultValue (fst oper)))
      else let joined_result = fold (\<lambda>cur so_far. Join so_far cur) input_states Bottom
           in if IsBottom joined_result then Inr joined_result
              else rbind (secrecy_tags joined_result) (\<lambda>s. Inr (IfcTags s {})))"

text \<open>The body of the fold over the input indices.\<close>

definition merge_step ::
  "merge_kind \<Rightarrow> abstract_ifc_tags list \<Rightarrow> nat \<Rightarrow> bool \<times> tag_id set \<Rightarrow> (bool \<times> tag_id set) result"
where
  "merge_step kind input_states index accumulated =
     (case accumulated of (first_time, accumulated_tags) \<Rightarrow>
       rbind (check (index < length input_states)
                ''Index is out of bounds in MergeIntegrityTags'') (\<lambda>_.
       rbind (integrity_tags (input_states ! index)) (\<lambda>input_integrity_tags.
       Inr (if first_time then (False, input_integrity_tags)
            else case kind of
              kUnion \<Rightarrow> (False, accumulated_tags \<union> input_integrity_tags)
            | kIntersect \<Rightarrow> (False, {tag \<in> accumulated_tags. tag \<in> input_integrity_tags})))))"

definition InteprepretMergeIntegrityTags ::
  "merge_kind \<Rightarrow> nat list \<Rightarrow> abstract_ifc_tags list \<Rightarrow> abstract_ifc_tags \<Rightarrow> abstract_ifc_tags result"
where
  "InteprepretMergeIntegrityTags kind input_indices input_states current_value =
     (if IsBottom current_value then Inr current_value
      else if list_ex IsBottom input_states then Inr Bottom
      else rbind (secrecy_tags current_value) (\<lambda>current_secrecy_tags.
           rbind (fold_result (merge_step kind input_states) input_indices (True, {}))
             (\<lambda>(first_time, new_integrity_tags).
                Inr (IfcTags current_secrecy_tags new_integrity_tags))))"

text \<open>\<^verbatim>\<open>absl::c_any_of\<close> over the premises stops at the first one that is not satisfied.\<close>

fun premises_not_satisfied ::
  "input_has_integrity list \<Rightarrow> abstract_ifc_tags list \<Rightarrow> bool result" where
  "premises_not_satisfied [] input_states = Inr False"
| "premises_not_satisfied (premise # rest) input_states =
     rbind (check (premise_index premise < length input_states) ''Premise index is out of bounds. '')
       (\<lambda>_. let input_state = input_states ! premise_index premise in
          if IsBottom input_state then premises_not_satisfied rest input_states
          else rbind (HasIntegrity (premise_tag premise) input_state) (\<lambda>has.
               if \<not> has then Inr True else premises_not_satisfied rest input_states))"

definition InterpretInferenceRule ::
  "inference_rule \<Rightarrow> abstract_ifc_tags list \<Rightarrow> abstract_ifc_tags \<Rightarrow> abstract_ifc_tags result" where
  "InterpretInferenceRule rule input_states current_value =
     rbind (premises_not_satisfied (rule_premises rule) input_states) (\<lambda>not_satisfied.
       if not_satisfied then Inr current_value
       else case rule_conclusion rule of
         CopyInput input_index \<Rightarrow>
           rbind (check (input_index < length input_states)
                    ''Input index in CopyInput is out of bounds'')
             (\<lambda>_. Inr (input_states ! input_index))
       | ModifyTag kind tag \<Rightarrow>
           if IsBottom current_value then Inr current_value
           else Inr (case kind of
               kAddIntegrity \<Rightarrow> SetIntegrity tag current_value
             | kRemoveSecrecy \<Rightarrow> ClearSecrecy tag current_value
             | kAddSecrecy \<Rightarrow> SetSecrecy tag current_value)
       | MergeIntegrityTags kind input_indices \<Rightarrow>
           InteprepretMergeIntegrityTags kind input_indices input_states current_value)"

type_synonym output_rules_order =
  "(nat \<times> inference_rule_sequence) list \<Rightarrow> (nat \<times> inference_rule_sequence) list"

definition ApplyOperationTransformer ::
  "output_rules_order \<Rightarrow> inference_rules \<Rightarrow> op_id \<times> operation \<Rightarrow> abstract_ifc_tags list
     \<Rightarrow> abstract_ifc_tags list result" where
  "ApplyOperationTransformer ord rules oper input_states =
     rbind (ApplyDefaultOperationTransformer oper input_states) (\<lambda>default_result.
     let results = replicate (NumberOfOutputs (snd oper)) default_result in
     case GetOutputRulesForOperation (fst oper) rules of
       None \<Rightarrow> Inr results
     | Some output_inference_rules \<Rightarrow>
         fold_result (\<lambda>(index, inference_rules) results.
             rbind (check (index < length results)
                      ''Output index in inference rules is out of bounds'') (\<lambda>_.
             rbind (fold_result (\<lambda>inference_rule accumulated.
                      InterpretInferenceRule inference_rule input_states accumulated)
                    inference_rules default_result)
               (\<lambda>x. Inr (results[index := x]))))
           (ord output_inference_rules) results)"

section \<open>What the rules mean\<close>

text \<open>The same transformers as total functions, for rules whose indices are in bounds.\<close>

definition rule_in_bounds :: "nat \<Rightarrow> inference_rule \<Rightarrow> bool" where
  "rule_in_bounds n rule \<longleftrightarrow> (\<forall>p \<in> set (rule_premises rule). premise_index p < n) \<and>
     (case rule_conclusion rule of
        CopyInput k \<Rightarrow> k < n
      | ModifyTag _ _ \<Rightarrow> True
      | MergeIntegrityTags _ ks \<Rightarrow> (\<forall>k \<in> set ks. k < n))"

fun integrity_of :: "abstract_ifc_tags \<Rightarrow> tag_id set" where
  "integrity_of Bottom = {}"
| "integrity_of (IfcTags s i) = i"

definition premises_hold :: "inference_rule \<Rightarrow> abstract_ifc_tags list \<Rightarrow> bool" where
  "premises_hold rule ins \<longleftrightarrow> (\<forall>p \<in> set (rule_premises rule).
     ins ! premise_index p = Bottom \<or> premise_tag p \<in> integrity_of (ins ! premise_index p))"

definition merged :: "merge_kind \<Rightarrow> nat list \<Rightarrow> abstract_ifc_tags list \<Rightarrow> tag_id set" where
  "merged kind ks ins = (if ks = [] then {} else case kind of
     kUnion \<Rightarrow> \<Union>k \<in> set ks. integrity_of (ins ! k)
   | kIntersect \<Rightarrow> \<Inter>k \<in> set ks. integrity_of (ins ! k))"

fun conclude :: "conclusion \<Rightarrow> abstract_ifc_tags list \<Rightarrow> abstract_ifc_tags \<Rightarrow> abstract_ifc_tags" where
  "conclude (CopyInput k) ins cur = ins ! k"
| "conclude (ModifyTag kAddIntegrity t) ins cur = SetIntegrity t cur"
| "conclude (ModifyTag kRemoveSecrecy t) ins cur = ClearSecrecy t cur"
| "conclude (ModifyTag kAddSecrecy t) ins cur = SetSecrecy t cur"
| "conclude (MergeIntegrityTags kind ks) ins cur =
     (case cur of Bottom \<Rightarrow> Bottom | IfcTags s i \<Rightarrow>
        if Bottom \<in> set ins then Bottom else IfcTags s (merged kind ks ins))"

definition rule_effect ::
  "inference_rule \<Rightarrow> abstract_ifc_tags list \<Rightarrow> abstract_ifc_tags \<Rightarrow> abstract_ifc_tags" where
  "rule_effect rule ins cur =
     (if premises_hold rule ins then conclude (rule_conclusion rule) ins cur else cur)"

definition default_effect :: "abstract_ifc_tags list \<Rightarrow> abstract_ifc_tags" where
  "default_effect ins = (if ins = [] then IfcTags {} {}
     else case fold (\<lambda>cur so_far. Join so_far cur) ins Bottom of
       Bottom \<Rightarrow> Bottom | IfcTags s i \<Rightarrow> IfcTags s {})"

definition rules_for :: "inference_rules \<Rightarrow> op_id \<Rightarrow> nat \<Rightarrow> inference_rule_sequence" where
  "rules_for rules oid i = (case GetOutputRulesForOperation oid rules of
     None \<Rightarrow> []
   | Some out \<Rightarrow> (case map_of out i of None \<Rightarrow> [] | Some seq \<Rightarrow> seq))"

definition output_effect ::
  "inference_rules \<Rightarrow> op_id \<Rightarrow> abstract_ifc_tags list \<Rightarrow> nat \<Rightarrow> abstract_ifc_tags" where
  "output_effect rules oid ins i =
     fold (\<lambda>rule. rule_effect rule ins) (rules_for rules oid i) (default_effect ins)"

definition rules_fit :: "inference_rules \<Rightarrow> op_id \<times> operation \<Rightarrow> bool" where
  "rules_fit rules oper \<longleftrightarrow> (case GetOutputRulesForOperation (fst oper) rules of
     None \<Rightarrow> True
   | Some out \<Rightarrow> hm_wf out \<and> (\<forall>(i, seq) \<in> set out. i < NumberOfOutputs (snd oper) \<and>
       (\<forall>rule \<in> set seq. rule_in_bounds (length (inputs (snd oper))) rule)))"

lemma premises_eq:
  "\<forall>p \<in> set ps. premise_index p < length ins \<Longrightarrow>
   premises_not_satisfied ps ins = Inr (\<not> (\<forall>p \<in> set ps.
     ins ! premise_index p = Bottom \<or> premise_tag p \<in> integrity_of (ins ! premise_index p)))"
proof (induction ps)
  case (Cons p ps)
  then show ?case by (cases "ins ! premise_index p") auto
qed simp

lemma merge_fold:
  assumes "\<forall>k \<in> set ks. k < length ins" and "Bottom \<notin> set ins"
  shows "fold_result (merge_step kind ins)
    ks (False, acc) = Inr (False, case kind of
      kUnion \<Rightarrow> acc \<union> (\<Union>k \<in> set ks. integrity_of (ins ! k))
    | kIntersect \<Rightarrow> acc \<inter> (\<Inter>k \<in> set ks. integrity_of (ins ! k)))"
  using assms(1)
proof (induction ks arbitrary: acc)
  case (Cons k ks)
  then have "ins ! k \<in> set ins" by simp
  with assms(2) obtain s i where "ins ! k = IfcTags s i" by (cases "ins ! k") auto
  with Cons show ?case by (cases kind) (auto simp: merge_step_def Int_def)
qed (cases kind; simp)

lemma merge_eq:
  assumes "\<forall>k \<in> set ks. k < length ins"
  shows "InteprepretMergeIntegrityTags kind ks ins cur = Inr (conclude (MergeIntegrityTags kind ks) ins cur)"
proof (cases cur)
  case Bottom
  then show ?thesis by (simp add: InteprepretMergeIntegrityTags_def)
next
  case (IfcTags s i)
  show ?thesis
  proof (cases "Bottom \<in> set ins")
    case True
    then have "list_ex IsBottom ins" by (auto simp: list_ex_iff IsBottom_iff)
    with IfcTags True show ?thesis by (simp add: InteprepretMergeIntegrityTags_def)
  next
    case False
    then have no: "\<not> list_ex IsBottom ins" by (auto simp: list_ex_iff IsBottom_iff)
    show ?thesis
    proof (cases ks)
      case Nil
      with IfcTags False no show ?thesis by (simp add: InteprepretMergeIntegrityTags_def merged_def)
    next
      case (Cons k ks')
      with assms have k: "k < length ins" "\<forall>k \<in> set ks'. k < length ins" by auto
      with False have "ins ! k \<noteq> Bottom" by (metis nth_mem)
      then obtain s' i' where "ins ! k = IfcTags s' i'" by (cases "ins ! k") auto
      with Cons IfcTags False no k merge_fold [OF k(2) False, of kind i'] show ?thesis
        by (cases kind) (simp_all add: InteprepretMergeIntegrityTags_def merge_step_def merged_def)
    qed
  qed
qed

lemma rule_eq:
  assumes "rule_in_bounds (length ins) rule"
  shows "InterpretInferenceRule rule ins cur = Inr (rule_effect rule ins cur)"
proof -
  have "premises_not_satisfied (rule_premises rule) ins = Inr (\<not> premises_hold rule ins)"
    unfolding premises_hold_def by (rule premises_eq) (use assms in \<open>simp add: rule_in_bounds_def\<close>)
  moreover have "cur = Bottom \<Longrightarrow> conclude (ModifyTag k t) ins cur = cur" for k t by (cases k) auto
  ultimately show ?thesis using assms
    by (cases "rule_conclusion rule"; cases cur)
      (auto simp: InterpretInferenceRule_def rule_effect_def rule_in_bounds_def merge_eq IsBottom_iff
        split: modify_kind.splits)
qed

lemma default_eq: "ApplyDefaultOperationTransformer oper ins = Inr (default_effect ins)"
  by (auto simp: ApplyDefaultOperationTransformer_def default_effect_def GetInitialState_def Let_def
      split: abstract_ifc_tags.splits)

text \<open>
  The transformer of an operation whose rules fit never fails, and its results do not depend
  on the order in which the output rules are iterated.
\<close>

lemma transformer_eq:
  assumes "is_order ord" and fit: "rules_fit rules (oid, oper)" and "length ins = length (inputs oper)"
  shows "ApplyOperationTransformer ord rules (oid, oper) ins =
    Inr (map (output_effect rules oid ins) [0..<NumberOfOutputs oper])"
proof (cases "GetOutputRulesForOperation oid rules")
  case None
  then have "output_effect rules oid ins i = default_effect ins" for i
    by (simp add: output_effect_def rules_for_def)
  then have "map (output_effect rules oid ins) [0..<NumberOfOutputs oper] =
      replicate (NumberOfOutputs oper) (default_effect ins)"
    by (intro nth_equalityI) simp_all
  with None show ?thesis
    by (simp add: ApplyOperationTransformer_def default_eq)
next
  case (Some out)
  let ?d = "default_effect ins" and ?n = "NumberOfOutputs oper"
  let ?step = "\<lambda>(index, seq) results.
      rbind (check (index < length results) ''Output index in inference rules is out of bounds'') (\<lambda>_.
      rbind (fold_result (\<lambda>rule acc. InterpretInferenceRule rule ins acc) seq ?d)
        (\<lambda>x. Inr (results[index := x])))"
  have seq: "fold_result (\<lambda>rule acc. InterpretInferenceRule rule ins acc) seq c =
      Inr (fold (\<lambda>rule. rule_effect rule ins) seq c)"
    if "\<forall>rule \<in> set seq. rule_in_bounds (length ins) rule" for seq c
    using that by (induction seq arbitrary: c) (simp_all add: rule_eq)
  have all: "fold_result ?step xs rs = Inr (map (\<lambda>i. case map_of xs i of
        None \<Rightarrow> rs ! i | Some seq \<Rightarrow> fold (\<lambda>rule. rule_effect rule ins) seq ?d) [0..<length rs])"
    if "distinct (map fst xs)" "\<forall>(i, seq) \<in> set xs. i < length rs \<and>
        (\<forall>rule \<in> set seq. rule_in_bounds (length ins) rule)" for xs rs
    using that
  proof (induction xs arbitrary: rs)
    case Nil
    then show ?case by (simp add: map_nth)
  next
    case (Cons x xs)
    obtain i sq where x: "x = (i, sq)" by (cases x)
    let ?rs = "rs[i := fold (\<lambda>rule. rule_effect rule ins) sq ?d]"
    have "?step x rs = Inr ?rs" using Cons.prems(2) x by (simp add: seq)
    moreover have "fold_result ?step xs ?rs = Inr (map (\<lambda>i. case map_of xs i of
        None \<Rightarrow> ?rs ! i | Some seq \<Rightarrow> fold (\<lambda>rule. rule_effect rule ins) seq ?d) [0..<length ?rs])"
      by (rule Cons.IH) (use Cons.prems in auto)
    moreover have "map_of xs i = None" using Cons.prems(1) x by (simp add: map_of_eq_None_iff)
    ultimately show ?case using Cons.prems(2) x by (auto simp: nth_list_update split: option.splits)
  qed
  have wf: "hm_wf out" and bounds: "\<forall>(i, seq) \<in> set out. i < ?n \<and>
      (\<forall>rule \<in> set seq. rule_in_bounds (length ins) rule)"
    using fit assms(3) Some by (simp_all add: rules_fit_def)
  have perm: "mset (ord out) = mset out" using assms(1) by (simp add: is_order_def)
  have d: "distinct (map fst (ord out))"
    using wf perm unfolding hm_wf_def by (metis mset_map mset_eq_imp_distinct_iff)
  have "map_of (ord out) = map_of out"
    using perm d wf unfolding hm_wf_def by (metis map_of_inject_set mset_eq_setD)
  with all [OF d, of "replicate ?n ?d"] bounds is_order_set [OF assms(1), of out] Some show ?thesis
    by (auto simp: ApplyOperationTransformer_def default_eq output_effect_def rules_for_def
        split: option.splits)
qed

section \<open>The transformers stay in a finite domain and, mostly, are monotone\<close>

definition rule_tags :: "inference_rules \<Rightarrow> tag_id set" where
  "rule_tags rules = {t. \<exists>(action, out) \<in> set (rules_action_rules rules). \<exists>(i, seq) \<in> set out.
     \<exists>rule \<in> set seq. \<exists>kind. rule_conclusion rule = ModifyTag kind t}"

definition tags_domain :: "inference_rules \<Rightarrow> abstract_ifc_tags set" where
  "tags_domain rules = insert Bottom {IfcTags s i | s i. s \<subseteq> rule_tags rules \<and> i \<subseteq> rule_tags rules}"

definition tags_rank :: "inference_rules \<Rightarrow> abstract_ifc_tags \<Rightarrow> nat" where
  "tags_rank rules x = (case x of Bottom \<Rightarrow> 0
     | IfcTags s i \<Rightarrow> Suc (card s + card (rule_tags rules - i)))"

definition monotone_rule :: "inference_rule \<Rightarrow> bool" where
  "monotone_rule rule \<longleftrightarrow> rule_premises rule = [] \<or>
     (case rule_conclusion rule of
        ModifyTag kind t \<Rightarrow> kind = kRemoveSecrecy \<or> kind = kAddIntegrity
      | _ \<Rightarrow> False)"

definition monotone_rules :: "inference_rules \<Rightarrow> bool" where
  "monotone_rules rules \<longleftrightarrow> (\<forall>(action, out) \<in> set (rules_action_rules rules).
     \<forall>(i, seq) \<in> set out. \<forall>rule \<in> set seq. monotone_rule rule)"

lemma finite_rule_tags [simp]: "finite (rule_tags rules)"
proof -
  have "rule_tags rules \<subseteq> (\<Union>(action, out) \<in> set (rules_action_rules rules). \<Union>(i, seq) \<in> set out.
      \<Union>rule \<in> set seq. case rule_conclusion rule of ModifyTag kind t \<Rightarrow> {t} | _ \<Rightarrow> {})"
    by (fastforce simp: rule_tags_def)
  moreover have "finite \<dots>" by (auto split: conclusion.splits)
  ultimately show ?thesis by (rule finite_subset)
qed

lemma rules_for_in:
  assumes "rule \<in> set (rules_for rules oid i)"
  obtains action out seq where "(action, out) \<in> set (rules_action_rules rules)"
    "GetOutputRulesForOperation oid rules = Some out" "(i, seq) \<in> set out" "rule \<in> set seq"
proof -
  obtain out where out: "GetOutputRulesForOperation oid rules = Some out"
    using assms by (cases "GetOutputRulesForOperation oid rules") (simp_all add: rules_for_def)
  then obtain seq where seq: "map_of out i = Some seq" "rule \<in> set seq"
    using assms by (cases "map_of out i") (simp_all add: rules_for_def)
  obtain action where "map_of (rules_action_rules rules) action = Some out"
    using out by (cases "map_of (rules_actions rules) oid")
      (simp_all add: GetOutputRulesForOperation_def GetOutputRulesForAction_def)
  with out seq that show ?thesis by (blast dest: map_of_SomeD)
qed

lemma rules_for_fit:
  assumes "rules_fit rules oper" and "rule \<in> set (rules_for rules (fst oper) i)"
  shows "rule_in_bounds (length (inputs (snd oper))) rule"
  using assms by (elim rules_for_in) (auto simp: rules_fit_def)

lemma domain_cases:
  "x \<in> tags_domain rules \<longleftrightarrow> (case x of Bottom \<Rightarrow> True
     | IfcTags s i \<Rightarrow> s \<subseteq> rule_tags rules \<and> i \<subseteq> rule_tags rules)"
  by (cases x) (auto simp: tags_domain_def)

lemma Join_domain: "x \<in> tags_domain rules \<Longrightarrow> y \<in> tags_domain rules \<Longrightarrow> Join x y \<in> tags_domain rules"
  by (cases x; cases y) (auto simp: domain_cases)

lemma default_domain:
  assumes "set ins \<subseteq> tags_domain rules"
  shows "default_effect ins \<in> tags_domain rules"
proof -
  have "fold (\<lambda>cur so_far. Join so_far cur) ins x \<in> tags_domain rules" if "x \<in> tags_domain rules" for x
    using assms that by (induction ins arbitrary: x) (auto intro: Join_domain)
  from this [of Bottom] show ?thesis
    by (auto simp: default_effect_def domain_cases split: abstract_ifc_tags.splits)
qed

lemma merged_subset:
  assumes "set ins \<subseteq> tags_domain rules" and "\<forall>k \<in> set ks. k < length ins"
  shows "merged kind ks ins \<subseteq> rule_tags rules"
proof -
  have "integrity_of (ins ! k) \<subseteq> rule_tags rules" if "k \<in> set ks" for k
  proof -
    have "ins ! k \<in> tags_domain rules" using that assms by auto
    then show ?thesis by (cases "ins ! k") (auto simp: domain_cases)
  qed
  then show ?thesis by (cases ks; cases kind) (auto simp: merged_def)
qed

lemma rule_domain:
  assumes "set ins \<subseteq> tags_domain rules" and "cur \<in> tags_domain rules"
    and "rule_in_bounds (length ins) rule"
    and "\<And>kind t. rule_conclusion rule = ModifyTag kind t \<Longrightarrow> t \<in> rule_tags rules"
  shows "rule_effect rule ins cur \<in> tags_domain rules"
proof (cases "rule_conclusion rule")
  case (CopyInput k)
  with assms(3) have "ins ! k \<in> set ins" by (simp add: rule_in_bounds_def)
  with assms(1,2) CopyInput show ?thesis by (auto simp: rule_effect_def)
next
  case (ModifyTag kind t)
  with assms(2,4) show ?thesis
    by (cases kind; cases cur) (auto simp: rule_effect_def domain_cases)
next
  case (MergeIntegrityTags kind ks)
  with assms merged_subset [of ins rules ks kind] show ?thesis
    by (auto simp: rule_effect_def domain_cases rule_in_bounds_def split: abstract_ifc_tags.splits)
qed

lemma output_domain:
  assumes "rules_fit rules (oid, oper)" "length ins = length (inputs oper)"
    "set ins \<subseteq> tags_domain rules"
  shows "output_effect rules oid ins i \<in> tags_domain rules"
proof -
  have "fold (\<lambda>rule. rule_effect rule ins) seq x \<in> tags_domain rules"
    if "x \<in> tags_domain rules" "set seq \<subseteq> set (rules_for rules oid i)" for seq x
    using that
  proof (induction seq arbitrary: x)
    case (Cons rule seq)
    have "rule_effect rule ins x \<in> tags_domain rules"
    proof (rule rule_domain [OF assms(3) Cons.prems(1)])
      show "rule_in_bounds (length ins) rule"
        using rules_for_fit [OF assms(1), of rule i] Cons.prems(2) assms(2) by simp
      show "t \<in> rule_tags rules" if "rule_conclusion rule = ModifyTag kind t" for kind t
        using Cons.prems(2) that by (auto simp: rule_tags_def elim!: rules_for_in) fastforce
    qed
    with Cons show ?case by simp
  qed simp
  then show ?thesis using default_domain [OF assms(3)] by (simp add: output_effect_def)
qed

lemma default_mono:
  assumes "list_all2 (\<le>) ins ins'"
  shows "default_effect ins \<le> default_effect ins'"
proof -
  let ?f = "\<lambda>xs. fold (\<lambda>cur so_far. Join so_far cur) xs"
  have "?f ins x \<le> ?f ins' y" if "x \<le> y" for x y
    using assms that by (induction arbitrary: x y rule: list_all2_induct)
      (auto simp: Join_sup intro: sup_mono)
  from this [of Bottom Bottom] assms show ?thesis
    by (cases "?f ins Bottom"; cases "?f ins' Bottom") (auto simp: default_effect_def)
qed

lemma integrity_antimono: "x \<le> y \<Longrightarrow> x \<noteq> Bottom \<Longrightarrow> integrity_of y \<subseteq> integrity_of x"
  by (cases x; cases y) auto

lemma premises_antimono:
  assumes "list_all2 (\<le>) ins ins'" and "rule_in_bounds (length ins) rule" and "premises_hold rule ins'"
  shows "premises_hold rule ins"
  unfolding premises_hold_def
proof
  fix p
  assume p: "p \<in> set (rule_premises rule)"
  with assms(2) have "premise_index p < length ins" by (simp add: rule_in_bounds_def)
  then have le: "ins ! premise_index p \<le> ins' ! premise_index p" by (rule list_all2_nthD [OF assms(1)])
  from assms(3) p have "ins' ! premise_index p = Bottom \<or>
      premise_tag p \<in> integrity_of (ins' ! premise_index p)" by (simp add: premises_hold_def)
  with le integrity_antimono [OF le]
  show "ins ! premise_index p = Bottom \<or> premise_tag p \<in> integrity_of (ins ! premise_index p)"
    by auto
qed

lemma merged_antimono:
  assumes "list_all2 (\<le>) ins ins'" and "\<forall>k \<in> set ks. k < length ins" and "Bottom \<notin> set ins"
  shows "merged kind ks ins' \<subseteq> merged kind ks ins"
proof -
  have "integrity_of (ins' ! k) \<subseteq> integrity_of (ins ! k)" if "k \<in> set ks" for k
  proof (rule integrity_antimono)
    have k: "k < length ins" using that assms(2) by simp
    then show "ins ! k \<le> ins' ! k" by (rule list_all2_nthD [OF assms(1)])
    show "ins ! k \<noteq> Bottom" using k assms(3) by (metis nth_mem)
  qed
  then show ?thesis by (cases kind) (auto simp: merged_def)
qed

lemma conclude_mono:
  assumes le: "list_all2 (\<le>) ins ins'" and "cur \<le> cur'"
    and bounds: "rule_in_bounds (length ins) rule"
  shows "conclude (rule_conclusion rule) ins cur \<le> conclude (rule_conclusion rule) ins' cur'"
proof (cases "rule_conclusion rule")
  case (CopyInput k)
  with bounds show ?thesis by (auto simp: rule_in_bounds_def intro: list_all2_nthD [OF le])
next
  case (ModifyTag kind t)
  with setters_mono [OF assms(2)] show ?thesis by (cases kind) simp_all
next
  case (MergeIntegrityTags kind ks)
  have "Bottom \<notin> set ins'" if "Bottom \<notin> set ins"
  proof
    assume "Bottom \<in> set ins'"
    then obtain k where "k < length ins'" "ins' ! k = Bottom" by (auto simp: in_set_conv_nth)
    with le that show False by (auto simp: list_all2_conv_all_nth in_set_conv_nth)
  qed
  with MergeIntegrityTags assms(2) bounds merged_antimono [OF le, of ks kind] show ?thesis
    by (cases cur; cases cur') (auto simp: rule_in_bounds_def)
qed

lemma rule_mono:
  assumes "list_all2 (\<le>) ins ins'" and "cur \<le> cur'" and "rule_in_bounds (length ins) rule"
    and "monotone_rule rule"
  shows "rule_effect rule ins cur \<le> rule_effect rule ins' cur'"
proof (cases "premises_hold rule ins'")
  case True
  with premises_antimono [OF assms(1,3)] conclude_mono [OF assms(1-3)] show ?thesis
    by (simp add: rule_effect_def)
next
  case False
  then obtain kind t where "rule_conclusion rule = ModifyTag kind t"
    "kind = kRemoveSecrecy \<or> kind = kAddIntegrity"
    using assms(4) by (auto simp: monotone_rule_def premises_hold_def split: conclusion.splits)
  then have "rule_effect rule ins cur \<le> cur"
    using SetIntegrity_le ClearSecrecy_le by (auto simp: rule_effect_def)
  with False assms(2) show ?thesis by (simp add: rule_effect_def)
qed

lemma output_mono:
  assumes "rules_fit rules (oid, oper)" "length ins = length (inputs oper)" "monotone_rules rules"
    "list_all2 (\<le>) ins ins'"
  shows "output_effect rules oid ins i \<le> output_effect rules oid ins' i"
proof -
  have "fold (\<lambda>rule. rule_effect rule ins) seq x \<le> fold (\<lambda>rule. rule_effect rule ins') seq y"
    if "x \<le> y" "set seq \<subseteq> set (rules_for rules oid i)" for seq x y
    using that
  proof (induction seq arbitrary: x y)
    case (Cons rule seq)
    have "monotone_rule rule"
      using Cons.prems(2) assms(3) by (auto simp: monotone_rules_def elim!: rules_for_in) fastforce
    moreover have "rule_in_bounds (length ins) rule"
      using rules_for_fit [OF assms(1), of rule i] Cons.prems(2) assms(2) by simp
    ultimately have "rule_effect rule ins x \<le> rule_effect rule ins' y"
      by (intro rule_mono assms(4) Cons.prems(1))
    with Cons show ?case by simp
  qed simp
  then show ?thesis using default_mono [OF assms(4)] by (simp add: output_effect_def)
qed

lemma tags_rank_less:
  assumes "x \<in> tags_domain rules" "y \<in> tags_domain rules" "x < y"
  shows "tags_rank rules x < tags_rank rules y"
proof (cases x)
  case Bottom
  with assms(3) show ?thesis by (cases y) (auto simp: tags_rank_def)
next
  case (IfcTags s i)
  with assms(3) obtain s' i' where y: "y = IfcTags s' i'" "s \<subseteq> s'" "i' \<subseteq> i"
    by (cases y) (auto simp: less_le)
  have fin: "finite s'" using assms(2) y(1) by (auto simp: domain_cases intro: finite_subset)
  let ?U = "rule_tags rules"
  have c: "card s \<le> card s'" "card (?U - i) \<le> card (?U - i')"
    using y fin by (auto intro!: card_mono)
  have "s \<noteq> s' \<or> i \<noteq> i'" using assms(3) IfcTags y(1) by auto
  then show ?thesis
  proof
    assume "s \<noteq> s'"
    with y(2) fin have "card s < card s'" by (intro psubset_card_mono) auto
    with c IfcTags y(1) show ?thesis by (simp add: tags_rank_def)
  next
    assume "i \<noteq> i'"
    moreover have "i \<subseteq> ?U" using assms(1) IfcTags by (simp add: domain_cases)
    ultimately have "?U - i \<subset> ?U - i'" using y(3) by auto
    then have "card (?U - i) < card (?U - i')" by (intro psubset_card_mono) simp
    with c IfcTags y(1) show ?thesis by (simp add: tags_rank_def)
  qed
qed

lemma tags_rank_height: "x \<in> tags_domain rules \<Longrightarrow> tags_rank rules x \<le> Suc (2 * card (rule_tags rules))"
proof (cases x)
  case (IfcTags s i)
  assume "x \<in> tags_domain rules"
  with IfcTags have "card s \<le> card (rule_tags rules)" by (auto simp: domain_cases intro: card_mono)
  moreover have "card (rule_tags rules - i) \<le> card (rule_tags rules)" by (intro card_mono) auto
  ultimately show ?thesis using IfcTags by (simp add: tags_rank_def)
qed (simp add: tags_rank_def)

section \<open>The contract of the iterator holds\<close>

interpretation taint: monotone_semantics Bottom Join IsEquivalentTo "\<lambda>s. GetInitialState"
  "\<lambda>s. ApplyOperationTransformer (fst s) (snd s)"
  "\<lambda>s opers. is_order (fst s) \<and> (\<forall>oper \<in> set opers. rules_fit (snd s) oper)"
  "\<lambda>s. tags_domain (snd s)" "\<lambda>s. tags_rank (snd s)" "\<lambda>s. Suc (2 * card (rule_tags (snd s)))"
  "\<lambda>s. monotone_rules (snd s)"
proof (unfold_locales, goal_cases)
  case (1 s)
  then show ?case by (simp add: tags_domain_def)
next
  case (2 x s y)
  then show ?case by (rule Join_domain)
next
  case (3 s v)
  then show ?case by (simp add: tags_domain_def GetInitialState_def)
next
  case (4 s opers oid oper ins)
  then show ?case
    using output_domain [of "snd s" oid oper ins] by (auto simp: transformer_eq)
next
  case (5 x s y)
  then show ?case by (intro tags_rank_less) (auto simp: below_Join_iff)
next
  case (6 x s)
  then show ?case by (rule tags_rank_height)
next
  case (7 s opers oid oper ins ins' outs outs')
  have le: "below Join = (\<le>)" by (simp add: fun_eq_iff below_Join_iff)
  from 7 have "length ins' = length (inputs oper)" by (auto dest: list_all2_lengthD)
  with 7 output_mono [of "snd s" oid oper ins ins'] show ?case
    by (auto simp: transformer_eq le list_all2_conv_all_nth)
qed

end
