(* ===== verification/Taint_Fixpoint.thy ===== *)
theory Taint_Fixpoint imports
  Taint_Semantics
begin

text \<open>
  The taint analysis as a whole: \<^verbatim>\<open>ModuleFixpointIterator<AbstractSemantics>\<close> on the semantics of
  \<^verbatim>\<open>src/analysis/taint/abstract_semantics.cc\<close>. The properties are facts of the interpretation
  \<open>taint\<close>.
\<close>

definition taint_semantics :: "output_rules_order \<Rightarrow> inference_rules \<Rightarrow> abstract_ifc_tags semantics" where
  "taint_semantics ord rules = make_semantics Bottom Join IsEquivalentTo GetInitialState
     (ApplyOperationTransformer ord rules)"

definition module_fits :: "inference_rules \<Rightarrow> ir_module \<Rightarrow> bool" where
  "module_fits rules m \<longleftrightarrow> distinct (map fst (module_operations m)) \<and>
     (\<forall>oper \<in> set (module_operations m). rules_fit rules oper)"

section \<open>A race between rules\<close>

text \<open>
  Three operations on \<open>Any\<close>: \<open>y = C(Any)\<close>; \<open>x = A(Any, y)\<close> gets integrity tag 0 if \<open>y\<close> has it;
  \<open>z = B(x)\<close> gets secrecy tag 1 if \<open>x\<close> has integrity tag 0.
\<close>

definition race_module :: ir_module where
  "race_module = \<lparr>blocks = [(0, \<lparr>parent_module = Some 0, block_inputs = [], block_outputs = [],
     operations = [
       (1, make_operation (Some 0) (make_operator ''A'') [] [Any, OperationResult 3 0]),
       (2, make_operation (Some 0) (make_operator ''B'') [] [OperationResult 1 0]),
       (3, make_operation (Some 0) (make_operator ''C'') [] [Any])],
     results = []\<rparr>)], named_storage_map = []\<rparr>"

definition race_rules :: inference_rules where
  "race_rules = \<lparr>rules_action_rules =
     [(''A'', [(0, [\<lparr>rule_conclusion = ModifyTag kAddIntegrity 0,
                   rule_premises = [\<lparr>premise_index = 1, premise_tag = 0\<rparr>]\<rparr>])]),
      (''B'', [(0, [\<lparr>rule_conclusion = ModifyTag kAddSecrecy 1,
                   rule_premises = [\<lparr>premise_index = 0, premise_tag = 0\<rparr>]\<rparr>])])],
     rules_actions = [(1, ''A''), (2, ''B'')],
     rules_tags = [(''ok'', 0), (''secret'', 1)], rules_tag_names = [''ok'', ''secret'']\<rparr>"

definition orders_of :: "(op_id list \<Rightarrow> op_id list) \<Rightarrow> orders" where
  "orders_of f = \<lparr>ord_nodes = id, ord_edges = id, ord_worklist = f\<rparr>"

definition race_adj :: adjacency_list where
  "race_adj = [(OperationNode 1, [(0, ValueNode (OperationResult 1 0))]),
     (ValueNode Any, [(0, OperationNode 1), (0, OperationNode 3)]),
     (ValueNode (OperationResult 3 0), [(1, OperationNode 1)]),
     (ValueNode (OperationResult 1 0), [(0, OperationNode 2)]),
     (OperationNode 2, [(0, ValueNode (OperationResult 2 0))]),
     (ValueNode (OperationResult 2 0), []),
     (OperationNode 3, [(0, ValueNode (OperationResult 3 0))])]"

lemma race_adj: "ComputeAdjacencyList (0, race_module) = Inr race_adj"
  by (simp add: eval_graph race_module_def race_adj_def)

lemma race_init:
  "init_state (orders_of f) (taint_semantics id race_rules) (module_operations race_module) race_adj
     = Inr \<lparr>value_states = [(Any, IfcTags {} {})], worklist = [1, 3]\<rparr>"
  by (simp add: eval_fixpoint orders_of_def race_module_def race_adj_def taint_semantics_def
      GetInitialState_def)

lemmas eval_taint = taint_semantics_def GetInitialState_def ApplyOperationTransformer_def
  ApplyDefaultOperationTransformer_def InterpretInferenceRule_def GetOutputRulesForOperation_def
  GetOutputRulesForAction_def

lemmas eval_race = eval_fixpoint eval_taint orders_of_def race_module_def race_adj_def race_rules_def

abbreviation race_step :: "(op_id list \<Rightarrow> op_id list) \<Rightarrow> abstract_ifc_tags fixpoint_state
    \<Rightarrow> abstract_ifc_tags fixpoint_state result" where
  "race_step f \<equiv> iterate_worklist (orders_of f) (taint_semantics id race_rules)
     (module_operations race_module) race_adj"

lemma race_forward:
  "race_step id \<lparr>value_states = [(Any, IfcTags {} {})], worklist = [1, 3]\<rparr> =
     Inr \<lparr>value_states = [(Any, IfcTags {} {}), (OperationResult 1 0, IfcTags {} {0})], worklist = [3, 2]\<rparr>"
  "race_step id \<lparr>value_states = [(Any, IfcTags {} {}), (OperationResult 1 0, IfcTags {} {0})], worklist = [3, 2]\<rparr> =
     Inr \<lparr>value_states = [(Any, IfcTags {} {}), (OperationResult 1 0, IfcTags {} {0}),
       (OperationResult 3 0, IfcTags {} {})], worklist = [2, 1]\<rparr>"
  "race_step id \<lparr>value_states = [(Any, IfcTags {} {}), (OperationResult 1 0, IfcTags {} {0}),
       (OperationResult 3 0, IfcTags {} {})], worklist = [2, 1]\<rparr> =
     Inr \<lparr>value_states = [(Any, IfcTags {} {}), (OperationResult 1 0, IfcTags {} {0}),
       (OperationResult 3 0, IfcTags {} {}), (OperationResult 2 0, IfcTags {1} {})], worklist = [1]\<rparr>"
  "race_step id \<lparr>value_states = [(Any, IfcTags {} {}), (OperationResult 1 0, IfcTags {} {0}),
       (OperationResult 3 0, IfcTags {} {}), (OperationResult 2 0, IfcTags {1} {})], worklist = [1]\<rparr> =
     Inr \<lparr>value_states = [(Any, IfcTags {} {}), (OperationResult 1 0, IfcTags {} {}),
       (OperationResult 3 0, IfcTags {} {}), (OperationResult 2 0, IfcTags {1} {})], worklist = [2]\<rparr>"
  "race_step id \<lparr>value_states = [(Any, IfcTags {} {}), (OperationResult 1 0, IfcTags {} {}),
       (OperationResult 3 0, IfcTags {} {}), (OperationResult 2 0, IfcTags {1} {})], worklist = [2]\<rparr> =
     Inr \<lparr>value_states = [(Any, IfcTags {} {}), (OperationResult 1 0, IfcTags {} {}),
       (OperationResult 3 0, IfcTags {} {}), (OperationResult 2 0, IfcTags {1} {})], worklist = []\<rparr>"
  by (simp_all add: eval_race)

lemma race_backward:
  "race_step rev \<lparr>value_states = [(Any, IfcTags {} {})], worklist = [1, 3]\<rparr> =
     Inr \<lparr>value_states = [(Any, IfcTags {} {}), (OperationResult 3 0, IfcTags {} {})], worklist = [1]\<rparr>"
  "race_step rev \<lparr>value_states = [(Any, IfcTags {} {}), (OperationResult 3 0, IfcTags {} {})], worklist = [1]\<rparr> =
     Inr \<lparr>value_states = [(Any, IfcTags {} {}), (OperationResult 3 0, IfcTags {} {}),
       (OperationResult 1 0, IfcTags {} {})], worklist = [2]\<rparr>"
  "race_step rev \<lparr>value_states = [(Any, IfcTags {} {}), (OperationResult 3 0, IfcTags {} {}),
       (OperationResult 1 0, IfcTags {} {})], worklist = [2]\<rparr> =
     Inr \<lparr>value_states = [(Any, IfcTags {} {}), (OperationResult 3 0, IfcTags {} {}),
       (OperationResult 1 0, IfcTags {} {}), (OperationResult 2 0, IfcTags {} {})], worklist = []\<rparr>"
  by (simp_all add: eval_race)

section \<open>Properties\<close>

text \<open>C2: The taint analysis terminates and passes all its checks on every module whose
  operations the rules fit, for every iteration order of its hash containers, and the states it
  returns solve the module: every value that is not an operation's result has the initial
  state, and the state of every result is above what the operation's rules compute from the
  states of its inputs.\<close>

theorem taint_fixpoint_total_and_sound:
  assumes "module_fits rules (snd m)" and "orders_ok ords" and "is_order ord"
  shows "\<exists>vs. ComputeFixpoint ords m (taint_semantics ord rules) = Some (Inr vs) \<and> hm_wf vs \<and>
    solution (taint_semantics ord rules) (module_operations (snd m)) (map_of vs)"
proof -
  have "is_order (fst (ord, rules)) \<and> (\<forall>oper \<in> set (module_operations (snd m)). rules_fit (snd (ord, rules)) oper)"
    "distinct (map fst (module_operations (snd m)))"
    using assms by (auto simp: module_fits_def)
  from taint.compute_fixpoint_solution [OF this assms(2)] show ?thesis
    by (auto simp: taint_semantics_def)
qed

lemma race_module_fits: "module_fits race_rules race_module"
  by (simp add: module_fits_def race_module_def race_rules_def module_operations_def rules_fit_def
      GetOutputRulesForOperation_def GetOutputRulesForAction_def make_operation_def make_operator_def
      rule_in_bounds_def NumberOfOutputs_def hm_wf_def)

lemma orders_of_ok: "is_order f \<Longrightarrow> orders_ok (orders_of f)"
  by (simp add: orders_of_def orders_ok_def)

theorem taint_fixpoint_total_and_sound_witness:
  "\<exists>vs. ComputeFixpoint (orders_of rev) (0, race_module) (taint_semantics rev race_rules) = Some (Inr vs) \<and>
     map_of vs Any = Some (IfcTags {} {})"
proof -
  from taint_fixpoint_total_and_sound [of race_rules "(0, race_module)" "orders_of rev" rev]
  obtain vs where "ComputeFixpoint (orders_of rev) (0, race_module) (taint_semantics rev race_rules) = Some (Inr vs)"
    and sol: "solution (taint_semantics rev race_rules) (module_operations race_module) (map_of vs)"
    by (auto simp: race_module_fits orders_of_ok)
  moreover have "users (module_operations race_module) Any \<noteq> {}"
    by (force simp: users_def race_module_def module_operations_def make_operation_def)
  with sol have "map_of vs Any = Some (IfcTags {} {})"
    by (simp add: solution_def taint_semantics_def GetInitialState_def)
  ultimately show ?thesis by blast
qed

text \<open>C8: When every rule with premises only removes secrecy or adds integrity, the result is
  the least solution, whatever the iteration orders: each state is below the state that any
  other solution has for the value.\<close>

theorem taint_fixpoint_least:
  assumes "module_fits rules (snd m)" and "monotone_rules rules" and "orders_ok ords" and "is_order ord"
  shows "\<exists>vs. ComputeFixpoint ords m (taint_semantics ord rules) = Some (Inr vs) \<and>
    solution (taint_semantics ord rules) (module_operations (snd m)) (map_of vs) \<and>
    (\<forall>X v x. solution (taint_semantics ord rules) (module_operations (snd m)) X \<longrightarrow>
       map_of vs v = Some x \<longrightarrow> (\<exists>y. X v = Some y \<and> x \<le> y))"
proof -
  have "is_order (fst (ord, rules)) \<and> (\<forall>oper \<in> set (module_operations (snd m)). rules_fit (snd (ord, rules)) oper)"
    "distinct (map fst (module_operations (snd m)))" "monotone_rules (snd (ord, rules))"
    using assms by (auto simp: module_fits_def)
  from taint.compute_fixpoint_least [OF this assms(3)] show ?thesis
    by (simp add: taint_semantics_def below_Join_iff)
qed

definition declassify_rules :: inference_rules where
  "declassify_rules = \<lparr>rules_action_rules =
     [(''B'', [(0, [\<lparr>rule_conclusion = ModifyTag kRemoveSecrecy 1,
                   rule_premises = [\<lparr>premise_index = 0, premise_tag = 0\<rparr>]\<rparr>])])],
     rules_actions = [(2, ''B'')], rules_tags = [], rules_tag_names = []\<rparr>"

theorem taint_fixpoint_least_witness:
  "\<exists>vs. ComputeFixpoint (orders_of id) (0, race_module) (taint_semantics id declassify_rules) = Some (Inr vs) \<and>
     (\<forall>X x. solution (taint_semantics id declassify_rules) (module_operations race_module) X \<longrightarrow>
        map_of vs (OperationResult 2 0) = Some x \<longrightarrow> (\<exists>y. X (OperationResult 2 0) = Some y \<and> x \<le> y))"
proof -
  have "module_fits declassify_rules race_module"
    by (simp add: module_fits_def race_module_def declassify_rules_def module_operations_def rules_fit_def
        GetOutputRulesForOperation_def GetOutputRulesForAction_def make_operation_def make_operator_def
        rule_in_bounds_def NumberOfOutputs_def hm_wf_def)
  moreover have "monotone_rules declassify_rules"
    by (simp add: monotone_rules_def declassify_rules_def monotone_rule_def)
  ultimately show ?thesis
    using taint_fixpoint_least [of declassify_rules "(0, race_module)" "orders_of id" id]
    by (simp add: orders_of_ok) blast
qed

text \<open>A rule that adds a secrecy tag under an integrity premise is not monotone, and then
  the result depends on the order in which the worklist set iterates: on the same module and
  rules one order tags the result of \<open>B\<close> as secret, the other does not. So the result is not
  the least fixpoint in general.\<close>

theorem taint_fixpoint_order_dependent:
  "\<exists>vs vs'. ComputeFixpoint (orders_of id) (0, race_module) (taint_semantics id race_rules) = Some (Inr vs) \<and>
     ComputeFixpoint (orders_of rev) (0, race_module) (taint_semantics id race_rules) = Some (Inr vs') \<and>
     map_of vs (OperationResult 2 0) = Some (IfcTags {1} {}) \<and>
     map_of vs' (OperationResult 2 0) = Some (IfcTags {} {})"
  by (simp add: ComputeFixpoint_def Let_def race_adj race_init while_running race_forward race_backward
      del: One_nat_def)

text \<open>C23: On operations the rules fit, \<^verbatim>\<open>ApplyOperationTransformer\<close> never fails, does not depend
  on the order in which the output rules are iterated, and gives output \<open>i\<close> the default state
  (the join of the inputs without integrity, or no tags when there are no inputs) changed by
  the output's rules in sequence, each applied when all its premises hold or their input is
  still \<^verbatim>\<open>Bottom\<close>.\<close>

theorem operation_transformer_functional:
  assumes "is_order ord" and "rules_fit rules (oid, oper)" and "length ins = length (inputs oper)"
  shows "ApplyOperationTransformer ord rules (oid, oper) ins = Inr (map (\<lambda>i.
     fold (\<lambda>rule cur. if premises_hold rule ins then conclude (rule_conclusion rule) ins cur else cur)
       (rules_for rules oid i)
       (if ins = [] then IfcTags {} {}
        else case Sup_fin (set ins) of Bottom \<Rightarrow> Bottom | IfcTags s i \<Rightarrow> IfcTags s {}))
     [0..<NumberOfOutputs oper])"
proof -
  have "fold (\<lambda>cur so_far. Join so_far cur) xs x = sup x (Sup_fin (set xs))" if "xs \<noteq> []" for xs x
    using that
  proof (induction xs arbitrary: x)
    case (Cons y xs)
    then show ?case by (cases "xs = []") (simp_all add: Join_sup sup.assoc)
  qed simp
  from this [of ins Bottom] have "ins \<noteq> [] \<Longrightarrow>
      fold (\<lambda>cur so_far. Join so_far cur) ins Bottom = Sup_fin (set ins)"
    by (simp add: Bottom_bot)
  then have "default_effect ins = (if ins = [] then IfcTags {} {}
      else case Sup_fin (set ins) of Bottom \<Rightarrow> Bottom | IfcTags s i \<Rightarrow> IfcTags s {})"
    by (simp add: default_effect_def)
  then show ?thesis
    by (simp add: transformer_eq [OF assms] output_effect_def [abs_def] rule_effect_def [abs_def])
qed

theorem operation_transformer_functional_witness:
  "ApplyOperationTransformer rev race_rules (2, make_operation None (make_operator ''B'') [] [Any])
     [IfcTags {5} {0}] = Inr [IfcTags {1, 5} {}]"
  using operation_transformer_functional [OF is_order_id(3), of race_rules 2
      "make_operation None (make_operator ''B'') [] [Any]" "[IfcTags {5} {0}]"]
  by (simp add: rules_fit_def race_rules_def GetOutputRulesForOperation_def GetOutputRulesForAction_def
      make_operation_def make_operator_def rule_in_bounds_def NumberOfOutputs_def hm_wf_def
      rules_for_def premises_hold_def insert_commute)

end
