(* ===== verification/Policy_Check.thy ===== *)
theory Policy_Check imports
  Taint_Fixpoint
begin

text \<open>
  The policy checker on top of the taint analysis,
  \<^verbatim>\<open>src/backends/policy_engine/abstract_interpretation/abstract_interpretation_policy_checker.cc\<close>:
  a module complies when no input of an egress operation has a secrecy tag.

  The checker aborts when it asks a \<^verbatim>\<open>Bottom\<close> state for its secrecy, so its verdict is
  \<open>bool result\<close>, and \<open>None\<close> would be an analysis that does not end.
\<close>

section \<open>The checker\<close>

definition ComputeIfcTags ::
  "orders \<Rightarrow> output_rules_order \<Rightarrow> inference_rules \<Rightarrow> module_id \<times> ir_module
     \<Rightarrow> (ir_value, abstract_ifc_tags) hash_map result option" where
  "ComputeIfcTags ords ord rules m = ComputeFixpoint ords m (taint_semantics ord rules)"

definition check_input ::
  "(ir_value, abstract_ifc_tags) hash_map \<Rightarrow> ir_value \<Rightarrow> bool \<Rightarrow> bool result" where
  "check_input fixpoint_result input policy_compliant =
     (case map_of fixpoint_result input of
        None \<Rightarrow> Inr policy_compliant
      | Some tags \<Rightarrow> rbind (HasNoSecrecy tags) (\<lambda>no_secrecy.
          Inr (if \<not> no_secrecy then False else policy_compliant)))"

definition check_operation ::
  "string set \<Rightarrow> (ir_value, abstract_ifc_tags) hash_map \<Rightarrow> op_id \<times> operation \<Rightarrow> bool \<Rightarrow> bool result" where
  "check_operation egress fixpoint_result oper policy_compliant =
     (if op_name (op_of (snd oper)) \<notin> egress then Inr policy_compliant
      else fold_result (check_input fixpoint_result) (inputs (snd oper)) policy_compliant)"

definition IsModulePolicyCompliant ::
  "orders \<Rightarrow> output_rules_order \<Rightarrow> inference_rules \<Rightarrow> string set \<Rightarrow> module_id \<times> ir_module
     \<Rightarrow> bool result option" where
  "IsModulePolicyCompliant ords ord rules egress m =
     map_option (\<lambda>r. rbind r (\<lambda>fixpoint_result.
         fold_result (\<lambda>b. fold_result (check_operation egress fixpoint_result) (operations (snd b)))
           (blocks (snd m)) True))
       (ComputeIfcTags ords ord rules m)"

section \<open>The verdict as a predicate\<close>

definition egress_inputs :: "string set \<Rightarrow> (op_id \<times> operation) list \<Rightarrow> ir_value set" where
  "egress_inputs egress opers =
     {v. \<exists>(oid, oper) \<in> set opers. op_name (op_of oper) \<in> egress \<and> v \<in> set (inputs oper)}"

fun secrecy_of :: "abstract_ifc_tags \<Rightarrow> tag_id set" where
  "secrecy_of Bottom = {}"
| "secrecy_of (IfcTags s i) = s"

lemma check_inputs_eq:
  "fold_result (check_input vs) xs c =
    (if \<exists>x \<in> set xs. map_of vs x = Some Bottom
     then Inl (Check_failed ''Cannot check secrecy for bottom.'')
     else Inr (c \<and> (\<forall>x \<in> set xs. \<forall>t. map_of vs x = Some t \<longrightarrow> secrecy_of t = {})))"
proof (induction xs arbitrary: c)
  case (Cons x xs)
  show ?case
  proof (cases "map_of vs x")
    case None
    with Cons show ?thesis by (simp add: check_input_def)
  next
    case (Some t)
    with Cons show ?thesis by (cases t) (auto simp: check_input_def)
  qed
qed simp

lemma check_operations_eq:
  "fold_result (check_operation egress vs) opers c =
    (if \<exists>x \<in> egress_inputs egress opers. map_of vs x = Some Bottom
     then Inl (Check_failed ''Cannot check secrecy for bottom.'')
     else Inr (c \<and> (\<forall>x \<in> egress_inputs egress opers. \<forall>t. map_of vs x = Some t \<longrightarrow> secrecy_of t = {})))"
proof (induction opers arbitrary: c)
  case Nil
  then show ?case by (simp add: egress_inputs_def)
next
  case (Cons oper opers)
  have "egress_inputs egress (oper # opers) =
      (if op_name (op_of (snd oper)) \<in> egress then set (inputs (snd oper)) else {}) \<union> egress_inputs egress opers"
    by (cases oper) (auto simp: egress_inputs_def)
  moreover have "check_operation egress vs oper d = (if op_name (op_of (snd oper)) \<in> egress
      then fold_result (check_input vs) (inputs (snd oper)) d else Inr d)" for d
    by (simp add: check_operation_def)
  ultimately show ?case by (simp add: check_inputs_eq Cons.IH bex_Un ball_Un conj_assoc)
qed

lemma fold_result_concat:
  "fold_result (\<lambda>b. fold_result f (g b)) bs c = fold_result f (concat (map g bs)) c"
proof (induction bs arbitrary: c)
  case (Cons b bs)
  then show ?case by (cases "fold_result f (g b) c") (simp_all add: fold_result_append)
qed simp

lemma verdict_eq:
  assumes "ComputeIfcTags ords ord rules m = Some (Inr vs)"
  shows "IsModulePolicyCompliant ords ord rules egress m = Some
    (if \<exists>x \<in> egress_inputs egress (module_operations (snd m)). map_of vs x = Some Bottom
     then Inl (Check_failed ''Cannot check secrecy for bottom.'')
     else Inr (\<forall>x \<in> egress_inputs egress (module_operations (snd m)). \<forall>t.
       map_of vs x = Some t \<longrightarrow> secrecy_of t = {}))"
  by (simp add: IsModulePolicyCompliant_def assms fold_result_concat check_operations_eq
      module_operations_def [symmetric])

section \<open>Modules in definition order\<close>

text \<open>Every operand that is a result is a result of an earlier operation of the module.\<close>

definition ssa_ordered :: "(op_id \<times> operation) list \<Rightarrow> bool" where
  "ssa_ordered opers \<longleftrightarrow> (\<forall>k < length opers. \<forall>v \<in> set (inputs (snd (opers ! k))).
     is_operation_result v \<longrightarrow> (\<exists>j < k. v \<in> op_outputs (opers ! j)))"

lemma rule_effect_not_bottom:
  assumes "rule_in_bounds (length ins) rule" and "Bottom \<notin> set ins" and "cur \<noteq> Bottom"
  shows "rule_effect rule ins cur \<noteq> Bottom"
proof (cases "rule_conclusion rule")
  case (CopyInput k)
  with assms show ?thesis by (auto simp: rule_effect_def rule_in_bounds_def) (metis nth_mem)
next
  case (ModifyTag kind t)
  with assms(3) show ?thesis by (cases kind; cases cur) (auto simp: rule_effect_def)
next
  case (MergeIntegrityTags kind ks)
  with assms(2,3) show ?thesis by (cases cur) (auto simp: rule_effect_def)
qed

lemma default_not_bottom:
  assumes "Bottom \<notin> set ins"
  shows "default_effect ins \<noteq> Bottom"
proof (cases ins)
  case (Cons x xs)
  have "fold (\<lambda>cur so_far. Join so_far cur) ys y \<noteq> Bottom" if "y \<noteq> Bottom" for ys y
    using that
  proof (induction ys arbitrary: y)
    case (Cons z ys)
    then show ?case by (cases y; cases z) auto
  qed simp
  from this [of x xs] Cons assms show ?thesis
    by (auto simp: default_effect_def split: abstract_ifc_tags.splits)
qed (simp add: default_effect_def)

lemma output_effect_not_bottom:
  assumes "rules_fit rules (oid, oper)" "length ins = length (inputs oper)" "Bottom \<notin> set ins"
  shows "output_effect rules oid ins i \<noteq> Bottom"
proof -
  have "fold (\<lambda>rule. rule_effect rule ins) seq x \<noteq> Bottom"
    if "x \<noteq> Bottom" "set seq \<subseteq> set (rules_for rules oid i)" for seq x
    using that
  proof (induction seq arbitrary: x)
    case (Cons rule seq)
    have "rule_in_bounds (length ins) rule"
      using rules_for_fit [OF assms(1), of rule i] Cons.prems(2) assms(2) by simp
    from rule_effect_not_bottom [OF this assms(3) Cons.prems(1)] Cons show ?case by simp
  qed simp
  then show ?thesis using default_not_bottom [OF assms(3)] by (simp add: output_effect_def)
qed

lemma solution_output:
  assumes "solution (taint_semantics ord rules) opers vs" and "is_order ord"
    and "(oid, oper) \<in> set opers" "rules_fit rules (oid, oper)" "activated vs oper" "i < NumberOfOutputs oper"
  shows "\<exists>x. vs (OperationResult oid i) = Some x \<and>
    output_effect rules oid (map (look Bottom vs) (inputs oper)) i \<le> x"
proof -
  from assms(1,3,5) obtain outs where "transform (taint_semantics ord rules) vs (oid, oper) = Inr outs"
    and "\<forall>i < NumberOfOutputs oper. \<exists>x. vs (OperationResult oid i) = Some x \<and> below Join (outs ! i) x"
    unfolding solution_def by (fastforce simp: taint_semantics_def)
  with assms(6) transformer_eq [OF assms(2,4), of "map (look Bottom vs) (inputs oper)"] show ?thesis
    by (auto simp: transform_def taint_semantics_def below_Join_iff)
qed

lemma solution_initial:
  assumes "solution (taint_semantics ord rules) opers vs" and "oper \<in> set opers"
    and "v \<in> set (inputs (snd oper))" "\<not> is_operation_result v"
  shows "vs v = Some (IfcTags {} {})"
proof -
  have "fst oper \<in> users opers v" using assms(2,3) unfolding users_def by blast
  then have "users opers v \<noteq> {}" by blast
  with assms(1,4) show ?thesis by (simp add: solution_def taint_semantics_def GetInitialState_def)
qed

text \<open>In such a module every value has a state that is not \<^verbatim>\<open>Bottom\<close>.\<close>

lemma ssa_not_bottom:
  assumes sol: "solution (taint_semantics ord rules) opers vs" "is_order ord"
    and fit: "\<forall>oper \<in> set opers. rules_fit rules oper" and ssa: "ssa_ordered opers"
    and k: "k < length opers"
  shows "(\<forall>v \<in> set (inputs (snd (opers ! k))). \<exists>x. vs v = Some x \<and> x \<noteq> Bottom) \<and>
    (\<forall>v \<in> op_outputs (opers ! k). \<exists>x. vs v = Some x \<and> x \<noteq> Bottom)"
  using k
proof (induction k rule: less_induct)
  case (less k)
  obtain oid oper where k: "opers ! k = (oid, oper)" by (cases "opers ! k")
  then have mem: "(oid, oper) \<in> set opers" using less.prems by (metis nth_mem)
  have ins: "\<exists>x. vs v = Some x \<and> x \<noteq> Bottom" if v: "v \<in> set (inputs oper)" for v
  proof (cases "is_operation_result v")
    case True
    with ssa v k less.prems obtain j where "j < k" "v \<in> op_outputs (opers ! j)"
      unfolding ssa_ordered_def by (metis snd_conv)
    with less show ?thesis by force
  next
    case False
    with solution_initial [OF sol(1) mem] v show ?thesis by simp
  qed
  let ?ins = "map (look Bottom vs) (inputs oper)"
  have nb: "Bottom \<notin> set ?ins" using ins by (force simp: look_def)
  have act: "activated vs oper"
    using ins by (cases "inputs oper") (auto simp: activated_def)
  have fits: "rules_fit rules (oid, oper)" using fit mem by blast
  have "\<exists>x. vs (OperationResult oid i) = Some x \<and> x \<noteq> Bottom" if "i < NumberOfOutputs oper" for i
    using solution_output [OF sol mem fits act that]
      output_effect_not_bottom [OF fits _ nb, of i] by (auto simp del: map_map)
  with ins k show ?case by (auto simp: op_outputs_def)
qed

section \<open>Tags that must arrive\<close>

text \<open>
  \<open>must_carry t T seq\<close> follows one secrecy tag through a sequence of rules, from the input
  positions \<open>T\<close> that carry it: what the sequence does to it whatever the premises are.
\<close>

definition must_carry_step :: "tag_id \<Rightarrow> nat set \<Rightarrow> inference_rule \<Rightarrow> bool \<Rightarrow> bool" where
  "must_carry_step t T rule b = (case rule_conclusion rule of
     CopyInput k \<Rightarrow> if rule_premises rule = [] then k \<in> T else b \<and> k \<in> T
   | ModifyTag kAddSecrecy t' \<Rightarrow> b \<or> (t' = t \<and> rule_premises rule = [])
   | ModifyTag kRemoveSecrecy t' \<Rightarrow> b \<and> t' \<noteq> t
   | _ \<Rightarrow> b)"

definition must_carry :: "tag_id \<Rightarrow> nat set \<Rightarrow> inference_rule_sequence \<Rightarrow> bool" where
  "must_carry t T seq = fold (must_carry_step t T) seq (T \<noteq> {})"

inductive tainted ::
  "inference_rules \<Rightarrow> (op_id \<times> operation) list \<Rightarrow> tag_id \<Rightarrow> ir_value \<Rightarrow> bool" for rules opers t where
  carry: "(oid, oper) \<in> set opers \<Longrightarrow> i < NumberOfOutputs oper \<Longrightarrow>
   \<forall>k \<in> T. k < length (inputs oper) \<and> tainted rules opers t (inputs oper ! k) \<Longrightarrow>
   must_carry t T (rules_for rules oid i) \<Longrightarrow>
   tainted rules opers t (OperationResult oid i)"

lemma must_carry_step_sound:
  assumes "rule_in_bounds (length ins) rule" "Bottom \<notin> set ins" "cur \<noteq> Bottom"
    and "\<forall>k \<in> T. k < length ins \<and> t \<in> secrecy_of (ins ! k)" and "b \<longrightarrow> t \<in> secrecy_of cur"
    and "must_carry_step t T rule b"
  shows "t \<in> secrecy_of (rule_effect rule ins cur)"
proof (cases "rule_conclusion rule")
  case (CopyInput k)
  with assms show ?thesis
    by (auto simp: must_carry_step_def rule_effect_def premises_hold_def split: if_splits)
next
  case (ModifyTag kind t')
  with assms(3,5,6) show ?thesis
    by (cases kind; cases cur) (auto simp: must_carry_step_def rule_effect_def premises_hold_def)
next
  case (MergeIntegrityTags kind ks)
  with assms(2,3,5,6) show ?thesis
    by (cases cur) (auto simp: must_carry_step_def rule_effect_def)
qed

lemma default_carries:
  assumes "T \<noteq> {}" "\<forall>k \<in> T. k < length ins \<and> t \<in> secrecy_of (ins ! k)"
  shows "t \<in> secrecy_of (default_effect ins)"
proof -
  obtain x where x: "x \<in> set ins" "t \<in> secrecy_of x" using assms by (metis all_not_in_conv nth_mem)
  have above: "y \<le> fold (\<lambda>cur so_far. Join so_far cur) xs y" for xs and y :: abstract_ifc_tags
    by (induction xs arbitrary: y) (auto simp: Join_sup intro: order_trans [OF sup_ge1])
  have "x \<le> fold (\<lambda>cur so_far. Join so_far cur) xs y" if "x \<in> set xs" for xs y
    using that
  proof (induction xs arbitrary: y)
    case (Cons z xs)
    have "z \<le> fold (\<lambda>cur so_far. Join so_far cur) xs (Join y z)"
      using above [of "Join y z" xs] by (auto simp: Join_sup intro: order_trans [OF sup_ge2])
    with Cons show ?case by auto
  qed simp
  then have "x \<le> fold (\<lambda>cur so_far. Join so_far cur) ins Bottom" using x(1) by blast
  then show ?thesis using x by (cases x) (auto simp: default_effect_def IfcTags_le_iff)
qed

lemma output_carries:
  assumes fit: "rules_fit rules (oid, oper)" and "length ins = length (inputs oper)" and nb: "Bottom \<notin> set ins"
    and T: "\<forall>k \<in> T. k < length ins \<and> t \<in> secrecy_of (ins ! k)" and "must_carry t T (rules_for rules oid i)"
  shows "t \<in> secrecy_of (output_effect rules oid ins i)"
proof -
  have "t \<in> secrecy_of (fold (\<lambda>rule. rule_effect rule ins) seq cur)"
    if "fold (must_carry_step t T) seq b" "b \<longrightarrow> t \<in> secrecy_of cur" "cur \<noteq> Bottom"
      "set seq \<subseteq> set (rules_for rules oid i)" for seq b cur
    using that
  proof (induction seq arbitrary: b cur)
    case (Cons rule seq)
    have bounds: "rule_in_bounds (length ins) rule"
      using rules_for_fit [OF fit, of rule i] Cons.prems(4) assms(2) by simp
    have "must_carry_step t T rule b \<longrightarrow> t \<in> secrecy_of (rule_effect rule ins cur)"
      using must_carry_step_sound [OF bounds nb Cons.prems(3) T Cons.prems(2)] by blast
    with Cons rule_effect_not_bottom [OF bounds nb Cons.prems(3)] show ?case by simp
  qed simp
  from this [of "rules_for rules oid i" "T \<noteq> {}"] assms(5) default_carries [OF _ T] default_not_bottom [OF nb]
  show ?thesis by (simp add: output_effect_def must_carry_def)
qed

lemma secrecy_mono: "x \<le> y \<Longrightarrow> secrecy_of x \<subseteq> secrecy_of y"
  by (cases x; cases y) auto

lemma tainted_has_tag:
  assumes sol: "solution (taint_semantics ord rules) opers vs" "is_order ord"
    and fit: "\<forall>oper \<in> set opers. rules_fit rules oper" and ssa: "ssa_ordered opers"
    and "tainted rules opers t v"
  shows "\<exists>x. vs v = Some x \<and> t \<in> secrecy_of x"
  using assms(5)
proof induction
  case (carry oid oper i T)
  obtain k where k: "k < length opers" "opers ! k = (oid, oper)"
    using carry.hyps(1) by (metis in_set_conv_nth)
  have ins: "\<exists>x. vs v = Some x \<and> x \<noteq> Bottom" if "v \<in> set (inputs oper)" for v
    using ssa_not_bottom [OF sol fit ssa k(1)] k(2) that by simp
  let ?ins = "map (look Bottom vs) (inputs oper)"
  have nb: "Bottom \<notin> set ?ins" using ins by (force simp: look_def)
  have act: "activated vs oper" using ins by (cases "inputs oper") (auto simp: activated_def)
  have fits: "rules_fit rules (oid, oper)" using fit carry.hyps(1) by blast
  have "\<forall>k \<in> T. k < length ?ins \<and> t \<in> secrecy_of (?ins ! k)"
    using carry.IH by (force simp: look_def)
  from output_carries [OF fits _ nb this carry.hyps(3)]
  have "t \<in> secrecy_of (output_effect rules oid ?ins i)" by simp
  with solution_output [OF sol carry.hyps(1) fits act carry.hyps(2)] secrecy_mono show ?case by blast
qed

section \<open>A loop through an integrity merge\<close>

text \<open>
  \<open>y = M(Any, y)\<close> with a rule that unites the integrity tags of both inputs, and an egress of
  \<open>y\<close>. The merge waits for inputs that are not \<^verbatim>\<open>Bottom\<close>, one of which is its own result.
\<close>

definition loop_module :: ir_module where
  "loop_module = \<lparr>blocks = [(0, \<lparr>parent_module = Some 0, block_inputs = [], block_outputs = [],
     operations = [
       (1, make_operation (Some 0) (make_operator ''M'') [] [Any, OperationResult 1 0]),
       (2, make_operation (Some 0) (make_operator ''E'') [] [OperationResult 1 0])],
     results = []\<rparr>)], named_storage_map = []\<rparr>"

definition loop_rules :: inference_rules where
  "loop_rules = \<lparr>rules_action_rules =
     [(''M'', [(0, [\<lparr>rule_conclusion = MergeIntegrityTags kUnion [0, 1], rule_premises = []\<rparr>])])],
     rules_actions = [(1, ''M'')], rules_tags = [], rules_tag_names = []\<rparr>"

definition loop_adj :: adjacency_list where
  "loop_adj = [(OperationNode 1, [(0, ValueNode (OperationResult 1 0))]),
     (ValueNode Any, [(0, OperationNode 1)]),
     (ValueNode (OperationResult 1 0), [(1, OperationNode 1), (0, OperationNode 2)]),
     (OperationNode 2, [(0, ValueNode (OperationResult 2 0))]),
     (ValueNode (OperationResult 2 0), [])]"

lemma loop_adj: "ComputeAdjacencyList (0, loop_module) = Inr loop_adj"
  by (simp add: eval_graph loop_module_def loop_adj_def)

lemmas eval_loop = eval_fixpoint eval_taint orders_of_def loop_module_def loop_adj_def loop_rules_def
  InteprepretMergeIntegrityTags_def

lemma loop_init:
  "init_state (orders_of id) (taint_semantics id loop_rules) (module_operations loop_module) loop_adj
     = Inr \<lparr>value_states = [(Any, IfcTags {} {})], worklist = [1]\<rparr>"
  by (simp add: eval_loop)

abbreviation loop_step :: "abstract_ifc_tags fixpoint_state \<Rightarrow> abstract_ifc_tags fixpoint_state result" where
  "loop_step \<equiv> iterate_worklist (orders_of id) (taint_semantics id loop_rules)
     (module_operations loop_module) loop_adj"

lemma loop_run:
  "loop_step \<lparr>value_states = [(Any, IfcTags {} {})], worklist = [1]\<rparr> =
     Inr \<lparr>value_states = [(Any, IfcTags {} {}), (OperationResult 1 0, Bottom)], worklist = [1, 2]\<rparr>"
  "loop_step \<lparr>value_states = [(Any, IfcTags {} {}), (OperationResult 1 0, Bottom)], worklist = [1, 2]\<rparr> =
     Inr \<lparr>value_states = [(Any, IfcTags {} {}), (OperationResult 1 0, Bottom)], worklist = [2]\<rparr>"
  "loop_step \<lparr>value_states = [(Any, IfcTags {} {}), (OperationResult 1 0, Bottom)], worklist = [2]\<rparr> =
     Inr \<lparr>value_states = [(Any, IfcTags {} {}), (OperationResult 1 0, Bottom), (OperationResult 2 0, Bottom)],
       worklist = []\<rparr>"
  by (simp_all add: eval_loop)

section \<open>Properties\<close>

lemma checker_verdict:
  assumes "module_fits rules (snd m)" and "ssa_ordered (module_operations (snd m))"
    and "orders_ok ords" and "is_order ord"
  shows "\<exists>vs compliant. ComputeIfcTags ords ord rules m = Some (Inr vs) \<and>
    IsModulePolicyCompliant ords ord rules egress m = Some (Inr compliant) \<and>
    (compliant \<longleftrightarrow> (\<forall>x \<in> egress_inputs egress (module_operations (snd m)).
       \<exists>i. map_of vs x = Some (IfcTags {} i)))"
proof -
  let ?opers = "module_operations (snd m)"
  from taint.compute_fixpoint_solution [of "(ord, rules)" m ords] assms obtain vs
    where vs: "ComputeIfcTags ords ord rules m = Some (Inr vs)"
    and sol: "solution (taint_semantics ord rules) ?opers (map_of vs)"
    by (auto simp: ComputeIfcTags_def taint_semantics_def module_fits_def)
  have fit: "\<forall>oper \<in> set ?opers. rules_fit rules oper" using assms(1) by (simp add: module_fits_def)
  have state: "\<exists>s i. map_of vs x = Some (IfcTags s i)" if x: "x \<in> egress_inputs egress ?opers" for x
  proof -
    from x obtain oid oper where "(oid, oper) \<in> set ?opers" "x \<in> set (inputs oper)"
      by (auto simp: egress_inputs_def)
    then obtain k where "k < length ?opers" "x \<in> set (inputs (snd (?opers ! k)))"
      by (metis in_set_conv_nth snd_conv)
    with ssa_not_bottom [OF sol assms(4) fit assms(2)] obtain t where "map_of vs x = Some t" "t \<noteq> Bottom"
      by blast
    then show ?thesis by (cases t) auto
  qed
  have "(\<forall>t. map_of vs x = Some t \<longrightarrow> secrecy_of t = {}) \<longleftrightarrow> (\<exists>i. map_of vs x = Some (IfcTags {} i))"
    if x: "x \<in> egress_inputs egress ?opers" for x
    using state [OF x] by auto
  moreover have "\<not> (\<exists>x \<in> egress_inputs egress ?opers. map_of vs x = Some Bottom)"
    using state by fastforce
  ultimately show ?thesis using vs by (simp add: verdict_eq [OF vs] cong: ball_cong)
qed

text \<open>C9: On a module in definition order whose operations the rules fit, the checker always
  returns a verdict: it neither aborts nor loops, for any iteration orders of the hash
  containers. The verdict is compliance exactly when the state the analysis computed for every
  input of every egress operation has no secrecy tag.\<close>

theorem verdict_is_secrecy_freedom:
  assumes "module_fits rules (snd m)" and "ssa_ordered (module_operations (snd m))"
    and "orders_ok ords" and "is_order ord"
  shows "\<exists>vs compliant. ComputeIfcTags ords ord rules m = Some (Inr vs) \<and>
    IsModulePolicyCompliant ords ord rules egress m = Some (Inr compliant) \<and>
    (compliant \<longleftrightarrow> (\<forall>x \<in> egress_inputs egress (module_operations (snd m)).
       \<exists>i. map_of vs x = Some (IfcTags {} i)))"
  by (rule checker_verdict [OF assms])

definition straight_module :: ir_module where
  "straight_module = \<lparr>blocks = [(0, \<lparr>parent_module = Some 0, block_inputs = [], block_outputs = [],
     operations = [
       (1, make_operation (Some 0) (make_operator ''A'') [] [Any]),
       (2, make_operation (Some 0) (make_operator ''D'') [] [OperationResult 1 0]),
       (3, make_operation (Some 0) (make_operator ''E'') [] [OperationResult 2 0])],
     results = []\<rparr>)], named_storage_map = []\<rparr>"

definition straight_rules :: inference_rules where
  "straight_rules = \<lparr>rules_action_rules =
     [(''A'', [(0, [\<lparr>rule_conclusion = ModifyTag kAddSecrecy 1, rule_premises = []\<rparr>])])],
     rules_actions = [(1, ''A'')], rules_tags = [], rules_tag_names = []\<rparr>"

lemma straight_fits: "module_fits straight_rules straight_module"
  by (simp add: module_fits_def straight_module_def straight_rules_def module_operations_def
      rules_fit_def GetOutputRulesForOperation_def GetOutputRulesForAction_def make_operation_def
      make_operator_def rule_in_bounds_def NumberOfOutputs_def hm_wf_def)

lemma straight_ssa: "ssa_ordered (module_operations straight_module)"
  by (auto simp: ssa_ordered_def straight_module_def module_operations_def less_Suc_eq
      make_operation_def make_operator_def op_outputs_def NumberOfOutputs_def)

lemma straight_egress: "egress_inputs {''E''} (module_operations straight_module) = {OperationResult 2 0}"
  by (auto simp: egress_inputs_def straight_module_def module_operations_def make_operation_def
      make_operator_def)

theorem verdict_is_secrecy_freedom_witness:
  "\<exists>vs compliant. ComputeIfcTags (orders_of id) id straight_rules (0, straight_module) = Some (Inr vs) \<and>
     IsModulePolicyCompliant (orders_of id) id straight_rules {''E''} (0, straight_module) = Some (Inr compliant) \<and>
     (compliant \<longleftrightarrow> (\<exists>i. map_of vs (OperationResult 2 0) = Some (IfcTags {} i)))"
  using verdict_is_secrecy_freedom [of straight_rules "(0, straight_module)" "orders_of id" id "{''E''}"]
  by (simp add: straight_fits straight_ssa straight_egress orders_of_ok)

text \<open>C1: Compliance is sound for the flows the rules must let through: when the verdict is
  compliance, no value with a tag that some rule adds without premises, and that no later
  operation on the way removes, is an input of an egress operation. Operations without
  rules pass every secrecy tag on.\<close>

theorem compliant_means_not_tainted:
  assumes "module_fits rules (snd m)" and "ssa_ordered (module_operations (snd m))"
    and "orders_ok ords" and "is_order ord"
    and "IsModulePolicyCompliant ords ord rules egress m = Some (Inr True)"
    and "x \<in> egress_inputs egress (module_operations (snd m))"
  shows "\<not> tainted rules (module_operations (snd m)) t x"
proof
  let ?opers = "module_operations (snd m)"
  assume taint: "tainted rules ?opers t x"
  from taint.compute_fixpoint_solution [of "(ord, rules)" m ords] assms(1-4) obtain vs
    where vs: "ComputeIfcTags ords ord rules m = Some (Inr vs)"
    and sol: "solution (taint_semantics ord rules) ?opers (map_of vs)"
    by (auto simp: ComputeIfcTags_def taint_semantics_def module_fits_def)
  have fit: "\<forall>oper \<in> set ?opers. rules_fit rules oper" using assms(1) by (simp add: module_fits_def)
  from tainted_has_tag [OF sol assms(4) fit assms(2) taint] obtain y
    where "map_of vs x = Some y" "t \<in> secrecy_of y" by blast
  moreover from assms(5) have "\<forall>x \<in> egress_inputs egress ?opers. \<forall>t. map_of vs x = Some t \<longrightarrow> secrecy_of t = {}"
    by (auto simp: verdict_eq [OF vs] split: if_splits)
  ultimately show False using assms(6) by blast
qed

lemma straight_tainted: "tainted straight_rules (module_operations straight_module) 1 (OperationResult 2 0)"
proof -
  have "tainted straight_rules (module_operations straight_module) 1 (OperationResult 1 0)"
    by (rule tainted.intros [where T = "{}" and oper = "make_operation (Some 0) (make_operator ''A'') [] [Any]"])
      (simp_all add: straight_module_def straight_rules_def module_operations_def make_operation_def
        make_operator_def NumberOfOutputs_def must_carry_def must_carry_step_def rules_for_def
        GetOutputRulesForOperation_def GetOutputRulesForAction_def)
  then show ?thesis
    by (intro tainted.intros [where T = "{0}" and
          oper = "make_operation (Some 0) (make_operator ''D'') [] [OperationResult 1 0]"])
      (simp_all add: straight_module_def straight_rules_def module_operations_def make_operation_def
        make_operator_def NumberOfOutputs_def must_carry_def must_carry_step_def rules_for_def
        GetOutputRulesForOperation_def GetOutputRulesForAction_def)
qed

lemma straight_input_verdict:
  "IsModulePolicyCompliant (orders_of id) id straight_rules {''A''} (0, straight_module) = Some (Inr True)"
proof -
  let ?opers = "module_operations straight_module"
  from taint.compute_fixpoint_solution [of "(id, straight_rules)" "(0, straight_module)" "orders_of id"]
    straight_fits orders_of_ok obtain vs
    where vs: "ComputeIfcTags (orders_of id) id straight_rules (0, straight_module) = Some (Inr vs)"
    and sol: "solution (taint_semantics id straight_rules) ?opers (map_of vs)"
    by (auto simp: ComputeIfcTags_def taint_semantics_def module_fits_def)
  have "map_of vs Any = Some (IfcTags {} {})"
    by (rule solution_initial [OF sol, of "(1, make_operation (Some 0) (make_operator ''A'') [] [Any])"])
      (simp_all add: straight_module_def module_operations_def make_operation_def)
  moreover have "egress_inputs {''A''} ?opers = {Any}"
    by (auto simp: egress_inputs_def straight_module_def module_operations_def make_operation_def
        make_operator_def)
  ultimately show ?thesis by (simp add: verdict_eq [OF vs])
qed

theorem compliant_means_not_tainted_witness:
  "IsModulePolicyCompliant (orders_of id) id straight_rules {''A''} (0, straight_module) = Some (Inr True) \<and>
   \<not> tainted straight_rules (module_operations straight_module) 1 Any \<and>
   IsModulePolicyCompliant (orders_of id) id straight_rules {''E''} (0, straight_module) \<noteq> Some (Inr True)"
proof (intro conjI)
  have "Any \<in> egress_inputs {''A''} (module_operations straight_module)"
    by (auto simp: egress_inputs_def straight_module_def module_operations_def make_operation_def
        make_operator_def)
  with compliant_means_not_tainted [of straight_rules "(0, straight_module)" "orders_of id" id "{''A''}" Any]
  show "\<not> tainted straight_rules (module_operations straight_module) 1 Any"
    by (simp add: straight_fits straight_ssa orders_of_ok straight_input_verdict)
  show "IsModulePolicyCompliant (orders_of id) id straight_rules {''E''} (0, straight_module) \<noteq> Some (Inr True)"
    using compliant_means_not_tainted [of straight_rules "(0, straight_module)" "orders_of id" id "{''E''}"
        "OperationResult 2 0" 1] straight_tainted
    by (auto simp: straight_fits straight_ssa orders_of_ok straight_egress)
qed (rule straight_input_verdict)

text \<open>Without definition order the checker can abort: an integrity merge that takes part in
  a loop never leaves \<^verbatim>\<open>Bottom\<close>, and the checker's \<^verbatim>\<open>HasNoSecrecy\<close> fails its \<^verbatim>\<open>CHECK\<close> on the
  \<^verbatim>\<open>Bottom\<close> state of the egress input, although no secrecy tag exists at all.\<close>

theorem checker_aborts_on_merge_loop:
  "module_fits loop_rules loop_module \<and> rule_tags loop_rules = {} \<and>
   IsModulePolicyCompliant (orders_of id) id loop_rules {''E''} (0, loop_module) =
     Some (Inl (Check_failed ''Cannot check secrecy for bottom.''))"
proof (intro conjI)
  show "module_fits loop_rules loop_module"
    by (simp add: module_fits_def loop_module_def loop_rules_def module_operations_def
        rules_fit_def GetOutputRulesForOperation_def GetOutputRulesForAction_def make_operation_def
        make_operator_def rule_in_bounds_def NumberOfOutputs_def hm_wf_def)
  show "rule_tags loop_rules = {}" by (simp add: rule_tags_def loop_rules_def)
  have "ComputeIfcTags (orders_of id) id loop_rules (0, loop_module) =
      Some (Inr [(Any, IfcTags {} {}), (OperationResult 1 0, Bottom), (OperationResult 2 0, Bottom)])"
    by (simp add: ComputeIfcTags_def ComputeFixpoint_def Let_def loop_adj loop_init while_running
        loop_run del: One_nat_def)
  moreover have "egress_inputs {''E''} (module_operations loop_module) = {OperationResult 1 0}"
    by (auto simp: egress_inputs_def loop_module_def module_operations_def make_operation_def
        make_operator_def)
  ultimately show "IsModulePolicyCompliant (orders_of id) id loop_rules {''E''} (0, loop_module) =
     Some (Inl (Check_failed ''Cannot check secrecy for bottom.''))"
    by (simp add: verdict_eq)
qed

end
