(* ===== verification/Sql_Decode.thy ===== *)
theory Sql_Decode imports
  Sql_Ops
  Policy_Check
begin

text \<open>
  The decoder of SQL expressions: \<^verbatim>\<open>src/frontends/sql/decode.cc\<close>, \<^verbatim>\<open>decoder_context.h\<close> and
  \<^verbatim>\<open>decoder_context.cc\<close>. An \<^verbatim>\<open>ExpressionArena\<close> is a list of expressions with ids that refer to
  earlier ones; each becomes a storage or an operation of the one top level block.

  The state is \<^verbatim>\<open>DecoderContext\<close>, with the next unused address for what it allocates. The
  operators it keeps references to are those of its IR context.
\<close>

section \<open>The expressions\<close>

datatype expression =
    EXPR_VARIANT_NOT_SET
  | SourceTableColumn string
  | Literal string
  | MergeOperation "nat list" "nat list"
  | TagTransform nat string "(string \<times> nat) list"

type_synonym id_expression_pair = "nat \<times> expression"

section \<open>The decoder context\<close>

record decoder_context =
  dc_ir_context :: ir_context
  id_to_value :: "(nat, ir_value) hash_map"
  global_module :: ir_module
  top_level_block_builder :: block_builder
  next_address :: nat

definition kDefaultOutputIndex :: nat where
  "kDefaultOutputIndex = 0"

definition new_decoder_context :: "ir_context \<Rightarrow> block_id \<Rightarrow> nat \<Rightarrow> decoder_context result" where
  "new_decoder_context c block_addr addr =
     rbind (SqlOp_RegisterOperator kLiteralOp c) (\<lambda>c.
     rbind (SqlOp_RegisterOperator kMergeOp c) (\<lambda>c.
     rbind (SqlOp_RegisterOperator kTagTransformOp c) (\<lambda>c.
     rbind (SqlOp_RegisterOperator kSqlOutputOp c) (\<lambda>c.
     Inr \<lparr>dc_ir_context = c, id_to_value = [], global_module = empty_module,
          top_level_block_builder = new_builder block_addr, next_address = addr\<rparr>))))"

definition WrapOperationResultValue :: "op_id \<times> operation \<Rightarrow> ir_value" where
  "WrapOperationResultValue oper = OperationResult (fst oper) kDefaultOutputIndex"

definition RegisterValue :: "nat \<Rightarrow> ir_value \<Rightarrow> decoder_context \<Rightarrow> decoder_context result" where
  "RegisterValue i v dc =
     (let (m, inserted) = hm_insert i v (id_to_value dc)
      in rbind (check inserted ''id_to_value map has more than one value associated with the id'')
           (\<lambda>_. Inr (dc\<lparr>id_to_value := m\<rparr>)))"

definition GetValue :: "nat \<Rightarrow> decoder_context \<Rightarrow> ir_value result" where
  "GetValue i dc =
     rbind (check (i \<noteq> 0) ''Attempt to get a value with id 0, which is not a legal value id.'') (\<lambda>_.
     check_some (map_of (id_to_value dc) i) ''Could not find a value with id'')"

definition GetOrCreateStorage ::
  "string \<Rightarrow> decoder_context \<Rightarrow> ((storage_id \<times> storage) \<times> decoder_context) result" where
  "GetOrCreateStorage name dc =
     (let c = dc_ir_context dc in
      if IsRegisteredStorage name c
      then rbind (check_some (GetStorage name c) ''GetStorage(storage_name)'') (\<lambda>s. Inr (s, dc))
      else let s = (next_address dc, make_storage name (MakePrimitiveType (type_factory c)))
           in rbind (RegisterStorage s c) (\<lambda>c'.
              Inr (s, dc\<lparr>dc_ir_context := c', next_address := next_address dc + 1\<rparr>)))"

text \<open>\<^verbatim>\<open>top_level_block_builder_.AddOperation<T>(ir_context_, args)\<close>: \<open>create\<close> is \<^verbatim>\<open>T::Create\<close>
  with its arguments.\<close>

definition add_top_level_operation ::
  "(block_id option \<Rightarrow> ir_context \<Rightarrow> operation result) \<Rightarrow> decoder_context
     \<Rightarrow> ((op_id \<times> operation) \<times> decoder_context) result" where
  "add_top_level_operation create dc =
     rbind (Builder_AddOperation_T (\<lambda>blk.
         rbind (create (Some blk) (dc_ir_context dc)) (\<lambda>oper. Inr (next_address dc, oper)))
       (top_level_block_builder dc)) (\<lambda>(oper, b).
     Inr (oper, dc\<lparr>top_level_block_builder := b, next_address := next_address dc + 1\<rparr>))"

definition MakeLiteralOperation ::
  "string \<Rightarrow> decoder_context \<Rightarrow> ((op_id \<times> operation) \<times> decoder_context) result" where
  "MakeLiteralOperation literal_str dc =
     add_top_level_operation (\<lambda>blk c. LiteralOp_Create blk c literal_str) dc"

definition MakeMergeOperation ::
  "nat list \<Rightarrow> nat list \<Rightarrow> decoder_context \<Rightarrow> ((op_id \<times> operation) \<times> decoder_context) result" where
  "MakeMergeOperation direct_input_ids control_input_ids dc =
     rbind (map_result (\<lambda>i. GetValue i dc) direct_input_ids) (\<lambda>direct_inputs.
     rbind (map_result (\<lambda>i. GetValue i dc) control_input_ids) (\<lambda>control_inputs.
     add_top_level_operation (\<lambda>blk c. MergeOp_Create blk c direct_inputs control_inputs) dc))"

type_synonym precondition_order = "(string \<times> nat) list \<Rightarrow> (string \<times> nat) list"

definition MakeTagTransformOperation ::
  "precondition_order \<Rightarrow> nat \<Rightarrow> string \<Rightarrow> (string, nat) hash_map \<Rightarrow> decoder_context
     \<Rightarrow> ((op_id \<times> operation) \<times> decoder_context) result" where
  "MakeTagTransformOperation ord transformed_value_id rule_name tag_preconditions dc =
     rbind (map_result (\<lambda>(name, i). rbind (GetValue i dc) (\<lambda>v. Inr (name, v))) (ord tag_preconditions))
       (\<lambda>precondition_value_pairs.
     rbind (GetValue transformed_value_id dc) (\<lambda>v.
     add_top_level_operation
       (\<lambda>blk c. TagTransformOp_Create blk c rule_name v precondition_value_pairs) dc))"

definition MakeSqlOutputOperation ::
  "ir_value \<Rightarrow> decoder_context \<Rightarrow> ((op_id \<times> operation) \<times> decoder_context) result" where
  "MakeSqlOutputOperation v dc = add_top_level_operation (\<lambda>blk c. SqlOutputOp_Create blk c v) dc"

definition BuildTopLevelBlock ::
  "module_id \<Rightarrow> decoder_context \<Rightarrow> decoder_context result" where
  "BuildTopLevelBlock this dc =
     rbind (build (top_level_block_builder dc)) (\<lambda>(blk, b).
     rbind (AddBlock this blk (global_module dc)) (\<lambda>m.
     Inr (dc\<lparr>top_level_block_builder := b, global_module := m\<rparr>)))"

section \<open>Decoding\<close>

definition DecodeSourceTableColumn :: "string \<Rightarrow> decoder_context \<Rightarrow> (ir_value \<times> decoder_context) result" where
  "DecodeSourceTableColumn column_path dc =
     rbind (check (column_path \<noteq> []) ''Required field column_path was empty.'') (\<lambda>_.
     rbind (GetOrCreateStorage column_path dc) (\<lambda>(s, dc). Inr (StoredValue (fst s), dc)))"

definition DecodeLiteral :: "string \<Rightarrow> decoder_context \<Rightarrow> (ir_value \<times> decoder_context) result" where
  "DecodeLiteral literal_str dc =
     rbind (check (literal_str \<noteq> []) ''required field literal_str was empty.'') (\<lambda>_.
     rbind (MakeLiteralOperation literal_str dc) (\<lambda>(oper, dc). Inr (WrapOperationResultValue oper, dc)))"

definition DecodeMergeOperation ::
  "nat list \<Rightarrow> nat list \<Rightarrow> decoder_context \<Rightarrow> (ir_value \<times> decoder_context) result" where
  "DecodeMergeOperation ins control_inputs dc =
     rbind (check (1 \<le> length ins)
       ''Each MergeOperation is expected to have at least one non-control input.'') (\<lambda>_.
     rbind (MakeMergeOperation ins control_inputs dc) (\<lambda>(oper, dc).
     Inr (WrapOperationResultValue oper, dc)))"

text \<open>The constructor of \<^verbatim>\<open>flat_hash_map\<close> from a range inserts the pairs one by one.\<close>

definition to_flat_hash_map :: "('k \<times> 'v) list \<Rightarrow> ('k, 'v) hash_map" where
  "to_flat_hash_map ps = fold (\<lambda>(k, v) m. fst (hm_insert k v m)) ps []"

definition DecodeTagTransform ::
  "precondition_order \<Rightarrow> nat \<Rightarrow> string \<Rightarrow> (string \<times> nat) list \<Rightarrow> decoder_context
     \<Rightarrow> (ir_value \<times> decoder_context) result" where
  "DecodeTagTransform ord transformed_node transform_rule_name tag_preconditions dc =
     rbind (check (transformed_node \<noteq> 0)
       ''Required TagTransform field transformed_node not present.'') (\<lambda>_.
     rbind (check (transform_rule_name \<noteq> [])
       ''Required TagTransform field transform_rule_name not present.'') (\<lambda>_.
     rbind (MakeTagTransformOperation ord transformed_node transform_rule_name
              (to_flat_hash_map tag_preconditions) dc) (\<lambda>(oper, dc).
     Inr (WrapOperationResultValue oper, dc))))"

fun DecodeExpression ::
  "precondition_order \<Rightarrow> expression \<Rightarrow> decoder_context \<Rightarrow> (ir_value \<times> decoder_context) result" where
  "DecodeExpression ord EXPR_VARIANT_NOT_SET dc =
     Inl (Check_failed ''Required field expr_variant not set.'')"
| "DecodeExpression ord (SourceTableColumn p) dc = DecodeSourceTableColumn p dc"
| "DecodeExpression ord (Literal l) dc = DecodeLiteral l dc"
| "DecodeExpression ord (MergeOperation xs cs) dc = DecodeMergeOperation xs cs dc"
| "DecodeExpression ord (TagTransform n r ps) dc = DecodeTagTransform ord n r ps dc"

definition decode_pair ::
  "precondition_order \<Rightarrow> id_expression_pair \<Rightarrow> ir_value option \<times> decoder_context
     \<Rightarrow> (ir_value option \<times> decoder_context) result" where
  "decode_pair ord p st =
     rbind (DecodeExpression ord (snd p) (snd st)) (\<lambda>(v, dc).
     rbind (RegisterValue (fst p) v dc) (\<lambda>dc. Inr (Some v, dc)))"

definition DecodeExpressionArena ::
  "precondition_order \<Rightarrow> id_expression_pair list \<Rightarrow> decoder_context
     \<Rightarrow> (ir_value \<times> decoder_context) result" where
  "DecodeExpressionArena ord id_expression_pairs dc =
     rbind (fold_result (decode_pair ord) id_expression_pairs (None, dc)) (\<lambda>(top_level_value, dc).
     rbind (check_some top_level_value
       ''Expected at least one expression to be provided in the ExpressionArena.'') (\<lambda>v.
     rbind (MakeSqlOutputOperation v dc) (\<lambda>(oper, dc). Inr (WrapOperationResultValue oper, dc))))"

section \<open>The state between expressions\<close>

definition sql_op_kinds :: "string list" where
  "sql_op_kinds = [kLiteralOp, kMergeOp, kTagTransformOp, kSqlOutputOp]"

text \<open>What \<^verbatim>\<open>Create\<close> guarantees of the attributes of a merge and of a tag transform.\<close>

definition sql_shape :: "operation \<Rightarrow> bool" where
  "sql_shape oper \<longleftrightarrow> op_of oper = make_operator (op_name (op_of oper)) \<and>
     (op_name (op_of oper) \<noteq> kTagTransformOp \<longrightarrow> length (attributes oper) \<le> 1) \<and>
     (op_name (op_of oper) = kMergeOp \<longrightarrow> (\<exists>direct control. inputs oper = direct @ control \<and>
        attributes oper = [(kControlInputStartIndex, Int64Attribute (int (length direct)))])) \<and>
     (op_name (op_of oper) = kTagTransformOp \<longrightarrow> (\<exists>rule_name v ps. distinct (map fst ps) \<and>
        kRuleNameAttribute \<notin> fst ` set ps \<and>
        oper = tag_transform_operation (parent oper) (op_of oper) rule_name v ps))"

definition value_ready :: "(op_id \<times> operation) list \<Rightarrow> ir_value \<Rightarrow> bool" where
  "value_ready opers v \<longleftrightarrow> (case v of
     OperationResult _ _ \<Rightarrow> \<exists>oper \<in> set opers. v \<in> op_outputs oper
   | StoredValue _ \<Rightarrow> True
   | _ \<Rightarrow> False)"

definition block_ready :: "nat \<Rightarrow> (op_id \<times> operation) list \<Rightarrow> bool" where
  "block_ready fresh opers \<longleftrightarrow> distinct (map fst opers) \<and> ssa_ordered opers \<and>
     (\<forall>oper \<in> set opers. fst oper < fresh \<and> sql_shape (snd oper))"

definition dc_operations :: "decoder_context \<Rightarrow> (op_id \<times> operation) list" where
  "dc_operations dc = (case builder_block (top_level_block_builder dc) of
     None \<Rightarrow> [] | Some (_, blk) \<Rightarrow> operations blk)"

definition dc_inv :: "decoder_context \<Rightarrow> bool" where
  "dc_inv dc \<longleftrightarrow> (\<forall>k \<in> set sql_op_kinds. GetOperator k (dc_ir_context dc) = Some (make_operator k)) \<and>
     (\<exists>addr blk. top_level_block_builder dc = put_block addr blk \<and> parent_module blk = None) \<and>
     global_module dc = empty_module \<and> block_ready (next_address dc) (dc_operations dc) \<and>
     (\<forall>i v. map_of (id_to_value dc) i = Some v \<longrightarrow> value_ready (dc_operations dc) v)"

lemma dc_invI:
  assumes "\<And>k. k \<in> set sql_op_kinds \<Longrightarrow> GetOperator k (dc_ir_context dc) = Some (make_operator k)"
    and "top_level_block_builder dc = put_block addr blk" and "parent_module blk = None"
    and "global_module dc = empty_module" and "block_ready (next_address dc) (dc_operations dc)"
    and "\<And>i v. map_of (id_to_value dc) i = Some v \<Longrightarrow> value_ready (dc_operations dc) v"
  shows "dc_inv dc"
  using assms by (auto simp: dc_inv_def)

lemma ssa_ordered_snoc:
  assumes "ssa_ordered opers"
    and "\<And>v. v \<in> set (inputs (snd oper)) \<Longrightarrow> is_operation_result v \<Longrightarrow> \<exists>o' \<in> set opers. v \<in> op_outputs o'"
  shows "ssa_ordered (opers @ [oper])"
  unfolding ssa_ordered_def
proof (intro allI ballI impI)
  fix k v
  assume k: "k < length (opers @ [oper])" and v: "v \<in> set (inputs (snd ((opers @ [oper]) ! k)))"
    and res: "is_operation_result v"
  show "\<exists>j < k. v \<in> op_outputs ((opers @ [oper]) ! j)"
  proof (cases "k < length opers")
    case True
    then have "v \<in> set (inputs (snd (opers ! k)))" using v by (simp add: nth_append)
    with assms(1) True res obtain j where "j < k" "v \<in> op_outputs (opers ! j)"
      unfolding ssa_ordered_def by blast
    with True show ?thesis by (intro exI [of _ j]) (simp add: nth_append)
  next
    case False
    with k v have "k = length opers" "v \<in> set (inputs (snd oper))" by (simp_all add: nth_append)
    with assms(2) res obtain j where "j < length opers" "v \<in> op_outputs (opers ! j)"
      by (metis in_set_conv_nth)
    with \<open>k = length opers\<close> show ?thesis by (intro exI [of _ j]) (simp add: nth_append)
  qed
qed

lemma value_ready_mono: "value_ready opers v \<Longrightarrow> set opers \<subseteq> set opers' \<Longrightarrow> value_ready opers' v"
  by (auto simp: value_ready_def split: "ir_value.splits")

lemma block_ready_snoc:
  assumes "block_ready n opers" and "\<forall>v \<in> set (inputs oper). value_ready opers v" and "sql_shape oper"
  shows "block_ready (Suc n) (opers @ [(n, oper)])"
proof -
  have "ssa_ordered (opers @ [(n, oper)])"
  proof (rule ssa_ordered_snoc)
    fix v
    assume "v \<in> set (inputs (snd (n, oper)))" "is_operation_result v"
    with assms(2) show "\<exists>o' \<in> set opers. v \<in> op_outputs o'"
      by (cases v) (auto simp: value_ready_def)
  qed (use assms(1) in \<open>simp add: block_ready_def\<close>)
  with assms(1,3) show ?thesis
    by (auto simp: block_ready_def less_Suc_eq)
qed

text \<open>Adding one operation whose operands are there.\<close>

lemma add_top_level_operation_ok:
  assumes inv: "dc_inv dc" and builder: "top_level_block_builder dc = put_block addr blk"
    and oper: "create (Some addr) (dc_ir_context dc) = Inr oper" "parent oper = Some addr" "sql_shape oper"
    and ins: "\<forall>v \<in> set (inputs oper). value_ready (dc_operations dc) v"
  shows "\<exists>dc'. add_top_level_operation create dc = Inr ((next_address dc, oper), dc') \<and> dc_inv dc' \<and>
    id_to_value dc' = id_to_value dc \<and> dc_operations dc' = dc_operations dc @ [(next_address dc, oper)] \<and>
    value_ready (dc_operations dc') (WrapOperationResultValue (next_address dc, oper))"
proof -
  let ?dc = "dc\<lparr>top_level_block_builder := put_block addr (blk\<lparr>operations := operations blk @
      [(next_address dc, oper)]\<rparr>), next_address := next_address dc + 1\<rparr>"
  have ops: "dc_operations dc = operations blk" "dc_operations ?dc = operations blk @ [(next_address dc, oper)]"
    by (simp_all add: dc_operations_def builder put_block_def)
  have add: "add_top_level_operation create dc = Inr ((next_address dc, oper), ?dc)"
    by (simp add: add_top_level_operation_def Builder_AddOperation_T_def unbuilt_def builder put_block_def oper)
  have "block_ready (next_address ?dc) (dc_operations ?dc)"
    using block_ready_snoc [OF _ ins oper(3)] inv ops by (simp add: dc_inv_def)
  moreover have "value_ready (dc_operations ?dc) v" if "map_of (id_to_value dc) i = Some v" for i v
    using inv that value_ready_mono [of "dc_operations dc" v "dc_operations ?dc"] ops
    by (auto simp: dc_inv_def)
  moreover have "parent_module blk = None"
    using inv builder by (auto simp: dc_inv_def put_block_def)
  ultimately have "dc_inv ?dc"
    using inv by (intro dc_invI [where addr = addr and blk = "blk\<lparr>operations := operations blk @
      [(next_address dc, oper)]\<rparr>"]) (simp_all add: dc_inv_def)
  moreover have "number_of_return_values (op_of oper) = 1"
    using oper(3) by (metis make_operator_def operator.select_convs(2) sql_shape_def)
  then have "value_ready (dc_operations ?dc) (WrapOperationResultValue (next_address dc, oper))"
    unfolding ops(2)
    by (simp add: value_ready_def WrapOperationResultValue_def op_outputs_def kDefaultOutputIndex_def NumberOfOutputs_def)
  moreover have "id_to_value ?dc = id_to_value dc" by simp
  ultimately show ?thesis unfolding ops(1) using add ops(2)
    by (intro exI [of _ ?dc] conjI) assumption+
qed

text \<open>The values of a context can be looked up under their ids.\<close>

lemma GetValue_ok:
  assumes "dc_inv dc" and "i \<noteq> 0" and "i \<in> fst ` set (id_to_value dc)"
  shows "\<exists>v. GetValue i dc = Inr v \<and> value_ready (dc_operations dc) v"
proof -
  from assms(3) obtain v where "map_of (id_to_value dc) i = Some v"
    by (metis map_of_eq_None_iff not_None_eq)
  with assms(1,2) show ?thesis by (auto simp: GetValue_def dc_inv_def)
qed

lemma GetValue_Inr: "GetValue i dc = Inr v \<Longrightarrow> i \<noteq> 0 \<and> i \<in> fst ` set (id_to_value dc)"
  using map_of_eq_None_iff [of "id_to_value dc" i] by (auto simp: GetValue_def)

lemma dc_inv_builder:
  assumes "dc_inv dc"
  obtains addr blk where "top_level_block_builder dc = put_block addr blk"
  using assms by (auto simp: dc_inv_def)

lemma dc_inv_operator:
  "dc_inv dc \<Longrightarrow> k \<in> set sql_op_kinds \<Longrightarrow> GetOperator k (dc_ir_context dc) = Some (make_operator k)"
  by (simp add: dc_inv_def)

lemma GetOrCreateStorage_ok:
  assumes "dc_inv dc"
  shows "\<exists>s dc'. GetOrCreateStorage name dc = Inr (s, dc') \<and> dc_inv dc' \<and>
    id_to_value dc' = id_to_value dc \<and> dc_operations dc' = dc_operations dc \<and>
    GetStorage name (dc_ir_context dc') = Some s"
proof (cases "GetStorage name (dc_ir_context dc)")
  case (Some s)
  with assms show ?thesis
    by (intro exI [of _ s] exI [of _ dc])
      (simp add: GetOrCreateStorage_def IsRegisteredStorage_def IsRegisteredNode_def GetStorage_def GetNode_def)
next
  case None
  let ?s = "(next_address dc, make_storage name (MakePrimitiveType (type_factory (dc_ir_context dc))))"
  from None obtain c' where c': "RegisterStorage ?s (dc_ir_context dc) = Inr c'"
    using storage_registry.register_ok [of ?s "dc_ir_context dc"] by (auto simp: make_storage_def is_ok_iff)
  let ?dc = "dc\<lparr>dc_ir_context := c', next_address := next_address dc + 1\<rparr>"
  have "GetOperator k c' = GetOperator k (dc_ir_context dc)" for k
    using c' by (auto simp: RegisterStorage_def GetOperator_def)
  moreover have "dc_operations ?dc = dc_operations dc" by (simp add: dc_operations_def)
  moreover have "block_ready (Suc n) opers" if "block_ready n opers" for n opers
    using that by (auto simp: block_ready_def less_Suc_eq)
  ultimately have "dc_inv ?dc" using assms by (simp add: dc_inv_def)
  moreover have "GetStorage name c' = Some ?s"
    using storage_registry.lookup_register [OF c', of name] by (simp add: make_storage_def)
  ultimately show ?thesis using None c' \<open>dc_operations ?dc = dc_operations dc\<close>
    by (intro exI [of _ ?s] exI [of _ ?dc])
      (simp add: GetOrCreateStorage_def IsRegisteredStorage_def IsRegisteredNode_def GetStorage_def
        GetNode_def Let_def)
qed

section \<open>Which arenas decode\<close>

definition ref_ok :: "nat list \<Rightarrow> nat \<Rightarrow> bool" where
  "ref_ok known i \<longleftrightarrow> i \<noteq> 0 \<and> i \<in> set known"

fun expression_ok :: "nat list \<Rightarrow> expression \<Rightarrow> bool" where
  "expression_ok known EXPR_VARIANT_NOT_SET \<longleftrightarrow> False"
| "expression_ok known (SourceTableColumn p) \<longleftrightarrow> p \<noteq> []"
| "expression_ok known (Literal l) \<longleftrightarrow> l \<noteq> []"
| "expression_ok known (MergeOperation xs cs) \<longleftrightarrow>
     xs \<noteq> [] \<and> list_all (ref_ok known) xs \<and> list_all (ref_ok known) cs \<and> int (length xs) < int64_max"
| "expression_ok known (TagTransform n r ps) \<longleftrightarrow>
     ref_ok known n \<and> r \<noteq> [] \<and> list_all (\<lambda>(name, i). ref_ok known i) (to_flat_hash_map ps) \<and>
     kRuleNameAttribute \<notin> fst ` set ps \<and> int (length (to_flat_hash_map ps)) < int64_max"

text \<open>Each expression is fine and its id is new.\<close>

fun pairs_ok :: "nat list \<Rightarrow> id_expression_pair list \<Rightarrow> bool" where
  "pairs_ok known [] \<longleftrightarrow> True"
| "pairs_ok known ((i, e) # ps) \<longleftrightarrow> expression_ok known e \<and> i \<notin> set known \<and> pairs_ok (known @ [i]) ps"

definition arena_ok :: "id_expression_pair list \<Rightarrow> bool" where
  "arena_ok pairs \<longleftrightarrow> pairs \<noteq> [] \<and> pairs_ok [] pairs"

definition decoded ::
  "decoder_context \<Rightarrow> ir_value \<Rightarrow> decoder_context \<Rightarrow> bool" where
  "decoded dc v dc' \<longleftrightarrow> dc_inv dc' \<and> id_to_value dc' = id_to_value dc \<and> value_ready (dc_operations dc') v \<and>
     set (dc_operations dc) \<subseteq> set (dc_operations dc')"

abbreviation known_ids :: "decoder_context \<Rightarrow> nat list" where
  "known_ids dc \<equiv> map fst (id_to_value dc)"

lemma map_GetValue_ok:
  assumes "dc_inv dc" and "list_all (ref_ok (known_ids dc)) xs"
  shows "\<exists>vs. map_result (\<lambda>i. GetValue i dc) xs = Inr vs \<and> length vs = length xs \<and>
    (\<forall>v \<in> set vs. value_ready (dc_operations dc) v)"
proof -
  have get: "\<exists>v. GetValue i dc = Inr v \<and> value_ready (dc_operations dc) v" if "i \<in> set xs" for i
    using GetValue_ok [OF assms(1), of i] assms(2) that by (simp add: list_all_iff ref_ok_def)
  then obtain vs where vs: "map_result (\<lambda>i. GetValue i dc) xs = Inr vs"
    using map_result_ok [of xs "\<lambda>i. GetValue i dc"] by blast
  moreover have "value_ready (dc_operations dc) v" if "v \<in> set vs" for v
    using map_result_set [OF vs that] get by fastforce
  ultimately show ?thesis using map_result_length [OF vs] by blast
qed

lemma map_GetValue_fails:
  assumes "map_result (\<lambda>i. GetValue i dc) xs = Inr vs"
  shows "list_all (ref_ok (known_ids dc)) xs"
  unfolding list_all_length
proof (intro allI impI)
  fix n
  assume "n < length xs"
  with map_result_nth [OF assms] have "GetValue (xs ! n) dc = Inr (vs ! n)" by blast
  then show "ref_ok (known_ids dc) (xs ! n)" by (simp add: ref_ok_def GetValue_Inr)
qed

lemma set_to_flat_hash_map: "fst ` set (to_flat_hash_map ps) = fst ` set ps"
proof -
  have "fst ` set (fold (\<lambda>(k, v) m. fst (hm_insert k v m)) ps m) = fst ` set m \<union> fst ` set ps" for m
  proof (induction ps arbitrary: m)
    case (Cons p ps)
    show ?case by (cases p) (simp add: Cons.IH keys_hm_insert)
  qed simp
  from this [of "[]"] show ?thesis by (simp add: to_flat_hash_map_def)
qed

lemma hm_wf_to_flat_hash_map: "hm_wf (to_flat_hash_map ps)"
proof -
  have "hm_wf m \<Longrightarrow> hm_wf (fold (\<lambda>(k, v) m. fst (hm_insert k v m)) ps m)" for m
    by (induction ps arbitrary: m) auto
  then show ?thesis by (simp add: to_flat_hash_map_def)
qed

lemma decoded_add_operation:
  assumes "dc_inv dc" and "\<And>addr. create (Some addr) (dc_ir_context dc) = Inr (oper addr)"
    and "\<And>addr. parent (oper addr) = Some addr" and "\<And>addr. sql_shape (oper addr)"
    and "\<And>addr. \<forall>v \<in> set (inputs (oper addr)). value_ready (dc_operations dc) v"
  shows "\<exists>r dc'. add_top_level_operation create dc = Inr (r, dc') \<and>
    decoded dc (WrapOperationResultValue r) dc' \<and>
    dc_operations dc' = dc_operations dc @ [r] \<and> (\<exists>addr. snd r = oper addr)"
proof -
  from assms(1) obtain addr blk where "top_level_block_builder dc = put_block addr blk"
    by (rule dc_inv_builder)
  from add_top_level_operation_ok [OF assms(1) this, of create "oper addr"] assms(2-5) obtain dc'
    where "add_top_level_operation create dc = Inr ((next_address dc, oper addr), dc')" "dc_inv dc'"
      "id_to_value dc' = id_to_value dc" "dc_operations dc' = dc_operations dc @ [(next_address dc, oper addr)]"
      "value_ready (dc_operations dc') (WrapOperationResultValue (next_address dc, oper addr))" by blast
  then show ?thesis
    by (intro exI [of _ "(next_address dc, oper addr)"] exI [of _ dc']) (auto simp: decoded_def)
qed

lemma DecodeLiteral_ok:
  assumes "dc_inv dc" and "l \<noteq> []"
  shows "\<exists>v dc'. DecodeLiteral l dc = Inr (v, dc') \<and> decoded dc v dc'"
proof -
  have "\<exists>r dc'. MakeLiteralOperation l dc = Inr (r, dc') \<and> decoded dc (WrapOperationResultValue r) dc' \<and>
      dc_operations dc' = dc_operations dc @ [r] \<and> (\<exists>addr. snd r = make_operation (Some addr)
        (make_operator kLiteralOp) [(kLiteralStringAttrName, StringAttribute l)] [])"
    unfolding MakeLiteralOperation_def
    by (rule decoded_add_operation [OF assms(1)])
      (simp_all add: LiteralOp_Create_def sql_operator_def SqlOp_GetOperator_def sql_op_kinds_def
        dc_inv_operator [OF assms(1)] make_operation_def sql_shape_def make_operator_def sql_op_names)
  with assms(2) show ?thesis by (auto simp: DecodeLiteral_def)
qed

lemma MakeSqlOutputOperation_ok:
  assumes "dc_inv dc" and "value_ready (dc_operations dc) v"
  shows "\<exists>r dc'. MakeSqlOutputOperation v dc = Inr (r, dc') \<and> decoded dc (WrapOperationResultValue r) dc' \<and>
      dc_operations dc' = dc_operations dc @ [r] \<and> (\<exists>addr. snd r = make_operation (Some addr)
        (make_operator kSqlOutputOp) [] [v])"
  unfolding MakeSqlOutputOperation_def
  by (rule decoded_add_operation [OF assms(1)])
    (simp_all add: SqlOutputOp_Create_def sql_operator_def SqlOp_GetOperator_def sql_op_kinds_def
      dc_inv_operator [OF assms(1)] make_operation_def sql_shape_def make_operator_def sql_op_names assms(2))

lemma DecodeMergeOperation_ok:
  assumes inv: "dc_inv dc" and "expression_ok (known_ids dc) (MergeOperation xs cs)"
  shows "\<exists>v dc'. DecodeMergeOperation xs cs dc = Inr (v, dc') \<and> decoded dc v dc'"
proof -
  from assms(2) have refs: "list_all (ref_ok (known_ids dc)) xs" "list_all (ref_ok (known_ids dc)) cs"
    and xs: "xs \<noteq> []" "int (length xs) < int64_max" by simp_all
  from map_GetValue_ok [OF inv refs(1)] obtain ds where ds: "map_result (\<lambda>i. GetValue i dc) xs = Inr ds"
    "length ds = length xs" "\<forall>v \<in> set ds. value_ready (dc_operations dc) v" by blast
  from map_GetValue_ok [OF inv refs(2)] obtain es where es: "map_result (\<lambda>i. GetValue i dc) cs = Inr es"
    "\<forall>v \<in> set es. value_ready (dc_operations dc) v" by blast
  from xs ds(2) have "ds \<noteq> []" by auto
  then have "\<exists>r dc'. add_top_level_operation (\<lambda>blk c. MergeOp_Create blk c ds es) dc = Inr (r, dc') \<and>
      decoded dc (WrapOperationResultValue r) dc' \<and>
      dc_operations dc' = dc_operations dc @ [r] \<and> (\<exists>addr. snd r = make_operation (Some addr)
        (make_operator kMergeOp) [(kControlInputStartIndex, Int64Attribute (int (length ds)))] (ds @ es))"
    using ds es xs
    by (intro decoded_add_operation [OF inv])
      (auto simp: MergeOp_Create_eq dc_inv_operator [OF inv] sql_op_kinds_def
        make_operation_def sql_shape_def make_operator_def sql_op_names)
  then show ?thesis using xs(1) ds(1) es(1)
    by (cases xs) (auto simp: DecodeMergeOperation_def MakeMergeOperation_def)
qed

abbreviation get_pair :: "decoder_context \<Rightarrow> string \<times> nat \<Rightarrow> (string \<times> ir_value) result" where
  "get_pair dc \<equiv> \<lambda>(name, i). rbind (GetValue i dc) (\<lambda>v. Inr (name, v))"

lemma map_get_pair_ok:
  assumes "dc_inv dc" and "list_all (\<lambda>(name, i). ref_ok (known_ids dc) i) ps"
  shows "\<exists>vs. map_result (get_pair dc) ps = Inr vs \<and> map fst vs = map fst ps \<and>
    (\<forall>v \<in> snd ` set vs. value_ready (dc_operations dc) v)"
  using assms(2)
proof (induction ps)
  case (Cons p ps)
  obtain name i where p: "p = (name, i)" by (cases p)
  with Cons.prems GetValue_ok [OF assms(1), of i] obtain v
    where "GetValue i dc = Inr v" "value_ready (dc_operations dc) v" by (auto simp: ref_ok_def)
  moreover from Cons obtain vs where "map_result (get_pair dc) ps = Inr vs" "map fst vs = map fst ps"
    "\<forall>v \<in> snd ` set vs. value_ready (dc_operations dc) v" by auto
  ultimately show ?case by (intro exI [of _ "(name, v) # vs"]) (simp add: p)
qed simp

lemma map_get_pair_Inr:
  "map_result (get_pair dc) ps = Inr vs \<Longrightarrow>
     list_all (\<lambda>(name, i). ref_ok (known_ids dc) i) ps \<and> map fst vs = map fst ps"
  by (induction ps arbitrary: vs) (auto simp: ref_ok_def dest: GetValue_Inr)

lemma ordered_flat_hash_map:
  assumes "is_order ord"
  shows "distinct (map fst (ord (to_flat_hash_map ps)))"
    and "set (ord (to_flat_hash_map ps)) = set (to_flat_hash_map ps)"
    and "length (ord (to_flat_hash_map ps)) = length (to_flat_hash_map ps)"
  using hm_wf_to_flat_hash_map [of ps] assms
  by (auto simp: is_order_set is_order_length hm_wf_def)
    (metis is_order_def mset_eq_imp_distinct_iff mset_map)

lemma DecodeTagTransform_ok:
  assumes inv: "dc_inv dc" and ord: "is_order ord"
    and ok: "expression_ok (known_ids dc) (TagTransform n r ps)"
  shows "\<exists>v dc'. DecodeTagTransform ord n r ps dc = Inr (v, dc') \<and> decoded dc v dc'"
proof -
  let ?m = "ord (to_flat_hash_map ps)"
  from ok have n: "ref_ok (known_ids dc) n" "r \<noteq> []" "list_all (\<lambda>(name, i). ref_ok (known_ids dc) i) ?m"
    and ps: "kRuleNameAttribute \<notin> fst ` set ?m" "int (length ?m) < int64_max"
    by (simp_all add: ordered_flat_hash_map [OF ord] set_to_flat_hash_map list_all_iff)
  from map_get_pair_ok [OF inv n(3)] obtain vs where vs: "map_result (get_pair dc) ?m = Inr vs"
    "map fst vs = map fst ?m" "\<forall>v \<in> snd ` set vs. value_ready (dc_operations dc) v" by blast
  from n(1) GetValue_ok [OF inv] obtain w where w: "GetValue n dc = Inr w" "value_ready (dc_operations dc) w"
    by (auto simp: ref_ok_def)
  have keys: "distinct (map fst vs)" "kRuleNameAttribute \<notin> fst ` set vs" "length vs = length ?m"
    using vs(2) ps(1) ordered_flat_hash_map(1) [OF ord, of ps] map_result_length [OF vs(1)]
    by (simp_all flip: set_map)
  have "\<exists>x dc'. add_top_level_operation (\<lambda>blk c. TagTransformOp_Create blk c r w vs) dc = Inr (x, dc') \<and>
      decoded dc (WrapOperationResultValue x) dc' \<and> dc_operations dc' = dc_operations dc @ [x] \<and>
      (\<exists>addr. snd x = tag_transform_operation (Some addr) (make_operator kTagTransformOp) r w vs)"
    using keys ps(2) w(2) vs(3)
    by (intro decoded_add_operation [OF inv])
      (auto simp: TagTransformOp_Create_eq dc_inv_operator [OF inv] sql_op_kinds_def
        tag_transform_operation_def make_operation_def sql_shape_def make_operator_def sql_op_names)
  with n(1,2) vs(1) w(1) show ?thesis
    by (auto simp: DecodeTagTransform_def MakeTagTransformOperation_def ref_ok_def)
qed

lemma decode_expression_ok:
  assumes inv: "dc_inv dc" and ord: "is_order ord" and ok: "expression_ok (known_ids dc) e"
  shows "\<exists>v dc'. DecodeExpression ord e dc = Inr (v, dc') \<and> decoded dc v dc'"
proof (cases e)
  case EXPR_VARIANT_NOT_SET
  with ok show ?thesis by simp
next
  case (SourceTableColumn p)
  from GetOrCreateStorage_ok [OF inv, of p] obtain s dc' where "GetOrCreateStorage p dc = Inr (s, dc')"
    "dc_inv dc'" "id_to_value dc' = id_to_value dc" "dc_operations dc' = dc_operations dc" by blast
  with SourceTableColumn ok show ?thesis
    by (intro exI [of _ "StoredValue (fst s)"] exI [of _ dc'])
      (simp add: DecodeSourceTableColumn_def decoded_def value_ready_def)
next
  case (Literal l)
  with DecodeLiteral_ok [OF inv] ok show ?thesis by simp
next
  case (MergeOperation xs cs)
  with DecodeMergeOperation_ok [OF inv] ok show ?thesis by simp
next
  case (TagTransform n r ps)
  with DecodeTagTransform_ok [OF inv ord] ok show ?thesis by simp
qed

lemma add_top_level_operation_Inr:
  "add_top_level_operation create dc = Inr (x, dc') \<Longrightarrow>
     \<exists>blk oper. create (Some blk) (dc_ir_context dc) = Inr oper"
  by (auto simp: add_top_level_operation_def Builder_AddOperation_T_def split: prod.splits)

lemma decode_expression_fails:
  assumes ord: "is_order ord" and dec: "DecodeExpression ord e dc = Inr (v, dc')"
  shows "expression_ok (known_ids dc) e"
proof (cases e)
  case EXPR_VARIANT_NOT_SET
  with dec show ?thesis by simp
next
  case (SourceTableColumn p)
  with dec show ?thesis by (auto simp: DecodeSourceTableColumn_def)
next
  case (Literal l)
  with dec show ?thesis by (auto simp: DecodeLiteral_def)
next
  case (MergeOperation xs cs)
  with dec obtain ds es x dc'' where xs: "1 \<le> length xs" and ds: "map_result (\<lambda>i. GetValue i dc) xs = Inr ds"
    and es: "map_result (\<lambda>i. GetValue i dc) cs = Inr es"
    and add: "add_top_level_operation (\<lambda>blk c. MergeOp_Create blk c ds es) dc = Inr (x, dc'')"
    by (auto simp: DecodeMergeOperation_def MakeMergeOperation_def)
  from add_top_level_operation_Inr [OF add] have "int (length ds) < int64_max"
    by (auto simp: MergeOp_Create_eq)
  with MergeOperation xs map_GetValue_fails [OF ds] map_GetValue_fails [OF es] map_result_length [OF ds]
  show ?thesis by (cases xs) simp_all
next
  case (TagTransform n r ps)
  let ?m = "ord (to_flat_hash_map ps)"
  from TagTransform dec obtain vs w x dc'' where n: "n \<noteq> 0" "r \<noteq> []"
    and vs: "map_result (get_pair dc) ?m = Inr vs" and w: "GetValue n dc = Inr w"
    and add: "add_top_level_operation (\<lambda>blk c. TagTransformOp_Create blk c r w vs) dc = Inr (x, dc'')"
    by (auto simp: DecodeTagTransform_def MakeTagTransformOperation_def)
  from add_top_level_operation_Inr [OF add]
  have "int (length vs) < int64_max" "kRuleNameAttribute \<notin> set (map fst vs)"
    by (auto simp: TagTransformOp_Create_eq)
  moreover have "list_all (\<lambda>(name, i). ref_ok (known_ids dc) i) ?m" "set (map fst vs) = set (map fst ?m)"
    using map_get_pair_Inr [OF vs] by simp_all
  moreover have "ref_ok (known_ids dc) n" using n GetValue_Inr [OF w] by (simp add: ref_ok_def)
  ultimately show ?thesis using TagTransform n map_result_length [OF vs]
    by (simp add: ordered_flat_hash_map [OF ord] set_to_flat_hash_map list_all_iff)
qed

section \<open>The arena\<close>

lemma decode_pair_iff:
  assumes inv: "dc_inv dc" and ord: "is_order ord"
  shows "if expression_ok (known_ids dc) e \<and> i \<notin> set (known_ids dc)
    then \<exists>v dc'. decode_pair ord (i, e) (tv, dc) = Inr (Some v, dc') \<and> dc_inv dc' \<and>
      id_to_value dc' = id_to_value dc @ [(i, v)] \<and> value_ready (dc_operations dc') v \<and>
      set (dc_operations dc) \<subseteq> set (dc_operations dc')
    else \<not> is_ok (decode_pair ord (i, e) (tv, dc))"
proof (cases "expression_ok (known_ids dc) e")
  case False
  with decode_expression_fails [OF ord, of e dc] have "\<not> is_ok (DecodeExpression ord e dc)"
    by (auto simp: is_ok_iff)
  then show ?thesis using False by (cases "DecodeExpression ord e dc") (simp_all add: decode_pair_def)
next
  case True
  from decode_expression_ok [OF inv ord True] obtain v dc' where
    d: "DecodeExpression ord e dc = Inr (v, dc')" "decoded dc v dc'" by blast
  have fresh: "map_of (id_to_value dc') i = None \<longleftrightarrow> i \<notin> set (known_ids dc)"
    using d(2) by (simp add: decoded_def map_of_eq_None_iff)
  show ?thesis
  proof (cases "i \<in> set (known_ids dc)")
    case True
    then have "map_of (id_to_value dc') i \<noteq> None" using fresh by blast
    then have "\<not> is_ok (RegisterValue i v dc')" by (simp add: RegisterValue_def hm_insert_eq)
    then show ?thesis using True d(1) by (cases "RegisterValue i v dc'") (simp_all add: decode_pair_def)
  next
    case False
    let ?dc = "dc'\<lparr>id_to_value := id_to_value dc' @ [(i, v)]\<rparr>"
    have same: "dc_operations ?dc = dc_operations dc'" by (simp add: dc_operations_def)
    have inv': "dc_inv dc'" and ready: "value_ready (dc_operations dc') v"
      using d(2) by (simp_all add: decoded_def)
    from inv' obtain addr blk where "top_level_block_builder dc' = put_block addr blk" "parent_module blk = None"
      by (auto simp: dc_inv_def)
    moreover have "value_ready (dc_operations ?dc) w" if "map_of (id_to_value ?dc) j = Some w" for j w
      unfolding same using inv' ready that by (auto simp: dc_inv_def map_add_Some_iff split: if_splits)
    ultimately have "dc_inv ?dc"
      using inv' same by (intro dc_invI [where addr = addr and blk = blk]) (simp_all add: dc_inv_def)
    moreover have "RegisterValue i v dc' = Inr ?dc"
      using False fresh by (simp add: RegisterValue_def hm_insert_eq)
    moreover have "set (dc_operations dc) \<subseteq> set (dc_operations ?dc)" "id_to_value dc' = id_to_value dc"
      using d(2) same by (simp_all add: decoded_def)
    ultimately show ?thesis using True False d(1) ready same
      by (simp add: decode_pair_def)
  qed
qed

lemma decode_pairs_iff:
  assumes "dc_inv dc" and "is_order ord"
    and "\<And>v. tv = Some v \<Longrightarrow> value_ready (dc_operations dc) v"
  shows "if pairs_ok (known_ids dc) ps
    then \<exists>tv' dc'. fold_result (decode_pair ord) ps (tv, dc) = Inr (tv', dc') \<and> dc_inv dc' \<and>
      (\<exists>vs. id_to_value dc' = id_to_value dc @ zip (map fst ps) vs \<and> length vs = length ps \<and>
         tv' = (if ps = [] then tv else Some (last vs))) \<and>
      (\<forall>v. tv' = Some v \<longrightarrow> value_ready (dc_operations dc') v)
    else \<not> is_ok (fold_result (decode_pair ord) ps (tv, dc))"
  using assms(1,3)
proof (induction ps arbitrary: dc tv)
  case (Cons p ps)
  obtain i e where p: "p = (i, e)" by (cases p)
  show ?case
  proof (cases "expression_ok (known_ids dc) e \<and> i \<notin> set (known_ids dc)")
    case False
    then have "\<not> is_ok (decode_pair ord (i, e) (tv, dc))"
      using decode_pair_iff [OF Cons.prems(1) assms(2), of e i tv] by presburger
    with False show ?thesis by (cases "decode_pair ord (i, e) (tv, dc)") (auto simp: p)
  next
    case True
    with decode_pair_iff [OF Cons.prems(1) assms(2), of e i tv] obtain v dc' where
      step: "decode_pair ord (i, e) (tv, dc) = Inr (Some v, dc')" "dc_inv dc'"
      "id_to_value dc' = id_to_value dc @ [(i, v)]" "value_ready (dc_operations dc') v" by auto
    from Cons.IH [OF step(2), of "Some v"] step(4) have IH: "if pairs_ok (known_ids dc') ps
    then \<exists>tv' dc''. fold_result (decode_pair ord) ps (Some v, dc') = Inr (tv', dc'') \<and> dc_inv dc'' \<and>
      (\<exists>vs. id_to_value dc'' = id_to_value dc' @ zip (map fst ps) vs \<and> length vs = length ps \<and>
         tv' = (if ps = [] then Some v else Some (last vs))) \<and>
      (\<forall>w. tv' = Some w \<longrightarrow> value_ready (dc_operations dc'') w)
    else \<not> is_ok (fold_result (decode_pair ord) ps (Some v, dc'))" by simp
    have known: "pairs_ok (known_ids dc) (p # ps) \<longleftrightarrow> pairs_ok (known_ids dc') ps"
      using True by (simp add: p step(3))
    show ?thesis
    proof (cases "pairs_ok (known_ids dc') ps")
      case False
      with IH step(1) show ?thesis unfolding known by (simp add: p)
    next
      case True
      with IH obtain tv' dc'' vs where r: "fold_result (decode_pair ord) ps (Some v, dc') = Inr (tv', dc'')"
        "dc_inv dc''" "id_to_value dc'' = id_to_value dc' @ zip (map fst ps) vs" "length vs = length ps"
        "tv' = (if ps = [] then Some v else Some (last vs))"
        "\<forall>w. tv' = Some w \<longrightarrow> value_ready (dc_operations dc'') w" by auto
      have "id_to_value dc'' = id_to_value dc @ zip (map fst (p # ps)) (v # vs)"
        "length (v # vs) = length (p # ps)" "tv' = Some (last (v # vs))"
        using r(3-5) by (auto simp: p step(3))
      with True r(1,2,6) step(1) show ?thesis unfolding known
        by (simp only: if_True) (intro exI [of _ tv'] exI [of _ dc''] exI [of _ "v # vs"] conjI, auto simp: p)
    qed
  qed
qed (auto intro: exI [of _ "[]"])

lemma new_decoder_context_fold:
  "new_decoder_context c block_addr addr =
     rbind (fold_result RegisterOperator (map make_operator sql_op_kinds) c) (\<lambda>c.
     Inr \<lparr>dc_ir_context = c, id_to_value = [], global_module = empty_module,
          top_level_block_builder = new_builder block_addr, next_address = addr\<rparr>)"
  by (simp add: new_decoder_context_def SqlOp_RegisterOperator_def sql_op_kinds_def rbind_assoc)

lemma distinct_sql_op_kinds: "distinct sql_op_kinds"
  by (simp add: sql_op_kinds_def sql_op_names)

lemma new_decoder_context_inv:
  assumes "new_decoder_context c block_addr addr = Inr dc"
  shows "dc_inv dc" and "id_to_value dc = []" and "dc_operations dc = []"
proof -
  from assms obtain c' where c': "fold_result RegisterOperator (map make_operator sql_op_kinds) c = Inr c'"
    and dc: "dc = \<lparr>dc_ir_context = c', id_to_value = [], global_module = empty_module,
          top_level_block_builder = new_builder block_addr, next_address = addr\<rparr>"
    by (auto simp: new_decoder_context_fold)
  show ops: "dc_operations dc = []" and "id_to_value dc = []"
    by (simp_all add: dc dc_operations_def new_builder_def empty_block_def)
  have "GetOperator k c' = Some (make_operator k)" if "k \<in> set sql_op_kinds" for k
    using operator_registry.lookup_register_all [OF c', of k] that
    by (auto simp: sql_op_kinds_def make_operator_def)
  then show "dc_inv dc"
    using ops by (intro dc_invI [where addr = block_addr and blk = empty_block])
      (simp_all add: dc new_builder_def put_block_def empty_block_def block_ready_def ssa_ordered_def)
qed

lemma new_decoder_context_ok:
  assumes "\<forall>k \<in> set sql_op_kinds. GetOperator k c = None"
  shows "is_ok (new_decoder_context c block_addr addr)"
proof -
  have "map op_name (map make_operator sql_op_kinds) = sql_op_kinds"
    by (simp add: make_operator_def comp_def)
  then have "is_ok (fold_result RegisterOperator (map make_operator sql_op_kinds) c)"
    using operator_registry.register_all_iff [of "map make_operator sql_op_kinds" c] assms
      distinct_sql_op_kinds by (auto simp: make_operator_def)
  then show ?thesis unfolding new_decoder_context_fold by (auto simp: is_ok_iff)
qed

lemma DecodeExpressionArena_eq:
  assumes inv: "dc_inv dc" "id_to_value dc = []" and ord: "is_order ord"
  shows "if arena_ok pairs
    then \<exists>r dc' w addr. DecodeExpressionArena ord pairs dc = Inr (WrapOperationResultValue r, dc') \<and> dc_inv dc' \<and>
      map_of (id_to_value dc') (fst (last pairs)) = Some w \<and> last (dc_operations dc') = r \<and>
      dc_operations dc' \<noteq> [] \<and> snd r = make_operation (Some addr) (make_operator kSqlOutputOp) [] [w]
    else \<not> is_ok (DecodeExpressionArena ord pairs dc)"
proof -
  let ?run = "fold_result (decode_pair ord) pairs (None, dc)"
  have run: "if pairs_ok [] pairs then \<exists>tv' dc'. ?run = Inr (tv', dc') \<and> dc_inv dc' \<and>
      (\<exists>vs. id_to_value dc' = zip (map fst pairs) vs \<and> length vs = length pairs \<and>
         tv' = (if pairs = [] then None else Some (last vs))) \<and>
      (\<forall>v. tv' = Some v \<longrightarrow> value_ready (dc_operations dc') v)
    else \<not> is_ok ?run"
    by (rule decode_pairs_iff [OF inv(1) ord, of None pairs, unfolded inv(2) list.map append_Nil]) simp
  show ?thesis
  proof (cases "arena_ok pairs")
    case False
    have "\<not> is_ok (DecodeExpressionArena ord pairs dc)"
    proof (cases "pairs_ok [] pairs")
      case True
      with False have "pairs = []" by (simp add: arena_ok_def)
      then show ?thesis by (simp add: DecodeExpressionArena_def)
    next
      case False
      with run have "\<not> is_ok ?run" by presburger
      then show ?thesis by (cases ?run) (simp_all add: DecodeExpressionArena_def)
    qed
    with False show ?thesis by simp
  next
    case True
    with run obtain dc1 vs where r: "?run = Inr (Some (last vs), dc1)" "dc_inv dc1"
      "id_to_value dc1 = zip (map fst pairs) vs" "length vs = length pairs"
      "value_ready (dc_operations dc1) (last vs)" by (auto simp: arena_ok_def)
    from MakeSqlOutputOperation_ok [OF r(2,5)] obtain x dc' addr where
      out: "MakeSqlOutputOperation (last vs) dc1 = Inr (x, dc')" "decoded dc1 (WrapOperationResultValue x) dc'"
      "dc_operations dc' = dc_operations dc1 @ [x]"
      "snd x = make_operation (Some addr) (make_operator kSqlOutputOp) [] [last vs]" by blast
    have d: "distinct known \<longrightarrow> pairs_ok known ps \<longrightarrow> distinct (known @ map fst ps)" for known ps
      by (induction known ps rule: pairs_ok.induct) auto
    have pairs: "pairs \<noteq> []" "distinct (map fst pairs)"
      using True d [of "[]" pairs] by (simp_all add: arena_ok_def)
    have "vs \<noteq> []" using pairs(1) r(4) by auto
    then have "last pairs = pairs ! (length pairs - 1)" "last vs = vs ! (length pairs - 1)"
      using pairs(1) r(4) by (simp_all add: last_conv_nth)
    then have "(fst (last pairs), last vs) \<in> set (zip (map fst pairs) vs)"
      using pairs(1) r(4) unfolding in_set_zip by (intro exI [of _ "length pairs - 1"]) simp
    then have "map_of (zip (map fst pairs) vs) (fst (last pairs)) = Some (last vs)"
      using pairs(2) r(4) by (intro map_of_is_SomeI) simp_all
    then have "map_of (id_to_value dc') (fst (last pairs)) = Some (last vs)"
      using out(2) r(3) by (simp add: decoded_def)
    moreover have "DecodeExpressionArena ord pairs dc = Inr (WrapOperationResultValue x, dc')"
      by (simp add: DecodeExpressionArena_def r(1) out(1))
    ultimately show ?thesis using True out by (cases x) (auto simp: decoded_def)
  qed
qed

lemma BuildTopLevelBlock_operations:
  assumes "dc_inv dc"
  shows "\<exists>dc'. BuildTopLevelBlock this dc = Inr dc' \<and>
    module_operations (global_module dc') = dc_operations dc \<and> id_to_value dc' = id_to_value dc"
  using assms
  by (auto simp: BuildTopLevelBlock_def dc_inv_def build_def put_block_def AddBlock_def empty_module_def
      module_operations_def dc_operations_def)

section \<open>Properties\<close>

text \<open>C38: On a context that has none of the SQL operators yet, decoding an arena passes every
  check of the decoder exactly when the arena is well formed: it has an expression, every id is
  new, and every expression has its required fields and refers to earlier ids other than 0 only.
  This does not depend on the iteration order of the precondition maps.\<close>

theorem decode_arena_iff:
  assumes "\<forall>k \<in> set sql_op_kinds. GetOperator k c = None" and "is_order ord"
  shows "is_ok (rbind (new_decoder_context c block_addr addr) (DecodeExpressionArena ord pairs)) \<longleftrightarrow>
    arena_ok pairs"
proof -
  from new_decoder_context_ok [OF assms(1)] obtain dc where
    dc: "new_decoder_context c block_addr addr = Inr dc" by (auto simp: is_ok_iff)
  note start = new_decoder_context_inv [OF dc]
  from DecodeExpressionArena_eq [OF start(1,2) assms(2), of pairs] show ?thesis
    by (cases "arena_ok pairs") (auto simp: dc)
qed

definition sample_arena :: "id_expression_pair list" where
  "sample_arena = [(1, SourceTableColumn ''t.c''), (2, Literal ''5''), (3, MergeOperation [1, 2] [1]),
     (4, TagTransform 3 ''r'' [(''a'', 2)])]"

lemma sample_arena_ok: "arena_ok sample_arena"
  by (simp add: arena_ok_def sample_arena_def ref_ok_def int64_max_def to_flat_hash_map_def
      hm_insert_eq kRuleNameAttribute_def)

lemma empty_context_fresh: "\<forall>k \<in> set sql_op_kinds. GetOperator k empty_context = None"
  by (simp add: empty_context_def GetOperator_def GetNode_def)

theorem decode_arena_iff_witness:
  "is_ok (rbind (new_decoder_context empty_context 0 1) (DecodeExpressionArena rev sample_arena)) \<and>
   \<not> is_ok (rbind (new_decoder_context empty_context 0 1) (DecodeExpressionArena rev [(1, Literal [])]))"
  using decode_arena_iff [OF empty_context_fresh is_order_id(3), of 0 1] sample_arena_ok
  by (simp add: arena_ok_def)

text \<open>The module a decoded arena leaves behind is in definition order with distinct addresses,
  and its last operation is the \<^verbatim>\<open>sql.sql_output\<close> of the value of the last expression.\<close>

theorem decoded_module_in_definition_order:
  assumes "new_decoder_context c block_addr addr = Inr dc" and "is_order ord"
    and "DecodeExpressionArena ord pairs dc = Inr (v, dc1)" and "BuildTopLevelBlock this dc1 = Inr dc2"
  shows "distinct (map fst (module_operations (global_module dc2))) \<and>
    ssa_ordered (module_operations (global_module dc2)) \<and>
    (\<exists>oid oper w. last (module_operations (global_module dc2)) = (oid, oper) \<and> v = OperationResult oid 0 \<and>
       op_name (op_of oper) = kSqlOutputOp \<and> inputs oper = [w] \<and>
       map_of (id_to_value dc2) (fst (last pairs)) = Some w)"
proof -
  note start = new_decoder_context_inv [OF assms(1)]
  have "arena_ok pairs"
    using DecodeExpressionArena_eq [OF start(1,2) assms(2), of pairs] assms(3) by (auto split: if_splits)
  with DecodeExpressionArena_eq [OF start(1,2) assms(2), of pairs] assms(3) obtain r w b where
    r: "v = WrapOperationResultValue r" "dc_inv dc1" "map_of (id_to_value dc1) (fst (last pairs)) = Some w"
      "last (dc_operations dc1) = r"
      "snd r = make_operation (Some b) (make_operator kSqlOutputOp) [] [w]" by auto
  from BuildTopLevelBlock_operations [OF r(2), of this] assms(4) have built:
    "module_operations (global_module dc2) = dc_operations dc1" "id_to_value dc2 = id_to_value dc1" by auto
  from r(2) have "distinct (map fst (dc_operations dc1))" "ssa_ordered (dc_operations dc1)"
    by (simp_all add: dc_inv_def block_ready_def)
  with r built show ?thesis
    by (cases r) (simp add: WrapOperationResultValue_def kDefaultOutputIndex_def make_operation_def make_operator_def)
qed

lemma arena_decodes:
  assumes "arena_ok pairs" and "is_order ord"
  shows "\<exists>dc v dc1 dc2. new_decoder_context empty_context block_addr addr = Inr dc \<and>
     DecodeExpressionArena ord pairs dc = Inr (v, dc1) \<and> dc_inv dc1 \<and> BuildTopLevelBlock this dc1 = Inr dc2"
proof -
  from new_decoder_context_ok [OF empty_context_fresh] obtain dc where
    dc: "new_decoder_context empty_context block_addr addr = Inr dc" by (auto simp: is_ok_iff)
  note start = new_decoder_context_inv [OF dc]
  from DecodeExpressionArena_eq [OF start(1,2) assms(2), of pairs] assms(1) obtain v dc1
    where "DecodeExpressionArena ord pairs dc = Inr (v, dc1)" "dc_inv dc1" by auto
  with BuildTopLevelBlock_operations [of dc1 this] dc show ?thesis by blast
qed

theorem decoded_module_in_definition_order_witness:
  "\<exists>dc v dc1 dc2. new_decoder_context empty_context 0 1 = Inr dc \<and>
     DecodeExpressionArena rev sample_arena dc = Inr (v, dc1) \<and> BuildTopLevelBlock 0 dc1 = Inr dc2 \<and>
     ssa_ordered (module_operations (global_module dc2))"
proof -
  from arena_decodes [OF sample_arena_ok is_order_id(3)] obtain dc v dc1 dc2 where
    run: "new_decoder_context empty_context 0 1 = Inr dc" "DecodeExpressionArena rev sample_arena dc = Inr (v, dc1)"
      "BuildTopLevelBlock 0 dc1 = Inr dc2" by blast
  with decoded_module_in_definition_order [OF run(1) is_order_id(3) run(2,3)] show ?thesis by blast
qed

end
