(* ===== verification/Sql_Policy_Rules.thy ===== *)
theory Sql_Policy_Rules imports
  Sql_Decode
begin

text \<open>
  The decoder of SQL policy rules: \<^verbatim>\<open>src/frontends/sql/decode_sql_policy_rules.cc\<close>. It turns the
  policy rules of an arena into the inference rules of the taint analysis, one action per
  \<^verbatim>\<open>sql.tag_transform\<close> of the decoded module.
\<close>

section \<open>The policy rules\<close>

datatype policy_action = UNKNOWN | ADD_CONFIDENTIALITY | REMOVE_CONFIDENTIALITY | ADD_INTEGRITY

record policy_precondition =
  argument :: string
  required_integrity_tag :: string

record sql_policy_rule =
  policy_rule_name :: string
  result_action :: policy_action
  result_tag :: string
  rule_preconditions :: "policy_precondition list"

fun GetModifyTagKind :: "policy_action \<Rightarrow> modify_kind result" where
  "GetModifyTagKind ADD_CONFIDENTIALITY = Inr kAddSecrecy"
| "GetModifyTagKind REMOVE_CONFIDENTIALITY = Inr kRemoveSecrecy"
| "GetModifyTagKind ADD_INTEGRITY = Inr kAddIntegrity"
| "GetModifyTagKind UNKNOWN = Inl (Check_failed ''Unknown category in SqlPolicyRule::Result::Action'')"

section \<open>The rules of one action\<close>

definition AddInferenceRuleForMerge ::
  "operation \<Rightarrow> merge_kind \<Rightarrow> string \<Rightarrow> rules_builder \<Rightarrow> rules_builder result" where
  "AddInferenceRuleForMerge merge_op merge action_name b =
     rbind (GetControlInputStartIndex merge_op) (\<lambda>n.
     AddOutputRulesForAction action_name
       [(kDefaultOutputIndex, [\<lparr>rule_conclusion = MergeIntegrityTags merge [0..<n], rule_premises = []\<rparr>])] b)"

definition add_premise ::
  "(string, nat) hash_map \<Rightarrow> policy_precondition \<Rightarrow> input_has_integrity list \<times> rules_builder
     \<Rightarrow> (input_has_integrity list \<times> rules_builder) result" where
  "add_premise input_indices precondition st =
     rbind (GetOrCreateTagId (required_integrity_tag precondition) (snd st)) (\<lambda>(t, b).
     rbind (check_some (map_of input_indices (argument precondition)) ''Unable to find input index'') (\<lambda>i.
     Inr (fst st @ [\<lparr>premise_index = i, premise_tag = t\<rparr>], b)))"

definition AddInferenceRuleForTagTransform ::
  "attribute_order \<Rightarrow> sql_policy_rule \<Rightarrow> operation \<Rightarrow> string \<Rightarrow> rules_builder \<Rightarrow> rules_builder result" where
  "AddInferenceRuleForTagTransform ord rule tag_transform_op action_name b =
     rbind (GetPreconditionInputIndices ord tag_transform_op) (\<lambda>input_indices.
     rbind (fold_result (add_premise input_indices) (rule_preconditions rule) ([], b)) (\<lambda>(premises, b).
     rbind (GetTransformedValueIndex tag_transform_op) (\<lambda>i.
     let copy_input_rule = \<lparr>rule_conclusion = CopyInput i, rule_premises = []\<rparr> in
     rbind (GetModifyTagKind (result_action rule)) (\<lambda>modify.
     rbind (GetOrCreateTagId (result_tag rule) b) (\<lambda>(t, b).
     let modify_tag_rule = \<lparr>rule_conclusion = ModifyTag modify t, rule_premises = premises\<rparr> in
     AddOutputRulesForAction action_name [(0, [copy_input_rule, modify_tag_rule])] b)))))"

section \<open>The rules of a module\<close>

text \<open>\<^verbatim>\<open>OperationResult::operation()\<close> is a reference: it must point to an operation of the module.\<close>

definition referenced_operation :: "ir_module \<Rightarrow> op_id \<Rightarrow> operation result" where
  "referenced_operation m oid = deref (map_of (module_operations m) oid) ''merge_result->operation()''"

definition decode_special_rule ::
  "ir_module \<Rightarrow> string \<Rightarrow> string \<Rightarrow> operation \<Rightarrow> rules_builder \<Rightarrow> rules_builder result" where
  "decode_special_rule m tag_transform_name action_name oper b =
     rbind (check (length (inputs oper) = 1) ''Special tag transform op has more than one input.'') (\<lambda>_.
     rbind (GetTransformedValue oper) (\<lambda>v.
     case v of
       OperationResult oid _ \<Rightarrow>
         rbind (MarkOperationAsAction oid action_name b) (\<lambda>b.
         rbind (referenced_operation m oid) (\<lambda>target.
         rbind (check_some (SqlOp_GetIf kMergeOp target)
                 ''Special tag_transform_op is not referring to a MergeOp'') (\<lambda>merge_op.
         AddInferenceRuleForMerge merge_op
           (if tag_transform_name = kUnionItagRule then kUnion else kIntersect) action_name b)))
     | _ \<Rightarrow> Inl (Check_failed ''Argument of a special tag_transform_op is not an operation result.'')))"

definition decode_action_rule ::
  "attribute_order \<Rightarrow> ir_module \<Rightarrow> (string, sql_policy_rule) hash_map \<Rightarrow> string \<Rightarrow> string
     \<Rightarrow> op_id \<times> operation \<Rightarrow> rules_builder \<Rightarrow> rules_builder result" where
  "decode_action_rule ord m sql_policy_rules tag_transform_name action_name oper b =
     (if tag_transform_name = kIntersectItagRule \<or> tag_transform_name = kUnionItagRule
      then decode_special_rule m tag_transform_name action_name (snd oper) b
      else rbind (MarkOperationAsAction (fst oper) action_name b) (\<lambda>b.
        rbind (check_some (map_of sql_policy_rules tag_transform_name) ''No sql policy rule found'')
          (\<lambda>rule. AddInferenceRuleForTagTransform ord rule (snd oper) action_name b)))"

definition decode_rule_of_operation ::
  "attribute_order \<Rightarrow> ir_module \<Rightarrow> (string, sql_policy_rule) hash_map \<Rightarrow> op_id \<times> operation
     \<Rightarrow> (string, nat) hash_map \<times> rules_builder \<Rightarrow> ((string, nat) hash_map \<times> rules_builder) result" where
  "decode_rule_of_operation ord m sql_policy_rules oper st =
     (case SqlOp_GetIf kTagTransformOp (snd oper) of
        None \<Rightarrow> Inr st
      | Some tag_transform_op \<Rightarrow>
          rbind (GetRuleName tag_transform_op) (\<lambda>tag_transform_name.
          let (rule_counts, b) = st;
              n = (case map_of rule_counts tag_transform_name of None \<Rightarrow> 0 | Some n \<Rightarrow> n);
              action_name = tag_transform_name @ ''_'' @ string_of_nat n;
              rule_counts = hm_assign tag_transform_name (n + 1) rule_counts
          in rbind (decode_action_rule ord m sql_policy_rules tag_transform_name action_name
                      (fst oper, tag_transform_op) b)
             (\<lambda>b. Inr (rule_counts, b))))"

definition add_policy_rule ::
  "sql_policy_rule \<Rightarrow> (string, sql_policy_rule) hash_map \<Rightarrow> (string, sql_policy_rule) hash_map result" where
  "add_policy_rule rule rs =
     (let (rs', inserted) = hm_insert (policy_rule_name rule) rule rs
      in rbind (check inserted ''Dupliate entry for rule name'') (\<lambda>_. Inr rs'))"

definition DecodeSqlPolicyRules ::
  "attribute_order \<Rightarrow> sql_policy_rule list \<Rightarrow> ir_module \<Rightarrow> string list \<Rightarrow> inference_rules result" where
  "DecodeSqlPolicyRules ord rules m seed_tags =
     rbind (new_rules_builder seed_tags) (\<lambda>b.
     rbind (fold_result add_policy_rule rules []) (\<lambda>sql_policy_rules.
     rbind (fold_result (\<lambda>blk. fold_result (decode_rule_of_operation ord m sql_policy_rules)
              (operations (snd blk))) (blocks m) ([], b)) (\<lambda>(rule_counts, b).
     Inr (Build b))))"

section \<open>Action names\<close>

lemma action_name_inj:
  "r @ ''_'' @ string_of_nat n = r' @ ''_'' @ string_of_nat n' \<longleftrightarrow> r = r' \<and> n = n'"
proof
  assume eq: "r @ ''_'' @ string_of_nat n = r' @ ''_'' @ string_of_nat n'"
  have digits: "takeWhile is_digit (rev (q @ ''_'' @ string_of_nat k)) = rev (string_of_nat k)" for q k
  proof -
    have "is_digit c" if "c \<in> set (rev (string_of_nat k))" for c
      using that string_of_nat_digits by simp
    moreover have "\<not> is_digit (CHR ''_'')" by (simp add: is_digit_def)
    ultimately show ?thesis
      using takeWhile_append2 [of "rev (string_of_nat k)" is_digit "CHR ''_'' # rev q"] by simp
  qed
  from eq have "rev (string_of_nat n) = rev (string_of_nat n')" using digits by metis
  with eq show "r = r' \<and> n = n'" by simp
qed simp

section \<open>The rules fit the module\<close>

lemma module_fold: "fold_result (\<lambda>blk. fold_result f (operations (snd blk))) (blocks m) st =
    fold_result f (module_operations m) st"
proof -
  have "fold_result (\<lambda>blk. fold_result f (operations (snd blk))) bs st =
      fold_result f (concat (map (\<lambda>b. operations (snd b)) bs)) st" for bs
    by (induction bs arbitrary: st) (simp_all add: fold_result_append rbind_def split: sum.splits)
  then show ?thesis by (simp add: module_operations_def)
qed

definition out_fits :: "(op_id \<times> operation) list \<Rightarrow> op_id \<Rightarrow> output_rules \<Rightarrow> bool" where
  "out_fits opers oid out \<longleftrightarrow> (\<forall>oper. (oid, oper) \<in> set opers \<longrightarrow> hm_wf out \<and>
     (\<forall>(i, seq) \<in> set out. i < NumberOfOutputs oper \<and>
        (\<forall>rule \<in> set seq. rule_in_bounds (length (inputs oper)) rule)))"

definition builder_fits :: "(op_id \<times> operation) list \<Rightarrow> rules_builder \<Rightarrow> bool" where
  "builder_fits opers b \<longleftrightarrow> (\<forall>(oid, action) \<in> set (builder_actions b).
     \<exists>out. map_of (builder_action_rules b) action = Some out \<and> out_fits opers oid out)"

lemma AddOutputRulesForAction_Inr:
  "AddOutputRulesForAction action out b = Inr b' \<longleftrightarrow> map_of (builder_action_rules b) action = None \<and>
     b' = b\<lparr>builder_action_rules := builder_action_rules b @ [(action, out)]\<rparr>"
  by (auto simp: AddOutputRulesForAction_def hm_insert_eq)

lemma MarkOperationAsAction_Inr:
  "MarkOperationAsAction oid action b = Inr b' \<longleftrightarrow> map_of (builder_actions b) oid = None \<and>
     b' = b\<lparr>builder_actions := builder_actions b @ [(oid, action)]\<rparr>"
  by (auto simp: MarkOperationAsAction_def hm_insert_eq)

lemma GetOrCreateTagId_keeps:
  "GetOrCreateTagId t b = Inr (i, b') \<Longrightarrow>
     builder_actions b' = builder_actions b \<and> builder_action_rules b' = builder_action_rules b"
  by (auto simp: GetOrCreateTagId_def Let_def split: prod.splits if_splits)

text \<open>An operation is marked and the rules of its action are added: the rules fit if they fit
  this operation, because no marked operation had this action before.\<close>

lemma builder_fits_action:
  assumes "builder_fits opers b" and "map_of (builder_action_rules b) action = None"
    and "builder_actions b' = builder_actions b @ [(oid, action)]"
    and "builder_action_rules b' = builder_action_rules b @ [(action, out)]"
    and "out_fits opers oid out"
  shows "builder_fits opers b'"
  unfolding builder_fits_def
proof (intro ballI, clarify)
  fix o' a
  assume "(o', a) \<in> set (builder_actions b')"
  then consider "(o', a) \<in> set (builder_actions b)" | "o' = oid" "a = action" using assms(3) by auto
  then show "\<exists>out. map_of (builder_action_rules b') a = Some out \<and> out_fits opers o' out"
  proof cases
    case 1
    with assms(1) obtain out' where out': "map_of (builder_action_rules b) a = Some out'" "out_fits opers o' out'"
      by (auto simp: builder_fits_def)
    with assms(2) have "a \<noteq> action" by auto
    with out' assms(4) show ?thesis by (simp add: map_add_def)
  next
    case 2
    with assms(2,4,5) show ?thesis by (auto simp: map_add_def split: option.splits)
  qed
qed

lemma merge_rules_fit:
  assumes "distinct (map fst opers)" and "(oid, oper) \<in> set opers" and "sql_shape oper"
    and "op_name (op_of oper) = kMergeOp" and "GetControlInputStartIndex oper = Inr n"
  shows "out_fits opers oid
    [(kDefaultOutputIndex, [\<lparr>rule_conclusion = MergeIntegrityTags merge [0..<n], rule_premises = []\<rparr>])]"
proof -
  from assms(3,4) obtain direct control where "inputs oper = direct @ control"
    "attributes oper = [(kControlInputStartIndex, Int64Attribute (int (length direct)))]"
    by (auto simp: sql_shape_def)
  with assms(5) have "n \<le> length (inputs oper)" by (auto simp: GetControlInputStartIndex_def)
  moreover have "number_of_return_values (op_of oper) = 1"
    using assms(3) by (metis make_operator_def operator.select_convs(2) sql_shape_def)
  moreover have "o' = oper" if "(oid, o') \<in> set opers" for o'
    using assms(1,2) that by (metis map_of_is_SomeI option.inject)
  ultimately show ?thesis
    by (auto simp: out_fits_def hm_wf_def rule_in_bounds_def kDefaultOutputIndex_def NumberOfOutputs_def)
qed

lemma add_premises_Inr:
  "fold_result (add_premise idx) pres (ps, b) = Inr (ps', b') \<Longrightarrow>
     builder_actions b' = builder_actions b \<and> builder_action_rules b' = builder_action_rules b \<and>
     (\<forall>p \<in> set ps'. p \<in> set ps \<or> (\<exists>name. map_of idx name = Some (premise_index p)))"
proof (induction pres arbitrary: ps b)
  case (Cons pre pres)
  then obtain q b1 where first: "add_premise idx pre (ps, b) = Inr (q, b1)"
    and rest: "fold_result (add_premise idx) pres (q, b1) = Inr (ps', b')" by auto
  from first obtain t i where step: "GetOrCreateTagId (required_integrity_tag pre) b = Inr (t, b1)"
    "map_of idx (argument pre) = Some i" and q: "q = ps @ [\<lparr>premise_index = i, premise_tag = t\<rparr>]"
    by (auto simp: add_premise_def)
  note step = step rest [unfolded q]
  from Cons.IH [OF step(3)] GetOrCreateTagId_keeps [OF step(1)] step(2) show ?case by auto
qed simp

text \<open>The indices a tag transform reports are indices of its operands.\<close>

lemma tag_transform_shape:
  assumes "sql_shape oper" and "op_name (op_of oper) = kTagTransformOp"
  shows "hm_wf (attributes oper)" and "inputs oper \<noteq> []" and "NumberOfOutputs oper = 1"
proof -
  from assms obtain r v ps where ps: "distinct (map fst ps)" "kRuleNameAttribute \<notin> fst ` set ps"
    and oper: "oper = tag_transform_operation (parent oper) (op_of oper) r v ps" by (auto simp: sql_shape_def)
  let ?index = "\<lambda>(i, p). (fst p, Int64Attribute (1 + int i))"
  have "map fst (map ?index (enumerate 0 ps)) = map fst ps"
    by (intro nth_equalityI) (simp_all add: nth_enumerate_eq)
  then have "hm_wf (attributes (tag_transform_operation (parent oper) (op_of oper) r v ps))"
    unfolding hm_wf_def tag_transform_operation_def make_operation_def using ps by (simp del: map_map)
  then show "hm_wf (attributes oper)" using oper by simp
  have "inputs (tag_transform_operation (parent oper) (op_of oper) r v ps) \<noteq> []"
    by (simp add: tag_transform_operation_def make_operation_def)
  then show "inputs oper \<noteq> []" using oper by simp
  show "NumberOfOutputs oper = 1"
    using assms(1) by (metis NumberOfOutputs_def make_operator_def operator.select_convs(2) sql_shape_def)
qed

lemma AddInferenceRuleForTagTransform_Inr:
  assumes "AddInferenceRuleForTagTransform ord rule oper action b = Inr b'" and "is_order ord"
    and "distinct (map fst opers)" and "(oid, oper) \<in> set opers" and "sql_shape oper"
    and "op_name (op_of oper) = kTagTransformOp"
  shows "\<exists>out. map_of (builder_action_rules b) action = None \<and> builder_actions b' = builder_actions b \<and>
    builder_action_rules b' = builder_action_rules b @ [(action, out)] \<and> out_fits opers oid out"
proof -
  note shape = tag_transform_shape [OF assms(5,6)]
  from assms(1) obtain idx ps b1 i mk t b2 where idx: "GetPreconditionInputIndices ord oper = Inr idx"
    and ps: "fold_result (add_premise idx) (rule_preconditions rule) ([], b) = Inr (ps, b1)"
    and i: "GetTransformedValueIndex oper = Inr i"
    and t: "GetOrCreateTagId (result_tag rule) b1 = Inr (t, b2)"
    and add: "AddOutputRulesForAction action [(0, [\<lparr>rule_conclusion = CopyInput i, rule_premises = []\<rparr>,
       \<lparr>rule_conclusion = ModifyTag mk t, rule_premises = ps\<rparr>])] b2 = Inr b'"
    by (auto simp: AddInferenceRuleForTagTransform_def Let_def)
  from i have "i = 0" by (auto simp: GetTransformedValueIndex_def)
  moreover have "premise_index p < length (inputs oper)" if "p \<in> set ps" for p
    using add_premises_Inr [OF ps] that GetPreconditionInputIndices_Inr(2) [OF shape(1) assms(2) idx] by auto
  moreover have "o' = oper" if "(oid, o') \<in> set opers" for o'
    using assms(3,4) that by (metis map_of_is_SomeI option.inject)
  ultimately have "out_fits opers oid [(0, [\<lparr>rule_conclusion = CopyInput i, rule_premises = []\<rparr>,
       \<lparr>rule_conclusion = ModifyTag mk t, rule_premises = ps\<rparr>])]"
    using shape by (auto simp: out_fits_def hm_wf_def rule_in_bounds_def)
  with add add_premises_Inr [OF ps] GetOrCreateTagId_keeps [OF t] show ?thesis
    by (auto simp: AddOutputRulesForAction_Inr)
qed

lemma decode_special_rule_Inr:
  assumes "decode_special_rule m name action oper b = Inr b'"
  obtains oid target n merge where "map_of (module_operations m) oid = Some target"
    "op_name (op_of target) = kMergeOp" "GetControlInputStartIndex target = Inr n"
    "map_of (builder_action_rules b) action = None"
    "builder_actions b' = builder_actions b @ [(oid, action)]"
    "builder_action_rules b' = builder_action_rules b @ [(action, [(kDefaultOutputIndex,
       [\<lparr>rule_conclusion = MergeIntegrityTags merge [0..<n], rule_premises = []\<rparr>])])]"
proof -
  let ?merge = "if name = kUnionItagRule then kUnion else kIntersect"
  from assms obtain oid k b1 target op2 where b1: "MarkOperationAsAction oid action b = Inr b1"
    and target: "referenced_operation m oid = Inr target" "SqlOp_GetIf kMergeOp target = Some op2"
    and add: "AddInferenceRuleForMerge op2 ?merge action b1 = Inr b'"
    by (auto simp: decode_special_rule_def split: "ir_value.splits")
  from add obtain n where n: "GetControlInputStartIndex op2 = Inr n"
    and rules: "AddOutputRulesForAction action [(kDefaultOutputIndex,
       [\<lparr>rule_conclusion = MergeIntegrityTags ?merge [0..<n], rule_premises = []\<rparr>])] b1 = Inr b'"
    by (auto simp: AddInferenceRuleForMerge_def)
  from target have "map_of (module_operations m) oid = Some target" "op2 = target" "op_name (op_of target) = kMergeOp"
    by (auto simp: referenced_operation_def SqlOp_GetIf_def split: if_splits)
  with b1 n rules show ?thesis
    by (intro that [of oid target n ?merge]) (auto simp: MarkOperationAsAction_Inr AddOutputRulesForAction_Inr)
qed

lemma decode_rule_of_operation_fits:
  assumes step: "decode_rule_of_operation ord m rs (oid, oper) (counts, b) = Inr (counts', b')"
    and fits: "builder_fits (module_operations m) b" and ord: "is_order ord"
    and opers: "distinct (map fst (module_operations m))"
      "\<forall>o' \<in> set (module_operations m). sql_shape (snd o')" "(oid, oper) \<in> set (module_operations m)"
  shows "builder_fits (module_operations m) b'"
proof (cases "SqlOp_GetIf kTagTransformOp oper")
  case None
  with step fits show ?thesis by (simp add: decode_rule_of_operation_def)
next
  case (Some tt)
  then have tt: "tt = oper" "op_name (op_of oper) = kTagTransformOp"
    by (auto simp: SqlOp_GetIf_def split: if_splits)
  from step Some obtain name action where "decode_action_rule ord m rs name action (oid, oper) b = Inr b'"
    by (auto simp: decode_rule_of_operation_def Let_def tt(1))
  then have run: "(if name = kIntersectItagRule \<or> name = kUnionItagRule
             then decode_special_rule m name action oper b
             else rbind (MarkOperationAsAction oid action b) (\<lambda>b.
               rbind (check_some (map_of rs name) ''No sql policy rule found'')
                 (\<lambda>rule. AddInferenceRuleForTagTransform ord rule oper action b))) = Inr b'"
    by (simp only: decode_action_rule_def fst_conv snd_conv)
  show ?thesis
  proof (cases "name = kIntersectItagRule \<or> name = kUnionItagRule")
    case True
    with run have "decode_special_rule m name action oper b = Inr b'" by simp
    then obtain o2 target k merge where r: "map_of (module_operations m) o2 = Some target"
      "op_name (op_of target) = kMergeOp" "GetControlInputStartIndex target = Inr k"
      "map_of (builder_action_rules b) action = None"
      "builder_actions b' = builder_actions b @ [(o2, action)]"
      "builder_action_rules b' = builder_action_rules b @ [(action, [(kDefaultOutputIndex,
         [\<lparr>rule_conclusion = MergeIntegrityTags merge [0..<k], rule_premises = []\<rparr>])])]"
      by (rule decode_special_rule_Inr)
    have "(o2, target) \<in> set (module_operations m)" using r(1) by (rule map_of_SomeD)
    with r(2,3) opers(1,2) show ?thesis
      by (intro builder_fits_action [OF fits r(4-6)] merge_rules_fit [where oper = target]) auto
  next
    case False
    with run obtain b1 rule where b1: "MarkOperationAsAction oid action b = Inr b1"
      and add: "AddInferenceRuleForTagTransform ord rule oper action b1 = Inr b'" by auto
    have "sql_shape oper" using opers(2,3) by auto
    from AddInferenceRuleForTagTransform_Inr [OF add ord opers(1,3) this tt(2)] obtain out where
      "map_of (builder_action_rules b1) action = None" "builder_actions b' = builder_actions b1"
      "builder_action_rules b' = builder_action_rules b1 @ [(action, out)]"
      "out_fits (module_operations m) oid out" by blast
    with b1 show ?thesis
      by (intro builder_fits_action [OF fits]) (auto simp: MarkOperationAsAction_Inr)
  qed
qed

lemma builder_fits_rules:
  assumes "builder_fits (module_operations m) b" and "distinct (map fst (module_operations m))"
  shows "module_fits (Build b) m"
proof -
  have "rules_fit (Build b) (oid, oper)" if oper: "(oid, oper) \<in> set (module_operations m)" for oid oper
  proof (cases "map_of (builder_actions b) oid")
    case None
    then show ?thesis by (simp add: rules_fit_def GetOutputRulesForOperation_def Build_def)
  next
    case (Some a)
    then have "(oid, a) \<in> set (builder_actions b)" by (rule map_of_SomeD)
    from bspec [OF assms(1) [unfolded builder_fits_def] this] obtain out where
      "map_of (builder_action_rules b) a = Some out" "out_fits (module_operations m) oid out" by auto
    with oper Some show ?thesis
      by (auto simp: rules_fit_def GetOutputRulesForOperation_def GetOutputRulesForAction_def Build_def out_fits_def)
  qed
  with assms(2) show ?thesis by (auto simp: module_fits_def)
qed

lemma decoded_rules_module_fits:
  assumes "DecodeSqlPolicyRules ord rules m seeds = Inr ir" and "is_order ord"
    and "distinct (map fst (module_operations m))" and "\<forall>oper \<in> set (module_operations m). sql_shape (snd oper)"
  shows "module_fits ir m"
proof -
  from assms(1) obtain b0 rs counts b where b0: "new_rules_builder seeds = Inr b0"
    and run: "fold_result (decode_rule_of_operation ord m rs) (module_operations m) ([], b0) = Inr (counts, b)"
    and ir: "ir = Build b"
    by (auto simp: DecodeSqlPolicyRules_def module_fold)
  have start: "builder_fits (module_operations m) b0"
    using b0 by (auto simp: new_rules_builder_eq builder_fits_def split: if_splits)
  have "builder_fits (module_operations m) (snd (counts, b))"
  proof (rule fold_result_invariant [OF run, where P = "\<lambda>st. builder_fits (module_operations m) (snd st)"])
    fix x c d
    assume "x \<in> set (module_operations m)" "builder_fits (module_operations m) (snd c)"
      "decode_rule_of_operation ord m rs x c = Inr d"
    with decode_rule_of_operation_fits [of ord m rs "fst x" "snd x" "fst c" "snd c" "fst d" "snd d"] assms(2-4)
    show "builder_fits (module_operations m) (snd d)" by simp
  qed (simp add: start)
  with builder_fits_rules assms(3) ir show ?thesis by simp
qed

section \<open>Properties\<close>

text \<open>From an arena to the module and the rules that go with it, on an empty context.\<close>

definition decode_sql ::
  "precondition_order \<Rightarrow> attribute_order \<Rightarrow> module_id \<Rightarrow> id_expression_pair list \<Rightarrow> sql_policy_rule list
     \<Rightarrow> string list \<Rightarrow> (ir_module \<times> inference_rules) result" where
  "decode_sql pord aord this pairs rules seeds =
     rbind (new_decoder_context empty_context 0 1) (\<lambda>dc.
     rbind (DecodeExpressionArena pord pairs dc) (\<lambda>(v, dc).
     rbind (BuildTopLevelBlock this dc) (\<lambda>dc.
     rbind (DecodeSqlPolicyRules aord rules (global_module dc) seeds) (\<lambda>ir.
     Inr (global_module dc, ir)))))"

lemma decode_sql_Inr:
  assumes "decode_sql pord aord this pairs rules seeds = Inr (m, ir)" and "is_order pord" and "is_order aord"
  shows "module_fits ir m" and "ssa_ordered (module_operations m)"
proof -
  from assms(1) obtain dc v dc1 dc2 where dc: "new_decoder_context empty_context 0 1 = Inr dc"
    and arena: "DecodeExpressionArena pord pairs dc = Inr (v, dc1)"
    and built: "BuildTopLevelBlock this dc1 = Inr dc2"
    and ir: "DecodeSqlPolicyRules aord rules m seeds = Inr ir" and m: "m = global_module dc2"
    by (auto simp: decode_sql_def)
  note start = new_decoder_context_inv [OF dc]
  have "arena_ok pairs"
    using DecodeExpressionArena_eq [OF start(1,2) assms(2), of pairs] arena by (auto split: if_splits)
  with DecodeExpressionArena_eq [OF start(1,2) assms(2), of pairs] arena have "dc_inv dc1" by auto
  moreover from BuildTopLevelBlock_operations [OF this, of this] built
  have "module_operations m = dc_operations dc1" by (auto simp: m)
  ultimately have ready: "block_ready (next_address dc1) (module_operations m)" by (simp add: dc_inv_def)
  then show "ssa_ordered (module_operations m)" by (simp add: block_ready_def)
  show "module_fits ir m"
    using ready by (intro decoded_rules_module_fits [OF ir assms(3)]) (simp_all add: block_ready_def)
qed

definition sample_rules :: "sql_policy_rule list" where
  "sample_rules = [\<lparr>policy_rule_name = ''r'', result_action = ADD_CONFIDENTIALITY, result_tag = ''raw'',
     rule_preconditions = [\<lparr>argument = ''a'', required_integrity_tag = ''vetted''\<rparr>]\<rparr>]"

lemma sample_decodes: "is_ok (decode_sql rev id 0 sample_arena sample_rules [])"
  by code_simp

text \<open>C10: Whenever an arena and its policy rules decode, the policy checker returns a verdict on
  the decoded module under the decoded rules: the rules only name operands and results their
  operations have, and every operand is defined before it is used. The verdict is compliance
  exactly when the analysis computed no secrecy tag for the inputs of the egress operations.\<close>

theorem decoded_sql_gets_verdict:
  assumes "decode_sql pord aord this pairs policy_rules seeds = Inr (m, rules)"
    and "is_order pord" and "is_order aord" and "orders_ok ords" and "is_order ord"
  shows "\<exists>vs compliant. ComputeIfcTags ords ord rules (this, m) = Some (Inr vs) \<and>
    IsModulePolicyCompliant ords ord rules egress (this, m) = Some (Inr compliant) \<and>
    (compliant \<longleftrightarrow> (\<forall>x \<in> egress_inputs egress (module_operations m).
       \<exists>i. map_of vs x = Some (IfcTags {} i)))"
  using checker_verdict [of rules "(this, m)" ords ord egress] decode_sql_Inr [OF assms(1-3)] assms(4,5)
  by simp

theorem decoded_sql_gets_verdict_witness:
  "\<exists>m rules compliant. decode_sql rev id 0 sample_arena sample_rules [] = Inr (m, rules) \<and>
     IsModulePolicyCompliant (orders_of id) id rules {kSqlOutputOp} (0, m) = Some (Inr compliant)"
proof -
  from sample_decodes obtain m rules where "decode_sql rev id 0 sample_arena sample_rules [] = Inr (m, rules)"
    by (auto simp: is_ok_iff)
  with decoded_sql_gets_verdict [OF this is_order_id(3,2) orders_of_ok is_order_id(2)] show ?thesis
    by (meson is_order_id(2))
qed

text \<open>Two special tag transforms on the same merge cannot be decoded, although the arena is
  well formed and each of them alone decodes: the second one marks the merge again, which
  fails a check of the rules builder. So asking for both the union and the intersection of
  the integrity tags of one expression aborts.\<close>

theorem special_rule_twice_aborts:
  "let merge = [(1, SourceTableColumn ''c''), (2, MergeOperation [1] [])];
       union = [(3, TagTransform 2 kUnionItagRule [])]; intersect = [(4, TagTransform 2 kIntersectItagRule [])]
   in arena_ok (merge @ union @ intersect) \<and>
      is_ok (decode_sql id id 0 (merge @ union) [] []) \<and> is_ok (decode_sql id id 0 (merge @ intersect) [] []) \<and>
      decode_sql id id 0 (merge @ union @ intersect) [] [] = Inl (Check_failed ''Duplicate operation inserted'')"
  by code_simp

end
