(* ===== verification/Ir_Printer.thy ===== *)
theory Ir_Printer imports
  Ir_Core
  "HOL-Library.List_Lexorder"
  "HOL-Library.Char_ord"
begin

text \<open>
  Names and text of the IR: \<^verbatim>\<open>src/ir/ssa_names.h\<close>, \<^verbatim>\<open>src/ir/value_string_converter.cc\<close> and
  \<^verbatim>\<open>src/ir/ir_printer.h\<close>, a visitor of the traversal in \<open>Ir_Core\<close>.

  Names are keyed by the address of a block or module and by the value itself. A stored value
  refers to its storage by address: \<open>heap\<close> finds the object. \<open>lg\<close> prints a \<^verbatim>\<open>double\<close>.
\<close>

section \<open>Names\<close>

record 'k id_manager =
  id_prefix :: string
  item_ids :: "('k, string) hash_map"

definition new_id_manager :: "string \<Rightarrow> 'k id_manager" where
  "new_id_manager prefix = \<lparr>id_prefix = prefix, item_ids = []\<rparr>"

definition Manager_GetOrCreateID :: "'k \<Rightarrow> 'k id_manager \<Rightarrow> string \<times> 'k id_manager" where
  "Manager_GetOrCreateID entity m =
     (let new_id = id_prefix m @ string_of_nat (length (item_ids m));
          (items, inserted) = hm_insert entity new_id (item_ids m)
      in (case map_of items entity of Some i \<Rightarrow> i | None \<Rightarrow> new_id, m\<lparr>item_ids := items\<rparr>))"

definition Manager_UpdateID :: "'k \<Rightarrow> string \<Rightarrow> 'k id_manager \<Rightarrow> string \<times> 'k id_manager" where
  "Manager_UpdateID entity i m = (i, m\<lparr>item_ids := hm_assign entity i (item_ids m)\<rparr>)"

text \<open>\<^verbatim>\<open>FindID\<close> says that the entity is not in the map.\<close>

definition Manager_FindID :: "'k \<Rightarrow> 'k id_manager \<Rightarrow> bool" where
  "Manager_FindID entity m \<longleftrightarrow> map_of (item_ids m) entity = None"

record ssa_names =
  block_ids :: "block_id id_manager"
  module_ids :: "module_id id_manager"
  value_ids :: "ir_value id_manager"

definition new_ssa_names :: ssa_names where
  "new_ssa_names = \<lparr>block_ids = new_id_manager ''b'', module_ids = new_id_manager ''m'',
     value_ids = new_id_manager ''%''\<rparr>"

definition GetOrCreateID_block :: "block_id \<Rightarrow> ssa_names \<Rightarrow> string \<times> ssa_names" where
  "GetOrCreateID_block b s =
     (let (i, m) = Manager_GetOrCreateID b (block_ids s) in (i, s\<lparr>block_ids := m\<rparr>))"

definition AddID_block :: "block_id \<Rightarrow> string \<Rightarrow> ssa_names \<Rightarrow> (string \<times> ssa_names) result" where
  "AddID_block b i s =
     rbind (check (Manager_FindID b (block_ids s)) ''Trying to update new ID to an existing block map'') (\<lambda>_.
     let (i, m) = Manager_UpdateID b i (block_ids s) in Inr (i, s\<lparr>block_ids := m\<rparr>))"

definition GetOrCreateID_module :: "module_id \<Rightarrow> ssa_names \<Rightarrow> string \<times> ssa_names" where
  "GetOrCreateID_module a s =
     (let (i, m) = Manager_GetOrCreateID a (module_ids s) in (i, s\<lparr>module_ids := m\<rparr>))"

definition AddID_module :: "module_id \<Rightarrow> string \<Rightarrow> ssa_names \<Rightarrow> (string \<times> ssa_names) result" where
  "AddID_module a i s =
     rbind (check (Manager_FindID a (module_ids s)) ''Trying to update new ID to an existing module map'') (\<lambda>_.
     let (i, m) = Manager_UpdateID a i (module_ids s) in Inr (i, s\<lparr>module_ids := m\<rparr>))"

definition GetOrCreateID_value :: "ir_value \<Rightarrow> ssa_names \<Rightarrow> string \<times> ssa_names" where
  "GetOrCreateID_value v s =
     (let (i, m) = Manager_GetOrCreateID v (value_ids s) in (i, s\<lparr>value_ids := m\<rparr>))"

definition AddID_value :: "ir_value \<Rightarrow> string \<Rightarrow> ssa_names \<Rightarrow> (string \<times> ssa_names) result" where
  "AddID_value v i s =
     rbind (check (Manager_FindID v (value_ids s)) ''Trying to update new ID to an existing value map'') (\<lambda>_.
     let (i, m) = Manager_UpdateID v i (value_ids s) in Inr (i, s\<lparr>value_ids := m\<rparr>))"

section \<open>Values as text\<close>

type_synonym storage_heap = "storage_id \<Rightarrow> storage option"

definition Any_ToString :: string where
  "Any_ToString = ''<<ANY>>''"

definition StoredValueToString :: "storage_heap \<Rightarrow> storage_id \<Rightarrow> string result" where
  "StoredValueToString heap sid = rbind (deref (heap sid) ''stored_value.storage()'') (\<lambda>s. Inr (Storage_ToString s))"

fun ValueToString :: "storage_heap \<Rightarrow> ir_value \<Rightarrow> ssa_names \<Rightarrow> (string \<times> ssa_names) result" where
  "ValueToString heap Any s = Inr (Any_ToString, s)"
| "ValueToString heap (StoredValue sid) s = rbind (StoredValueToString heap sid) (\<lambda>t. Inr (t, s))"
| "ValueToString heap (BlockArgument b i) s = Inr (GetOrCreateID_value (BlockArgument b i) s)"
| "ValueToString heap (OperationResult oid i) s = Inr (GetOrCreateID_value (OperationResult oid i) s)"

section \<open>The printer\<close>

record ir_printer =
  out :: string
  indent :: nat
  ssa :: ssa_names

definition newline :: string where
  "newline = [CHR 0x0A]"

definition Indent :: "ir_printer \<Rightarrow> string" where
  "Indent p = replicate (indent p * 2) (CHR '' '')"

definition IncreaseIndent :: "ir_printer \<Rightarrow> ir_printer" where
  "IncreaseIndent p = p\<lparr>indent := indent p + 1\<rparr>"

definition DecreaseIndent :: "ir_printer \<Rightarrow> ir_printer" where
  "DecreaseIndent p = p\<lparr>indent := indent p - 1\<rparr>"

definition emit :: "string \<Rightarrow> ir_printer \<Rightarrow> ir_printer" where
  "emit t p = p\<lparr>out := out p @ t\<rparr>"

definition printer_PreVisit_module :: "module_id \<times> ir_module \<Rightarrow> ir_printer \<Rightarrow> (unit \<times> ir_printer) result" where
  "printer_PreVisit_module m p =
     (let (i, s) = GetOrCreateID_module (fst m) (ssa p)
      in Inr ((), IncreaseIndent (emit (Indent p @ ''module '' @ i @ '' {'' @ newline) (p\<lparr>ssa := s\<rparr>))))"

definition printer_PostVisit_module ::
  "module_id \<times> ir_module \<Rightarrow> unit \<Rightarrow> ir_printer \<Rightarrow> (unit \<times> ir_printer) result" where
  "printer_PostVisit_module m r p =
     (let p = DecreaseIndent p; (i, s) = GetOrCreateID_module (fst m) (ssa p)
      in Inr (r, emit (Indent p @ ''}  // module '' @ i @ newline) (p\<lparr>ssa := s\<rparr>)))"

definition printer_PreVisit_block :: "block_id \<times> block \<Rightarrow> ir_printer \<Rightarrow> (unit \<times> ir_printer) result" where
  "printer_PreVisit_block b p =
     (let (i, s) = GetOrCreateID_block (fst b) (ssa p)
      in Inr ((), IncreaseIndent (emit (Indent p @ ''block '' @ i @ '' {'' @ newline) (p\<lparr>ssa := s\<rparr>))))"

definition printer_PostVisit_block ::
  "block_id \<times> block \<Rightarrow> unit \<Rightarrow> ir_printer \<Rightarrow> (unit \<times> ir_printer) result" where
  "printer_PostVisit_block b r p =
     (let p = DecreaseIndent p; (i, s) = GetOrCreateID_block (fst b) (ssa p)
      in Inr (r, emit (Indent p @ ''}  // block '' @ i @ newline) (p\<lparr>ssa := s\<rparr>)))"

text \<open>\<^verbatim>\<open>std::sort\<close> of the keys makes the text independent of the map's iteration order.\<close>

definition PrintNamedMapInNameOrder ::
  "('a \<Rightarrow> string) \<Rightarrow> (string, 'a) hash_map \<Rightarrow> string result" where
  "PrintNamedMapInNameOrder value_pretty_printer map_to_print =
     rbind (map_result (\<lambda>name. rbind (check_some (map_of map_to_print name) ''map_to_print.at(name)'')
              (\<lambda>v. Inr (name @ '': '' @ value_pretty_printer v))) (sort (map fst map_to_print)))
       (\<lambda>xs. Inr (str_join '', '' xs))"

definition printer_PreVisit_operation ::
  "storage_heap \<Rightarrow> (double \<Rightarrow> string) \<Rightarrow> op_id \<times> operation \<Rightarrow> ir_printer \<Rightarrow> (unit \<times> ir_printer) result" where
  "printer_PreVisit_operation heap lg oper p =
     rbind (PrintNamedMapInNameOrder (Attribute_ToString lg) (attributes (snd oper))) (\<lambda>attributes_string.
     rbind (map_state (ValueToString heap) (inputs (snd oper)) (ssa p)) (\<lambda>(ins, s).
     let inputs_string = str_join '', '' ins;
         number_of_op_return_values = number_of_return_values (op_of (snd oper))
     in rbind (map_state (\<lambda>i s. Inr (GetOrCreateID_value (MakeOperationResultValue (fst oper) i) s))
            [0..<number_of_op_return_values] s) (\<lambda>(op_return_values, s).
     let result_name = str_join '', '' op_return_values
     in Inr ((), emit (Indent p @ result_name @ '' = '' @ op_name (op_of (snd oper)) @ '' ['' @
            attributes_string @ ''](''  @ inputs_string @ '')'' @ newline) (p\<lparr>ssa := s\<rparr>)))))"

definition ir_printer :: "storage_heap \<Rightarrow> (double \<Rightarrow> string) \<Rightarrow> (ir_printer, unit) visitor" where
  "ir_printer heap lg = (default_visitor ())\<lparr>
     PreVisit_module := printer_PreVisit_module, PostVisit_module := printer_PostVisit_module,
     PreVisit_block := printer_PreVisit_block, PostVisit_block := printer_PostVisit_block,
     PreVisit_operation := printer_PreVisit_operation heap lg\<rparr>"

definition IRPrinter_ToString_names ::
  "storage_heap \<Rightarrow> (double \<Rightarrow> string) \<Rightarrow> module_id \<times> ir_module \<Rightarrow> ssa_names \<Rightarrow> (string \<times> ssa_names) result" where
  "IRPrinter_ToString_names heap lg entity ssa0 =
     rbind (Visit_module (ir_printer heap lg) entity \<lparr>out = [], indent = 0, ssa = ssa0\<rparr>) (\<lambda>(_, p).
     Inr (out p, ssa p))"

definition IRPrinter_ToString ::
  "storage_heap \<Rightarrow> (double \<Rightarrow> string) \<Rightarrow> module_id \<times> ir_module \<Rightarrow> string result" where
  "IRPrinter_ToString heap lg entity =
     rbind (IRPrinter_ToString_names heap lg entity new_ssa_names) (\<lambda>(t, _). Inr t)"

section \<open>Names are unique and stable\<close>

text \<open>What holds of a manager that only \<^verbatim>\<open>GetOrCreateID\<close> has changed.\<close>

definition manager_ok :: "'k id_manager \<Rightarrow> bool" where
  "manager_ok m \<longleftrightarrow> hm_wf (item_ids m) \<and>
     map snd (item_ids m) = map (\<lambda>i. id_prefix m @ string_of_nat i) [0..<length (item_ids m)]"

definition manager_name :: "'k id_manager \<Rightarrow> 'k \<Rightarrow> string" where
  "manager_name m k = (case map_of (item_ids m) k of Some i \<Rightarrow> i | None \<Rightarrow> [])"

lemma Manager_GetOrCreateID_eq:
  assumes "Manager_GetOrCreateID k m = (i, m')"
  shows "manager_name m' k = i" and "map_of (item_ids m) \<subseteq>\<^sub>m map_of (item_ids m')"
    and "map_of (item_ids m') k = Some i" and "manager_ok m \<Longrightarrow> manager_ok m'"
    and "dom (map_of (item_ids m')) = insert k (dom (map_of (item_ids m)))" and "id_prefix m' = id_prefix m"
proof -
  have "i = (case map_of (item_ids m) k of Some j \<Rightarrow> j | None \<Rightarrow> id_prefix m @ string_of_nat (length (item_ids m)))"
    and m': "m' = m\<lparr>item_ids := fst (hm_insert k (id_prefix m @ string_of_nat (length (item_ids m))) (item_ids m))\<rparr>"
    using assms
    by (auto simp: Manager_GetOrCreateID_def hm_insert_eq map_add_def Let_def split: option.splits if_splits)
  then show "map_of (item_ids m') k = Some i"
    by (auto simp: map_of_hm_insert split: option.splits)
  then show "manager_name m' k = i" by (simp add: manager_name_def)
  show "map_of (item_ids m) \<subseteq>\<^sub>m map_of (item_ids m')" and "id_prefix m' = id_prefix m"
    by (auto simp: m' map_le_def map_of_hm_insert)
  show "dom (map_of (item_ids m')) = insert k (dom (map_of (item_ids m)))"
    by (auto simp: m' map_of_hm_insert dom_def)
  show "manager_ok m'" if "manager_ok m"
    using that by (auto simp: manager_ok_def m' hm_insert_eq hm_wf_def map_of_eq_None_iff)
qed

lemma manager_name_inj:
  assumes "manager_ok m"
  shows "inj_on (manager_name m) (dom (map_of (item_ids m)))"
proof (rule inj_onI)
  fix x y
  assume xy: "x \<in> dom (map_of (item_ids m))" "y \<in> dom (map_of (item_ids m))"
    and eq: "manager_name m x = manager_name m y"
  have pos: "\<exists>i < length (item_ids m). fst (item_ids m ! i) = k \<and> manager_name m k = id_prefix m @ string_of_nat i"
    if "k \<in> dom (map_of (item_ids m))" for k
  proof -
    from that obtain n where n: "map_of (item_ids m) k = Some n" by blast
    then obtain i where i: "i < length (item_ids m)" "item_ids m ! i = (k, n)"
      by (metis in_set_conv_nth map_of_SomeD)
    have "snd (item_ids m ! i) = map snd (item_ids m) ! i" using i(1) by simp
    also have "\<dots> = id_prefix m @ string_of_nat i"
      using assms i(1) by (simp add: manager_ok_def)
    finally show ?thesis using i n by (auto simp: manager_name_def)
  qed
  from pos [OF xy(1)] pos [OF xy(2)] eq show "x = y" by auto
qed

definition ssa_le :: "ssa_names \<Rightarrow> ssa_names \<Rightarrow> bool" where
  "ssa_le s s' \<longleftrightarrow> map_of (item_ids (block_ids s)) \<subseteq>\<^sub>m map_of (item_ids (block_ids s')) \<and>
     map_of (item_ids (module_ids s)) \<subseteq>\<^sub>m map_of (item_ids (module_ids s')) \<and>
     map_of (item_ids (value_ids s)) \<subseteq>\<^sub>m map_of (item_ids (value_ids s')) \<and>
     id_prefix (block_ids s') = id_prefix (block_ids s) \<and> id_prefix (module_ids s') = id_prefix (module_ids s) \<and>
     id_prefix (value_ids s') = id_prefix (value_ids s)"

definition ssa_ok :: "ssa_names \<Rightarrow> bool" where
  "ssa_ok s \<longleftrightarrow> manager_ok (block_ids s) \<and> manager_ok (module_ids s) \<and> manager_ok (value_ids s)"

abbreviation value_name :: "ssa_names \<Rightarrow> ir_value \<Rightarrow> string" where
  "value_name s \<equiv> manager_name (value_ids s)"

abbreviation block_name :: "ssa_names \<Rightarrow> block_id \<Rightarrow> string" where
  "block_name s \<equiv> manager_name (block_ids s)"

abbreviation mod_name :: "ssa_names \<Rightarrow> module_id \<Rightarrow> string" where
  "mod_name s \<equiv> manager_name (module_ids s)"

lemma ssa_le_refl [simp]: "ssa_le s s"
  by (simp add: ssa_le_def)

lemma ssa_le_trans: "ssa_le s t \<Longrightarrow> ssa_le t u \<Longrightarrow> ssa_le s u"
  unfolding ssa_le_def by (auto intro: map_le_trans)

lemma name_stable: "map_of (item_ids m) k = Some i \<Longrightarrow> map_of (item_ids m) \<subseteq>\<^sub>m map_of (item_ids m') \<Longrightarrow>
    manager_name m' k = i"
  by (metis domI manager_name_def map_le_def option.simps(5))

text \<open>A name once given is the name in every later state.\<close>

lemma GetOrCreateID_value_step:
  assumes "GetOrCreateID_value v s = (i, s')"
  shows "ssa_le s s' \<and> (ssa_ok s \<longrightarrow> ssa_ok s') \<and> (\<forall>t. ssa_le s' t \<longrightarrow> value_name t v = i) \<and>
    v \<in> dom (map_of (item_ids (value_ids s')))"
proof -
  obtain m where m: "Manager_GetOrCreateID v (value_ids s) = (i, m)" and s': "s' = s\<lparr>value_ids := m\<rparr>"
    using assms by (auto simp: GetOrCreateID_value_def split: prod.splits)
  from Manager_GetOrCreateID_eq [OF m] name_stable [of m v i] show ?thesis
    by (auto simp: s' ssa_le_def ssa_ok_def)
qed

lemma GetOrCreateID_block_step:
  assumes "GetOrCreateID_block v s = (i, s')"
  shows "ssa_le s s' \<and> (ssa_ok s \<longrightarrow> ssa_ok s') \<and> (\<forall>t. ssa_le s' t \<longrightarrow> block_name t v = i)"
proof -
  obtain m where m: "Manager_GetOrCreateID v (block_ids s) = (i, m)" and s': "s' = s\<lparr>block_ids := m\<rparr>"
    using assms by (auto simp: GetOrCreateID_block_def split: prod.splits)
  from Manager_GetOrCreateID_eq [OF m] name_stable [of m v i] show ?thesis
    by (auto simp: s' ssa_le_def ssa_ok_def)
qed

lemma GetOrCreateID_module_step:
  assumes "GetOrCreateID_module v s = (i, s')"
  shows "ssa_le s s' \<and> (ssa_ok s \<longrightarrow> ssa_ok s') \<and> (\<forall>t. ssa_le s' t \<longrightarrow> mod_name t v = i)"
proof -
  obtain m where m: "Manager_GetOrCreateID v (module_ids s) = (i, m)" and s': "s' = s\<lparr>module_ids := m\<rparr>"
    using assms by (auto simp: GetOrCreateID_module_def split: prod.splits)
  from Manager_GetOrCreateID_eq [OF m] name_stable [of m v i] show ?thesis
    by (auto simp: s' ssa_le_def ssa_ok_def)
qed

section \<open>The text of a module\<close>

text \<open>The text for given names, with no state.\<close>

definition render_value :: "storage_heap \<Rightarrow> ssa_names \<Rightarrow> ir_value \<Rightarrow> string" where
  "render_value heap t v = (case v of
     Any \<Rightarrow> Any_ToString
   | StoredValue sid \<Rightarrow> (case heap sid of Some s \<Rightarrow> Storage_ToString s | None \<Rightarrow> [])
   | _ \<Rightarrow> value_name t v)"

definition render_attributes :: "(double \<Rightarrow> string) \<Rightarrow> named_attribute_map \<Rightarrow> string" where
  "render_attributes lg attrs = str_join '', '' (map (\<lambda>name. name @ '': '' @
     Attribute_ToString lg (the (map_of attrs name))) (sort (map fst attrs)))"

definition result_values :: "op_id \<times> operation \<Rightarrow> ir_value list" where
  "result_values oper = map (OperationResult (fst oper)) [0..<NumberOfOutputs (snd oper)]"

definition render_operation ::
  "storage_heap \<Rightarrow> (double \<Rightarrow> string) \<Rightarrow> op_id \<times> operation \<Rightarrow> nat \<Rightarrow> ssa_names \<Rightarrow> string" where
  "render_operation heap lg oper n t = replicate (n * 2) (CHR '' '') @
     str_join '', '' (map (value_name t) (result_values oper)) @ '' = '' @
     op_name (op_of (snd oper)) @ '' ['' @ render_attributes lg (attributes (snd oper)) @ ''](''  @
     str_join '', '' (map (render_value heap t) (inputs (snd oper))) @ '')'' @ newline"

definition render_block ::
  "storage_heap \<Rightarrow> (double \<Rightarrow> string) \<Rightarrow> block_id \<times> block \<Rightarrow> nat \<Rightarrow> ssa_names \<Rightarrow> string" where
  "render_block heap lg b n t = replicate (n * 2) (CHR '' '') @ ''block '' @ block_name t (fst b) @ '' {'' @ newline @
     concat (map (\<lambda>oper. render_operation heap lg oper (n + 1) t) (operations (snd b))) @
     replicate (n * 2) (CHR '' '') @ ''}  // block '' @ block_name t (fst b) @ newline"

definition render_module ::
  "storage_heap \<Rightarrow> (double \<Rightarrow> string) \<Rightarrow> module_id \<times> ir_module \<Rightarrow> nat \<Rightarrow> ssa_names \<Rightarrow> string" where
  "render_module heap lg m n t = replicate (n * 2) (CHR '' '') @ ''module '' @ mod_name t (fst m) @ '' {'' @ newline @
     concat (map (\<lambda>b. render_block heap lg b (n + 1) t) (blocks (snd m))) @
     replicate (n * 2) (CHR '' '') @ ''}  // module '' @ mod_name t (fst m) @ newline"

text \<open>A printing step appends the text that the names of any later state give, restores the
  indentation and names the given values.\<close>

definition ssa_step :: "ssa_names \<Rightarrow> ssa_names \<Rightarrow> bool" where
  "ssa_step s s' \<longleftrightarrow> ssa_le s s' \<and> (ssa_ok s \<longrightarrow> ssa_ok s')"

definition named :: "ssa_names \<Rightarrow> ir_value set" where
  "named s = dom (map_of (item_ids (value_ids s)))"

definition prints ::
  "(ir_printer \<Rightarrow> (unit \<times> ir_printer) result) \<Rightarrow> ir_value set \<Rightarrow> (nat \<Rightarrow> ssa_names \<Rightarrow> string) \<Rightarrow> bool" where
  "prints f V txt \<longleftrightarrow> (\<forall>p. \<exists>p'. f p = Inr ((), p') \<and> indent p' = indent p \<and> ssa_step (ssa p) (ssa p') \<and>
     V \<subseteq> named (ssa p') \<and> (\<forall>t. ssa_le (ssa p') t \<longrightarrow> out p' = out p @ txt (indent p) t))"

lemma printsD:
  assumes "prints f V txt"
  obtains p' where "f p = Inr ((), p')" "indent p' = indent p" "ssa_step (ssa p) (ssa p')"
    "V \<subseteq> named (ssa p')" "\<forall>t. ssa_le (ssa p') t \<longrightarrow> out p' = out p @ txt (indent p) t"
  using assms unfolding prints_def by blast

lemma ssa_step_refl [simp]: "ssa_step s s"
  by (simp add: ssa_step_def)

lemma ssa_step_trans: "ssa_step s t \<Longrightarrow> ssa_step t u \<Longrightarrow> ssa_step s u"
  unfolding ssa_step_def using ssa_le_trans by blast

lemma ssa_step_named: "ssa_step s t \<Longrightarrow> named s \<subseteq> named t"
  by (auto simp: ssa_step_def ssa_le_def named_def map_le_implies_dom_le)

lemma ssa_step_le: "ssa_step s t \<Longrightarrow> ssa_le t u \<Longrightarrow> ssa_le s u"
  unfolding ssa_step_def using ssa_le_trans by blast

lemma map_state_names:
  assumes "\<And>x s. x \<in> set xs \<Longrightarrow> \<exists>y s'. f x s = Inr (y, s') \<and> ssa_step s s' \<and> V x \<subseteq> named s' \<and>
      (\<forall>t. ssa_le s' t \<longrightarrow> g t x = y)"
  shows "\<exists>ys s'. map_state f xs s = Inr (ys, s') \<and> ssa_step s s' \<and> (\<Union>x \<in> set xs. V x) \<subseteq> named s' \<and>
      (\<forall>t. ssa_le s' t \<longrightarrow> map (g t) xs = ys)"
  using assms
proof (induction xs arbitrary: s)
  case Nil
  then show ?case by simp
next
  case (Cons x xs)
  from Cons.prems [of x s] obtain y s1 where y: "f x s = Inr (y, s1)" "ssa_step s s1" "V x \<subseteq> named s1"
    "\<forall>t. ssa_le s1 t \<longrightarrow> g t x = y" by auto
  from Cons.IH [of s1] Cons.prems obtain ys s2 where ys: "map_state f xs s1 = Inr (ys, s2)" "ssa_step s1 s2"
    "(\<Union>x \<in> set xs. V x) \<subseteq> named s2" "\<forall>t. ssa_le s2 t \<longrightarrow> map (g t) xs = ys" by auto
  have "map_state f (x # xs) s = Inr (y # ys, s2)" by (simp add: y(1) ys(1))
  moreover have "ssa_step s s2" using y(2) ys(2) by (rule ssa_step_trans)
  moreover have "(\<Union>x \<in> set (x # xs). V x) \<subseteq> named s2" using y(3) ys(3) ssa_step_named [OF ys(2)] by auto
  moreover have "\<forall>t. ssa_le s2 t \<longrightarrow> map (g t) (x # xs) = y # ys" using y(4) ys(4) ssa_step_le [OF ys(2)] by auto
  ultimately show ?case by blast
qed

definition known_storages :: "storage_heap \<Rightarrow> ir_value list \<Rightarrow> bool" where
  "known_storages heap vs \<longleftrightarrow> (\<forall>v \<in> set vs. case v of StoredValue sid \<Rightarrow> heap sid \<noteq> None | _ \<Rightarrow> True)"

fun ssa_named :: "ir_value \<Rightarrow> bool" where
  "ssa_named (OperationResult _ _) = True"
| "ssa_named (BlockArgument _ _) = True"
| "ssa_named _ = False"

lemma GetOrCreateID_value_names:
  "\<exists>y s'. GetOrCreateID_value v s = (y, s') \<and> ssa_step s s' \<and> v \<in> named s' \<and> (\<forall>t. ssa_le s' t \<longrightarrow> value_name t v = y)"
proof -
  obtain y s' where y: "GetOrCreateID_value v s = (y, s')" by (cases "GetOrCreateID_value v s")
  with GetOrCreateID_value_step [OF y] show ?thesis by (simp add: ssa_step_def named_def)
qed

lemma ValueToString_names:
  assumes "known_storages heap [v]"
  shows "\<exists>y s'. ValueToString heap v s = Inr (y, s') \<and> ssa_step s s' \<and> {w. w = v \<and> ssa_named w} \<subseteq> named s' \<and>
      (\<forall>t. ssa_le s' t \<longrightarrow> render_value heap t v = y)"
proof (cases v)
  case (BlockArgument b i)
  with GetOrCreateID_value_names [of v s] show ?thesis by (auto simp: render_value_def)
next
  case (OperationResult oid i)
  with GetOrCreateID_value_names [of v s] show ?thesis by (auto simp: render_value_def)
next
  case (StoredValue sid)
  with assms show ?thesis by (auto simp: render_value_def known_storages_def StoredValueToString_def)
qed (auto simp: render_value_def)

lemma PrintNamedMapInNameOrder_eq:
  "PrintNamedMapInNameOrder (Attribute_ToString lg) attrs = Inr (render_attributes lg attrs)"
proof -
  have "map_result (\<lambda>name. rbind (check_some (map_of attrs name) ''map_to_print.at(name)'')
        (\<lambda>v. Inr (name @ '': '' @ Attribute_ToString lg v))) names =
      Inr (map (\<lambda>name. name @ '': '' @ Attribute_ToString lg (the (map_of attrs name))) names)"
    if "set names \<subseteq> fst ` set attrs" for names
    using that
  proof (induction names)
    case (Cons name names)
    then obtain v where "map_of attrs name = Some v"
      by (metis list.set_intros(1) map_of_eq_None_iff not_None_eq subsetD)
    with Cons show ?case by simp
  qed simp
  from this [of "sort (map fst attrs)"] show ?thesis
    by (simp add: PrintNamedMapInNameOrder_def render_attributes_def)
qed

lemma prints_operation:
  assumes "known_storages heap (inputs (snd oper))"
  shows "prints (printer_PreVisit_operation heap lg oper)
    (set (result_values oper) \<union> {v \<in> set (inputs (snd oper)). ssa_named v})
    (render_operation heap lg oper)"
  unfolding prints_def
proof
  fix p :: ir_printer
  let ?ins = "inputs (snd oper)"
  have "\<exists>y s'. ValueToString heap v s = Inr (y, s') \<and> ssa_step s s' \<and> {w. w = v \<and> ssa_named w} \<subseteq> named s' \<and>
      (\<forall>t. ssa_le s' t \<longrightarrow> render_value heap t v = y)" if "v \<in> set ?ins" for v s
    using assms that by (intro ValueToString_names) (simp add: known_storages_def)
  from map_state_names [where xs = ?ins and g = "render_value heap" and V = "\<lambda>v. {w. w = v \<and> ssa_named w}", OF this]
  obtain ins s1 where ins: "map_state (ValueToString heap) ?ins (ssa p) = Inr (ins, s1)" "ssa_step (ssa p) s1"
    "(\<Union>v \<in> set ?ins. {w. w = v \<and> ssa_named w}) \<subseteq> named s1"
    "\<forall>t. ssa_le s1 t \<longrightarrow> map (render_value heap t) ?ins = ins" by blast
  let ?n = "number_of_return_values (op_of (snd oper))"
  let ?f = "\<lambda>i s. Inr (GetOrCreateID_value (MakeOperationResultValue (fst oper) i) s)"
  have "\<exists>y s'. ?f i s = Inr (y, s') \<and> ssa_step s s' \<and> {MakeOperationResultValue (fst oper) i} \<subseteq> named s' \<and>
      (\<forall>t. ssa_le s' t \<longrightarrow> value_name t (MakeOperationResultValue (fst oper) i) = y)" for i s
    using GetOrCreateID_value_names [of "MakeOperationResultValue (fst oper) i" s] by auto
  then have "\<exists>ys s'. map_state ?f [0..<?n] s1 = Inr (ys, s') \<and> ssa_step s1 s' \<and>
      (\<Union>i \<in> set [0..<?n]. {MakeOperationResultValue (fst oper) i}) \<subseteq> named s' \<and>
      (\<forall>t. ssa_le s' t \<longrightarrow> map (\<lambda>i. value_name t (MakeOperationResultValue (fst oper) i)) [0..<?n] = ys)"
    by (intro map_state_names [where V = "\<lambda>i. {MakeOperationResultValue (fst oper) i}"
          and g = "\<lambda>t i. value_name t (MakeOperationResultValue (fst oper) i)"]) blast
  then obtain res s2 where res: "map_state ?f [0..<?n] s1 = Inr (res, s2)" "ssa_step s1 s2"
    "(\<Union>i \<in> set [0..<?n]. {MakeOperationResultValue (fst oper) i}) \<subseteq> named s2"
    "\<forall>t. ssa_le s2 t \<longrightarrow> map (\<lambda>i. value_name t (MakeOperationResultValue (fst oper) i)) [0..<?n] = res" by blast
  let ?p = "emit (Indent p @ str_join '', '' res @ '' = '' @ op_name (op_of (snd oper)) @ '' ['' @
      render_attributes lg (attributes (snd oper)) @ ''](''  @ str_join '', '' ins @ '')'' @ newline) (p\<lparr>ssa := s2\<rparr>)"
  have "printer_PreVisit_operation heap lg oper p = Inr ((), ?p)"
    by (simp add: printer_PreVisit_operation_def PrintNamedMapInNameOrder_eq ins(1) res(1) Let_def)
  moreover have "indent ?p = indent p" "ssa_step (ssa p) (ssa ?p)"
    using ssa_step_trans [OF ins(2) res(2)] by (simp_all add: emit_def)
  moreover have "set (result_values oper) \<union> {v \<in> set ?ins. ssa_named v} \<subseteq> named (ssa ?p)"
    using res(3) ins(3) ssa_step_named [OF res(2)]
    by (auto simp: result_values_def NumberOfOutputs_def MakeOperationResultValue_def emit_def)
  moreover have "out ?p = out p @ render_operation heap lg oper (indent p) t" if t: "ssa_le (ssa ?p) t" for t
  proof -
    from t have le: "ssa_le s2 t" "ssa_le s1 t" using ssa_step_le [OF res(2)] by (simp_all add: emit_def)
    have "map (value_name t) (result_values oper) = res"
      using res(4) le(1) by (simp add: result_values_def NumberOfOutputs_def MakeOperationResultValue_def comp_def)
    with ins(4) le(2) show ?thesis by (simp add: emit_def render_operation_def Indent_def)
  qed
  ultimately show "\<exists>p'. printer_PreVisit_operation heap lg oper p = Inr ((), p') \<and> indent p' = indent p \<and>
      ssa_step (ssa p) (ssa p') \<and> set (result_values oper) \<union> {v \<in> set ?ins. ssa_named v} \<subseteq> named (ssa p') \<and>
      (\<forall>t. ssa_le (ssa p') t \<longrightarrow> out p' = out p @ render_operation heap lg oper (indent p) t)" by blast
qed

lemma prints_fold:
  assumes "\<And>x. x \<in> set xs \<Longrightarrow> prints (f x) (V x) (txt x)"
  shows "prints (\<lambda>p. fold_result (\<lambda>x (acc, p'). rbind (f x p') (\<lambda>(child, p''). Inr (acc, p''))) xs ((), p))
    (\<Union>x \<in> set xs. V x) (\<lambda>n t. concat (map (\<lambda>x. txt x n t) xs))"
  using assms
proof (induction xs)
  case Nil
  then show ?case by (simp add: prints_def)
next
  case (Cons x xs)
  let ?fold = "\<lambda>xs p. fold_result (\<lambda>x (acc, p'). rbind (f x p') (\<lambda>(child, p''). Inr (acc, p''))) xs ((), p)"
  show ?case
    unfolding prints_def
  proof
    fix p :: ir_printer
    have "prints (f x) (V x) (txt x)" using Cons.prems [of x] by simp
    then obtain p1 where p1: "f x p = Inr ((), p1)" "indent p1 = indent p"
      "ssa_step (ssa p) (ssa p1)" "V x \<subseteq> named (ssa p1)"
      "\<forall>t. ssa_le (ssa p1) t \<longrightarrow> out p1 = out p @ txt x (indent p) t" by (rule printsD [where p = p])
    from Cons.IH Cons.prems have "prints (?fold xs) (\<Union>x \<in> set xs. V x) (\<lambda>n t. concat (map (\<lambda>x. txt x n t) xs))" by simp
    then obtain p2 where p2: "?fold xs p1 = Inr ((), p2)" "indent p2 = indent p1" "ssa_step (ssa p1) (ssa p2)"
      "(\<Union>x \<in> set xs. V x) \<subseteq> named (ssa p2)"
      "\<forall>t. ssa_le (ssa p2) t \<longrightarrow> out p2 = out p1 @ concat (map (\<lambda>x. txt x (indent p1) t) xs)"
      by (rule printsD [where p = p1])
    have "?fold (x # xs) p = Inr ((), p2)" using p1(1) p2(1) by simp
    moreover have "ssa_step (ssa p) (ssa p2)" using p1(3) p2(3) by (rule ssa_step_trans)
    moreover have "(\<Union>x \<in> set (x # xs). V x) \<subseteq> named (ssa p2)"
      using p1(4) p2(4) ssa_step_named [OF p2(3)] by auto
    moreover have "out p2 = out p @ concat (map (\<lambda>x. txt x (indent p) t) (x # xs))" if "ssa_le (ssa p2) t" for t
      using p1(2,5) p2(5) that ssa_step_le [OF p2(3) that] by simp
    ultimately show "\<exists>p'. ?fold (x # xs) p = Inr ((), p') \<and> indent p' = indent p \<and> ssa_step (ssa p) (ssa p') \<and>
        (\<Union>x \<in> set (x # xs). V x) \<subseteq> named (ssa p') \<and>
        (\<forall>t. ssa_le (ssa p') t \<longrightarrow> out p' = out p @ concat (map (\<lambda>x. txt x (indent p) t) (x # xs)))"
      using p1(2) p2(2) by metis
  qed
qed

lemmas ir_printer_simps = ir_printer_def default_visitor_def

definition named_values :: "(op_id \<times> operation) list \<Rightarrow> ir_value set" where
  "named_values opers = (\<Union>oper \<in> set opers. set (result_values oper) \<union> {v \<in> set (inputs (snd oper)). ssa_named v})"

lemma Visit_operation_ir_printer: "Visit_operation (ir_printer heap lg) oper = printer_PreVisit_operation heap lg oper"
  by (rule ext) (auto simp: Visit_operation_def ir_printer_simps rbind_def split: sum.splits)

lemma prints_block:
  assumes "\<forall>oper \<in> set (operations (snd b)). known_storages heap (inputs (snd oper))"
  shows "prints (Visit_block (ir_printer heap lg) b) (named_values (operations (snd b))) (render_block heap lg b)"
  unfolding prints_def
proof
  fix p :: ir_printer
  obtain i s where i: "GetOrCreateID_block (fst b) (ssa p) = (i, s)" by (cases "GetOrCreateID_block (fst b) (ssa p)")
  note i' = GetOrCreateID_block_step [OF i]
  let ?p1 = "IncreaseIndent (emit (Indent p @ ''block '' @ i @ '' {'' @ newline) (p\<lparr>ssa := s\<rparr>))"
  let ?f = "\<lambda>oper (acc, p'). rbind (printer_PreVisit_operation heap lg oper p') (\<lambda>(child, p''). Inr (acc, p''))"
  have "prints (\<lambda>p. fold_result ?f (operations (snd b)) ((), p)) (named_values (operations (snd b)))
     (\<lambda>n t. concat (map (\<lambda>oper. render_operation heap lg oper n t) (operations (snd b))))"
    unfolding named_values_def using assms by (intro prints_fold prints_operation) blast
  then obtain p2 where p2: "fold_result ?f (operations (snd b)) ((), ?p1) = Inr ((), p2)" "indent p2 = indent ?p1"
    "ssa_step (ssa ?p1) (ssa p2)" "named_values (operations (snd b)) \<subseteq> named (ssa p2)"
    "\<forall>t. ssa_le (ssa p2) t \<longrightarrow> out p2 = out ?p1 @
       concat (map (\<lambda>oper. render_operation heap lg oper (indent ?p1) t) (operations (snd b)))"
    by (rule printsD [where p = ?p1])
  obtain j s3 where j: "GetOrCreateID_block (fst b) (ssa p2) = (j, s3)" by (cases "GetOrCreateID_block (fst b) (ssa p2)")
  note j' = GetOrCreateID_block_step [OF j]
  let ?p3 = "emit (Indent p @ ''}  // block '' @ j @ newline) (p2\<lparr>indent := indent p, ssa := s3\<rparr>)"
  have run: "Visit_block (ir_printer heap lg) b p = Inr ((), ?p3)"
    using p2(1,2) i j by (simp add: Visit_block_def Visit_operation_ir_printer)
      (simp add: ir_printer_simps printer_PreVisit_block_def printer_PostVisit_block_def
        DecreaseIndent_def IncreaseIndent_def emit_def Indent_def)
  have step: "ssa_step (ssa p) s" "ssa_step (ssa p2) s3" using i' j' by (auto simp: ssa_step_def)
  have mid: "ssa_step s (ssa p2)" using p2(3) by (simp add: IncreaseIndent_def emit_def)
  have "ssa_step (ssa p) (ssa ?p3)"
    using ssa_step_trans [OF ssa_step_trans [OF step(1) mid] step(2)] by (simp add: emit_def)
  moreover have "named_values (operations (snd b)) \<subseteq> named (ssa ?p3)"
    using p2(4) ssa_step_named [OF step(2)] by (auto simp: emit_def)
  moreover have "out ?p3 = out p @ render_block heap lg b (indent p) t" if t: "ssa_le (ssa ?p3) t" for t
  proof -
    have le3: "ssa_le s3 t" using t by (simp add: emit_def)
    then have le2: "ssa_le (ssa p2) t" by (rule ssa_step_le [OF step(2)])
    then have le1: "ssa_le s t" by (rule ssa_step_le [OF mid])
    have "block_name t (fst b) = j" "block_name t (fst b) = i" using i' j' le3 le1 by auto
    with p2(5) [rule_format, OF le2] show ?thesis
      by (simp add: emit_def render_block_def Indent_def IncreaseIndent_def)
  qed
  ultimately show "\<exists>p'. Visit_block (ir_printer heap lg) b p = Inr ((), p') \<and> indent p' = indent p \<and>
      ssa_step (ssa p) (ssa p') \<and> named_values (operations (snd b)) \<subseteq> named (ssa p') \<and>
      (\<forall>t. ssa_le (ssa p') t \<longrightarrow> out p' = out p @ render_block heap lg b (indent p) t)"
    using run by (intro exI [of _ ?p3]) (simp add: emit_def)
qed

lemma prints_module:
  assumes "\<forall>oper \<in> set (module_operations (snd m)). known_storages heap (inputs (snd oper))"
  shows "prints (Visit_module (ir_printer heap lg) m) (named_values (module_operations (snd m)))
    (render_module heap lg m)"
  unfolding prints_def
proof
  fix p :: ir_printer
  obtain i s where i: "GetOrCreateID_module (fst m) (ssa p) = (i, s)" by (cases "GetOrCreateID_module (fst m) (ssa p)")
  note i' = GetOrCreateID_module_step [OF i]
  let ?p1 = "IncreaseIndent (emit (Indent p @ ''module '' @ i @ '' {'' @ newline) (p\<lparr>ssa := s\<rparr>))"
  let ?f = "\<lambda>b (acc, p'). rbind (Visit_block (ir_printer heap lg) b p') (\<lambda>(child, p''). Inr (acc, p''))"
  have vals: "named_values (module_operations (snd m)) =
      (\<Union>b \<in> set (blocks (snd m)). named_values (operations (snd b)))"
    by (auto simp: named_values_def module_operations_def)
  have "prints (\<lambda>p. fold_result ?f (blocks (snd m)) ((), p)) (named_values (module_operations (snd m)))
     (\<lambda>n t. concat (map (\<lambda>b. render_block heap lg b n t) (blocks (snd m))))"
    unfolding vals using assms by (intro prints_fold prints_block) (auto simp: module_operations_def)
  then obtain p2 where p2: "fold_result ?f (blocks (snd m)) ((), ?p1) = Inr ((), p2)" "indent p2 = indent ?p1"
    "ssa_step (ssa ?p1) (ssa p2)" "named_values (module_operations (snd m)) \<subseteq> named (ssa p2)"
    "\<forall>t. ssa_le (ssa p2) t \<longrightarrow> out p2 = out ?p1 @
       concat (map (\<lambda>b. render_block heap lg b (indent ?p1) t) (blocks (snd m)))"
    by (rule printsD [where p = ?p1])
  obtain j s3 where j: "GetOrCreateID_module (fst m) (ssa p2) = (j, s3)" by (cases "GetOrCreateID_module (fst m) (ssa p2)")
  note j' = GetOrCreateID_module_step [OF j]
  let ?p3 = "emit (Indent p @ ''}  // module '' @ j @ newline) (p2\<lparr>indent := indent p, ssa := s3\<rparr>)"
  have fold: "FoldResult (ir_printer heap lg) = (\<lambda>acc child s. Inr (acc, s))"
    "PreVisit_module (ir_printer heap lg) = printer_PreVisit_module"
    "PostVisit_module (ir_printer heap lg) = printer_PostVisit_module"
    by (simp_all add: ir_printer_simps)
  have run: "Visit_module (ir_printer heap lg) m p = Inr ((), ?p3)"
    using p2(1,2) i j by (simp add: Visit_module_def fold printer_PreVisit_module_def printer_PostVisit_module_def)
      (simp add: DecreaseIndent_def IncreaseIndent_def emit_def Indent_def)
  have step: "ssa_step (ssa p) s" "ssa_step (ssa p2) s3" using i' j' by (auto simp: ssa_step_def)
  have mid: "ssa_step s (ssa p2)" using p2(3) by (simp add: IncreaseIndent_def emit_def)
  have "ssa_step (ssa p) (ssa ?p3)"
    using ssa_step_trans [OF ssa_step_trans [OF step(1) mid] step(2)] by (simp add: emit_def)
  moreover have "named_values (module_operations (snd m)) \<subseteq> named (ssa ?p3)"
    using p2(4) ssa_step_named [OF step(2)] by (auto simp: emit_def)
  moreover have "out ?p3 = out p @ render_module heap lg m (indent p) t" if t: "ssa_le (ssa ?p3) t" for t
  proof -
    have le3: "ssa_le s3 t" using t by (simp add: emit_def)
    then have le2: "ssa_le (ssa p2) t" by (rule ssa_step_le [OF step(2)])
    then have le1: "ssa_le s t" by (rule ssa_step_le [OF mid])
    have "mod_name t (fst m) = j" "mod_name t (fst m) = i" using i' j' le3 le1 by auto
    with p2(5) [rule_format, OF le2] show ?thesis
      by (simp add: emit_def render_module_def Indent_def IncreaseIndent_def)
  qed
  ultimately show "\<exists>p'. Visit_module (ir_printer heap lg) m p = Inr ((), p') \<and> indent p' = indent p \<and>
      ssa_step (ssa p) (ssa p') \<and> named_values (module_operations (snd m)) \<subseteq> named (ssa p') \<and>
      (\<forall>t. ssa_le (ssa p') t \<longrightarrow> out p' = out p @ render_module heap lg m (indent p) t)"
    using run by (intro exI [of _ ?p3]) (simp add: emit_def)
qed

section \<open>Names that a new \<^verbatim>\<open>SsaNames\<close> gave\<close>

definition generated_names :: "ssa_names \<Rightarrow> bool" where
  "generated_names t \<longleftrightarrow> ssa_step new_ssa_names t"

lemma generated_names_new [simp]: "generated_names new_ssa_names"
  by (simp add: generated_names_def)

lemma generated_names_step: "generated_names s \<Longrightarrow> ssa_step s t \<Longrightarrow> generated_names t"
  unfolding generated_names_def by (rule ssa_step_trans)

lemma generated_names_ok:
  assumes "generated_names t"
  shows "ssa_ok t" and "id_prefix (block_ids t) = ''b''" and "id_prefix (value_ids t) = ''%''"
proof -
  have "ssa_ok new_ssa_names" by (simp add: ssa_ok_def manager_ok_def new_ssa_names_def new_id_manager_def)
  with assms show "ssa_ok t" by (simp add: generated_names_def ssa_step_def)
  show "id_prefix (block_ids t) = ''b''" "id_prefix (value_ids t) = ''%''"
    using assms by (simp_all add: generated_names_def ssa_step_def ssa_le_def new_ssa_names_def new_id_manager_def)
qed

lemma manager_name_text:
  assumes "manager_ok m" "k \<in> dom (map_of (item_ids m))"
  shows "\<exists>i. manager_name m k = id_prefix m @ string_of_nat i"
proof -
  from assms(2) obtain n where n: "map_of (item_ids m) k = Some n" by blast
  then have "n \<in> set (map snd (item_ids m))" by (force dest: map_of_SomeD)
  then have "n \<in> set (map (\<lambda>i. id_prefix m @ string_of_nat i) [0..<length (item_ids m)])"
    using assms(1) by (simp only: manager_ok_def)
  with n show ?thesis by (auto simp: manager_name_def)
qed

lemma value_name_eq:
  assumes "generated_names t" "v \<in> named t" "value_name t v = value_name t w"
  shows "v = w"
proof -
  have ok: "manager_ok (value_ids t)" using generated_names_ok(1) [OF assms(1)] by (simp add: ssa_ok_def)
  from assms(2) manager_name_text [OF ok, of v] have "value_name t v \<noteq> []"
    using generated_names_ok(3) [OF assms(1)] by (auto simp: named_def)
  with assms(3) have "w \<in> named t" by (auto simp: named_def manager_name_def split: option.splits)
  with assms(2,3) manager_name_inj [OF ok] show ?thesis by (auto simp: named_def inj_on_def)
qed

lemma inj_on_value_name: "generated_names t \<Longrightarrow> V \<subseteq> named t \<Longrightarrow> inj_on (value_name t) V"
  by (rule inj_onI, rule value_name_eq) (assumption | erule (1) subsetD)+

section \<open>Properties\<close>

text \<open>C25: Printing a module whose stored values refer to known storages always succeeds, and the
  text is that of one fixed naming: every occurrence of a value, a block or the module has
  the same name, so an operand is printed as the result it refers to, and different results
  and block arguments of the module have different names. The attributes are sorted by name,
  so the order of the hash maps does not matter.\<close>

theorem printed_module_text:
  assumes "\<forall>oper \<in> set (module_operations (snd m)). known_storages heap (inputs (snd oper))"
  shows "\<exists>names. IRPrinter_ToString heap lg m = Inr (render_module heap lg m 0 names) \<and>
    inj_on (value_name names) (named_values (module_operations (snd m))) \<and>
    inj_on (block_name names) (dom (map_of (item_ids (block_ids names))))"
proof -
  let ?p = "\<lparr>out = [], indent = 0, ssa = new_ssa_names\<rparr>"
  from prints_module [OF assms, of lg] obtain p' where p': "Visit_module (ir_printer heap lg) m ?p = Inr ((), p')"
    "ssa_step (ssa ?p) (ssa p')" "named_values (module_operations (snd m)) \<subseteq> named (ssa p')"
    "\<forall>t. ssa_le (ssa p') t \<longrightarrow> out p' = out ?p @ render_module heap lg m (indent ?p) t"
    by (rule printsD [where p = ?p])
  have "ssa_ok new_ssa_names" by (simp add: ssa_ok_def manager_ok_def new_ssa_names_def new_id_manager_def)
  with p'(2) have ok: "ssa_ok (ssa p')" by (simp add: ssa_step_def)
  have "IRPrinter_ToString heap lg m = Inr (render_module heap lg m 0 (ssa p'))"
    using p'(1) p'(4) [rule_format, of "ssa p'"] by (simp add: IRPrinter_ToString_def IRPrinter_ToString_names_def)
  moreover have "inj_on (value_name (ssa p')) (named_values (module_operations (snd m)))"
    using manager_name_inj [of "value_ids (ssa p')"] ok p'(3) by (auto simp: ssa_ok_def named_def intro: inj_on_subset)
  moreover have "inj_on (block_name (ssa p')) (dom (map_of (item_ids (block_ids (ssa p')))))"
    using manager_name_inj [of "block_ids (ssa p')"] ok by (simp add: ssa_ok_def)
  ultimately show ?thesis by blast
qed

definition printed_module :: ir_module where
  "printed_module = \<lparr>blocks = [(0, \<lparr>parent_module = Some 0, block_inputs = [], block_outputs = [], operations =
     [(7, make_operation (Some 0) (make_operator ''core.input'') [(''b'', Int64Attribute 2), (''a'', StringAttribute ''x'')] [Any]),
      (9, make_operation (Some 0) (make_operator ''core.plus'') [] [OperationResult 7 0, BlockArgument 0 1])],
     results = []\<rparr>)], named_storage_map = []\<rparr>"

theorem printed_module_text_witness:
  "\<exists>names. IRPrinter_ToString (\<lambda>_. None) (\<lambda>_. []) (3, printed_module) =
       Inr (render_module (\<lambda>_. None) (\<lambda>_. []) (3, printed_module) 0 names) \<and>
     value_name names (OperationResult 7 0) \<noteq> value_name names (OperationResult 9 0)"
proof -
  have ops: "module_operations printed_module =
     [(7, make_operation (Some 0) (make_operator ''core.input'') [(''b'', Int64Attribute 2), (''a'', StringAttribute ''x'')] [Any]),
      (9, make_operation (Some 0) (make_operator ''core.plus'') [] [OperationResult 7 0, BlockArgument 0 1])]"
    by (simp add: module_operations_def printed_module_def)
  obtain names where "IRPrinter_ToString (\<lambda>_. None) (\<lambda>_. []) (3, printed_module) =
       Inr (render_module (\<lambda>_. None) (\<lambda>_. []) (3, printed_module) 0 names)"
    "inj_on (value_name names) (named_values (module_operations printed_module))"
    using printed_module_text [of "(3, printed_module)" "\<lambda>_. None" "\<lambda>_. []"]
    by (auto simp: ops known_storages_def make_operation_def)
  moreover have "OperationResult 7 0 \<in> named_values (module_operations printed_module)"
    "OperationResult 9 0 \<in> named_values (module_operations printed_module)"
    by (simp_all add: ops named_values_def result_values_def make_operation_def make_operator_def NumberOfOutputs_def)
  ultimately show ?thesis by (auto dest: inj_onD)
qed

text \<open>The name that \<^verbatim>\<open>AddID\<close> gives a value is not kept from the names that
  \<^verbatim>\<open>GetOrCreateID\<close> makes up later: after \<^verbatim>\<open>AddID(a, "%1")\<close> on fresh names, the next new value is
  named \<^verbatim>\<open>%1\<close> as well.\<close>

theorem custom_name_collides:
  "\<exists>s1 s2. AddID_value (OperationResult a i) ''%1'' new_ssa_names = Inr (''%1'', s1) \<and>
     GetOrCreateID_value (OperationResult (Suc a) i) s1 = (''%1'', s2) \<and>
     value_name s2 (OperationResult a i) = value_name s2 (OperationResult (Suc a) i)"
proof -
  have one: "string_of_nat (Suc 0) = ''1''" by code_simp
  show ?thesis
    by (simp add: AddID_value_def new_ssa_names_def new_id_manager_def Manager_FindID_def Manager_UpdateID_def
      GetOrCreateID_value_def Manager_GetOrCreateID_def hm_insert_eq hm_assign_def one manager_name_def Let_def)
qed

end
