(* ===== verification/Souffle_Facts.thy ===== *)
theory Souffle_Facts imports
  Ir_Printer
begin

text \<open>
  The facts that the Souffle back end gets of a module: \<^verbatim>\<open>src/ir/datalog/value.h\<close>,
  \<^verbatim>\<open>attribute.h\<close>, \<^verbatim>\<open>operation.h\<close>, \<^verbatim>\<open>input_relation_fact.h\<close>, and under
  \<^verbatim>\<open>src/backends/policy_engine/souffle/\<close> the visitor \<^verbatim>\<open>datalog_lowering_visitor.cc\<close> and
  \<^verbatim>\<open>raksha_datalog_facts.h\<close>. The lists are Souffle records of an element and the rest.
\<close>

section \<open>Datalog values\<close>

datatype datalog_value =
    Float double
  | Number int
  | Symbol string
  | Record "datalog_value list option"
  | Adt string "datalog_value list"

fun ToDatalogString :: "(double \<Rightarrow> string) \<Rightarrow> datalog_value \<Rightarrow> string" where
  "ToDatalogString lg (Float d) = lg d"
| "ToDatalogString lg (Number i) = string_of_int i"
| "ToDatalogString lg (Symbol s) = [CHR 34] @ s @ [CHR 34]"
| "ToDatalogString lg (Record None) = ''nil''"
| "ToDatalogString lg (Record (Some args)) = ''['' @ str_join '', '' (map (ToDatalogString lg) args) @ '']''"
| "ToDatalogString lg (Adt branch args) = ''$'' @ branch @ ''('' @ str_join '', '' (map (ToDatalogString lg) args) @ '')''"

text \<open>\<^verbatim>\<open>AttributeList\<close>, \<^verbatim>\<open>OperandList\<close> and \<^verbatim>\<open>ResultList\<close>: an element and the next record, or nil.\<close>

definition empty_list_record :: datalog_value where
  "empty_list_record = Record None"

definition list_record :: "datalog_value \<Rightarrow> datalog_value \<Rightarrow> datalog_value" where
  "list_record x next = Record (Some [x, next])"

definition datalog_attribute :: "string \<Rightarrow> datalog_value \<Rightarrow> datalog_value" where
  "datalog_attribute name payload = Record (Some [Symbol name, payload])"

definition String_payload :: "string \<Rightarrow> datalog_value" where
  "String_payload s = Adt ''StringAttributePayload'' [Symbol s]"

definition Float_payload :: "double \<Rightarrow> datalog_value" where
  "Float_payload d = Adt ''FloatAttributePayload'' [Float d]"

definition Number_payload :: "int \<Rightarrow> datalog_value" where
  "Number_payload i = Adt ''NumberAttributePayload'' [Number i]"

definition datalog_operation ::
  "datalog_value \<Rightarrow> datalog_value \<Rightarrow> datalog_value \<Rightarrow> datalog_value \<Rightarrow> datalog_value \<Rightarrow> datalog_value" where
  "datalog_operation owner oprt result operands attrs = Record (Some [owner, oprt, result, operands, attrs])"

section \<open>Facts\<close>

record input_relation_fact =
  GetRelationName :: string
  relation_arguments_of :: "datalog_value list"

definition IsOperationFact :: "datalog_value \<Rightarrow> input_relation_fact" where
  "IsOperationFact operation = \<lparr>GetRelationName = ''isOperation'', relation_arguments_of = [operation]\<rparr>"

definition fact_ToDatalogString :: "(double \<Rightarrow> string) \<Rightarrow> input_relation_fact \<Rightarrow> string" where
  "fact_ToDatalogString lg f = GetRelationName f @ ''('' @ str_join '', '' (map (ToDatalogString lg) (relation_arguments_of f)) @ '').''"

definition ToDatalogFactsFileString :: "(double \<Rightarrow> string) \<Rightarrow> input_relation_fact \<Rightarrow> string" where
  "ToDatalogFactsFileString lg f = str_join ''; '' (map (ToDatalogString lg) (relation_arguments_of f))"

record raksha_datalog_facts =
  is_operation_facts :: "input_relation_fact list"

definition AddIsOperationFact :: "input_relation_fact \<Rightarrow> raksha_datalog_facts \<Rightarrow> raksha_datalog_facts" where
  "AddIsOperationFact f facts = facts\<lparr>is_operation_facts := is_operation_facts facts @ [f]\<rparr>"

definition facts_ToDatalogString :: "(double \<Rightarrow> string) \<Rightarrow> raksha_datalog_facts \<Rightarrow> string" where
  "facts_ToDatalogString lg facts = str_join [CHR 10] (map (fact_ToDatalogString lg) (is_operation_facts facts))"

section \<open>The lowering visitor\<close>

text \<open>\<^verbatim>\<open>common::utils::rfold\<close> of a function that also changes a state.\<close>

definition rfold :: "('x \<Rightarrow> 'a \<times> 's \<Rightarrow> ('a \<times> 's) result) \<Rightarrow> 'x list \<Rightarrow> 'a \<times> 's \<Rightarrow> ('a \<times> 's) result" where
  "rfold fold_fn container init = fold_result fold_fn (rev container) init"

record datalog_lowering_visitor =
  dl_ssa_names :: ssa_names
  datalog_facts :: raksha_datalog_facts

definition new_datalog_lowering_visitor :: "ssa_names \<Rightarrow> datalog_lowering_visitor" where
  "new_datalog_lowering_visitor s = \<lparr>dl_ssa_names = s, datalog_facts = \<lparr>is_operation_facts = []\<rparr>\<rparr>"

definition kDefaultPrincipal :: string where
  "kDefaultPrincipal = ''sql''"

definition GetPayloadForAttribute :: "attribute \<Rightarrow> datalog_value result" where
  "GetPayloadForAttribute attr = (case GetIf_Float attr of
     Some d \<Rightarrow> Inr (Float_payload d)
   | None \<Rightarrow> (case GetIf_Int64 attr of
       Some i \<Rightarrow> Inr (Number_payload i)
     | None \<Rightarrow> (case GetIf_String attr of
         Some s \<Rightarrow> Inr (String_payload s)
       | None \<Rightarrow> Inl (Check_failed ''Unknown attribute kind.''))))"

definition lower_operand ::
  "storage_heap \<Rightarrow> ir_value \<Rightarrow> datalog_value \<times> ssa_names \<Rightarrow> (datalog_value \<times> ssa_names) result" where
  "lower_operand heap v = (\<lambda>(list_so_far, s).
     rbind (ValueToString heap v s) (\<lambda>(t, s). Inr (list_record (Symbol t) list_so_far, s)))"

text \<open>The entries of the map, sorted from the last name to the first.\<close>

definition lower_attributes :: "named_attribute_map \<Rightarrow> datalog_value result" where
  "lower_attributes ir_attr_map =
     fold_result (\<lambda>(name, a) list_so_far. rbind (GetPayloadForAttribute a) (\<lambda>p.
       Inr (list_record (datalog_attribute name p) list_so_far))) (rev (sort_key fst ir_attr_map)) empty_list_record"

definition lowering_PreVisit_operation ::
  "storage_heap \<Rightarrow> op_id \<times> operation \<Rightarrow> datalog_lowering_visitor \<Rightarrow> (unit \<times> datalog_lowering_visitor) result" where
  "lowering_PreVisit_operation heap oper v =
     rbind (rfold (lower_operand heap) (inputs (snd oper)) (empty_list_record, dl_ssa_names v)) (\<lambda>(operand_list, s).
     rbind (lower_attributes (attributes (snd oper))) (\<lambda>attribute_list.
     rbind (map_state (\<lambda>i s. Inr (GetOrCreateID_value (MakeOperationResultValue (fst oper) i) s))
              [0..<number_of_return_values (op_of (snd oper))] s) (\<lambda>(op_return_values, s).
     let result_list = fold (\<lambda>r list_so_far. list_record (Symbol r) list_so_far) (rev op_return_values) empty_list_record;
         operation = datalog_operation (Symbol kDefaultPrincipal) (Symbol (op_name (op_of (snd oper))))
           result_list operand_list attribute_list
     in Inr ((), v\<lparr>dl_ssa_names := s, datalog_facts := AddIsOperationFact (IsOperationFact operation) (datalog_facts v)\<rparr>))))"

definition lowering_visitor :: "storage_heap \<Rightarrow> (datalog_lowering_visitor, unit) visitor" where
  "lowering_visitor heap = (default_visitor ())\<lparr>PreVisit_operation := lowering_PreVisit_operation heap\<rparr>"

definition lower_module ::
  "storage_heap \<Rightarrow> ssa_names \<Rightarrow> module_id \<times> ir_module \<Rightarrow> datalog_lowering_visitor result" where
  "lower_module heap s m =
     rbind (Visit_module (lowering_visitor heap) m (new_datalog_lowering_visitor s)) (\<lambda>(_, v). Inr v)"

section \<open>The facts of a module\<close>

text \<open>A list as a record, and the fact of an operation for a naming of the values.\<close>

fun record_of :: "datalog_value list \<Rightarrow> datalog_value" where
  "record_of [] = Record None"
| "record_of (x # xs) = Record (Some [x, record_of xs])"

fun payload_value_of :: "attribute \<Rightarrow> datalog_value" where
  "payload_value_of (FloatAttribute d) = Float_payload d"
| "payload_value_of (Int64Attribute i) = Number_payload i"
| "payload_value_of (StringAttribute s) = String_payload s"

definition operation_fact :: "storage_heap \<Rightarrow> ssa_names \<Rightarrow> op_id \<times> operation \<Rightarrow> input_relation_fact" where
  "operation_fact heap t oper = IsOperationFact (Record (Some [Symbol ''sql'', Symbol (op_name (op_of (snd oper))),
     record_of (map (\<lambda>v. Symbol (value_name t v)) (result_values oper)),
     record_of (map (\<lambda>v. Symbol (render_value heap t v)) (inputs (snd oper))),
     record_of (map (\<lambda>(n, a). datalog_attribute n (payload_value_of a)) (sort_key fst (attributes (snd oper))))]))"

lemma GetPayloadForAttribute_eq: "GetPayloadForAttribute a = Inr (payload_value_of a)"
  by (cases a) (simp_all add: GetPayloadForAttribute_def)

lemma record_of_fold: "fold list_record (rev xs) r = foldr list_record xs r"
  by (simp add: foldr_conv_fold)

lemma foldr_record: "foldr list_record xs empty_list_record = record_of xs"
  by (induction xs) (simp_all add: list_record_def empty_list_record_def)

lemma lower_attributes_eq:
  "lower_attributes attrs = Inr (record_of (map (\<lambda>(n, a). datalog_attribute n (payload_value_of a)) (sort_key fst attrs)))"
proof -
  have "fold_result (\<lambda>(name, a) list_so_far. rbind (GetPayloadForAttribute a) (\<lambda>p.
       Inr (list_record (datalog_attribute name p) list_so_far))) xs r =
      Inr (fold list_record (map (\<lambda>(n, a). datalog_attribute n (payload_value_of a)) xs) r)" for xs r
    by (induction xs arbitrary: r) (auto simp: GetPayloadForAttribute_eq)
  then show ?thesis
    unfolding lower_attributes_def by (simp add: rev_map record_of_fold foldr_record flip: rev_map)
qed

text \<open>Operands are named from the last to the first, but the names are those of any later state.\<close>

lemma lower_operands_names:
  assumes "known_storages heap vs"
  shows "\<exists>l s'. rfold (lower_operand heap) vs (empty_list_record, s) = Inr (l, s') \<and> ssa_step s s' \<and>
    {v \<in> set vs. ssa_named v} \<subseteq> named s' \<and>
    (\<forall>t. ssa_le s' t \<longrightarrow> l = record_of (map (\<lambda>v. Symbol (render_value heap t v)) vs))"
  using assms
proof (induction vs)
  case Nil
  show ?case by (simp add: rfold_def empty_list_record_def)
next
  case (Cons v vs)
  then obtain l s1 where l: "rfold (lower_operand heap) vs (empty_list_record, s) = Inr (l, s1)" "ssa_step s s1"
    "{v \<in> set vs. ssa_named v} \<subseteq> named s1"
    "\<forall>t. ssa_le s1 t \<longrightarrow> l = record_of (map (\<lambda>v. Symbol (render_value heap t v)) vs)"
    by (auto simp: known_storages_def)
  have "known_storages heap [v]" using Cons.prems by (simp add: known_storages_def)
  from ValueToString_names [OF this, of s1] obtain y s2 where y: "ValueToString heap v s1 = Inr (y, s2)" "ssa_step s1 s2"
    "{w. w = v \<and> ssa_named w} \<subseteq> named s2" "\<forall>t. ssa_le s2 t \<longrightarrow> render_value heap t v = y" by blast
  have "rfold (lower_operand heap) (v # vs) (empty_list_record, s) = Inr (list_record (Symbol y) l, s2)"
    using l(1) y(1) by (simp add: rfold_def fold_result_append lower_operand_def)
  moreover have "ssa_step s s2" using l(2) y(2) by (rule ssa_step_trans)
  moreover have "{w \<in> set (v # vs). ssa_named w} \<subseteq> named s2" using l(3) y(3) ssa_step_named [OF y(2)] by auto
  moreover have "\<forall>t. ssa_le s2 t \<longrightarrow> list_record (Symbol y) l = record_of (map (\<lambda>v. Symbol (render_value heap t v)) (v # vs))"
    using l(4) y(4) ssa_step_le [OF y(2)] by (simp add: list_record_def)
  ultimately show ?case by blast
qed

definition lowers :: "storage_heap \<Rightarrow> (op_id \<times> operation) list \<Rightarrow> datalog_lowering_visitor \<Rightarrow> datalog_lowering_visitor \<Rightarrow> bool" where
  "lowers heap opers v v' \<longleftrightarrow> ssa_step (dl_ssa_names v) (dl_ssa_names v') \<and> named_values opers \<subseteq> named (dl_ssa_names v') \<and>
     (\<forall>t. ssa_le (dl_ssa_names v') t \<longrightarrow> is_operation_facts (datalog_facts v') =
        is_operation_facts (datalog_facts v) @ map (operation_fact heap t) opers)"

lemma lowers_operation:
  assumes "known_storages heap (inputs (snd oper))"
  shows "\<exists>v'. lowering_PreVisit_operation heap oper v = Inr ((), v') \<and> lowers heap [oper] v v'"
proof -
  from lower_operands_names [OF assms, of "dl_ssa_names v"] obtain l s1 where
    l: "rfold (lower_operand heap) (inputs (snd oper)) (empty_list_record, dl_ssa_names v) = Inr (l, s1)" "ssa_step (dl_ssa_names v) s1"
    "{v \<in> set (inputs (snd oper)). ssa_named v} \<subseteq> named s1"
    "\<forall>t. ssa_le s1 t \<longrightarrow> l = record_of (map (\<lambda>v. Symbol (render_value heap t v)) (inputs (snd oper)))" by blast
  let ?n = "number_of_return_values (op_of (snd oper))" and ?res = "MakeOperationResultValue (fst oper)"
  let ?f = "\<lambda>i s. Inr (GetOrCreateID_value (?res i) s)"
  have "\<exists>y s'. ?f i s = Inr (y, s') \<and> ssa_step s s' \<and> {?res i} \<subseteq> named s' \<and> (\<forall>t. ssa_le s' t \<longrightarrow> value_name t (?res i) = y)" for i s
    using GetOrCreateID_value_names [of "?res i" s] by auto
  then have "\<exists>ys s'. map_state ?f [0..<?n] s1 = Inr (ys, s') \<and> ssa_step s1 s' \<and> (\<Union>i \<in> set [0..<?n]. {?res i}) \<subseteq> named s' \<and>
      (\<forall>t. ssa_le s' t \<longrightarrow> map (\<lambda>i. value_name t (?res i)) [0..<?n] = ys)"
    by (intro map_state_names [where V = "\<lambda>i. {?res i}" and g = "\<lambda>t i. value_name t (?res i)"]) blast
  then obtain res s2 where res: "map_state ?f [0..<?n] s1 = Inr (res, s2)" "ssa_step s1 s2"
    "(\<Union>i \<in> set [0..<?n]. {?res i}) \<subseteq> named s2" "\<forall>t. ssa_le s2 t \<longrightarrow> map (\<lambda>i. value_name t (?res i)) [0..<?n] = res" by blast
  have results: "fold (\<lambda>r list_so_far. list_record (Symbol r) list_so_far) (rev res) empty_list_record = record_of (map Symbol res)"
    by (simp add: foldr_record [symmetric] foldr_conv_fold rev_map fold_map comp_def)
  have ids: "map (\<lambda>i. value_name t (?res i)) [0..<?n] = map (value_name t) (result_values oper)" for t
    by (simp add: result_values_def NumberOfOutputs_def MakeOperationResultValue_def)
  define v' where "v' = v\<lparr>dl_ssa_names := s2, datalog_facts := AddIsOperationFact (IsOperationFact (datalog_operation
      (Symbol kDefaultPrincipal) (Symbol (op_name (op_of (snd oper)))) (record_of (map Symbol res)) l
      (record_of (map (\<lambda>(n, a). datalog_attribute n (payload_value_of a)) (sort_key fst (attributes (snd oper))))))) (datalog_facts v)\<rparr>"
  have "lowering_PreVisit_operation heap oper v = Inr ((), v')"
    by (simp add: lowering_PreVisit_operation_def l(1) lower_attributes_eq res(1) results v'_def Let_def)
  moreover have "ssa_step (dl_ssa_names v) (dl_ssa_names v')"
    using ssa_step_trans [OF l(2) res(2)] by (simp add: v'_def)
  moreover have "named_values [oper] \<subseteq> named (dl_ssa_names v')"
    using res(3) l(3) ssa_step_named [OF res(2)]
    by (auto simp: named_values_def result_values_def NumberOfOutputs_def MakeOperationResultValue_def v'_def)
  moreover have "is_operation_facts (datalog_facts v') = is_operation_facts (datalog_facts v) @ [operation_fact heap t oper]"
    if "ssa_le (dl_ssa_names v') t" for t
  proof -
    from that have le: "ssa_le s2 t" "ssa_le s1 t" using ssa_step_le [OF res(2)] by (simp_all add: v'_def)
    have "map Symbol res = map (\<lambda>v. Symbol (value_name t v)) (result_values oper)"
      using res(4) le(1) ids [of t] by (metis (no_types, lifting) map_map comp_apply map_eq_conv)
    with l(4) le(2) show ?thesis
      by (simp add: v'_def AddIsOperationFact_def operation_fact_def datalog_operation_def kDefaultPrincipal_def)
  qed
  ultimately show ?thesis by (auto simp: lowers_def)
qed

lemma lowers_append:
  assumes "lowers heap xs v w" and "lowers heap ys w u"
  shows "lowers heap (xs @ ys) v u"
proof -
  have "ssa_step (dl_ssa_names v) (dl_ssa_names u)" using assms ssa_step_trans by (simp add: lowers_def) blast
  moreover have "named_values (xs @ ys) \<subseteq> named (dl_ssa_names u)"
    using assms ssa_step_named [of "dl_ssa_names w" "dl_ssa_names u"] by (auto simp: lowers_def named_values_def)
  moreover have "is_operation_facts (datalog_facts u) = is_operation_facts (datalog_facts v) @ map (operation_fact heap t) (xs @ ys)"
    if "ssa_le (dl_ssa_names u) t" for t
    using assms that ssa_step_le [of "dl_ssa_names w" "dl_ssa_names u" t] by (simp add: lowers_def)
  ultimately show ?thesis by (simp add: lowers_def)
qed

lemma lowers_module:
  assumes "\<forall>oper \<in> set (module_operations (snd m)). known_storages heap (inputs (snd oper))"
  shows "\<exists>v'. lower_module heap s m = Inr v' \<and> lowers heap (module_operations (snd m)) (new_datalog_lowering_visitor s) v'"
proof -
  let ?g = "\<lambda>oper s. rbind (lowering_PreVisit_operation heap oper s) (\<lambda>(_, s'). Inr s')"
  have "\<exists>v'. fold_result ?g opers v = Inr v' \<and> lowers heap opers v v'"
    if "\<forall>oper \<in> set opers. known_storages heap (inputs (snd oper))" for opers v
    using that
  proof (induction opers arbitrary: v)
    case Nil
    show ?case by (simp add: lowers_def named_values_def)
  next
    case (Cons oper opers)
    then obtain v1 where v1: "lowering_PreVisit_operation heap oper v = Inr ((), v1)" "lowers heap [oper] v v1"
      using lowers_operation by (metis list.set_intros(1))
    moreover obtain v2 where "fold_result ?g opers v1 = Inr v2" "lowers heap opers v1 v2"
      using Cons.IH [of v1] Cons.prems by auto
    ultimately show ?case using lowers_append [OF v1(2)] by auto
  qed
  from this [OF assms, of "new_datalog_lowering_visitor s"] show ?thesis
    by (auto simp: lower_module_def Visit_module_operations [OF lowering_visitor_def])
qed

lemma lowered_facts_of:
  assumes "\<forall>oper \<in> set (module_operations (snd m)). known_storages heap (inputs (snd oper))"
  shows "\<exists>v. lower_module heap new_ssa_names m = Inr v \<and> generated_names (dl_ssa_names v) \<and>
    named_values (module_operations (snd m)) \<subseteq> named (dl_ssa_names v) \<and>
    is_operation_facts (datalog_facts v) = map (operation_fact heap (dl_ssa_names v)) (module_operations (snd m))"
proof -
  from lowers_module [OF assms, of new_ssa_names] obtain v where
    v: "lower_module heap new_ssa_names m = Inr v"
    and low: "lowers heap (module_operations (snd m)) (new_datalog_lowering_visitor new_ssa_names) v" by blast
  then have "generated_names (dl_ssa_names v)" "named_values (module_operations (snd m)) \<subseteq> named (dl_ssa_names v)"
    by (simp_all add: generated_names_def lowers_def new_datalog_lowering_visitor_def)
  moreover have "is_operation_facts (datalog_facts v) = map (operation_fact heap (dl_ssa_names v)) (module_operations (snd m))"
    using low by (simp add: lowers_def new_datalog_lowering_visitor_def)
  ultimately show ?thesis using v by blast
qed

section \<open>Properties\<close>

text \<open>C20: Lowering a module whose stored values refer to known storages always succeeds and gives one
  \<^verbatim>\<open>isOperation\<close> fact for each operation, in the order of the traversal: the operator, the
  results, the operands and the attributes by name, under one naming of the values in which
  an operand is the symbol of the result it refers to and different results and block
  arguments have different symbols.\<close>

theorem lowered_facts:
  assumes "\<forall>oper \<in> set (module_operations (snd m)). known_storages heap (inputs (snd oper))"
  shows "\<exists>v names. lower_module heap new_ssa_names m = Inr v \<and>
    is_operation_facts (datalog_facts v) = map (operation_fact heap names) (module_operations (snd m)) \<and>
    inj_on (value_name names) (named_values (module_operations (snd m)))"
proof -
  from lowered_facts_of [OF assms] obtain v where v: "lower_module heap new_ssa_names m = Inr v" "generated_names (dl_ssa_names v)"
    "named_values (module_operations (snd m)) \<subseteq> named (dl_ssa_names v)"
    "is_operation_facts (datalog_facts v) = map (operation_fact heap (dl_ssa_names v)) (module_operations (snd m))" by blast
  with inj_on_value_name [OF v(2,3)] show ?thesis by blast
qed

theorem lowered_facts_witness:
  "\<exists>v names. lower_module (\<lambda>_. None) new_ssa_names (3, printed_module) = Inr v \<and>
     is_operation_facts (datalog_facts v) = map (operation_fact (\<lambda>_. None) names) (module_operations printed_module) \<and>
     value_name names (OperationResult 7 0) \<noteq> value_name names (OperationResult 9 0)"
proof -
  have ops: "module_operations printed_module =
     [(7, make_operation (Some 0) (make_operator ''core.input'') [(''b'', Int64Attribute 2), (''a'', StringAttribute ''x'')] [Any]),
      (9, make_operation (Some 0) (make_operator ''core.plus'') [] [OperationResult 7 0, BlockArgument 0 1])]"
    by (simp add: module_operations_def printed_module_def)
  have "OperationResult 7 0 \<in> named_values (module_operations printed_module)"
    "OperationResult 9 0 \<in> named_values (module_operations printed_module)"
    by (simp_all add: ops named_values_def result_values_def make_operation_def make_operator_def NumberOfOutputs_def)
  moreover have "\<forall>oper \<in> set (module_operations (snd (3, printed_module))). known_storages (\<lambda>_. None) (inputs (snd oper))"
    by (simp add: ops known_storages_def make_operation_def)
  then obtain v names where "lower_module (\<lambda>_. None) new_ssa_names (3, printed_module) = Inr v"
    "is_operation_facts (datalog_facts v) = map (operation_fact (\<lambda>_. None) names) (module_operations printed_module)"
    "inj_on (value_name names) (named_values (module_operations printed_module))"
    using lowered_facts [of "(3, printed_module)" "\<lambda>_. None"] by auto
  ultimately show ?thesis by (auto dest: inj_onD)
qed

end
