(* ===== verification/Ir_Parser.thy ===== *)
theory Ir_Parser imports
  Ir_Printer
begin

text \<open>
  The parser of the IR's text: the visitor of \<^verbatim>\<open>src/parser/ir/ir_parser.cc\<close>, which turns a parse
  tree of \<^verbatim>\<open>src/parser/ir/Ir.g4\<close> into a module. The trees are the contexts that ANTLR generates
  from the grammar, one constructor or record per rule; the tree of a child is what the visitor is sent to,
  so \<^verbatim>\<open>CheckAnyCast\<close> always finds the type it asks for. ANTLR itself is a parameter of
  \<open>ParseProgram\<close>. \<open>atod\<close> is \<^verbatim>\<open>absl::SimpleAtod\<close>.
\<close>

section \<open>Parse trees\<close>

datatype payload_tree = FloatLiteral string | NumLiteral string | StringLiteral string

datatype value_tree = AnyToken | NamedTempValue string

type_synonym attribute_tree = "string \<times> payload_tree"

record operation_tree =
  tree_result :: "string list"
  tree_operator_name :: string
  tree_attribute_list :: "attribute_tree list option"
  tree_argument_list :: "value_tree list option"

record block_tree =
  tree_block_id :: string
  tree_operations :: "operation_tree list"

record module_tree =
  tree_module_id :: string
  tree_blocks :: "block_tree list"

section \<open>Literals\<close>

datatype value_id = AnyId | TemporaryId string

definition visitStringLiteral :: "string \<Rightarrow> string result" where
  "visitStringLiteral contents_with_quotes =
     rbind (check (2 \<le> length contents_with_quotes) ''string_literal_contents_with_quotes.size() >= 2'') (\<lambda>_.
     rbind (check (hd contents_with_quotes = CHR 34) ''string_literal_contents_with_quotes.front()'') (\<lambda>_.
     rbind (check (last contents_with_quotes = CHR 34) ''string_literal_contents_with_quotes.back()'') (\<lambda>_.
     Inr (take (length contents_with_quotes - 2) (drop 1 contents_with_quotes)))))"

text \<open>\<^verbatim>\<open>absl::SimpleAtoi\<close> into an \<^verbatim>\<open>int64_t\<close>: white space around, a sign, digits, and in range.\<close>

definition ascii_space :: "char \<Rightarrow> bool" where
  "ascii_space c \<longleftrightarrow> c = CHR '' '' \<or> 9 \<le> (of_char c :: nat) \<and> (of_char c :: nat) \<le> 13"

definition StripAsciiWhitespace :: "string \<Rightarrow> string" where
  "StripAsciiWhitespace s = rev (dropWhile ascii_space (rev (dropWhile ascii_space s)))"

definition SimpleAtoi :: "string \<Rightarrow> int option" where
  "SimpleAtoi text =
     (let s = StripAsciiWhitespace text;
          negative = (s \<noteq> [] \<and> hd s = CHR ''-'');
          digits = (if s \<noteq> [] \<and> (hd s = CHR ''-'' \<or> hd s = CHR ''+'') then tl s else s);
          i = (if negative then - int (nat_of_digits digits) else int (nat_of_digits digits))
      in if digits \<noteq> [] \<and> list_all is_digit digits \<and> - (2 ^ 63) \<le> i \<and> i < 2 ^ 63 then Some i else None)"

definition visitFloatAttribute :: "(string \<Rightarrow> double option) \<Rightarrow> string \<Rightarrow> attribute result" where
  "visitFloatAttribute atod text =
     rbind (check (text \<noteq> []) ''!text.empty()'') (\<lambda>_.
     let text = (if last text = CHR ''l'' then take (length text - 1) text else text)
     in rbind (check_some (atod text) ''conversion_succeeds == true'') (\<lambda>d. Inr (FloatAttribute d)))"

definition visitNumAttribute :: "string \<Rightarrow> attribute result" where
  "visitNumAttribute text =
     rbind (check_some (SimpleAtoi text) ''conversion_succeeds == true'') (\<lambda>i. Inr (Int64Attribute i))"

definition visitStringAttribute :: "string \<Rightarrow> attribute result" where
  "visitStringAttribute literal = rbind (visitStringLiteral literal) (\<lambda>s. Inr (StringAttribute s))"

fun visit_payload :: "(string \<Rightarrow> double option) \<Rightarrow> payload_tree \<Rightarrow> attribute result" where
  "visit_payload atod (FloatLiteral text) = visitFloatAttribute atod text"
| "visit_payload atod (NumLiteral text) = visitNumAttribute text"
| "visit_payload atod (StringLiteral text) = visitStringAttribute text"

definition visitAttribute :: "(string \<Rightarrow> double option) \<Rightarrow> attribute_tree \<Rightarrow> (string \<times> attribute) result" where
  "visitAttribute atod attribute_context =
     rbind (visit_payload atod (snd attribute_context)) (\<lambda>a. Inr (fst attribute_context, a))"

definition visitAttributeList :: "(string \<Rightarrow> double option) \<Rightarrow> attribute_tree list \<Rightarrow> named_attribute_map result" where
  "visitAttributeList atod attributes_list =
     fold_result (\<lambda>t attribute_map. rbind (visitAttribute atod t) (\<lambda>(name, a).
       let (m, inserted) = hm_insert name a attribute_map
       in rbind (check inserted ''Multiple attributes with name'') (\<lambda>_. Inr m))) attributes_list []"

section \<open>Operations\<close>

definition visitAnyValue :: value_id where
  "visitAnyValue = AnyId"

definition visitNamedTempValue :: "string \<Rightarrow> value_id" where
  "visitNamedTempValue valueName = TemporaryId valueName"

fun visit_value :: "value_tree \<Rightarrow> value_id" where
  "visit_value AnyToken = visitAnyValue"
| "visit_value (NamedTempValue name) = visitNamedTempValue name"

definition visitResult :: "string list \<Rightarrow> value_id list" where
  "visitResult result_context = map visitNamedTempValue result_context"

definition visitArgumentList :: "value_tree list \<Rightarrow> value_id list" where
  "visitArgumentList argument_list_context = map visit_value argument_list_context"

record operation_parts =
  op_result_ids :: "value_id list"
  operator_name :: string
  parts_attributes :: named_attribute_map
  input_ids :: "value_id list"

definition visitOperation :: "(string \<Rightarrow> double option) \<Rightarrow> operation_tree \<Rightarrow> operation_parts result" where
  "visitOperation atod operation_context =
     rbind (case tree_attribute_list operation_context of None \<Rightarrow> Inr [] | Some l \<Rightarrow> visitAttributeList atod l) (\<lambda>attrs.
     Inr \<lparr>op_result_ids = visitResult (tree_result operation_context),
       operator_name = tree_operator_name operation_context, parts_attributes = attrs,
       input_ids = (case tree_argument_list operation_context of None \<Rightarrow> [] | Some l \<Rightarrow> visitArgumentList l)\<rparr>)"

section \<open>Blocks and the module\<close>

text \<open>The state of the visitor, with the next unused address.\<close>

record ir_visitor =
  parse_context :: ir_context
  parse_module :: ir_module
  parse_names :: ssa_names
  parse_address :: nat

definition new_ir_visitor :: "nat \<Rightarrow> ir_visitor" where
  "new_ir_visitor addr = \<lparr>parse_context = empty_context, parse_module = empty_module,
     parse_names = new_ssa_names, parse_address = addr\<rparr>"

definition MaybeRegisterOperator :: "string \<Rightarrow> nat \<Rightarrow> ir_context \<Rightarrow> (operator \<times> ir_context) result" where
  "MaybeRegisterOperator name num_results c =
     (if \<not> IsRegisteredOperator name c
      then let oprt = \<lparr>op_name = name, number_of_return_values = num_results\<rparr>
           in rbind (RegisterOperator oprt c) (\<lambda>c. Inr (oprt, c))
      else rbind (check_some (GetOperator name c) ''context.GetOperator(operator_name)'') (\<lambda>oprt.
           rbind (check (number_of_return_values oprt = num_results)
                    ''Operator has different number of return values in different instances'') (\<lambda>_. Inr (oprt, c))))"

text \<open>What the first loop of \<^verbatim>\<open>visitBlock\<close> collects.\<close>

type_synonym collected = "((op_id \<times> operation) \<times> value_id list) list \<times> (string, ir_value) hash_map"

definition insert_temporary ::
  "op_id \<Rightarrow> nat \<times> value_id \<Rightarrow> (string, ir_value) hash_map \<Rightarrow> (string, ir_value) hash_map result" where
  "insert_temporary oid entry temporary_name_to_value = (case entry of (index, i) \<Rightarrow>
     (case i of
        AnyId \<Rightarrow> Inl (Check_failed ''Found an `Any` on the left hand side of an `Operation` assignment'')
      | TemporaryId name \<Rightarrow>
          let (m, inserted) = hm_insert name (MakeOperationResultValue oid index) temporary_name_to_value
          in rbind (check inserted ''Found temporary name which was assigned to twice'') (\<lambda>_. Inr m)))"

definition collect_operation ::
  "(string \<Rightarrow> double option) \<Rightarrow> operation_tree \<Rightarrow> collected \<times> ir_visitor \<Rightarrow> (collected \<times> ir_visitor) result" where
  "collect_operation atod operation_context = (\<lambda>((operations_and_inputs, temporary_name_to_value), st).
     rbind (visitOperation atod operation_context) (\<lambda>operation_result.
     rbind (MaybeRegisterOperator (operator_name operation_result) (length (op_result_ids operation_result))
              (parse_context st)) (\<lambda>(oprt, c).
     let oid = parse_address st;
         oper = make_operation None oprt (parts_attributes operation_result) []
     in rbind (fold_result (insert_temporary oid) (enumerate 0 (op_result_ids operation_result)) temporary_name_to_value) (\<lambda>temps.
        Inr ((operations_and_inputs @ [((oid, oper), input_ids operation_result)], temps),
          st\<lparr>parse_context := c, parse_address := oid + 1\<rparr>)))))"

definition name_temporary :: "string \<times> ir_value \<Rightarrow> ssa_names \<Rightarrow> ssa_names result" where
  "name_temporary entry s = (case entry of (name, v) \<Rightarrow> rbind (AddID_value v name s) (\<lambda>(_, s). Inr s))"

definition input_value :: "(string, ir_value) hash_map \<Rightarrow> value_id \<Rightarrow> ir_value result" where
  "input_value temporary_name_to_value i = (case i of
     AnyId \<Rightarrow> Inr Any
   | TemporaryId name \<Rightarrow> check_some (map_of temporary_name_to_value name) ''Value not found!'')"

definition fill_operation ::
  "(string, ir_value) hash_map \<Rightarrow> (op_id \<times> operation) \<times> value_id list \<Rightarrow> block_builder \<Rightarrow> block_builder result" where
  "fill_operation temporary_name_to_value entry b = (case entry of ((oid, oper), ins) \<Rightarrow>
     rbind (map_result (input_value temporary_name_to_value) ins) (\<lambda>input_list.
     Builder_AddOperation (oid, fold AddInput input_list oper) b))"

text \<open>\<open>ord\<close> is the iteration order of \<^verbatim>\<open>temporary_name_to_value\<close>.\<close>

type_synonym temporary_order = "(string \<times> ir_value) list \<Rightarrow> (string \<times> ir_value) list"

definition visitBlock ::
  "temporary_order \<Rightarrow> (string \<Rightarrow> double option) \<Rightarrow> module_id \<Rightarrow> block_tree \<Rightarrow> ir_visitor \<Rightarrow> ir_visitor result" where
  "visitBlock ord atod this block_context st =
     (let builder = new_builder (parse_address st);
          st = st\<lparr>parse_address := parse_address st + 1\<rparr>
      in rbind (fold_result (collect_operation atod) (tree_operations block_context) (([], []), st))
           (\<lambda>((operations_and_inputs, temporary_name_to_value), st).
         rbind (fold_result name_temporary (ord temporary_name_to_value) (parse_names st)) (\<lambda>s.
         rbind (fold_result (fill_operation temporary_name_to_value) operations_and_inputs builder) (\<lambda>builder.
         rbind (build builder) (\<lambda>(blk, _).
         rbind (AddBlock this blk (parse_module st)) (\<lambda>m.
         Inr (st\<lparr>parse_names := s, parse_module := m\<rparr>)))))))"

definition visitModule ::
  "temporary_order \<Rightarrow> (string \<Rightarrow> double option) \<Rightarrow> module_id \<Rightarrow> module_tree \<Rightarrow> ir_visitor \<Rightarrow> ir_visitor result" where
  "visitModule ord atod this context st = fold_result (visitBlock ord atod this) (tree_blocks context) st"

definition visitIrProgram ::
  "temporary_order \<Rightarrow> (string \<Rightarrow> double option) \<Rightarrow> module_id \<Rightarrow> module_tree \<Rightarrow> ir_visitor \<Rightarrow> ir_visitor result" where
  "visitIrProgram ord atod this context st = visitModule ord atod this context st"

text \<open>\<open>antlr\<close> is the generated parser: the tree, or nothing for a text with syntax errors.\<close>

definition ParseProgram ::
  "(string \<Rightarrow> module_tree option) \<Rightarrow> temporary_order \<Rightarrow> (string \<Rightarrow> double option) \<Rightarrow> module_id \<Rightarrow> nat
     \<Rightarrow> string \<Rightarrow> ir_visitor result" where
  "ParseProgram antlr ord atod this addr prog_text =
     rbind (check_some (antlr prog_text) ''Encountered syntax errors in IR parser, stopping!'') (\<lambda>program_context.
     visitIrProgram ord atod this program_context (new_ir_visitor addr))"

section \<open>What a tree means\<close>

definition tree_attributes :: "operation_tree \<Rightarrow> attribute_tree list" where
  "tree_attributes t = (case tree_attribute_list t of None \<Rightarrow> [] | Some l \<Rightarrow> l)"

definition tree_arguments :: "operation_tree \<Rightarrow> value_tree list" where
  "tree_arguments t = (case tree_argument_list t of None \<Rightarrow> [] | Some l \<Rightarrow> l)"

definition tree_op :: "operation_tree \<Rightarrow> operator" where
  "tree_op t = \<lparr>op_name = tree_operator_name t, number_of_return_values = length (tree_result t)\<rparr>"

text \<open>The conditions on a program: literals can be read, an attribute and a temporary are given once,
  operators have one number of results and operands are results of the block.\<close>

definition operation_tree_ok :: "(string \<Rightarrow> double option) \<Rightarrow> operation_tree \<Rightarrow> bool" where
  "operation_tree_ok atod t \<longleftrightarrow> list_all (\<lambda>(n, p). is_ok (visit_payload atod p)) (tree_attributes t) \<and>
     distinct (map fst (tree_attributes t))"

definition tree_temporaries :: "operation_tree list \<Rightarrow> string list" where
  "tree_temporaries ts = concat (map tree_result ts)"

definition one_arity :: "operation_tree list \<Rightarrow> bool" where
  "one_arity ts \<longleftrightarrow> (\<forall>t \<in> set ts. \<forall>t' \<in> set ts. tree_operator_name t = tree_operator_name t' \<longrightarrow> tree_op t = tree_op t')"

definition operands_ok :: "operation_tree list \<Rightarrow> bool" where
  "operands_ok ts \<longleftrightarrow> (\<forall>t \<in> set ts. \<forall>n. NamedTempValue n \<in> set (tree_arguments t) \<longrightarrow> n \<in> set (tree_temporaries ts))"

definition block_tree_ok :: "(string \<Rightarrow> double option) \<Rightarrow> block_tree \<Rightarrow> bool" where
  "block_tree_ok atod b \<longleftrightarrow> list_all (operation_tree_ok atod) (tree_operations b) \<and>
     distinct (tree_temporaries (tree_operations b)) \<and> operands_ok (tree_operations b)"

definition all_operations :: "block_tree list \<Rightarrow> operation_tree list" where
  "all_operations bs = concat (map tree_operations bs)"

definition module_tree_ok :: "(string \<Rightarrow> double option) \<Rightarrow> module_tree \<Rightarrow> bool" where
  "module_tree_ok atod t \<longleftrightarrow> list_all (block_tree_ok atod) (tree_blocks t) \<and> one_arity (all_operations (tree_blocks t))"

text \<open>The module that is built: a block at \<open>a\<close>, its operations at the addresses that follow.\<close>

definition payload_value :: "(string \<Rightarrow> double option) \<Rightarrow> payload_tree \<Rightarrow> attribute" where
  "payload_value atod p = (case visit_payload atod p of Inr a \<Rightarrow> a | Inl e \<Rightarrow> StringAttribute [])"

definition parsed_attributes :: "(string \<Rightarrow> double option) \<Rightarrow> operation_tree \<Rightarrow> named_attribute_map" where
  "parsed_attributes atod t = map (\<lambda>(n, p). (n, payload_value atod p)) (tree_attributes t)"

definition result_temporaries :: "op_id \<Rightarrow> operation_tree \<Rightarrow> (string \<times> ir_value) list" where
  "result_temporaries oid t = map (\<lambda>(i, n). (n, OperationResult oid i)) (enumerate 0 (tree_result t))"

definition block_temporaries :: "nat \<Rightarrow> operation_tree list \<Rightarrow> (string \<times> ir_value) list" where
  "block_temporaries a ts = concat (map (\<lambda>(j, t). result_temporaries j t) (enumerate (a + 1) ts))"

definition operand :: "(string \<times> ir_value) list \<Rightarrow> value_tree \<Rightarrow> ir_value" where
  "operand temps v = (case v of AnyToken \<Rightarrow> Any | NamedTempValue n \<Rightarrow> the (map_of temps n))"

definition parsed_operation ::
  "(string \<Rightarrow> double option) \<Rightarrow> block_id \<Rightarrow> (string \<times> ir_value) list \<Rightarrow> nat \<times> operation_tree \<Rightarrow> op_id \<times> operation" where
  "parsed_operation atod a temps jt = (fst jt, make_operation (Some a) (tree_op (snd jt)) (parsed_attributes atod (snd jt))
     (map (operand temps) (tree_arguments (snd jt))))"

definition parsed_block :: "(string \<Rightarrow> double option) \<Rightarrow> module_id \<Rightarrow> block_id \<Rightarrow> block_tree \<Rightarrow> block_id \<times> block" where
  "parsed_block atod this a b = (a, empty_block\<lparr>parent_module := Some this, operations :=
     map (parsed_operation atod a (block_temporaries a (tree_operations b))) (enumerate (a + 1) (tree_operations b))\<rparr>)"

text \<open>The addresses of the blocks.\<close>

fun at_addresses :: "nat \<Rightarrow> block_tree list \<Rightarrow> (block_id \<times> block_tree) list" where
  "at_addresses a [] = []"
| "at_addresses a (b # bs) = (a, b) # at_addresses (a + 1 + length (tree_operations b)) bs"

definition parsed_blocks :: "(string \<Rightarrow> double option) \<Rightarrow> module_id \<Rightarrow> nat \<Rightarrow> block_tree list \<Rightarrow> (block_id \<times> block) list" where
  "parsed_blocks atod this a bs = map (\<lambda>(a, b). parsed_block atod this a b) (at_addresses a bs)"

definition module_temporaries :: "nat \<Rightarrow> block_tree list \<Rightarrow> (string \<times> ir_value) list" where
  "module_temporaries a bs = concat (map (\<lambda>(a, b). block_temporaries a (tree_operations b)) (at_addresses a bs))"

section \<open>The visitor builds the meaning\<close>

text \<open>A loop that fails exactly when a prefix is bad and keeps an invariant of the prefix.\<close>

lemma fold_result_prefix:
  assumes step: "\<And>ys x a. I ys a \<Longrightarrow> case f x a of Inl e \<Rightarrow> \<not> Q (ys @ [x]) | Inr b \<Rightarrow> I (ys @ [x]) b"
    and mono: "\<And>ys zs. Q (ys @ zs) \<Longrightarrow> Q ys" and start: "I ys a"
  shows "case fold_result f xs a of Inl e \<Rightarrow> \<not> Q (ys @ xs) | Inr b \<Rightarrow> I (ys @ xs) b"
  using start
proof (induction xs arbitrary: ys a)
  case (Cons x xs)
  show ?case
  proof (cases "f x a")
    case (Inl e)
    with step [OF Cons.prems, of x] have "\<not> Q ((ys @ [x]) @ xs)" using mono by (metis old.sum.simps(5))
    with Inl show ?thesis by simp
  next
    case (Inr b)
    with step [OF Cons.prems, of x] Cons.IH [of "ys @ [x]" b] show ?thesis by (simp split: sum.splits)
  qed
qed simp

lemmas fold_result_from_start = fold_result_prefix [where ys = "[]", unfolded append_Nil]

lemma visitAttributeList_eq:
  "case visitAttributeList atod l of
      Inl e \<Rightarrow> \<not> (list_all (\<lambda>(n, p). is_ok (visit_payload atod p)) l \<and> distinct (map fst l))
    | Inr m \<Rightarrow> list_all (\<lambda>(n, p). is_ok (visit_payload atod p)) l \<and> distinct (map fst l) \<and>
        m = map (\<lambda>(n, p). (n, payload_value atod p)) l"
proof -
  let ?f = "\<lambda>t attribute_map. rbind (visitAttribute atod t) (\<lambda>(name, a).
       let (m, inserted) = hm_insert name a attribute_map
       in rbind (check inserted ''Multiple attributes with name'') (\<lambda>_. Inr m))"
  let ?Q = "\<lambda>l. list_all (\<lambda>(n, p). is_ok (visit_payload atod p)) l \<and> distinct (map fst l)"
  let ?I = "\<lambda>l m. list_all (\<lambda>(n, p). is_ok (visit_payload atod p)) l \<and> distinct (map fst l) \<and>
    m = map (\<lambda>(n, p). (n, payload_value atod p)) l"
  have "case ?f x m of Inl e \<Rightarrow> \<not> ?Q (ys @ [x]) | Inr m' \<Rightarrow> ?I (ys @ [x]) m'" if "?I ys m" for ys x m
  proof (cases x)
    case (Pair n p)
    have keys: "fst ` set m = fst ` set ys" using that by force
    show ?thesis
    proof (cases "visit_payload atod p")
      case (Inr a)
      show ?thesis
      proof (cases "n \<in> fst ` set ys")
        case True
        with keys have "map_of m n \<noteq> None" by (simp add: map_of_eq_None_iff)
        with True show ?thesis by (auto simp: visitAttribute_def Pair Inr hm_insert_eq Let_def)
      next
        case False
        with keys have "map_of m n = None" by (simp add: map_of_eq_None_iff)
        with False that Inr show ?thesis
          by (auto simp: visitAttribute_def Pair hm_insert_eq Let_def payload_value_def)
      qed
    qed (simp add: visitAttribute_def Pair)
  qed
  then show ?thesis
    unfolding visitAttributeList_def by (rule fold_result_from_start [where I = ?I and Q = ?Q]) simp_all
qed

lemma visitOperation_eq:
  "case visitOperation atod t of
      Inl e \<Rightarrow> \<not> operation_tree_ok atod t
    | Inr parts \<Rightarrow> operation_tree_ok atod t \<and> parts = \<lparr>op_result_ids = map TemporaryId (tree_result t),
        operator_name = tree_operator_name t, parts_attributes = parsed_attributes atod t,
        input_ids = map visit_value (tree_arguments t)\<rparr>"
proof -
  have "(case tree_attribute_list t of None \<Rightarrow> Inr [] | Some l \<Rightarrow> visitAttributeList atod l) = visitAttributeList atod (tree_attributes t)"
    by (simp add: tree_attributes_def visitAttributeList_def split: option.splits)
  with visitAttributeList_eq [of atod "tree_attributes t"] show ?thesis
    by (auto simp: visitOperation_def operation_tree_ok_def parsed_attributes_def visitResult_def visitNamedTempValue_def
        tree_arguments_def visitArgumentList_def split: sum.splits option.splits)
qed

text \<open>The operators of the context are those of the operations so far.\<close>

definition operators_of :: "ir_context \<Rightarrow> operation_tree list \<Rightarrow> bool" where
  "operators_of c ts \<longleftrightarrow> (\<forall>t \<in> set ts. GetOperator (tree_operator_name t) c = Some (tree_op t)) \<and>
     (\<forall>n oprt. GetOperator n c = Some oprt \<longrightarrow> (\<exists>t \<in> set ts. n = tree_operator_name t \<and> oprt = tree_op t))"

lemma operators_of_one_arity: "operators_of c ts \<Longrightarrow> one_arity ts"
  unfolding operators_of_def one_arity_def by (metis option.inject)

lemma MaybeRegisterOperator_eq:
  assumes "operators_of c ts"
  shows "case MaybeRegisterOperator (tree_operator_name t) (length (tree_result t)) c of
      Inl e \<Rightarrow> \<not> one_arity (ts @ [t])
    | Inr (oprt, c') \<Rightarrow> oprt = tree_op t \<and> operators_of c' (ts @ [t])"
proof (cases "GetOperator (tree_operator_name t) c")
  case None
  then have reg: "\<not> IsRegisteredOperator (tree_operator_name t) c"
    by (simp add: IsRegisteredOperator_def GetOperator_def registered_node_iff)
  have new: "GetNode (tree_operator_name t) (ctx_operators c) = None" using None by (simp add: GetOperator_def)
  have old: "tree_operator_name t' \<noteq> tree_operator_name t" if "t' \<in> set ts" for t'
    using assms None that by (auto simp: operators_of_def)
  define c' where "c' = c\<lparr>ctx_operators := ctx_operators c @ [(tree_operator_name t, tree_op t)]\<rparr>"
  have "GetOperator n c' = (if n = tree_operator_name t then Some (tree_op t) else GetOperator n c)" for n
    using new by (auto simp: c'_def GetOperator_def GetNode_def map_add_def split: option.splits)
  with assms old have "operators_of c' (ts @ [t])" by (auto simp: operators_of_def)
  moreover have "RegisterOperator (tree_op t) c = Inr c'"
    using new by (simp add: RegisterOperator_def RegisterNode_def hm_insert_eq GetNode_def c'_def tree_op_def)
  ultimately show ?thesis using reg by (simp add: MaybeRegisterOperator_def tree_op_def Let_def)
next
  case (Some oprt)
  then have reg: "IsRegisteredOperator (tree_operator_name t) c"
    by (simp add: IsRegisteredOperator_def GetOperator_def registered_node_iff)
  from assms Some obtain t' where t': "t' \<in> set ts" "tree_operator_name t = tree_operator_name t'" "oprt = tree_op t'"
    unfolding operators_of_def by blast
  show ?thesis
  proof (cases "number_of_return_values oprt = length (tree_result t)")
    case True
    with t' have "oprt = tree_op t" by (simp add: tree_op_def)
    with assms Some True reg show ?thesis by (auto simp: MaybeRegisterOperator_def operators_of_def)
  next
    case False
    with t' have "\<not> one_arity (ts @ [t])" by (auto simp: one_arity_def tree_op_def)
    with False Some reg show ?thesis by (simp add: MaybeRegisterOperator_def)
  qed
qed

lemma insert_temporaries_eq:
  "case fold_result (insert_temporary oid) (enumerate k (map TemporaryId ns)) temps of
      Inl e \<Rightarrow> \<not> (distinct ns \<and> set ns \<inter> fst ` set temps = {})
    | Inr temps' \<Rightarrow> distinct ns \<and> set ns \<inter> fst ` set temps = {} \<and>
        temps' = temps @ map (\<lambda>(i, n). (n, OperationResult oid i)) (enumerate k ns)"
proof (induction ns arbitrary: k temps)
  case (Cons n ns)
  show ?case
  proof (cases "map_of temps n")
    case None
    then have new: "n \<notin> fst ` set temps" by (simp add: map_of_eq_None_iff)
    have step: "insert_temporary oid (k, TemporaryId n) temps = Inr (temps @ [(n, OperationResult oid k)])"
      using None by (simp add: insert_temporary_def hm_insert_eq MakeOperationResultValue_def)
    from Cons.IH [where k = "Suc k" and temps = "temps @ [(n, OperationResult oid k)]"] new step show ?thesis
      by (auto split: sum.splits)
  next
    case (Some v)
    then have "n \<in> fst ` set temps" by (metis map_of_eq_None_iff option.distinct(1))
    with Some show ?thesis by (auto simp: insert_temporary_def hm_insert_eq)
  qed
qed simp

lemma block_temporaries_append:
  "block_temporaries a (ys @ [t]) = block_temporaries a ys @ result_temporaries (a + 1 + length ys) t"
  by (simp add: block_temporaries_def enumerate_append_eq)

lemma keys_result_temporaries: "map fst (result_temporaries oid t) = tree_result t"
  by (simp add: result_temporaries_def map_snd_enumerate comp_def split_def)

lemma keys_block_temporaries: "map fst (block_temporaries a ts) = tree_temporaries ts"
  by (induction ts rule: rev_induct)
    (simp_all add: block_temporaries_append keys_result_temporaries tree_temporaries_def, simp add: block_temporaries_def)

text \<open>What the first loop has collected after the operations \<open>ts\<close> of the block at \<open>a\<close>, when \<open>old\<close>
  are those of the blocks before.\<close>

definition collected_operation :: "(string \<Rightarrow> double option) \<Rightarrow> nat \<times> operation_tree \<Rightarrow> (op_id \<times> operation) \<times> value_id list" where
  "collected_operation atod jt = ((fst jt, make_operation None (tree_op (snd jt)) (parsed_attributes atod (snd jt)) []),
     map visit_value (tree_arguments (snd jt)))"

definition collectable :: "(string \<Rightarrow> double option) \<Rightarrow> operation_tree list \<Rightarrow> operation_tree list \<Rightarrow> bool" where
  "collectable atod old ts \<longleftrightarrow> list_all (operation_tree_ok atod) ts \<and> distinct (tree_temporaries ts) \<and> one_arity (old @ ts)"

definition collected_ok ::
  "(string \<Rightarrow> double option) \<Rightarrow> operation_tree list \<Rightarrow> nat \<Rightarrow> ir_visitor \<Rightarrow> operation_tree list \<Rightarrow> collected \<times> ir_visitor \<Rightarrow> bool" where
  "collected_ok atod old a st0 ts cst \<longleftrightarrow> collectable atod old ts \<and>
     fst cst = (map (collected_operation atod) (enumerate (a + 1) ts), block_temporaries a ts) \<and>
     (\<exists>c. operators_of c (old @ ts) \<and> snd cst = st0\<lparr>parse_context := c, parse_address := a + 1 + length ts\<rparr>)"

lemma collect_operation_eq:
  assumes "collected_ok atod old a st0 ts cst"
  shows "case collect_operation atod t cst of
      Inl e \<Rightarrow> \<not> collectable atod old (ts @ [t])
    | Inr cst' \<Rightarrow> collected_ok atod old a st0 (ts @ [t]) cst'"
proof -
  from assms obtain c where ts: "collectable atod old ts" and c: "operators_of c (old @ ts)"
    and cst: "cst = ((map (collected_operation atod) (enumerate (a + 1) ts), block_temporaries a ts),
      st0\<lparr>parse_context := c, parse_address := a + 1 + length ts\<rparr>)"
    by (cases cst) (auto simp: collected_ok_def)
  show ?thesis
  proof (cases "visitOperation atod t")
    case (Inl e)
    with visitOperation_eq [of atod t] show ?thesis by (simp add: cst collect_operation_def collectable_def)
  next
    case (Inr parts)
    with visitOperation_eq [of atod t] have ok: "operation_tree_ok atod t" and parts: "parts = \<lparr>op_result_ids = map TemporaryId (tree_result t),
        operator_name = tree_operator_name t, parts_attributes = parsed_attributes atod t,
        input_ids = map visit_value (tree_arguments t)\<rparr>" by simp_all
    show ?thesis
    proof (cases "MaybeRegisterOperator (tree_operator_name t) (length (tree_result t)) c")
      case Inl': (Inl e)
      with MaybeRegisterOperator_eq [OF c, of t] Inr parts show ?thesis
        by (simp add: cst collect_operation_def collectable_def)
    next
      case Inr': (Inr oc)
      with MaybeRegisterOperator_eq [OF c, of t] obtain c' where oc: "oc = (tree_op t, c')" and c': "operators_of c' (old @ ts @ [t])"
        by (cases oc) simp
      let ?temps = "fold_result (insert_temporary (a + 1 + length ts)) (enumerate 0 (map TemporaryId (tree_result t))) (block_temporaries a ts)"
      have keys: "fst ` set (block_temporaries a ts) = set (tree_temporaries ts)"
        using arg_cong [OF keys_block_temporaries, of set a ts] by simp
      have dist: "distinct (tree_temporaries (ts @ [t])) \<longleftrightarrow> distinct (tree_result t) \<and> set (tree_result t) \<inter> set (tree_temporaries ts) = {}"
        using ts by (auto simp: tree_temporaries_def collectable_def)
      show ?thesis
      proof (cases ?temps)
        case Inl'': (Inl e)
        with insert_temporaries_eq [where oid = "a + 1 + length ts" and k = 0 and ns = "tree_result t" and temps = "block_temporaries a ts"]
        have "\<not> distinct (tree_temporaries (ts @ [t]))" by (simp add: keys dist)
        with Inl'' Inr Inr' parts oc show ?thesis by (simp add: cst collect_operation_def collectable_def Let_def)
      next
        case Inr'': (Inr temps)
        with insert_temporaries_eq [where oid = "a + 1 + length ts" and k = 0 and ns = "tree_result t" and temps = "block_temporaries a ts"]
        have d: "distinct (tree_temporaries (ts @ [t]))" and temps: "temps = block_temporaries a (ts @ [t])"
          by (simp_all add: keys dist block_temporaries_append result_temporaries_def)
        have "collectable atod old (ts @ [t])" using ts ok d operators_of_one_arity [OF c'] by (simp add: collectable_def)
        then show ?thesis using Inr'' Inr Inr' parts oc temps c'
          by (auto simp: cst collect_operation_def collected_ok_def collected_operation_def enumerate_append_eq Let_def)
      qed
    qed
  qed
qed

lemma collect_operations_eq:
  assumes "operators_of c old" and "parse_context st = c" and "parse_address st = a + 1"
  shows "case fold_result (collect_operation atod) ts (([], []), st) of
      Inl e \<Rightarrow> \<not> collectable atod old ts
    | Inr cst \<Rightarrow> collected_ok atod old a st ts cst"
proof (rule fold_result_from_start [where I = "collected_ok atod old a st" and Q = "collectable atod old"])
  show "collected_ok atod old a st [] (([], []), st)"
    using assms operators_of_one_arity [OF assms(1)]
    by (auto simp: collected_ok_def collectable_def tree_temporaries_def block_temporaries_def intro!: exI [of _ c])
  show "collectable atod old ys" if "collectable atod old (ys @ zs)" for ys zs
    using that by (auto simp: collectable_def tree_temporaries_def one_arity_def)
qed (rule collect_operation_eq)

text \<open>The names of the values: what the blocks so far have named.\<close>

definition names_of :: "ssa_names \<Rightarrow> (string \<times> ir_value) list \<Rightarrow> bool" where
  "names_of s temps \<longleftrightarrow> (\<forall>v n. map_of (item_ids (value_ids s)) v = Some n \<longleftrightarrow> (n, v) \<in> set temps)"

lemma name_temporaries_ok:
  assumes "names_of s old" and "distinct (map snd (old @ temps))"
  shows "\<exists>s'. fold_result name_temporary temps s = Inr s' \<and> names_of s' (old @ temps)"
  using assms
proof (induction temps arbitrary: s old)
  case (Cons x temps)
  obtain n v where x: "x = (n, v)" by (cases x)
  have old: "(m, v) \<notin> set old" for m
    using Cons.prems(2) x by force
  then have new: "map_of (item_ids (value_ids s)) v = None"
    using Cons.prems(1) by (metis names_of_def not_Some_eq)
  define s1 where "s1 = s\<lparr>value_ids := snd (Manager_UpdateID v n (value_ids s))\<rparr>"
  have step: "name_temporary x s = Inr s1"
    using new by (simp add: x name_temporary_def AddID_value_def Manager_FindID_def Manager_UpdateID_def s1_def Let_def)
  have "names_of s1 (old @ [x])"
    using Cons.prems(1) old by (auto simp: names_of_def s1_def Manager_UpdateID_def x)
  from Cons.IH [OF this] Cons.prems(2) step show ?case by simp
qed simp

lemma names_of_cong: "set xs = set ys \<Longrightarrow> names_of s xs = names_of s ys"
  by (simp add: names_of_def)

text \<open>The second loop.\<close>

lemma fold_AddInput: "fold AddInput vs oper = oper\<lparr>inputs := inputs oper @ vs\<rparr>"
  by (induction vs arbitrary: oper) (simp_all add: AddInput_def)

lemma input_values_eq:
  "case map_result (input_value temps) (map visit_value vs) of
      Inl e \<Rightarrow> \<exists>n. NamedTempValue n \<in> set vs \<and> n \<notin> fst ` set temps
    | Inr xs \<Rightarrow> (\<forall>n. NamedTempValue n \<in> set vs \<longrightarrow> n \<in> fst ` set temps) \<and> xs = map (operand temps) vs"
proof (induction vs)
  case (Cons v vs)
  show ?case
  proof (cases v)
    case AnyToken
    with Cons show ?thesis by (auto simp: visitAnyValue_def input_value_def operand_def split: sum.splits)
  next
    case (NamedTempValue n)
    show ?thesis
    proof (cases "map_of temps n")
      case None
      moreover from None have "n \<notin> fst ` set temps" by (simp add: map_of_eq_None_iff)
      ultimately show ?thesis using NamedTempValue by (auto simp: visitNamedTempValue_def input_value_def)
    next
      case (Some w)
      then have "n \<in> fst ` set temps" by (metis map_of_eq_None_iff option.distinct(1))
      with Cons NamedTempValue Some show ?thesis
        by (auto simp: visitNamedTempValue_def input_value_def operand_def split: sum.splits)
    qed
  qed
qed simp

definition operands_in :: "string set \<Rightarrow> (nat \<times> operation_tree) list \<Rightarrow> bool" where
  "operands_in known jts \<longleftrightarrow> (\<forall>jt \<in> set jts. \<forall>n. NamedTempValue n \<in> set (tree_arguments (snd jt)) \<longrightarrow> n \<in> known)"

lemma fill_operations_eq:
  "case fold_result (fill_operation temps) (map (collected_operation atod) jts) (put_block a blk) of
      Inl e \<Rightarrow> \<not> operands_in (fst ` set temps) jts
    | Inr b \<Rightarrow> operands_in (fst ` set temps) jts \<and>
        b = put_block a (blk\<lparr>operations := operations blk @ map (parsed_operation atod a temps) jts\<rparr>)"
proof (induction jts arbitrary: blk)
  case (Cons jt jts)
  show ?case
  proof (cases "map_result (input_value temps) (map visit_value (tree_arguments (snd jt)))")
    case (Inl e)
    with input_values_eq [where temps = temps and vs = "tree_arguments (snd jt)"] show ?thesis
      by (auto simp: collected_operation_def fill_operation_def operands_in_def)
  next
    case (Inr xs)
    with input_values_eq [where temps = temps and vs = "tree_arguments (snd jt)"]
    have ok: "\<forall>n. NamedTempValue n \<in> set (tree_arguments (snd jt)) \<longrightarrow> n \<in> fst ` set temps"
      and xs: "xs = map (operand temps) (tree_arguments (snd jt))" by simp_all
    have step: "fill_operation temps (collected_operation atod jt) (put_block a blk) =
        Inr (put_block a (blk\<lparr>operations := operations blk @ [parsed_operation atod a temps jt]\<rparr>))"
      using Inr by (simp add: collected_operation_def fill_operation_def fold_AddInput Builder_AddOperation_def unbuilt_def
          put_block_def make_operation_def set_parent_def parsed_operation_def xs)
    from Cons.IH [of "blk\<lparr>operations := operations blk @ [parsed_operation atod a temps jt]\<rparr>"] ok show ?thesis
      by (auto simp: step operands_in_def split: sum.splits)
  qed
qed (simp add: operands_in_def)

text \<open>The values that get a name are different.\<close>

definition in_range :: "nat \<Rightarrow> nat \<Rightarrow> ir_value \<Rightarrow> bool" where
  "in_range a b v \<longleftrightarrow> (\<exists>j i. v = OperationResult j i \<and> a \<le> j \<and> j < b)"

definition fresh_values :: "nat \<Rightarrow> nat \<Rightarrow> (string \<times> ir_value) list \<Rightarrow> bool" where
  "fresh_values a b temps \<longleftrightarrow> distinct (map snd temps) \<and> (\<forall>x \<in> set temps. in_range a b (snd x))"

lemma fresh_values_append:
  assumes "fresh_values a b xs" and "fresh_values b' c ys" and "b \<le> b'" and "a \<le> b'" and "b' \<le> c"
  shows "fresh_values a c (xs @ ys)"
proof -
  have "\<not> (in_range a b v \<and> in_range b' c v)" for v using assms(3) by (auto simp: in_range_def)
  with assms(1,2) have "snd ` set xs \<inter> snd ` set ys = {}" unfolding fresh_values_def by fastforce
  moreover have "in_range a b v \<Longrightarrow> in_range a c v" "in_range b' c v \<Longrightarrow> in_range a c v" for v
    using assms(3-5) by (auto simp: in_range_def)
  ultimately show ?thesis using assms(1,2) by (auto simp: fresh_values_def)
qed

lemma fresh_block_temporaries: "fresh_values a (a + 1 + length ts) (block_temporaries a ts)"
proof (induction ts rule: rev_induct)
  case Nil
  show ?case by (simp add: block_temporaries_def fresh_values_def)
next
  case (snoc t ts)
  let ?j = "a + 1 + length ts"
  have "map snd (result_temporaries ?j t) = map (OperationResult ?j) (map fst (enumerate 0 (tree_result t)))"
    by (simp add: result_temporaries_def split_def del: map_fst_enumerate)
  then have "map snd (result_temporaries ?j t) = map (OperationResult ?j) [0..<length (tree_result t)]" by simp
  then have dist: "distinct (map snd (result_temporaries ?j t))" by (simp add: distinct_map inj_on_def)
  then have "fresh_values ?j (?j + 1) (result_temporaries ?j t)"
    by (auto simp: fresh_values_def in_range_def result_temporaries_def)
  from fresh_values_append [OF snoc this] show ?case by (simp add: block_temporaries_append)
qed

fun end_address :: "nat \<Rightarrow> block_tree list \<Rightarrow> nat" where
  "end_address a [] = a"
| "end_address a (b # bs) = end_address (a + 1 + length (tree_operations b)) bs"

lemma at_addresses_append: "at_addresses a (bs @ [b]) = at_addresses a bs @ [(end_address a bs, b)]"
  by (induction bs arbitrary: a) simp_all

lemma end_address_append: "end_address a (bs @ [b]) = end_address a bs + 1 + length (tree_operations b)"
  by (induction bs arbitrary: a) simp_all

lemma end_address_le: "a \<le> end_address a bs"
  by (induction bs rule: rev_induct) (simp_all add: end_address_append)

lemma module_temporaries_append:
  "module_temporaries a (bs @ [b]) = module_temporaries a bs @ block_temporaries (end_address a bs) (tree_operations b)"
  by (simp add: module_temporaries_def at_addresses_append)

lemma fresh_module_temporaries: "fresh_values a (end_address a bs) (module_temporaries a bs)"
proof (induction bs rule: rev_induct)
  case Nil
  show ?case by (simp add: module_temporaries_def fresh_values_def)
next
  case (snoc b bs)
  from fresh_values_append [OF snoc fresh_block_temporaries] show ?case
    using end_address_le [of a bs] by (simp add: module_temporaries_append end_address_append)
qed

section \<open>The whole program\<close>

definition blocks_ok :: "(string \<Rightarrow> double option) \<Rightarrow> block_tree list \<Rightarrow> bool" where
  "blocks_ok atod bs \<longleftrightarrow> list_all (block_tree_ok atod) bs \<and> one_arity (all_operations bs)"

definition visited ::
  "(string \<Rightarrow> double option) \<Rightarrow> module_id \<Rightarrow> nat \<Rightarrow> block_tree list \<Rightarrow> ir_visitor \<Rightarrow> bool" where
  "visited atod this a bs st \<longleftrightarrow> blocks_ok atod bs \<and> operators_of (parse_context st) (all_operations bs) \<and>
     parse_module st = \<lparr>blocks = parsed_blocks atod this a bs, named_storage_map = []\<rparr> \<and>
     names_of (parse_names st) (module_temporaries a bs) \<and> parse_address st = end_address a bs"

lemma operands_in_iff: "operands_in (fst ` set (block_temporaries a ts)) (enumerate k ts) \<longleftrightarrow> operands_ok ts"
proof -
  have keys: "fst ` set (block_temporaries a ts) = set (tree_temporaries ts)"
    using arg_cong [OF keys_block_temporaries, of set a ts] by simp
  have "snd ` set (enumerate k ts) = set ts" by (metis list.set_map map_snd_enumerate)
  then show ?thesis unfolding operands_in_def operands_ok_def keys by (metis (no_types, lifting) imageE imageI)
qed

lemma visitBlock_eq:
  assumes ord: "is_order ord" and st: "visited atod this a bs st"
  shows "case visitBlock ord atod this b st of
      Inl e \<Rightarrow> \<not> blocks_ok atod (bs @ [b])
    | Inr st' \<Rightarrow> visited atod this a (bs @ [b]) st'"
proof -
  let ?a = "parse_address st" and ?ts = "tree_operations b" and ?old = "all_operations bs"
  let ?st = "st\<lparr>parse_address := ?a + 1\<rparr>"
  have a: "?a = end_address a bs" and ops: "operators_of (parse_context ?st) ?old" and bs: "list_all (block_tree_ok atod) bs"
    using st by (simp_all add: visited_def blocks_ok_def)
  have ok: "blocks_ok atod (bs @ [b]) \<longleftrightarrow> collectable atod ?old ?ts \<and> operands_ok ?ts"
    using bs by (auto simp: blocks_ok_def block_tree_ok_def collectable_def all_operations_def)
  note collect = collect_operations_eq [OF ops refl, of ?a atod ?ts]
  show ?thesis
  proof (cases "fold_result (collect_operation atod) ?ts (([], []), ?st)")
    case (Inl e)
    with collect show ?thesis by (simp add: visitBlock_def ok Let_def)
  next
    case (Inr cst)
    with collect have c: "collected_ok atod ?old ?a ?st ?ts cst" by simp
    then obtain ctx where ctx: "operators_of ctx (?old @ ?ts)" and coll: "collectable atod ?old ?ts"
      and cst: "cst = ((map (collected_operation atod) (enumerate (?a + 1) ?ts), block_temporaries ?a ?ts),
        ?st\<lparr>parse_context := ctx, parse_address := ?a + 1 + length ?ts\<rparr>)"
      by (cases cst) (auto simp: collected_ok_def)
    let ?temps = "block_temporaries ?a ?ts"
    have perm: "mset (ord ?temps) = mset ?temps" using ord by (simp add: is_order_def)
    have "distinct (map snd (module_temporaries a bs @ ?temps))"
      using fresh_module_temporaries [of a "bs @ [b]"] by (simp add: fresh_values_def module_temporaries_append a)
    then have "distinct (map snd (module_temporaries a bs @ ord ?temps))"
      using perm by (metis (no_types, lifting) map_append mset_append mset_eq_imp_distinct_iff mset_map)
    from name_temporaries_ok [OF _ this] st obtain s where s: "fold_result name_temporary (ord ?temps) (parse_names st) = Inr s"
      "names_of s (module_temporaries a bs @ ord ?temps)" by (auto simp: visited_def)
    with perm have names: "names_of s (module_temporaries a (bs @ [b]))"
      using names_of_cong [of "module_temporaries a bs @ ord ?temps" "module_temporaries a (bs @ [b])" s]
      by (simp add: module_temporaries_append a) (metis set_mset_mset)
    note fill = fill_operations_eq [where temps = ?temps and atod = atod and jts = "enumerate (?a + 1) ?ts" and a = ?a and blk = empty_block]
    have new: "new_builder ?a = put_block ?a empty_block" by (simp add: new_builder_def put_block_def)
    show ?thesis
    proof (cases "fold_result (fill_operation ?temps) (map (collected_operation atod) (enumerate (?a + 1) ?ts)) (put_block ?a empty_block)")
      case Inl': (Inl e)
      with fill Inr s(1) show ?thesis
        by (simp add: visitBlock_def ok Let_def cst new operands_in_iff)
    next
      case Inr': (Inr builder)
      with fill have operands: "operands_ok ?ts" and builder: "builder = put_block ?a (empty_block\<lparr>operations :=
          map (parsed_operation atod ?a ?temps) (enumerate (?a + 1) ?ts)\<rparr>)"
        by (simp_all add: operands_in_iff empty_block_def)
      define st' where "st' = st\<lparr>parse_context := ctx, parse_address := ?a + 1 + length ?ts, parse_names := s,
        parse_module := \<lparr>blocks = blocks (parse_module st) @ [parsed_block atod this ?a b], named_storage_map = []\<rparr>\<rparr>"
      let ?blk = "empty_block\<lparr>operations := map (parsed_operation atod ?a ?temps) (enumerate (?a + 1) ?ts)\<rparr>"
      have built: "build builder = Inr ((?a, ?blk), \<lparr>builder_block = None\<rparr>)"
        by (simp add: builder build_def put_block_def)
      have "named_storage_map (parse_module st) = []" using st by (simp add: visited_def)
      then have added: "AddBlock this (?a, ?blk) (parse_module st) =
          Inr \<lparr>blocks = blocks (parse_module st) @ [parsed_block atod this ?a b], named_storage_map = []\<rparr>"
        by (simp add: AddBlock_def parsed_block_def empty_block_def)
      have "visitBlock ord atod this b st = Inr st'"
        by (simp add: visitBlock_def Let_def Inr [unfolded cst] new s(1) Inr' built added st'_def del: One_nat_def)
      moreover have "visited atod this a (bs @ [b]) st'"
        using st ctx names coll operands ok by (simp add: visited_def st'_def all_operations_def parsed_blocks_def at_addresses_append
            end_address_append a)
      ultimately show ?thesis by simp
    qed
  qed
qed

lemma visitModule_eq:
  assumes "is_order ord"
  shows "case visitModule ord atod this t (new_ir_visitor a) of
      Inl e \<Rightarrow> \<not> blocks_ok atod (tree_blocks t)
    | Inr st \<Rightarrow> visited atod this a (tree_blocks t) st"
  unfolding visitModule_def
proof (rule fold_result_from_start [where I = "visited atod this a" and Q = "blocks_ok atod"])
  show "visited atod this a [] (new_ir_visitor a)"
    by (simp add: visited_def blocks_ok_def one_arity_def all_operations_def operators_of_def new_ir_visitor_def empty_context_def
        GetOperator_def GetNode_def parsed_blocks_def empty_module_def names_of_def module_temporaries_def new_ssa_names_def
        new_id_manager_def)
  show "blocks_ok atod ys" if "blocks_ok atod (ys @ zs)" for ys zs
    using that by (auto simp: blocks_ok_def all_operations_def one_arity_def)
qed (rule visitBlock_eq [OF assms])

text \<open>C22: Parsing a program aborts exactly when the text has a syntax error, a literal cannot be read,
  an operation has two attributes of one name, a block assigns a temporary twice or uses one that
  it does not assign, or two operations of one operator differ in their number of results. Otherwise
  the module has the blocks and operations of the program in their order, every operand
  is the result that its temporary names, also when it is assigned later, the context holds
  exactly the operators that occur, and the names are the temporaries: in any
  iteration order of the hash map of temporaries.\<close>

theorem parsed_program:
  assumes "is_order ord"
  shows "case ParseProgram antlr ord atod this addr prog_text of
      Inl e \<Rightarrow> (case antlr prog_text of None \<Rightarrow> True | Some t \<Rightarrow> \<not> module_tree_ok atod t)
    | Inr st \<Rightarrow> \<exists>t. antlr prog_text = Some t \<and> module_tree_ok atod t \<and>
        parse_module st = \<lparr>blocks = parsed_blocks atod this addr (tree_blocks t), named_storage_map = []\<rparr> \<and>
        operators_of (parse_context st) (all_operations (tree_blocks t)) \<and>
        names_of (parse_names st) (module_temporaries addr (tree_blocks t))"
proof (cases "antlr prog_text")
  case (Some t)
  have "module_tree_ok atod t \<longleftrightarrow> blocks_ok atod (tree_blocks t)" by (simp add: module_tree_ok_def blocks_ok_def)
  with visitModule_eq [OF assms, where atod = atod and this = this and t = t and a = addr] Some show ?thesis
    by (auto simp: ParseProgram_def visitIrProgram_def visited_def split: sum.splits)
qed (simp add: ParseProgram_def)

text \<open>Two operations that use each other's results, and the text's attributes.\<close>

definition cyclic_tree :: module_tree where
  "cyclic_tree = \<lparr>tree_module_id = ''m0'', tree_blocks = [\<lparr>tree_block_id = ''b0'', tree_operations =
     [\<lparr>tree_result = [''%0''], tree_operator_name = ''core.plus'', tree_attribute_list = Some [(''n'', NumLiteral ''42'')],
        tree_argument_list = Some [NamedTempValue ''%x'', AnyToken]\<rparr>,
      \<lparr>tree_result = [''%x''], tree_operator_name = ''core.plus'', tree_attribute_list = None,
        tree_argument_list = Some [NamedTempValue ''%0'']\<rparr>]\<rparr>]\<rparr>"

lemma cyclic_tree_ok: "module_tree_ok (\<lambda>_. None) cyclic_tree"
  by (simp add: module_tree_ok_def cyclic_tree_def block_tree_ok_def operation_tree_ok_def tree_attributes_def
      tree_temporaries_def operands_ok_def tree_arguments_def one_arity_def all_operations_def tree_op_def
      visitNumAttribute_def) code_simp

theorem parsed_program_witness:
  "\<exists>st. ParseProgram (\<lambda>_. Some cyclic_tree) rev (\<lambda>_. None) 0 10 [] = Inr st \<and>
     names_of (parse_names st) [(''%0'', OperationResult 11 0), (''%x'', OperationResult 12 0)] \<and>
     map (\<lambda>b. map (\<lambda>y. (attributes (snd y), inputs (snd y))) (operations (snd b))) (blocks (parse_module st)) =
       [[([(''n'', Int64Attribute 42)], [OperationResult 12 0, Any]), ([], [OperationResult 11 0])]]"
proof -
  have temps: "module_temporaries 10 (tree_blocks cyclic_tree) = [(''%0'', OperationResult 11 0), (''%x'', OperationResult 12 0)]"
    by code_simp
  have blks: "map (\<lambda>b. map (\<lambda>y. (attributes (snd y), inputs (snd y))) (operations (snd b)))
      (parsed_blocks (\<lambda>_. None) 0 10 (tree_blocks cyclic_tree)) =
      [[([(''n'', Int64Attribute 42)], [OperationResult 12 0, Any]), ([], [OperationResult 11 0])]]"
    by code_simp
  from parsed_program [where ord = rev and antlr = "\<lambda>_. Some cyclic_tree" and atod = "\<lambda>_. None" and this = 0 and addr = 10 and prog_text = "[]"] cyclic_tree_ok temps blks show ?thesis
    by (auto split: sum.splits)
qed

end
