(* ===== verification/Ir_Proto.thy ===== *)
theory Ir_Proto imports
  Ir_Printer
begin

text \<open>
  The protocol buffer form of the IR: \<^verbatim>\<open>src/ir/ir_to_proto.h\<close>, \<^verbatim>\<open>ir_to_proto.cc\<close>,
  \<^verbatim>\<open>proto_to_ir.h\<close> and \<^verbatim>\<open>proto_to_ir.cc\<close>. Messages are values; a \<^verbatim>\<open>oneof\<close> has a constructor for
  "not set"; a \<^verbatim>\<open>map\<close> field is a list of entries, and so is a hash map that is iterated: the
  orders are parameters. The JSON reading of \<^verbatim>\<open>Convert\<close> is the protobuf library's.
\<close>

section \<open>The messages\<close>

datatype value_proto =
    VALUE_NOT_SET
  | AnyValue
  | OperationResultValue nat nat
  | BlockArgumentValue nat nat

datatype attribute_payload =
    PAYLOAD_NOT_SET
  | float_payload double
  | int64_payload int
  | string_payload string

record operation_proto =
  proto_operator_name :: string
  proto_inputs :: "value_proto list"
  proto_attributes :: "(string \<times> attribute_payload) list"

record block_proto =
  proto_operations :: "(nat \<times> operation_proto) list"
  proto_results :: "(string \<times> value_proto) list"

type_synonym module_proto = "(nat \<times> block_proto) list"

record ir_translation_unit =
  top_level_module :: module_proto
  frontend :: string
  proto_operators :: "string list"

text \<open>The iteration orders of the maps.\<close>

record proto_orders =
  ord_operators :: "(string \<times> operator) list \<Rightarrow> (string \<times> operator) list"
  ord_results :: "(string \<times> ir_value) list \<Rightarrow> (string \<times> ir_value) list"
  ord_attributes :: "(string \<times> attribute) list \<Rightarrow> (string \<times> attribute) list"

section \<open>From the IR to the messages\<close>

datatype ir_ptr = BlockPtr block_id | OperationPtr op_id

record ir_to_proto =
  used_ids :: "(ir_ptr, nat) hash_map"
  last_used_id :: nat

definition GetID :: "ir_ptr \<Rightarrow> ir_to_proto \<Rightarrow> nat \<times> ir_to_proto" where
  "GetID ptr st =
     (let (ids, inserted) = hm_insert ptr (last_used_id st + 1) (used_ids st)
      in if \<not> inserted then (case map_of ids ptr of Some i \<Rightarrow> i | None \<Rightarrow> 0, st)
         else (last_used_id st + 1, st\<lparr>used_ids := ids, last_used_id := last_used_id st + 1\<rparr>))"

definition BlockArgumentToProto :: "block_id \<Rightarrow> nat \<Rightarrow> ir_to_proto \<Rightarrow> value_proto \<times> ir_to_proto" where
  "BlockArgumentToProto b index st = (let (i, st) = GetID (BlockPtr b) st in (BlockArgumentValue i index, st))"

definition OperationResultToProto :: "op_id \<Rightarrow> nat \<Rightarrow> ir_to_proto \<Rightarrow> value_proto \<times> ir_to_proto" where
  "OperationResultToProto oid index st =
     (let (i, st) = GetID (OperationPtr oid) st in (OperationResultValue i index, st))"

fun ValueToProto :: "ir_value \<Rightarrow> ir_to_proto \<Rightarrow> (value_proto \<times> ir_to_proto) result" where
  "ValueToProto Any st = Inr (AnyValue, st)"
| "ValueToProto (OperationResult oid i) st = Inr (OperationResultToProto oid i st)"
| "ValueToProto (BlockArgument b i) st = Inr (BlockArgumentToProto b i st)"
| "ValueToProto (StoredValue _) st = Inl (Check_failed ''Unexpected variant of Value from IR'')"

fun AttributeToProto :: "attribute \<Rightarrow> attribute_payload" where
  "AttributeToProto (FloatAttribute d) = float_payload d"
| "AttributeToProto (Int64Attribute i) = int64_payload i"
| "AttributeToProto (StringAttribute s) = string_payload s"

definition OperationToProto ::
  "proto_orders \<Rightarrow> operation \<Rightarrow> ir_to_proto \<Rightarrow> (operation_proto \<times> ir_to_proto) result" where
  "OperationToProto ords operation st =
     rbind (map_state ValueToProto (inputs operation) st) (\<lambda>(ins, st).
     Inr (\<lparr>proto_operator_name = op_name (op_of operation), proto_inputs = ins,
       proto_attributes = fold (\<lambda>(name, a) m. fst (hm_insert name (AttributeToProto a) m))
         (ord_attributes ords (attributes operation)) []\<rparr>, st))"

definition BlockToProto :: "proto_orders \<Rightarrow> block \<Rightarrow> ir_to_proto \<Rightarrow> (block_proto \<times> ir_to_proto) result" where
  "BlockToProto ords blk st =
     rbind (map_state (\<lambda>(oid, oper) st. rbind (OperationToProto ords oper st) (\<lambda>(op_proto, st).
         let (i, st) = GetID (OperationPtr oid) st in Inr ((i, op_proto), st))) (operations blk) st) (\<lambda>(ops, st).
     rbind (map_state (\<lambda>(name, v) st. rbind (ValueToProto v st) (\<lambda>(v, st). Inr ((name, v), st)))
         (ord_results ords (results blk)) st) (\<lambda>(rs, st).
     Inr (\<lparr>proto_operations = ops,
       proto_results = fold (\<lambda>(name, v) m. fst (hm_insert name v m)) rs []\<rparr>, st)))"

definition ModuleToProto ::
  "proto_orders \<Rightarrow> ir_module \<Rightarrow> ir_to_proto \<Rightarrow> (module_proto \<times> ir_to_proto) result" where
  "ModuleToProto ords m st =
     map_state (\<lambda>(b, blk) st. rbind (BlockToProto ords blk st) (\<lambda>(blk_proto, st).
       let (i, st) = GetID (BlockPtr b) st in Inr ((i, blk_proto), st))) (blocks m) st"

definition IRToProto_Convert :: "proto_orders \<Rightarrow> ir_context \<Rightarrow> ir_module \<Rightarrow> ir_translation_unit result" where
  "IRToProto_Convert ords context root =
     rbind (ModuleToProto ords root \<lparr>used_ids = [], last_used_id = 0\<rparr>) (\<lambda>(module_proto, _).
     Inr \<lparr>top_level_module = module_proto, frontend = ''Raksha.IRToProto'',
       proto_operators = map fst (ord_operators ords (ctx_operators context))\<rparr>)"

section \<open>From the messages to the IR\<close>

text \<open>
  \<^verbatim>\<open>operations_\<close> holds the operations until \<^verbatim>\<open>PostVisit\<close> moves them into their block: a moved
  pointer is \<open>None\<close>. Addresses are never used twice.
\<close>

record proto_to_ir =
  pending_operations :: "(nat, (op_id \<times> operation) option) hash_map"
  pending_blocks :: "(nat, block_builder) hash_map"
  pending_names :: ssa_names
  fresh_address :: nat

definition new_proto_to_ir :: "nat \<Rightarrow> proto_to_ir" where
  "new_proto_to_ir addr = \<lparr>pending_operations = [], pending_blocks = [], pending_names = new_ssa_names,
     fresh_address = addr\<rparr>"

fun PreVisit_value :: "value_proto \<Rightarrow> unit result" where
  "PreVisit_value AnyValue = Inr ()"
| "PreVisit_value (OperationResultValue _ _) = Inr ()"
| "PreVisit_value (BlockArgumentValue _ _) = Inr ()"
| "PreVisit_value VALUE_NOT_SET = Inl (Check_failed ''Unexpected variant of Value from IR'')"

definition PreVisit_attribute :: "attribute_payload \<Rightarrow> unit result" where
  "PreVisit_attribute a = Inr ()"

definition PreVisit_operation_proto :: "operation_proto \<Rightarrow> unit result" where
  "PreVisit_operation_proto op_proto =
     rbind (map_result PreVisit_value (proto_inputs op_proto)) (\<lambda>_.
     rbind (map_result (\<lambda>(_, a). PreVisit_attribute a) (proto_attributes op_proto)) (\<lambda>_. Inr ()))"

definition construct_operation ::
  "ir_context \<Rightarrow> nat \<times> operation_proto \<Rightarrow> proto_to_ir \<Rightarrow> proto_to_ir result" where
  "construct_operation context operation_it st =
     (let (i, op_proto) = operation_it in
      rbind (check_some (GetOperator (proto_operator_name op_proto) context) ''Operator was not registered.'')
        (\<lambda>oprt.
      let addr = fresh_address st;
          oper = make_operation None oprt [] [];
          (_, names) = GetOrCreateID_value (OperationResult addr 0) (pending_names st);
          (ops, _) = hm_insert i (Some (addr, oper)) (pending_operations st)
      in rbind (PreVisit_operation_proto op_proto) (\<lambda>_.
         Inr (st\<lparr>pending_operations := ops, pending_names := names, fresh_address := addr + 1\<rparr>))))"

definition PreVisit_block_proto :: "ir_context \<Rightarrow> block_proto \<Rightarrow> proto_to_ir \<Rightarrow> proto_to_ir result" where
  "PreVisit_block_proto context blk st =
     rbind (fold_result (construct_operation context) (proto_operations blk) st) (\<lambda>st.
     rbind (map_result (\<lambda>(_, v). PreVisit_value v) (proto_results blk)) (\<lambda>_. Inr st))"

definition PreVisit_module_proto :: "ir_context \<Rightarrow> module_proto \<Rightarrow> proto_to_ir \<Rightarrow> proto_to_ir result" where
  "PreVisit_module_proto context module_proto st =
     fold_result (\<lambda>(i, blk) st.
       let (bs, _) = hm_insert i (new_builder (fresh_address st)) (pending_blocks st)
       in PreVisit_block_proto context blk (st\<lparr>pending_blocks := bs, fresh_address := fresh_address st + 1\<rparr>))
       module_proto st"

definition ToIR_block_argument :: "nat \<Rightarrow> nat \<Rightarrow> proto_to_ir \<Rightarrow> ir_value result" where
  "ToIR_block_argument i index st =
     rbind (check_some (map_of (pending_blocks st) i) ''Could not find block with id'') (\<lambda>b.
     rbind (GetBlockPtr b) (\<lambda>addr. Inr (BlockArgument addr index)))"

definition ToIR_operation_result :: "nat \<Rightarrow> nat \<Rightarrow> proto_to_ir \<Rightarrow> ir_value result" where
  "ToIR_operation_result i index st =
     rbind (check_some (map_of (pending_operations st) i) ''Could not find operation with id'') (\<lambda>ptr.
     rbind (deref ptr ''*operation'') (\<lambda>oper. Inr (OperationResult (fst oper) index)))"

definition ToIR_value :: "value_proto \<Rightarrow> proto_to_ir \<Rightarrow> (ir_value \<times> proto_to_ir) result" where
  "ToIR_value v st =
     rbind (case v of
         AnyValue \<Rightarrow> Inr Any
       | OperationResultValue i index \<Rightarrow> ToIR_operation_result i index st
       | BlockArgumentValue i index \<Rightarrow> ToIR_block_argument i index st
       | VALUE_NOT_SET \<Rightarrow> Inl (Check_failed ''Value not constructed due to unexpected variant of Value from IR.''))
       (\<lambda>v. let (_, names) = GetOrCreateID_value v (pending_names st) in Inr (v, st\<lparr>pending_names := names\<rparr>))"

fun ToIR_attribute :: "attribute_payload \<Rightarrow> attribute result" where
  "ToIR_attribute (float_payload d) = Inr (FloatAttribute d)"
| "ToIR_attribute (int64_payload i) = Inr (Int64Attribute i)"
| "ToIR_attribute (string_payload s) = Inr (StringAttribute s)"
| "ToIR_attribute PAYLOAD_NOT_SET = Inl (Check_failed ''Unexpected variant of Attribute Payload from IR'')"

definition ToIR_operation ::
  "operation_proto \<Rightarrow> operation \<Rightarrow> proto_to_ir \<Rightarrow> (operation \<times> proto_to_ir) result" where
  "ToIR_operation op_proto oper st =
     rbind (fold_result (\<lambda>v (oper, st). rbind (ToIR_value v st) (\<lambda>(v, st). Inr (AddInput v oper, st)))
              (proto_inputs op_proto) (oper, st)) (\<lambda>(oper, st).
     rbind (fold_result (\<lambda>(name, a) oper. rbind (ToIR_attribute a) (\<lambda>a. Inr (AddAttribute name a oper)))
              (proto_attributes op_proto) oper) (\<lambda>oper. Inr (oper, st)))"

text \<open>The operation is changed in place: other values hold its address.\<close>

definition ToIR_registered_operation :: "nat \<times> operation_proto \<Rightarrow> proto_to_ir \<Rightarrow> proto_to_ir result" where
  "ToIR_registered_operation operation_it st =
     (let (i, op_proto) = operation_it in
      rbind (check_some (map_of (pending_operations st) i) ''Operation was not registered.'') (\<lambda>ptr.
      rbind (check_some ptr ''Operation ptr is empty!'') (\<lambda>(addr, oper).
      rbind (ToIR_operation op_proto oper st) (\<lambda>(oper, st).
      Inr (st\<lparr>pending_operations := hm_assign i (Some (addr, oper)) (pending_operations st)\<rparr>)))))"

definition ToIR_block :: "nat \<Rightarrow> block_proto \<Rightarrow> proto_to_ir \<Rightarrow> proto_to_ir result" where
  "ToIR_block i blk st =
     rbind (check_some (map_of (pending_blocks st) i) ''This block should be pre-constructed.'') (\<lambda>_.
     rbind (fold_result (\<lambda>(name, v) st. rbind (ToIR_value v st) (\<lambda>(v, st).
         rbind (check_some (map_of (pending_blocks st) i) ''block_builder'') (\<lambda>b.
         rbind (Builder_AddResult name v b) (\<lambda>b.
         Inr (st\<lparr>pending_blocks := hm_assign i b (pending_blocks st)\<rparr>))))) (proto_results blk) st)
       (fold_result ToIR_registered_operation (proto_operations blk)))"

definition ToIR_module :: "module_proto \<Rightarrow> proto_to_ir \<Rightarrow> proto_to_ir result" where
  "ToIR_module module_proto st = fold_result (\<lambda>(i, blk). ToIR_block i blk) module_proto st"

fun PostVisit_value :: "value_proto \<Rightarrow> unit result" where
  "PostVisit_value AnyValue = Inr ()"
| "PostVisit_value (OperationResultValue _ _) = Inr ()"
| "PostVisit_value (BlockArgumentValue _ _) = Inr ()"
| "PostVisit_value VALUE_NOT_SET = Inl (Check_failed ''Unexpected variant of Value from IR'')"

definition PostVisit_attribute :: "attribute_payload \<Rightarrow> unit result" where
  "PostVisit_attribute a = Inr ()"

definition PostVisit_operation_proto :: "operation_proto \<Rightarrow> unit result" where
  "PostVisit_operation_proto op_proto =
     rbind (map_result PostVisit_value (proto_inputs op_proto)) (\<lambda>_.
     rbind (map_result (\<lambda>(_, a). PostVisit_attribute a) (proto_attributes op_proto)) (\<lambda>_. Inr ()))"

definition move_operation ::
  "nat \<times> operation_proto \<Rightarrow> block_builder \<times> proto_to_ir \<Rightarrow> (block_builder \<times> proto_to_ir) result" where
  "move_operation operation_it bst =
     (let (i, op_proto) = operation_it; (b, st) = bst in
      rbind (check_some (map_of (pending_operations st) i) ''This operation should be pre-constructed.'') (\<lambda>ptr.
      rbind (deref ptr ''*op'') (\<lambda>oper.
      rbind (PostVisit_operation_proto op_proto) (\<lambda>_.
      rbind (Builder_AddOperation oper b) (\<lambda>b.
      Inr (b, st\<lparr>pending_operations := hm_assign i None (pending_operations st)\<rparr>))))))"

definition PostVisit_block_proto ::
  "block_proto \<Rightarrow> block_builder \<times> proto_to_ir \<Rightarrow> (block_builder \<times> proto_to_ir) result" where
  "PostVisit_block_proto blk bst =
     rbind (fold_result move_operation (proto_operations blk) bst) (\<lambda>(b, st).
     rbind (map_result (\<lambda>(_, v). PostVisit_value v) (proto_results blk)) (\<lambda>_.
     rbind (GetBlockPtr b) (\<lambda>addr.
     let (_, names) = GetOrCreateID_block addr (pending_names st)
     in Inr (b, st\<lparr>pending_names := names\<rparr>))))"

definition PostVisit_module_proto ::
  "module_id \<Rightarrow> module_proto \<Rightarrow> ir_module \<times> proto_to_ir \<Rightarrow> (ir_module \<times> proto_to_ir) result" where
  "PostVisit_module_proto this module_proto mst =
     rbind (fold_result (\<lambda>(i, blk) (m, st).
         rbind (check_some (map_of (pending_blocks st) i) ''This block builder should be pre-constructed.'') (\<lambda>b.
         rbind (PostVisit_block_proto blk (b, st)) (\<lambda>(b, st).
         rbind (build b) (\<lambda>(built, b).
         rbind (AddBlock this built m) (\<lambda>m.
         Inr (m, st\<lparr>pending_blocks := hm_assign i b (pending_blocks st)\<rparr>)))))) module_proto mst) (\<lambda>(m, st).
     let (_, names) = GetOrCreateID_module this (pending_names st)
     in Inr (m, st\<lparr>pending_names := names\<rparr>))"

definition register_proto_operator :: "string \<Rightarrow> ir_context \<Rightarrow> ir_context result" where
  "register_proto_operator name c =
     (if IsRegisteredOperator name c then Inr c else RegisterOperator (make_operator name) c)"

definition ProtoToIR_Convert ::
  "nat \<Rightarrow> module_id \<Rightarrow> ir_context \<Rightarrow> ir_translation_unit
     \<Rightarrow> ((ir_module \<times> ssa_names) \<times> ir_context) result" where
  "ProtoToIR_Convert addr this context root =
     rbind (fold_result register_proto_operator (proto_operators root) context) (\<lambda>context.
     rbind (PreVisit_module_proto context (top_level_module root) (new_proto_to_ir addr)) (\<lambda>st.
     rbind (ToIR_module (top_level_module root) st) (\<lambda>st.
     rbind (PostVisit_module_proto this (top_level_module root) (empty_module, st)) (\<lambda>(m, st).
     rbind (check (\<forall>b \<in> set (pending_blocks st). IsBuilt (snd b))
              ''Block was not built and placed in its module.'') (\<lambda>_.
     rbind (check (\<forall>p \<in> set (pending_operations st). snd p = None)
              ''Operation was not moved into its module.'') (\<lambda>_.
     Inr ((m, pending_names st), context)))))))"

end
