(* ===== verification/Policy_Engine.thy ===== *)
theory Policy_Engine imports
  Souffle_Facts
  Ir_Parser
  Ir_Proto
begin

text \<open>
  The Souffle policy engine, \<^verbatim>\<open>src/backends/policy_engine/\<close>: the policies (\<^verbatim>\<open>policy.h\<close>,
  \<^verbatim>\<open>dp_parameter_policy.h\<close>, \<^verbatim>\<open>catchall_policy_rule_policy.h\<close>, \<^verbatim>\<open>sql_policy_rule_policy.h\<close>,
  \<^verbatim>\<open>auth_logic_policy.h\<close>), the writing of fact files (\<^verbatim>\<open>souffle/utils.cc\<close>,
  \<^verbatim>\<open>souffle/raksha_datalog_facts.cc\<close>), the checker (\<^verbatim>\<open>souffle/souffle_policy_checker.cc\<close>) and the
  program \<^verbatim>\<open>souffle/check_policy_compliance.cc\<close>. The compiled Souffle programs are parameters: what their
  output relations hold for a directory of fact files. A directory maps the names of its files to their
  contents. The log is not modelled.
\<close>

section \<open>Policies\<close>

type_synonym facts_directory = "string \<Rightarrow> string option"

text \<open>The tuples of the relations that a program holds after loading a directory and running, by name:
  \<^verbatim>\<open>getRelation\<close> of a name that the program does not declare is null.\<close>

type_synonym souffle_checker = "facts_directory \<Rightarrow> string \<Rightarrow> string list list option"

record policy =
  GetPolicyAnalysisChecker :: "souffle_checker option result"
  GetPolicyFactName :: "string option"
  GetPolicyString :: "string option"

text \<open>The compiled programs, or null: three by a function of their own, the others by name.\<close>

record souffle_checkers =
  dp_policy_verifier :: "souffle_checker option"
  datalog_policy_verifier :: "souffle_checker option"
  sql_policy_verifier :: "souffle_checker option"
  program_factory :: "string \<Rightarrow> souffle_checker option"

definition die_if_null :: "souffle_checker option \<Rightarrow> souffle_checker option result" where
  "die_if_null p = rbind (check_some p ''newInstance'') (\<lambda>program. Inr (Some program))"

definition DpParameterPolicy :: "souffle_checkers \<Rightarrow> 64 word \<Rightarrow> 64 word \<Rightarrow> policy" where
  "DpParameterPolicy cks epsilon delta = \<lparr>GetPolicyAnalysisChecker = die_if_null (dp_policy_verifier cks),
     GetPolicyFactName = Some ''isDPParameter'',
     GetPolicyString = Some (''$EpsilonValue('' @ string_of_nat (unat epsilon) @ '')'' @ [CHR 10] @
       ''$DeltaValue('' @ string_of_nat (unat delta) @ '')'')\<rparr>"

definition CatchallPolicyRulePolicy :: "souffle_checkers \<Rightarrow> string \<Rightarrow> policy" where
  "CatchallPolicyRulePolicy cks is_sql_policy_rule_facts = \<lparr>GetPolicyAnalysisChecker = die_if_null (datalog_policy_verifier cks),
     GetPolicyFactName = Some ''isSqlPolicyRule'', GetPolicyString = Some is_sql_policy_rule_facts\<rparr>"

definition SqlPolicyRulePolicy :: "souffle_checkers \<Rightarrow> string \<Rightarrow> policy" where
  "SqlPolicyRulePolicy cks is_sql_policy_rule_facts = \<lparr>GetPolicyAnalysisChecker = die_if_null (sql_policy_verifier cks),
     GetPolicyFactName = Some ''isSqlPolicyRule'', GetPolicyString = Some is_sql_policy_rule_facts\<rparr>"

definition AuthLogicPolicy :: "souffle_checkers \<Rightarrow> string \<Rightarrow> policy" where
  "AuthLogicPolicy cks auth_logic_policy_engine_name =
     \<lparr>GetPolicyAnalysisChecker = Inr (program_factory cks auth_logic_policy_engine_name),
     GetPolicyFactName = None, GetPolicyString = None\<rparr>"

section \<open>Fact files\<close>

text \<open>\<^verbatim>\<open>absl::StatusOr\<close>: a message, or the result. The platform says which files can be created, whether
  \<^verbatim>\<open>setenv\<close> works and whether a temporary directory can be had.\<close>

type_synonym 'a status_or = "string + 'a"

record platform =
  can_create :: "string \<Rightarrow> bool"
  setenv_ok :: bool
  temporary_directory :: "unit status_or"

definition WriteFactsStringToFactsFile ::
  "platform \<Rightarrow> string \<Rightarrow> string \<Rightarrow> facts_directory \<Rightarrow> unit status_or \<times> facts_directory" where
  "WriteFactsStringToFactsFile P relation_name facts_string dir =
     (let fact_files_path = relation_name @ ''.facts''
      in if dir fact_files_path \<noteq> None then (Inl ''Facts file already exists!'', dir)
         else if \<not> can_create P fact_files_path then (Inl ''Unable to create facts file'', dir)
         else (Inr (), dir(fact_files_path \<mapsto> facts_string)))"

definition facts_file_text :: "(double \<Rightarrow> string) \<Rightarrow> input_relation_fact list \<Rightarrow> string" where
  "facts_file_text lg facts = str_join [CHR 10] (map (ToDatalogFactsFileString lg) facts)"

definition DumpFactsToDirectory ::
  "platform \<Rightarrow> (double \<Rightarrow> string) \<Rightarrow> bool \<Rightarrow> string list \<Rightarrow> raksha_datalog_facts \<Rightarrow> facts_directory
     \<Rightarrow> unit status_or \<times> facts_directory" where
  "DumpFactsToDirectory P lg facts_path_exists empty_relations facts dir =
     (if \<not> facts_path_exists then (Inl ''Requested directory is not found!'', dir)
      else case WriteFactsStringToFactsFile P ''isOperation'' (facts_file_text lg (is_operation_facts facts)) dir of
        (Inl e, dir) \<Rightarrow> (Inl e, dir)
      | (Inr _, dir) \<Rightarrow> (Inr (), fold (\<lambda>name dir. snd (WriteFactsStringToFactsFile P name [] dir)) empty_relations dir))"

section \<open>The checker\<close>

definition status_check :: "'a status_or \<Rightarrow> string \<Rightarrow> unit result" where
  "status_check st msg = (case st of Inl _ \<Rightarrow> Inl (Check_failed msg) | Inr _ \<Rightarrow> Inr ())"

definition run_program :: "souffle_checker \<Rightarrow> facts_directory \<Rightarrow> bool result" where
  "run_program program dir =
     (let relations = program dir
      in rbind (check_some (relations ''hasError'') ''hasError'') (\<lambda>errors.
         rbind (check_some (relations ''violatesPolicy'') ''violatesPolicy'') (\<lambda>violations.
         Inr (length violations + length errors = 0))))"

definition IsModulePolicyCompliantHelper ::
  "platform \<Rightarrow> (double \<Rightarrow> string) \<Rightarrow> storage_heap \<Rightarrow> module_id \<times> ir_module \<Rightarrow> policy \<Rightarrow> facts_directory \<Rightarrow> bool result" where
  "IsModulePolicyCompliantHelper P lg heap m pol dir =
     rbind (case GetPolicyFactName pol of
         None \<Rightarrow> Inr dir
       | Some name \<Rightarrow> rbind (check_some (GetPolicyString pol) ''optional_policy_string'') (\<lambda>policy_string.
           let (st, dir) = WriteFactsStringToFactsFile P name policy_string dir
           in rbind (status_check st ''Unexpected error while outputting policy'') (\<lambda>_. Inr dir))) (\<lambda>dir.
     rbind (lower_module heap new_ssa_names m) (\<lambda>v.
     let (st, dir) = DumpFactsToDirectory P lg True [''isDPParameter''] (datalog_facts v) dir
     in rbind (status_check st ''Unexpected error while outputting module'') (\<lambda>_.
        rbind (GetPolicyAnalysisChecker pol) (\<lambda>program.
        rbind (check (setenv_ok P) ''Could not set `SOUFFLE_ALLOW_SIGNALS'') (\<lambda>_.
        rbind (deref program ''program->loadAll'') (\<lambda>program. run_program program dir))))))"

definition Souffle_IsModulePolicyCompliant ::
  "platform \<Rightarrow> (double \<Rightarrow> string) \<Rightarrow> storage_heap \<Rightarrow> module_id \<times> ir_module \<Rightarrow> policy \<Rightarrow> bool result" where
  "Souffle_IsModulePolicyCompliant P lg heap m pol =
     (case temporary_directory P of
        Inl _ \<Rightarrow> Inr False
      | Inr _ \<Rightarrow> IsModulePolicyCompliantHelper P lg heap m pol Map.empty)"

section \<open>The command line program\<close>

text \<open>A file is absent, unreadable or has contents.\<close>

type_synonym files = "string \<Rightarrow> string option option"

definition ReadFileContents :: "files \<Rightarrow> string \<Rightarrow> string status_or" where
  "ReadFileContents fs file_path = (case fs file_path of
     None \<Rightarrow> Inl ''File does not exist!''
   | Some None \<Rightarrow> Inl ''Unable to read file''
   | Some (Some contents) \<Rightarrow> Inr contents)"

record flags =
  FLAGS_ir :: "string option"
  FLAGS_sql_policy_rules :: "string option"
  FLAGS_epsilon_dp_parameter :: "64 word option"
  FLAGS_delta_dp_parameter :: "64 word option"
  FLAGS_proto :: "string option"
  FLAGS_policy_engine :: "string option"

datatype return_code = PASS | FAIL | ERROR

fun UnwrapExitCode :: "return_code \<Rightarrow> nat" where
  "UnwrapExitCode PASS = 0"
| "UnwrapExitCode FAIL = 1"
| "UnwrapExitCode ERROR = 2"

text \<open>What the two readers need of the code outside: the generated parser, \<^verbatim>\<open>SimpleAtod\<close>, the
  iteration order of a hash map, the reading of a JSON message, and the addresses that \<^verbatim>\<open>new\<close> returns.\<close>

record readers =
  antlr_parser :: "string \<Rightarrow> module_tree option"
  simple_atod :: "string \<Rightarrow> double option"
  temporary_order_of :: temporary_order
  JsonStringToMessage :: "string \<Rightarrow> ir_translation_unit status_or"
  module_address :: module_id
  first_address :: nat

definition GetIrGraphComponentsFromIrPath :: "files \<Rightarrow> readers \<Rightarrow> string \<Rightarrow> ir_module status_or result" where
  "GetIrGraphComponentsFromIrPath fs R ir_path =
     (case ReadFileContents fs ir_path of
        Inr ir_string \<Rightarrow> rbind (ParseProgram (antlr_parser R) (temporary_order_of R) (simple_atod R) (module_address R)
            (first_address R) ir_string) (\<lambda>res. Inr (Inr (parse_module res)))
      | Inl e \<Rightarrow> Inr (Inl e))"

definition GetIrGraphComponentsFromProtoPath :: "files \<Rightarrow> readers \<Rightarrow> string \<Rightarrow> ir_module status_or result" where
  "GetIrGraphComponentsFromProtoPath fs R proto_path =
     (case ReadFileContents fs proto_path of
        Inr proto_string \<Rightarrow> (case JsonStringToMessage R proto_string of
            Inl _ \<Rightarrow> Inr (Inl ''Json IR proto is corrupt'')
          | Inr root \<Rightarrow> rbind (ProtoToIR_Convert (first_address R) (module_address R) empty_context root) (\<lambda>((m, _), _). Inr (Inr m)))
      | Inl e \<Rightarrow> Inr (Inl e))"

text \<open>The policy that the flags ask for, or the exit code.\<close>

definition select_policy :: "souffle_checkers \<Rightarrow> files \<Rightarrow> flags \<Rightarrow> nat + policy" where
  "select_policy cks fs fl = (case FLAGS_policy_engine fl of
     Some engine \<Rightarrow> Inr (AuthLogicPolicy cks engine)
   | None \<Rightarrow> (case FLAGS_sql_policy_rules fl of
       Some path \<Rightarrow> (case ReadFileContents fs path of
           Inl _ \<Rightarrow> Inl (UnwrapExitCode ERROR)
         | Inr sql_policy_rules \<Rightarrow> Inr (CatchallPolicyRulePolicy cks sql_policy_rules))
     | None \<Rightarrow> (case (FLAGS_epsilon_dp_parameter fl, FLAGS_delta_dp_parameter fl) of
         (Some global_epsilon, Some global_delta) \<Rightarrow> Inr (DpParameterPolicy cks global_epsilon global_delta)
       | _ \<Rightarrow> Inl 2)))"

text \<open>The operations refer to the storages that the module names.\<close>

definition module_storages :: "ir_module \<Rightarrow> storage_heap" where
  "module_storages m = map_of (map snd (named_storage_map m))"

definition check_policy_compliance_main ::
  "platform \<Rightarrow> (double \<Rightarrow> string) \<Rightarrow> readers \<Rightarrow> souffle_checkers \<Rightarrow> files \<Rightarrow> flags \<Rightarrow> nat result" where
  "check_policy_compliance_main P lg R cks fs fl =
     (if (FLAGS_ir fl \<noteq> None) = (FLAGS_proto fl \<noteq> None) then Inr (UnwrapExitCode ERROR)
      else rbind (case FLAGS_ir fl of
          Some ir_path \<Rightarrow> GetIrGraphComponentsFromIrPath fs R ir_path
        | None \<Rightarrow> GetIrGraphComponentsFromProtoPath fs R (the (FLAGS_proto fl))) (\<lambda>components.
        case components of
          Inl _ \<Rightarrow> Inr (UnwrapExitCode ERROR)
        | Inr m \<Rightarrow> (case select_policy cks fs fl of
            Inl code \<Rightarrow> Inr code
          | Inr pol \<Rightarrow> rbind (Souffle_IsModulePolicyCompliant P lg (module_storages m) (module_address R, m) pol) (\<lambda>succeeded.
              Inr (UnwrapExitCode (if succeeded then PASS else FAIL))))))"

section \<open>The checker runs its program on the module's facts\<close>

text \<open>The fact files that the program finds.\<close>

definition fact_files :: "(double \<Rightarrow> string) \<Rightarrow> input_relation_fact list \<Rightarrow> policy \<Rightarrow> facts_directory" where
  "fact_files lg facts pol =
     (case (GetPolicyFactName pol, GetPolicyString pol) of
        (Some name, Some t) \<Rightarrow> [''isDPParameter.facts'' \<mapsto> [], name @ ''.facts'' \<mapsto> t]
      | _ \<Rightarrow> [''isDPParameter.facts'' \<mapsto> []])(''isOperation.facts'' \<mapsto> facts_file_text lg facts)"

definition platform_works :: "platform \<Rightarrow> bool" where
  "platform_works P \<longleftrightarrow> can_create P = (\<lambda>_. True) \<and> setenv_ok P \<and> temporary_directory P = Inr ()"

definition policy_ok :: "policy \<Rightarrow> bool" where
  "policy_ok pol \<longleftrightarrow> (case GetPolicyFactName pol of None \<Rightarrow> True
     | Some name \<Rightarrow> name \<noteq> ''isOperation'' \<and> GetPolicyString pol \<noteq> None)"

lemma select_policy_ok: "select_policy cks fs fl = Inr pol \<Longrightarrow> policy_ok pol"
  by (auto simp: select_policy_def policy_ok_def AuthLogicPolicy_def CatchallPolicyRulePolicy_def DpParameterPolicy_def
      split: option.splits sum.splits)

text \<open>The names that the lowering visitor of a module ends with.\<close>

definition module_names :: "storage_heap \<Rightarrow> module_id \<times> ir_module \<Rightarrow> ssa_names" where
  "module_names heap m = (case lower_module heap new_ssa_names m of Inr v \<Rightarrow> dl_ssa_names v | Inl _ \<Rightarrow> new_ssa_names)"

lemma checker_runs_program_names:
  assumes P: "platform_works P" and pol: "policy_ok pol"
    and m: "\<forall>oper \<in> set (module_operations (snd m)). known_storages heap (inputs (snd oper))"
  defines "nms \<equiv> module_names heap m"
  shows "generated_names nms" and "named_values (module_operations (snd m)) \<subseteq> named nms"
    and "Souffle_IsModulePolicyCompliant P lg heap m pol =
      rbind (GetPolicyAnalysisChecker pol) (\<lambda>program. rbind (deref program ''program->loadAll'') (\<lambda>program.
        run_program program (fact_files lg (map (operation_fact heap nms) (module_operations (snd m))) pol)))"
proof -
  from lowered_facts_of [OF m] obtain v where v: "lower_module heap new_ssa_names m = Inr v"
    and gen: "generated_names (dl_ssa_names v)" "named_values (module_operations (snd m)) \<subseteq> named (dl_ssa_names v)"
    and facts: "is_operation_facts (datalog_facts v) = map (operation_fact heap (dl_ssa_names v)) (module_operations (snd m))" by blast
  have nms_eq: "nms = dl_ssa_names v" by (simp add: nms_def module_names_def v)
  with nms_eq gen show "generated_names nms" "named_values (module_operations (snd m)) \<subseteq> named nms" by simp_all
  from facts have facts: "is_operation_facts (datalog_facts v) = map (operation_fact heap nms) (module_operations (snd m))"
    by (simp only: nms_eq)
  let ?F = "map (operation_fact heap nms) (module_operations (snd m))"
  have "IsModulePolicyCompliantHelper P lg heap m pol Map.empty =
      rbind (GetPolicyAnalysisChecker pol) (\<lambda>program. rbind (deref program ''program->loadAll'') (\<lambda>program.
        run_program program (fact_files lg ?F pol)))"
  proof (cases "GetPolicyFactName pol")
    case None
    with P v facts show ?thesis
      by (simp add: IsModulePolicyCompliantHelper_def DumpFactsToDirectory_def WriteFactsStringToFactsFile_def
          platform_works_def status_check_def fact_files_def fun_upd_twist Let_def)
  next
    case (Some name)
    then obtain t where t: "GetPolicyString pol = Some t" and name: "name \<noteq> ''isOperation''"
      using pol by (auto simp: policy_ok_def)
    have "name @ ''.facts'' \<noteq> ''isOperation.facts''"
      using name append_same_eq [of name "''.facts''" "''isOperation''"] by simp
    with P v facts t Some show ?thesis
      by (cases "name = ''isDPParameter''")
        (simp_all add: IsModulePolicyCompliantHelper_def DumpFactsToDirectory_def WriteFactsStringToFactsFile_def
          platform_works_def status_check_def fact_files_def fun_upd_twist Let_def)
  qed
  with P show "Souffle_IsModulePolicyCompliant P lg heap m pol =
      rbind (GetPolicyAnalysisChecker pol) (\<lambda>program. rbind (deref program ''program->loadAll'') (\<lambda>program.
        run_program program (fact_files lg (map (operation_fact heap nms) (module_operations (snd m))) pol)))"
    by (simp add: Souffle_IsModulePolicyCompliant_def platform_works_def)
qed

lemma checker_runs_program:
  assumes "platform_works P" and "policy_ok pol"
    and "\<forall>oper \<in> set (module_operations (snd m)). known_storages heap (inputs (snd oper))"
  shows "\<exists>names. inj_on (value_name names) (named_values (module_operations (snd m))) \<and>
    Souffle_IsModulePolicyCompliant P lg heap m pol =
      rbind (GetPolicyAnalysisChecker pol) (\<lambda>program. rbind (deref program ''program->loadAll'') (\<lambda>program.
        run_program program (fact_files lg (map (operation_fact heap names) (module_operations (snd m))) pol)))"
  using checker_runs_program_names [OF assms] inj_on_value_name by blast

section \<open>The program on a text\<close>

definition parsed_ir :: "readers \<Rightarrow> module_tree \<Rightarrow> ir_module" where
  "parsed_ir R t = \<lparr>blocks = parsed_blocks (simple_atod R) (module_address R) (first_address R) (tree_blocks t), named_storage_map = []\<rparr>"

lemma parsed_operation_inputs:
  assumes "operands_ok ts" and "t \<in> set ts" and "v \<in> set (tree_arguments t)"
  shows "operand (block_temporaries a ts) v = Any \<or> (\<exists>j i. operand (block_temporaries a ts) v = OperationResult j i)"
proof (cases v)
  case (NamedTempValue n)
  with assms have "n \<in> set (map fst (block_temporaries a ts))" by (auto simp: keys_block_temporaries operands_ok_def)
  then obtain w where w: "map_of (block_temporaries a ts) n = Some w" by (metis map_of_eq_None_iff list.set_map option.exhaust)
  then have "in_range a (a + 1 + length ts) w"
    using fresh_block_temporaries [of a ts] map_of_SomeD [OF w] by (auto simp: fresh_values_def)
  with w NamedTempValue show ?thesis by (auto simp: operand_def in_range_def)
qed (simp add: operand_def)

lemma at_addresses_blocks: "(a, b) \<in> set (at_addresses k bs) \<Longrightarrow> b \<in> set bs"
  by (induction k bs rule: at_addresses.induct) auto

lemma enumerate_members: "(j, x) \<in> set (enumerate k xs) \<Longrightarrow> x \<in> set xs"
  by (metis image_eqI list.set_map map_snd_enumerate snd_conv)

lemma parsed_operation_operands:
  "inputs (snd (parsed_operation atod a temps (j, u))) = map (operand temps) (tree_arguments u)"
  by (simp add: parsed_operation_def make_operation_def)

lemma parsed_ir_storages:
  assumes "module_tree_ok (simple_atod R) t" and "oper \<in> set (module_operations (parsed_ir R t))"
  shows "known_storages heap (inputs (snd oper))"
proof -
  from assms(2) obtain y where y: "y \<in> set (blocks (parsed_ir R t))" "oper \<in> set (operations (snd y))"
    unfolding module_operations_def by auto
  then obtain a b where b: "(a, b) \<in> set (at_addresses (first_address R) (tree_blocks t))"
    and "y = parsed_block (simple_atod R) (module_address R) a b"
    unfolding parsed_ir_def parsed_blocks_def by auto
  with y have oper: "oper \<in> set (operations (snd (parsed_block (simple_atod R) (module_address R) a b)))" by simp
  have "b \<in> set (tree_blocks t)"
    using at_addresses_blocks [OF b] .
  with assms(1) have operands: "operands_ok (tree_operations b)"
    by (auto simp: module_tree_ok_def block_tree_ok_def list_all_iff)
  have "operations (snd (parsed_block (simple_atod R) (module_address R) a b)) =
      map (parsed_operation (simple_atod R) a (block_temporaries a (tree_operations b))) (enumerate (a + 1) (tree_operations b))"
    by (simp add: parsed_block_def del: One_nat_def)
  with oper obtain ju where ju: "ju \<in> set (enumerate (a + 1) (tree_operations b))"
    "oper = parsed_operation (simple_atod R) a (block_temporaries a (tree_operations b)) ju"
    by (metis (no_types, lifting) imageE list.set_map)
  obtain j u where "ju = (j, u)" by (cases ju)
  with ju have u: "(j, u) \<in> set (enumerate (a + 1) (tree_operations b))" by (simp only:)
  have eq: "inputs (snd oper) = map (operand (block_temporaries a (tree_operations b))) (tree_arguments u)"
    unfolding ju(2) \<open>ju = (j, u)\<close> by (rule parsed_operation_operands)
  from u have mem: "u \<in> set (tree_operations b)" by (rule enumerate_members)
  have "case operand (block_temporaries a (tree_operations b)) v of StoredValue sid \<Rightarrow> heap sid \<noteq> None | _ \<Rightarrow> True"
    if "v \<in> set (tree_arguments u)" for v
    using parsed_operation_inputs [OF operands mem that, of a] by (elim disjE exE) simp_all
  then show ?thesis unfolding known_storages_def eq by simp
qed

lemma exit_codes: "UnwrapExitCode (if b then PASS else FAIL) = (if b then 0 else 1)"
  by simp

lemma compliance_cases:
  assumes "platform_works P" and "is_order (temporary_order_of R)"
    and "FLAGS_ir fl = Some path" and "FLAGS_proto fl = None" and "fs path = Some (Some contents)"
  shows "case antlr_parser R contents of
      None \<Rightarrow> \<exists>e. check_policy_compliance_main P lg R cks fs fl = Inl e
    | Some t \<Rightarrow>
        if \<not> module_tree_ok (simple_atod R) t then \<exists>e. check_policy_compliance_main P lg R cks fs fl = Inl e
        else case select_policy cks fs fl of
          Inl code \<Rightarrow> code = 2 \<and> check_policy_compliance_main P lg R cks fs fl = Inr 2
        | Inr pol \<Rightarrow> \<exists>names. inj_on (value_name names) (named_values (module_operations (parsed_ir R t))) \<and>
            check_policy_compliance_main P lg R cks fs fl =
              rbind (GetPolicyAnalysisChecker pol) (\<lambda>program. rbind (deref program ''program->loadAll'') (\<lambda>program.
              rbind (run_program program (fact_files lg (map (operation_fact Map.empty names) (module_operations (parsed_ir R t))) pol)) (\<lambda>compliant.
              Inr (if compliant then 0 else 1))))"
proof (cases "antlr_parser R contents")
  case None
  with assms show ?thesis
    by (simp add: check_policy_compliance_main_def GetIrGraphComponentsFromIrPath_def ReadFileContents_def ParseProgram_def)
next
  case (Some t)
  let ?parse = "visitModule (temporary_order_of R) (simple_atod R) (module_address R) t (new_ir_visitor (first_address R))"
  have parsed: "case ?parse of Inl e \<Rightarrow> \<not> module_tree_ok (simple_atod R) t
      | Inr st \<Rightarrow> module_tree_ok (simple_atod R) t \<and> parse_module st = parsed_ir R t"
    using visitModule_eq [OF assms(2), where atod = "simple_atod R" and this = "module_address R" and t = t and a = "first_address R"]
    by (auto simp: visited_def parsed_ir_def blocks_ok_def module_tree_ok_def split: sum.splits)
  have main: "check_policy_compliance_main P lg R cks fs fl = rbind ?parse (\<lambda>st. case select_policy cks fs fl of
      Inl code \<Rightarrow> Inr code
    | Inr pol \<Rightarrow> rbind (Souffle_IsModulePolicyCompliant P lg (module_storages (parse_module st)) (module_address R, parse_module st) pol) (\<lambda>succeeded.
        Inr (UnwrapExitCode (if succeeded then PASS else FAIL))))"
    using assms(3-5) Some
    by (cases ?parse) (simp_all add: check_policy_compliance_main_def GetIrGraphComponentsFromIrPath_def ReadFileContents_def
        ParseProgram_def visitIrProgram_def)
  show ?thesis
  proof (cases ?parse)
    case (Inl e)
    with parsed main Some show ?thesis by simp
  next
    case (Inr st)
    with parsed have ok: "module_tree_ok (simple_atod R) t" "parse_module st = parsed_ir R t" by simp_all
    show ?thesis
    proof (cases "select_policy cks fs fl")
      case (Inl code)
      then have "code = 2"
        by (auto simp: select_policy_def split: option.splits sum.splits prod.splits)
      with Inl ok main \<open>?parse = Inr st\<close> Some show ?thesis by simp
    next
      case (Inr pol)
      have "module_storages (parsed_ir R t) = Map.empty" by (simp add: module_storages_def parsed_ir_def)
      moreover obtain names where
        "inj_on (value_name names) (named_values (module_operations (parsed_ir R t)))"
        "Souffle_IsModulePolicyCompliant P lg Map.empty (module_address R, parsed_ir R t) pol =
           rbind (GetPolicyAnalysisChecker pol) (\<lambda>program. rbind (deref program ''program->loadAll'') (\<lambda>program.
           run_program program (fact_files lg (map (operation_fact Map.empty names) (module_operations (parsed_ir R t))) pol)))"
        using checker_runs_program [OF assms(1) select_policy_ok [OF Inr], of "(module_address R, parsed_ir R t)" Map.empty lg]
          parsed_ir_storages [OF ok(1)] by auto
      ultimately show ?thesis
        unfolding main using Inr ok \<open>?parse = Inr st\<close> Some by (simp add: rbind_assoc exit_codes exI [of _ names])
    qed
  qed
qed

section \<open>Properties\<close>

text \<open>C11: On a working platform, the program called with \<^verbatim>\<open>--ir\<close> and a readable file aborts
  when the text does not parse. Otherwise it reports exit code 2 when the flags give no
  policy, and else runs the compiled program of the policy on a directory that holds the facts of
  the operations of the text, under a naming that keeps different results apart, the facts of
  the policy and an empty \<^verbatim>\<open>isDPParameter\<close> unless the policy gives it: the exit code is 0 exactly when
  the relations \<^verbatim>\<open>hasError\<close> and \<^verbatim>\<open>violatesPolicy\<close> are empty and 1 otherwise.\<close>

theorem compliance_of_text:
  assumes "platform_works P" and "is_order (temporary_order_of R)"
    and "FLAGS_ir fl = Some path" and "FLAGS_proto fl = None" and "fs path = Some (Some contents)"
  shows "case antlr_parser R contents of
      None \<Rightarrow> \<exists>e. check_policy_compliance_main P lg R cks fs fl = Inl e
    | Some t \<Rightarrow>
        if \<not> module_tree_ok (simple_atod R) t then \<exists>e. check_policy_compliance_main P lg R cks fs fl = Inl e
        else case select_policy cks fs fl of
          Inl code \<Rightarrow> code = 2 \<and> check_policy_compliance_main P lg R cks fs fl = Inr 2
        | Inr pol \<Rightarrow> \<exists>names. inj_on (value_name names) (named_values (module_operations (parsed_ir R t))) \<and>
            check_policy_compliance_main P lg R cks fs fl =
              rbind (GetPolicyAnalysisChecker pol) (\<lambda>program. rbind (deref program ''program->loadAll'') (\<lambda>program.
              rbind (run_program program (fact_files lg (map (operation_fact Map.empty names) (module_operations (parsed_ir R t))) pol)) (\<lambda>compliant.
              Inr (if compliant then 0 else 1))))"
  using assms by (rule compliance_cases)

text \<open>Two operations, a policy given by parameters, and a program that reports a violation exactly when
  the parameters are missing.\<close>

definition sample_platform :: platform where
  "sample_platform = \<lparr>can_create = (\<lambda>_. True), setenv_ok = True, temporary_directory = Inr ()\<rparr>"

definition sample_readers :: readers where
  "sample_readers = \<lparr>antlr_parser = (\<lambda>_. Some cyclic_tree), simple_atod = (\<lambda>_. None), temporary_order_of = rev,
     JsonStringToMessage = (\<lambda>_. Inl ''corrupt''), module_address = 0, first_address = 10\<rparr>"

definition sample_checkers :: souffle_checkers where
  "sample_checkers = \<lparr>dp_policy_verifier = Some (\<lambda>dir r.
       if r = ''violatesPolicy'' then Some (if dir ''isDPParameter.facts'' = Some [] then [[]] else []) else Some []),
     datalog_policy_verifier = None, sql_policy_verifier = None, program_factory = (\<lambda>_. None)\<rparr>"

definition sample_flags :: flags where
  "sample_flags = \<lparr>FLAGS_ir = Some ''a.ir'', FLAGS_sql_policy_rules = None, FLAGS_epsilon_dp_parameter = Some 1,
     FLAGS_delta_dp_parameter = Some 0, FLAGS_proto = None, FLAGS_policy_engine = None\<rparr>"

lemma sample_platform_works: "platform_works sample_platform" "is_order (temporary_order_of sample_readers)"
  by (simp_all add: platform_works_def sample_platform_def is_order_def sample_readers_def)

theorem compliance_of_text_witness:
  "check_policy_compliance_main sample_platform (\<lambda>_. []) sample_readers sample_checkers (\<lambda>_. Some (Some [])) sample_flags = Inr 0"
proof -
  have pol: "select_policy sample_checkers (\<lambda>_. Some (Some [])) sample_flags = Inr (DpParameterPolicy sample_checkers 1 0)"
    by (simp add: select_policy_def sample_flags_def)
  have run: "run_program (the (dp_policy_verifier sample_checkers)) (fact_files (\<lambda>_. []) facts (DpParameterPolicy sample_checkers 1 0)) = Inr True" for facts
    by (simp add: run_program_def sample_checkers_def fact_files_def DpParameterPolicy_def)
  from compliance_of_text [OF sample_platform_works, where fl = sample_flags and path = "''a.ir''"
      and fs = "\<lambda>_. Some (Some [])" and contents = "[]" and lg = "\<lambda>_. []" and cks = sample_checkers] cyclic_tree_ok pol run
  show ?thesis
    by (auto simp: sample_readers_def sample_flags_def DpParameterPolicy_def die_if_null_def sample_checkers_def)
qed

text \<open>An unknown name in \<^verbatim>\<open>--policy_engine\<close> makes the program use a null pointer: whatever the
  other flags are, when the text parses, no check of the factory's result stands between it and
  \<^verbatim>\<open>program->loadAll\<close>.\<close>

theorem unknown_policy_engine:
  assumes "platform_works P" and "is_order (temporary_order_of R)"
    and "FLAGS_ir fl = Some path" and "FLAGS_proto fl = None" and "fs path = Some (Some contents)"
    and "antlr_parser R contents = Some t" and "module_tree_ok (simple_atod R) t"
    and "FLAGS_policy_engine fl = Some engine" and "program_factory cks engine = None"
  shows "check_policy_compliance_main P lg R cks fs fl = Inl (Undefined_behaviour ''program->loadAll'')"
  using compliance_cases [where fs = fs and path = path and contents = contents, OF assms(1-5), of lg cks] assms(6-9)
  by (auto simp: select_policy_def AuthLogicPolicy_def)

theorem unknown_policy_engine_witness:
  "check_policy_compliance_main sample_platform (\<lambda>_. []) sample_readers sample_checkers (\<lambda>_. Some (Some []))
     (sample_flags\<lparr>FLAGS_policy_engine := Some ''typo''\<rparr>) = Inl (Undefined_behaviour ''program->loadAll'')"
  by (rule unknown_policy_engine [OF sample_platform_works, where path = "''a.ir''" and contents = "[]" and t = cyclic_tree])
    (simp_all add: sample_flags_def sample_readers_def sample_checkers_def cyclic_tree_ok)

end
