(* ===== verification/Sql_Driver.thy ===== *)
theory Sql_Driver imports
  Sql_Decode
  Policy_Engine
begin

text \<open>
  The entry point of the SQL frontend, \<^verbatim>\<open>src/frontends/sql/driver.cc\<close>: it decodes an expression
  arena in a new context and has the Souffle policy checker judge the module.
\<close>

section \<open>The driver\<close>

text \<open>The objects behind the addresses in stored values are those that the context owns.\<close>

definition context_storages :: "ir_context \<Rightarrow> storage_heap" where
  "context_storages c = map_of (map snd (ctx_storages c))"

definition verify ::
  "platform \<Rightarrow> (double \<Rightarrow> string) \<Rightarrow> precondition_order \<Rightarrow> module_id \<Rightarrow> block_id \<Rightarrow> nat
     \<Rightarrow> id_expression_pair list \<Rightarrow> policy \<Rightarrow> bool result" where
  "verify P lg ord this block_addr addr arena pol =
     rbind (new_decoder_context empty_context block_addr addr) (\<lambda>dc.
     rbind (DecodeExpressionArena ord arena dc) (\<lambda>(_, dc).
     rbind (BuildTopLevelBlock this dc) (\<lambda>dc.
     Souffle_IsModulePolicyCompliant P lg (context_storages (dc_ir_context dc)) (this, global_module dc) pol)))"

section \<open>The storages of a decoded module\<close>

definition stored_in :: "ir_context \<Rightarrow> ir_value \<Rightarrow> bool" where
  "stored_in c v \<longleftrightarrow> (case v of StoredValue sid \<Rightarrow> context_storages c sid \<noteq> None | _ \<Rightarrow> True)"

definition dc_stored :: "decoder_context \<Rightarrow> bool" where
  "dc_stored dc \<longleftrightarrow> (\<forall>(i, v) \<in> set (id_to_value dc). stored_in (dc_ir_context dc) v) \<and>
     (\<forall>oper \<in> set (dc_operations dc). \<forall>v \<in> set (inputs (snd oper)). stored_in (dc_ir_context dc) v)"

lemma known_storages_stored_in:
  "known_storages (context_storages c) vs \<longleftrightarrow> (\<forall>v \<in> set vs. stored_in c v)"
  by (simp add: known_storages_def stored_in_def)

lemma context_storages_dom: "context_storages c sid \<noteq> None \<longleftrightarrow> sid \<in> fst ` snd ` set (ctx_storages c)"
  by (simp add: context_storages_def map_of_eq_None_iff)

lemma GetValue_stored: "dc_stored dc \<Longrightarrow> GetValue i dc = Inr v \<Longrightarrow> stored_in (dc_ir_context dc) v"
  by (auto simp: GetValue_def dc_stored_def dest!: map_of_SomeD)

text \<open>A step of the decoder that gives a value.\<close>

definition stored_step :: "decoder_context \<Rightarrow> ir_value \<Rightarrow> decoder_context \<Rightarrow> bool" where
  "stored_step dc v dc' \<longleftrightarrow> dc_stored dc' \<and> stored_in (dc_ir_context dc') v"

lemma add_top_level_operation_stored:
  assumes "add_top_level_operation create dc = Inr (r, dc')" and "dc_stored dc"
    and "\<And>blk oper v. create blk (dc_ir_context dc) = Inr oper \<Longrightarrow> v \<in> set (inputs oper) \<Longrightarrow> stored_in (dc_ir_context dc) v"
  shows "stored_step dc (WrapOperationResultValue r) dc'"
proof -
  from assms(1) obtain blk where "create (Some blk) (dc_ir_context dc) = Inr (snd r)"
    and "dc_ir_context dc' = dc_ir_context dc" "id_to_value dc' = id_to_value dc"
    and "dc_operations dc' = dc_operations dc @ [r]"
    by (auto simp: add_top_level_operation_def Builder_AddOperation_T_def unbuilt_def dc_operations_def
        put_block_def split: prod.splits)
  moreover have "stored_in c (WrapOperationResultValue r)" for c by (simp add: stored_in_def WrapOperationResultValue_def)
  ultimately show ?thesis using assms(2) assms(3) [of "Some blk" "snd r"] by (auto simp: stored_step_def dc_stored_def)
qed

lemma GetOrCreateStorage_stored:
  assumes "GetOrCreateStorage name dc = Inr (s, dc')" and "dc_stored dc"
  shows "stored_step dc (StoredValue (fst s)) dc'"
proof (cases "IsRegisteredStorage name (dc_ir_context dc)")
  case True
  with assms(1) have "dc' = dc" "(name, s) \<in> set (ctx_storages (dc_ir_context dc))"
    by (auto simp: GetOrCreateStorage_def GetStorage_def GetNode_def dest: map_of_SomeD)
  then have "fst s \<in> fst ` snd ` set (ctx_storages (dc_ir_context dc))" by force
  with assms(2) \<open>dc' = dc\<close> show ?thesis
    using context_storages_dom [of "dc_ir_context dc" "fst s"] by (simp add: stored_step_def stored_in_def)
next
  case False
  with assms(1) obtain c' where c': "RegisterStorage s (dc_ir_context dc) = Inr c'"
    "dc' = dc\<lparr>dc_ir_context := c', next_address := next_address dc + 1\<rparr>"
    by (auto simp: GetOrCreateStorage_def Let_def)
  have "ctx_storages c' = ctx_storages (dc_ir_context dc) @ [(storage_name (snd s), s)]"
    using c'(1) by (auto simp: RegisterStorage_def RegisterNode_def hm_insert_eq split: if_splits)
  then have "context_storages c' (fst s) \<noteq> None"
    "context_storages (dc_ir_context dc) sid \<noteq> None \<Longrightarrow> context_storages c' sid \<noteq> None" for sid
    unfolding context_storages_dom by auto
  then have "stored_in (dc_ir_context dc) v \<Longrightarrow> stored_in c' v" "stored_in c' (StoredValue (fst s))" for v
    by (auto simp: stored_in_def split: ir_value.splits)
  moreover have "dc_operations dc' = dc_operations dc" by (simp add: c'(2) dc_operations_def)
  ultimately show ?thesis using assms(2) c'(2) by (auto simp: stored_step_def dc_stored_def)
qed

lemma DecodeExpression_stored:
  assumes "DecodeExpression ord e dc = Inr (v, dc')" and "dc_stored dc"
  shows "stored_step dc v dc'"
proof (cases e)
  case EXPR_VARIANT_NOT_SET
  with assms show ?thesis by simp
next
  case (SourceTableColumn p)
  with assms GetOrCreateStorage_stored show ?thesis by (auto simp: DecodeSourceTableColumn_def)
next
  case (Literal l)
  with assms(1) obtain r where r: "add_top_level_operation (\<lambda>blk c. LiteralOp_Create blk c l) dc = Inr (r, dc')"
    "v = WrapOperationResultValue r" by (auto simp: DecodeLiteral_def MakeLiteralOperation_def)
  show ?thesis
    unfolding r(2) by (rule add_top_level_operation_stored [OF r(1) assms(2)])
      (auto simp: LiteralOp_Create_def make_operation_def)
next
  case (MergeOperation xs cs)
  with assms(1) obtain ds es r where ds: "map_result (\<lambda>i. GetValue i dc) xs = Inr ds"
    and es: "map_result (\<lambda>i. GetValue i dc) cs = Inr es"
    and r: "add_top_level_operation (\<lambda>blk c. MergeOp_Create blk c ds es) dc = Inr (r, dc')"
    "v = WrapOperationResultValue r" by (auto simp: DecodeMergeOperation_def MakeMergeOperation_def)
  have "stored_in (dc_ir_context dc) w" if "w \<in> set (ds @ es)" for w
    using that map_result_set [OF ds] map_result_set [OF es] GetValue_stored [OF assms(2)] by fastforce
  then show ?thesis
    unfolding r(2) by (intro add_top_level_operation_stored [OF r(1) assms(2)])
      (auto simp: MergeOp_Create_eq make_operation_def)
next
  case (TagTransform n rule ps)
  with assms(1) obtain vs w r where vs: "map_result (get_pair dc) (ord (to_flat_hash_map ps)) = Inr vs"
    and w: "GetValue n dc = Inr w"
    and r: "add_top_level_operation (\<lambda>blk c. TagTransformOp_Create blk c rule w vs) dc = Inr (r, dc')"
    "v = WrapOperationResultValue r" by (auto simp: DecodeTagTransform_def MakeTagTransformOperation_def)
  have "stored_in (dc_ir_context dc) x" if "x \<in> set (w # map snd vs)" for x
  proof (cases "x = w")
    case True
    with w GetValue_stored [OF assms(2)] show ?thesis by blast
  next
    case False
    with that obtain y where "y \<in> set vs" "x = snd y" by auto
    with map_result_set [OF vs] GetValue_stored [OF assms(2)] show ?thesis by fastforce
  qed
  then show ?thesis
    unfolding r(2) by (intro add_top_level_operation_stored [OF r(1) assms(2)])
      (auto simp: TagTransformOp_Create_eq tag_transform_operation_def make_operation_def)
qed

lemma DecodeExpressionArena_stored:
  assumes "DecodeExpressionArena ord pairs dc = Inr (v, dc')" and "dc_stored dc"
  shows "dc_stored dc'"
proof -
  let ?P = "\<lambda>(tv, dc). dc_stored dc \<and> (case tv of None \<Rightarrow> True | Some v \<Rightarrow> stored_in (dc_ir_context dc) v)"
  from assms(1) obtain w dc1 r where run: "fold_result (decode_pair ord) pairs (None, dc) = Inr (Some w, dc1)"
    and out: "MakeSqlOutputOperation w dc1 = Inr (r, dc')" by (auto simp: DecodeExpressionArena_def)
  have "?P (Some w, dc1)"
  proof (rule fold_result_invariant [OF run, where P = ?P])
    show "?P (None, dc)" using assms(2) by simp
    fix p st st' assume "?P st" "decode_pair ord p st = Inr st'"
    then obtain x dc2 dc3 where x: "DecodeExpression ord (snd p) (snd st) = Inr (x, dc2)" "dc_stored (snd st)"
      "RegisterValue (fst p) x dc2 = Inr dc3" "st' = (Some x, dc3)" by (auto simp: decode_pair_def split: prod.splits)
    from x(3) have dc3: "dc3 = dc2\<lparr>id_to_value := id_to_value dc2 @ [(fst p, x)]\<rparr>"
      by (auto simp: RegisterValue_def hm_insert_eq split: if_splits)
    then have "dc_operations dc3 = dc_operations dc2" by (simp add: dc_operations_def)
    with DecodeExpression_stored [OF x(1,2)] dc3
    have "dc_stored dc3 \<and> stored_in (dc_ir_context dc3) x" by (auto simp: stored_step_def dc_stored_def)
    with x(4) show "?P st'" by simp
  qed
  then have "dc_stored dc1" "stored_in (dc_ir_context dc1) w" by simp_all
  then have "stored_step dc1 (WrapOperationResultValue r) dc'"
    by (intro add_top_level_operation_stored [OF out [unfolded MakeSqlOutputOperation_def]])
      (auto simp: SqlOutputOp_Create_def make_operation_def)
  then show ?thesis by (simp add: stored_step_def)
qed

lemma new_decoder_context_stored:
  assumes "new_decoder_context c block_addr addr = Inr dc"
  shows "dc_stored dc"
  using assms by (auto simp: new_decoder_context_def dc_stored_def dc_operations_def new_builder_def empty_block_def)

lemma BuildTopLevelBlock_context: "BuildTopLevelBlock this dc = Inr dc' \<Longrightarrow> dc_ir_context dc' = dc_ir_context dc"
  by (auto simp: BuildTopLevelBlock_def split: prod.splits)

section \<open>Properties\<close>

text \<open>C16: On a working platform and with a policy that has its facts, the SQL driver aborts when
  the arena is not well formed. Otherwise the arena decodes to a module in definition order, and the driver
  answers exactly when the policy has a compiled program and that program holds the relations of the
  errors and of the violations after it ran on a directory with one fact for every operation of the
  module, in order, under one naming that keeps different values apart, and the facts of the policy.
  The answer is that both relations are empty; without the program or one of the relations the driver aborts.\<close>

theorem verify_decides:
  assumes "platform_works P" and "policy_ok pol" and "is_order ord"
  shows "if arena_ok arena
    then \<exists>dc v dc1 dc2 names. new_decoder_context empty_context block_addr addr = Inr dc \<and>
      DecodeExpressionArena ord arena dc = Inr (v, dc1) \<and> BuildTopLevelBlock this dc1 = Inr dc2 \<and>
      ssa_ordered (module_operations (global_module dc2)) \<and>
      inj_on (value_name names) (named_values (module_operations (global_module dc2))) \<and>
      (\<forall>compliant. verify P lg ord this block_addr addr arena pol = Inr compliant \<longleftrightarrow>
        (\<exists>program relations errors violations. GetPolicyAnalysisChecker pol = Inr (Some program) \<and>
          relations = program (fact_files lg (map (operation_fact (context_storages (dc_ir_context dc2)) names)
            (module_operations (global_module dc2))) pol) \<and>
          relations ''hasError'' = Some errors \<and> relations ''violatesPolicy'' = Some violations \<and>
          (compliant \<longleftrightarrow> errors = [] \<and> violations = [])))
    else \<exists>e. verify P lg ord this block_addr addr arena pol = Inl e"
proof (cases "arena_ok arena")
  case False
  from new_decoder_context_ok [OF empty_context_fresh] obtain dc where
    dc: "new_decoder_context empty_context block_addr addr = Inr dc" by (auto simp: is_ok_iff)
  note start = new_decoder_context_inv [OF dc]
  from DecodeExpressionArena_eq [OF start(1,2) assms(3), of arena] False obtain e where
    "DecodeExpressionArena ord arena dc = Inl e" by (cases "DecodeExpressionArena ord arena dc") auto
  with dc False show ?thesis by (simp add: verify_def)
next
  case True
  from arena_decodes [OF True assms(3), of block_addr addr this] obtain dc v dc1 dc2 where
    run: "new_decoder_context empty_context block_addr addr = Inr dc" "DecodeExpressionArena ord arena dc = Inr (v, dc1)"
      "dc_inv dc1" "BuildTopLevelBlock this dc1 = Inr dc2" by blast
  let ?m = "(this, global_module dc2)" and ?heap = "context_storages (dc_ir_context dc2)"
  from BuildTopLevelBlock_operations [OF run(3), of this] run(4)
  have opers: "module_operations (global_module dc2) = dc_operations dc1" by auto
  have "dc_stored dc1" by (rule DecodeExpressionArena_stored [OF run(2) new_decoder_context_stored [OF run(1)]])
  then have "\<forall>oper \<in> set (module_operations (snd ?m)). known_storages ?heap (inputs (snd oper))"
    using opers BuildTopLevelBlock_context [OF run(4)] by (simp add: known_storages_stored_in dc_stored_def)
  from checker_runs_program [OF assms(1,2) this, of lg] obtain names where
    names: "inj_on (value_name names) (named_values (module_operations (global_module dc2)))"
    and "Souffle_IsModulePolicyCompliant P lg ?heap ?m pol =
      rbind (GetPolicyAnalysisChecker pol) (\<lambda>program. rbind (deref program ''program->loadAll'') (\<lambda>program.
        run_program program (fact_files lg (map (operation_fact ?heap names) (module_operations (global_module dc2))) pol)))"
    by auto
  with run(1,2,4) have answer: "verify P lg ord this block_addr addr arena pol =
      rbind (GetPolicyAnalysisChecker pol) (\<lambda>program. rbind (deref program ''program->loadAll'') (\<lambda>program.
        run_program program (fact_files lg (map (operation_fact ?heap names) (module_operations (global_module dc2))) pol)))"
    by (simp add: verify_def)
  have run_iff: "rbind (GetPolicyAnalysisChecker pol) (\<lambda>program. rbind (deref program ''program->loadAll'') (\<lambda>program.
      run_program program dir)) = Inr compliant \<longleftrightarrow>
    (\<exists>program relations errors violations. GetPolicyAnalysisChecker pol = Inr (Some program) \<and> relations = program dir \<and>
       relations ''hasError'' = Some errors \<and> relations ''violatesPolicy'' = Some violations \<and>
       (compliant \<longleftrightarrow> errors = [] \<and> violations = []))" for dir compliant
    by (auto simp: run_program_def Let_def)
  have "ssa_ordered (module_operations (global_module dc2))"
    using run(3) opers by (simp add: dc_inv_def block_ready_def)
  with names run(1,2,4) show ?thesis
    unfolding answer run_iff if_P [OF True] by (intro exI conjI) (assumption | rule allI refl)+
qed

text \<open>The driver on an arena with a column, a literal, a merge and a tag transform, and on the empty
  arena, with the policy of a privacy budget.\<close>

theorem verify_decides_witness:
  "verify sample_platform (\<lambda>_. []) rev 0 0 1 sample_arena (DpParameterPolicy sample_checkers 1 0) = Inr True \<and>
   (\<exists>e. verify sample_platform (\<lambda>_. []) rev 0 0 1 [] (DpParameterPolicy sample_checkers 1 0) = Inl e)"
proof -
  let ?pol = "DpParameterPolicy sample_checkers 1 0"
  obtain program where program: "GetPolicyAnalysisChecker ?pol = Inr (Some program)"
    and relations: "\<And>facts. program (fact_files (\<lambda>_. []) facts ?pol) ''hasError'' = Some []"
      "\<And>facts. program (fact_files (\<lambda>_. []) facts ?pol) ''violatesPolicy'' = Some []"
    by (simp add: sample_checkers_def fact_files_def DpParameterPolicy_def die_if_null_def)
  have pol: "policy_ok ?pol" by (simp add: policy_ok_def DpParameterPolicy_def)
  note verify = verify_decides [OF sample_platform_works(1) pol is_order_id(3), of _ 0 1 0 "\<lambda>_. []"]
  from verify [of sample_arena] sample_arena_ok obtain facts where
    "\<forall>compliant. verify sample_platform (\<lambda>_. []) rev 0 0 1 sample_arena ?pol = Inr compliant \<longleftrightarrow>
      (\<exists>program relations errors violations. GetPolicyAnalysisChecker ?pol = Inr (Some program) \<and>
        relations = program (fact_files (\<lambda>_. []) facts ?pol) \<and> relations ''hasError'' = Some errors \<and>
        relations ''violatesPolicy'' = Some violations \<and> (compliant \<longleftrightarrow> errors = [] \<and> violations = []))"
    unfolding if_P [OF sample_arena_ok] by blast
  with program relations have "verify sample_platform (\<lambda>_. []) rev 0 0 1 sample_arena ?pol = Inr True" by simp
  moreover have "\<not> arena_ok []" by (simp add: arena_ok_def)
  ultimately show ?thesis using verify [of "[]"] by simp
qed

end
