(* ===== verification/Sql_Verifier.thy ===== *)
theory Sql_Verifier imports
  Souffle_Facts
  Sql_Ops
begin

text \<open>
  The SQL policy verifier: the rules of \<^verbatim>\<open>src/analysis/souffle/sql_policy_verifier_interface.dl\<close> with the
  files it includes (\<^verbatim>\<open>operations.dl\<close>, \<^verbatim>\<open>dataflow_graph.dl\<close>, \<^verbatim>\<open>taint.dl\<close>, \<^verbatim>\<open>tag_transforms.dl\<close>,
  \<^verbatim>\<open>sql_output.dl\<close>). Its inputs are the operations of a module and the policy rules, its output the
  violations of the policy. A relation is the predicate that its rules define: inductive where they are
  recursive, over the relations of the strata below where they negate or aggregate.

  Relations that no rule and no input of this program fills are left out with the premises that ask for
  them: \<^verbatim>\<open>edge\<close>, \<^verbatim>\<open>says_removeTag\<close>, \<^verbatim>\<open>says_hasTag\<close>, \<^verbatim>\<open>says_ownsAccessPath\<close>, \<^verbatim>\<open>says_ownsTag\<close>,
  \<^verbatim>\<open>hasAppliedIntegrityTag\<close>, and negated \<^verbatim>\<open>removeIntegrityTag\<close> and \<^verbatim>\<open>isConditionalTag\<close>. Numbers are not
  bounded here.
\<close>

section \<open>The facts\<close>

text \<open>An \<^verbatim>\<open>Operation\<close> record. Access paths are symbols in the program; the reference analysis uses
  other types of paths.\<close>

record 'p dl_operation =
  dl_actor :: string
  dl_operator :: string
  dl_resultList :: "'p list"
  dl_operandList :: "'p list"
  dl_attributes :: named_attribute_map

datatype sql_policy_rule_result =
    AddIntegrityTag string
  | RemoveConfidentialityTag string
  | AddConfidentialityTag string

text \<open>A precondition is a name and the integrity tag it requires.\<close>

record dl_policy_rule =
  policyRuleName :: string
  rule_result :: sql_policy_rule_result
  preconditionList :: "(string \<times> string) list"

definition DEFAULT_SQL_ACTOR :: string where "DEFAULT_SQL_ACTOR = ''sql''"

section \<open>Operations\<close>

inductive has_list_suffix :: "'a list \<Rightarrow> 'a list \<Rightarrow> bool" for xs where
  whole: "has_list_suffix xs xs"
| tail: "has_list_suffix xs (y # ys) \<Longrightarrow> has_list_suffix xs ys"

definition operationHasResult :: "'p dl_operation set \<Rightarrow> 'p dl_operation \<Rightarrow> 'p \<Rightarrow> bool" where
  "operationHasResult ops op r \<longleftrightarrow> op \<in> ops \<and> (\<exists>rest. has_list_suffix (dl_resultList op) (r # rest))"

definition operationHasAttribute :: "'p dl_operation set \<Rightarrow> 'p dl_operation \<Rightarrow> string \<times> attribute \<Rightarrow> bool" where
  "operationHasAttribute ops op a \<longleftrightarrow> op \<in> ops \<and> (\<exists>rest. has_list_suffix (dl_attributes op) (a # rest))"

text \<open>The index of an operand is the length of the list without the length of the suffix it begins.\<close>

definition operationHasOperandAtIndex :: "'p dl_operation set \<Rightarrow> 'p dl_operation \<Rightarrow> 'p \<Rightarrow> int \<Rightarrow> bool" where
  "operationHasOperandAtIndex ops op x i \<longleftrightarrow> op \<in> ops \<and> (\<exists>rest. has_list_suffix (dl_operandList op) (x # rest) \<and>
     i = int (length (dl_operandList op)) - int (length (x # rest)))"

definition hasSpecialEdgeRules :: "string \<Rightarrow> bool" where
  "hasSpecialEdgeRules operator \<longleftrightarrow> operator = kTagTransformOp"

definition isTagTransformOperation :: "'p dl_operation set \<Rightarrow> 'p dl_operation \<Rightarrow> bool" where
  "isTagTransformOperation ops op \<longleftrightarrow> op \<in> ops \<and> dl_actor op = DEFAULT_SQL_ACTOR \<and> dl_operator op = kTagTransformOp"

definition tagTransformHasRuleName :: "'p dl_operation set \<Rightarrow> 'p dl_operation \<Rightarrow> string \<Rightarrow> bool" where
  "tagTransformHasRuleName ops op ruleName \<longleftrightarrow> isTagTransformOperation ops op \<and>
     operationHasAttribute ops op (kRuleNameAttribute, StringAttribute ruleName)"

section \<open>The data flow graph\<close>

inductive resolvedEdge :: "string dl_operation set \<Rightarrow> string \<Rightarrow> string \<Rightarrow> string \<Rightarrow> bool" for ops where
  operand_edge: "op \<in> ops \<Longrightarrow> operationHasOperandAtIndex ops op src i \<Longrightarrow> operationHasResult ops op tgt \<Longrightarrow>
    \<not> hasSpecialEdgeRules (dl_operator op) \<Longrightarrow> resolvedEdge ops (dl_actor op) src tgt"
| arbitrary_edge: "op \<in> ops \<Longrightarrow> operationHasResult ops op tgt \<Longrightarrow>
    \<not> hasSpecialEdgeRules (dl_operator op) \<Longrightarrow> resolvedEdge ops (dl_actor op) ''ArbitraryComputation'' tgt"
| transform_edge: "isTagTransformOperation ops op \<Longrightarrow> operationHasOperandAtIndex ops op src 0 \<Longrightarrow>
    operationHasResult ops op tgt \<Longrightarrow> resolvedEdge ops DEFAULT_SQL_ACTOR src tgt"

definition isAccessPath :: "string dl_operation set \<Rightarrow> string \<Rightarrow> bool" where
  "isAccessPath ops p \<longleftrightarrow> p = ''ArbitraryComputation'' \<or> (\<exists>op. operationHasResult ops op p) \<or>
     (\<exists>op i. operationHasOperandAtIndex ops op p i) \<or> (\<exists>owner q. resolvedEdge ops owner p q \<or> resolvedEdge ops owner q p)"

definition isPrincipal :: "'p dl_operation set \<Rightarrow> string \<Rightarrow> bool" where
  "isPrincipal ops p \<longleftrightarrow> (\<exists>op \<in> ops. dl_actor op = p)"

text \<open>Souffle's \<^verbatim>\<open>ord\<close> is a number for every symbol of a run, and its aggregates have no value on the
  empty set.\<close>

definition is_min :: "nat \<Rightarrow> nat set \<Rightarrow> bool" where
  "is_min n N \<longleftrightarrow> n \<in> N \<and> (\<forall>k \<in> N. n \<le> k)"

definition is_max :: "nat \<Rightarrow> nat set \<Rightarrow> bool" where
  "is_max n N \<longleftrightarrow> n \<in> N \<and> (\<forall>k \<in> N. k \<le> n)"

inductive orderedPredecessors ::
  "(string \<Rightarrow> nat) \<Rightarrow> string dl_operation set \<Rightarrow> string \<Rightarrow> string \<Rightarrow> string \<Rightarrow> nat \<Rightarrow> bool" for ord ops where
  first: "resolvedEdge ops owner src dst \<Longrightarrow> is_min (ord src) {ord c |c. resolvedEdge ops owner c dst} \<Longrightarrow>
    orderedPredecessors ord ops dst owner src 0"
| another: "orderedPredecessors ord ops dst owner prevSrc prevOrd \<Longrightarrow> resolvedEdge ops owner src ap \<Longrightarrow>
    is_min (ord src) {ord c |c. resolvedEdge ops owner c dst \<and> ord c > ord prevSrc} \<Longrightarrow>
    orderedPredecessors ord ops dst owner src (prevOrd + 1)"

definition numPredecessors :: "(string \<Rightarrow> nat) \<Rightarrow> string dl_operation set \<Rightarrow> string \<Rightarrow> string \<Rightarrow> nat \<Rightarrow> bool" where
  "numPredecessors ord ops ap owner n \<longleftrightarrow> (\<exists>src maxOrd. orderedPredecessors ord ops ap owner src maxOrd \<and>
     is_max maxOrd {k |c k. orderedPredecessors ord ops ap owner c k} \<and> n = maxOrd + 1)"

section \<open>Policy rules\<close>

definition sqlPolicyRuleNameHasPreconditionList :: "dl_policy_rule set \<Rightarrow> string \<Rightarrow> (string \<times> string) list \<Rightarrow> bool" where
  "sqlPolicyRuleNameHasPreconditionList rules name ps \<longleftrightarrow> (\<exists>rule \<in> rules. policyRuleName rule = name \<and> preconditionList rule = ps)"

text \<open>A precondition has the length of the rest of its list as its index.\<close>

definition sqlPolicyRuleNameHasPreconditionAtIndex :: "dl_policy_rule set \<Rightarrow> string \<Rightarrow> string \<times> string \<Rightarrow> nat \<Rightarrow> bool" where
  "sqlPolicyRuleNameHasPreconditionAtIndex rules name p i \<longleftrightarrow> (\<exists>ps rest. sqlPolicyRuleNameHasPreconditionList rules name ps \<and>
     has_list_suffix ps (p # rest) \<and> i = length (p # rest) - 1)"

definition sqlPolicyRuleNameHasResult :: "dl_policy_rule set \<Rightarrow> string \<Rightarrow> sql_policy_rule_result \<Rightarrow> bool" where
  "sqlPolicyRuleNameHasResult rules name res \<longleftrightarrow> (\<exists>rule \<in> rules. policyRuleName rule = name \<and> rule_result rule = res)"

definition isTag :: "dl_policy_rule set \<Rightarrow> string \<Rightarrow> bool" where
  "isTag rules tag \<longleftrightarrow> (\<exists>name. sqlPolicyRuleNameHasResult rules name (AddConfidentialityTag tag) \<or>
     sqlPolicyRuleNameHasResult rules name (RemoveConfidentialityTag tag))"

definition isIntegrityTag :: "dl_policy_rule set \<Rightarrow> string \<Rightarrow> bool" where
  "isIntegrityTag rules tag \<longleftrightarrow> (\<exists>name. sqlPolicyRuleNameHasResult rules name (AddIntegrityTag tag))"

definition tagTransformHasIndexedTagPrecondition ::
  "string dl_operation set \<Rightarrow> dl_policy_rule set \<Rightarrow> string dl_operation \<Rightarrow> nat \<Rightarrow> string \<Rightarrow> string \<Rightarrow> bool" where
  "tagTransformHasIndexedTagPrecondition ops rules op i path requiredTag \<longleftrightarrow>
     (\<exists>ruleName preconditionName operandIndex. tagTransformHasRuleName ops op ruleName \<and>
        operationHasAttribute ops op (preconditionName, Int64Attribute operandIndex) \<and>
        preconditionName \<noteq> kRuleNameAttribute \<and> operationHasOperandAtIndex ops op path operandIndex \<and>
        sqlPolicyRuleNameHasPreconditionAtIndex rules ruleName (preconditionName, requiredTag) i)"

section \<open>Merges with a propagation of their own\<close>

definition isMergeOp :: "'p dl_operation set \<Rightarrow> 'p dl_operation \<Rightarrow> bool" where
  "isMergeOp ops op \<longleftrightarrow> op \<in> ops \<and> dl_operator op = kMergeOp"

definition isModifiedPropagationMergeOp :: "'p dl_operation set \<Rightarrow> 'p dl_operation \<Rightarrow> string \<Rightarrow> bool" where
  "isModifiedPropagationMergeOp ops mergeOp ruleName \<longleftrightarrow> (\<exists>tt transformedInput. tagTransformHasRuleName ops tt ruleName \<and>
     (ruleName = kIntersectItagRule \<or> ruleName = kUnionItagRule) \<and> operationHasOperandAtIndex ops tt transformedInput 0 \<and>
     operationHasResult ops mergeOp transformedInput \<and> isMergeOp ops mergeOp)"

definition mergeOperationHasControlInputStartIndex :: "'p dl_operation set \<Rightarrow> 'p dl_operation \<Rightarrow> int \<Rightarrow> bool" where
  "mergeOperationHasControlInputStartIndex ops mergeOp i \<longleftrightarrow> isMergeOp ops mergeOp \<and>
     operationHasAttribute ops mergeOp (kControlInputStartIndex, Int64Attribute i)"

definition isMergeOperationDirectInput :: "'p dl_operation set \<Rightarrow> 'p dl_operation \<Rightarrow> 'p \<Rightarrow> bool" where
  "isMergeOperationDirectInput ops mergeOp x \<longleftrightarrow> (\<exists>i start. isMergeOp ops mergeOp \<and> operationHasOperandAtIndex ops mergeOp x i \<and>
     mergeOperationHasControlInputStartIndex ops mergeOp start \<and> i < start)"

section \<open>Integrity tags\<close>

inductive mustHaveIntegrityTag ::
    "(string \<Rightarrow> nat) \<Rightarrow> string dl_operation set \<Rightarrow> dl_policy_rule set \<Rightarrow> string \<Rightarrow> string \<Rightarrow> string \<Rightarrow> bool"
  and predecessorsUpToOrderNumHaveIntegrityTag ::
    "(string \<Rightarrow> nat) \<Rightarrow> string dl_operation set \<Rightarrow> dl_policy_rule set \<Rightarrow> string \<Rightarrow> string \<Rightarrow> string \<Rightarrow> nat \<Rightarrow> bool"
  and allTagTransformPreconditionsLessThanIndexMet ::
    "(string \<Rightarrow> nat) \<Rightarrow> string dl_operation set \<Rightarrow> dl_policy_rule set \<Rightarrow> string dl_operation \<Rightarrow> nat \<Rightarrow> bool"
  and allTagTransformPreconditionsMet ::
    "(string \<Rightarrow> nat) \<Rightarrow> string dl_operation set \<Rightarrow> dl_policy_rule set \<Rightarrow> string dl_operation \<Rightarrow> bool"
  and mergeOperationHasIntegrityTagOnDirectOperandsUpToIndex ::
    "(string \<Rightarrow> nat) \<Rightarrow> string dl_operation set \<Rightarrow> dl_policy_rule set \<Rightarrow> string dl_operation \<Rightarrow> string \<Rightarrow> nat \<Rightarrow> bool"
  for ord ops rules where
  predecessors_first: "orderedPredecessors ord ops ap owner pred 0 \<Longrightarrow> mustHaveIntegrityTag ord ops rules pred owner t \<Longrightarrow>
    predecessorsUpToOrderNumHaveIntegrityTag ord ops rules ap owner t 0"
| predecessors_next: "predecessorsUpToOrderNumHaveIntegrityTag ord ops rules ap owner t n \<Longrightarrow>
    orderedPredecessors ord ops ap owner pred (n + 1) \<Longrightarrow> mustHaveIntegrityTag ord ops rules pred owner t \<Longrightarrow>
    predecessorsUpToOrderNumHaveIntegrityTag ord ops rules ap owner t (n + 1)"
| all_predecessors: "isAccessPath ops ap \<Longrightarrow> isIntegrityTag rules t \<Longrightarrow> isPrincipal ops owner \<Longrightarrow>
    numPredecessors ord ops ap owner n \<Longrightarrow> n > 0 \<Longrightarrow> predecessorsUpToOrderNumHaveIntegrityTag ord ops rules ap owner t (n - 1) \<Longrightarrow>
    mustHaveIntegrityTag ord ops rules ap owner t"
| preconditions_none: "isTagTransformOperation ops op \<Longrightarrow> allTagTransformPreconditionsLessThanIndexMet ord ops rules op 0"
| preconditions_next: "isTagTransformOperation ops op \<Longrightarrow> tagTransformHasIndexedTagPrecondition ops rules op idx path required \<Longrightarrow>
    mustHaveIntegrityTag ord ops rules path DEFAULT_SQL_ACTOR required \<Longrightarrow>
    allTagTransformPreconditionsLessThanIndexMet ord ops rules op idx \<Longrightarrow>
    allTagTransformPreconditionsLessThanIndexMet ord ops rules op (idx + 1)"
| preconditions_met: "isTagTransformOperation ops op \<Longrightarrow> tagTransformHasRuleName ops op ruleName \<Longrightarrow>
    sqlPolicyRuleNameHasPreconditionList rules ruleName ps \<Longrightarrow>
    allTagTransformPreconditionsLessThanIndexMet ord ops rules op (length ps) \<Longrightarrow>
    allTagTransformPreconditionsMet ord ops rules op"
| transform_adds: "isTagTransformOperation ops op \<Longrightarrow> operationHasResult ops op res \<Longrightarrow> tagTransformHasRuleName ops op ruleName \<Longrightarrow>
    allTagTransformPreconditionsMet ord ops rules op \<Longrightarrow> sqlPolicyRuleNameHasResult rules ruleName (AddIntegrityTag t) \<Longrightarrow>
    mustHaveIntegrityTag ord ops rules res DEFAULT_SQL_ACTOR t"
| merge_union: "isModifiedPropagationMergeOp ops mergeOp kUnionItagRule \<Longrightarrow> operationHasResult ops mergeOp res \<Longrightarrow>
    isMergeOperationDirectInput ops mergeOp x \<Longrightarrow> mustHaveIntegrityTag ord ops rules x DEFAULT_SQL_ACTOR t \<Longrightarrow>
    mustHaveIntegrityTag ord ops rules res DEFAULT_SQL_ACTOR t"
| direct_first: "isMergeOp ops mergeOp \<Longrightarrow> operationHasOperandAtIndex ops mergeOp x 0 \<Longrightarrow>
    isMergeOperationDirectInput ops mergeOp x \<Longrightarrow> mustHaveIntegrityTag ord ops rules x (dl_actor mergeOp) t \<Longrightarrow>
    mergeOperationHasIntegrityTagOnDirectOperandsUpToIndex ord ops rules mergeOp t 0"
| direct_next: "isMergeOp ops mergeOp \<Longrightarrow> mergeOperationHasIntegrityTagOnDirectOperandsUpToIndex ord ops rules mergeOp t idx \<Longrightarrow>
    operationHasOperandAtIndex ops mergeOp x (int idx + 1) \<Longrightarrow> isMergeOperationDirectInput ops mergeOp x \<Longrightarrow>
    mustHaveIntegrityTag ord ops rules x (dl_actor mergeOp) t \<Longrightarrow>
    mergeOperationHasIntegrityTagOnDirectOperandsUpToIndex ord ops rules mergeOp t (idx + 1)"
| merge_intersect: "isModifiedPropagationMergeOp ops mergeOp kIntersectItagRule \<Longrightarrow> isPrincipal ops actor \<Longrightarrow>
    operationHasResult ops mergeOp res \<Longrightarrow> mergeOperationHasIntegrityTagOnDirectOperandsUpToIndex ord ops rules mergeOp t idx \<Longrightarrow>
    mergeOperationHasControlInputStartIndex ops mergeOp (int idx + 1) \<Longrightarrow> mustHaveIntegrityTag ord ops rules res actor t"

section \<open>Confidentiality tags and violations\<close>

definition removeTag :: "(string \<Rightarrow> nat) \<Rightarrow> string dl_operation set \<Rightarrow> dl_policy_rule set \<Rightarrow> string \<Rightarrow> string \<Rightarrow> string \<Rightarrow> bool" where
  "removeTag ord ops rules path owner tag \<longleftrightarrow> owner = DEFAULT_SQL_ACTOR \<and> (\<exists>op ruleName. isTagTransformOperation ops op \<and>
     operationHasResult ops op path \<and> tagTransformHasRuleName ops op ruleName \<and>
     allTagTransformPreconditionsMet ord ops rules op \<and> sqlPolicyRuleNameHasResult rules ruleName (RemoveConfidentialityTag tag))"

definition hasTag :: "(string \<Rightarrow> nat) \<Rightarrow> string dl_operation set \<Rightarrow> dl_policy_rule set \<Rightarrow> string \<Rightarrow> string \<Rightarrow> string \<Rightarrow> bool" where
  "hasTag ord ops rules path owner tag \<longleftrightarrow> owner = DEFAULT_SQL_ACTOR \<and> (\<exists>op ruleName. isTagTransformOperation ops op \<and>
     operationHasResult ops op path \<and> tagTransformHasRuleName ops op ruleName \<and>
     allTagTransformPreconditionsMet ord ops rules op \<and> sqlPolicyRuleNameHasResult rules ruleName (AddConfidentialityTag tag))"

text \<open>A pair of paths of which the second is a member of the first.\<close>

definition isMemberOf :: "string dl_operation set \<Rightarrow> string \<Rightarrow> string \<Rightarrow> bool" where
  "isMemberOf ops base member \<longleftrightarrow> isAccessPath ops base \<and> isAccessPath ops member \<and> length base + 1 < length member \<and>
     base @ ''.'' = take (length base + 1) member"

inductive mayHaveTag ::
  "(string \<Rightarrow> nat) \<Rightarrow> string dl_operation set \<Rightarrow> dl_policy_rule set \<Rightarrow> string \<Rightarrow> string \<Rightarrow> string \<Rightarrow> bool" for ord ops rules where
  has: "hasTag ord ops rules tgt owner tag \<Longrightarrow> mayHaveTag ord ops rules tgt owner tag"
| flows: "resolvedEdge ops owner src tgt \<Longrightarrow> mayHaveTag ord ops rules src owner tag \<Longrightarrow> \<not> removeTag ord ops rules tgt owner tag \<Longrightarrow>
    mayHaveTag ord ops rules tgt owner tag"
| member: "isAccessPath ops base \<Longrightarrow> isAccessPath ops mem \<Longrightarrow> mayHaveTag ord ops rules mem owner tag \<Longrightarrow> isMemberOf ops base mem \<Longrightarrow>
    mayHaveTag ord ops rules base owner tag"

definition isSqlOutput :: "'p dl_operation set \<Rightarrow> 'p dl_operation \<Rightarrow> bool" where
  "isSqlOutput ops op \<longleftrightarrow> op \<in> ops \<and> dl_actor op = DEFAULT_SQL_ACTOR \<and> dl_operator op = kSqlOutputOp"

definition sqlOutputHasConfidentialTag ::
  "(string \<Rightarrow> nat) \<Rightarrow> string dl_operation set \<Rightarrow> dl_policy_rule set \<Rightarrow> string dl_operation \<Rightarrow> string \<Rightarrow> bool" where
  "sqlOutputHasConfidentialTag ord ops rules op tag \<longleftrightarrow> isSqlOutput ops op \<and> (\<exists>res. operationHasResult ops op res \<and>
     isTag rules tag \<and> mayHaveTag ord ops rules res DEFAULT_SQL_ACTOR tag)"

text \<open>The tuples of the two relations that the policy checker reads.\<close>

definition violatesPolicy :: "(string \<Rightarrow> nat) \<Rightarrow> string dl_operation set \<Rightarrow> dl_policy_rule set \<Rightarrow> string list \<Rightarrow> bool" where
  "violatesPolicy ord ops rules tuple \<longleftrightarrow> (\<exists>op tag. sqlOutputHasConfidentialTag ord ops rules op tag \<and>
     tuple = [''violates'', ''sql'', ''Output has confidential tag: '' @ tag])"

definition hasError :: "(string \<Rightarrow> nat) \<Rightarrow> string dl_operation set \<Rightarrow> dl_policy_rule set \<Rightarrow> string list \<Rightarrow> bool" where
  "hasError ord ops rules tuple \<longleftrightarrow> (\<exists>path policy message. violatesPolicy ord ops rules [path, policy, message] \<and>
     tuple = [((path @ '' violates policy '') @ policy) @ '': '' @ message])"

end
