(* ===== verification/Sql_Verifier_Pass.thy ===== *)
theory Sql_Verifier_Pass imports
  Sql_Verifier
begin

text \<open>
  A reference for the SQL policy verifier: one pass over the operations in definition order that computes
  the confidentiality and the integrity tags of every result. The theory shows that on the facts of such
  operations the rules of \<^verbatim>\<open>Sql_Verifier\<close> derive exactly the tags of the pass.
\<close>

section \<open>The pass\<close>

text \<open>The confidentiality and the integrity tags of a path.\<close>

type_synonym tag_sets = "string set \<times> string set"

definition rule_name_of :: "'p dl_operation \<Rightarrow> string option" where
  "rule_name_of op = (case map_of (dl_attributes op) kRuleNameAttribute of Some (StringAttribute r) \<Rightarrow> Some r | _ \<Rightarrow> None)"

definition number_of :: "'p dl_operation \<Rightarrow> string \<Rightarrow> int option" where
  "number_of op name = (case map_of (dl_attributes op) name of Some (Int64Attribute i) \<Rightarrow> Some i | _ \<Rightarrow> None)"

definition operand_at :: "'p dl_operation \<Rightarrow> int \<Rightarrow> 'p option" where
  "operand_at op i = (if 0 \<le> i \<and> nat i < length (dl_operandList op) then Some (dl_operandList op ! nat i) else None)"

text \<open>A precondition holds if the operation has an operand of its name with the required tag.\<close>

definition precondition_met :: "('p \<Rightarrow> tag_sets) \<Rightarrow> 'p dl_operation \<Rightarrow> string \<times> string \<Rightarrow> bool" where
  "precondition_met env op p \<longleftrightarrow> fst p \<noteq> kRuleNameAttribute \<and>
     (case Option.bind (number_of op (fst p)) (operand_at op) of None \<Rightarrow> False | Some x \<Rightarrow> snd p \<in> snd (env x))"

definition rules_of :: "dl_policy_rule list \<Rightarrow> 'p dl_operation \<Rightarrow> dl_policy_rule list" where
  "rules_of rules op = filter (\<lambda>rule. rule_name_of op = Some (policyRuleName rule)) rules"

definition active_results :: "dl_policy_rule list \<Rightarrow> ('p \<Rightarrow> tag_sets) \<Rightarrow> 'p dl_operation \<Rightarrow> sql_policy_rule_result list" where
  "active_results rules env op =
     (if list_ex (\<lambda>rule. list_all (precondition_met env op) (preconditionList rule)) (rules_of rules op)
      then map rule_result (rules_of rules op) else [])"

fun confidentiality_added :: "sql_policy_rule_result \<Rightarrow> string set" where
  "confidentiality_added (AddConfidentialityTag t) = {t}"
| "confidentiality_added _ = {}"

fun integrity_added :: "sql_policy_rule_result \<Rightarrow> string set" where
  "integrity_added (AddIntegrityTag t) = {t}"
| "integrity_added _ = {}"

lemma added_iff [simp]:
  "t \<in> confidentiality_added res \<longleftrightarrow> res = AddConfidentialityTag t" "t \<in> integrity_added res \<longleftrightarrow> res = AddIntegrityTag t"
  by (cases res; auto)+

definition transform_tags :: "dl_policy_rule list \<Rightarrow> ('p \<Rightarrow> tag_sets) \<Rightarrow> 'p dl_operation \<Rightarrow> tag_sets" where
  "transform_tags rules env op =
     (let transformed = (case operand_at op 0 of None \<Rightarrow> ({}, {}) | Some x \<Rightarrow> env x); res = active_results rules env op
      in ({t \<in> fst transformed. RemoveConfidentialityTag t \<notin> set res} \<union> (\<Union>r \<in> set res. confidentiality_added r),
          snd transformed \<union> (\<Union>r \<in> set res. integrity_added r)))"

text \<open>A merge unites or intersects the integrity tags of its direct inputs if some tag transform of the
  merge's result has the special rule.\<close>

definition has_special_rule :: "'p dl_operation list \<Rightarrow> 'p dl_operation \<Rightarrow> string \<Rightarrow> bool" where
  "has_special_rule ops op ruleName \<longleftrightarrow> list_ex (\<lambda>tt. dl_operator tt = kTagTransformOp \<and> rule_name_of tt = Some ruleName \<and>
     (case operand_at tt 0 of None \<Rightarrow> False | Some x \<Rightarrow> x \<in> set (dl_resultList op))) ops"

definition direct_inputs :: "'p dl_operation \<Rightarrow> 'p list" where
  "direct_inputs op = (case number_of op kControlInputStartIndex of
     Some n \<Rightarrow> take (nat n) (dl_operandList op) | None \<Rightarrow> [])"

definition merge_integrity :: "'p dl_operation list \<Rightarrow> ('p \<Rightarrow> tag_sets) \<Rightarrow> 'p dl_operation \<Rightarrow> string set" where
  "merge_integrity ops env op = (let xs = direct_inputs op in
     (if has_special_rule ops op kUnionItagRule then \<Union>x \<in> set xs. snd (env x) else {}) \<union>
     (if has_special_rule ops op kIntersectItagRule \<and> xs \<noteq> [] \<and> number_of op kControlInputStartIndex = Some (int (length xs))
      then \<Inter>x \<in> set xs. snd (env x) else {}))"

definition operation_tags :: "dl_policy_rule list \<Rightarrow> 'p dl_operation list \<Rightarrow> ('p \<Rightarrow> tag_sets) \<Rightarrow> 'p dl_operation \<Rightarrow> tag_sets" where
  "operation_tags rules ops env op =
     (if dl_operator op = kTagTransformOp then transform_tags rules env op
      else (\<Union>x \<in> set (dl_operandList op). fst (env x), if dl_operator op = kMergeOp then merge_integrity ops env op else {}))"

definition pass_step :: "dl_policy_rule list \<Rightarrow> 'p dl_operation list \<Rightarrow> 'p dl_operation \<Rightarrow> ('p \<Rightarrow> tag_sets) \<Rightarrow> 'p \<Rightarrow> tag_sets" where
  "pass_step rules ops op env =
     (let tags = operation_tags rules ops env op in (\<lambda>x. if x \<in> set (dl_resultList op) then tags else env x))"

definition verifier_pass :: "dl_policy_rule list \<Rightarrow> 'p dl_operation list \<Rightarrow> 'p \<Rightarrow> tag_sets" where
  "verifier_pass rules ops = fold (pass_step rules ops) ops (\<lambda>_. ({}, {}))"

text \<open>The confidentiality tags of the outputs.\<close>

definition output_tags :: "dl_policy_rule list \<Rightarrow> 'p dl_operation list \<Rightarrow> string set" where
  "output_tags rules ops = (\<Union>op \<in> set (filter (\<lambda>op. dl_operator op = kSqlOutputOp) ops).
     \<Union>r \<in> set (dl_resultList op). fst (verifier_pass rules ops r))"

definition pass_compliant :: "dl_policy_rule list \<Rightarrow> 'p dl_operation list \<Rightarrow> bool" where
  "pass_compliant rules ops \<longleftrightarrow> output_tags rules ops = {}"

section \<open>Operations in definition order\<close>

definition defined_in_order :: "'p dl_operation list \<Rightarrow> bool" where
  "defined_in_order ops \<longleftrightarrow> distinct (concat (map dl_resultList ops)) \<and>
     (\<forall>us op vs. ops = us @ op # vs \<longrightarrow> (\<forall>x \<in> set (dl_operandList op). \<forall>op' \<in> set (op # vs). x \<notin> set (dl_resultList op')))"

lemma defined_in_order_append:
  assumes "defined_in_order (us @ op # vs)"
  shows "op' \<in> set us \<union> set vs \<Longrightarrow> set (dl_resultList op) \<inter> set (dl_resultList op') = {}"
    and "op' \<in> set (op # vs) \<Longrightarrow> set (dl_operandList op) \<inter> set (dl_resultList op') = {}"
  using assms by (auto simp: defined_in_order_def)

lemma operation_tags_cong:
  assumes "\<And>x. x \<in> set (dl_operandList op) \<Longrightarrow> env x = env' x"
  shows "operation_tags rules ops env op = operation_tags rules ops env' op"
proof -
  have at: "operand_at op i = Some x \<Longrightarrow> env x = env' x" for i x
    using assms by (auto simp: operand_at_def split: if_splits)
  have "set (direct_inputs op) \<subseteq> set (dl_operandList op)"
    by (auto simp: direct_inputs_def split: option.splits dest: in_set_takeD)
  then have direct: "x \<in> set (direct_inputs op) \<Longrightarrow> env x = env' x" for x using assms by blast
  have "precondition_met env op = precondition_met env' op"
    by (rule ext) (auto simp: precondition_met_def bind_eq_Some_conv at split: option.splits)
  then have "active_results rules env op = active_results rules env' op" by (simp add: active_results_def)
  moreover have "merge_integrity ops env op = merge_integrity ops env' op"
    using direct by (simp add: merge_integrity_def Let_def cong: SUP_cong INF_cong)
  moreover have "(\<Union>x \<in> set (dl_operandList op). fst (env x)) = (\<Union>x \<in> set (dl_operandList op). fst (env' x))"
    using assms by (simp cong: SUP_cong)
  ultimately show ?thesis using at [of 0] by (simp add: operation_tags_def transform_tags_def split: option.split)
qed

lemma pass_other: "x \<notin> (\<Union>op \<in> set us. set (dl_resultList op)) \<Longrightarrow> fold (pass_step rules ops) us env x = env x"
  by (induction us arbitrary: env) (simp_all add: pass_step_def Let_def)

text \<open>The tags of the pass satisfy the equation of every operation, and only results have tags.\<close>

lemma verifier_pass_result:
  assumes "defined_in_order ops" and "op \<in> set ops" and "r \<in> set (dl_resultList op)"
  shows "verifier_pass rules ops r = operation_tags rules ops (verifier_pass rules ops) op"
proof -
  obtain us vs where ops: "ops = us @ op # vs" using assms(2) by (meson split_list)
  note order = defined_in_order_append [OF assms(1) [unfolded ops]]
  let ?env = "fold (pass_step rules ops) us (\<lambda>_. ({}, {}))"
  have pass: "verifier_pass rules ops = fold (pass_step rules ops) vs (pass_step rules ops op ?env)"
    unfolding verifier_pass_def by (subst (2) ops) simp
  have later: "verifier_pass rules ops x = pass_step rules ops op ?env x" if "x \<notin> (\<Union>op \<in> set vs. set (dl_resultList op))" for x
    unfolding pass by (rule pass_other [OF that])
  have "verifier_pass rules ops r = operation_tags rules ops ?env op"
    using order(1) assms(3) by (subst later) (auto simp: pass_step_def)
  also have "\<dots> = operation_tags rules ops (verifier_pass rules ops) op"
  proof (rule operation_tags_cong)
    fix x assume "x \<in> set (dl_operandList op)"
    with order(2) show "?env x = verifier_pass rules ops x"
      by (subst later) (auto simp: pass_step_def Let_def)
  qed
  finally show ?thesis .
qed

lemma verifier_pass_other:
  "x \<notin> (\<Union>op \<in> set ops. set (dl_resultList op)) \<Longrightarrow> verifier_pass rules ops x = ({}, {})"
  unfolding verifier_pass_def by (rule pass_other)

section \<open>The relations as conditions\<close>

lemma has_list_suffix_iff: "has_list_suffix xs ys \<longleftrightarrow> (\<exists>zs. xs = zs @ ys)"
proof
  show "has_list_suffix xs ys \<Longrightarrow> \<exists>zs. xs = zs @ ys"
  proof (induction rule: has_list_suffix.induct)
    case (tail y ys)
    then obtain zs where "xs = (zs @ [y]) @ ys" by auto
    then show ?case by blast
  qed simp
  have "has_list_suffix (zs @ us) us" for zs us :: "'a list"
  proof (induction zs arbitrary: us rule: rev_induct)
    case (snoc z zs)
    from snoc.IH [of "z # us"] show ?case by (simp add: has_list_suffix.tail)
  qed (simp add: has_list_suffix.whole)
  then show "\<exists>zs. xs = zs @ ys \<Longrightarrow> has_list_suffix xs ys" by blast
qed

lemma operationHasResult_iff [simp]: "operationHasResult ops op r \<longleftrightarrow> op \<in> ops \<and> r \<in> set (dl_resultList op)"
  by (auto simp: operationHasResult_def has_list_suffix_iff in_set_conv_decomp)

lemma operationHasAttribute_iff: "operationHasAttribute ops op a \<longleftrightarrow> op \<in> ops \<and> a \<in> set (dl_attributes op)"
  by (auto simp: operationHasAttribute_def has_list_suffix_iff in_set_conv_decomp)

lemma operationHasOperandAtIndex_iff [simp]:
  "operationHasOperandAtIndex ops op x i \<longleftrightarrow> op \<in> ops \<and> operand_at op i = Some x"
proof -
  have "(\<exists>rest. has_list_suffix (dl_operandList op) (x # rest) \<and> i = int (length (dl_operandList op)) - int (length (x # rest))) \<longleftrightarrow>
      operand_at op i = Some x" (is "?L \<longleftrightarrow> _")
  proof
    show "?L \<Longrightarrow> operand_at op i = Some x"
      by (auto simp: has_list_suffix_iff operand_at_def)
    assume at: "operand_at op i = Some x"
    then have "nat i < length (dl_operandList op)" "dl_operandList op ! nat i = x" "0 \<le> i"
      by (auto simp: operand_at_def split: if_splits)
    then have "dl_operandList op = take (nat i) (dl_operandList op) @ x # drop (Suc (nat i)) (dl_operandList op)"
      "i = int (length (dl_operandList op)) - int (length (x # drop (Suc (nat i)) (dl_operandList op)))"
      by (auto simp: id_take_nth_drop)
    then show ?L unfolding has_list_suffix_iff by blast
  qed
  then show ?thesis by (auto simp: operationHasOperandAtIndex_def)
qed

lemma in_operands: "operand_at op i = Some x \<Longrightarrow> x \<in> set (dl_operandList op)"
  by (auto simp: operand_at_def split: if_splits)

lemma operand_index: "x \<in> set (dl_operandList op) \<Longrightarrow> \<exists>i. operand_at op i = Some x"
  by (auto simp: in_set_conv_nth operand_at_def) (metis nat_int of_nat_0_le_iff)

section \<open>Enumerating the predecessors\<close>

text \<open>A predecessor has the number of smaller predecessors as its order number.\<close>

lemma orderedPredecessors_iff:
  fixes ops owner dst
  defines "S \<equiv> {c. resolvedEdge ops owner c dst}"
  assumes "inj ord" and "finite S"
  shows "orderedPredecessors ord ops dst owner src n \<longleftrightarrow> src \<in> S \<and> card {c \<in> S. ord c < ord src} = n"
proof
  assume "orderedPredecessors ord ops dst owner src n"
  then have "src \<in> S \<and> card {c \<in> S. ord c < ord src} = n" if "S = {c. resolvedEdge ops owner c dst}" for S
    using that assms(3) [unfolded S_def]
  proof (induction arbitrary: S rule: orderedPredecessors.induct)
    case (first owner src dst)
    have "ord src \<le> ord c" if "resolvedEdge ops owner c dst" for c using first.hyps(2) that by (auto simp: is_min_def)
    then have "{c \<in> S. ord c < ord src} = {}" using first.prems(1) by (auto simp: not_less)
    then show ?case using first by (simp only: card.empty) simp
  next
    case (another dst owner prevSrc prevOrd src ap)
    then have prev: "prevSrc \<in> S" "card {c \<in> S. ord c < ord prevSrc} = prevOrd" by auto
    from another.hyps(3) assms(2) have src: "src \<in> S" "ord prevSrc < ord src"
      and least: "\<And>c. c \<in> S \<Longrightarrow> ord prevSrc < ord c \<Longrightarrow> ord src \<le> ord c"
      using another.prems(1) by (auto simp: is_min_def dest: injD)
    have "ord c < ord src \<longleftrightarrow> ord c < ord prevSrc \<or> c = prevSrc" if "c \<in> S" for c
      using src(2) least [OF that] assms(2) by (metis injD le_less_trans less_trans linorder_neqE_nat not_le)
    then have "{c \<in> S. ord c < ord src} = insert prevSrc {c \<in> S. ord c < ord prevSrc}" using prev(1) by auto
    then show ?case using prev(2) src(1) another.prems by simp
  qed
  then show "src \<in> S \<and> card {c \<in> S. ord c < ord src} = n" by (simp add: S_def)
next
  show "src \<in> S \<and> card {c \<in> S. ord c < ord src} = n \<Longrightarrow> orderedPredecessors ord ops dst owner src n"
  proof (induction n arbitrary: src)
    case 0
    then have "{c \<in> S. ord c < ord src} = {}" using assms(3) by auto
    with 0 show ?case by (intro orderedPredecessors.first) (auto simp: S_def is_min_def not_less)
  next
    case (Suc n)
    let ?B = "{c \<in> S. ord c < ord src}"
    have "?B \<noteq> {}" using Suc.prems by (metis card.empty nat.distinct(1))
    then have fin: "finite (ord ` ?B)" "ord ` ?B \<noteq> {}" using assms(3) by simp_all
    from Max_in [OF this] obtain prev where prev: "Max (ord ` ?B) = ord prev" "prev \<in> ?B" by (rule imageE)
    have greatest: "c \<in> ?B \<Longrightarrow> ord c \<le> ord prev" for c
      by (rule Max_ge [OF fin(1) imageI, unfolded prev(1)])
    then have "?B = insert prev {c \<in> S. ord c < ord prev}"
      using prev(2) assms(2) by (auto simp: order.order_iff_strict dest: injD)
    then have "card {c \<in> S. ord c < ord prev} = n" using Suc.prems assms(3) by (simp add: S_def)
    with Suc.IH prev(2) have "orderedPredecessors ord ops dst owner prev n" by auto
    moreover have "ord src \<le> ord c" if "c \<in> S" "ord prev < ord c" for c
      using greatest [of c] that by (metis (mono_tags, lifting) mem_Collect_eq not_le)
    ultimately have "orderedPredecessors ord ops dst owner src (n + 1)"
      using prev(2) Suc.prems by (intro orderedPredecessors.another [where prevSrc = prev and ap = dst]) (auto simp: S_def is_min_def)
    then show ?case by simp
  qed
qed

lemma rank_less:
  assumes "finite S" and "x \<in> S"
  shows "card {c \<in> S. ord c < (ord x :: nat)} < card S"
proof (rule psubset_card_mono [OF assms(1)])
  have "x \<notin> {c \<in> S. ord c < ord x}" by simp
  with assms(2) show "{c \<in> S. ord c < ord x} \<subset> S" by blast
qed

lemma rank_inj:
  assumes "finite S" and "x \<in> S" and "y \<in> S" and "inj ord"
    and "card {c \<in> S. ord c < (ord x :: nat)} = card {c \<in> S. ord c < ord y}"
  shows "x = y"
proof -
  have less: "card {c \<in> S. ord c < ord u} < card {c \<in> S. ord c < ord v}" if "u \<in> S" "ord u < ord v" for u v
  proof (rule psubset_card_mono)
    have "u \<notin> {c \<in> S. ord c < ord u}" "u \<in> {c \<in> S. ord c < ord v}" using that by simp_all
    moreover have "{c \<in> S. ord c < ord u} \<subseteq> {c \<in> S. ord c < ord v}" using that(2) by fastforce
    ultimately show "{c \<in> S. ord c < ord u} \<subset> {c \<in> S. ord c < ord v}" by blast
  qed (simp add: assms(1))
  from less [OF assms(2), of y] less [OF assms(3), of x] assms(5) have "ord x = ord y" by linarith
  with assms(4) show ?thesis by (rule injD)
qed

lemma rank_surj:
  assumes "finite S" and "inj ord" and "n < card S"
  shows "\<exists>x \<in> S. card {c \<in> S. ord c < (ord x :: nat)} = n"
proof -
  let ?rank = "\<lambda>x. card {c \<in> S. ord c < ord x}"
  have "inj_on ?rank S" using rank_inj [OF assms(1) _ _ assms(2)] by (auto intro: inj_onI)
  then have "card (?rank ` S) = card S" by (rule card_image)
  moreover have "?rank ` S \<subseteq> {..<card S}" using rank_less [OF assms(1)] by auto
  ultimately have "?rank ` S = {..<card S}" by (simp add: card_subset_eq)
  with assms(3) show ?thesis by (metis (no_types, lifting) imageE lessThan_iff)
qed

lemma numPredecessors_iff:
  assumes "inj ord" and "finite {c. resolvedEdge ops owner c dst}"
  shows "numPredecessors ord ops dst owner n \<longleftrightarrow> n > 0 \<and> n = card {c. resolvedEdge ops owner c dst}"
proof -
  let ?S = "{c. resolvedEdge ops owner c dst}"
  note ordered = orderedPredecessors_iff [OF assms]
  have indices: "{k |c k. orderedPredecessors ord ops dst owner c k} = {..<card ?S}"
    using rank_less [OF assms(2)] rank_surj [OF assms(2,1)] unfolding ordered by blast
  have "is_max m {..<card ?S} \<longleftrightarrow> card ?S = m + 1" for m
    by (auto simp: is_max_def) (metis Suc_lessI lessThan_iff Suc_n_not_le_n)
  moreover have "(\<exists>src. orderedPredecessors ord ops dst owner src m) \<longleftrightarrow> m < card ?S" for m
    using indices by blast
  ultimately have "numPredecessors ord ops dst owner n \<longleftrightarrow> (\<exists>m. m < card ?S \<and> card ?S = m + 1 \<and> n = m + 1)"
    unfolding numPredecessors_def indices by blast
  then show ?thesis by (cases n) auto
qed

text \<open>The counting idiom of the program is a universal quantifier.\<close>

lemma predecessors_all:
  assumes "inj ord" and "finite {c. resolvedEdge ops owner c dst}" and "{c. resolvedEdge ops owner c dst} \<noteq> {}"
    and "\<And>c. resolvedEdge ops owner c dst \<Longrightarrow> mustHaveIntegrityTag ord ops rules c owner t"
  shows "predecessorsUpToOrderNumHaveIntegrityTag ord ops rules dst owner t (card {c. resolvedEdge ops owner c dst} - 1)"
proof -
  let ?S = "{c. resolvedEdge ops owner c dst}"
  have "predecessorsUpToOrderNumHaveIntegrityTag ord ops rules dst owner t n" if "n < card ?S" for n
    using that
  proof (induction n)
    case 0
    with rank_surj [OF assms(2,1)] obtain c where "c \<in> ?S" "orderedPredecessors ord ops dst owner c 0"
      unfolding orderedPredecessors_iff [OF assms(1,2)] by blast
    with assms(4) show ?case by (auto intro: predecessors_first)
  next
    case (Suc n)
    with rank_surj [OF assms(2,1)] obtain c where "c \<in> ?S" "orderedPredecessors ord ops dst owner c (n + 1)"
      unfolding orderedPredecessors_iff [OF assms(1,2)] by (metis Suc_eq_plus1)
    with assms(4) Suc predecessors_next [of ord ops rules dst owner t n c] show ?case by simp
  qed
  moreover have "card ?S > 0" using assms(2,3) by (simp add: card_gt_0_iff)
  ultimately show ?thesis by simp
qed

end
