(* ===== verification/Sql_Verifier_Correct.thy ===== *)
theory Sql_Verifier_Correct imports
  Sql_Verifier_Pass
  "HOL-Library.Countable"
begin

text \<open>
  The rules of the SQL policy verifier derive the tags of the reference pass: for the facts of operations
  in definition order, with rules that agree on the preconditions of a name.
\<close>

section \<open>Facts of a module\<close>

definition rules_consistent :: "dl_policy_rule list \<Rightarrow> bool" where
  "rules_consistent rules \<longleftrightarrow> (\<forall>r \<in> set rules. \<forall>s \<in> set rules. policyRuleName r = policyRuleName s \<longrightarrow>
     preconditionList r = preconditionList s)"

definition verifier_ready :: "string dl_operation list \<Rightarrow> bool" where
  "verifier_ready ops \<longleftrightarrow> defined_in_order ops \<and> (\<forall>op \<in> set ops. dl_actor op = DEFAULT_SQL_ACTOR \<and>
     distinct (map fst (dl_attributes op)) \<and>
     (\<forall>r \<in> set (dl_resultList op). r \<noteq> ''ArbitraryComputation'' \<and> CHR ''.'' \<notin> set r))"

lemma verifier_readyD:
  assumes "verifier_ready ops" and "op \<in> set ops"
  shows "dl_actor op = DEFAULT_SQL_ACTOR" and "distinct (map fst (dl_attributes op))"
    and "r \<in> set (dl_resultList op) \<Longrightarrow> r \<noteq> ''ArbitraryComputation'' \<and> CHR ''.'' \<notin> set r"
  using assms by (auto simp: verifier_ready_def)

lemma verifier_ready_result:
  assumes "verifier_ready ops" and "op \<in> set ops" and "r \<in> set (dl_resultList op)"
  shows "verifier_pass rules ops r = operation_tags rules ops (verifier_pass rules ops) op"
  using assms by (intro verifier_pass_result) (simp_all add: verifier_ready_def)

lemma tagged_is_result:
  assumes "t \<in> fst (verifier_pass rules ops x) \<or> t \<in> snd (verifier_pass rules ops x)"
  obtains op where "op \<in> set ops" "x \<in> set (dl_resultList op)"
  using assms verifier_pass_other [of x ops rules] by fastforce

text \<open>Results of later operations follow from operands that are results of earlier ones.\<close>

lemma definition_order_induct:
  assumes "defined_in_order ops" and "op \<in> set ops" and "r \<in> set (dl_resultList op)"
    and step: "\<And>op r. op \<in> set ops \<Longrightarrow> r \<in> set (dl_resultList op) \<Longrightarrow>
      (\<And>op' x. op' \<in> set ops \<Longrightarrow> x \<in> set (dl_operandList op) \<Longrightarrow> x \<in> set (dl_resultList op') \<Longrightarrow> P x) \<Longrightarrow> P r"
  shows "P r"
proof -
  have "\<forall>op \<in> set us. \<forall>r \<in> set (dl_resultList op). P r" if "ops = us @ vs" for us vs
    using that
  proof (induction us arbitrary: vs rule: rev_induct)
    case (snoc op us)
    then have IH: "\<forall>op \<in> set us. \<forall>r \<in> set (dl_resultList op). P r" and ops: "ops = us @ op # vs" by simp_all
    have earlier: "P x" if "op' \<in> set ops" "x \<in> set (dl_operandList op)" "x \<in> set (dl_resultList op')" for op' x
      using IH that defined_in_order_append(2) [OF assms(1) [unfolded ops], of op'] by (auto simp: ops)
    have "P r" if "r \<in> set (dl_resultList op)" for r
      by (rule step [OF _ that]) (simp add: ops, rule earlier)
    with IH show ?case by simp
  qed simp
  from this [of ops "[]"] assms(2,3) show ?thesis by simp
qed

section \<open>The relations on these facts\<close>

lemma attribute_lookup:
  assumes "verifier_ready ops" and "op \<in> set ops"
  shows "(name, a) \<in> set (dl_attributes op) \<longleftrightarrow> map_of (dl_attributes op) name = Some a"
  using verifier_readyD(2) [OF assms] by auto

lemma number_of_eq: "number_of op name = Some i \<longleftrightarrow> map_of (dl_attributes op) name = Some (Int64Attribute i)"
  by (auto simp: number_of_def split: option.splits attribute.splits)

lemma rule_name_of_eq: "rule_name_of op = Some r \<longleftrightarrow> map_of (dl_attributes op) kRuleNameAttribute = Some (StringAttribute r)"
  by (auto simp: rule_name_of_def split: option.splits attribute.splits)

lemma transform_iff:
  "verifier_ready ops \<Longrightarrow> isTagTransformOperation (set ops) op \<longleftrightarrow> op \<in> set ops \<and> dl_operator op = kTagTransformOp"
  using verifier_readyD(1) by (auto simp: isTagTransformOperation_def)

lemma rule_name_iff:
  "verifier_ready ops \<Longrightarrow> tagTransformHasRuleName (set ops) op r \<longleftrightarrow>
     op \<in> set ops \<and> dl_operator op = kTagTransformOp \<and> rule_name_of op = Some r"
  using attribute_lookup [of ops op]
  by (auto simp: tagTransformHasRuleName_def transform_iff operationHasAttribute_iff rule_name_of_eq)

lemma edge_iff:
  assumes "verifier_ready ops"
  shows "resolvedEdge (set ops) owner src tgt \<longleftrightarrow> owner = DEFAULT_SQL_ACTOR \<and> (\<exists>op \<in> set ops. tgt \<in> set (dl_resultList op) \<and>
     (if dl_operator op = kTagTransformOp then operand_at op 0 = Some src
      else src \<in> set (dl_operandList op) \<or> src = ''ArbitraryComputation''))" (is "_ \<longleftrightarrow> ?R")
proof
  show "resolvedEdge (set ops) owner src tgt \<Longrightarrow> ?R"
  proof (induction rule: resolvedEdge.induct)
    case (operand_edge op src i tgt)
    then have "op \<in> set ops" "tgt \<in> set (dl_resultList op)" "src \<in> set (dl_operandList op)" "dl_operator op \<noteq> kTagTransformOp"
      using in_operands [of op i src] by (simp_all add: hasSpecialEdgeRules_def)
    with verifier_readyD(1) [OF assms, of op] show ?case by (auto intro!: bexI [of _ op])
  next
    case (arbitrary_edge op tgt)
    with verifier_readyD(1) [OF assms, of op] show ?case by (auto simp: hasSpecialEdgeRules_def intro!: bexI [of _ op])
  next
    case (transform_edge op src tgt)
    then show ?case by (auto simp: isTagTransformOperation_def intro!: bexI [of _ op])
  qed
  assume ?R
  then obtain op where op: "owner = DEFAULT_SQL_ACTOR" "op \<in> set ops" "tgt \<in> set (dl_resultList op)"
    "if dl_operator op = kTagTransformOp then operand_at op 0 = Some src
      else src \<in> set (dl_operandList op) \<or> src = ''ArbitraryComputation''" by blast
  with verifier_readyD(1) [OF assms op(2)] operand_index [of src op]
    operand_edge [of op "set ops" src _ tgt] arbitrary_edge [of op "set ops" tgt] transform_edge [of "set ops" op src tgt]
  show "resolvedEdge (set ops) owner src tgt"
    by (auto simp: hasSpecialEdgeRules_def isTagTransformOperation_def split: if_splits)
qed

lemma finite_edges: "verifier_ready ops \<Longrightarrow> finite {c. resolvedEdge (set ops) owner c tgt}"
proof (rule finite_subset [where B = "insert ''ArbitraryComputation'' (\<Union>op \<in> set ops. set (dl_operandList op))"])
  show "verifier_ready ops \<Longrightarrow> {c. resolvedEdge (set ops) owner c tgt} \<subseteq>
      insert ''ArbitraryComputation'' (\<Union>op \<in> set ops. set (dl_operandList op))"
    by (auto simp: edge_iff dest: in_operands split: if_splits)
qed simp

text \<open>The index of a precondition counts from the end of its list.\<close>

lemma precondition_index_iff:
  "sqlPolicyRuleNameHasPreconditionAtIndex R name p i \<longleftrightarrow>
     (\<exists>rule \<in> R. policyRuleName rule = name \<and> i < length (preconditionList rule) \<and> rev (preconditionList rule) ! i = p)"
proof -
  have "(\<exists>rest. has_list_suffix ps (p # rest) \<and> i = length (p # rest) - 1) \<longleftrightarrow> i < length ps \<and> rev ps ! i = p" for ps
  proof
    show "\<exists>rest. has_list_suffix ps (p # rest) \<and> i = length (p # rest) - 1 \<Longrightarrow> i < length ps \<and> rev ps ! i = p"
      by (auto simp: has_list_suffix_iff nth_append)
    assume i: "i < length ps \<and> rev ps ! i = p"
    then have p: "ps ! (length ps - Suc i) = p" "length ps - Suc i < length ps" "Suc (length ps - Suc i) = length ps - i"
      by (auto simp: rev_nth Suc_diff_Suc)
    have "ps = take (length ps - Suc i) ps @ p # drop (length ps - i) ps"
      using id_take_nth_drop [OF p(2)] unfolding p(1,3) .
    moreover have "i = length (p # drop (length ps - i) ps) - 1" using i by simp
    ultimately show "\<exists>rest. has_list_suffix ps (p # rest) \<and> i = length (p # rest) - 1"
      unfolding has_list_suffix_iff by blast
  qed
  then show ?thesis
    unfolding sqlPolicyRuleNameHasPreconditionAtIndex_def sqlPolicyRuleNameHasPreconditionList_def by blast
qed

lemma indexed_precondition_iff:
  assumes "verifier_ready ops"
  shows "tagTransformHasIndexedTagPrecondition (set ops) (set rules) op i path required \<longleftrightarrow>
    op \<in> set ops \<and> dl_operator op = kTagTransformOp \<and> (\<exists>rule \<in> set (rules_of rules op). \<exists>name.
      i < length (preconditionList rule) \<and> rev (preconditionList rule) ! i = (name, required) \<and>
      name \<noteq> kRuleNameAttribute \<and> Option.bind (number_of op name) (operand_at op) = Some path)"
  unfolding tagTransformHasIndexedTagPrecondition_def rule_name_iff [OF assms] precondition_index_iff
  using attribute_lookup [OF assms, of op]
  by (auto simp: operationHasAttribute_iff rules_of_def bind_eq_Some_conv number_of_eq) blast

lemma modified_merge_iff:
  assumes "verifier_ready ops"
  shows "isModifiedPropagationMergeOp (set ops) op r \<longleftrightarrow> op \<in> set ops \<and> dl_operator op = kMergeOp \<and>
    (r = kIntersectItagRule \<or> r = kUnionItagRule) \<and> has_special_rule ops op r"
  unfolding isModifiedPropagationMergeOp_def rule_name_iff [OF assms]
  by (auto simp: isMergeOp_def has_special_rule_def list_ex_iff split: option.splits)

lemma control_start_iff:
  assumes "verifier_ready ops"
  shows "mergeOperationHasControlInputStartIndex (set ops) op i \<longleftrightarrow> op \<in> set ops \<and> dl_operator op = kMergeOp \<and>
    number_of op kControlInputStartIndex = Some i"
  using attribute_lookup [OF assms, of op]
  by (auto simp: mergeOperationHasControlInputStartIndex_def isMergeOp_def operationHasAttribute_iff number_of_eq)

section \<open>Integrity tags\<close>

lemma direct_input_iff:
  assumes "verifier_ready ops"
  shows "isMergeOperationDirectInput (set ops) op x \<longleftrightarrow> op \<in> set ops \<and> dl_operator op = kMergeOp \<and>
    (\<exists>n i. number_of op kControlInputStartIndex = Some n \<and> i < n \<and> operand_at op i = Some x)"
  by (auto simp: isMergeOperationDirectInput_def isMergeOp_def control_start_iff [OF assms])

lemma direct_inputs_set:
  assumes "number_of op kControlInputStartIndex = Some n"
  shows "x \<in> set (direct_inputs op) \<longleftrightarrow> (\<exists>i < n. operand_at op i = Some x)"
proof -
  have xs: "direct_inputs op = take (nat n) (dl_operandList op)" by (simp add: direct_inputs_def assms)
  show ?thesis
  proof
    assume "x \<in> set (direct_inputs op)"
    then obtain k where "k < length (direct_inputs op)" "direct_inputs op ! k = x" by (auto simp: in_set_conv_nth)
    then have "operand_at op (int k) = Some x" "int k < n" by (auto simp: xs operand_at_def)
    then show "\<exists>i < n. operand_at op i = Some x" by blast
  next
    assume "\<exists>i < n. operand_at op i = Some x"
    then obtain i where i: "i < n" "0 \<le> i" "nat i < length (dl_operandList op)" "dl_operandList op ! nat i = x"
      by (auto simp: operand_at_def split: if_splits)
    then have "nat i < length (direct_inputs op)" "direct_inputs op ! nat i = x" by (auto simp: xs)
    then show "x \<in> set (direct_inputs op)" by (metis nth_mem)
  qed
qed

lemma ordered_unique:
  assumes "verifier_ready ops" and "inj ord"
    and "orderedPredecessors ord (set ops) p owner c k" and "orderedPredecessors ord (set ops) p owner c' k"
  shows "c = c'"
  using assms(3,4) rank_inj [OF finite_edges [OF assms(1)] _ _ assms(2), of c owner p c']
  by (simp add: orderedPredecessors_iff [OF assms(2) finite_edges [OF assms(1)]])

lemma transform_active:
  assumes "rule \<in> set (rules_of rules op)" and "list_all (precondition_met env op) (preconditionList rule)"
    and "sqlPolicyRuleNameHasResult (set rules) name res" and "rule_name_of op = Some name"
  shows "res \<in> set (active_results rules env op)"
proof -
  from assms(3,4) obtain r where r: "r \<in> set (rules_of rules op)" "rule_result r = res"
    by (auto simp: sqlPolicyRuleNameHasResult_def rules_of_def)
  moreover have "active_results rules env op = map rule_result (rules_of rules op)"
    using assms(1,2) by (auto simp: active_results_def list_ex_iff)
  ultimately show ?thesis by auto
qed

lemma rules_of_consistent:
  assumes "rules_consistent rules" and "r \<in> set (rules_of rules op)" and "s \<in> set (rules_of rules op)"
  shows "preconditionList r = preconditionList s"
proof -
  have "r \<in> set rules" "s \<in> set rules" "policyRuleName r = policyRuleName s"
    using assms(2,3) by (simp_all add: rules_of_def)
  with assms(1) show ?thesis unfolding rules_consistent_def by blast
qed

text \<open>What the four predicates that are derived together say of the tags of the pass.\<close>

lemma integrity_sound:
  assumes ready: "verifier_ready ops" and cons: "rules_consistent rules" and ord: "inj ord"
  defines "env \<equiv> verifier_pass rules ops"
  shows "mustHaveIntegrityTag ord (set ops) (set rules) p owner t \<Longrightarrow> t \<in> snd (env p)"
    and "predecessorsUpToOrderNumHaveIntegrityTag ord (set ops) (set rules) p owner t n \<Longrightarrow>
      \<forall>c k. k \<le> n \<longrightarrow> orderedPredecessors ord (set ops) p owner c k \<longrightarrow> t \<in> snd (env c)"
    and "allTagTransformPreconditionsLessThanIndexMet ord (set ops) (set rules) op n \<Longrightarrow>
      \<forall>i < n. \<exists>path required. tagTransformHasIndexedTagPrecondition (set ops) (set rules) op i path required \<and>
        required \<in> snd (env path)"
    and "allTagTransformPreconditionsMet ord (set ops) (set rules) op \<Longrightarrow>
      \<exists>rule \<in> set (rules_of rules op). list_all (precondition_met env op) (preconditionList rule)"
    and "mergeOperationHasIntegrityTagOnDirectOperandsUpToIndex ord (set ops) (set rules) op t n \<Longrightarrow>
      \<forall>i \<le> n. \<exists>x. operand_at op (int i) = Some x \<and> t \<in> snd (env x)"
proof (induction rule: mustHaveIntegrityTag_predecessorsUpToOrderNumHaveIntegrityTag_allTagTransformPreconditionsLessThanIndexMet_allTagTransformPreconditionsMet_mergeOperationHasIntegrityTagOnDirectOperandsUpToIndex.inducts)
  case (predecessors_first ap owner pred t)
  with ordered_unique [OF ready ord] show ?case by blast
next
  case (predecessors_next ap owner t n pred)
  show ?case
  proof (intro allI impI)
    fix c k assume k: "k \<le> n + 1" "orderedPredecessors ord (set ops) ap owner c k"
    show "t \<in> snd (env c)"
    proof (cases "k = n + 1")
      case True
      with k(2) predecessors_next have "c = pred" using ordered_unique [OF ready ord] by blast
      with predecessors_next show ?thesis by blast
    next
      case False
      with k have "k \<le> n" by simp
      with predecessors_next k(2) show ?thesis by blast
    qed
  qed
next
  case (all_predecessors ap t owner n)
  let ?S = "{c. resolvedEdge (set ops) owner c ap}"
  from all_predecessors have n: "n = card ?S" "n > 0" by (simp_all add: numPredecessors_iff [OF ord finite_edges [OF ready]])
  have tagged: "t \<in> snd (env c)" if "resolvedEdge (set ops) owner c ap" for c
    using all_predecessors that rank_less [OF finite_edges [OF ready], of c owner ap ord] n
    by (auto simp: orderedPredecessors_iff [OF ord finite_edges [OF ready]])
  from n obtain c where "resolvedEdge (set ops) owner c ap" by (metis card_gt_0_iff equals0I mem_Collect_eq)
  then obtain op where op: "owner = DEFAULT_SQL_ACTOR" "op \<in> set ops" "ap \<in> set (dl_resultList op)"
    "dl_operator op = kTagTransformOp \<Longrightarrow> operand_at op 0 = Some c"
    by (auto simp: edge_iff [OF ready] split: if_splits)
  show ?case
  proof (cases "dl_operator op = kTagTransformOp")
    case True
    have "t \<in> snd (env c)" using \<open>resolvedEdge (set ops) owner c ap\<close> by (rule tagged)
    with op(4) True show ?thesis
      unfolding env_def verifier_ready_result [OF ready op(2,3)]
      by (auto simp: operation_tags_def transform_tags_def Let_def)
  next
    case False
    with op have "resolvedEdge (set ops) owner ''ArbitraryComputation'' ap" by (auto simp: edge_iff [OF ready])
    from tagged [OF this] show ?thesis
      unfolding env_def using verifier_readyD(3) [OF ready] by (metis tagged_is_result)
  qed
next
  case (preconditions_next op idx path required)
  then show ?case by (auto simp: less_Suc_eq)
next
  case (preconditions_met op ruleName ps)
  from preconditions_met obtain rule where rule: "rule \<in> set (rules_of rules op)" "preconditionList rule = ps"
    by (auto simp: sqlPolicyRuleNameHasPreconditionList_def rule_name_iff [OF ready] rules_of_def)
  have "precondition_met env op (rev ps ! i)" if "i < length ps" for i
  proof -
    from preconditions_met that obtain path required where
      "tagTransformHasIndexedTagPrecondition (set ops) (set rules) op i path required" "required \<in> snd (env path)" by blast
    then obtain rule' name where rule': "rule' \<in> set (rules_of rules op)" "rev (preconditionList rule') ! i = (name, required)"
      "name \<noteq> kRuleNameAttribute" "Option.bind (number_of op name) (operand_at op) = Some path" "required \<in> snd (env path)"
      by (auto simp: indexed_precondition_iff [OF ready])
    moreover have "preconditionList rule' = ps"
      using rules_of_consistent [OF cons rule'(1) rule(1)] rule(2) by simp
    ultimately show ?thesis by (simp add: precondition_met_def)
  qed
  then have "list_all (precondition_met env op) (rev ps)" by (simp add: list_all_length)
  with rule show ?case by auto
next
  case (transform_adds op res ruleName t)
  then have op: "op \<in> set ops" "dl_operator op = kTagTransformOp" "rule_name_of op = Some ruleName" "res \<in> set (dl_resultList op)"
    by (simp_all add: rule_name_iff [OF ready])
  from transform_adds obtain rule where "rule \<in> set (rules_of rules op)" "list_all (precondition_met env op) (preconditionList rule)"
    and "sqlPolicyRuleNameHasResult (set rules) ruleName (AddIntegrityTag t)" by blast
  from transform_active [OF this op(3)] have "AddIntegrityTag t \<in> set (active_results rules env op)" .
  with op(2) show ?case
    unfolding env_def verifier_ready_result [OF ready op(1,4)]
    by (auto simp: operation_tags_def transform_tags_def Let_def)
next
  case (merge_union op res x t)
  then have op: "op \<in> set ops" "dl_operator op = kMergeOp" "has_special_rule ops op kUnionItagRule" "res \<in> set (dl_resultList op)"
    by (simp_all add: modified_merge_iff [OF ready])
  from merge_union obtain n i where "number_of op kControlInputStartIndex = Some n" "i < n" "operand_at op i = Some x"
    by (auto simp: direct_input_iff [OF ready])
  with direct_inputs_set [of op n x] have "x \<in> set (direct_inputs op)" by blast
  with op(2,3) merge_union show ?case
    unfolding env_def verifier_ready_result [OF ready op(1,4)]
    by (auto simp: operation_tags_def merge_integrity_def Let_def kMergeOp_def kTagTransformOp_def)
next
  case (merge_intersect op actor res t idx)
  then have op: "op \<in> set ops" "dl_operator op = kMergeOp" "has_special_rule ops op kIntersectItagRule" "res \<in> set (dl_resultList op)"
    by (simp_all add: modified_merge_iff [OF ready])
  have start: "number_of op kControlInputStartIndex = Some (int idx + 1)"
    using merge_intersect by (simp add: control_start_iff [OF ready])
  from merge_intersect have at: "\<exists>x. operand_at op (int i) = Some x \<and> t \<in> snd (env x)" if "i \<le> idx" for i using that by blast
  from at [of idx] have len: "length (direct_inputs op) = idx + 1"
    by (auto simp: direct_inputs_def start operand_at_def nat_add_distrib split: if_splits)
  have "t \<in> snd (env x)" if "x \<in> set (direct_inputs op)" for x
  proof -
    from that obtain i where "i < int idx + 1" "operand_at op i = Some x" by (auto simp: direct_inputs_set [OF start])
    moreover from this(2) have "0 \<le> i" by (auto simp: operand_at_def split: if_splits)
    ultimately show ?thesis using at [of "nat i"] by auto
  qed
  with op(2,3) len start show ?case
    unfolding env_def verifier_ready_result [OF ready op(1,4)]
    by (auto simp: operation_tags_def merge_integrity_def Let_def kMergeOp_def kTagTransformOp_def)
qed (auto simp: le_Suc_eq add.commute)

lemma integrity_tag_known:
  "mustHaveIntegrityTag ord D R p owner t \<Longrightarrow> isIntegrityTag R t"
  "predecessorsUpToOrderNumHaveIntegrityTag ord D R p owner t n \<Longrightarrow> True"
  "allTagTransformPreconditionsLessThanIndexMet ord D R op n \<Longrightarrow> True"
  "allTagTransformPreconditionsMet ord D R op \<Longrightarrow> True"
  "mergeOperationHasIntegrityTagOnDirectOperandsUpToIndex ord D R op t n \<Longrightarrow> isIntegrityTag R t"
  by (induction rule: mustHaveIntegrityTag_predecessorsUpToOrderNumHaveIntegrityTag_allTagTransformPreconditionsLessThanIndexMet_allTagTransformPreconditionsMet_mergeOperationHasIntegrityTagOnDirectOperandsUpToIndex.inducts)
    (auto simp: isIntegrityTag_def)

lemma result_unique:
  assumes "verifier_ready ops" and "op \<in> set ops" and "op' \<in> set ops"
    and "r \<in> set (dl_resultList op)" and "r \<in> set (dl_resultList op')"
  shows "op = op'"
proof -
  have "distinct (concat (map dl_resultList ops))" using assms(1) by (simp add: verifier_ready_def defined_in_order_def)
  then show ?thesis using assms(2-5) by (induction ops) auto
qed

lemma edges_of_result:
  assumes "verifier_ready ops" and "op \<in> set ops" and "r \<in> set (dl_resultList op)"
  shows "resolvedEdge (set ops) owner c r \<longleftrightarrow> owner = DEFAULT_SQL_ACTOR \<and> (if dl_operator op = kTagTransformOp
    then operand_at op 0 = Some c else c \<in> set (dl_operandList op) \<or> c = ''ArbitraryComputation'')"
proof -
  have "op' = op" if "op' \<in> set ops" "r \<in> set (dl_resultList op')" for op'
    using result_unique [OF assms(1) that(1) assms(2) that(2) assms(3)] .
  then show ?thesis unfolding edge_iff [OF assms(1)] using assms(2,3) by metis
qed

lemma preconditions_complete:
  assumes ready: "verifier_ready ops" and op: "op \<in> set ops" "dl_operator op = kTagTransformOp"
    and operands: "\<And>x t. x \<in> set (dl_operandList op) \<Longrightarrow> t \<in> snd (env x) \<Longrightarrow>
      mustHaveIntegrityTag ord (set ops) (set rules) x DEFAULT_SQL_ACTOR t"
    and rule: "rule \<in> set (rules_of rules op)" "list_all (precondition_met env op) (preconditionList rule)"
  shows "allTagTransformPreconditionsMet ord (set ops) (set rules) op"
proof -
  let ?ps = "preconditionList rule"
  have "allTagTransformPreconditionsLessThanIndexMet ord (set ops) (set rules) op n" if "n \<le> length ?ps" for n
    using that
  proof (induction n)
    case 0
    show ?case using op by (intro preconditions_none) (simp add: transform_iff [OF ready])
  next
    case (Suc n)
    obtain name required where p: "rev ?ps ! n = (name, required)" by (cases "rev ?ps ! n")
    have "(name, required) \<in> set ?ps" using Suc.prems p by (metis Suc_le_lessD length_rev nth_mem set_rev)
    with rule(2) obtain path where path: "name \<noteq> kRuleNameAttribute" "required \<in> snd (env path)"
      "Option.bind (number_of op name) (operand_at op) = Some path"
      by (fastforce simp: list_all_iff precondition_met_def split: option.splits)
    then have "path \<in> set (dl_operandList op)" by (auto simp: bind_eq_Some_conv dest: in_operands)
    with operands path(2) have must: "mustHaveIntegrityTag ord (set ops) (set rules) path DEFAULT_SQL_ACTOR required" by blast
    have "tagTransformHasIndexedTagPrecondition (set ops) (set rules) op n path required"
      unfolding indexed_precondition_iff [OF ready] using op rule(1) p path Suc.prems by (auto intro!: bexI [of _ rule])
    from preconditions_next [OF _ this must Suc.IH] Suc.prems op show ?case by (simp add: transform_iff [OF ready])
  qed
  from this [of "length ?ps"] rule(1) op show ?thesis
    by (intro preconditions_met [where ruleName = "policyRuleName rule" and ps = ?ps])
      (auto simp: transform_iff [OF ready] rule_name_iff [OF ready] rules_of_def sqlPolicyRuleNameHasPreconditionList_def)
qed

lemma integrity_complete_step:
  assumes ready: "verifier_ready ops" and ord: "inj ord" and op: "op \<in> set ops" "r \<in> set (dl_resultList op)"
    and t: "t \<in> snd (operation_tags rules ops env op)"
    and operands: "\<And>x t. x \<in> set (dl_operandList op) \<Longrightarrow> t \<in> snd (env x) \<Longrightarrow>
      mustHaveIntegrityTag ord (set ops) (set rules) x DEFAULT_SQL_ACTOR t"
  shows "mustHaveIntegrityTag ord (set ops) (set rules) r DEFAULT_SQL_ACTOR t"
proof -
  note actor = verifier_readyD(1) [OF ready op(1)]
  have principal: "isPrincipal (set ops) DEFAULT_SQL_ACTOR" using op(1) actor by (auto simp: isPrincipal_def)
  consider (copied) x where "dl_operator op = kTagTransformOp" "operand_at op 0 = Some x" "t \<in> snd (env x)"
    | (added) "dl_operator op = kTagTransformOp" "AddIntegrityTag t \<in> set (active_results rules env op)"
    | (union) x where "dl_operator op = kMergeOp" "has_special_rule ops op kUnionItagRule" "x \<in> set (direct_inputs op)" "t \<in> snd (env x)"
    | (intersect) "dl_operator op = kMergeOp" "has_special_rule ops op kIntersectItagRule" "direct_inputs op \<noteq> []"
        "number_of op kControlInputStartIndex = Some (int (length (direct_inputs op)))" "\<forall>x \<in> set (direct_inputs op). t \<in> snd (env x)"
    using t by (auto simp: operation_tags_def transform_tags_def merge_integrity_def Let_def split: if_splits option.splits)
  then show ?thesis
  proof cases
    case (copied x)
    have edges: "{c. resolvedEdge (set ops) DEFAULT_SQL_ACTOR c r} = {x}"
      using edges_of_result [OF ready op] copied(1,2) by auto
    note must = operands [OF in_operands [OF copied(2)] copied(3)]
    have fin: "finite {c. resolvedEdge (set ops) DEFAULT_SQL_ACTOR c r}" by (simp add: edges)
    have only: "c = x" if "resolvedEdge (set ops) DEFAULT_SQL_ACTOR c r" for c using that edges by blast
    have "predecessorsUpToOrderNumHaveIntegrityTag ord (set ops) (set rules) r DEFAULT_SQL_ACTOR t
        (card {c. resolvedEdge (set ops) DEFAULT_SQL_ACTOR c r} - 1)"
      by (rule predecessors_all [OF ord fin]) (simp add: edges, drule only, simp add: must)
    moreover have "numPredecessors ord (set ops) r DEFAULT_SQL_ACTOR 1" by (simp add: numPredecessors_iff [OF ord fin] edges)
    moreover have "isAccessPath (set ops) r" using op by (auto simp: isAccessPath_def)
    ultimately show ?thesis
      using integrity_tag_known(1) [OF must] principal edges by (intro all_predecessors [where n = 1]) simp_all
  next
    case added
    then obtain rule rule' where rule: "rule \<in> set (rules_of rules op)" "list_all (precondition_met env op) (preconditionList rule)"
      and rule': "rule' \<in> set (rules_of rules op)" "rule_result rule' = AddIntegrityTag t"
      by (auto simp: active_results_def list_ex_iff split: if_splits)
    from preconditions_complete [OF ready op(1) added(1) operands rule]
    have "allTagTransformPreconditionsMet ord (set ops) (set rules) op" .
    with op added(1) rule' show ?thesis
      by (intro transform_adds [where op = op and ruleName = "policyRuleName rule'"])
        (auto simp: transform_iff [OF ready] rule_name_iff [OF ready] rules_of_def sqlPolicyRuleNameHasResult_def)
  next
    case (union x)
    then obtain n where n: "number_of op kControlInputStartIndex = Some n"
      by (cases "number_of op kControlInputStartIndex") (simp_all add: direct_inputs_def)
    with union(3) direct_inputs_set [of op n x] obtain i where i: "i < n" "operand_at op i = Some x" by blast
    show ?thesis
    proof (rule merge_union [where mergeOp = op and x = x])
      show "isModifiedPropagationMergeOp (set ops) op kUnionItagRule" using op(1) union(1,2) by (simp add: modified_merge_iff [OF ready])
      show "operationHasResult (set ops) op r" using op by simp
      show "isMergeOperationDirectInput (set ops) op x" using op(1) union(1) n i by (auto simp: direct_input_iff [OF ready])
      show "mustHaveIntegrityTag ord (set ops) (set rules) x DEFAULT_SQL_ACTOR t"
        by (rule operands [OF in_operands [OF i(2)] union(4)])
    qed
  next
    case intersect
    let ?n = "length (direct_inputs op)"
    note at_set = direct_inputs_set [OF intersect(4)]
    have at: "\<exists>x. operand_at op (int i) = Some x \<and> mustHaveIntegrityTag ord (set ops) (set rules) x (dl_actor op) t \<and>
        isMergeOperationDirectInput (set ops) op x" if i: "i < ?n" for i
    proof -
      have "?n \<le> length (dl_operandList op)" by (simp add: direct_inputs_def split: option.split)
      with i obtain x where x: "operand_at op (int i) = Some x" by (simp add: operand_at_def)
      with that have "x \<in> set (direct_inputs op)" using at_set [of x] by auto
      with intersect(5) operands in_operands [OF x] have "mustHaveIntegrityTag ord (set ops) (set rules) x (dl_actor op) t"
        by (simp add: actor)
      moreover have "int i < int ?n" using i by simp
      ultimately show ?thesis using x op(1) intersect(1,4) unfolding direct_input_iff [OF ready] by blast
    qed
    have merge: "isMergeOp (set ops) op" using op(1) intersect(1) by (simp add: isMergeOp_def)
    have upto: "mergeOperationHasIntegrityTagOnDirectOperandsUpToIndex ord (set ops) (set rules) op t i" if "i < ?n" for i
      using that
    proof (induction i)
      case 0
      with at obtain x where "operand_at op 0 = Some x" "mustHaveIntegrityTag ord (set ops) (set rules) x (dl_actor op) t"
        "isMergeOperationDirectInput (set ops) op x" by fastforce
      with op(1) show ?case by (intro direct_first [OF merge, of x]) simp_all
    next
      case (Suc i)
      with at [of "Suc i"] obtain x where "operand_at op (int i + 1) = Some x" "isMergeOperationDirectInput (set ops) op x"
        "mustHaveIntegrityTag ord (set ops) (set rules) x (dl_actor op) t" by (auto simp: add.commute)
      with Suc op(1) direct_next [OF merge, of ord "set rules" t i x] show ?case by simp
    qed
    have pos: "0 < ?n" using intersect(3) by simp
    then have last: "int (?n - 1) + 1 = int ?n" by linarith
    show ?thesis
    proof (rule merge_intersect [OF _ principal])
      show "isModifiedPropagationMergeOp (set ops) op kIntersectItagRule" using op(1) intersect(1,2) by (simp add: modified_merge_iff [OF ready])
      show "operationHasResult (set ops) op r" using op by simp
      show "mergeOperationHasIntegrityTagOnDirectOperandsUpToIndex ord (set ops) (set rules) op t (?n - 1)" using upto pos by simp
      show "mergeOperationHasControlInputStartIndex (set ops) op (int (?n - 1) + 1)"
        using op(1) intersect(1,4) last unfolding control_start_iff [OF ready] by simp
    qed
  qed
qed

lemma integrity_tags_iff:
  assumes ready: "verifier_ready ops" and cons: "rules_consistent rules" and ord: "inj ord"
  shows "mustHaveIntegrityTag ord (set ops) (set rules) p DEFAULT_SQL_ACTOR t \<longleftrightarrow> t \<in> snd (verifier_pass rules ops p)"
proof
  show "mustHaveIntegrityTag ord (set ops) (set rules) p DEFAULT_SQL_ACTOR t \<Longrightarrow> t \<in> snd (verifier_pass rules ops p)"
    by (rule integrity_sound(1) [OF assms])
  assume t: "t \<in> snd (verifier_pass rules ops p)"
  then obtain op where op: "op \<in> set ops" "p \<in> set (dl_resultList op)" using tagged_is_result by metis
  have "defined_in_order ops" using ready by (simp add: verifier_ready_def)
  then have "\<forall>t. t \<in> snd (verifier_pass rules ops p) \<longrightarrow> mustHaveIntegrityTag ord (set ops) (set rules) p DEFAULT_SQL_ACTOR t"
    using op
  proof (rule definition_order_induct)
    fix op r
    assume op: "op \<in> set ops" "r \<in> set (dl_resultList op)" and earlier: "\<And>op' x. op' \<in> set ops \<Longrightarrow> x \<in> set (dl_operandList op) \<Longrightarrow>
      x \<in> set (dl_resultList op') \<Longrightarrow> \<forall>t. t \<in> snd (verifier_pass rules ops x) \<longrightarrow> mustHaveIntegrityTag ord (set ops) (set rules) x DEFAULT_SQL_ACTOR t"
    have operands: "mustHaveIntegrityTag ord (set ops) (set rules) x DEFAULT_SQL_ACTOR t"
      if "x \<in> set (dl_operandList op)" "t \<in> snd (verifier_pass rules ops x)" for x t
      using that earlier tagged_is_result [of t rules ops x] by metis
    show "\<forall>t. t \<in> snd (verifier_pass rules ops r) \<longrightarrow> mustHaveIntegrityTag ord (set ops) (set rules) r DEFAULT_SQL_ACTOR t"
      unfolding verifier_ready_result [OF ready op] using integrity_complete_step [OF ready ord op _ operands] by blast
  qed
  with t show "mustHaveIntegrityTag ord (set ops) (set rules) p DEFAULT_SQL_ACTOR t" by blast
qed

lemma transform_results_iff:
  assumes ready: "verifier_ready ops" and cons: "rules_consistent rules" and ord: "inj ord"
    and op: "op \<in> set ops" "dl_operator op = kTagTransformOp"
  shows "(\<exists>name. tagTransformHasRuleName (set ops) op name \<and> allTagTransformPreconditionsMet ord (set ops) (set rules) op \<and>
      sqlPolicyRuleNameHasResult (set rules) name res) \<longleftrightarrow> res \<in> set (active_results rules (verifier_pass rules ops) op)"
proof
  assume "\<exists>name. tagTransformHasRuleName (set ops) op name \<and> allTagTransformPreconditionsMet ord (set ops) (set rules) op \<and>
      sqlPolicyRuleNameHasResult (set rules) name res"
  then obtain name rule where "rule_name_of op = Some name" "sqlPolicyRuleNameHasResult (set rules) name res"
    "rule \<in> set (rules_of rules op)" "list_all (precondition_met (verifier_pass rules ops) op) (preconditionList rule)"
    using integrity_sound(4) [OF ready cons ord] unfolding rule_name_iff [OF ready] by blast
  with transform_active show "res \<in> set (active_results rules (verifier_pass rules ops) op)" by metis
next
  assume "res \<in> set (active_results rules (verifier_pass rules ops) op)"
  then obtain rule rule' where rule: "rule \<in> set (rules_of rules op)"
    "list_all (precondition_met (verifier_pass rules ops) op) (preconditionList rule)"
    and rule': "rule' \<in> set (rules_of rules op)" "rule_result rule' = res"
    by (auto simp: active_results_def list_ex_iff split: if_splits)
  have "allTagTransformPreconditionsMet ord (set ops) (set rules) op"
    by (rule preconditions_complete [OF ready op _ rule]) (simp add: integrity_tags_iff [OF ready cons ord])
  with rule' op show "\<exists>name. tagTransformHasRuleName (set ops) op name \<and> allTagTransformPreconditionsMet ord (set ops) (set rules) op \<and>
      sqlPolicyRuleNameHasResult (set rules) name res"
    by (auto simp: rule_name_iff [OF ready] rules_of_def sqlPolicyRuleNameHasResult_def)
qed

section \<open>Confidentiality tags\<close>

lemma has_remove_iff:
  assumes ready: "verifier_ready ops" and cons: "rules_consistent rules" and ord: "inj ord"
    and op: "op \<in> set ops" "r \<in> set (dl_resultList op)"
  shows "hasTag ord (set ops) (set rules) r owner t \<longleftrightarrow> owner = DEFAULT_SQL_ACTOR \<and> dl_operator op = kTagTransformOp \<and>
      AddConfidentialityTag t \<in> set (active_results rules (verifier_pass rules ops) op)"
    and "removeTag ord (set ops) (set rules) r owner t \<longleftrightarrow> owner = DEFAULT_SQL_ACTOR \<and> dl_operator op = kTagTransformOp \<and>
      RemoveConfidentialityTag t \<in> set (active_results rules (verifier_pass rules ops) op)"
proof -
  note iff = transform_results_iff [OF ready cons ord op(1)]
  have key: "(\<exists>op' name. isTagTransformOperation (set ops) op' \<and> operationHasResult (set ops) op' r \<and>
      tagTransformHasRuleName (set ops) op' name \<and> allTagTransformPreconditionsMet ord (set ops) (set rules) op' \<and>
      sqlPolicyRuleNameHasResult (set rules) name res) \<longleftrightarrow>
    dl_operator op = kTagTransformOp \<and> res \<in> set (active_results rules (verifier_pass rules ops) op)" (is "?L \<longleftrightarrow> ?R") for res
  proof
    assume ?L
    then obtain op' name where op': "op' \<in> set ops" "dl_operator op' = kTagTransformOp" "r \<in> set (dl_resultList op')"
      "tagTransformHasRuleName (set ops) op' name" "allTagTransformPreconditionsMet ord (set ops) (set rules) op'"
      "sqlPolicyRuleNameHasResult (set rules) name res"
      unfolding transform_iff [OF ready] operationHasResult_iff by blast
    have "op' = op" by (rule result_unique [OF ready op'(1) op(1) op'(3) op(2)])
    with iff [of res] op' show ?R by blast
  next
    assume ?R
    with iff [of res] op show ?L unfolding transform_iff [OF ready] operationHasResult_iff by blast
  qed
  show "hasTag ord (set ops) (set rules) r owner t \<longleftrightarrow> owner = DEFAULT_SQL_ACTOR \<and> dl_operator op = kTagTransformOp \<and>
      AddConfidentialityTag t \<in> set (active_results rules (verifier_pass rules ops) op)"
    unfolding hasTag_def key ..
  show "removeTag ord (set ops) (set rules) r owner t \<longleftrightarrow> owner = DEFAULT_SQL_ACTOR \<and> dl_operator op = kTagTransformOp \<and>
      RemoveConfidentialityTag t \<in> set (active_results rules (verifier_pass rules ops) op)"
    unfolding removeTag_def key ..
qed

lemma hasTag_result: "hasTag ord D R p owner t \<Longrightarrow> \<exists>op \<in> D. p \<in> set (dl_resultList op)"
  by (auto simp: hasTag_def)

lemma confidentiality_sound:
  assumes ready: "verifier_ready ops" and cons: "rules_consistent rules" and ord: "inj ord"
    and "mayHaveTag ord (set ops) (set rules) p owner t"
  shows "owner = DEFAULT_SQL_ACTOR \<and> t \<in> fst (verifier_pass rules ops p)"
  using assms(4)
proof (induction rule: mayHaveTag.induct)
  case (has tgt owner tag)
  with hasTag_result obtain op where op: "op \<in> set ops" "tgt \<in> set (dl_resultList op)" by blast
  with has has_remove_iff(1) [OF ready cons ord op] show ?case
    unfolding verifier_ready_result [OF ready op] by (auto simp: operation_tags_def transform_tags_def Let_def)
next
  case (flows owner src tgt tag)
  from flows(1) obtain op where op: "op \<in> set ops" "tgt \<in> set (dl_resultList op)" by (auto simp: edge_iff [OF ready])
  note eq = verifier_ready_result [OF ready op, of rules]
  show ?case
  proof (cases "dl_operator op = kTagTransformOp")
    case True
    with flows(1) have "operand_at op 0 = Some src" by (simp add: edges_of_result [OF ready op])
    moreover have "RemoveConfidentialityTag tag \<notin> set (active_results rules (verifier_pass rules ops) op)"
      using flows(3,4) True has_remove_iff(2) [OF ready cons ord op] by blast
    ultimately show ?thesis using True flows(4)
      unfolding eq by (auto simp: operation_tags_def transform_tags_def Let_def)
  next
    case False
    with flows(1) have "src \<in> set (dl_operandList op) \<or> src = ''ArbitraryComputation''" by (simp add: edges_of_result [OF ready op])
    moreover have "src \<noteq> ''ArbitraryComputation''"
      using flows(4) verifier_readyD(3) [OF ready] tagged_is_result by metis
    ultimately show ?thesis using False flows(4) unfolding eq by (auto simp: operation_tags_def)
  qed
next
  case (member base mem owner tag)
  then obtain op where "op \<in> set ops" "mem \<in> set (dl_resultList op)" using tagged_is_result by metis
  with verifier_readyD(3) [OF ready] have "CHR ''.'' \<notin> set mem" by blast
  moreover have "base @ ''.'' = take (length base + 1) mem" using member(4) by (simp add: isMemberOf_def)
  then have "CHR ''.'' \<in> set mem" by (metis in_set_takeD in_set_conv_decomp)
  ultimately show ?case by blast
qed

lemma confidentiality_tags_iff:
  assumes ready: "verifier_ready ops" and cons: "rules_consistent rules" and ord: "inj ord"
  shows "mayHaveTag ord (set ops) (set rules) p DEFAULT_SQL_ACTOR t \<longleftrightarrow> t \<in> fst (verifier_pass rules ops p)"
proof
  show "mayHaveTag ord (set ops) (set rules) p DEFAULT_SQL_ACTOR t \<Longrightarrow> t \<in> fst (verifier_pass rules ops p)"
    using confidentiality_sound [OF assms] by blast
  let ?env = "verifier_pass rules ops" and ?may = "\<lambda>p t. mayHaveTag ord (set ops) (set rules) p DEFAULT_SQL_ACTOR t"
  assume t: "t \<in> fst (?env p)"
  then obtain op where op: "op \<in> set ops" "p \<in> set (dl_resultList op)" using tagged_is_result by metis
  have "defined_in_order ops" using ready by (simp add: verifier_ready_def)
  then have "\<forall>t. t \<in> fst (?env p) \<longrightarrow> ?may p t"
    using op
  proof (rule definition_order_induct, intro allI impI)
    fix op r t
    assume op: "op \<in> set ops" "r \<in> set (dl_resultList op)" and t: "t \<in> fst (?env r)"
      and earlier: "\<And>op' x. op' \<in> set ops \<Longrightarrow> x \<in> set (dl_operandList op) \<Longrightarrow> x \<in> set (dl_resultList op') \<Longrightarrow>
        \<forall>t. t \<in> fst (?env x) \<longrightarrow> ?may x t"
    have operands: "?may x t" if "x \<in> set (dl_operandList op)" "t \<in> fst (?env x)" for x t
      using that earlier tagged_is_result [of t rules ops x] by metis
    note iffs = has_remove_iff [OF ready cons ord op]
    show "?may r t"
    proof (cases "hasTag ord (set ops) (set rules) r DEFAULT_SQL_ACTOR t")
      case True
      then show ?thesis by (rule mayHaveTag.has)
    next
      case False
      from t False obtain x where x: "t \<in> fst (?env x)" "resolvedEdge (set ops) DEFAULT_SQL_ACTOR x r" "x \<in> set (dl_operandList op)"
        "\<not> removeTag ord (set ops) (set rules) r DEFAULT_SQL_ACTOR t"
        unfolding verifier_ready_result [OF ready op, of rules] iffs edges_of_result [OF ready op]
        by (auto simp: operation_tags_def transform_tags_def Let_def dest: in_operands split: if_splits option.splits)
      from mayHaveTag.flows [OF x(2) operands [OF x(3,1)] x(4)] show ?thesis .
    qed
  qed
  with t show "?may p t" by blast
qed

section \<open>Violations\<close>

lemma tag_known: "mayHaveTag ord D R p owner t \<Longrightarrow> isTag R t"
  by (induction rule: mayHaveTag.induct) (auto simp: hasTag_def isTag_def)

lemma violation_iff:
  assumes ready: "verifier_ready ops" and cons: "rules_consistent rules" and ord: "inj ord"
  shows "violatesPolicy ord (set ops) (set rules) tuple \<longleftrightarrow> (\<exists>t \<in> output_tags rules ops.
      tuple = [''violates'', ''sql'', ''Output has confidential tag: '' @ t])"
    and "hasError ord (set ops) (set rules) tuple \<longleftrightarrow> (\<exists>t \<in> output_tags rules ops.
      tuple = [''violates violates policy sql: Output has confidential tag: '' @ t])"
proof -
  have "sqlOutputHasConfidentialTag ord (set ops) (set rules) op t \<longleftrightarrow>
      op \<in> set ops \<and> dl_operator op = kSqlOutputOp \<and> (\<exists>r \<in> set (dl_resultList op). t \<in> fst (verifier_pass rules ops r))" for op t
    using tag_known [of ord "set ops" "set rules" _ DEFAULT_SQL_ACTOR t] verifier_readyD(1) [OF ready, of op]
    by (auto simp: sqlOutputHasConfidentialTag_def isSqlOutput_def confidentiality_tags_iff [OF assms])
  then have "(\<exists>op. sqlOutputHasConfidentialTag ord (set ops) (set rules) op t) \<longleftrightarrow> t \<in> output_tags rules ops" for t
    by (auto simp: output_tags_def)
  then show "violatesPolicy ord (set ops) (set rules) tuple \<longleftrightarrow> (\<exists>t \<in> output_tags rules ops.
      tuple = [''violates'', ''sql'', ''Output has confidential tag: '' @ t])" for tuple
    unfolding violatesPolicy_def by blast
  then show "hasError ord (set ops) (set rules) tuple \<longleftrightarrow> (\<exists>t \<in> output_tags rules ops.
      tuple = [''violates violates policy sql: Output has confidential tag: '' @ t])"
    unfolding hasError_def by auto
qed

section \<open>Properties\<close>

text \<open>C13: On the facts of operations in definition order, and rules that agree on the preconditions of a
  name, the datalog rules of the SQL policy verifier derive exactly what one pass over the operations
  computes: a path may have a confidentiality tag if and only if the pass gives it this tag, it must have
  an integrity tag if and only if the pass gives it that tag, and the violations and the errors that are
  reported are one for every confidentiality tag that the pass leaves on the result of some
  \<^verbatim>\<open>sql.sql_output\<close>.\<close>

theorem verifier_derives_pass:
  assumes "verifier_ready ops" and "rules_consistent rules" and "inj ord"
  shows "(\<forall>p t. mayHaveTag ord (set ops) (set rules) p DEFAULT_SQL_ACTOR t = (t \<in> fst (verifier_pass rules ops p))) \<and>
    (\<forall>p t. mustHaveIntegrityTag ord (set ops) (set rules) p DEFAULT_SQL_ACTOR t = (t \<in> snd (verifier_pass rules ops p))) \<and>
    (\<forall>tuple. violatesPolicy ord (set ops) (set rules) tuple = (\<exists>t \<in> output_tags rules ops.
      tuple = [''violates'', ''sql'', ''Output has confidential tag: '' @ t])) \<and>
    (\<forall>tuple. hasError ord (set ops) (set rules) tuple = (\<exists>t \<in> output_tags rules ops.
      tuple = [''violates violates policy sql: Output has confidential tag: '' @ t]))"
  by (simp add: confidentiality_tags_iff [OF assms] integrity_tags_iff [OF assms] violation_iff [OF assms])

text \<open>A column is tagged as secret, vetted, and declassified because it is vetted; one output is of the
  declassified value and one of the secret one.\<close>

definition sample_transform :: "string \<Rightarrow> string \<Rightarrow> string \<Rightarrow> named_attribute_map \<Rightarrow> string list \<Rightarrow> string dl_operation" where
  "sample_transform res x rule attrs xs = \<lparr>dl_actor = ''sql'', dl_operator = kTagTransformOp, dl_resultList = [res],
     dl_operandList = x # xs, dl_attributes = (kRuleNameAttribute, StringAttribute rule) # attrs\<rparr>"

definition sample_output :: "string \<Rightarrow> string \<Rightarrow> string dl_operation" where
  "sample_output res x = \<lparr>dl_actor = ''sql'', dl_operator = kSqlOutputOp, dl_resultList = [res],
     dl_operandList = [x], dl_attributes = []\<rparr>"

definition sample_transforms :: "string dl_operation list" where
  "sample_transforms = [sample_transform ''%0'' ''t.c'' ''tag'' [] [], sample_transform ''%1'' ''%0'' ''vet'' [] [],
     sample_transform ''%2'' ''%0'' ''drop'' [(''ok'', Int64Attribute 1)] [''%1'']]"

definition sample_dl_rules :: "dl_policy_rule list" where
  "sample_dl_rules = [
     \<lparr>policyRuleName = ''tag'', rule_result = AddConfidentialityTag ''secret'', preconditionList = []\<rparr>,
     \<lparr>policyRuleName = ''vet'', rule_result = AddIntegrityTag ''vetted'', preconditionList = []\<rparr>,
     \<lparr>policyRuleName = ''drop'', rule_result = RemoveConfidentialityTag ''secret'', preconditionList = [(''ok'', ''vetted'')]\<rparr>]"

lemma sample_transforms_ready: "verifier_ready (sample_transforms @ [sample_output ''%3'' x])" if "x = ''%1'' \<or> x = ''%2''"
  using that by (auto simp: verifier_ready_def defined_in_order_def sample_transforms_def sample_transform_def sample_output_def
      DEFAULT_SQL_ACTOR_def kRuleNameAttribute_def Cons_eq_append_conv append_eq_Cons_conv)

theorem verifier_derives_pass_witness:
  "\<not> violatesPolicy to_nat (set (sample_transforms @ [sample_output ''%3'' ''%2''])) (set sample_dl_rules)
     [''violates'', ''sql'', ''Output has confidential tag: secret''] \<and>
   violatesPolicy to_nat (set (sample_transforms @ [sample_output ''%3'' ''%1''])) (set sample_dl_rules)
     [''violates'', ''sql'', ''Output has confidential tag: secret'']"
proof -
  have rules: "rules_consistent sample_dl_rules" by (simp add: rules_consistent_def sample_dl_rules_def)
  have "output_tags sample_dl_rules (sample_transforms @ [sample_output ''%3'' ''%2'']) = {}"
    and "output_tags sample_dl_rules (sample_transforms @ [sample_output ''%3'' ''%1'']) = {''secret''}" by code_simp+
  with verifier_derives_pass [OF sample_transforms_ready rules inj_to_nat, of "''%2''"]
    verifier_derives_pass [OF sample_transforms_ready rules inj_to_nat, of "''%1''"] show ?thesis by simp
qed

end
