(* ===== verification/Sql_Verdict.thy ===== *)
theory Sql_Verdict imports
  Sql_Verifier_Correct
  Sql_Driver
  Sql_Policy_Rules
begin

text \<open>
  The verdict of the Souffle engine on a module with SQL policy rules: the fact file that the engine writes
  of a module, read as facts of the SQL policy verifier, and the reference pass on the module itself.
\<close>

section \<open>Renaming the paths\<close>

definition rename_operation :: "('p \<Rightarrow> 'q) \<Rightarrow> 'p dl_operation \<Rightarrow> 'q dl_operation" where
  "rename_operation f op = \<lparr>dl_actor = dl_actor op, dl_operator = dl_operator op, dl_resultList = map f (dl_resultList op),
     dl_operandList = map f (dl_operandList op), dl_attributes = dl_attributes op\<rparr>"

definition paths_of :: "'p dl_operation list \<Rightarrow> 'p set" where
  "paths_of ops = (\<Union>op \<in> set ops. set (dl_resultList op) \<union> set (dl_operandList op))"

text \<open>No path has the name of a result but this result.\<close>

definition results_apart :: "('p \<Rightarrow> 'q) \<Rightarrow> 'p dl_operation list \<Rightarrow> bool" where
  "results_apart f ops \<longleftrightarrow> (\<forall>op \<in> set ops. \<forall>r \<in> set (dl_resultList op). \<forall>x \<in> paths_of ops. f x = f r \<longrightarrow> x = r)"

lemma rename_simps [simp]:
  "dl_actor (rename_operation f op) = dl_actor op" "dl_operator (rename_operation f op) = dl_operator op"
  "dl_resultList (rename_operation f op) = map f (dl_resultList op)"
  "dl_operandList (rename_operation f op) = map f (dl_operandList op)"
  "dl_attributes (rename_operation f op) = dl_attributes op"
  "rule_name_of (rename_operation f op) = rule_name_of op" "number_of (rename_operation f op) name = number_of op name"
  "operand_at (rename_operation f op) i = map_option f (operand_at op i)"
  "direct_inputs (rename_operation f op) = map f (direct_inputs op)"
  by (auto simp: rename_operation_def rule_name_of_def number_of_def operand_at_def direct_inputs_def take_map split: option.splits)

lemma results_apartD:
  "results_apart f ops \<Longrightarrow> op \<in> set ops \<Longrightarrow> x \<in> paths_of ops \<Longrightarrow> f x \<in> f ` set (dl_resultList op) \<longleftrightarrow> x \<in> set (dl_resultList op)"
  by (auto simp: results_apart_def)

lemma operand_in_paths: "op \<in> set ops \<Longrightarrow> operand_at op i = Some x \<Longrightarrow> x \<in> paths_of ops"
  by (auto simp: paths_of_def dest: in_operands)

lemma has_special_rule_rename:
  assumes "results_apart f ops" and "op \<in> set ops"
  shows "has_special_rule (map (rename_operation f) ops) (rename_operation f op) r = has_special_rule ops op r"
  using results_apartD [OF assms] operand_in_paths
  by (fastforce simp: has_special_rule_def list_ex_iff split: option.splits)

lemma operation_tags_rename:
  assumes "results_apart f ops" and "op \<in> set ops" and "\<And>x. x \<in> paths_of ops \<Longrightarrow> env' (f x) = env x"
  shows "operation_tags rules (map (rename_operation f) ops) env' (rename_operation f op) = operation_tags rules ops env op"
proof -
  have operands: "env' (f x) = env x" if "x \<in> set (dl_operandList op)" for x
    using assms(2,3) that by (auto simp: paths_of_def)
  have at: "env' (f x) = env x" if "operand_at op i = Some x" for i x using operands in_operands [OF that] by blast
  have "set (direct_inputs op) \<subseteq> set (dl_operandList op)"
    by (auto simp: direct_inputs_def split: option.splits dest: in_set_takeD)
  then have direct: "env' (f x) = env x" if "x \<in> set (direct_inputs op)" for x using operands that by blast
  have "precondition_met env' (rename_operation f op) = precondition_met env op"
    by (rule ext) (auto simp: precondition_met_def at bind_eq_Some_conv split: option.splits bind_splits)
  then have "active_results rules env' (rename_operation f op) = active_results rules env op"
    by (simp add: active_results_def rules_of_def)
  then have "transform_tags rules env' (rename_operation f op) = transform_tags rules env op"
    using at [of 0] by (simp add: transform_tags_def split: option.split)
  moreover have "merge_integrity (map (rename_operation f) ops) env' (rename_operation f op) = merge_integrity ops env op"
    using direct by (simp add: merge_integrity_def has_special_rule_rename [OF assms(1,2)] Let_def cong: SUP_cong INF_cong)
  ultimately show ?thesis using operands by (simp add: operation_tags_def cong: SUP_cong)
qed

lemma verifier_pass_rename:
  assumes "results_apart f ops" and "x \<in> paths_of ops"
  shows "verifier_pass rules (map (rename_operation f) ops) (f x) = verifier_pass rules ops x"
proof -
  let ?step = "\<lambda>op. pass_step rules (map (rename_operation f) ops) (rename_operation f op)"
  have "\<forall>x \<in> paths_of ops. fold ?step us env' (f x) = fold (pass_step rules ops) us env x"
    if "set us \<subseteq> set ops" "\<forall>x \<in> paths_of ops. env' (f x) = env x" for us env' env
    using that
  proof (induction us arbitrary: env' env)
    case (Cons op us)
    then have op: "op \<in> set ops" by simp
    have "\<forall>x \<in> paths_of ops. ?step op env' (f x) = pass_step rules ops op env x"
      using Cons.prems(2) operation_tags_rename [OF assms(1) op, of env' env] results_apartD [OF assms(1) op]
      by (simp add: pass_step_def Let_def)
    with Cons show ?case by simp
  qed simp
  with assms(2) show ?thesis by (simp add: verifier_pass_def fold_map comp_def)
qed

lemma output_tags_rename:
  assumes "results_apart f ops"
  shows "output_tags rules (map (rename_operation f) ops) = output_tags rules ops"
proof -
  have "verifier_pass rules (map (rename_operation f) ops) (f r) = verifier_pass rules ops r"
    if "op \<in> set ops" "r \<in> set (dl_resultList op)" for op r
    using that by (intro verifier_pass_rename [OF assms]) (auto simp: paths_of_def)
  then show ?thesis by (simp add: output_tags_def cong: SUP_cong) force
qed

lemma pass_compliant_rename:
  "results_apart f ops \<Longrightarrow> pass_compliant rules (map (rename_operation f) ops) = pass_compliant rules ops"
  by (simp add: pass_compliant_def output_tags_rename)

lemma defined_in_order_rename:
  assumes "results_apart f ops" and "defined_in_order ops"
  shows "defined_in_order (map (rename_operation f) ops)"
proof -
  have "concat (map dl_resultList (map (rename_operation f) ops)) = map f (concat (map dl_resultList ops))"
    by (simp add: map_concat comp_def)
  moreover have "inj_on f (set (concat (map dl_resultList ops)))"
    using assms(1) by (intro inj_onI) (auto simp: results_apart_def paths_of_def)
  ultimately have "distinct (concat (map dl_resultList (map (rename_operation f) ops)))"
    using assms(2) by (simp only: defined_in_order_def distinct_map)
  moreover have "x' \<notin> set (dl_resultList op')"
    if split: "map (rename_operation f) ops = us' @ op\<^sub>0 # vs'" and x: "x' \<in> set (dl_operandList op\<^sub>0)" and op': "op' \<in> set (op\<^sub>0 # vs')"
    for us' op\<^sub>0 vs' x' op'
  proof -
    from split obtain us op vs where ops: "ops = us @ op # vs" "op\<^sub>0 = rename_operation f op" "vs' = map (rename_operation f) vs"
      by (auto simp: map_eq_append_conv map_eq_Cons_conv)
    from x op' ops obtain x'' op'' where x'': "x' = f x''" "x'' \<in> set (dl_operandList op)"
      and op'': "op' = rename_operation f op''" "op'' \<in> set (op # vs)" by auto
    have "x'' \<notin> set (dl_resultList op'')" using assms(2) ops(1) x''(2) op''(2) unfolding defined_in_order_def by blast
    moreover have "x'' \<in> paths_of ops" "op'' \<in> set ops" using ops(1) x''(2) op''(2) by (auto simp: paths_of_def)
    ultimately show ?thesis using results_apartD [OF assms(1)] by (simp add: x''(1) op''(1))
  qed
  ultimately show ?thesis unfolding defined_in_order_def by blast
qed

section \<open>The facts of a module\<close>

text \<open>The record that \<^verbatim>\<open>isOperation\<close> holds of an operation, with the values themselves as its paths.\<close>

definition ir_dl_operation :: "op_id \<times> operation \<Rightarrow> ir_value dl_operation" where
  "ir_dl_operation oper = \<lparr>dl_actor = kDefaultPrincipal, dl_operator = op_name (op_of (snd oper)),
     dl_resultList = result_values oper, dl_operandList = inputs (snd oper),
     dl_attributes = sort_key fst (attributes (snd oper))\<rparr>"

definition operation_record :: "string dl_operation \<Rightarrow> input_relation_fact" where
  "operation_record op = IsOperationFact (Record (Some [Symbol (dl_actor op), Symbol (dl_operator op),
     record_of (map Symbol (dl_resultList op)), record_of (map Symbol (dl_operandList op)),
     record_of (map (\<lambda>(n, a). datalog_attribute n (payload_value_of a)) (dl_attributes op))]))"

definition path_name :: "storage_heap \<Rightarrow> module_id \<times> ir_module \<Rightarrow> ir_value \<Rightarrow> string" where
  "path_name heap m = render_value heap (module_names heap m)"

definition module_facts :: "storage_heap \<Rightarrow> module_id \<times> ir_module \<Rightarrow> string dl_operation list" where
  "module_facts heap m = map (rename_operation (path_name heap m)) (map ir_dl_operation (module_operations (snd m)))"

lemma operation_fact_record:
  "operation_fact heap nms oper = operation_record (rename_operation (render_value heap nms) (ir_dl_operation oper))"
proof -
  have "map (\<lambda>v. Symbol (value_name nms v)) (result_values oper) = map (\<lambda>v. Symbol (render_value heap nms v)) (result_values oper)"
    by (simp add: result_values_def render_value_def)
  then show ?thesis
    by (simp add: operation_fact_def operation_record_def ir_dl_operation_def kDefaultPrincipal_def comp_def cong: map_cong)
qed

text \<open>Modules whose facts are as the verifier expects them.\<close>

definition facts_ready :: "storage_heap \<Rightarrow> (op_id \<times> operation) list \<Rightarrow> bool" where
  "facts_ready heap opers \<longleftrightarrow> distinct (map fst opers) \<and> ssa_ordered opers \<and>
     (\<forall>oper \<in> set opers. hm_wf (attributes (snd oper)) \<and> known_storages heap (inputs (snd oper)))"

lemma set_result_values: "set (result_values oper) = op_outputs oper"
  by (auto simp: result_values_def op_outputs_def)

lemma ir_defined_in_order:
  assumes "distinct (map fst opers)" and "ssa_ordered opers"
  shows "defined_in_order (map ir_dl_operation opers)"
proof -
  have results: "dl_resultList (ir_dl_operation oper) = result_values oper" for oper by (simp add: ir_dl_operation_def)
  have "distinct (concat (map result_values opers))"
    using assms(1)
  proof (induction opers)
    case (Cons oper opers)
    have "distinct (result_values oper)" by (auto simp: result_values_def distinct_map intro: inj_onI)
    moreover have "set (result_values oper) \<inter> (\<Union>o' \<in> set opers. set (result_values o')) = {}"
      using Cons.prems by (force simp: result_values_def)
    ultimately show ?case using Cons by simp
  qed simp
  then have "distinct (concat (map dl_resultList (map ir_dl_operation opers)))" by (simp add: comp_def results)
  moreover have "x \<notin> set (dl_resultList op')"
    if split: "map ir_dl_operation opers = us' @ op # vs'" and x: "x \<in> set (dl_operandList op)" and op': "op' \<in> set (op # vs')"
    for us' op vs' x op'
  proof
    assume mem: "x \<in> set (dl_resultList op')"
    from split obtain us oper vs where opers: "opers = us @ oper # vs" "op = ir_dl_operation oper" "vs' = map ir_dl_operation vs"
      by (auto simp: map_eq_append_conv map_eq_Cons_conv)
    have "op' \<in> ir_dl_operation ` set (oper # vs)" using op' by (simp add: opers)
    then obtain oper' where oper': "op' = ir_dl_operation oper'" "oper' \<in> set (oper # vs)" by blast
    then obtain i where res: "x = OperationResult (fst oper') i" using mem by (auto simp: results result_values_def)
    have "x \<in> set (inputs (snd (opers ! length us)))" using x by (simp add: opers ir_dl_operation_def)
    moreover have "length us < length opers" "is_operation_result x" by (simp_all add: opers res)
    ultimately obtain j where "j < length us" "x \<in> op_outputs (opers ! j)"
      using assms(2) unfolding ssa_ordered_def by blast
    then have "us ! j \<in> set us" "x \<in> op_outputs (us ! j)" by (simp_all add: opers(1) nth_append)
    then have "fst oper' \<in> fst ` set us" using res by (auto simp: op_outputs_def)
    with assms(1) oper'(2) show False by (auto simp: opers(1))
  qed
  ultimately show ?thesis unfolding defined_in_order_def by blast
qed

lemma generated_value_name:
  assumes "generated_names nms" and "v \<in> named nms"
  shows "\<exists>i. value_name nms v = ''%'' @ string_of_nat i"
  using manager_name_text [of "value_ids nms" v] generated_names_ok [OF assms(1)] assms(2)
  by (auto simp: ssa_ok_def named_def)

lemma module_facts_ready:
  assumes "facts_ready heap (module_operations (snd m))"
  shows "verifier_ready (module_facts heap m)" and "results_apart (path_name heap m) (map ir_dl_operation (module_operations (snd m)))"
proof -
  let ?opers = "module_operations (snd m)" and ?nms = "module_names heap m"
  have known: "\<forall>oper \<in> set ?opers. known_storages heap (inputs (snd oper))" using assms by (simp add: facts_ready_def)
  from lowered_facts_of [OF known] have gen: "generated_names ?nms" and named: "named_values ?opers \<subseteq> named ?nms"
    by (auto simp: module_names_def)
  have result: "path_name heap m r = value_name ?nms r \<and> r \<in> named ?nms \<and> (\<exists>i. path_name heap m r = ''%'' @ string_of_nat i)"
    if "oper \<in> set ?opers" "r \<in> set (result_values oper)" for oper r
  proof -
    have "r \<in> named ?nms" using that named by (auto simp: named_values_def)
    moreover have "path_name heap m r = value_name ?nms r" using that(2) by (auto simp: path_name_def render_value_def result_values_def)
    ultimately show ?thesis using generated_value_name [OF gen] by simp
  qed
  show apart: "results_apart (path_name heap m) (map ir_dl_operation ?opers)"
    unfolding results_apart_def
  proof (intro ballI impI)
    fix op r x
    assume op: "op \<in> set (map ir_dl_operation ?opers)" "r \<in> set (dl_resultList op)"
      and x: "x \<in> paths_of (map ir_dl_operation ?opers)" and eq: "path_name heap m x = path_name heap m r"
    from op obtain oper where "oper \<in> set ?opers" "r \<in> set (result_values oper)" by (auto simp: ir_dl_operation_def)
    note r = result [OF this]
    from r obtain i where i: "path_name heap m x = ''%'' @ string_of_nat i" unfolding eq by blast
    from x obtain oper' where oper': "oper' \<in> set ?opers" "x \<in> set (result_values oper') \<or> x \<in> set (inputs (snd oper'))"
      by (auto simp: paths_of_def ir_dl_operation_def)
    show "x = r"
    proof (cases "ssa_named x")
      case True
      then have "path_name heap m x = value_name ?nms x" by (cases x) (auto simp: path_name_def render_value_def)
      with eq r have "value_name ?nms x = value_name ?nms r" by metis
      moreover have "x \<in> named_values ?opers" unfolding named_values_def using True oper' by blast
      ultimately show ?thesis using value_name_eq [OF gen] named by blast
    next
      case False
      with oper' have "x \<in> set (inputs (snd oper'))" by (auto simp: result_values_def)
      with known oper'(1) have "case x of StoredValue sid \<Rightarrow> heap sid \<noteq> None | _ \<Rightarrow> True"
        unfolding known_storages_def by blast
      with False have "take 1 (path_name heap m x) \<noteq> ''%''"
        by (cases x rule: ir_value.exhaust) (auto simp: path_name_def render_value_def Any_ToString_def Storage_ToString_def)
      then show ?thesis by (simp add: i)
    qed
  qed
  have "defined_in_order (module_facts heap m)"
    unfolding module_facts_def using assms
    by (intro defined_in_order_rename [OF apart] ir_defined_in_order) (simp_all add: facts_ready_def)
  moreover have "dl_actor op = DEFAULT_SQL_ACTOR \<and> distinct (map fst (dl_attributes op)) \<and>
      (\<forall>r \<in> set (dl_resultList op). r \<noteq> ''ArbitraryComputation'' \<and> CHR ''.'' \<notin> set r)" if "op \<in> set (module_facts heap m)" for op
  proof -
    from that obtain oper where oper: "oper \<in> set ?opers" "op = rename_operation (path_name heap m) (ir_dl_operation oper)"
      by (auto simp: module_facts_def)
    have "distinct (map fst (sort_key fst (attributes (snd oper))))"
      using assms oper(1) by (auto simp: facts_ready_def hm_wf_def distinct_map)
    moreover have "path_name heap m r \<noteq> ''ArbitraryComputation'' \<and> CHR ''.'' \<notin> set (path_name heap m r)"
      if "r \<in> set (result_values oper)" for r
    proof -
      from result [OF oper(1) that] obtain i where "path_name heap m r = ''%'' @ string_of_nat i" by blast
      then show ?thesis using string_of_nat_digits [of "CHR ''.''" i] by (auto simp: is_digit_def)
    qed
    ultimately show ?thesis
      by (auto simp: oper(2) ir_dl_operation_def DEFAULT_SQL_ACTOR_def kDefaultPrincipal_def)
  qed
  ultimately show "verifier_ready (module_facts heap m)" by (simp add: verifier_ready_def)
qed

section \<open>The verdict on a module\<close>

text \<open>What the compiled SQL policy verifier relies on Souffle for: the two relations that the policy
  checker reads hold what the rules derive from the facts in the directory.\<close>

definition derives_sql_rules ::
  "souffle_checker \<Rightarrow> facts_directory \<Rightarrow> string dl_operation list \<Rightarrow> dl_policy_rule list \<Rightarrow> bool" where
  "derives_sql_rules program dir ops rules \<longleftrightarrow> (\<exists>ord errors violations. inj ord \<and>
     program dir ''hasError'' = Some errors \<and> (\<forall>e. e \<in> set errors \<longleftrightarrow> hasError ord (set ops) (set rules) e) \<and>
     program dir ''violatesPolicy'' = Some violations \<and> (\<forall>v. v \<in> set violations \<longleftrightarrow> violatesPolicy ord (set ops) (set rules) v))"

lemma run_sql_rules:
  assumes "derives_sql_rules program dir ops rules" and "verifier_ready ops" and "rules_consistent rules"
  shows "run_program program dir = Inr (pass_compliant rules ops)"
proof -
  from assms(1) obtain ord errors violations where ord: "inj ord"
    and run: "program dir ''hasError'' = Some errors" "program dir ''violatesPolicy'' = Some violations"
    and tuples: "\<forall>e. e \<in> set errors \<longleftrightarrow> hasError ord (set ops) (set rules) e"
      "\<forall>v. v \<in> set violations \<longleftrightarrow> violatesPolicy ord (set ops) (set rules) v" by (auto simp: derives_sql_rules_def)
  have empty: "xs = [] \<longleftrightarrow> (\<forall>x. x \<notin> set xs)" for xs :: "string list list" by (cases xs) auto
  have "errors = [] \<longleftrightarrow> pass_compliant rules ops" "violations = [] \<longleftrightarrow> pass_compliant rules ops"
    using tuples violation_iff [OF assms(2,3) ord] unfolding empty pass_compliant_def by blast+
  with run show ?thesis by (auto simp: run_program_def)
qed

text \<open>The directory that the policy checker gives to the program.\<close>

definition sql_directory ::
  "(double \<Rightarrow> string) \<Rightarrow> storage_heap \<Rightarrow> module_id \<times> ir_module \<Rightarrow> policy \<Rightarrow> facts_directory" where
  "sql_directory lg heap m pol = fact_files lg (map operation_record (module_facts heap m)) pol"

lemma checker_verdict_is_pass:
  assumes "platform_works P" and ready: "facts_ready heap (module_operations (snd m))" and "rules_consistent rules"
    and program: "sql_policy_verifier cks = Some program"
    and "derives_sql_rules program (sql_directory lg heap m (SqlPolicyRulePolicy cks t)) (module_facts heap m) rules"
  shows "Souffle_IsModulePolicyCompliant P lg heap m (SqlPolicyRulePolicy cks t) =
    Inr (pass_compliant rules (map ir_dl_operation (module_operations (snd m))))"
proof -
  have pol: "policy_ok (SqlPolicyRulePolicy cks t)" by (simp add: policy_ok_def SqlPolicyRulePolicy_def)
  have known: "\<forall>oper \<in> set (module_operations (snd m)). known_storages heap (inputs (snd oper))"
    using ready by (simp add: facts_ready_def)
  have "map (operation_fact heap (module_names heap m)) (module_operations (snd m)) = map operation_record (module_facts heap m)"
    by (simp add: module_facts_def operation_fact_record path_name_def comp_def)
  with checker_runs_program_names(3) [OF assms(1) pol known, of lg] program
  have "Souffle_IsModulePolicyCompliant P lg heap m (SqlPolicyRulePolicy cks t) =
      run_program program (sql_directory lg heap m (SqlPolicyRulePolicy cks t))"
    by (simp add: SqlPolicyRulePolicy_def die_if_null_def sql_directory_def)
  also have "\<dots> = Inr (pass_compliant rules (module_facts heap m))"
    by (rule run_sql_rules [OF assms(5) module_facts_ready(1) [OF ready] assms(3)])
  also have "\<dots> = Inr (pass_compliant rules (map ir_dl_operation (module_operations (snd m))))"
    unfolding module_facts_def by (simp only: pass_compliant_rename [OF module_facts_ready(2) [OF ready]])
  finally show ?thesis .
qed

section \<open>The verdict on an arena\<close>

definition decode_arena ::
  "precondition_order \<Rightarrow> module_id \<Rightarrow> block_id \<Rightarrow> nat \<Rightarrow> id_expression_pair list \<Rightarrow> decoder_context result" where
  "decode_arena pord this block_addr addr arena =
     rbind (new_decoder_context empty_context block_addr addr) (\<lambda>dc.
     rbind (DecodeExpressionArena pord arena dc) (\<lambda>(_, dc). BuildTopLevelBlock this dc))"

lemma verify_decode_arena: "verify P lg pord this block_addr addr arena pol = rbind (decode_arena pord this block_addr addr arena) (\<lambda>dc.
    Souffle_IsModulePolicyCompliant P lg (context_storages (dc_ir_context dc)) (this, global_module dc) pol)"
  by (simp add: verify_def decode_arena_def rbind_assoc case_prod_beta')

lemma sql_shape_attributes: "sql_shape oper \<Longrightarrow> hm_wf (attributes oper)"
proof (cases "op_name (op_of oper) = kTagTransformOp")
  case False
  moreover assume "sql_shape oper"
  ultimately have "length (attributes oper) \<le> 1" by (simp add: sql_shape_def)
  then show ?thesis by (cases "attributes oper") (auto simp: hm_wf_def)
qed (rule tag_transform_shape(1))

lemma decoded_arena_ready:
  assumes "decode_arena pord this block_addr addr arena = Inr dc" and "is_order pord"
  shows "facts_ready (context_storages (dc_ir_context dc)) (module_operations (global_module dc))"
    and "\<forall>oper \<in> set (module_operations (global_module dc)). sql_shape (snd oper)"
proof -
  from assms(1) obtain dc0 v dc1 where run: "new_decoder_context empty_context block_addr addr = Inr dc0"
    "DecodeExpressionArena pord arena dc0 = Inr (v, dc1)" "BuildTopLevelBlock this dc1 = Inr dc"
    by (auto simp: decode_arena_def)
  note start = new_decoder_context_inv [OF run(1)]
  have "arena_ok arena"
    using DecodeExpressionArena_eq [OF start(1,2) assms(2), of arena] run(2) by (auto split: if_splits)
  with DecodeExpressionArena_eq [OF start(1,2) assms(2), of arena] run(2) have inv: "dc_inv dc1" by auto
  from BuildTopLevelBlock_operations [OF inv, of this] run(3)
  have opers: "module_operations (global_module dc) = dc_operations dc1" by auto
  have "dc_stored dc1" by (rule DecodeExpressionArena_stored [OF run(2) new_decoder_context_stored [OF run(1)]])
  moreover have ready: "block_ready (next_address dc1) (dc_operations dc1)" using inv by (simp add: dc_inv_def)
  ultimately show "facts_ready (context_storages (dc_ir_context dc)) (module_operations (global_module dc))"
    using BuildTopLevelBlock_context [OF run(3)] sql_shape_attributes
    by (auto simp: facts_ready_def opers block_ready_def dc_stored_def known_storages_stored_in)
  from ready show "\<forall>oper \<in> set (module_operations (global_module dc)). sql_shape (snd oper)"
    by (simp add: opers block_ready_def)
qed

section \<open>Properties\<close>

text \<open>C14: The SQL driver with policy rules is sound and complete for the tags of the expressions. If the
  compiled verifier derives what the datalog rules say of the facts that it finds, the driver's answer on
  an arena that decodes is the answer of the reference pass over the decoded operations themselves: true
  exactly when the output has no confidentiality tag. The names of the values, the order of the symbols,
  the fact files and the iteration order of the precondition maps do not matter.\<close>

theorem verify_is_pass:
  assumes "decode_arena pord this block_addr addr arena = Inr dc" and "is_order pord" and "platform_works P"
    and "rules_consistent rules" and "sql_policy_verifier cks = Some program"
    and "derives_sql_rules program (sql_directory lg (context_storages (dc_ir_context dc)) (this, global_module dc)
      (SqlPolicyRulePolicy cks t)) (module_facts (context_storages (dc_ir_context dc)) (this, global_module dc)) rules"
  shows "verify P lg pord this block_addr addr arena (SqlPolicyRulePolicy cks t) =
    Inr (pass_compliant rules (map ir_dl_operation (module_operations (global_module dc))))"
proof -
  have "facts_ready (context_storages (dc_ir_context dc)) (module_operations (snd (this, global_module dc)))"
    using decoded_arena_ready(1) [OF assms(1,2)] by simp
  from checker_verdict_is_pass [OF assms(3) this assms(4-6)] show ?thesis
    by (simp add: verify_decode_arena assms(1))
qed

text \<open>A program that reports given tags, and an arena in which a column is tagged as secret, vetted, and
  declassified because it is vetted.\<close>

definition reporting :: "string list \<Rightarrow> souffle_checker" where
  "reporting ts = (\<lambda>dir relation. Some (map (\<lambda>t. if relation = ''hasError''
     then [''violates violates policy sql: Output has confidential tag: '' @ t]
     else [''violates'', ''sql'', ''Output has confidential tag: '' @ t]) ts))"

lemma reporting_derives:
  assumes "facts_ready heap (module_operations (snd m))" and "rules_consistent rules"
    and "set ts = output_tags rules (map ir_dl_operation (module_operations (snd m)))"
  shows "derives_sql_rules (reporting ts) dir (module_facts heap m) rules"
proof -
  have "output_tags rules (module_facts heap m) = set ts"
    unfolding assms(3) module_facts_def by (rule output_tags_rename [OF module_facts_ready(2) [OF assms(1)]])
  with violation_iff [OF module_facts_ready(1) [OF assms(1)] assms(2) inj_to_nat] show ?thesis
    unfolding derives_sql_rules_def by (intro exI [of _ to_nat]) (auto simp: reporting_def)
qed

definition reporting_checkers :: "string list \<Rightarrow> souffle_checkers" where
  "reporting_checkers ts = sample_checkers\<lparr>sql_policy_verifier := Some (reporting ts)\<rparr>"

definition secret_arena :: "id_expression_pair list" where
  "secret_arena = [(1, SourceTableColumn ''t.c''), (2, TagTransform 1 ''vet'' []), (3, TagTransform 1 ''tag'' [])]"

definition declassified_arena :: "id_expression_pair list" where
  "declassified_arena = secret_arena @ [(4, TagTransform 3 ''drop'' [(''ok'', 2)])]"

definition arena_output_tags :: "dl_policy_rule list \<Rightarrow> id_expression_pair list \<Rightarrow> string set option" where
  "arena_output_tags rules arena = (case decode_arena id 0 0 1 arena of Inl _ \<Rightarrow> None
     | Inr dc \<Rightarrow> Some (output_tags rules (map ir_dl_operation (module_operations (global_module dc)))))"

lemma sample_arena_tags:
  "arena_output_tags sample_dl_rules secret_arena = Some {''secret''}"
  "arena_output_tags sample_dl_rules declassified_arena = Some {}"
  by code_simp+

theorem verify_is_pass_witness:
  "verify sample_platform (\<lambda>_. []) id 0 0 1 secret_arena (SqlPolicyRulePolicy (reporting_checkers [''secret'']) []) = Inr False \<and>
   verify sample_platform (\<lambda>_. []) id 0 0 1 declassified_arena (SqlPolicyRulePolicy (reporting_checkers []) []) = Inr True"
proof -
  have rules: "rules_consistent sample_dl_rules" by (simp add: rules_consistent_def sample_dl_rules_def)
  have verdict: "verify sample_platform (\<lambda>_. []) id 0 0 1 arena (SqlPolicyRulePolicy (reporting_checkers ts) []) = Inr (ts = [])"
    if tags: "arena_output_tags sample_dl_rules arena = Some (set ts)" for arena ts
  proof -
    from tags obtain dc where dc: "decode_arena id 0 0 1 arena = Inr dc"
      "set ts = output_tags sample_dl_rules (map ir_dl_operation (module_operations (global_module dc)))"
      by (auto simp: arena_output_tags_def split: sum.splits)
    have ready: "facts_ready (context_storages (dc_ir_context dc)) (module_operations (snd (0, global_module dc)))"
      using decoded_arena_ready(1) [OF dc(1) is_order_id(2)] by simp
    have "sql_policy_verifier (reporting_checkers ts) = Some (reporting ts)" by (simp add: reporting_checkers_def)
    from verify_is_pass [OF dc(1) is_order_id(2) sample_platform_works(1) rules this reporting_derives [OF ready rules]]
    show ?thesis unfolding pass_compliant_def snd_conv dc(2) [symmetric] by simp
  qed
  from verdict [of secret_arena "[''secret'']"] verdict [of declassified_arena "[]"] sample_arena_tags show ?thesis by simp
qed

end
