(* ===== verification/Engines_Agree.thy ===== *)
theory Engines_Agree imports
  Sql_Verdict
begin

text \<open>
  The two policy engines on the same decoded SQL expressions: the abstract interpretation with the
  inference rules that \<^verbatim>\<open>decode_sql_policy_rules.cc\<close> makes of the policy rules, and the SQL policy
  verifier in datalog with the facts that say the same rules. The reference pass is the link.
\<close>

section \<open>The policy rules as facts\<close>

fun dl_result_of :: "policy_action \<Rightarrow> string \<Rightarrow> sql_policy_rule_result option" where
  "dl_result_of ADD_CONFIDENTIALITY t = Some (AddConfidentialityTag t)"
| "dl_result_of REMOVE_CONFIDENTIALITY t = Some (RemoveConfidentialityTag t)"
| "dl_result_of ADD_INTEGRITY t = Some (AddIntegrityTag t)"
| "dl_result_of UNKNOWN t = None"

definition dl_rule_of :: "sql_policy_rule \<Rightarrow> dl_policy_rule option" where
  "dl_rule_of rule = map_option (\<lambda>res. \<lparr>policyRuleName = policy_rule_name rule, rule_result = res,
     preconditionList = map (\<lambda>p. (argument p, required_integrity_tag p)) (rule_preconditions rule)\<rparr>)
     (dl_result_of (result_action rule) (result_tag rule))"

definition dl_rules_of :: "sql_policy_rule list \<Rightarrow> dl_policy_rule list" where
  "dl_rules_of rules = List.map_filter dl_rule_of rules"

lemma set_map_filter: "set (List.map_filter f xs) = {y. \<exists>x \<in> set xs. f x = Some y}"
  by (induction xs) (auto simp: List.map_filter_simps split: option.splits)

lemma dl_rules_of_consistent:
  assumes "distinct (map policy_rule_name rules)"
  shows "rules_consistent (dl_rules_of rules)"
proof -
  have "r = s" if "r \<in> set rules" "s \<in> set rules" "policy_rule_name r = policy_rule_name s" for r s
    using assms that by (auto simp: distinct_map dest: inj_onD)
  then show ?thesis by (auto simp: rules_consistent_def dl_rules_of_def set_map_filter dl_rule_of_def) blast
qed

text \<open>A transform whose rule name is that of a policy rule has this rule only.\<close>

lemma rules_of_dl_rules:
  assumes "distinct (map policy_rule_name rules)" and "rule \<in> set rules" and "dl_rule_of rule = Some d"
    and "rule_name_of op = Some (policy_rule_name rule)"
  shows "rules_of (dl_rules_of rules) op = [d]"
  using assms(1,2)
proof (induction rules)
  case (Cons r rules)
  have names: "dl_rule_of s = Some e \<Longrightarrow> policyRuleName e = policy_rule_name s" for s e by (auto simp: dl_rule_of_def)
  have none: "rules_of (dl_rules_of rs) op = []" if "policy_rule_name rule \<notin> policy_rule_name ` set rs" for rs
    using that assms(4) names by (force simp: rules_of_def dl_rules_of_def filter_empty_conv set_map_filter)
  show ?case
  proof (cases "r = rule")
    case True
    with Cons.prems none [of rules] assms(3,4) names [OF assms(3)] show ?thesis
      by (simp add: rules_of_def dl_rules_of_def List.map_filter_simps)
  next
    case False
    with Cons.prems have "rule \<in> set rules" "policy_rule_name r \<noteq> policy_rule_name rule" by auto
    with Cons assms(4) names [of r] show ?thesis
      by (auto simp: rules_of_def dl_rules_of_def List.map_filter_simps split: option.split)
  qed
qed simp

section \<open>What the decoder of the rules builds\<close>

abbreviation builder_tag_id :: "rules_builder \<Rightarrow> string \<Rightarrow> tag_id option" where
  "builder_tag_id b \<equiv> map_of (builder_tags b)"

abbreviation builder_ok :: "rules_builder \<Rightarrow> bool" where
  "builder_ok b \<equiv> tags_inv (builder_tag_names b) (builder_tags b)"

lemma GetOrCreateTagId_step:
  assumes "builder_ok b" and "GetOrCreateTagId t b = Inr (i, b')"
  shows "builder_ok b'" and "builder_tag_id b \<subseteq>\<^sub>m builder_tag_id b'" and "builder_tag_id b' t = Some i"
proof -
  from GetOrCreateTagId_eq [OF assms(1), of t] obtain j c where c: "GetOrCreateTagId t b = Inr (j, c)"
    "j < length (builder_tag_names c)" "builder_tag_names c ! j = t" "builder_ok c"
    "builder_tags c = builder_tags b @ (if t \<in> set (builder_tag_names b) then [] else [(t, j)])" by blast
  from c(1) assms(2) have "j = i" "c = b'" by simp_all
  with c(2-) have b': "i < length (builder_tag_names b')" "builder_tag_names b' ! i = t" "builder_ok b'"
    "builder_tags b' = builder_tags b @ (if t \<in> set (builder_tag_names b) then [] else [(t, i)])" by simp_all
  from b'(3) show "builder_ok b'" .
  from tags_inv_lookup [OF this, of t i] b'(1,2) show "builder_tag_id b' t = Some i" by blast
  show "builder_tag_id b \<subseteq>\<^sub>m builder_tag_id b'"
    using tags_inv_fresh [OF assms(1), of t] by (auto simp: b'(4) map_le_def map_add_def split: option.splits)
qed

definition premise_of :: "rules_builder \<Rightarrow> operation \<Rightarrow> policy_precondition \<Rightarrow> input_has_integrity \<Rightarrow> bool" where
  "premise_of b oper p q \<longleftrightarrow> indexed_preconditions oper (argument p) = Some (premise_index q) \<and>
     1 \<le> premise_index q \<and> premise_index q < length (inputs oper) \<and>
     builder_tag_id b (required_integrity_tag p) = Some (premise_tag q)"

lemma premise_of_mono: "premise_of b oper p q \<Longrightarrow> builder_tag_id b \<subseteq>\<^sub>m builder_tag_id b' \<Longrightarrow> premise_of b' oper p q"
  by (auto simp: premise_of_def map_le_def dom_def)

lemma add_premises_step:
  assumes "fold_result (add_premise idx) pres (qs, b) = Inr (qs', b')" and "builder_ok b"
    and idx: "map_of idx = indexed_preconditions oper"
      "\<And>name i. map_of idx name = Some i \<Longrightarrow> 1 \<le> i \<and> i < length (inputs oper)"
  shows "builder_ok b' \<and> builder_tag_id b \<subseteq>\<^sub>m builder_tag_id b' \<and>
    (\<exists>ps. qs' = qs @ ps \<and> list_all2 (premise_of b' oper) pres ps)"
  using assms(1,2)
proof (induction pres arbitrary: qs b)
  case (Cons pre pres)
  then obtain q b1 where step: "add_premise idx pre (qs, b) = Inr (q, b1)"
    and rest': "fold_result (add_premise idx) pres (q, b1) = Inr (qs', b')" by auto
  from step obtain t i where t: "GetOrCreateTagId (required_integrity_tag pre) b = Inr (t, b1)"
    and i: "map_of idx (argument pre) = Some i" and q: "q = qs @ [\<lparr>premise_index = i, premise_tag = t\<rparr>]"
    by (auto simp: add_premise_def)
  note rest = rest' [unfolded q]
  note b1 = GetOrCreateTagId_step [OF Cons.prems(2) t]
  from Cons.IH [OF rest b1(1)] obtain ps where b': "builder_ok b'" "builder_tag_id b1 \<subseteq>\<^sub>m builder_tag_id b'"
    and ps: "qs' = qs @ \<lparr>premise_index = i, premise_tag = t\<rparr> # ps" "list_all2 (premise_of b' oper) pres ps" by auto
  have "premise_of b1 oper pre \<lparr>premise_index = i, premise_tag = t\<rparr>"
    using i idx(2) [OF i] b1(3) by (simp add: premise_of_def flip: idx(1))
  from premise_of_mono [OF this b'(2)] ps have
    "list_all2 (premise_of b' oper) (pre # pres) (\<lparr>premise_index = i, premise_tag = t\<rparr> # ps)" by simp
  with ps(1) b' map_le_trans [OF b1(2) b'(2)] show ?case by blast
qed simp

text \<open>The rules of one tag transform.\<close>

definition transform_rules :: "rules_builder \<Rightarrow> operation \<Rightarrow> sql_policy_rule \<Rightarrow> output_rules \<Rightarrow> bool" where
  "transform_rules b oper rule ors \<longleftrightarrow> (\<exists>modify t ps. ors = [(0, [\<lparr>rule_conclusion = CopyInput 0, rule_premises = []\<rparr>,
       \<lparr>rule_conclusion = ModifyTag modify t, rule_premises = ps\<rparr>])] \<and>
     GetModifyTagKind (result_action rule) = Inr modify \<and> builder_tag_id b (result_tag rule) = Some t \<and>
     list_all2 (premise_of b oper) (rule_preconditions rule) ps)"

lemma premise_of_update [simp]:
  "premise_of (b\<lparr>builder_action_rules := rs\<rparr>) = premise_of b" "premise_of (b\<lparr>builder_actions := acts\<rparr>) = premise_of b"
  by (simp_all add: premise_of_def fun_eq_iff)

lemma transform_rules_mono:
  "transform_rules b oper rule ors \<Longrightarrow> builder_tag_id b \<subseteq>\<^sub>m builder_tag_id b' \<Longrightarrow> transform_rules b' oper rule ors"
  unfolding transform_rules_def
  by (elim exE conjE, intro exI conjI, assumption, assumption)
    (auto simp: map_le_def dom_def intro!: list_all2_mono [where P = "premise_of b oper"] elim!: premise_of_mono)

lemma AddInferenceRuleForTagTransform_step:
  assumes "AddInferenceRuleForTagTransform ord rule oper action b = Inr b'" and "is_order ord" and "sql_shape oper"
    and "op_name (op_of oper) = kTagTransformOp" and "builder_ok b"
  shows "\<exists>ors. transform_rules b' oper rule ors \<and> builder_ok b' \<and> builder_tag_id b \<subseteq>\<^sub>m builder_tag_id b' \<and>
    map_of (builder_action_rules b) action = None \<and> builder_actions b' = builder_actions b \<and>
    builder_action_rules b' = builder_action_rules b @ [(action, ors)]"
proof -
  from assms(1) obtain idx ps b1 i mk t b2 where idx: "GetPreconditionInputIndices ord oper = Inr idx"
    and ps: "fold_result (add_premise idx) (rule_preconditions rule) ([], b) = Inr (ps, b1)"
    and i: "GetTransformedValueIndex oper = Inr i" and mk: "GetModifyTagKind (result_action rule) = Inr mk"
    and t: "GetOrCreateTagId (result_tag rule) b1 = Inr (t, b2)"
    and add: "AddOutputRulesForAction action [(0, [\<lparr>rule_conclusion = CopyInput i, rule_premises = []\<rparr>,
       \<lparr>rule_conclusion = ModifyTag mk t, rule_premises = ps\<rparr>])] b2 = Inr b'"
    by (auto simp: AddInferenceRuleForTagTransform_def Let_def)
  note indices = GetPreconditionInputIndices_Inr [OF tag_transform_shape(1) [OF assms(3,4)] assms(2) idx]
  from add_premises_step [OF ps assms(5) indices(1)] indices(2)
  have b1: "builder_ok b1" "builder_tag_id b \<subseteq>\<^sub>m builder_tag_id b1" "list_all2 (premise_of b1 oper) (rule_preconditions rule) ps"
    by auto
  note b2 = GetOrCreateTagId_step [OF b1(1) t]
  from b1(3) have "list_all2 (premise_of b2 oper) (rule_preconditions rule) ps"
    by (rule list_all2_mono) (rule premise_of_mono [OF _ b2(2)])
  moreover have "i = 0" using i by (auto simp: GetTransformedValueIndex_def)
  ultimately show ?thesis
    using add add_premises_Inr [OF ps] GetOrCreateTagId_keeps [OF t] mk b2 map_le_trans [OF b1(2) b2(2)]
    by (auto simp: AddOutputRulesForAction_Inr transform_rules_def premise_of_def)
qed

text \<open>The rules that stand for a tag transform, and what holds after some operations are decoded.\<close>

definition transform_decoded :: "sql_policy_rule list \<Rightarrow> rules_builder \<Rightarrow> op_id \<times> operation \<Rightarrow> bool" where
  "transform_decoded rules b oper \<longleftrightarrow> (\<exists>rule \<in> set rules. \<exists>action ors. GetRuleName (snd oper) = Inr (policy_rule_name rule) \<and>
     map_of (builder_actions b) (fst oper) = Some action \<and> map_of (builder_action_rules b) action = Some ors \<and>
     transform_rules b (snd oper) rule ors)"

abbreviation is_transform :: "op_id \<times> operation \<Rightarrow> bool" where
  "is_transform oper \<equiv> op_name (op_of (snd oper)) = kTagTransformOp"

definition rules_decoded :: "sql_policy_rule list \<Rightarrow> (op_id \<times> operation) list \<Rightarrow> rules_builder \<Rightarrow> bool" where
  "rules_decoded rules opers b \<longleftrightarrow> builder_ok b \<and>
     (\<forall>oper \<in> set opers. is_transform oper \<longrightarrow> transform_decoded rules b oper) \<and>
     (\<forall>oid. map_of (builder_actions b) oid \<noteq> None \<longrightarrow> (\<exists>oper \<in> set opers. is_transform oper \<and> fst oper = oid)) \<and>
     (\<forall>(action, ors) \<in> set (builder_action_rules b). \<exists>oper. \<exists>rule \<in> set rules. transform_rules b oper rule ors)"

definition builder_extends :: "rules_builder \<Rightarrow> rules_builder \<Rightarrow> bool" where
  "builder_extends b b' \<longleftrightarrow> builder_tag_id b \<subseteq>\<^sub>m builder_tag_id b' \<and> map_of (builder_actions b) \<subseteq>\<^sub>m map_of (builder_actions b') \<and>
     map_of (builder_action_rules b) \<subseteq>\<^sub>m map_of (builder_action_rules b')"

lemma map_le_Some: "m \<subseteq>\<^sub>m m' \<Longrightarrow> m k = Some v \<Longrightarrow> m' k = Some v"
  by (auto simp: map_le_def dom_def)

lemma transform_decoded_mono: "transform_decoded rules b oper \<Longrightarrow> builder_extends b b' \<Longrightarrow> transform_decoded rules b' oper"
  unfolding transform_decoded_def builder_extends_def
  by (elim bexE exE conjE, intro bexI exI conjI) (auto intro: transform_rules_mono map_le_Some)

lemma map_le_append: "map_of xs k = None \<Longrightarrow> map_of xs \<subseteq>\<^sub>m map_of (xs @ [(k, v)])"
  by (auto simp: map_le_def map_add_def split: option.splits)

text \<open>Decoding one more operation whose rule is not special.\<close>

lemma decode_rule_of_operation_step:
  assumes step: "decode_rule_of_operation ord m rs oper (counts, b) = Inr (counts', b')" and ord: "is_order ord"
    and rs: "\<And>name rule. map_of rs name = Some rule \<Longrightarrow> rule \<in> set rules \<and> policy_rule_name rule = name"
    and inv: "rules_decoded rules opers b" and shape: "sql_shape (snd oper)"
    and plain: "GetRuleName (snd oper) \<noteq> Inr kIntersectItagRule" "GetRuleName (snd oper) \<noteq> Inr kUnionItagRule"
  shows "rules_decoded rules (opers @ [oper]) b'"
proof (cases "is_transform oper")
  case False
  with step have "b' = b" by (auto simp: decode_rule_of_operation_def SqlOp_GetIf_def)
  with inv False show ?thesis by (auto simp: rules_decoded_def)
next
  case True
  with step obtain name action where name: "GetRuleName (snd oper) = Inr name"
    and run: "decode_action_rule ord m rs name action oper b = Inr b'"
    by (auto simp: decode_rule_of_operation_def SqlOp_GetIf_def Let_def)
  with plain obtain b1 rule where mark: "MarkOperationAsAction (fst oper) action b = Inr b1"
    and rule: "map_of rs name = Some rule" and add: "AddInferenceRuleForTagTransform ord rule (snd oper) action b1 = Inr b'"
    by (auto simp: decode_action_rule_def split: if_splits)
  from mark have b1: "map_of (builder_actions b) (fst oper) = None" "b1 = b\<lparr>builder_actions := builder_actions b @ [(fst oper, action)]\<rparr>"
    by (simp_all add: MarkOperationAsAction_Inr)
  have "builder_ok b1" using inv by (simp add: b1(2) rules_decoded_def)
  from AddInferenceRuleForTagTransform_step [OF add ord shape True this] obtain ors where
    ors: "transform_rules b' (snd oper) rule ors" "builder_ok b'" "builder_tag_id b \<subseteq>\<^sub>m builder_tag_id b'"
      "map_of (builder_action_rules b) action = None"
      "builder_actions b' = builder_actions b @ [(fst oper, action)]"
      "builder_action_rules b' = builder_action_rules b @ [(action, ors)]" by (auto simp: b1(2))
  have ext: "builder_extends b b'"
    unfolding builder_extends_def ors(5,6) using ors(3,4) b1(1) by (intro conjI map_le_append) simp_all
  have rule_in: "rule \<in> set rules" "policy_rule_name rule = name" using rs [OF rule] by simp_all
  have "map_of (builder_actions b') (fst oper) = Some action" "map_of (builder_action_rules b') action = Some ors"
    using b1(1) ors(4-6) by (simp_all add: map_add_def)
  with rule_in name ors(1) have new: "transform_decoded rules b' oper" by (auto simp: transform_decoded_def)
  show ?thesis
    unfolding rules_decoded_def
  proof (intro conjI ballI allI impI)
    show "builder_ok b'" by (rule ors(2))
    fix o' assume "o' \<in> set (opers @ [oper])" "is_transform o'"
    with inv new ext show "transform_decoded rules b' o'" by (auto simp: rules_decoded_def intro: transform_decoded_mono)
  next
    fix oid assume "map_of (builder_actions b') oid \<noteq> None"
    then have "oid = fst oper \<or> map_of (builder_actions b) oid \<noteq> None" by (auto simp: ors(5) map_add_def split: if_splits)
    with inv True show "\<exists>oper' \<in> set (opers @ [oper]). is_transform oper' \<and> fst oper' = oid"
      by (auto simp: rules_decoded_def)
  next
    fix x assume "x \<in> set (builder_action_rules b')"
    then have "x = (action, ors) \<or> x \<in> set (builder_action_rules b)" by (auto simp: ors(6))
    with inv ors(1,3) rule_in show "case x of (action, ors) \<Rightarrow> \<exists>oper. \<exists>rule \<in> set rules. transform_rules b' oper rule ors"
      by (auto simp: rules_decoded_def) (blast intro: transform_rules_mono)
  qed
qed

text \<open>The map of the policy rules.\<close>

definition rule_map_ok :: "sql_policy_rule list \<Rightarrow> (string, sql_policy_rule) hash_map \<Rightarrow> bool" where
  "rule_map_ok rules rs \<longleftrightarrow> rs = map (\<lambda>r. (policy_rule_name r, r)) rules \<and> distinct (map policy_rule_name rules)"

lemma add_policy_rules:
  assumes "fold_result add_policy_rule rules rs = Inr rs'" and "rule_map_ok rules\<^sub>0 rs"
  shows "rule_map_ok (rules\<^sub>0 @ rules) rs'"
  using assms
proof (induction rules arbitrary: rs rules\<^sub>0)
  case (Cons r rules)
  then obtain rs1 where rs1: "add_policy_rule r rs = Inr rs1" and rest: "fold_result add_policy_rule rules rs1 = Inr rs'" by auto
  from rs1 have eq: "rs1 = rs @ [(policy_rule_name r, r)]" "map_of rs (policy_rule_name r) = None"
    by (auto simp: add_policy_rule_def hm_insert_eq split: if_splits)
  with Cons.prems(2) have "rule_map_ok (rules\<^sub>0 @ [r]) rs1"
    by (force simp: rule_map_ok_def map_of_eq_None_iff)
  from Cons.IH [OF rest this] show ?case by simp
qed simp

lemma rule_map_ok_lookup: "rule_map_ok rules rs \<Longrightarrow> map_of rs n = Some rule \<Longrightarrow> rule \<in> set rules \<and> policy_rule_name rule = n"
  by (auto simp: rule_map_ok_def dest!: map_of_SomeD)

text \<open>No tag transform has one of the two special rules.\<close>

definition plain_transforms :: "(op_id \<times> operation) list \<Rightarrow> bool" where
  "plain_transforms opers \<longleftrightarrow> (\<forall>oper \<in> set opers. GetRuleName (snd oper) \<noteq> Inr kIntersectItagRule \<and>
     GetRuleName (snd oper) \<noteq> Inr kUnionItagRule)"

lemma decode_rules_of_operations:
  assumes "fold_result (decode_rule_of_operation ord m rs) opers (counts, b) = Inr (counts', b')" and "is_order ord"
    and "rule_map_ok rules rs" and "rules_decoded rules opers\<^sub>0 b" and "\<forall>oper \<in> set opers. sql_shape (snd oper)"
    and "plain_transforms opers"
  shows "rules_decoded rules (opers\<^sub>0 @ opers) b'"
  using assms(1,4-)
proof (induction opers arbitrary: opers\<^sub>0 counts b)
  case (Cons oper opers)
  then obtain c1 b1 where step: "decode_rule_of_operation ord m rs oper (counts, b) = Inr (c1, b1)"
    and rest: "fold_result (decode_rule_of_operation ord m rs) opers (c1, b1) = Inr (counts', b')" by auto
  from Cons.prems(3,4) have oper: "sql_shape (snd oper)" "GetRuleName (snd oper) \<noteq> Inr kIntersectItagRule"
    "GetRuleName (snd oper) \<noteq> Inr kUnionItagRule" and opers: "\<forall>oper \<in> set opers. sql_shape (snd oper)" "plain_transforms opers"
    by (simp_all add: plain_transforms_def)
  have "rules_decoded rules (opers\<^sub>0 @ [oper]) b1"
    by (rule decode_rule_of_operation_step [OF step assms(2) rule_map_ok_lookup [OF assms(3)] Cons.prems(2) oper])
  from Cons.IH [OF rest this opers] show ?case by simp
qed simp

lemma DecodeSqlPolicyRules_decoded:
  assumes "DecodeSqlPolicyRules ord rules m seeds = Inr ir" and "is_order ord"
    and "\<forall>oper \<in> set (module_operations m). sql_shape (snd oper)" and "plain_transforms (module_operations m)"
  shows "\<exists>b. ir = Build b \<and> rules_decoded rules (module_operations m) b" and "distinct (map policy_rule_name rules)"
proof -
  from assms(1) obtain b0 rs counts b where b0: "new_rules_builder seeds = Inr b0"
    and rs: "fold_result add_policy_rule rules [] = Inr rs"
    and run: "fold_result (decode_rule_of_operation ord m rs) (module_operations m) ([], b0) = Inr (counts, b)"
    and ir: "ir = Build b"
    by (auto simp: DecodeSqlPolicyRules_def module_fold)
  have rs': "rule_map_ok rules rs" using add_policy_rules [OF rs, of "[]"] by (simp add: rule_map_ok_def)
  then show "distinct (map policy_rule_name rules)" by (simp add: rule_map_ok_def)
  have "rules_decoded rules [] b0"
    using b0 by (auto simp: new_rules_builder_eq rules_decoded_def tags_inv_def split: if_splits)
  from decode_rules_of_operations [OF run assms(2) rs' this assms(3,4)] ir
  show "\<exists>b. ir = Build b \<and> rules_decoded rules (module_operations m) b" by auto
qed

section \<open>The tags of the pass as states of the analysis\<close>

definition tag_ids :: "rules_builder \<Rightarrow> string set \<Rightarrow> tag_id set" where
  "tag_ids b S = {k. \<exists>t \<in> S. builder_tag_id b t = Some k}"

definition tags_state :: "rules_builder \<Rightarrow> tag_sets \<Rightarrow> abstract_ifc_tags" where
  "tags_state b tags = IfcTags (tag_ids b (fst tags)) (tag_ids b (snd tags))"

lemma tag_ids_simps [simp]:
  "tag_ids b {} = {}" "tag_ids b (S \<union> T) = tag_ids b S \<union> tag_ids b T" "tag_ids b (\<Union>x \<in> X. f x) = (\<Union>x \<in> X. tag_ids b (f x))"
  by (auto simp: tag_ids_def)

lemma builder_tag_id_inj: "builder_ok b \<Longrightarrow> builder_tag_id b t = Some k \<Longrightarrow> builder_tag_id b t' = Some k \<Longrightarrow> t = t'"
  using tags_inv_lookup [of "builder_tag_names b" "builder_tags b" t k] tags_inv_lookup [of "builder_tag_names b" "builder_tags b" t' k]
  by blast

lemma tag_ids_member: "builder_ok b \<Longrightarrow> builder_tag_id b t = Some k \<Longrightarrow> k \<in> tag_ids b S \<longleftrightarrow> t \<in> S"
  unfolding tag_ids_def mem_Collect_eq using builder_tag_id_inj [of b t k] by blast

lemma tag_ids_single: "builder_tag_id b t = Some k \<Longrightarrow> tag_ids b {t} = {k}"
  by (auto simp: tag_ids_def)

lemma tag_ids_remove:
  assumes "builder_ok b" and "builder_tag_id b t = Some k"
  shows "tag_ids b {u \<in> S. u \<noteq> t} = tag_ids b S - {k}"
proof -
  have "k' \<noteq> k" if "builder_tag_id b u = Some k'" "u \<noteq> t" for u k'
    using that builder_tag_id_inj [OF assms(1,2), of u] by blast
  with assms(2) show ?thesis by (auto simp: tag_ids_def)
qed

lemma tags_state_not_Bottom [simp]: "tags_state b tags \<noteq> Bottom" "Bottom \<noteq> tags_state b tags"
  by (simp_all add: tags_state_def)

text \<open>The default transformer.\<close>

lemma default_effect_tags:
  "default_effect (map (\<lambda>x. tags_state b (env x)) xs) = tags_state b (\<Union>x \<in> set xs. fst (env x), {})"
proof -
  have "\<exists>i. fold (\<lambda>cur so_far. Join so_far cur) (map (\<lambda>x. tags_state b (env x)) ys) (IfcTags s i\<^sub>0) =
      IfcTags (s \<union> tag_ids b (\<Union>x \<in> set ys. fst (env x))) i" for ys s i\<^sub>0
  proof (induction ys arbitrary: s i\<^sub>0)
    case (Cons y ys)
    let ?j = "{tag \<in> i\<^sub>0. tag \<in> tag_ids b (snd (env y))}"
    from Cons.IH [of "s \<union> tag_ids b (fst (env y))" ?j] show ?case by (simp add: tags_state_def Un_assoc)
  qed simp
  note joined = this
  show ?thesis
  proof (cases xs)
    case (Cons x ys)
    obtain i where "fold (\<lambda>cur so_far. Join so_far cur) (map (\<lambda>x. tags_state b (env x)) ys) (tags_state b (env x)) =
        IfcTags (tag_ids b (fst (env x)) \<union> tag_ids b (\<Union>x \<in> set ys. fst (env x))) i"
      using joined [of ys "tag_ids b (fst (env x))" "tag_ids b (snd (env x))"] by (auto simp: tags_state_def)
    with Cons show ?thesis by (simp add: default_effect_def tags_state_def)
  qed (simp add: default_effect_def tags_state_def)
qed

section \<open>One operation\<close>

lemma dl_attribute_lookup:
  "hm_wf (attributes oper) \<Longrightarrow> map_of (dl_attributes (ir_dl_operation (oid, oper))) = map_of (attributes oper)"
proof -
  assume wf: "hm_wf (attributes oper)"
  then have "distinct (map fst (sort_key fst (attributes oper)))" by (auto simp: hm_wf_def distinct_map)
  with wf show ?thesis by (simp add: ir_dl_operation_def hm_wf_def map_of_inject_set)
qed

lemma premise_holds_iff:
  assumes "premise_of b oper p q" and "hm_wf (attributes oper)" and "builder_ok b"
  shows "premise_tag q \<in> integrity_of (map (\<lambda>x. tags_state b (env x)) (inputs oper) ! premise_index q) \<longleftrightarrow>
    precondition_met env (ir_dl_operation (oid, oper)) (argument p, required_integrity_tag p)"
proof -
  from assms(1) have q: "indexed_preconditions oper (argument p) = Some (premise_index q)" "1 \<le> premise_index q"
    "premise_index q < length (inputs oper)" "builder_tag_id b (required_integrity_tag p) = Some (premise_tag q)"
    by (simp_all add: premise_of_def)
  from q(1,2) obtain i where i: "argument p \<noteq> kRuleNameAttribute" "map_of (attributes oper) (argument p) = Some (Int64Attribute i)"
    "premise_index q = nat i" "0 \<le> i"
    by (auto simp: indexed_preconditions_def split: if_splits option.splits attribute.splits)
  from i q(3) have "operand_at (ir_dl_operation (oid, oper)) i = Some (inputs oper ! premise_index q)"
    by (simp add: operand_at_def ir_dl_operation_def)
  with i dl_attribute_lookup [OF assms(2), of oid] have
    "precondition_met env (ir_dl_operation (oid, oper)) (argument p, required_integrity_tag p) \<longleftrightarrow>
      required_integrity_tag p \<in> snd (env (inputs oper ! premise_index q))"
    by (simp add: precondition_met_def number_of_def)
  with q(3) tag_ids_member [OF assms(3) q(4)] show ?thesis by (simp add: tags_state_def)
qed

lemma premises_hold_iff:
  assumes "list_all2 (premise_of b oper) pres ps" and "hm_wf (attributes oper)" and "builder_ok b"
  shows "premises_hold \<lparr>rule_conclusion = c, rule_premises = ps\<rparr> (map (\<lambda>x. tags_state b (env x)) (inputs oper)) \<longleftrightarrow>
    list_all (precondition_met env (ir_dl_operation (oid, oper))) (map (\<lambda>p. (argument p, required_integrity_tag p)) pres)"
proof -
  let ?ins = "map (\<lambda>x. tags_state b (env x)) (inputs oper)"
  have "(\<forall>q \<in> set ps. ?ins ! premise_index q = Bottom \<or> premise_tag q \<in> integrity_of (?ins ! premise_index q)) \<longleftrightarrow>
    list_all (precondition_met env (ir_dl_operation (oid, oper))) (map (\<lambda>p. (argument p, required_integrity_tag p)) pres)"
    using assms(1)
  proof (induction rule: list_all2_induct)
    case (Cons p pres q ps)
    have "premise_index q < length (inputs oper)" using Cons.hyps(1) by (simp add: premise_of_def)
    then have "?ins ! premise_index q \<noteq> Bottom" by simp
    with Cons.IH premise_holds_iff [OF Cons.hyps(1) assms(2,3), of env oid] show ?case by simp
  qed simp
  then show ?thesis by (simp add: premises_hold_def)
qed

lemma rule_name_of_ir:
  "hm_wf (attributes oper) \<Longrightarrow> rule_name_of (ir_dl_operation (oid, oper)) = Some r \<longleftrightarrow> GetRuleName oper = Inr r"
  by (auto simp: rule_name_of_def GetRuleName_def check_some_def dl_attribute_lookup split: option.splits attribute.splits)

lemma transform_rules_of:
  assumes "transform_rules b oper rule ors" and "hm_wf (attributes oper)" and "GetRuleName oper = Inr (policy_rule_name rule)"
    and "distinct (map policy_rule_name policy)" and "rule \<in> set policy"
  obtains res where "dl_result_of (result_action rule) (result_tag rule) = Some res"
    "rules_of (dl_rules_of policy) (ir_dl_operation (oid, oper)) = [\<lparr>policyRuleName = policy_rule_name rule, rule_result = res,
       preconditionList = map (\<lambda>p. (argument p, required_integrity_tag p)) (rule_preconditions rule)\<rparr>]"
proof -
  from assms(1) obtain res where res: "dl_result_of (result_action rule) (result_tag rule) = Some res"
    by (cases "result_action rule") (auto simp: transform_rules_def)
  moreover have "rule_name_of (ir_dl_operation (oid, oper)) = Some (policy_rule_name rule)"
    using assms(3) by (simp add: rule_name_of_ir [OF assms(2)])
  ultimately show ?thesis by (intro that [of res] rules_of_dl_rules [OF assms(4,5)]) (simp_all add: dl_rule_of_def)
qed

text \<open>The rules of one tag transform do to the states what the pass does to the tags.\<close>

lemma fold_transform_rules:
  assumes rules: "transform_rules b oper rule ors" and "builder_ok b" and shape: "sql_shape oper"
    and transform: "op_name (op_of oper) = kTagTransformOp" and name: "GetRuleName oper = Inr (policy_rule_name rule)"
    and policy: "distinct (map policy_rule_name policy)" "rule \<in> set policy"
  shows "\<exists>seq. map_of ors 0 = Some seq \<and> fold (\<lambda>r. rule_effect r (map (\<lambda>x. tags_state b (env x)) (inputs oper))) seq cur =
    tags_state b (transform_tags (dl_rules_of policy) env (ir_dl_operation (oid, oper)))"
proof -
  let ?op = "ir_dl_operation (oid, oper)" and ?ins = "map (\<lambda>x. tags_state b (env x)) (inputs oper)"
  let ?pres = "map (\<lambda>p. (argument p, required_integrity_tag p)) (rule_preconditions rule)"
  let ?met = "list_all (precondition_met env ?op) ?pres"
  note facts = tag_transform_shape [OF shape transform]
  from rules obtain modify t ps where ors: "ors = [(0, [\<lparr>rule_conclusion = CopyInput 0, rule_premises = []\<rparr>,
      \<lparr>rule_conclusion = ModifyTag modify t, rule_premises = ps\<rparr>])]" and modify: "GetModifyTagKind (result_action rule) = Inr modify"
    and t: "builder_tag_id b (result_tag rule) = Some t" and ps: "list_all2 (premise_of b oper) (rule_preconditions rule) ps"
    by (auto simp: transform_rules_def)
  let ?d = "\<lambda>res. \<lparr>policyRuleName = policy_rule_name rule, rule_result = res, preconditionList = ?pres\<rparr>"
  from transform_rules_of [OF rules facts(1) name policy, of oid] obtain res where
    res: "dl_result_of (result_action rule) (result_tag rule) = Some res"
    and rules_of: "rules_of (dl_rules_of policy) ?op = [?d res]" by blast
  have active: "active_results (dl_rules_of policy) env ?op = (if ?met then [res] else [])"
    by (simp add: active_results_def rules_of)
  obtain x xs where ins: "inputs oper = x # xs" using facts(2) by (cases "inputs oper") auto
  have transformed: "operand_at ?op 0 = Some x" by (simp add: operand_at_def ir_dl_operation_def ins)
  have hold: "premises_hold \<lparr>rule_conclusion = ModifyTag modify t, rule_premises = ps\<rparr> ?ins \<longleftrightarrow> ?met"
    by (rule premises_hold_iff [OF ps facts(1) assms(2)])
  have "fold (\<lambda>r. rule_effect r ?ins) [\<lparr>rule_conclusion = CopyInput 0, rule_premises = []\<rparr>,
      \<lparr>rule_conclusion = ModifyTag modify t, rule_premises = ps\<rparr>] cur =
    (if ?met then conclude (ModifyTag modify t) ?ins (tags_state b (env x)) else tags_state b (env x))"
  proof -
    have "rule_effect \<lparr>rule_conclusion = CopyInput 0, rule_premises = []\<rparr> ?ins cur = tags_state b (env x)"
      by (simp add: rule_effect_def premises_hold_def ins)
    then show ?thesis by (simp add: rule_effect_def [of "\<lparr>rule_conclusion = ModifyTag modify t, rule_premises = ps\<rparr>"] hold)
  qed
  also have "\<dots> = tags_state b (transform_tags (dl_rules_of policy) env ?op)"
  proof (cases ?met)
    case True
    have split: "{u \<in> S. RemoveConfidentialityTag u \<notin> {RemoveConfidentialityTag v}} = {u \<in> S. u \<noteq> v}" for S v by auto
    from True modify res show ?thesis
      by (cases "result_action rule")
        (auto simp: Let_def transform_tags_def active transformed tags_state_def tag_ids_single [OF t] tag_ids_remove [OF assms(2) t])
  qed (simp add: Let_def transform_tags_def active transformed)
  finally show ?thesis by (simp add: ors)
qed

text \<open>One operation of a decoded module.\<close>

lemma output_effect_tags:
  assumes decoded: "rules_decoded policy opers b" and "distinct (map policy_rule_name policy)" and "distinct (map fst opers)"
    and plain: "plain_transforms opers" and oper: "(oid, oper) \<in> set opers"
    and shapes: "\<forall>o' \<in> set opers. sql_shape (snd o')"
  shows "output_effect (Build b) oid (map (\<lambda>x. tags_state b (env x)) (inputs oper)) 0 =
    tags_state b (operation_tags (dl_rules_of policy) (map ir_dl_operation opers) env (ir_dl_operation (oid, oper)))"
proof (cases "op_name (op_of oper) = kTagTransformOp")
  case True
  with decoded oper have "transform_decoded policy b (oid, oper)" by (auto simp: rules_decoded_def)
  then obtain rule action ors where rule: "rule \<in> set policy" "GetRuleName oper = Inr (policy_rule_name rule)"
    and action: "map_of (builder_actions b) oid = Some action" "map_of (builder_action_rules b) action = Some ors"
    and ors: "transform_rules b oper rule ors" by (auto simp: transform_decoded_def)
  have "builder_ok b" "sql_shape oper" using decoded shapes oper by (auto simp: rules_decoded_def)
  from fold_transform_rules [OF ors this True rule(2) assms(2) rule(1)] action True show ?thesis
    by (fastforce simp: output_effect_def rules_for_def GetOutputRulesForOperation_def GetOutputRulesForAction_def
        Build_def operation_tags_def ir_dl_operation_def)
next
  case False
  have "map_of (builder_actions b) oid = None"
  proof (rule ccontr)
    assume "map_of (builder_actions b) oid \<noteq> None"
    with decoded obtain o' where "o' \<in> set opers" "is_transform o'" "fst o' = oid" by (auto simp: rules_decoded_def)
    with assms(3) oper False show False by (metis eq_key_imp_eq_value prod.collapse snd_conv)
  qed
  then have "rules_for (Build b) oid 0 = []" by (simp add: rules_for_def GetOutputRulesForOperation_def Build_def)
  moreover have "\<not> has_special_rule (map ir_dl_operation opers) (ir_dl_operation (oid, oper)) r" if "r = kUnionItagRule \<or> r = kIntersectItagRule" for r
  proof -
    have "rule_name_of (ir_dl_operation o') \<noteq> Some r" if "o' \<in> set opers" for o'
    proof -
      have "hm_wf (attributes (snd o'))" "GetRuleName (snd o') \<noteq> Inr r"
        using shapes plain that \<open>r = kUnionItagRule \<or> r = kIntersectItagRule\<close> by (auto simp: sql_shape_attributes plain_transforms_def)
      then show ?thesis using rule_name_of_ir [of "snd o'" "fst o'" r] by simp
    qed
    then show ?thesis by (auto simp: has_special_rule_def list_ex_iff)
  qed
  then have "merge_integrity (map ir_dl_operation opers) env (ir_dl_operation (oid, oper)) = {}"
    by (simp add: merge_integrity_def Let_def)
  then have "operation_tags (dl_rules_of policy) (map ir_dl_operation opers) env (ir_dl_operation (oid, oper)) =
      (\<Union>x \<in> set (inputs oper). fst (env x), {})"
  proof -
    have "dl_operator (ir_dl_operation (oid, oper)) \<noteq> kTagTransformOp" "dl_operandList (ir_dl_operation (oid, oper)) = inputs oper"
      using False by (simp_all add: ir_dl_operation_def)
    with \<open>merge_integrity _ _ _ = {}\<close> show ?thesis by (simp add: operation_tags_def)
  qed
  ultimately show ?thesis by (simp add: output_effect_def default_effect_tags)
qed

section \<open>The fixpoint is the pass\<close>

definition pass_state :: "sql_policy_rule list \<Rightarrow> (op_id \<times> operation) list \<Rightarrow> rules_builder \<Rightarrow> ir_value \<Rightarrow> abstract_ifc_tags" where
  "pass_state policy opers b x = tags_state b (verifier_pass (dl_rules_of policy) (map ir_dl_operation opers) x)"

text \<open>A decoded module with its rules: no transform has a special rule, and secrecy is added without
  preconditions only.\<close>

definition decoded_with ::
  "sql_policy_rule list \<Rightarrow> (op_id \<times> operation) list \<Rightarrow> rules_builder \<Rightarrow> bool" where
  "decoded_with policy opers b \<longleftrightarrow> rules_decoded policy opers b \<and> distinct (map policy_rule_name policy) \<and>
     distinct (map fst opers) \<and> ssa_ordered opers \<and> plain_transforms opers \<and>
     (\<forall>oper \<in> set opers. sql_shape (snd oper) \<and> rules_fit (Build b) oper) \<and>
     (\<forall>rule \<in> set policy. result_action rule = ADD_CONFIDENTIALITY \<longrightarrow> rule_preconditions rule = [])"

lemma decoded_one_output: "decoded_with policy opers b \<Longrightarrow> (oid, oper) \<in> set opers \<Longrightarrow> NumberOfOutputs oper = 1"
  by (auto simp: decoded_with_def sql_shape_def NumberOfOutputs_def make_operator_def)
    (metis operator.select_convs(2) snd_conv)

lemma pass_state_output:
  assumes "decoded_with policy opers b" and "(oid, oper) \<in> set opers"
  shows "output_effect (Build b) oid (map (pass_state policy opers b) (inputs oper)) 0 =
    pass_state policy opers b (OperationResult oid 0)"
proof -
  have "OperationResult oid 0 \<in> set (dl_resultList (ir_dl_operation (oid, oper)))"
    using decoded_one_output [OF assms] by (simp add: ir_dl_operation_def result_values_def)
  moreover have "defined_in_order (map ir_dl_operation opers)"
    using assms(1) by (intro ir_defined_in_order) (simp_all add: decoded_with_def)
  moreover have "ir_dl_operation (oid, oper) \<in> set (map ir_dl_operation opers)" using assms(2) by simp
  ultimately have "verifier_pass (dl_rules_of policy) (map ir_dl_operation opers) (OperationResult oid 0) =
      operation_tags (dl_rules_of policy) (map ir_dl_operation opers)
        (verifier_pass (dl_rules_of policy) (map ir_dl_operation opers)) (ir_dl_operation (oid, oper))"
    by (intro verifier_pass_result)
  moreover have "rules_decoded policy opers b" "distinct (map policy_rule_name policy)" "distinct (map fst opers)"
    "plain_transforms opers" "\<forall>oper \<in> set opers. sql_shape (snd oper)"
    using assms(1) by (simp_all add: decoded_with_def)
  ultimately show ?thesis
    using output_effect_tags [of policy opers b oid oper, OF _ _ _ _ assms(2)] unfolding pass_state_def by simp
qed

lemma pass_state_initial:
  assumes "\<not> is_operation_result v"
  shows "pass_state policy opers b v = IfcTags {} {}"
proof -
  have "v \<notin> (\<Union>op \<in> set (map ir_dl_operation opers). set (dl_resultList op))"
    using assms by (auto simp: ir_dl_operation_def result_values_def)
  from verifier_pass_other [OF this] show ?thesis by (simp add: pass_state_def tags_state_def)
qed

lemma pass_state_solution:
  assumes "decoded_with policy opers b" and "is_order ord"
  shows "solution (taint_semantics ord (Build b)) opers (\<lambda>v. Some (pass_state policy opers b v))"
proof -
  have look: "look Bottom (\<lambda>v. Some (pass_state policy opers b v)) = pass_state policy opers b"
    by (simp add: look_def fun_eq_iff)
  have "transform (taint_semantics ord (Build b)) (\<lambda>v. Some (pass_state policy opers b v)) (oid, oper) =
      Inr [pass_state policy opers b (OperationResult oid 0)]" if "(oid, oper) \<in> set opers" for oid oper
  proof -
    have "rules_fit (Build b) (oid, oper)" using assms(1) that by (auto simp: decoded_with_def)
    from transformer_eq [OF assms(2) this, of "map (pass_state policy opers b) (inputs oper)"]
    show ?thesis
      by (simp add: transform_def taint_semantics_def look decoded_one_output [OF assms(1) that] pass_state_output [OF assms(1) that])
  qed
  then show ?thesis
    unfolding solution_def
    by (fastforce simp: taint_semantics_def GetInitialState_def pass_state_initial below_Join_iff decoded_one_output [OF assms(1)])
qed

text \<open>A solution below the states of the pass is the pass, on the inputs of the operations.\<close>

lemma least_solution_is_pass:
  assumes decoded: "decoded_with policy opers b" and ord: "is_order ord"
    and sol: "solution (taint_semantics ord (Build b)) opers vs"
    and least: "\<And>v x. vs v = Some x \<Longrightarrow> x \<le> pass_state policy opers b v"
  shows "k < length opers \<Longrightarrow> v \<in> set (inputs (snd (opers ! k))) \<Longrightarrow> vs v = Some (pass_state policy opers b v)"
proof (induction k arbitrary: v rule: less_induct)
  case (less k)
  have mem: "opers ! k \<in> set opers" using less.prems(1) by simp
  show ?case
  proof (cases "is_operation_result v")
    case False
    from solution_initial [OF sol mem less.prems(2) False] pass_state_initial [OF False] show ?thesis by simp
  next
    case True
    have "ssa_ordered opers" using decoded by (simp add: decoded_with_def)
    with less.prems True obtain j where j: "j < k" "v \<in> op_outputs (opers ! j)" unfolding ssa_ordered_def by blast
    obtain oid oper where oper: "opers ! j = (oid, oper)" by (cases "opers ! j")
    have "j < length opers" using j(1) less.prems(1) by simp
    with oper have mem_j: "(oid, oper) \<in> set opers" by (metis nth_mem)
    have v: "v = OperationResult oid 0" using j(2) decoded_one_output [OF decoded mem_j] by (auto simp: oper op_outputs_def)
    have ins: "vs x = Some (pass_state policy opers b x)" if "x \<in> set (inputs oper)" for x
      using less.IH [OF j(1) \<open>j < length opers\<close>, of x] that by (simp add: oper)
    then have "map (look Bottom vs) (inputs oper) = map (pass_state policy opers b) (inputs oper)" by (simp add: look_def)
    moreover have "activated vs oper" using ins by (cases "inputs oper") (auto simp: activated_def)
    moreover have "rules_fit (Build b) (oid, oper)" using decoded mem_j by (auto simp: decoded_with_def)
    moreover have "0 < NumberOfOutputs oper" using decoded_one_output [OF decoded mem_j] by simp
    ultimately obtain x where "vs v = Some x" "pass_state policy opers b v \<le> x"
      using solution_output [OF sol ord mem_j, of 0] pass_state_output [OF decoded mem_j] by (auto simp: v cong: map_cong)
    with least [of v x] show ?thesis by (simp add: order.antisym)
  qed
qed

text \<open>Every confidentiality tag of the pass has an id.\<close>

lemma pass_tag_known:
  assumes "decoded_with policy opers b" and "t \<in> fst (verifier_pass (dl_rules_of policy) (map ir_dl_operation opers) x)"
  shows "builder_tag_id b t \<noteq> None"
proof -
  let ?ops = "map ir_dl_operation opers" and ?rules = "dl_rules_of policy"
  let ?env = "verifier_pass ?rules ?ops"
  have order: "defined_in_order ?ops" using assms(1) by (intro ir_defined_in_order) (simp_all add: decoded_with_def)
  have unknown: "x \<notin> (\<Union>op \<in> set ?ops. set (dl_resultList op)) \<Longrightarrow> fst (?env x) = {}" for x by (simp add: verifier_pass_other)
  have "\<forall>t \<in> fst (?env r). builder_tag_id b t \<noteq> None" if "op \<in> set ?ops" "r \<in> set (dl_resultList op)" for op r
    using order that
  proof (rule definition_order_induct)
    fix op r assume op: "op \<in> set ?ops" "r \<in> set (dl_resultList op)"
      and IH: "\<And>op' x. op' \<in> set ?ops \<Longrightarrow> x \<in> set (dl_operandList op) \<Longrightarrow> x \<in> set (dl_resultList op') \<Longrightarrow>
        \<forall>t \<in> fst (?env x). builder_tag_id b t \<noteq> None"
    have ins: "builder_tag_id b t \<noteq> None" if "x \<in> set (dl_operandList op)" "t \<in> fst (?env x)" for x t
      using unknown [of x] IH [of _ x] that by blast
    show "\<forall>t \<in> fst (?env r). builder_tag_id b t \<noteq> None"
    proof
      fix t assume t: "t \<in> fst (?env r)"
      have "?env r = operation_tags ?rules ?ops ?env op" by (rule verifier_pass_result [OF order op])
      with t have t: "t \<in> fst (operation_tags ?rules ?ops ?env op)" by simp
      show "builder_tag_id b t \<noteq> None"
      proof (cases "dl_operator op = kTagTransformOp")
        case False
        with t ins show ?thesis by (auto simp: operation_tags_def)
      next
        case True
        with t have "t \<in> fst (transform_tags ?rules ?env op)" by (simp add: operation_tags_def)
        then consider x where "operand_at op 0 = Some x" "t \<in> fst (?env x)" | "AddConfidentialityTag t \<in> set (active_results ?rules ?env op)"
          by (auto simp: transform_tags_def Let_def split: option.splits)
        then show ?thesis
        proof cases
          case 1
          from ins [OF in_operands [OF this(1)] this(2)] show ?thesis .
        next
          case 2
          from op(1) obtain oid oper where oper: "(oid, oper) \<in> set opers" "op = ir_dl_operation (oid, oper)" by auto
          with True have "op_name (op_of oper) = kTagTransformOp" by (simp add: ir_dl_operation_def)
          with assms(1) oper(1) have "transform_decoded policy b (oid, oper)" "sql_shape oper" "distinct (map policy_rule_name policy)"
            by (auto simp: decoded_with_def rules_decoded_def)
          then obtain rule ors where rule: "rule \<in> set policy" "GetRuleName oper = Inr (policy_rule_name rule)"
            and ors: "transform_rules b oper rule ors" unfolding transform_decoded_def snd_conv by blast
          from transform_rules_of [OF ors sql_shape_attributes [OF \<open>sql_shape oper\<close>] rule(2) \<open>distinct _\<close> rule(1), of oid] obtain res where
            res: "dl_result_of (result_action rule) (result_tag rule) = Some res"
            and rules_of: "rules_of ?rules (ir_dl_operation (oid, oper)) = [\<lparr>policyRuleName = policy_rule_name rule, rule_result = res,
              preconditionList = map (\<lambda>p. (argument p, required_integrity_tag p)) (rule_preconditions rule)\<rparr>]" by blast
          have "AddConfidentialityTag t = res"
            using 2 by (simp add: active_results_def oper(2) rules_of split: if_splits)
          with res have "t = result_tag rule"
            by (cases "result_action rule") auto
          with ors show ?thesis by (auto simp: transform_rules_def)
        qed
      qed
    qed
  qed
  with unknown [of x] assms(2) show ?thesis by blast
qed

lemma pass_state_no_secrecy:
  assumes "decoded_with policy opers b"
  shows "(\<exists>i. pass_state policy opers b x = IfcTags {} i) \<longleftrightarrow>
    fst (verifier_pass (dl_rules_of policy) (map ir_dl_operation opers) x) = {}"
  using pass_tag_known [OF assms, of _ x] by (fastforce simp: pass_state_def tags_state_def tag_ids_def)

lemma output_tags_of_inputs:
  assumes "decoded_with policy opers b"
  shows "output_tags (dl_rules_of policy) (map ir_dl_operation opers) =
    (\<Union>x \<in> egress_inputs {kSqlOutputOp} opers. fst (verifier_pass (dl_rules_of policy) (map ir_dl_operation opers) x))"
proof -
  let ?ops = "map ir_dl_operation opers" and ?env = "verifier_pass (dl_rules_of policy) (map ir_dl_operation opers)"
  have order: "defined_in_order ?ops" using assms by (intro ir_defined_in_order) (simp_all add: decoded_with_def)
  have result: "dl_resultList (ir_dl_operation (oid, oper)) = [OperationResult oid 0]" if "(oid, oper) \<in> set opers" for oid oper
    using decoded_one_output [OF assms that] by (simp add: ir_dl_operation_def result_values_def)
  have "fst (?env (OperationResult oid 0)) = (\<Union>x \<in> set (inputs oper). fst (?env x))"
    if "(oid, oper) \<in> set opers" "op_name (op_of oper) = kSqlOutputOp" for oid oper
  proof -
    have "?env (OperationResult oid 0) = operation_tags (dl_rules_of policy) ?ops ?env (ir_dl_operation (oid, oper))"
      using that(1) result [OF that(1)] by (intro verifier_pass_result [OF order]) simp_all
    moreover have "dl_operator (ir_dl_operation (oid, oper)) \<noteq> kTagTransformOp" "dl_operandList (ir_dl_operation (oid, oper)) = inputs oper"
      using that(2) by (simp_all add: ir_dl_operation_def kSqlOutputOp_def kTagTransformOp_def)
    ultimately show ?thesis by (simp add: operation_tags_def)
  qed
  moreover have "set (filter (\<lambda>op. dl_operator op = kSqlOutputOp) ?ops) =
      ir_dl_operation ` {(oid, oper). (oid, oper) \<in> set opers \<and> op_name (op_of oper) = kSqlOutputOp}"
    by (force simp: ir_dl_operation_def)
  ultimately have "output_tags (dl_rules_of policy) ?ops =
      (\<Union>(oid, oper) \<in> {(oid, oper). (oid, oper) \<in> set opers \<and> op_name (op_of oper) = kSqlOutputOp}. \<Union>x \<in> set (inputs oper). fst (?env x))"
    unfolding output_tags_def by (simp only: image_image) (intro SUP_cong, auto simp: result)
  then show ?thesis by (simp only: egress_inputs_def) blast
qed

lemma decoded_rules_monotone:
  assumes "decoded_with policy opers b"
  shows "monotone_rules (Build b)"
proof -
  have "monotone_rule r" if "(action, ors) \<in> set (builder_action_rules b)" "(i, seq) \<in> set ors" "r \<in> set seq" for action ors i seq r
  proof -
    from assms that(1) obtain oper rule where "rule \<in> set policy" and ors: "transform_rules b oper rule ors"
      by (fastforce simp: decoded_with_def rules_decoded_def)
    with assms have "result_action rule = ADD_CONFIDENTIALITY \<longrightarrow> rule_preconditions rule = []" by (simp add: decoded_with_def)
    with ors that(2,3) show ?thesis
      by (cases "result_action rule") (auto simp: transform_rules_def monotone_rule_def)
  qed
  then show ?thesis by (fastforce simp: monotone_rules_def Build_def)
qed

lemma engine_verdict:
  assumes decoded: "decoded_with policy (module_operations (snd m)) b" and "orders_ok ords" and "is_order ord"
  shows "IsModulePolicyCompliant ords ord (Build b) {kSqlOutputOp} m =
    Some (Inr (pass_compliant (dl_rules_of policy) (map ir_dl_operation (module_operations (snd m)))))"
proof -
  let ?opers = "module_operations (snd m)"
  have fit: "module_fits (Build b) (snd m)" and ssa: "ssa_ordered ?opers"
    using decoded by (auto simp: decoded_with_def module_fits_def)
  then have ok: "is_order (fst (ord, Build b)) \<and> (\<forall>oper \<in> set ?opers. rules_fit (snd (ord, Build b)) oper)"
    "distinct (map fst ?opers)" "monotone_rules (snd (ord, Build b))"
    using assms(3) decoded_rules_monotone [OF decoded] by (auto simp: module_fits_def)
  from taint.compute_fixpoint_least [OF ok assms(2)] obtain vs where
    run: "ComputeFixpoint ords m (taint_semantics ord (Build b)) = Some (Inr vs)"
    and sol: "solution (taint_semantics ord (Build b)) ?opers (map_of vs)"
    and least: "\<And>X v x. solution (taint_semantics ord (Build b)) ?opers X \<Longrightarrow> map_of vs v = Some x \<Longrightarrow> \<exists>y. X v = Some y \<and> x \<le> y"
    by (auto simp: taint_semantics_def below_Join_iff)
  have below: "x \<le> pass_state policy ?opers b v" if "map_of vs v = Some x" for v x
    using least [OF pass_state_solution [OF decoded assms(3)] that] by simp
  have states: "map_of vs v = Some (pass_state policy ?opers b v)" if "v \<in> egress_inputs {kSqlOutputOp} ?opers" for v
  proof -
    from that obtain oid oper where "(oid, oper) \<in> set ?opers" "v \<in> set (inputs oper)" by (auto simp: egress_inputs_def)
    then obtain k where "k < length ?opers" "v \<in> set (inputs (snd (?opers ! k)))" by (metis in_set_conv_nth snd_conv)
    from least_solution_is_pass [OF decoded assms(3) sol below this] show ?thesis .
  qed
  from checker_verdict [OF fit ssa assms(2,3)] obtain vs' compliant where
    verdict: "ComputeIfcTags ords ord (Build b) m = Some (Inr vs')" "IsModulePolicyCompliant ords ord (Build b) {kSqlOutputOp} m = Some (Inr compliant)"
      "compliant \<longleftrightarrow> (\<forall>x \<in> egress_inputs {kSqlOutputOp} ?opers. \<exists>i. map_of vs' x = Some (IfcTags {} i))" by blast
  have "vs' = vs" using verdict(1) run by (simp add: ComputeIfcTags_def taint_semantics_def)
  with verdict(3) states have "compliant \<longleftrightarrow> (\<forall>x \<in> egress_inputs {kSqlOutputOp} ?opers. \<exists>i. pass_state policy ?opers b x = IfcTags {} i)" by simp
  with verdict(2) pass_state_no_secrecy [OF decoded] show ?thesis
    by (simp add: pass_compliant_def output_tags_of_inputs [OF decoded])
qed

section \<open>Properties\<close>

lemma decoded_arena_with:
  assumes "decode_arena pord this block_addr addr arena = Inr dc" and "is_order pord"
    and rules: "DecodeSqlPolicyRules aord policy (global_module dc) seeds = Inr ir" and "is_order aord"
    and plain: "plain_transforms (module_operations (global_module dc))"
    and additions: "\<forall>rule \<in> set policy. result_action rule = ADD_CONFIDENTIALITY \<longrightarrow> rule_preconditions rule = []"
  shows "\<exists>b. ir = Build b \<and> decoded_with policy (module_operations (global_module dc)) b"
proof -
  let ?opers = "module_operations (global_module dc)"
  note ready = decoded_arena_ready [OF assms(1,2)]
  then have opers: "distinct (map fst ?opers)" "ssa_ordered ?opers" by (simp_all add: facts_ready_def)
  from DecodeSqlPolicyRules_decoded [OF rules assms(4) ready(2) plain] obtain b where b: "ir = Build b"
    "rules_decoded policy ?opers b" "distinct (map policy_rule_name policy)" by blast
  from decoded_rules_module_fits [OF rules assms(4) opers(1) ready(2)] have "\<forall>oper \<in> set ?opers. rules_fit (Build b) oper"
    by (simp add: module_fits_def b(1))
  with b opers ready(2) plain additions show ?thesis by (auto simp: decoded_with_def)
qed

text \<open>C15: The two policy engines agree on SQL expressions. For an arena and policy rules that both decode,
  where no tag transform asks for a special merge and confidentiality is added without preconditions, the
  abstract interpretation with the decoded inference rules, whose egress operations are the SQL outputs, and the
  driver with the Souffle engine, whose facts say the same policy rules and whose compiled program derives what the
  datalog rules say, both return a verdict and it is the same: that of the pass over the decoded operations.\<close>

theorem engines_agree:
  assumes "decode_arena pord this block_addr addr arena = Inr dc" and "is_order pord"
    and "DecodeSqlPolicyRules aord policy (global_module dc) seeds = Inr ir" and "is_order aord"
    and "plain_transforms (module_operations (global_module dc))"
    and "\<forall>rule \<in> set policy. result_action rule = ADD_CONFIDENTIALITY \<longrightarrow> rule_preconditions rule = []"
    and "orders_ok ords" and "is_order ord" and "platform_works P" and "sql_policy_verifier cks = Some program"
    and "derives_sql_rules program (sql_directory lg (context_storages (dc_ir_context dc)) (this, global_module dc)
      (SqlPolicyRulePolicy cks t)) (module_facts (context_storages (dc_ir_context dc)) (this, global_module dc)) (dl_rules_of policy)"
  shows "IsModulePolicyCompliant ords ord ir {kSqlOutputOp} (this, global_module dc) =
      Some (verify P lg pord this block_addr addr arena (SqlPolicyRulePolicy cks t)) \<and>
    verify P lg pord this block_addr addr arena (SqlPolicyRulePolicy cks t) =
      Inr (pass_compliant (dl_rules_of policy) (map ir_dl_operation (module_operations (global_module dc))))"
proof -
  from decoded_arena_with [OF assms(1-6)] obtain b where b: "ir = Build b"
    "decoded_with policy (module_operations (snd (this, global_module dc))) b" by auto
  have "facts_ready (context_storages (dc_ir_context dc)) (module_operations (snd (this, global_module dc)))"
    using decoded_arena_ready(1) [OF assms(1,2)] by simp
  moreover have "rules_consistent (dl_rules_of policy)"
    using b(2) by (intro dl_rules_of_consistent) (simp add: decoded_with_def)
  ultimately have "verify P lg pord this block_addr addr arena (SqlPolicyRulePolicy cks t) =
      Inr (pass_compliant (dl_rules_of policy) (map ir_dl_operation (module_operations (global_module dc))))"
    using checker_verdict_is_pass [OF assms(9) _ _ assms(10,11)] by (simp add: verify_decode_arena assms(1))
  with engine_verdict [OF b(2) assms(7,8)] b(1) show ?thesis by simp
qed

text \<open>The rules of the samples, and the two arenas with them.\<close>

definition sample_policy :: "sql_policy_rule list" where
  "sample_policy = [
     \<lparr>policy_rule_name = ''tag'', result_action = ADD_CONFIDENTIALITY, result_tag = ''secret'', rule_preconditions = []\<rparr>,
     \<lparr>policy_rule_name = ''vet'', result_action = ADD_INTEGRITY, result_tag = ''vetted'', rule_preconditions = []\<rparr>,
     \<lparr>policy_rule_name = ''drop'', result_action = REMOVE_CONFIDENTIALITY, result_tag = ''secret'',
       rule_preconditions = [\<lparr>argument = ''ok'', required_integrity_tag = ''vetted''\<rparr>]\<rparr>]"

lemma dl_rules_of_sample: "dl_rules_of sample_policy = sample_dl_rules"
  by code_simp

definition sample_arena_ok :: "id_expression_pair list \<Rightarrow> bool" where
  "sample_arena_ok arena = (case decode_arena id 0 0 1 arena of Inl _ \<Rightarrow> False | Inr dc \<Rightarrow>
     is_ok (DecodeSqlPolicyRules id sample_policy (global_module dc) []) \<and> list_all (\<lambda>oper.
       GetRuleName (snd oper) \<noteq> Inr kIntersectItagRule \<and> GetRuleName (snd oper) \<noteq> Inr kUnionItagRule) (module_operations (global_module dc)))"

lemma sample_arenas_ok: "sample_arena_ok secret_arena" "sample_arena_ok declassified_arena"
  by code_simp+

theorem engines_agree_witness:
  "(\<exists>dc ir. decode_arena id 0 0 1 secret_arena = Inr dc \<and> DecodeSqlPolicyRules id sample_policy (global_module dc) [] = Inr ir \<and>
      IsModulePolicyCompliant (orders_of id) id ir {kSqlOutputOp} (0, global_module dc) = Some (Inr False)) \<and>
   (\<exists>dc ir. decode_arena id 0 0 1 declassified_arena = Inr dc \<and> DecodeSqlPolicyRules id sample_policy (global_module dc) [] = Inr ir \<and>
      IsModulePolicyCompliant (orders_of id) id ir {kSqlOutputOp} (0, global_module dc) = Some (Inr True))"
proof -
  have rules: "rules_consistent sample_dl_rules" by (simp add: rules_consistent_def sample_dl_rules_def)
  have additions: "\<forall>rule \<in> set sample_policy. result_action rule = ADD_CONFIDENTIALITY \<longrightarrow> rule_preconditions rule = []"
    by (simp add: sample_policy_def)
  have verdict: "\<exists>dc ir. decode_arena id 0 0 1 arena = Inr dc \<and> DecodeSqlPolicyRules id sample_policy (global_module dc) [] = Inr ir \<and>
      IsModulePolicyCompliant (orders_of id) id ir {kSqlOutputOp} (0, global_module dc) = Some (Inr (ts = []))"
    if tags: "arena_output_tags sample_dl_rules arena = Some (set ts)" and ok: "sample_arena_ok arena" for arena ts
  proof -
    from tags obtain dc where dc: "decode_arena id 0 0 1 arena = Inr dc"
      "set ts = output_tags sample_dl_rules (map ir_dl_operation (module_operations (global_module dc)))"
      by (auto simp: arena_output_tags_def split: sum.splits)
    with ok obtain ir where ir: "DecodeSqlPolicyRules id sample_policy (global_module dc) [] = Inr ir"
      and plain: "plain_transforms (module_operations (global_module dc))"
      by (auto simp: sample_arena_ok_def is_ok_iff plain_transforms_def list_all_iff)
    have ready: "facts_ready (context_storages (dc_ir_context dc)) (module_operations (snd (0, global_module dc)))"
      using decoded_arena_ready(1) [OF dc(1) is_order_id(2)] by simp
    have program: "sql_policy_verifier (reporting_checkers ts) = Some (reporting ts)" by (simp add: reporting_checkers_def)
    have derives: "derives_sql_rules (reporting ts) dir (module_facts (context_storages (dc_ir_context dc)) (0, global_module dc))
        (dl_rules_of sample_policy)" for dir
      unfolding dl_rules_of_sample by (rule reporting_derives [OF ready rules]) (simp add: dc(2))
    from engines_agree [OF dc(1) is_order_id(2) ir is_order_id(2) plain additions orders_of_ok [OF is_order_id(2)] is_order_id(2)
        sample_platform_works(1) program derives, of "\<lambda>_. []" "[]"]
    have "IsModulePolicyCompliant (orders_of id) id ir {kSqlOutputOp} (0, global_module dc) = Some (Inr (ts = []))"
      unfolding pass_compliant_def dl_rules_of_sample dc(2) [symmetric] by simp
    with dc(1) ir show ?thesis by blast
  qed
  from verdict [of secret_arena "[''secret'']"] verdict [of declassified_arena "[]"] sample_arena_tags sample_arenas_ok show ?thesis by simp
qed

end
