(* ===== verification/Ir_Proto_Roundtrip.thy ===== *)
theory Ir_Proto_Roundtrip imports
  Ir_Proto
begin

text \<open>
  What the two translations between the IR and its messages do: every block and operation gets one
  identifier, and reading a written module back gives it again, at new addresses.
\<close>

section \<open>Writing: identifiers\<close>

definition ids_inv :: "ir_to_proto \<Rightarrow> bool" where
  "ids_inv st \<longleftrightarrow> hm_wf (used_ids st) \<and> inj_on snd (set (used_ids st)) \<and>
     (\<forall>pi \<in> set (used_ids st). 0 < snd pi \<and> snd pi \<le> last_used_id st)"

definition extends :: "ir_to_proto \<Rightarrow> ir_to_proto \<Rightarrow> bool" where
  "extends st st' \<longleftrightarrow> map_of (used_ids st) \<subseteq>\<^sub>m map_of (used_ids st')"

definition id_of :: "ir_to_proto \<Rightarrow> ir_ptr \<Rightarrow> nat" where
  "id_of st p = the (map_of (used_ids st) p)"

text \<open>A writing function \<open>f\<close> computes \<open>e\<close> for the final identifiers and gives the pointers \<open>d\<close> one.\<close>

definition writes ::
  "('x \<Rightarrow> ir_to_proto \<Rightarrow> ('y \<times> ir_to_proto) result) \<Rightarrow> ((ir_ptr \<Rightarrow> nat) \<Rightarrow> 'x \<Rightarrow> 'y) \<Rightarrow> ('x \<Rightarrow> ir_ptr set) \<Rightarrow> bool" where
  "writes f e d \<longleftrightarrow> (\<forall>x st y st'. f x st = Inr (y, st') \<longrightarrow> ids_inv st \<longrightarrow>
     ids_inv st' \<and> extends st st' \<and> d x \<subseteq> dom (map_of (used_ids st')) \<and>
     (\<forall>st''. extends st' st'' \<longrightarrow> y = e (id_of st'') x))"

lemma extends_refl [simp]: "extends st st"
  by (simp add: extends_def)

lemma extends_trans: "extends a b \<Longrightarrow> extends b c \<Longrightarrow> extends a c"
  unfolding extends_def by (rule map_le_trans)

lemma extends_dom: "extends a b \<Longrightarrow> dom (map_of (used_ids a)) \<subseteq> dom (map_of (used_ids b))"
  unfolding extends_def by (rule map_le_implies_dom_le)

lemma extends_id_of: "extends a b \<Longrightarrow> p \<in> dom (map_of (used_ids a)) \<Longrightarrow> id_of b p = id_of a p"
  by (auto simp: extends_def map_le_def id_of_def)

lemma GetID_writes: "writes (\<lambda>p st. Inr (GetID p st)) (\<lambda>I p. I p) (\<lambda>p. {p})"
proof -
  have "ids_inv st' \<and> extends st st' \<and> p \<in> dom (map_of (used_ids st')) \<and> i = id_of st' p"
    if get: "GetID p st = (i, st')" and inv: "ids_inv st" for p st i st'
  proof (cases "map_of (used_ids st) p")
    case None
    then have st': "st' = st\<lparr>used_ids := used_ids st @ [(p, last_used_id st + 1)], last_used_id := last_used_id st + 1\<rparr>"
      and i: "i = last_used_id st + 1"
      using get by (auto simp: GetID_def hm_insert_def)
    have new: "p \<notin> fst ` set (used_ids st)" using None by (simp add: map_of_eq_None_iff)
    have "inj_on snd (set (used_ids st'))"
      using inv by (fastforce simp: st' ids_inv_def inj_on_def)
    then have "ids_inv st'" using inv new by (auto simp: st' ids_inv_def hm_wf_def)
    moreover have "extends st st'"
      using None by (auto simp: extends_def st' map_le_def map_add_def)
    moreover have "map_of (used_ids st') p = Some i" using None by (simp add: st' i map_add_def)
    ultimately show ?thesis by (auto simp: id_of_def)
  next
    case (Some j)
    with get have "st' = st" "i = j" by (auto simp: GetID_def hm_insert_def)
    with Some inv show ?thesis by (auto simp: id_of_def)
  qed
  then show ?thesis unfolding writes_def using extends_id_of by fastforce
qed

lemma writes_const: "(\<And>x st. f x st = Inr (e x, st)) \<Longrightarrow> writes f (\<lambda>_. e) (\<lambda>_. {})"
  by (simp add: writes_def)

lemma writesD:
  assumes "writes f e d" and "f x st = Inr (y, st')" and "ids_inv st"
  shows "ids_inv st'" "extends st st'" "d x \<subseteq> dom (map_of (used_ids st'))"
    "\<And>st''. extends st' st'' \<Longrightarrow> y = e (id_of st'') x"
  using assms unfolding writes_def by blast+

lemma writes_comp:
  assumes f: "writes f e d" and g: "writes g e' d'"
    and k: "\<And>x st. k x st = rbind (f (a x) st) (\<lambda>(y, st). rbind (g (b x) st) (\<lambda>(z, st). Inr (h x y z, st)))"
  shows "writes k (\<lambda>I x. h x (e I (a x)) (e' I (b x))) (\<lambda>x. d (a x) \<union> d' (b x))"
  unfolding writes_def
proof (intro allI impI)
  fix x st r st2
  assume "k x st = Inr (r, st2)" and inv: "ids_inv st"
  then obtain y st1 z where 1: "f (a x) st = Inr (y, st1)" and 2: "g (b x) st1 = Inr (z, st2)" and r: "r = h x y z"
    by (auto simp: k)
  note f' = writesD [OF f 1 inv] and g' = writesD [OF g 2 writesD(1) [OF f 1 inv]]
  have "r = h x (e (id_of st'') (a x)) (e' (id_of st'') (b x))" if "extends st2 st''" for st''
    using f'(4) [OF extends_trans [OF g'(2) that]] g'(4) [OF that] r by simp
  moreover have "d (a x) \<union> d' (b x) \<subseteq> dom (map_of (used_ids st2))"
    using f'(3) g'(3) extends_dom [OF g'(2)] by blast
  ultimately show "ids_inv st2 \<and> extends st st2 \<and> d (a x) \<union> d' (b x) \<subseteq> dom (map_of (used_ids st2)) \<and>
      (\<forall>st''. extends st2 st'' \<longrightarrow> r = h x (e (id_of st'') (a x)) (e' (id_of st'') (b x)))"
    using g'(1) extends_trans [OF f'(2) g'(2)] by blast
qed

lemma writes_map:
  assumes f: "writes f e d" and k: "\<And>x st. k x st = rbind (f (a x) st) (\<lambda>(y, st). Inr (h x y, st))"
  shows "writes k (\<lambda>I x. h x (e I (a x))) (\<lambda>x. d (a x))"
proof -
  have unit: "writes (\<lambda>(x :: unit) st. Inr ((), st)) (\<lambda>_ _. ()) (\<lambda>_. {})" by (rule writes_const) simp
  have "writes k (\<lambda>I x. h x (e I (a x))) (\<lambda>x. d (a x) \<union> {})"
    by (rule writes_comp [OF f unit, where h = "\<lambda>x y z. h x y"]) (simp add: k)
  then show ?thesis by simp
qed

lemma writes_map_state:
  assumes "writes f e d"
  shows "writes (map_state f) (\<lambda>I. map (e I)) (\<lambda>xs. \<Union> (d ` set xs))"
  unfolding writes_def
proof (intro allI impI)
  fix xs st ys st'
  assume "map_state f xs st = Inr (ys, st')" and "ids_inv st"
  then show "ids_inv st' \<and> extends st st' \<and> \<Union> (d ` set xs) \<subseteq> dom (map_of (used_ids st')) \<and>
      (\<forall>st''. extends st' st'' \<longrightarrow> ys = map (e (id_of st'')) xs)"
  proof (induction xs arbitrary: st ys)
    case (Cons x xs)
    then obtain y st1 zs where x: "f x st = Inr (y, st1)" and xs: "map_state f xs st1 = Inr (zs, st')"
      and ys: "ys = y # zs" by auto
    note f = writesD [OF assms x Cons.prems(2)]
    note IH = Cons.IH [OF xs f(1)]
    have "ys = map (e (id_of st'')) (x # xs)" if "extends st' st''" for st''
      using f(4) [OF extends_trans [OF conjunct1 [OF conjunct2 [OF IH]] that]] IH that ys by simp
    moreover have "extends st st'" using f(2) IH extends_trans by blast
    moreover have "\<Union> (d ` set (x # xs)) \<subseteq> dom (map_of (used_ids st'))"
      using f(3) IH extends_dom [of st1 st'] by auto
    ultimately show ?case using IH by blast
  qed simp
qed

fun written_value :: "(ir_ptr \<Rightarrow> nat) \<Rightarrow> ir_value \<Rightarrow> value_proto" where
  "written_value I Any = AnyValue"
| "written_value I (OperationResult oid i) = OperationResultValue (I (OperationPtr oid)) i"
| "written_value I (BlockArgument b i) = BlockArgumentValue (I (BlockPtr b)) i"
| "written_value I (StoredValue s) = VALUE_NOT_SET"

fun value_ptrs :: "ir_value \<Rightarrow> ir_ptr set" where
  "value_ptrs (OperationResult oid i) = {OperationPtr oid}"
| "value_ptrs (BlockArgument b i) = {BlockPtr b}"
| "value_ptrs _ = {}"

definition written_operation :: "proto_orders \<Rightarrow> (ir_ptr \<Rightarrow> nat) \<Rightarrow> operation \<Rightarrow> operation_proto" where
  "written_operation ords I oper = \<lparr>proto_operator_name = op_name (op_of oper),
     proto_inputs = map (written_value I) (inputs oper),
     proto_attributes = fold (\<lambda>(name, a) m. fst (hm_insert name (AttributeToProto a) m))
       (ord_attributes ords (attributes oper)) []\<rparr>"

definition written_block :: "proto_orders \<Rightarrow> (ir_ptr \<Rightarrow> nat) \<Rightarrow> block \<Rightarrow> block_proto" where
  "written_block ords I blk = \<lparr>
     proto_operations = map (\<lambda>x. (I (OperationPtr (fst x)), written_operation ords I (snd x))) (operations blk),
     proto_results = fold (\<lambda>(name, v) m. fst (hm_insert name v m))
       (map (\<lambda>x. (fst x, written_value I (snd x))) (ord_results ords (results blk))) []\<rparr>"

definition written_module :: "proto_orders \<Rightarrow> (ir_ptr \<Rightarrow> nat) \<Rightarrow> ir_module \<Rightarrow> module_proto" where
  "written_module ords I m = map (\<lambda>x. (I (BlockPtr (fst x)), written_block ords I (snd x))) (blocks m)"

definition block_ptrs :: "block_id \<times> block \<Rightarrow> ir_ptr list" where
  "block_ptrs x = BlockPtr (fst x) # map (\<lambda>oper. OperationPtr (fst oper)) (operations (snd x))"

definition module_ptrs :: "ir_module \<Rightarrow> ir_ptr list" where
  "module_ptrs m = concat (map block_ptrs (blocks m))"

lemma writes_subset: "writes f e d \<Longrightarrow> (\<And>x. d' x \<subseteq> d x) \<Longrightarrow> writes f e d'"
  unfolding writes_def by (meson order_trans)

lemma ValueToProto_writes: "writes ValueToProto written_value value_ptrs"
  unfolding writes_def
proof (intro allI impI)
  fix v st y st'
  assume v: "ValueToProto v st = Inr (y, st')" and inv: "ids_inv st"
  note get = writesD [OF GetID_writes _ inv]
  show "ids_inv st' \<and> extends st st' \<and> value_ptrs v \<subseteq> dom (map_of (used_ids st')) \<and>
      (\<forall>st''. extends st' st'' \<longrightarrow> y = written_value (id_of st'') v)"
  proof (cases v)
    case (BlockArgument b i)
    with v obtain j where j: "Inr (GetID (BlockPtr b) st) = (Inr (j, st') :: (nat \<times> ir_to_proto) result)" and "y = BlockArgumentValue j i"
      by (auto simp: BlockArgumentToProto_def split: prod.splits)
    with get [OF j] BlockArgument show ?thesis by auto
  next
    case (OperationResult oid i)
    with v obtain j where j: "Inr (GetID (OperationPtr oid) st) = (Inr (j, st') :: (nat \<times> ir_to_proto) result)" and "y = OperationResultValue j i"
      by (auto simp: OperationResultToProto_def split: prod.splits)
    with get [OF j] OperationResult show ?thesis by auto
  qed (use v inv in auto)
qed

lemma OperationToProto_writes: "writes (OperationToProto ords) (written_operation ords) (\<lambda>oper. \<Union> (value_ptrs ` set (inputs oper)))"
  unfolding written_operation_def
  by (rule writes_map [OF writes_map_state [OF ValueToProto_writes]]) (simp add: OperationToProto_def)

lemma BlockToProto_writes:
  "writes (BlockToProto ords) (written_block ords) (\<lambda>blk. set (map (\<lambda>oper. OperationPtr (fst oper)) (operations blk)))"
proof -
  have op: "writes (\<lambda>(oid, oper) st. rbind (OperationToProto ords oper st) (\<lambda>(op_proto, st).
         let (i, st) = GetID (OperationPtr oid) st in Inr ((i, op_proto), st)))
      (\<lambda>I x. (I (OperationPtr (fst x)), written_operation ords I (snd x)))
      (\<lambda>x. \<Union> (value_ptrs ` set (inputs (snd x))) \<union> {OperationPtr (fst x)})"
    by (rule writes_comp [OF OperationToProto_writes GetID_writes, where h = "\<lambda>x y z. (z, y)" and a = snd and b = "\<lambda>x. OperationPtr (fst x)"])
      (auto simp: Let_def split: prod.splits intro!: arg_cong2 [where f = rbind])
  have result: "writes (\<lambda>(name, v) st. rbind (ValueToProto v st) (\<lambda>(v, st). Inr ((name, v), st)))
      (\<lambda>I x. (fst x, written_value I (snd x))) (\<lambda>x. value_ptrs (snd x))"
    by (rule writes_map [OF ValueToProto_writes, where a = snd]) (auto split: prod.splits)
  have "writes (BlockToProto ords) (written_block ords) (\<lambda>blk.
      \<Union> ((\<lambda>x. \<Union> (value_ptrs ` set (inputs (snd x))) \<union> {OperationPtr (fst x)}) ` set (operations blk)) \<union>
      \<Union> ((\<lambda>x. value_ptrs (snd x)) ` set (ord_results ords (results blk))))"
    unfolding written_block_def
    by (rule writes_comp [OF writes_map_state [OF op] writes_map_state [OF result]]) (simp add: BlockToProto_def)
  then show ?thesis by (rule writes_subset) auto
qed

lemma ModuleToProto_writes: "writes (ModuleToProto ords) (written_module ords) (\<lambda>m. set (module_ptrs m))"
proof -
  have blk: "writes (\<lambda>(b, blk) st. rbind (BlockToProto ords blk st) (\<lambda>(blk_proto, st).
       let (i, st) = GetID (BlockPtr b) st in Inr ((i, blk_proto), st)))
      (\<lambda>I x. (I (BlockPtr (fst x)), written_block ords I (snd x)))
      (\<lambda>x. set (map (\<lambda>oper. OperationPtr (fst oper)) (operations (snd x))) \<union> {BlockPtr (fst x)})"
    by (rule writes_comp [OF BlockToProto_writes GetID_writes, where h = "\<lambda>x y z. (z, y)" and a = snd and b = "\<lambda>x. BlockPtr (fst x)"])
      (auto simp: Let_def split: prod.splits intro!: arg_cong2 [where f = rbind])
  have "writes (ModuleToProto ords) (written_module ords) (\<lambda>m.
      \<Union> ((\<lambda>x. set (map (\<lambda>oper. OperationPtr (fst oper)) (operations (snd x))) \<union> {BlockPtr (fst x)}) ` set (blocks m)))"
    unfolding written_module_def
    using writes_map [OF writes_map_state [OF blk], of "ModuleToProto ords" blocks "\<lambda>m y. y"]
    by (simp add: ModuleToProto_def rbind_def split: sum.splits)
  then show ?thesis by (rule writes_subset) (auto simp: module_ptrs_def block_ptrs_def)
qed

section \<open>Reading\<close>

fun renamed_value :: "(ir_ptr \<Rightarrow> nat) \<Rightarrow> ir_value \<Rightarrow> ir_value" where
  "renamed_value A (BlockArgument b i) = BlockArgument (A (BlockPtr b)) i"
| "renamed_value A (OperationResult oid i) = OperationResult (A (OperationPtr oid)) i"
| "renamed_value A v = v"

fun closed_value :: "ir_ptr set \<Rightarrow> ir_value \<Rightarrow> bool" where
  "closed_value P (StoredValue s) \<longleftrightarrow> False"
| "closed_value P v \<longleftrightarrow> value_ptrs v \<subseteq> P"

definition readable_operation :: "ir_context \<Rightarrow> ir_ptr set \<Rightarrow> operation \<Rightarrow> bool" where
  "readable_operation ctx P oper \<longleftrightarrow> GetOperator (op_name (op_of oper)) ctx = Some (op_of oper) \<and>
     hm_wf (attributes oper) \<and> (\<forall>v \<in> set (inputs oper). closed_value P v)"

text \<open>An operation when it is constructed, and when its inputs and attributes have been read.\<close>

definition blank :: "operation \<Rightarrow> operation" where
  "blank oper = make_operation None (op_of oper) [] []"

definition reread :: "proto_orders \<Rightarrow> (ir_ptr \<Rightarrow> nat) \<Rightarrow> operation \<Rightarrow> operation" where
  "reread ords A oper = make_operation None (op_of oper) (ord_attributes ords (attributes oper))
     (map (renamed_value A) (inputs oper))"

text \<open>A hash map that holds the entries \<open>V x\<close> under the keys \<open>K x\<close>, for the \<open>x\<close> of a set.\<close>

definition tabulates :: "('x \<Rightarrow> 'k) \<Rightarrow> 'x set \<Rightarrow> ('x \<Rightarrow> 'v) \<Rightarrow> ('k, 'v) hash_map \<Rightarrow> bool" where
  "tabulates K S V m \<longleftrightarrow> hm_wf m \<and> set m = (\<lambda>x. (K x, V x)) ` S"

lemma tabulates_lookup: "tabulates K S V m \<Longrightarrow> x \<in> S \<Longrightarrow> map_of m (K x) = Some (V x)"
  by (auto simp: tabulates_def intro: hm_wf_map_of)

lemma tabulates_insert:
  assumes "tabulates K S V m" and "K x \<notin> K ` S"
  shows "tabulates K (insert x S) V (fst (hm_insert (K x) (V x) m))"
proof -
  have "map_of m (K x) = None" using assms by (auto simp: tabulates_def map_of_eq_None_iff)
  then have "fst (hm_insert (K x) (V x) m) = m @ [(K x, V x)]" by (rule hm_insert_new)
  with assms show ?thesis using hm_wf_insert [of m "K x" "V x"] by (auto simp: tabulates_def)
qed

lemma tabulates_assign:
  assumes m: "tabulates K S V m" and inj: "inj_on K S" and x: "x \<in> S"
  shows "tabulates K S (V(x := v)) (hm_assign (K x) v m)"
proof -
  have wf: "hm_wf (hm_assign (K x) v m)" using m by (simp add: tabulates_def)
  have entries: "set n = {(k, v). map_of n k = Some v}" if "hm_wf n" for n :: "('p \<times> 'q) list"
    using that by (auto simp: hm_wf_map_of dest: map_of_SomeD)
  have "map_of (hm_assign (K x) v m) k = Some w \<longleftrightarrow> (k, w) \<in> (\<lambda>y. (K y, (V(x := v)) y)) ` S" for k w
  proof (cases "k = K x")
    case True
    with inj x show ?thesis by (auto simp: inj_on_def)
  next
    case False
    then have "map_of (hm_assign (K x) v m) k = Some w \<longleftrightarrow> (k, w) \<in> set m"
      using m entries [of m] by (auto simp: tabulates_def)
    with m False show ?thesis by (auto simp: tabulates_def)
  qed
  with wf entries [OF wf] show ?thesis by (auto simp: tabulates_def)
qed

text \<open>The state while reading: the operations \<open>Os\<close> and the blocks \<open>Bs\<close> of the module are pending
  under their identifiers, with what \<open>F\<close> and \<open>G\<close> say.\<close>

definition reading ::
  "(ir_ptr \<Rightarrow> nat) \<Rightarrow> block_id set \<Rightarrow> op_id set \<Rightarrow> (op_id \<Rightarrow> (op_id \<times> operation) option)
     \<Rightarrow> (block_id \<Rightarrow> block_builder) \<Rightarrow> proto_to_ir \<Rightarrow> bool" where
  "reading I Bs Os F G st \<longleftrightarrow> tabulates (\<lambda>b. I (BlockPtr b)) Bs G (pending_blocks st) \<and>
     tabulates (\<lambda>oid. I (OperationPtr oid)) Os F (pending_operations st)"

lemma reading_lookup:
  assumes "reading I Bs Os F G st"
  shows "b \<in> Bs \<Longrightarrow> map_of (pending_blocks st) (I (BlockPtr b)) = Some (G b)"
    "oid \<in> Os \<Longrightarrow> map_of (pending_operations st) (I (OperationPtr oid)) = Some (F oid)"
  using assms tabulates_lookup [of "\<lambda>b. I (BlockPtr b)" Bs G] tabulates_lookup [of "\<lambda>oid. I (OperationPtr oid)" Os F]
  by (simp_all add: reading_def)

lemma reading_cong:
  "reading I Bs Os F G st \<Longrightarrow> (\<And>oid. oid \<in> Os \<Longrightarrow> F oid = F' oid) \<Longrightarrow> (\<And>b. b \<in> Bs \<Longrightarrow> G b = G' b) \<Longrightarrow>
    reading I Bs Os F' G' st"
  by (auto simp: reading_def tabulates_def image_iff)

lemma reading_other [simp]:
  "reading I Bs Os F G (st\<lparr>pending_names := n\<rparr>) = reading I Bs Os F G st"
  "reading I Bs Os F G (st\<lparr>fresh_address := a\<rparr>) = reading I Bs Os F G st"
  by (simp_all add: reading_def)

lemma reading_assign_operation:
  assumes "reading I Bs Os F G st" and "inj_on I P" and "OperationPtr ` Os \<subseteq> P" and "oid \<in> Os"
  shows "reading I Bs Os (F(oid := v)) G (st\<lparr>pending_operations := hm_assign (I (OperationPtr oid)) v (pending_operations st)\<rparr>)"
proof -
  have inj: "inj_on (\<lambda>oid. I (OperationPtr oid)) Os" using assms(2,3) by (auto simp: inj_on_def)
  have "tabulates (\<lambda>oid. I (OperationPtr oid)) Os F (pending_operations st)" using assms(1) by (simp add: reading_def)
  from tabulates_assign [OF this inj assms(4)] assms(1) show ?thesis by (simp add: reading_def)
qed

lemma reading_assign_block:
  assumes "reading I Bs Os F G st" and "inj_on I P" and "BlockPtr ` Bs \<subseteq> P" and "b \<in> Bs"
  shows "reading I Bs Os F (G(b := v)) (st\<lparr>pending_blocks := hm_assign (I (BlockPtr b)) v (pending_blocks st)\<rparr>)"
proof -
  have inj: "inj_on (\<lambda>b. I (BlockPtr b)) Bs" using assms(2,3) by (auto simp: inj_on_def)
  have "tabulates (\<lambda>b. I (BlockPtr b)) Bs G (pending_blocks st)" using assms(1) by (simp add: reading_def)
  from tabulates_assign [OF this inj assms(4)] assms(1) show ?thesis by (simp add: reading_def)
qed

subsection \<open>Construction\<close>

fun consecutive :: "(ir_ptr \<Rightarrow> nat) \<Rightarrow> nat \<Rightarrow> ir_ptr list \<Rightarrow> bool" where
  "consecutive A a [] \<longleftrightarrow> True"
| "consecutive A a (p # ps) \<longleftrightarrow> A p = a \<and> consecutive A (Suc a) ps"

lemma consecutive_append: "consecutive A a (ps @ qs) \<longleftrightarrow> consecutive A a ps \<and> consecutive A (a + length ps) qs"
  by (induction ps arbitrary: a) auto

definition written_op_entry :: "proto_orders \<Rightarrow> (ir_ptr \<Rightarrow> nat) \<Rightarrow> op_id \<times> operation \<Rightarrow> nat \<times> operation_proto" where
  "written_op_entry ords I x = (I (OperationPtr (fst x)), written_operation ords I (snd x))"

definition written_block_entry :: "proto_orders \<Rightarrow> (ir_ptr \<Rightarrow> nat) \<Rightarrow> block_id \<times> block \<Rightarrow> nat \<times> block_proto" where
  "written_block_entry ords I x = (I (BlockPtr (fst x)), written_block ords I (snd x))"

lemma PreVisit_written_value: "closed_value P v \<Longrightarrow> PreVisit_value (written_value I v) = Inr ()"
  by (cases v) simp_all

lemma map_result_unit: "(\<And>x. x \<in> set xs \<Longrightarrow> f x = Inr ()) \<Longrightarrow> map_result f xs = Inr (map (\<lambda>_. ()) xs)"
  by (induction xs) auto

lemma PreVisit_written_operation:
  assumes "readable_operation ctx P oper"
  shows "PreVisit_operation_proto (written_operation ords I oper) = Inr ()"
proof -
  have "map_result PreVisit_value (map (written_value I) (inputs oper)) = Inr (map (\<lambda>_. ()) (map (written_value I) (inputs oper)))"
    by (rule map_result_unit) (use assms PreVisit_written_value in \<open>auto simp: readable_operation_def\<close>)
  then show ?thesis
    by (simp add: PreVisit_operation_proto_def written_operation_def map_result_unit PreVisit_attribute_def case_prod_beta')
qed

lemma construct_written_operation:
  assumes "reading I Bs Os F G st" and "readable_operation ctx P (snd x)"
    and "I (OperationPtr (fst x)) \<notin> (\<lambda>oid. I (OperationPtr oid)) ` Os"
    and "F (fst x) = Some (fresh_address st, blank (snd x))"
  shows "\<exists>st'. construct_operation ctx (written_op_entry ords I x) st = Inr st' \<and>
    reading I Bs (insert (fst x) Os) F G st' \<and> fresh_address st' = Suc (fresh_address st)"
proof -
  have "tabulates (\<lambda>oid. I (OperationPtr oid)) (insert (fst x) Os) F
      (fst (hm_insert (I (OperationPtr (fst x))) (F (fst x)) (pending_operations st)))"
    using assms(1,3) tabulates_insert [of "\<lambda>oid. I (OperationPtr oid)" Os F "pending_operations st" "fst x"]
    by (simp add: reading_def)
  moreover have "GetOperator (proto_operator_name (written_operation ords I (snd x))) ctx = Some (op_of (snd x))"
    using assms(2) by (simp add: readable_operation_def written_operation_def)
  ultimately show ?thesis
    using assms(1,2,4) by (auto simp: construct_operation_def written_op_entry_def PreVisit_written_operation
        reading_def blank_def Let_def split: prod.splits)
qed

lemma construct_written_operations:
  assumes "reading I Bs Os F G st" and "\<forall>x \<in> set xs. readable_operation ctx P (snd x)"
    and "distinct (map (\<lambda>x. OperationPtr (fst x)) xs)" and "(OperationPtr ` Os) \<inter> set (map (\<lambda>x. OperationPtr (fst x)) xs) = {}"
    and "inj_on I Q" and "OperationPtr ` Os \<union> set (map (\<lambda>x. OperationPtr (fst x)) xs) \<subseteq> Q"
    and "consecutive A (fresh_address st) (map (\<lambda>x. OperationPtr (fst x)) xs)"
    and "\<forall>x \<in> set xs. F (fst x) = Some (A (OperationPtr (fst x)), blank (snd x))"
  shows "\<exists>st'. fold_result (construct_operation ctx) (map (written_op_entry ords I) xs) st = Inr st' \<and>
    reading I Bs (Os \<union> fst ` set xs) F G st' \<and> fresh_address st' = fresh_address st + length xs"
  using assms
proof (induction xs arbitrary: Os st)
  case (Cons x xs)
  have fresh: "I (OperationPtr (fst x)) \<notin> (\<lambda>oid. I (OperationPtr oid)) ` Os"
  proof
    assume "I (OperationPtr (fst x)) \<in> (\<lambda>oid. I (OperationPtr oid)) ` Os"
    then obtain oid where "oid \<in> Os" "I (OperationPtr (fst x)) = I (OperationPtr oid)" by auto
    with Cons.prems(4,6) inj_onD [OF Cons.prems(5), of "OperationPtr (fst x)" "OperationPtr oid"] show False by auto
  qed
  have ready: "readable_operation ctx P (snd x)" using Cons.prems(2) by simp
  have now: "F (fst x) = Some (fresh_address st, blank (snd x))" using Cons.prems(7,8) by simp
  from construct_written_operation [OF Cons.prems(1) ready fresh now, of ords]
  obtain st1 where first: "construct_operation ctx (written_op_entry ords I x) st = Inr st1"
    and st1: "reading I Bs (insert (fst x) Os) F G st1" "fresh_address st1 = Suc (fresh_address st)" by auto
  have "\<exists>st'. fold_result (construct_operation ctx) (map (written_op_entry ords I) xs) st1 = Inr st' \<and>
      reading I Bs (insert (fst x) Os \<union> fst ` set xs) F G st' \<and> fresh_address st' = fresh_address st1 + length xs"
    by (rule Cons.IH [OF st1(1)]) (use Cons.prems st1(2) in auto)
  with first st1(2) show ?case by auto
qed simp

text \<open>What a module needs to be written and read back in a context.\<close>

definition readable_module :: "ir_context \<Rightarrow> ir_module \<Rightarrow> bool" where
  "readable_module ctx m \<longleftrightarrow> distinct (module_ptrs m) \<and> (\<forall>x \<in> set (blocks m). results (snd x) = [] \<and>
     (\<forall>y \<in> set (operations (snd x)). readable_operation ctx (set (module_ptrs m)) (snd y)))"

definition block_readable :: "ir_context \<Rightarrow> ir_ptr set \<Rightarrow> block_id \<times> block \<Rightarrow> bool" where
  "block_readable ctx P x \<longleftrightarrow> results (snd x) = [] \<and>
     (\<forall>y \<in> set (operations (snd x)). readable_operation ctx P (snd y))"

definition op_ids :: "(block_id \<times> block) list \<Rightarrow> op_id set" where
  "op_ids bs = (\<Union>x \<in> set bs. fst ` set (operations (snd x)))"

lemma op_ids_simps [simp]: "op_ids [] = {}" "op_ids (x # bs) = fst ` set (operations (snd x)) \<union> op_ids bs"
  by (simp_all add: op_ids_def)

lemma written_block_simps:
  assumes "results (snd x) = []" and "is_order (ord_results ords)"
  shows "proto_operations (written_block ords I (snd x)) = map (written_op_entry ords I) (operations (snd x))"
    "proto_results (written_block ords I (snd x)) = []"
proof -
  have "ord_results ords [] = []" using is_order_length [OF assms(2), of "[]"] by simp
  then show "proto_results (written_block ords I (snd x)) = []" by (simp add: written_block_def assms(1))
qed (simp add: written_block_def written_op_entry_def)

lemma set_block_ptrs: "set (block_ptrs x) = insert (BlockPtr (fst x)) (OperationPtr ` fst ` set (operations (snd x)))"
  by (auto simp: block_ptrs_def)

lemma set_ptrs: "set (concat (map block_ptrs bs)) = BlockPtr ` fst ` set bs \<union> OperationPtr ` op_ids bs"
  by (induction bs) (auto simp: set_block_ptrs)

lemma construct_written_module:
  assumes "reading I Bs Os F G st" and "\<forall>x \<in> set bs. block_readable ctx P x" and ords: "is_order (ord_results ords)"
    and "distinct (concat (map block_ptrs bs))" and "(BlockPtr ` Bs \<union> OperationPtr ` Os) \<inter> set (concat (map block_ptrs bs)) = {}"
    and "inj_on I Q" and "BlockPtr ` Bs \<union> OperationPtr ` Os \<union> set (concat (map block_ptrs bs)) \<subseteq> Q"
    and "consecutive A (fresh_address st) (concat (map block_ptrs bs))"
    and "\<forall>x \<in> set bs. G (fst x) = new_builder (A (BlockPtr (fst x))) \<and>
      (\<forall>y \<in> set (operations (snd x)). F (fst y) = Some (A (OperationPtr (fst y)), blank (snd y)))"
  shows "\<exists>st'. PreVisit_module_proto ctx (map (written_block_entry ords I) bs) st = Inr st' \<and>
    reading I (Bs \<union> fst ` set bs) (Os \<union> op_ids bs) F G st'"
  using assms(1,2,4-)
proof (induction bs arbitrary: Bs Os st)
  case (Cons x bs)
  let ?st1 = "st\<lparr>pending_blocks := fst (hm_insert (I (BlockPtr (fst x))) (new_builder (fresh_address st)) (pending_blocks st)),
      fresh_address := fresh_address st + 1\<rparr>"
  have ptrs: "concat (map block_ptrs (x # bs)) = BlockPtr (fst x) #
      map (\<lambda>y. OperationPtr (fst y)) (operations (snd x)) @ concat (map block_ptrs bs)" by (simp add: block_ptrs_def)
  note prems = Cons.prems [unfolded ptrs]
  have "I (BlockPtr (fst x)) \<notin> (\<lambda>b. I (BlockPtr b)) ` Bs"
  proof
    assume "I (BlockPtr (fst x)) \<in> (\<lambda>b. I (BlockPtr b)) ` Bs"
    then obtain b where "b \<in> Bs" "I (BlockPtr (fst x)) = I (BlockPtr b)" by auto
    with prems(4,6) inj_onD [OF prems(5), of "BlockPtr (fst x)" "BlockPtr b"] show False by auto
  qed
  from tabulates_insert [of "\<lambda>b. I (BlockPtr b)" Bs G "pending_blocks st" "fst x", OF _ this] prems(1,7,8)
  have st1: "reading I (insert (fst x) Bs) Os F G ?st1" by (simp add: reading_def)
  have ready: "block_readable ctx P x" using prems(2) by simp
  have "\<exists>st2. fold_result (construct_operation ctx) (map (written_op_entry ords I) (operations (snd x))) ?st1 = Inr st2 \<and>
      reading I (insert (fst x) Bs) (Os \<union> fst ` set (operations (snd x))) F G st2 \<and>
      fresh_address st2 = fresh_address ?st1 + length (operations (snd x))"
    by (rule construct_written_operations [OF st1, where P = P and Q = Q and A = A])
      (use prems ready in \<open>auto simp: block_readable_def consecutive_append\<close>)
  then obtain st2 where ops: "fold_result (construct_operation ctx) (map (written_op_entry ords I) (operations (snd x))) ?st1 = Inr st2"
    and st2: "reading I (insert (fst x) Bs) (Os \<union> fst ` set (operations (snd x))) F G st2"
      "fresh_address st2 = fresh_address ?st1 + length (operations (snd x))" by auto
  have blk: "PreVisit_block_proto ctx (written_block ords I (snd x)) ?st1 = Inr st2"
    using ready ops by (simp add: PreVisit_block_proto_def block_readable_def written_block_simps ords)
  have "\<exists>st'. PreVisit_module_proto ctx (map (written_block_entry ords I) bs) st2 = Inr st' \<and>
      reading I (insert (fst x) Bs \<union> fst ` set bs) (Os \<union> fst ` set (operations (snd x)) \<union> op_ids bs) F G st'"
  proof (rule Cons.IH [OF st2(1)])
    have "OperationPtr ` (Os \<union> fst ` set (operations (snd x))) =
        OperationPtr ` Os \<union> set (map (\<lambda>y. OperationPtr (fst y)) (operations (snd x)))" by auto
    then show "(BlockPtr ` insert (fst x) Bs \<union> OperationPtr ` (Os \<union> fst ` set (operations (snd x)))) \<inter>
        set (concat (map block_ptrs bs)) = {}"
      using prems(3,4) by (simp only: distinct.simps distinct_append) auto
    show "BlockPtr ` insert (fst x) Bs \<union> OperationPtr ` (Os \<union> fst ` set (operations (snd x))) \<union>
        set (concat (map block_ptrs bs)) \<subseteq> Q"
      using prems(6) by auto
  qed (use prems st2(2) in \<open>simp_all add: consecutive_append\<close>)
  then show ?case
    using blk by (auto simp: PreVisit_module_proto_def written_block_entry_def [of ords I x] Let_def Un_assoc split: prod.splits)
qed (simp add: PreVisit_module_proto_def)

subsection \<open>The contents\<close>

definition addressed ::
  "(ir_ptr \<Rightarrow> nat) \<Rightarrow> block_id set \<Rightarrow> op_id set \<Rightarrow> (op_id \<Rightarrow> (op_id \<times> operation) option) \<Rightarrow> (block_id \<Rightarrow> block_builder) \<Rightarrow> bool" where
  "addressed A Bs Os F G \<longleftrightarrow> (\<forall>b \<in> Bs. GetBlockPtr (G b) = Inr (A (BlockPtr b))) \<and>
     (\<forall>oid \<in> Os. \<exists>oper. F oid = Some (A (OperationPtr oid), oper))"

lemma ToIR_written_value:
  assumes "reading I Bs Os F G st" and "addressed A Bs Os F G" and "closed_value (BlockPtr ` Bs \<union> OperationPtr ` Os) v"
  shows "\<exists>st'. ToIR_value (written_value I v) st = Inr (renamed_value A v, st') \<and> reading I Bs Os F G st'"
proof (cases v)
  case (BlockArgument b i)
  with assms(3) have "b \<in> Bs" by auto
  with reading_lookup(1) [OF assms(1) this] assms(2) BlockArgument show ?thesis
    using assms(1) by (auto simp: ToIR_value_def ToIR_block_argument_def addressed_def Let_def split: prod.splits)
next
  case (OperationResult oid i)
  with assms(3) have oid: "oid \<in> Os" by auto
  with assms(2) obtain oper where "F oid = Some (A (OperationPtr oid), oper)" by (auto simp: addressed_def)
  with reading_lookup(2) [OF assms(1) oid] OperationResult show ?thesis
    using assms(1) by (auto simp: ToIR_value_def ToIR_operation_result_def Let_def split: prod.splits)
qed (use assms in \<open>auto simp: ToIR_value_def Let_def split: prod.splits\<close>)

lemma ToIR_written_inputs:
  assumes "reading I Bs Os F G st" and "addressed A Bs Os F G"
    and "\<forall>v \<in> set vs. closed_value (BlockPtr ` Bs \<union> OperationPtr ` Os) v"
  shows "\<exists>st'. fold_result (\<lambda>v (oper, st). rbind (ToIR_value v st) (\<lambda>(v, st). Inr (AddInput v oper, st)))
      (map (written_value I) vs) (oper, st) = Inr (oper\<lparr>inputs := inputs oper @ map (renamed_value A) vs\<rparr>, st') \<and>
    reading I Bs Os F G st'"
  using assms(1,3)
proof (induction vs arbitrary: oper st)
  case (Cons v vs)
  then obtain st1 where v: "ToIR_value (written_value I v) st = Inr (renamed_value A v, st1)" and st1: "reading I Bs Os F G st1"
    using ToIR_written_value [OF Cons.prems(1) assms(2), of v] by auto
  from Cons.IH [OF st1, of "AddInput (renamed_value A v) oper"] Cons.prems(2) v show ?case
    by (auto simp: AddInput_def)
qed simp

lemma fold_hm_insert_distinct:
  "distinct (map fst (m @ xs)) \<Longrightarrow> fold (\<lambda>(k, v) m. fst (hm_insert k v m)) xs m = m @ xs"
proof (induction xs arbitrary: m)
  case (Cons x xs)
  obtain k v where x: "x = (k, v)" by (cases x)
  have "map_of m k = None" using Cons.prems by (auto simp: x map_of_eq_None_iff)
  with Cons show ?case by (simp add: x hm_insert_new)
qed simp

lemma written_attributes:
  assumes "hm_wf (attributes oper)" and "is_order (ord_attributes ords)"
  shows "proto_attributes (written_operation ords I oper) =
    map (\<lambda>(name, a). (name, AttributeToProto a)) (ord_attributes ords (attributes oper))"
proof -
  let ?as = "ord_attributes ords (attributes oper)"
  have "mset (map fst ?as) = mset (map fst (attributes oper))"
    using assms(2) by (simp add: is_order_def)
  then have dist: "distinct (map fst ?as)"
    using assms(1) mset_eq_imp_distinct_iff unfolding hm_wf_def by blast
  have conv: "fold (\<lambda>(name, a) m. fst (hm_insert name (AttributeToProto a) m)) xs m =
      fold (\<lambda>(k, v) m. fst (hm_insert k v m)) (map (\<lambda>(name, a). (name, AttributeToProto a)) xs) m" for xs m
    by (induction xs arbitrary: m) auto
  have "map fst (map (\<lambda>(name, a). (name, AttributeToProto a)) xs) = map fst xs" for xs :: "(string \<times> attribute) list"
    by (induction xs) auto
  with dist have "distinct (map fst ([] @ map (\<lambda>(name, a). (name, AttributeToProto a)) ?as))"
    by (simp only: append_Nil)
  from fold_hm_insert_distinct [OF this] show ?thesis
    by (simp add: written_operation_def conv)
qed

lemma ToIR_written_attribute: "ToIR_attribute (AttributeToProto a) = Inr a"
  by (cases a) simp_all

lemma ToIR_attributes:
  assumes "distinct (map fst (attributes oper @ as))"
  shows "fold_result (\<lambda>(name, a) oper. rbind (ToIR_attribute a) (\<lambda>a. Inr (AddAttribute name a oper)))
    (map (\<lambda>(name, a). (name, AttributeToProto a)) as) oper = Inr (oper\<lparr>attributes := attributes oper @ as\<rparr>)"
  using assms
proof (induction as arbitrary: oper)
  case (Cons x as)
  obtain k a where x: "x = (k, a)" by (cases x)
  have "map_of (attributes oper) k = None" using Cons.prems by (auto simp: x map_of_eq_None_iff)
  with Cons.IH [of "AddAttribute k a oper"] Cons.prems show ?case
    by (simp add: x ToIR_written_attribute AddAttribute_def hm_insert_new)
qed simp

lemma ToIR_written_operation:
  assumes "reading I Bs Os F G st" and "addressed A Bs Os F G"
    and "readable_operation ctx (BlockPtr ` Bs \<union> OperationPtr ` Os) oper" and "is_order (ord_attributes ords)"
  shows "\<exists>st'. ToIR_operation (written_operation ords I oper) (blank oper) st = Inr (reread ords A oper, st') \<and>
    reading I Bs Os F G st'"
proof -
  have wf: "hm_wf (attributes oper)" and closed: "\<forall>v \<in> set (inputs oper). closed_value (BlockPtr ` Bs \<union> OperationPtr ` Os) v"
    using assms(3) by (auto simp: readable_operation_def)
  have "mset (map fst (ord_attributes ords (attributes oper))) = mset (map fst (attributes oper))"
    using assms(4) by (simp add: is_order_def)
  then have dist: "distinct (map fst (ord_attributes ords (attributes oper)))"
    using wf mset_eq_imp_distinct_iff unfolding hm_wf_def by blast
  from ToIR_written_inputs [OF assms(1,2) closed, of "blank oper"] obtain st1 where
    ins: "fold_result (\<lambda>v (oper, st). rbind (ToIR_value v st) (\<lambda>(v, st). Inr (AddInput v oper, st)))
      (proto_inputs (written_operation ords I oper)) (blank oper, st) =
      Inr (blank oper\<lparr>inputs := map (renamed_value A) (inputs oper)\<rparr>, st1)" and st1: "reading I Bs Os F G st1"
    by (auto simp: written_operation_def blank_def make_operation_def)
  have "fold_result (\<lambda>(name, a) oper. rbind (ToIR_attribute a) (\<lambda>a. Inr (AddAttribute name a oper)))
      (proto_attributes (written_operation ords I oper)) (blank oper\<lparr>inputs := map (renamed_value A) (inputs oper)\<rparr>) =
      Inr (reread ords A oper)"
    using ToIR_attributes [of "blank oper\<lparr>inputs := map (renamed_value A) (inputs oper)\<rparr>" "ord_attributes ords (attributes oper)"] dist
    by (simp add: written_attributes [OF wf assms(4)] blank_def make_operation_def reread_def)
  with ins st1 show ?thesis by (simp add: ToIR_operation_def)
qed

text \<open>The pending operations when those of \<open>D\<close> have been read, and when those of \<open>M\<close> have been
  moved into their blocks; \<open>ops\<close> is the module's operations.\<close>

definition partly_read ::
  "proto_orders \<Rightarrow> (ir_ptr \<Rightarrow> nat) \<Rightarrow> (op_id \<Rightarrow> operation) \<Rightarrow> op_id set \<Rightarrow> op_id \<Rightarrow> (op_id \<times> operation) option" where
  "partly_read ords A ops D oid =
     Some (A (OperationPtr oid), if oid \<in> D then reread ords A (ops oid) else blank (ops oid))"

definition partly_moved ::
  "proto_orders \<Rightarrow> (ir_ptr \<Rightarrow> nat) \<Rightarrow> (op_id \<Rightarrow> operation) \<Rightarrow> op_id set \<Rightarrow> op_id \<Rightarrow> (op_id \<times> operation) option" where
  "partly_moved ords A ops M oid =
     (if oid \<in> M then None else Some (A (OperationPtr oid), reread ords A (ops oid)))"

definition partly_built :: "(ir_ptr \<Rightarrow> nat) \<Rightarrow> block_id set \<Rightarrow> block_id \<Rightarrow> block_builder" where
  "partly_built A M b = (if b \<in> M then \<lparr>builder_block = None\<rparr> else new_builder (A (BlockPtr b)))"

lemma partly_read_addressed: "addressed A Bs Os (partly_read ords A ops D) (partly_built A {})"
  by (simp add: addressed_def partly_read_def partly_built_def GetBlockPtr_def new_builder_def)

lemma ToIR_written_entry:
  assumes "reading I Bs Os (partly_read ords A ops D) (partly_built A {}) st"
    and "inj_on I (BlockPtr ` Bs \<union> OperationPtr ` Os)" and "is_order (ord_attributes ords)"
    and "fst x \<in> Os" "fst x \<notin> D" "ops (fst x) = snd x" "readable_operation ctx (BlockPtr ` Bs \<union> OperationPtr ` Os) (snd x)"
  shows "\<exists>st'. ToIR_registered_operation (written_op_entry ords I x) st = Inr st' \<and>
    reading I Bs Os (partly_read ords A ops (insert (fst x) D)) (partly_built A {}) st'"
proof -
  from ToIR_written_operation [OF assms(1) partly_read_addressed assms(7,3)] obtain st1 where
    step: "ToIR_operation (written_operation ords I (snd x)) (blank (snd x)) st = Inr (reread ords A (snd x), st1)"
    and st1: "reading I Bs Os (partly_read ords A ops D) (partly_built A {}) st1" by auto
  have found: "map_of (pending_operations st) (I (OperationPtr (fst x))) = Some (Some (A (OperationPtr (fst x)), blank (snd x)))"
    using reading_lookup(2) [OF assms(1,4)] assms(5,6) by (simp add: partly_read_def)
  from reading_assign_operation [OF st1 assms(2) _ assms(4), of "Some (A (OperationPtr (fst x)), reread ords A (snd x))"]
  have "reading I Bs Os (partly_read ords A ops (insert (fst x) D)) (partly_built A {})
      (st1\<lparr>pending_operations := hm_assign (I (OperationPtr (fst x))) (Some (A (OperationPtr (fst x)), reread ords A (snd x)))
        (pending_operations st1)\<rparr>)"
    by (rule reading_cong) (use assms(6) in \<open>auto simp: partly_read_def\<close>)
  with step found show ?thesis by (simp add: ToIR_registered_operation_def written_op_entry_def)
qed

lemma ToIR_written_entries:
  assumes "reading I Bs Os (partly_read ords A ops D) (partly_built A {}) st"
    and "inj_on I (BlockPtr ` Bs \<union> OperationPtr ` Os)" and "is_order (ord_attributes ords)"
    and "distinct (map fst xs)" and "fst ` set xs \<inter> D = {}" and "fst ` set xs \<subseteq> Os"
    and "\<forall>x \<in> set xs. ops (fst x) = snd x \<and> readable_operation ctx (BlockPtr ` Bs \<union> OperationPtr ` Os) (snd x)"
  shows "\<exists>st'. fold_result ToIR_registered_operation (map (written_op_entry ords I) xs) st = Inr st' \<and>
    reading I Bs Os (partly_read ords A ops (D \<union> fst ` set xs)) (partly_built A {}) st'"
  using assms(1,4-)
proof (induction xs arbitrary: D st)
  case (Cons x xs)
  from Cons.prems obtain st1 where first: "ToIR_registered_operation (written_op_entry ords I x) st = Inr st1"
    and st1: "reading I Bs Os (partly_read ords A ops (insert (fst x) D)) (partly_built A {}) st1"
    using ToIR_written_entry [OF Cons.prems(1) assms(2,3), of x ctx] by auto
  have "\<exists>st'. fold_result ToIR_registered_operation (map (written_op_entry ords I) xs) st1 = Inr st' \<and>
      reading I Bs Os (partly_read ords A ops (insert (fst x) D \<union> fst ` set xs)) (partly_built A {}) st'"
    by (rule Cons.IH [OF st1]) (use Cons.prems in auto)
  with first show ?case by auto
qed simp

lemma ToIR_written_module:
  assumes "reading I Bs Os (partly_read ords A ops D) (partly_built A {}) st"
    and "inj_on I (BlockPtr ` Bs \<union> OperationPtr ` Os)" and ords: "is_order (ord_attributes ords)" "is_order (ord_results ords)"
    and "distinct (concat (map (\<lambda>x. map fst (operations (snd x))) bs))" and "op_ids bs \<inter> D = {}" and "op_ids bs \<subseteq> Os"
    and "fst ` set bs \<subseteq> Bs"
    and "\<forall>x \<in> set bs. block_readable ctx (BlockPtr ` Bs \<union> OperationPtr ` Os) x \<and>
      (\<forall>y \<in> set (operations (snd x)). ops (fst y) = snd y)"
  shows "\<exists>st'. ToIR_module (map (written_block_entry ords I) bs) st = Inr st' \<and>
    reading I Bs Os (partly_read ords A ops (D \<union> op_ids bs)) (partly_built A {}) st'"
  using assms(1,5-)
proof (induction bs arbitrary: D st)
  case (Cons x bs)
  have ready: "block_readable ctx (BlockPtr ` Bs \<union> OperationPtr ` Os) x" using Cons.prems(6) by simp
  have "\<exists>st'. fold_result ToIR_registered_operation (map (written_op_entry ords I) (operations (snd x))) st = Inr st' \<and>
      reading I Bs Os (partly_read ords A ops (D \<union> fst ` set (operations (snd x)))) (partly_built A {}) st'"
    by (rule ToIR_written_entries [OF Cons.prems(1) assms(2) ords(1), where ctx = ctx])
      (use Cons.prems ready in \<open>auto simp: block_readable_def\<close>)
  then obtain st1 where ops: "fold_result ToIR_registered_operation (map (written_op_entry ords I) (operations (snd x))) st = Inr st1"
    and st1: "reading I Bs Os (partly_read ords A ops (D \<union> fst ` set (operations (snd x)))) (partly_built A {}) st1" by auto
  have "fst x \<in> Bs" using Cons.prems(5) by simp
  from reading_lookup(1) [OF Cons.prems(1) this] have
    "ToIR_block (I (BlockPtr (fst x))) (written_block ords I (snd x)) st = Inr st1"
    using ready ops by (simp add: ToIR_block_def block_readable_def written_block_simps ords)
  moreover have "\<exists>st'. ToIR_module (map (written_block_entry ords I) bs) st1 = Inr st' \<and>
      reading I Bs Os (partly_read ords A ops (D \<union> fst ` set (operations (snd x)) \<union> op_ids bs)) (partly_built A {}) st'"
  proof (rule Cons.IH [OF st1])
    have "fst ` set (operations (snd x)) \<inter> op_ids bs = {}" using Cons.prems(2) by (simp add: op_ids_def)
    then show "op_ids bs \<inter> (D \<union> fst ` set (operations (snd x))) = {}" using Cons.prems(3) by auto
  qed (use Cons.prems in simp_all)
  ultimately show ?case
    by (auto simp: ToIR_module_def written_block_entry_def [of ords I x] Un_assoc)
qed (simp add: ToIR_module_def)

subsection \<open>Ownership\<close>

definition renamed_operations ::
  "proto_orders \<Rightarrow> (ir_ptr \<Rightarrow> nat) \<Rightarrow> block_id \<Rightarrow> (op_id \<times> operation) list \<Rightarrow> (op_id \<times> operation) list" where
  "renamed_operations ords A b xs =
     map (\<lambda>x. (A (OperationPtr (fst x)), set_parent (A (BlockPtr b)) (reread ords A (snd x)))) xs"

definition renamed_block :: "proto_orders \<Rightarrow> (ir_ptr \<Rightarrow> nat) \<Rightarrow> module_id \<Rightarrow> block_id \<times> block \<Rightarrow> block_id \<times> block" where
  "renamed_block ords A this x = (A (BlockPtr (fst x)),
     empty_block\<lparr>parent_module := Some this, operations := renamed_operations ords A (fst x) (operations (snd x))\<rparr>)"

lemma PostVisit_written_value: "closed_value P v \<Longrightarrow> PostVisit_value (written_value I v) = Inr ()"
  by (cases v) simp_all

lemma PostVisit_written_operation:
  assumes "readable_operation ctx P oper"
  shows "PostVisit_operation_proto (written_operation ords I oper) = Inr ()"
proof -
  have "map_result PostVisit_value (map (written_value I) (inputs oper)) = Inr (map (\<lambda>_. ()) (map (written_value I) (inputs oper)))"
    by (rule map_result_unit) (use assms PostVisit_written_value in \<open>auto simp: readable_operation_def\<close>)
  then show ?thesis
    by (simp add: PostVisit_operation_proto_def written_operation_def map_result_unit PostVisit_attribute_def case_prod_beta')
qed

lemma move_written_operations:
  assumes "reading I Bs Os (partly_moved ords A ops M) G st"
    and "inj_on I (BlockPtr ` Bs \<union> OperationPtr ` Os)"
    and "distinct (map fst xs)" and "fst ` set xs \<inter> M = {}" and "fst ` set xs \<subseteq> Os"
    and "\<forall>x \<in> set xs. ops (fst x) = snd x \<and> readable_operation ctx P (snd x)"
  shows "\<exists>st'. fold_result move_operation (map (written_op_entry ords I) xs)
      (put_block (A (BlockPtr b)) (empty_block\<lparr>operations := acc\<rparr>), st) =
      Inr (put_block (A (BlockPtr b)) (empty_block\<lparr>operations := acc @ renamed_operations ords A b xs\<rparr>), st') \<and>
    reading I Bs Os (partly_moved ords A ops (M \<union> fst ` set xs)) G st'"
  using assms(1,3-)
proof (induction xs arbitrary: M st acc)
  case (Cons x xs)
  have x: "fst x \<in> Os" "fst x \<notin> M" "ops (fst x) = snd x" using Cons.prems by auto
  have ready: "PostVisit_operation_proto (written_operation ords I (snd x)) = Inr ()"
    using Cons.prems(5) PostVisit_written_operation by auto
  have found: "map_of (pending_operations st) (I (OperationPtr (fst x))) = Some (Some (A (OperationPtr (fst x)), reread ords A (snd x)))"
    using reading_lookup(2) [OF Cons.prems(1) x(1)] x(2,3) by (simp add: partly_moved_def)
  let ?st1 = "st\<lparr>pending_operations := hm_assign (I (OperationPtr (fst x))) None (pending_operations st)\<rparr>"
  have st1: "reading I Bs Os (partly_moved ords A ops (insert (fst x) M)) G ?st1"
    using reading_assign_operation [OF Cons.prems(1) assms(2) _ x(1), of None]
    by (rule reading_cong) (auto simp: partly_moved_def)
  have step: "move_operation (written_op_entry ords I x) (put_block (A (BlockPtr b)) (empty_block\<lparr>operations := acc\<rparr>), st) =
      Inr (put_block (A (BlockPtr b)) (empty_block\<lparr>operations := acc @ renamed_operations ords A b [x]\<rparr>), ?st1)"
    by (simp add: move_operation_def written_op_entry_def found ready Builder_AddOperation_def unbuilt_def put_block_def
        reread_def make_operation_def renamed_operations_def)
  have "\<exists>st'. fold_result move_operation (map (written_op_entry ords I) xs)
      (put_block (A (BlockPtr b)) (empty_block\<lparr>operations := acc @ renamed_operations ords A b [x]\<rparr>), ?st1) =
      Inr (put_block (A (BlockPtr b)) (empty_block\<lparr>operations := (acc @ renamed_operations ords A b [x]) @ renamed_operations ords A b xs\<rparr>), st') \<and>
    reading I Bs Os (partly_moved ords A ops (insert (fst x) M \<union> fst ` set xs)) G st'"
    by (rule Cons.IH [OF st1]) (use Cons.prems in auto)
  with step show ?case by (auto simp: renamed_operations_def)
qed (simp add: renamed_operations_def)

lemma PostVisit_written_module:
  assumes "reading I Bs Os (partly_moved ords A ops M) (partly_built A N) st"
    and inj: "inj_on I (BlockPtr ` Bs \<union> OperationPtr ` Os)" and ords: "is_order (ord_results ords)"
    and "distinct (concat (map (\<lambda>x. map fst (operations (snd x))) bs))" and "op_ids bs \<inter> M = {}" and "op_ids bs \<subseteq> Os"
    and "distinct (map fst bs)" and "fst ` set bs \<inter> N = {}" and "fst ` set bs \<subseteq> Bs"
    and "\<forall>x \<in> set bs. block_readable ctx P x \<and> (\<forall>y \<in> set (operations (snd x)). ops (fst y) = snd y)"
  shows "\<exists>st'. PostVisit_module_proto this (map (written_block_entry ords I) bs) (m, st) =
      Inr (m\<lparr>blocks := blocks m @ map (renamed_block ords A this) bs\<rparr>, st') \<and>
    reading I Bs Os (partly_moved ords A ops (M \<union> op_ids bs)) (partly_built A (N \<union> fst ` set bs)) st'"
proof -
  let ?step = "\<lambda>(i, blk) (m, st).
         rbind (check_some (map_of (pending_blocks st) i) ''This block builder should be pre-constructed.'') (\<lambda>b.
         rbind (PostVisit_block_proto blk (b, st)) (\<lambda>(b, st).
         rbind (build b) (\<lambda>(built, b).
         rbind (AddBlock this built m) (\<lambda>m.
         Inr (m, st\<lparr>pending_blocks := hm_assign i b (pending_blocks st)\<rparr>)))))"
  have "\<exists>st'. fold_result ?step (map (written_block_entry ords I) bs) (m, st) =
      Inr (m\<lparr>blocks := blocks m @ map (renamed_block ords A this) bs\<rparr>, st') \<and>
    reading I Bs Os (partly_moved ords A ops (M \<union> op_ids bs)) (partly_built A (N \<union> fst ` set bs)) st'"
    using assms(1,4-)
  proof (induction bs arbitrary: M N m st)
    case (Cons x bs)
    let ?b = "fst x" and ?ops = "operations (snd x)"
    have x: "?b \<in> Bs" "?b \<notin> N" and ready: "block_readable ctx P x" using Cons.prems by auto
    have found: "map_of (pending_blocks st) (I (BlockPtr ?b)) = Some (put_block (A (BlockPtr ?b)) empty_block)"
      using reading_lookup(1) [OF Cons.prems(1) x(1)] x(2) by (simp add: partly_built_def new_builder_def put_block_def)
    have "\<exists>st'. fold_result move_operation (map (written_op_entry ords I) ?ops)
          (put_block (A (BlockPtr ?b)) (empty_block\<lparr>operations := []\<rparr>), st) =
          Inr (put_block (A (BlockPtr ?b)) (empty_block\<lparr>operations := [] @ renamed_operations ords A ?b ?ops\<rparr>), st') \<and>
        reading I Bs Os (partly_moved ords A ops (M \<union> fst ` set ?ops)) (partly_built A N) st'"
      by (rule move_written_operations [OF Cons.prems(1) inj, where P = P and ctx = ctx])
        (use Cons.prems ready in \<open>auto simp: block_readable_def\<close>)
    moreover have "empty_block\<lparr>operations := []\<rparr> = empty_block" by (simp add: empty_block_def)
    ultimately obtain st1 where moved: "fold_result move_operation (map (written_op_entry ords I) ?ops)
          (put_block (A (BlockPtr ?b)) empty_block, st) =
          Inr (put_block (A (BlockPtr ?b)) (empty_block\<lparr>operations := renamed_operations ords A ?b ?ops\<rparr>), st1)"
      and st1: "reading I Bs Os (partly_moved ords A ops (M \<union> fst ` set ?ops)) (partly_built A N) st1" by auto
    let ?names = "snd (GetOrCreateID_block (A (BlockPtr ?b)) (pending_names st1))"
    have visit: "PostVisit_block_proto (written_block ords I (snd x)) (put_block (A (BlockPtr ?b)) empty_block, st) =
        Inr (put_block (A (BlockPtr ?b)) (empty_block\<lparr>operations := renamed_operations ords A ?b ?ops\<rparr>),
          st1\<lparr>pending_names := ?names\<rparr>)"
      using ready moved by (simp add: PostVisit_block_proto_def block_readable_def written_block_simps ords
          GetBlockPtr_def put_block_def case_prod_beta' Let_def)
    let ?st2 = "st1\<lparr>pending_names := ?names,
        pending_blocks := hm_assign (I (BlockPtr ?b)) \<lparr>builder_block = None\<rparr> (pending_blocks st1)\<rparr>"
    have st2: "reading I Bs Os (partly_moved ords A ops (M \<union> fst ` set ?ops)) (partly_built A (insert ?b N)) ?st2"
    proof (rule reading_cong)
      from st1 have "reading I Bs Os (partly_moved ords A ops (M \<union> fst ` set ?ops)) (partly_built A N) (st1\<lparr>pending_names := ?names\<rparr>)"
        by simp
      from reading_assign_block [OF this inj _ x(1), of "\<lparr>builder_block = None\<rparr>"]
      show "reading I Bs Os (partly_moved ords A ops (M \<union> fst ` set ?ops)) ((partly_built A N)(?b := \<lparr>builder_block = None\<rparr>)) ?st2"
        by simp
    qed (auto simp: partly_built_def)
    let ?m1 = "m\<lparr>blocks := blocks m @ [renamed_block ords A this x]\<rparr>"
    have first: "?step (written_block_entry ords I x) (m, st) = Inr (?m1, ?st2)"
      by (simp add: written_block_entry_def found visit)
        (simp add: build_def put_block_def AddBlock_def empty_block_def renamed_block_def)
    have "\<exists>st'. fold_result ?step (map (written_block_entry ords I) bs) (?m1, ?st2) =
        Inr (?m1\<lparr>blocks := blocks ?m1 @ map (renamed_block ords A this) bs\<rparr>, st') \<and>
      reading I Bs Os (partly_moved ords A ops (M \<union> fst ` set ?ops \<union> op_ids bs)) (partly_built A (insert ?b N \<union> fst ` set bs)) st'"
    proof (rule Cons.IH [OF st2])
      have "fst ` set ?ops \<inter> op_ids bs = {}" using Cons.prems(2) by (simp add: op_ids_def)
      then show "op_ids bs \<inter> (M \<union> fst ` set ?ops) = {}" using Cons.prems(3) by auto
    qed (use Cons.prems in auto)
    with first show ?case by (auto simp: Un_assoc)
  qed simp
  then show ?thesis
    by (auto simp: PostVisit_module_proto_def case_prod_beta' Let_def)
qed

section \<open>The round trip\<close>

lemma id_of_inj: "ids_inv st \<Longrightarrow> inj_on (id_of st) (dom (map_of (used_ids st)))"
proof (rule inj_onI)
  fix p q
  assume inv: "ids_inv st" and dom: "p \<in> dom (map_of (used_ids st))" "q \<in> dom (map_of (used_ids st))" and "id_of st p = id_of st q"
  then obtain i where "map_of (used_ids st) p = Some i" "map_of (used_ids st) q = Some i" by (auto simp: id_of_def)
  then have "(p, i) \<in> set (used_ids st)" "(q, i) \<in> set (used_ids st)" by (auto dest: map_of_SomeD)
  with inv inj_onD [of snd "set (used_ids st)" "(p, i)" "(q, i)"] show "p = q" by (simp add: ids_inv_def)
qed

lemma ModuleToProto_ids:
  assumes "ModuleToProto ords m \<lparr>used_ids = [], last_used_id = 0\<rparr> = Inr (mp, st)"
  shows "mp = written_module ords (id_of st) m \<and> inj_on (id_of st) (set (module_ptrs m)) \<and>
    (\<forall>p \<in> set (module_ptrs m). 0 < id_of st p)"
proof -
  have "ids_inv \<lparr>used_ids = [], last_used_id = 0\<rparr>" by (simp add: ids_inv_def)
  note st = writesD [OF ModuleToProto_writes assms this]
  have "0 < id_of st p" if "p \<in> set (module_ptrs m)" for p
  proof -
    from that st(3) obtain i where "map_of (used_ids st) p = Some i" by auto
    then have "(p, i) \<in> set (used_ids st)" "id_of st p = i" by (auto simp: id_of_def dest: map_of_SomeD)
    with st(1) show ?thesis by (auto simp: ids_inv_def)
  qed
  with st(4) [of st] inj_on_subset [OF id_of_inj [OF st(1)] st(3)] show ?thesis by simp
qed

definition proto_ids :: "module_proto \<Rightarrow> nat list" where
  "proto_ids mp = concat (map (\<lambda>x. fst x # map fst (proto_operations (snd x))) mp)"

lemma proto_ids_written: "proto_ids (written_module ords I m) = map I (module_ptrs m)"
proof -
  have "concat (map (\<lambda>x. fst x # map fst (proto_operations (snd x)))
      (map (\<lambda>x. (I (BlockPtr (fst x)), written_block ords I (snd x))) bs)) = map I (concat (map block_ptrs bs))" for bs
    by (induction bs) (simp_all add: block_ptrs_def written_block_def)
  then show ?thesis by (simp add: proto_ids_def written_module_def module_ptrs_def)
qed

text \<open>C32: The identifiers of a written module, of its blocks and of its operations together, are all
  different and none is 0, and every value refers to a block or an operation by the identifier
  it is written with.\<close>

theorem written_ids_unique:
  assumes "IRToProto_Convert ords ctx m = Inr unit" and "distinct (module_ptrs m)"
  shows "distinct (proto_ids (top_level_module unit)) \<and> 0 \<notin> set (proto_ids (top_level_module unit)) \<and>
    (\<exists>I. inj_on I (set (module_ptrs m)) \<and> top_level_module unit = written_module ords I m)"
proof -
  from assms(1) obtain mp st where mp: "ModuleToProto ords m \<lparr>used_ids = [], last_used_id = 0\<rparr> = Inr (mp, st)"
    and "top_level_module unit = mp" by (auto simp: IRToProto_Convert_def)
  with ModuleToProto_ids [OF mp] assms(2) show ?thesis
    by (auto simp: proto_ids_written distinct_map)
qed

lemma map_state_ok: "(\<And>x s. x \<in> set xs \<Longrightarrow> is_ok (f x s)) \<Longrightarrow> is_ok (map_state f xs s)"
proof (induction xs arbitrary: s)
  case (Cons x xs)
  from Cons.prems [of x s] obtain y s1 where "f x s = Inr (y, s1)" by (auto simp: is_ok_iff)
  moreover have "is_ok (map_state f xs s1)" by (rule Cons.IH) (simp add: Cons.prems)
  ultimately show ?case by (auto simp: is_ok_iff)
qed simp

lemma readable_writes:
  assumes "readable_module ctx m" and "is_order (ord_results ords)"
  shows "is_ok (ModuleToProto ords m st)"
proof -
  have v: "is_ok (ValueToProto v st)" if "closed_value P v" for v P st
    using that by (cases v) simp_all
  have oper: "is_ok (OperationToProto ords oper st)" if "readable_operation ctx P oper" for oper P st
  proof -
    have "is_ok (map_state ValueToProto (inputs oper) st)"
      by (rule map_state_ok) (use that v in \<open>auto simp: readable_operation_def\<close>)
    then show ?thesis by (auto simp: OperationToProto_def is_ok_iff)
  qed
  have blk: "is_ok (BlockToProto ords (snd x) st)" if "block_readable ctx P x" for x P st
  proof -
    have "is_ok (map_state (\<lambda>(oid, oper) st. rbind (OperationToProto ords oper st) (\<lambda>(op_proto, st).
         let (i, st) = GetID (OperationPtr oid) st in Inr ((i, op_proto), st))) (operations (snd x)) st)"
    proof (rule map_state_ok)
      fix y s
      assume "y \<in> set (operations (snd x))"
      with that oper [of P "snd y" s] show "is_ok ((\<lambda>(oid, oper) st. rbind (OperationToProto ords oper st) (\<lambda>(op_proto, st).
         let (i, st) = GetID (OperationPtr oid) st in Inr ((i, op_proto), st))) y s)"
        by (auto simp: block_readable_def is_ok_iff split: prod.splits)
    qed
    moreover have "ord_results ords (results (snd x)) = []"
      using that is_order_length [OF assms(2), of "[]"] by (simp add: block_readable_def)
    ultimately show ?thesis by (auto simp: BlockToProto_def is_ok_iff)
  qed
  show ?thesis
    unfolding ModuleToProto_def
  proof (rule map_state_ok)
    fix x s
    assume "x \<in> set (blocks m)"
    with assms(1) have "block_readable ctx (set (module_ptrs m)) x" by (simp add: readable_module_def block_readable_def)
    from blk [OF this, of s] show "is_ok ((\<lambda>(b, blk) st. rbind (BlockToProto ords blk st) (\<lambda>(blk_proto, st).
       let (i, st) = GetID (BlockPtr b) st in Inr ((i, blk_proto), st))) x s)"
      by (auto simp: is_ok_iff split: prod.splits)
  qed
qed

lemma distinct_ptrs:
  assumes "distinct (concat (map block_ptrs bs))"
  shows "distinct (map fst bs) \<and> distinct (concat (map (\<lambda>x. map fst (operations (snd x))) bs))"
  using assms
proof (induction bs)
  case (Cons x bs)
  have "map (\<lambda>oper. OperationPtr (fst oper)) ys = map OperationPtr (map fst ys)" for ys :: "(op_id \<times> operation) list" by simp
  then have "distinct (map fst (operations (snd x)))"
    using Cons.prems by (auto simp: block_ptrs_def distinct_map inj_on_def)
  moreover have "set (block_ptrs x) \<inter> (BlockPtr ` fst ` set bs \<union> OperationPtr ` op_ids bs) = {}"
    using Cons.prems by (simp only: list.map concat.simps distinct_append set_ptrs)
  then have "fst x \<notin> fst ` set bs" "fst ` set (operations (snd x)) \<inter> op_ids bs = {}"
    unfolding set_block_ptrs by blast+
  ultimately show ?case using Cons by (simp add: op_ids_def)
qed simp

definition address_of :: "nat \<Rightarrow> ir_ptr list \<Rightarrow> ir_ptr \<Rightarrow> nat" where
  "address_of addr ps p = addr + length (takeWhile (\<lambda>q. q \<noteq> p) ps)"

lemma address_of_consecutive: "distinct (xs @ ys) \<Longrightarrow> consecutive (address_of addr (xs @ ys)) (addr + length xs) ys"
proof (induction ys arbitrary: xs)
  case (Cons y ys)
  have "takeWhile (\<lambda>q. q \<noteq> y) (xs @ y # ys) = xs" using Cons.prems by (subst takeWhile_append2) auto
  with Cons.IH [of "xs @ [y]"] Cons.prems show ?case by (simp add: address_of_def)
qed simp

lemma address_of_inj: "inj_on (address_of addr ps) (set ps)"
proof (rule inj_onI)
  fix p q
  assume "p \<in> set ps" "q \<in> set ps" and eq: "address_of addr ps p = address_of addr ps q"
  have "ps ! length (takeWhile (\<lambda>r. r \<noteq> p) ps) = p" if "p \<in> set ps" for p
  proof -
    from that obtain xs ys where ps: "ps = xs @ p # ys" and "p \<notin> set xs" by (meson split_list_first)
    then have "takeWhile (\<lambda>r. r \<noteq> p) ps = xs" by (subst ps, subst takeWhile_append2) auto
    then show ?thesis by (simp add: ps)
  qed
  with \<open>p \<in> set ps\<close> \<open>q \<in> set ps\<close> eq show "p = q" by (metis add_left_cancel address_of_def)
qed

text \<open>The message of a module is read as the module at new addresses in every context that has
  the operators once those of the message are registered.\<close>

lemma written_module_read:
  assumes m: "readable_module ctx m" and ords: "is_order (ord_attributes ords)" "is_order (ord_results ords)"
    and mp: "ModuleToProto ords m \<lparr>used_ids = [], last_used_id = 0\<rparr> = Inr (mp, st)"
    and unit: "top_level_module unit = mp" "fold_result register_proto_operator (proto_operators unit) ctx0 = Inr ctx"
  shows "\<exists>A names. inj_on A (set (module_ptrs m)) \<and> ProtoToIR_Convert addr this ctx0 unit =
      Inr ((\<lparr>blocks = map (renamed_block ords A this) (blocks m), named_storage_map = []\<rparr>, names), ctx)"
proof -
  let ?bs = "blocks m" and ?P = "set (module_ptrs m)"
  define I where "I = id_of st"
  define A where "A = address_of addr (module_ptrs m)"
  define ops where "ops oid = the (map_of (module_operations m) oid)" for oid
  from ModuleToProto_ids [OF mp] have written: "mp = map (written_block_entry ords I) ?bs" and inj: "inj_on I ?P"
    by (auto simp: I_def written_module_def written_block_entry_def)
  have dist: "distinct (concat (map block_ptrs ?bs))" using m by (simp add: readable_module_def module_ptrs_def)
  have P: "?P = BlockPtr ` fst ` set ?bs \<union> OperationPtr ` op_ids ?bs" by (simp only: module_ptrs_def set_ptrs)
  have ready: "\<forall>x \<in> set ?bs. block_readable ctx ?P x" using m by (simp add: readable_module_def block_readable_def)
  have "distinct (map fst (module_operations m))"
    using distinct_ptrs [OF dist] by (simp add: module_operations_def map_concat comp_def)
  then have "map_of (module_operations m) (fst y) = Some (snd y)" if "y \<in> set (module_operations m)" for y
    using that by (simp add: map_of_is_SomeI)
  then have ops: "\<forall>x \<in> set ?bs. \<forall>y \<in> set (operations (snd x)). ops (fst y) = snd y"
    by (fastforce simp: ops_def module_operations_def)
  let ?Bs = "fst ` set ?bs" and ?Os = "op_ids ?bs"
  have inj': "inj_on I (BlockPtr ` ?Bs \<union> OperationPtr ` ?Os)" using inj P by simp
  have ready': "\<forall>x \<in> set ?bs. block_readable ctx (BlockPtr ` ?Bs \<union> OperationPtr ` ?Os) x" using ready P by simp
  have "reading I {} {} (partly_read ords A ops {}) (partly_built A {}) (new_proto_to_ir addr)"
    by (simp add: reading_def tabulates_def new_proto_to_ir_def)
  moreover have "consecutive A (fresh_address (new_proto_to_ir addr)) (concat (map block_ptrs ?bs))"
    using address_of_consecutive [of "[]" "module_ptrs m" addr] dist
    by (simp add: A_def new_proto_to_ir_def module_ptrs_def)
  ultimately have "\<exists>st1. PreVisit_module_proto ctx (map (written_block_entry ords I) ?bs) (new_proto_to_ir addr) = Inr st1 \<and>
      reading I ({} \<union> ?Bs) ({} \<union> ?Os) (partly_read ords A ops {}) (partly_built A {}) st1"
    using construct_written_module [of I "{}" "{}" "partly_read ords A ops {}" "partly_built A {}" "new_proto_to_ir addr" ?bs ctx ?P ords ?P A]
      ready ords(2) dist inj ops P by (simp add: module_ptrs_def partly_read_def partly_built_def)
  then obtain st1 where pre: "PreVisit_module_proto ctx mp (new_proto_to_ir addr) = Inr st1"
    and st1: "reading I ?Bs ?Os (partly_read ords A ops {}) (partly_built A {}) st1" by (auto simp: written)
  have "\<exists>st2. ToIR_module (map (written_block_entry ords I) ?bs) st1 = Inr st2 \<and>
      reading I ?Bs ?Os (partly_read ords A ops ({} \<union> ?Os)) (partly_built A {}) st2"
    by (rule ToIR_written_module [OF st1 inj' ords(1,2), where ctx = ctx])
      (use distinct_ptrs [OF dist] ready' ops in simp_all)
  then obtain st2 where to_ir: "ToIR_module mp st1 = Inr st2"
    and "reading I ?Bs ?Os (partly_read ords A ops ({} \<union> ?Os)) (partly_built A {}) st2" by (auto simp: written)
  from this(2) have st2: "reading I ?Bs ?Os (partly_moved ords A ops {}) (partly_built A {}) st2"
    by (rule reading_cong) (simp_all add: partly_read_def partly_moved_def)
  let ?m = "\<lparr>blocks = map (renamed_block ords A this) ?bs, named_storage_map = []\<rparr>"
  have "\<exists>st3. PostVisit_module_proto this (map (written_block_entry ords I) ?bs) (empty_module, st2) =
        Inr (empty_module\<lparr>blocks := blocks empty_module @ map (renamed_block ords A this) ?bs\<rparr>, st3) \<and>
      reading I ?Bs ?Os (partly_moved ords A ops ({} \<union> ?Os)) (partly_built A ({} \<union> ?Bs)) st3"
    by (rule PostVisit_written_module [OF st2 inj' ords(2), where ctx = ctx and P = ?P])
      (use distinct_ptrs [OF dist] ready ops in simp_all)
  then obtain st3 where post: "PostVisit_module_proto this mp (empty_module, st2) = Inr (?m, st3)"
    and st3: "reading I ?Bs ?Os (partly_moved ords A ops ?Os) (partly_built A ?Bs) st3"
    by (auto simp: written empty_module_def)
  from st3 have built: "\<forall>b \<in> set (pending_blocks st3). IsBuilt (snd b)" "\<forall>p \<in> set (pending_operations st3). snd p = None"
    by (auto simp: reading_def tabulates_def partly_built_def partly_moved_def IsBuilt_def)
  with unit pre to_ir post have "ProtoToIR_Convert addr this ctx0 unit = Inr ((?m, pending_names st3), ctx)"
    by (simp add: ProtoToIR_Convert_def)
  moreover have "inj_on A ?P" by (simp add: A_def address_of_inj)
  ultimately show ?thesis by blast
qed

lemma written_unit_read:
  assumes m: "readable_module ctx m"
    and ords: "is_order (ord_attributes ords)" "is_order (ord_results ords)" "is_order (ord_operators ords)"
  shows "\<exists>unit A names. IRToProto_Convert ords ctx m = Inr unit \<and> inj_on A (set (module_ptrs m)) \<and>
    ProtoToIR_Convert addr this ctx unit =
      Inr ((\<lparr>blocks = map (renamed_block ords A this) (blocks m), named_storage_map = []\<rparr>, names), ctx)"
proof -
  from readable_writes [OF m ords(2), of "\<lparr>used_ids = [], last_used_id = 0\<rparr>"] obtain mp st where
    mp: "ModuleToProto ords m \<lparr>used_ids = [], last_used_id = 0\<rparr> = Inr (mp, st)" by (auto simp: is_ok_iff)
  define unit where "unit = \<lparr>top_level_module = mp, frontend = ''Raksha.IRToProto'',
      proto_operators = map fst (ord_operators ords (ctx_operators ctx))\<rparr>"
  have unit: "IRToProto_Convert ords ctx m = Inr unit" by (simp add: IRToProto_Convert_def mp unit_def)
  have "fold_result register_proto_operator names ctx = Inr ctx" if "set names \<subseteq> fst ` set (ctx_operators ctx)" for names
    using that
  proof (induction names)
    case (Cons name names)
    then have "map_of (ctx_operators ctx) name \<noteq> None" by (auto simp: map_of_eq_None_iff)
    with Cons show ?case by (simp add: register_proto_operator_def IsRegisteredOperator_def IsRegisteredNode_def)
  qed simp
  then have "fold_result register_proto_operator (proto_operators unit) ctx = Inr ctx"
    using is_order_set [OF ords(3)] by (simp add: unit_def)
  from written_module_read [OF m ords(1,2) mp _ this, of addr this] unit show ?thesis by (auto simp: unit_def)
qed

text \<open>C4: Writing a module and reading it back in the same context keeps its operations, at new
  addresses: the blocks in their order, every operation in its place with its operator, its
  attributes (in the order of the message) and its inputs, with the references renamed by one
  injection. It holds for the modules whose blocks have no results, whose values refer to
  the module's own blocks and operations, and whose operators are registered. The inputs and the
  outputs that a block declares and the storages of the module do not come back: the reader
  builds every block without them (\<open>proto_to_ir.cc\<close> leaves them to issue 619). So the module that is
  read is the module that was written, up to the addresses, if its blocks declare no input and no
  output and it has no storage.\<close>

theorem module_proto_roundtrip:
  assumes m: "readable_module ctx m"
    and ords: "is_order (ord_attributes ords)" "is_order (ord_results ords)" "is_order (ord_operators ords)"
  shows "\<exists>unit A names m'. IRToProto_Convert ords ctx m = Inr unit \<and> inj_on A (set (module_ptrs m)) \<and>
    ProtoToIR_Convert addr this ctx unit = Inr ((m', names), ctx) \<and>
    m' = \<lparr>blocks = map (renamed_block ords A this) (blocks m), named_storage_map = []\<rparr> \<and>
    ((\<forall>x \<in> set (blocks m). block_inputs (snd x) = [] \<and> block_outputs (snd x) = []) \<and> named_storage_map m = [] \<longrightarrow>
      m' = m\<lparr>blocks := map (\<lambda>x. (A (BlockPtr (fst x)), (snd x)\<lparr>parent_module := Some this,
        operations := renamed_operations ords A (fst x) (operations (snd x))\<rparr>)) (blocks m)\<rparr>)"
proof -
  from written_unit_read [OF assms] obtain unit A names where
    unit: "IRToProto_Convert ords ctx m = Inr unit" "inj_on A (set (module_ptrs m))"
      "ProtoToIR_Convert addr this ctx unit =
        Inr ((\<lparr>blocks = map (renamed_block ords A this) (blocks m), named_storage_map = []\<rparr>, names), ctx)" by blast
  have same: "renamed_block ords A this x = (A (BlockPtr (fst x)), (snd x)\<lparr>parent_module := Some this,
      operations := renamed_operations ords A (fst x) (operations (snd x))\<rparr>)"
    if "x \<in> set (blocks m)" "block_inputs (snd x) = []" "block_outputs (snd x) = []" for x
  proof -
    have "results (snd x) = []" using m that(1) by (auto simp: readable_module_def)
    with that(2,3) show ?thesis by (cases "snd x") (simp add: renamed_block_def empty_block_def)
  qed
  have "\<lparr>blocks = map (renamed_block ords A this) (blocks m), named_storage_map = []\<rparr> =
      m\<lparr>blocks := map (\<lambda>x. (A (BlockPtr (fst x)), (snd x)\<lparr>parent_module := Some this,
        operations := renamed_operations ords A (fst x) (operations (snd x))\<rparr>)) (blocks m)\<rparr>"
    if "(\<forall>x \<in> set (blocks m). block_inputs (snd x) = [] \<and> block_outputs (snd x) = []) \<and> named_storage_map m = []"
    using that same by (cases m) simp
  with unit show ?thesis by blast
qed

definition proto_example :: ir_module where
  "proto_example = \<lparr>blocks = [(3, \<lparr>parent_module = Some 0, block_inputs = [], block_outputs = [],
       operations = [(8, make_operation (Some 3) (make_operator ''core.plus'')
           [(''a'', Int64Attribute 7), (''b'', StringAttribute ''s'')] [BlockArgument 3 0, Any]),
         (5, make_operation (Some 3) (make_operator ''core.minus'') [] [OperationResult 8 0, OperationResult 5 1])],
       results = []\<rparr>)], named_storage_map = []\<rparr>"

definition proto_context :: ir_context where
  "proto_context = empty_context\<lparr>ctx_operators := [(''core.plus'', make_operator ''core.plus''), (''core.minus'', make_operator ''core.minus'')]\<rparr>"

definition backwards :: proto_orders where
  "backwards = \<lparr>ord_operators = rev, ord_results = rev, ord_attributes = rev\<rparr>"

lemma proto_example_readable: "readable_module proto_context proto_example"
  by (simp add: readable_module_def proto_example_def proto_context_def module_ptrs_def block_ptrs_def
      readable_operation_def make_operation_def make_operator_def GetOperator_def GetNode_def hm_wf_def)

theorem module_proto_roundtrip_witness:
  "\<exists>unit A names ops. IRToProto_Convert backwards proto_context proto_example = Inr unit \<and>
     ProtoToIR_Convert 100 0 proto_context unit = Inr ((\<lparr>blocks = [(A (BlockPtr 3), empty_block\<lparr>parent_module := Some 0, operations := ops\<rparr>)],
       named_storage_map = []\<rparr>, names), proto_context) \<and>
     map (\<lambda>x. attributes (snd x)) ops = [[(''b'', StringAttribute ''s''), (''a'', Int64Attribute 7)], []] \<and>
     inputs (snd (ops ! 1)) = [OperationResult (fst (ops ! 0)) 0, OperationResult (fst (ops ! 1)) 1]"
proof -
  have "is_order (ord_attributes backwards)" "is_order (ord_results backwards)" "is_order (ord_operators backwards)"
    by (simp_all add: backwards_def)
  from module_proto_roundtrip [OF proto_example_readable this, of 100 0] obtain unit A names where
    "IRToProto_Convert backwards proto_context proto_example = Inr unit"
    and "ProtoToIR_Convert 100 0 proto_context unit = Inr ((\<lparr>blocks = map (renamed_block backwards A 0) (blocks proto_example),
      named_storage_map = []\<rparr>, names), proto_context)" by blast
  then show ?thesis
    by (intro exI [of _ unit] exI [of _ A] exI [of _ names] exI [of _ "renamed_operations backwards A 3 (operations (snd (hd (blocks proto_example))))"])
      (simp add: proto_example_def renamed_block_def renamed_operations_def reread_def make_operation_def backwards_def
        set_parent_def make_operator_def)
qed

theorem written_ids_unique_witness:
  "\<exists>unit. IRToProto_Convert backwards proto_context proto_example = Inr unit \<and> distinct (proto_ids (top_level_module unit)) \<and>
     length (proto_ids (top_level_module unit)) = 3"
proof -
  have "case IRToProto_Convert backwards proto_context proto_example of Inl _ \<Rightarrow> False | Inr unit \<Rightarrow>
      length (proto_ids (top_level_module unit)) = 3" by code_simp
  then obtain unit where unit: "IRToProto_Convert backwards proto_context proto_example = Inr unit"
    and "length (proto_ids (top_level_module unit)) = 3" by (auto split: sum.splits)
  moreover have "distinct (module_ptrs proto_example)" by code_simp
  from written_ids_unique [OF unit this] have "distinct (proto_ids (top_level_module unit))" by simp
  ultimately show ?thesis by blast
qed

section \<open>Blocks with results\<close>

text \<open>The builders that are pending declare no output.\<close>

definition no_outputs :: "proto_to_ir \<Rightarrow> bool" where
  "no_outputs st \<longleftrightarrow> (\<forall>p \<in> set (pending_blocks st). \<exists>a. snd p = new_builder a)"

lemma construct_operation_blocks: "construct_operation ctx x st = Inr st' \<Longrightarrow> pending_blocks st' = pending_blocks st"
  by (auto simp: construct_operation_def Let_def split: prod.splits)

lemma PreVisit_module_no_outputs:
  assumes "PreVisit_module_proto ctx mp (new_proto_to_ir addr) = Inr st"
  shows "no_outputs st"
  using assms unfolding PreVisit_module_proto_def
proof (rule fold_result_invariant)
  show "no_outputs (new_proto_to_ir addr)" by (simp add: no_outputs_def new_proto_to_ir_def)
next
  fix x s s'
  assume inv: "no_outputs s" and step: "(\<lambda>(i, blk) st.
       let (bs, _) = hm_insert i (new_builder (fresh_address st)) (pending_blocks st)
       in PreVisit_block_proto ctx blk (st\<lparr>pending_blocks := bs, fresh_address := fresh_address st + 1\<rparr>)) x s = Inr s'"
  obtain i blk where x: "x = (i, blk)" by (cases x)
  let ?s = "s\<lparr>pending_blocks := fst (hm_insert i (new_builder (fresh_address s)) (pending_blocks s)), fresh_address := fresh_address s + 1\<rparr>"
  from step have "PreVisit_block_proto ctx blk ?s = Inr s'" by (simp add: x Let_def split: prod.splits)
  then have "fold_result (construct_operation ctx) (proto_operations blk) ?s = Inr s'"
    by (auto simp: PreVisit_block_proto_def)
  then have "pending_blocks s' = pending_blocks ?s"
    by (rule fold_result_invariant) (simp, metis construct_operation_blocks)
  with inv show "no_outputs s'" by (auto simp: no_outputs_def hm_insert_def split: option.splits)
qed

lemma ToIR_value_blocks: "ToIR_value v st = Inr (w, st') \<Longrightarrow> pending_blocks st' = pending_blocks st"
  by (auto simp: ToIR_value_def Let_def split: prod.splits)

lemma ToIR_operation_blocks:
  assumes "ToIR_operation op_proto oper st = Inr (oper', st')"
  shows "pending_blocks st' = pending_blocks st"
proof -
  from assms obtain oper1 where "fold_result (\<lambda>v (oper, st). rbind (ToIR_value v st) (\<lambda>(v, st). Inr (AddInput v oper, st)))
      (proto_inputs op_proto) (oper, st) = Inr (oper1, st')" by (auto simp: ToIR_operation_def)
  then have "pending_blocks (snd (oper1, st')) = pending_blocks st"
    by (rule fold_result_invariant) (auto dest: ToIR_value_blocks)
  then show ?thesis by simp
qed

lemma ToIR_registered_operation_blocks:
  "ToIR_registered_operation x st = Inr st' \<Longrightarrow> pending_blocks st' = pending_blocks st"
  by (auto simp: ToIR_registered_operation_def dest!: ToIR_operation_blocks split: prod.splits)

lemma ToIR_block_no_outputs:
  assumes "no_outputs st" and "ToIR_block i blk st = Inr st'"
  shows "proto_results blk = [] \<and> no_outputs st'"
proof -
  let ?result = "\<lambda>(name, v) st. rbind (ToIR_value v st) (\<lambda>(v, st).
         rbind (check_some (map_of (pending_blocks st) i) ''block_builder'') (\<lambda>b.
         rbind (Builder_AddResult name v b) (\<lambda>b.
         Inr (st\<lparr>pending_blocks := hm_assign i b (pending_blocks st)\<rparr>))))"
  have fail: "\<not> is_ok (?result r st)" for r
  proof
    assume "is_ok (?result r st)"
    then obtain name v w st1 b b' where r: "r = (name, v)" and v: "ToIR_value v st = Inr (w, st1)"
      and b: "map_of (pending_blocks st1) i = Some b" and add: "Builder_AddResult name w b = Inr b'"
      by (cases r) (auto simp: is_ok_iff)
    from b ToIR_value_blocks [OF v] assms(1) obtain a where "b = new_builder a"
      by (force simp: no_outputs_def dest: map_of_SomeD)
    with add show False by (auto simp: Builder_AddResult_def new_builder_def unbuilt_def FindDecl_def empty_block_def)
  qed
  from assms(2) obtain st1 where rs: "fold_result ?result (proto_results blk) st = Inr st1"
    and ops: "fold_result ToIR_registered_operation (proto_operations blk) st1 = Inr st'"
    by (auto simp: ToIR_block_def)
  have "proto_results blk = []"
  proof (cases "proto_results blk")
    case (Cons r rs')
    with rs fail [of r] show ?thesis by (auto simp: is_ok_iff)
  qed
  moreover with rs have "st1 = st" by simp
  moreover from ops have "pending_blocks st' = pending_blocks st1"
    by (rule fold_result_invariant) (simp, metis ToIR_registered_operation_blocks)
  ultimately show ?thesis using assms(1) by (simp add: no_outputs_def)
qed

text \<open>A message in which a block has a result is never read: the block that is built for it has no
  declared output, so adding the result fails its check. Modules that have results can thus be
  written but not be read back.\<close>

theorem results_are_not_read:
  assumes "(i, blk) \<in> set (top_level_module unit)" and "proto_results blk \<noteq> []"
  shows "\<not> is_ok (ProtoToIR_Convert addr this ctx unit)"
proof
  assume "is_ok (ProtoToIR_Convert addr this ctx unit)"
  then obtain ctx' st st1 where pre: "PreVisit_module_proto ctx' (top_level_module unit) (new_proto_to_ir addr) = Inr st"
    and to_ir: "fold_result (\<lambda>(i, blk). ToIR_block i blk) (top_level_module unit) st = Inr st1"
    by (auto simp: ProtoToIR_Convert_def is_ok_rbind ToIR_module_def)
  obtain xs ys where split: "top_level_module unit = xs @ (i, blk) # ys" using assms(1) by (meson split_list)
  with to_ir obtain st2 st3 where before: "fold_result (\<lambda>(i, blk). ToIR_block i blk) xs st = Inr st2"
    and here: "ToIR_block i blk st2 = Inr st3" by (auto simp: fold_result_append)
  from before PreVisit_module_no_outputs [OF pre] have "no_outputs st2"
    by (rule fold_result_invariant) (auto dest: ToIR_block_no_outputs)
  from ToIR_block_no_outputs [OF this here] assms(2) show False by simp
qed

theorem results_are_not_read_witness:
  "\<exists>unit. IRToProto_Convert backwards proto_context
      \<lparr>blocks = [(7, sample_block)], named_storage_map = []\<rparr> = Inr unit \<and>
    \<not> is_ok (ProtoToIR_Convert 100 0 proto_context unit)"
proof -
  let ?m = "\<lparr>blocks = [(7, sample_block)], named_storage_map = []\<rparr>"
  have "case IRToProto_Convert backwards proto_context ?m of Inl _ \<Rightarrow> False
    | Inr unit \<Rightarrow> map (\<lambda>x. length (proto_results (snd x))) (top_level_module unit) = [1]" by code_simp
  then obtain unit where unit: "IRToProto_Convert backwards proto_context ?m = Inr unit"
    and len: "map (\<lambda>x. length (proto_results (snd x))) (top_level_module unit) = [1]" by (auto split: sum.splits)
  from len obtain i blk where "top_level_module unit = [(i, blk)]" "length (proto_results blk) = 1"
    by (cases "top_level_module unit") auto
  then have "(i, blk) \<in> set (top_level_module unit)" "proto_results blk \<noteq> []" by auto
  from results_are_not_read [OF this] unit show ?thesis by blast
qed

end
