(* ===== verification/Address_Independence.thy ===== *)
theory Address_Independence imports
  Souffle_Facts
  Ir_Proto_Roundtrip
begin

text \<open>
  Blocks, operations and modules are told apart by their addresses, which \<^verbatim>\<open>src/ir/ssa_names.h\<close> uses as
  hash keys. What the visitors write must not depend on them: a copy of a module at other addresses is printed
  as the same text (\<^verbatim>\<open>src/ir/ir_printer.h\<close>) and lowered to the same facts
  (\<^verbatim>\<open>souffle/datalog_lowering_visitor.cc\<close>). The copies are those that \<^verbatim>\<open>src/ir/proto_to_ir.cc\<close> reads.
  The locale \<open>parallel_visits\<close> is the argument for any two runs of a visitor.
\<close>

section \<open>Runs side by side\<close>

text \<open>Two runs give the same result and end in related states.\<close>

definition same_run :: "('s \<Rightarrow> 't \<Rightarrow> bool) \<Rightarrow> ('a \<times> 's) result \<Rightarrow> ('a \<times> 't) result \<Rightarrow> bool" where
  "same_run R x y \<longleftrightarrow> (\<exists>a s t. x = Inr (a, s) \<and> y = Inr (a, t) \<and> R s t)"

lemma same_runI: "R s t \<Longrightarrow> same_run R (Inr (a, s)) (Inr (a, t))"
  by (simp add: same_run_def)

lemma same_run_bind:
  assumes "same_run R x y" and "\<And>a s t. R s t \<Longrightarrow> same_run R' (F (a, s)) (G (a, t))"
  shows "same_run R' (rbind x F) (rbind y G)"
  using assms by (auto simp: same_run_def)

lemma same_run_map_state:
  assumes "list_all2 Q xs ys" and "R s t" and "\<And>x y s t. Q x y \<Longrightarrow> R s t \<Longrightarrow> same_run R (f x s) (g y t)"
  shows "same_run R (map_state f xs s) (map_state g ys t)"
  using assms(1,2)
proof (induction arbitrary: s t rule: list_all2_induct)
  case Nil
  then show ?case by (simp add: same_run_def)
next
  case (Cons x xs y ys)
  from assms(3) [OF Cons.hyps(1) Cons.prems] obtain a s1 t1 where
    "f x s = Inr (a, s1)" "g y t = Inr (a, t1)" "R s1 t1" by (auto simp: same_run_def)
  with Cons.IH [of s1 t1] show ?case by (auto simp: same_run_def)
qed

lemma same_run_fold:
  assumes "list_all2 Q xs ys" and "R s t" and "\<And>x y a s t. Q x y \<Longrightarrow> R s t \<Longrightarrow> same_run R (f x (a, s)) (g y (a, t))"
  shows "same_run R (fold_result f xs (a, s)) (fold_result g ys (a, t))"
  using assms(1,2)
proof (induction arbitrary: a s t rule: list_all2_induct)
  case Nil
  then show ?case by (simp add: same_run_def)
next
  case (Cons x xs y ys)
  from assms(3) [OF Cons.hyps(1) Cons.prems, of a] obtain b s1 t1 where
    "f x (a, s) = Inr (b, s1)" "g y (a, t) = Inr (b, t1)" "R s1 t1" by (auto simp: same_run_def)
  with Cons.IH [of s1 t1] show ?case by simp
qed

text \<open>Visitors whose methods run side by side on related nodes visit related modules side by side.\<close>

locale parallel_visits =
  fixes v :: "('s, 'r) visitor" and w :: "('t, 'r) visitor" and R :: "'s \<Rightarrow> 't \<Rightarrow> bool"
    and operation_copy :: "op_id \<times> operation \<Rightarrow> op_id \<times> operation \<Rightarrow> bool"
    and block_copy :: "block_id \<times> block \<Rightarrow> block_id \<times> block \<Rightarrow> bool"
    and module_copy :: "module_id \<times> ir_module \<Rightarrow> module_id \<times> ir_module \<Rightarrow> bool"
  assumes fold: "R s t \<Longrightarrow> same_run R (FoldResult v a c s) (FoldResult w a c t)"
    and pre_module: "module_copy m n \<Longrightarrow> R s t \<Longrightarrow> same_run R (PreVisit_module v m s) (PreVisit_module w n t)"
    and post_module: "module_copy m n \<Longrightarrow> R s t \<Longrightarrow> same_run R (PostVisit_module v m r s) (PostVisit_module w n r t)"
    and pre_block: "block_copy x y \<Longrightarrow> R s t \<Longrightarrow> same_run R (PreVisit_block v x s) (PreVisit_block w y t)"
    and post_block: "block_copy x y \<Longrightarrow> R s t \<Longrightarrow> same_run R (PostVisit_block v x r s) (PostVisit_block w y r t)"
    and pre_operation: "operation_copy p q \<Longrightarrow> R s t \<Longrightarrow> same_run R (PreVisit_operation v p s) (PreVisit_operation w q t)"
    and post_operation: "operation_copy p q \<Longrightarrow> R s t \<Longrightarrow> same_run R (PostVisit_operation v p r s) (PostVisit_operation w q r t)"
    and block_operations: "block_copy x y \<Longrightarrow> list_all2 operation_copy (operations (snd x)) (operations (snd y))"
    and module_blocks: "module_copy m n \<Longrightarrow> list_all2 block_copy (blocks (snd m)) (blocks (snd n))"
begin

lemma visit_operation: "operation_copy p q \<Longrightarrow> R s t \<Longrightarrow> same_run R (Visit_operation v p s) (Visit_operation w q t)"
  unfolding Visit_operation_def by (rule same_run_bind [OF pre_operation]) (simp_all add: post_operation)

lemma visit_block:
  assumes "block_copy x y" and "R s t"
  shows "same_run R (Visit_block v x s) (Visit_block w y t)"
  unfolding Visit_block_def
proof (rule same_run_bind [OF pre_block [OF assms]])
  fix a s t assume "R s t"
  then have "same_run R
      (fold_result (\<lambda>oper (acc, s'). rbind (Visit_operation v oper s') (\<lambda>(child, s''). FoldResult v acc child s'')) (operations (snd x)) (a, s))
      (fold_result (\<lambda>oper (acc, s'). rbind (Visit_operation w oper s') (\<lambda>(child, s''). FoldResult w acc child s'')) (operations (snd y)) (a, t))"
    by (intro same_run_fold [OF block_operations [OF assms(1)]])
      (auto intro!: same_run_bind visit_operation fold)
  then show "same_run R
      (rbind (fold_result (\<lambda>oper (acc, s'). rbind (Visit_operation v oper s') (\<lambda>(child, s''). FoldResult v acc child s''))
        (operations (snd x)) (a, s)) (\<lambda>(r, s'). PostVisit_block v x r s'))
      (rbind (fold_result (\<lambda>oper (acc, s'). rbind (Visit_operation w oper s') (\<lambda>(child, s''). FoldResult w acc child s''))
        (operations (snd y)) (a, t)) (\<lambda>(r, s'). PostVisit_block w y r s'))"
    by (rule same_run_bind) (simp add: post_block assms(1))
qed

lemma visit_module:
  assumes "module_copy m n" and "R s t"
  shows "same_run R (Visit_module v m s) (Visit_module w n t)"
  unfolding Visit_module_def
proof (rule same_run_bind [OF pre_module [OF assms]])
  fix a s t assume "R s t"
  then have "same_run R
      (fold_result (\<lambda>b (acc, s'). rbind (Visit_block v b s') (\<lambda>(child, s''). FoldResult v acc child s'')) (blocks (snd m)) (a, s))
      (fold_result (\<lambda>b (acc, s'). rbind (Visit_block w b s') (\<lambda>(child, s''). FoldResult w acc child s'')) (blocks (snd n)) (a, t))"
    by (intro same_run_fold [OF module_blocks [OF assms(1)]])
      (auto intro!: same_run_bind visit_block fold)
  then show "same_run R
      (rbind (fold_result (\<lambda>b (acc, s'). rbind (Visit_block v b s') (\<lambda>(child, s''). FoldResult v acc child s''))
        (blocks (snd m)) (a, s)) (\<lambda>(r, s'). PostVisit_module v m r s'))
      (rbind (fold_result (\<lambda>b (acc, s'). rbind (Visit_block w b s') (\<lambda>(child, s''). FoldResult w acc child s''))
        (blocks (snd n)) (a, t)) (\<lambda>(r, s'). PostVisit_module w n r s'))"
    by (rule same_run_bind) (simp add: post_module assms(1))
qed

end

section \<open>Names of a copy\<close>

text \<open>The entries of one manager are those of the other under renamed keys, in the same order.\<close>

definition renamed_ids :: "('k \<Rightarrow> 'l) \<Rightarrow> 'k set \<Rightarrow> 'k id_manager \<Rightarrow> 'l id_manager \<Rightarrow> bool" where
  "renamed_ids r D s t \<longleftrightarrow> inj_on r D \<and> fst ` set (item_ids s) \<subseteq> D \<and> id_prefix t = id_prefix s \<and>
     item_ids t = map (\<lambda>(k, n). (r k, n)) (item_ids s)"

lemma map_of_renamed:
  assumes "inj_on r D" and "fst ` set m \<subseteq> D" and "k \<in> D"
  shows "map_of (map (\<lambda>(k, n). (r k, n)) m) (r k) = map_of m k"
  using assms(2) by (induction m) (use assms(1,3) in \<open>auto dest: inj_onD\<close>)

lemma renamed_ids_GetOrCreateID:
  assumes "renamed_ids r D s t" and "k \<in> D"
  shows "\<exists>i s' t'. Manager_GetOrCreateID k s = (i, s') \<and> Manager_GetOrCreateID (r k) t = (i, t') \<and> renamed_ids r D s' t'"
proof -
  from assms have look: "map_of (item_ids t) (r k) = map_of (item_ids s) k"
    using map_of_renamed [of r D "item_ids s" k] by (simp add: renamed_ids_def)
  show ?thesis
  proof (cases "map_of (item_ids s) k")
    case None
    with look assms show ?thesis
      by (simp add: Manager_GetOrCreateID_def hm_insert_eq renamed_ids_def map_add_def Let_def)
  next
    case (Some i)
    with look assms show ?thesis
      by (simp add: Manager_GetOrCreateID_def hm_insert_eq renamed_ids_def Let_def)
  qed
qed

record copying =
  copy_address :: "ir_ptr \<Rightarrow> nat"
  copied :: "ir_ptr set"
  copied_module :: module_id
  module_copy_address :: module_id

definition renamed_names :: "copying \<Rightarrow> ssa_names \<Rightarrow> ssa_names \<Rightarrow> bool" where
  "renamed_names C s t \<longleftrightarrow>
     renamed_ids (renamed_value (copy_address C)) {v. closed_value (copied C) v} (value_ids s) (value_ids t) \<and>
     renamed_ids (\<lambda>b. copy_address C (BlockPtr b)) {b. BlockPtr b \<in> copied C} (block_ids s) (block_ids t) \<and>
     renamed_ids (\<lambda>_. module_copy_address C) {copied_module C} (module_ids s) (module_ids t)"

lemma renamed_value_inj:
  assumes "inj_on A P"
  shows "inj_on (renamed_value A) {v. closed_value P v}"
proof (rule inj_onI)
  fix x y assume "x \<in> {v. closed_value P v}" "y \<in> {v. closed_value P v}" "renamed_value A x = renamed_value A y"
  then show "x = y" using assms by (cases x; cases y) (auto dest: inj_onD)
qed

lemma renamed_names_new:
  assumes "inj_on (copy_address C) (copied C)"
  shows "renamed_names C new_ssa_names new_ssa_names"
proof -
  have "inj_on (\<lambda>b. copy_address C (BlockPtr b)) {b. BlockPtr b \<in> copied C}"
    using assms by (auto simp: inj_on_def)
  then show ?thesis
    using renamed_value_inj [OF assms]
    by (simp add: renamed_names_def renamed_ids_def new_ssa_names_def new_id_manager_def)
qed

lemma get_value_same:
  assumes "renamed_names C s t" and "closed_value (copied C) v"
  shows "same_run (renamed_names C) (Inr (GetOrCreateID_value v s)) (Inr (GetOrCreateID_value (renamed_value (copy_address C) v) t))"
  using renamed_ids_GetOrCreateID [of "renamed_value (copy_address C)" "{v. closed_value (copied C) v}" "value_ids s" "value_ids t" v] assms
  by (auto simp: same_run_def renamed_names_def GetOrCreateID_value_def)

lemma get_block_same:
  assumes "renamed_names C s t" and "BlockPtr b \<in> copied C"
  shows "\<exists>i s' t'. GetOrCreateID_block b s = (i, s') \<and> GetOrCreateID_block (copy_address C (BlockPtr b)) t = (i, t') \<and> renamed_names C s' t'"
  using renamed_ids_GetOrCreateID [of "\<lambda>b. copy_address C (BlockPtr b)" "{b. BlockPtr b \<in> copied C}" "block_ids s" "block_ids t" b] assms
  by (auto simp: renamed_names_def GetOrCreateID_block_def)

lemma get_module_same:
  assumes "renamed_names C s t"
  shows "\<exists>i s' t'. GetOrCreateID_module (copied_module C) s = (i, s') \<and>
    GetOrCreateID_module (module_copy_address C) t = (i, t') \<and> renamed_names C s' t'"
  using renamed_ids_GetOrCreateID [of "\<lambda>_. module_copy_address C" "{copied_module C}" "module_ids s" "module_ids t" "copied_module C"] assms
  by (auto simp: renamed_names_def GetOrCreateID_module_def)

lemma ValueToString_same:
  assumes "renamed_names C s t" and "closed_value (copied C) v"
  shows "same_run (renamed_names C) (ValueToString heap v s) (ValueToString heap' (renamed_value (copy_address C) v) t)"
  using get_value_same [OF assms] assms by (cases v) (simp_all add: same_run_def)

section \<open>Copies\<close>

definition operation_copy :: "copying \<Rightarrow> op_id \<times> operation \<Rightarrow> op_id \<times> operation \<Rightarrow> bool" where
  "operation_copy C x y \<longleftrightarrow> OperationPtr (fst x) \<in> copied C \<and> fst y = copy_address C (OperationPtr (fst x)) \<and>
     op_of (snd y) = op_of (snd x) \<and> hm_wf (attributes (snd x)) \<and> mset (attributes (snd y)) = mset (attributes (snd x)) \<and>
     (\<forall>v \<in> set (inputs (snd x)). closed_value (copied C) v) \<and>
     inputs (snd y) = map (renamed_value (copy_address C)) (inputs (snd x))"

definition block_copy :: "copying \<Rightarrow> block_id \<times> block \<Rightarrow> block_id \<times> block \<Rightarrow> bool" where
  "block_copy C x y \<longleftrightarrow> BlockPtr (fst x) \<in> copied C \<and> fst y = copy_address C (BlockPtr (fst x)) \<and>
     list_all2 (operation_copy C) (operations (snd x)) (operations (snd y))"

definition module_copy :: "copying \<Rightarrow> module_id \<times> ir_module \<Rightarrow> module_id \<times> ir_module \<Rightarrow> bool" where
  "module_copy C m n \<longleftrightarrow> fst m = copied_module C \<and> fst n = module_copy_address C \<and>
     list_all2 (block_copy C) (blocks (snd m)) (blocks (snd n))"

lemma operation_copy_inputs:
  "operation_copy C x y \<Longrightarrow> list_all2 (\<lambda>v w. closed_value (copied C) v \<and> w = renamed_value (copy_address C) v)
     (inputs (snd x)) (inputs (snd y))"
  by (simp add: operation_copy_def list_all2_map2 list_all2_same)

text \<open>The names of the attributes are different, so sorting by name forgets the order of the map.\<close>

lemma operation_copy_attributes:
  assumes "operation_copy C x y"
  shows "sort_key fst (attributes (snd y)) = sort_key fst (attributes (snd x))"
    and "sort (map fst (attributes (snd y))) = sort (map fst (attributes (snd x)))"
    and "map_of (attributes (snd y)) = map_of (attributes (snd x))"
proof -
  let ?a = "attributes (snd x)" and ?b = "attributes (snd y)"
  have wf: "hm_wf ?a" and perm: "mset ?b = mset ?a" using assms by (simp_all add: operation_copy_def)
  have keys: "mset (map fst ?b) = mset (map fst ?a)" using perm by simp
  have dist: "distinct (map fst ?a)" using wf by (simp add: hm_wf_def)
  then have dist': "distinct (map fst ?b)" using mset_eq_imp_distinct_iff [OF keys] by blast
  then have "inj_on fst (set ?b)" by (simp only: distinct_map)
  then show "sort_key fst ?b = sort_key fst ?a"
    using perm by (intro sort_key_inj_key_eq) simp_all
  show "sort (map fst ?b) = sort (map fst ?a)"
    using keys by (intro properties_for_sort) simp_all
  have "set ?b = set ?a" using perm by (rule mset_eq_setD)
  with dist dist' show "map_of ?b = map_of ?a" by (simp add: map_of_inject_set)
qed

lemma result_values_same:
  assumes "operation_copy C x y" and "renamed_names C s t"
  shows "same_run (renamed_names C)
    (map_state (\<lambda>i s. Inr (GetOrCreateID_value (MakeOperationResultValue (fst x) i) s)) [0..<number_of_return_values (op_of (snd x))] s)
    (map_state (\<lambda>i s. Inr (GetOrCreateID_value (MakeOperationResultValue (fst y) i) s)) [0..<number_of_return_values (op_of (snd y))] t)"
proof (rule same_run_map_state [where Q = "(=)"])
  show "list_all2 (=) [0..<number_of_return_values (op_of (snd x))] [0..<number_of_return_values (op_of (snd y))]"
    using assms(1) by (simp add: operation_copy_def list.rel_eq)
  fix i j s t assume "(i :: nat) = j" and names: "renamed_names C s t"
  have closed: "closed_value (copied C) (OperationResult (fst x) i)" using assms(1) by (simp add: operation_copy_def)
  show "same_run (renamed_names C) (Inr (GetOrCreateID_value (MakeOperationResultValue (fst x) i) s))
      (Inr (GetOrCreateID_value (MakeOperationResultValue (fst y) j) t))"
    using get_value_same [OF names closed] assms(1) \<open>i = j\<close> by (simp add: MakeOperationResultValue_def operation_copy_def)
qed (rule assms(2))

lemma inputs_same:
  assumes "operation_copy C x y" and "renamed_names C s t"
  shows "same_run (renamed_names C) (map_state (ValueToString heap) (inputs (snd x)) s)
    (map_state (ValueToString heap') (inputs (snd y)) t)"
  by (rule same_run_map_state [where R = "renamed_names C", OF operation_copy_inputs [OF assms(1)]])
    (auto intro: ValueToString_same assms(2))

section \<open>The facts of a copy\<close>

definition lowerings_agree :: "copying \<Rightarrow> datalog_lowering_visitor \<Rightarrow> datalog_lowering_visitor \<Rightarrow> bool" where
  "lowerings_agree C v w \<longleftrightarrow> renamed_names C (dl_ssa_names v) (dl_ssa_names w) \<and> datalog_facts w = datalog_facts v"

lemma lower_operands_same:
  assumes "operation_copy C x y" and "renamed_names C s t"
  shows "same_run (renamed_names C) (rfold (lower_operand heap) (inputs (snd x)) (l, s))
    (rfold (lower_operand heap') (inputs (snd y)) (l, t))"
proof -
  have inputs: "list_all2 (\<lambda>v w. closed_value (copied C) v \<and> w = renamed_value (copy_address C) v)
      (rev (inputs (snd x))) (rev (inputs (snd y)))"
    using operation_copy_inputs [OF assms(1)] by (simp only: list_all2_rev)
  show ?thesis
    unfolding rfold_def
    by (rule same_run_fold [where R = "renamed_names C", OF inputs assms(2)])
      (auto simp: lower_operand_def intro!: same_run_bind [where R = "renamed_names C"] ValueToString_same same_runI)
qed

lemma lowering_operation_same:
  assumes copy: "operation_copy C x y" and "lowerings_agree C v w"
  shows "same_run (lowerings_agree C) (lowering_PreVisit_operation heap x v) (lowering_PreVisit_operation heap' y w)"
proof -
  have names: "renamed_names C (dl_ssa_names v) (dl_ssa_names w)" and facts: "datalog_facts w = datalog_facts v"
    using assms(2) by (simp_all add: lowerings_agree_def)
  have op: "op_of (snd y) = op_of (snd x)" using copy by (simp add: operation_copy_def)
  from lower_operands_same [OF copy names, of heap empty_list_record heap'] obtain l s t where
    l: "rfold (lower_operand heap) (inputs (snd x)) (empty_list_record, dl_ssa_names v) = Inr (l, s)"
      "rfold (lower_operand heap') (inputs (snd y)) (empty_list_record, dl_ssa_names w) = Inr (l, t)"
      "renamed_names C s t" by (auto simp: same_run_def)
  from result_values_same [OF copy l(3)] obtain rs s' t' where
    rs: "map_state (\<lambda>i s. Inr (GetOrCreateID_value (MakeOperationResultValue (fst x) i) s)) [0..<number_of_return_values (op_of (snd x))] s = Inr (rs, s')"
      "map_state (\<lambda>i s. Inr (GetOrCreateID_value (MakeOperationResultValue (fst y) i) s)) [0..<number_of_return_values (op_of (snd y))] t = Inr (rs, t')"
      "renamed_names C s' t'" by (auto simp: same_run_def)
  from rs show ?thesis
    by (simp add: lowering_PreVisit_operation_def l(1,2) operation_copy_attributes(1) [OF copy] op lower_attributes_eq same_run_def lowerings_agree_def
        facts Let_def)
qed

lemma lowering_visitor_methods [simp]:
  "FoldResult (lowering_visitor heap) = (\<lambda>acc child s. Inr (acc, s))"
  "PreVisit_module (lowering_visitor heap) = (\<lambda>_ s. Inr ((), s))"
  "PostVisit_module (lowering_visitor heap) = (\<lambda>_ r s. Inr (r, s))"
  "PreVisit_block (lowering_visitor heap) = (\<lambda>_ s. Inr ((), s))"
  "PostVisit_block (lowering_visitor heap) = (\<lambda>_ r s. Inr (r, s))"
  "PreVisit_operation (lowering_visitor heap) = lowering_PreVisit_operation heap"
  "PostVisit_operation (lowering_visitor heap) = (\<lambda>_ r s. Inr (r, s))"
  by (simp_all add: lowering_visitor_def default_visitor_def)

interpretation lowerings: parallel_visits "lowering_visitor heap" "lowering_visitor heap'" "lowerings_agree C"
  "operation_copy C" "block_copy C" "module_copy C" for heap heap' C
  by unfold_locales (auto simp: block_copy_def module_copy_def intro: same_runI lowering_operation_same)

lemma lower_copy:
  assumes "module_copy C m n" and "inj_on (copy_address C) (copied C)"
  shows "\<exists>v w. lower_module heap new_ssa_names m = Inr v \<and> lower_module heap' new_ssa_names n = Inr w \<and>
    datalog_facts w = datalog_facts v"
proof -
  have "lowerings_agree C (new_datalog_lowering_visitor new_ssa_names) (new_datalog_lowering_visitor new_ssa_names)"
    by (simp add: lowerings_agree_def new_datalog_lowering_visitor_def renamed_names_new [OF assms(2)])
  from lowerings.visit_module [OF assms(1) this, of heap heap'] show ?thesis
    by (auto simp: same_run_def lower_module_def lowerings_agree_def)
qed

section \<open>The text of a copy\<close>

definition printers_agree :: "copying \<Rightarrow> ir_printer \<Rightarrow> ir_printer \<Rightarrow> bool" where
  "printers_agree C p q \<longleftrightarrow> renamed_names C (ssa p) (ssa q) \<and> out q = out p \<and> indent q = indent p"

lemma PrintNamedMap_same:
  "operation_copy C x y \<Longrightarrow>
     PrintNamedMapInNameOrder f (attributes (snd y)) = PrintNamedMapInNameOrder f (attributes (snd x))"
  by (simp add: PrintNamedMapInNameOrder_def operation_copy_attributes(2,3))

lemma printer_operation_same:
  assumes copy: "operation_copy C x y" and "printers_agree C p q"
  shows "same_run (printers_agree C) (printer_PreVisit_operation heap lg x p) (printer_PreVisit_operation heap' lg y q)"
proof -
  have names: "renamed_names C (ssa p) (ssa q)" and same: "out q = out p" "indent q = indent p"
    using assms(2) by (simp_all add: printers_agree_def)
  have op: "op_of (snd y) = op_of (snd x)" using copy by (simp add: operation_copy_def)
  from inputs_same [OF copy names, of heap heap'] obtain ins s t where
    ins: "map_state (ValueToString heap) (inputs (snd x)) (ssa p) = Inr (ins, s)"
      "map_state (ValueToString heap') (inputs (snd y)) (ssa q) = Inr (ins, t)" "renamed_names C s t"
    by (auto simp: same_run_def)
  from result_values_same [OF copy ins(3)] obtain rs s' t' where
    rs: "map_state (\<lambda>i s. Inr (GetOrCreateID_value (MakeOperationResultValue (fst x) i) s)) [0..<number_of_return_values (op_of (snd x))] s = Inr (rs, s')"
      "map_state (\<lambda>i s. Inr (GetOrCreateID_value (MakeOperationResultValue (fst y) i) s)) [0..<number_of_return_values (op_of (snd y))] t = Inr (rs, t')"
      "renamed_names C s' t'" by (auto simp: same_run_def)
  from rs show ?thesis
    by (simp add: printer_PreVisit_operation_def ins(1,2) PrintNamedMap_same [OF copy] PrintNamedMapInNameOrder_eq op
        same_run_def printers_agree_def same emit_def Indent_def Let_def)
qed

lemma printer_block_same:
  assumes "block_copy C x y" and "printers_agree C p q"
  shows "same_run (printers_agree C) (printer_PreVisit_block x p) (printer_PreVisit_block y q)"
    and "same_run (printers_agree C) (printer_PostVisit_block x r p) (printer_PostVisit_block y r q)"
  using get_block_same [of C "ssa p" "ssa q" "fst x"] assms
  by (auto simp: block_copy_def printers_agree_def same_run_def printer_PreVisit_block_def printer_PostVisit_block_def
      emit_def Indent_def IncreaseIndent_def DecreaseIndent_def Let_def)

lemma printer_module_same:
  assumes "module_copy C m n" and "printers_agree C p q"
  shows "same_run (printers_agree C) (printer_PreVisit_module m p) (printer_PreVisit_module n q)"
    and "same_run (printers_agree C) (printer_PostVisit_module m r p) (printer_PostVisit_module n r q)"
  using get_module_same [of C "ssa p" "ssa q"] assms
  by (auto simp: module_copy_def printers_agree_def same_run_def printer_PreVisit_module_def printer_PostVisit_module_def
      emit_def Indent_def IncreaseIndent_def DecreaseIndent_def Let_def)

lemma ir_printer_methods [simp]:
  "FoldResult (ir_printer heap lg) = (\<lambda>acc child s. Inr (acc, s))"
  "PreVisit_module (ir_printer heap lg) = printer_PreVisit_module"
  "PostVisit_module (ir_printer heap lg) = printer_PostVisit_module"
  "PreVisit_block (ir_printer heap lg) = printer_PreVisit_block"
  "PostVisit_block (ir_printer heap lg) = printer_PostVisit_block"
  "PreVisit_operation (ir_printer heap lg) = printer_PreVisit_operation heap lg"
  "PostVisit_operation (ir_printer heap lg) = (\<lambda>_ r s. Inr (r, s))"
  by (simp_all add: ir_printer_simps)

interpretation printers: parallel_visits "ir_printer heap lg" "ir_printer heap' lg" "printers_agree C"
  "operation_copy C" "block_copy C" "module_copy C" for heap heap' lg C
  by unfold_locales (auto simp: block_copy_def module_copy_def
      intro: same_runI printer_operation_same printer_block_same printer_module_same)

lemma print_copy:
  assumes "module_copy C m n" and "inj_on (copy_address C) (copied C)"
  shows "\<exists>t. IRPrinter_ToString heap lg m = Inr t \<and> IRPrinter_ToString heap' lg n = Inr t"
proof -
  let ?p = "\<lparr>out = [], indent = 0, ssa = new_ssa_names\<rparr>"
  have "printers_agree C ?p ?p" by (simp add: printers_agree_def renamed_names_new [OF assms(2)])
  from printers.visit_module [OF assms(1) this, of heap lg heap'] show ?thesis
    by (auto simp: same_run_def printers_agree_def IRPrinter_ToString_def IRPrinter_ToString_names_def)
qed

section \<open>What is read from a message is a copy\<close>

definition read_copy :: "(ir_ptr \<Rightarrow> nat) \<Rightarrow> ir_module \<Rightarrow> module_id \<Rightarrow> module_id \<Rightarrow> copying" where
  "read_copy A m that this = \<lparr>copy_address = A, copied = set (module_ptrs m), copied_module = that, module_copy_address = this\<rparr>"

lemma renamed_block_copy:
  assumes "readable_module ctx m" and "is_order (ord_attributes ords)" and "x \<in> set (blocks m)"
  shows "block_copy (read_copy A m that this) x (renamed_block ords A this x)"
proof -
  have ptrs: "BlockPtr (fst x) \<in> set (module_ptrs m)"
    "y \<in> set (operations (snd x)) \<Longrightarrow> OperationPtr (fst y) \<in> set (module_ptrs m)" for y
    using assms(3) by (auto simp: module_ptrs_def block_ptrs_def)
  have "operation_copy (read_copy A m that this) y
      (A (OperationPtr (fst y)), set_parent (A (BlockPtr (fst x))) (reread ords A (snd y)))"
    if "y \<in> set (operations (snd x))" for y
    using assms that ptrs(2) [OF that]
    by (auto simp: operation_copy_def read_copy_def readable_module_def readable_operation_def reread_def
        make_operation_def set_parent_def is_order_def)
  with ptrs(1) show ?thesis
    by (simp add: block_copy_def read_copy_def renamed_block_def renamed_operations_def empty_block_def
        list_all2_map2 list_all2_same)
qed

lemma renamed_module_copy:
  assumes "readable_module ctx m" and "is_order (ord_attributes ords)"
  shows "module_copy (read_copy A m that this) (that, m)
    (this, \<lparr>blocks = map (renamed_block ords A this) (blocks m), named_storage_map = []\<rparr>)"
  using renamed_block_copy [OF assms]
  by (simp add: module_copy_def list_all2_map2 list_all2_same) (simp add: read_copy_def)

section \<open>Properties\<close>

text \<open>C6: A module that is written to a message and read back is printed as the same text as before,
  although its blocks and operations are at other addresses and its attributes in another
  order: the names in the text depend on the order of the traversal only.\<close>

theorem read_module_prints_the_same:
  assumes "readable_module ctx m"
    and "is_order (ord_attributes ords)" and "is_order (ord_results ords)" and "is_order (ord_operators ords)"
  shows "\<exists>unit n names t. IRToProto_Convert ords ctx m = Inr unit \<and>
    ProtoToIR_Convert addr this ctx unit = Inr ((n, names), ctx) \<and>
    IRPrinter_ToString heap lg (that, m) = Inr t \<and> IRPrinter_ToString heap' lg (this, n) = Inr t"
proof -
  from written_unit_read [OF assms, of addr this] obtain unit A names where
    unit: "IRToProto_Convert ords ctx m = Inr unit" "inj_on A (set (module_ptrs m))" "ProtoToIR_Convert addr this ctx unit =
      Inr ((\<lparr>blocks = map (renamed_block ords A this) (blocks m), named_storage_map = []\<rparr>, names), ctx)" by blast
  have "inj_on (copy_address (read_copy A m that this)) (copied (read_copy A m that this))"
    using unit(2) by (simp add: read_copy_def)
  from print_copy [OF renamed_module_copy [OF assms(1,2)] this] unit(1,3) show ?thesis by blast
qed

theorem read_module_prints_the_same_witness:
  "\<exists>unit n names t. IRToProto_Convert backwards proto_context proto_example = Inr unit \<and>
    ProtoToIR_Convert 100 0 proto_context unit = Inr ((n, names), proto_context) \<and>
    IRPrinter_ToString (\<lambda>_. None) (\<lambda>_. []) (7, proto_example) = Inr t \<and>
    IRPrinter_ToString (\<lambda>_. None) (\<lambda>_. []) (0, n) = Inr t"
  by (rule read_module_prints_the_same [OF proto_example_readable]) (simp_all add: backwards_def)

end
