(* ===== verification/Message_Compliance.thy ===== *)
theory Message_Compliance imports
  Address_Independence
  Policy_Engine
begin

text \<open>
  The program \<^verbatim>\<open>souffle/check_policy_compliance.cc\<close> on \<^verbatim>\<open>--proto\<close>: the message of a module is judged as the
  module itself. The program reads it in a new context, which knows the operators by the names in the
  message only (\<^verbatim>\<open>src/ir/proto_to_ir.h\<close>).
\<close>

section \<open>The operators of a message in a new context\<close>

definition unary_operators :: "ir_context \<Rightarrow> bool" where
  "unary_operators c \<longleftrightarrow> (\<forall>name oprt. GetOperator name c = Some oprt \<longrightarrow> oprt = make_operator name)"

lemma register_proto_operator_unary:
  assumes "unary_operators c"
  shows "\<exists>c'. register_proto_operator name c = Inr c' \<and> unary_operators c' \<and> GetOperator name c' \<noteq> None \<and>
    (\<forall>n. GetOperator n c \<noteq> None \<longrightarrow> GetOperator n c' \<noteq> None)"
proof (cases "IsRegisteredOperator name c")
  case True
  with assms show ?thesis
    by (auto simp: register_proto_operator_def IsRegisteredOperator_def IsRegisteredNode_def GetOperator_def GetNode_def)
next
  case False
  then obtain c' where c': "RegisterOperator (make_operator name) c = Inr c'"
    using operator_registry.register_ok [of "make_operator name" c]
    by (auto simp: make_operator_def is_ok_iff IsRegisteredOperator_def IsRegisteredNode_def GetOperator_def GetNode_def)
  then have "GetOperator n c' = (if n = name then Some (make_operator name) else GetOperator n c)" for n
    using operator_registry.lookup_register [OF c', of n] by (simp add: make_operator_def)
  with c' False assms show ?thesis by (simp add: register_proto_operator_def unary_operators_def)
qed

lemma register_proto_operators_unary:
  assumes "unary_operators c"
  shows "\<exists>c'. fold_result register_proto_operator ns c = Inr c' \<and> unary_operators c' \<and>
    (\<forall>n. n \<in> set ns \<or> GetOperator n c \<noteq> None \<longrightarrow> GetOperator n c' = Some (make_operator n))"
  using assms
proof (induction ns arbitrary: c)
  case Nil
  then show ?case by (auto simp: unary_operators_def)
next
  case (Cons name ns)
  from register_proto_operator_unary [OF Cons.prems, of name] obtain c1 where
    c1: "register_proto_operator name c = Inr c1" "unary_operators c1" "GetOperator name c1 \<noteq> None"
      "\<forall>n. GetOperator n c \<noteq> None \<longrightarrow> GetOperator n c1 \<noteq> None" by blast
  from Cons.IH [OF c1(2)] obtain c2 where "fold_result register_proto_operator ns c1 = Inr c2" "unary_operators c2"
    "\<forall>n. n \<in> set ns \<or> GetOperator n c1 \<noteq> None \<longrightarrow> GetOperator n c2 = Some (make_operator n)" by blast
  with c1 show ?case by auto
qed

text \<open>A module whose operators have one result each is readable in the context of its message.\<close>

definition unary_module :: "ir_module \<Rightarrow> bool" where
  "unary_module m \<longleftrightarrow> (\<forall>oper \<in> set (module_operations m). number_of_return_values (op_of (snd oper)) = 1)"

lemma message_read_anew:
  assumes m: "readable_module ctx m" "unary_module m"
    and ords: "is_order (ord_attributes ords)" "is_order (ord_results ords)" "is_order (ord_operators ords)"
    and unit: "IRToProto_Convert ords ctx m = Inr unit"
  shows "\<exists>A nms c. inj_on A (set (module_ptrs m)) \<and> ProtoToIR_Convert addr this empty_context unit =
    Inr ((\<lparr>blocks = map (renamed_block ords A this) (blocks m), named_storage_map = []\<rparr>, nms), c)"
proof -
  from unit obtain mp st where mp: "ModuleToProto ords m \<lparr>used_ids = [], last_used_id = 0\<rparr> = Inr (mp, st)"
    and msg: "top_level_module unit = mp" "proto_operators unit = map fst (ord_operators ords (ctx_operators ctx))"
    by (auto simp: IRToProto_Convert_def)
  have "unary_operators empty_context" by (simp add: unary_operators_def GetOperator_def GetNode_def empty_context_def)
  from register_proto_operators_unary [OF this, of "proto_operators unit"] obtain c where
    c: "fold_result register_proto_operator (proto_operators unit) empty_context = Inr c"
      "\<forall>n \<in> set (proto_operators unit). GetOperator n c = Some (make_operator n)" by auto
  have "GetOperator (op_name (op_of oper)) c = Some (op_of oper)"
    if "GetOperator (op_name (op_of oper)) ctx = Some (op_of oper)" "number_of_return_values (op_of oper) = 1" for oper
  proof -
    have "op_name (op_of oper) \<in> set (proto_operators unit)"
      using that(1) is_order_set [OF ords(3)] by (force simp: msg(2) GetOperator_def GetNode_def dest: map_of_SomeD)
    moreover have "op_of oper = make_operator (op_name (op_of oper))"
      using that(2) by (simp add: make_operator_def)
    ultimately show ?thesis using c(2) by metis
  qed
  then have "readable_module c m"
    using m by (fastforce simp: readable_module_def readable_operation_def unary_module_def module_operations_def)
  from written_module_read [OF this ords(1,2) mp msg(1) c(1), of addr this] show ?thesis by blast
qed

section \<open>The checker on a copy\<close>

lemma checker_on_copy:
  assumes "module_copy C m n" and "inj_on (copy_address C) (copied C)"
  shows "Souffle_IsModulePolicyCompliant P lg heap' n pol = Souffle_IsModulePolicyCompliant P lg heap m pol"
proof -
  from lower_copy [OF assms, of heap heap'] obtain v w where "lower_module heap new_ssa_names m = Inr v"
    "lower_module heap' new_ssa_names n = Inr w" "datalog_facts w = datalog_facts v" by blast
  then have "IsModulePolicyCompliantHelper P lg heap' n pol dir = IsModulePolicyCompliantHelper P lg heap m pol dir" for dir
    by (simp add: IsModulePolicyCompliantHelper_def)
  then show ?thesis by (simp only: Souffle_IsModulePolicyCompliant_def)
qed

section \<open>Properties\<close>

text \<open>C12: The program called with \<^verbatim>\<open>--proto\<close> on the message of a module gives the verdict that the
  policy checker gives on the module itself, on every platform and for every policy: its exit
  code is the one of a missing policy, or 0 exactly when the module complies and 1 otherwise.
  It holds for the modules that can be read back and whose operators have one result each,
  since a message does not say how many results an operator has.\<close>

theorem compliance_of_message:
  assumes "readable_module ctx m" and "unary_module m"
    and "is_order (ord_attributes ords)" and "is_order (ord_results ords)" and "is_order (ord_operators ords)"
    and "IRToProto_Convert ords ctx m = Inr unit" and "JsonStringToMessage R json = Inr unit"
    and "FLAGS_ir fl = None" and "FLAGS_proto fl = Some path" and "fs path = Some (Some json)"
  shows "check_policy_compliance_main P lg R cks fs fl =
    (case select_policy cks fs fl of
       Inl code \<Rightarrow> Inr code
     | Inr pol \<Rightarrow> rbind (Souffle_IsModulePolicyCompliant P lg heap (that, m) pol) (\<lambda>compliant. Inr (if compliant then 0 else 1)))"
proof -
  from message_read_anew [OF assms(1-6), of "first_address R" "module_address R"] obtain A nms c where
    A: "inj_on A (set (module_ptrs m))" and read: "ProtoToIR_Convert (first_address R) (module_address R) empty_context unit =
      Inr ((\<lparr>blocks = map (renamed_block ords A (module_address R)) (blocks m), named_storage_map = []\<rparr>, nms), c)" by blast
  let ?n = "\<lparr>blocks = map (renamed_block ords A (module_address R)) (blocks m), named_storage_map = []\<rparr>"
  let ?C = "read_copy A m that (module_address R)"
  have "inj_on (copy_address ?C) (copied ?C)" using A by (simp add: read_copy_def)
  from checker_on_copy [OF renamed_module_copy [OF assms(1,3)] this]
  have "Souffle_IsModulePolicyCompliant P lg (module_storages ?n) (module_address R, ?n) pol =
      Souffle_IsModulePolicyCompliant P lg heap (that, m) pol" for pol .
  with assms(7-10) read show ?thesis
    by (simp add: check_policy_compliance_main_def GetIrGraphComponentsFromProtoPath_def ReadFileContents_def exit_codes
        split: sum.splits)
qed

text \<open>The message of two operations, under a privacy budget.\<close>

definition message_readers :: readers where
  "message_readers = sample_readers\<lparr>JsonStringToMessage := (\<lambda>_.
     case IRToProto_Convert backwards proto_context proto_example of Inr unit \<Rightarrow> Inr unit | Inl _ \<Rightarrow> Inl ''no message'')\<rparr>"

definition message_flags :: flags where
  "message_flags = sample_flags\<lparr>FLAGS_ir := None, FLAGS_proto := Some ''a.json''\<rparr>"

theorem compliance_of_message_witness:
  "check_policy_compliance_main sample_platform (\<lambda>_. []) message_readers sample_checkers (\<lambda>_. Some (Some [])) message_flags = Inr 0"
proof -
  let ?pol = "DpParameterPolicy sample_checkers 1 0" and ?m = "(0, proto_example)"
  have ords: "is_order (ord_attributes backwards)" "is_order (ord_results backwards)" "is_order (ord_operators backwards)"
    by (simp_all add: backwards_def)
  from written_unit_read [OF proto_example_readable ords] obtain unit where
    unit: "IRToProto_Convert backwards proto_context proto_example = Inr unit" by blast
  have pol: "select_policy sample_checkers (\<lambda>_. Some (Some [])) message_flags = Inr ?pol" "policy_ok ?pol"
    by (simp_all add: select_policy_def message_flags_def sample_flags_def policy_ok_def DpParameterPolicy_def)
  have run: "run_program (the (dp_policy_verifier sample_checkers)) (fact_files (\<lambda>_. []) facts ?pol) = Inr True" for facts
    by (simp add: run_program_def sample_checkers_def fact_files_def DpParameterPolicy_def)
  have opers: "module_operations (snd ?m) = operations (snd (hd (blocks proto_example)))"
    by (simp add: proto_example_def module_operations_def)
  have "\<forall>oper \<in> set (module_operations (snd ?m)). known_storages Map.empty (inputs (snd oper))"
    unfolding opers by (simp add: proto_example_def known_storages_def make_operation_def)
  from checker_runs_program [OF sample_platform_works(1) pol(2) this, of "\<lambda>_. []"] run
  have verdict: "Souffle_IsModulePolicyCompliant sample_platform (\<lambda>_. []) Map.empty ?m ?pol = Inr True"
    by (auto simp: DpParameterPolicy_def die_if_null_def sample_checkers_def)
  have "unary_module proto_example"
    using opers by (simp add: unary_module_def proto_example_def make_operation_def make_operator_def)
  from compliance_of_message [OF proto_example_readable this ords unit, where R = message_readers and json = "[]"
      and fl = message_flags and path = "''a.json''" and fs = "\<lambda>_. Some (Some [])" and P = sample_platform
      and lg = "\<lambda>_. []" and cks = sample_checkers and heap = Map.empty and that = 0] pol(1) verdict unit
  show ?thesis by (simp add: message_readers_def message_flags_def)
qed

text \<open>A message has the names of the operators only: an operator with two results comes back with
  one, so a module that is written and read in a new context has lost its second results.\<close>

definition pair_operator :: operator where
  "pair_operator = \<lparr>op_name = ''core.pair'', number_of_return_values = 2\<rparr>"

definition pair_module :: ir_module where
  "pair_module = empty_module\<lparr>blocks := [(3, empty_block\<lparr>parent_module := Some 0,
     operations := [(8, make_operation (Some 3) pair_operator [] [Any])]\<rparr>)]\<rparr>"

lemma message_loses_results:
  "\<exists>unit n nms c. IRToProto_Convert backwards (empty_context\<lparr>ctx_operators := [(''core.pair'', pair_operator)]\<rparr>) pair_module = Inr unit \<and>
     ProtoToIR_Convert 100 0 empty_context unit = Inr ((n, nms), c) \<and>
     map (\<lambda>oper. NumberOfOutputs (snd oper)) (module_operations pair_module) = [2] \<and>
     map (\<lambda>oper. NumberOfOutputs (snd oper)) (module_operations n) = [1]"
proof -
  have "case IRToProto_Convert backwards (empty_context\<lparr>ctx_operators := [(''core.pair'', pair_operator)]\<rparr>) pair_module of
      Inl _ \<Rightarrow> False | Inr unit \<Rightarrow> (case ProtoToIR_Convert 100 0 empty_context unit of Inl _ \<Rightarrow> False
        | Inr ((n, nms), c) \<Rightarrow> map (\<lambda>oper. NumberOfOutputs (snd oper)) (module_operations n) = [1])"
    by code_simp
  moreover have "map (\<lambda>oper. NumberOfOutputs (snd oper)) (module_operations pair_module) = [2]" by code_simp
  ultimately show ?thesis by (auto split: sum.splits)
qed

end
