(* ===== verification/Ambient_Checker.thy ===== *)
theory Ambient_Checker imports
  Prelude
begin

text \<open>
  The policy checker of the ambient frontend, \<^verbatim>\<open>src/frontends/ambient/policy_checker.h\<close> and
  \<^verbatim>\<open>policy_checker.cc\<close>: a state machine that keeps the edges of a data flow graph and the users'
  settings, and asks a Souffle program whether they comply. The program is generated by the
  build, so it is a parameter: what it derives from the facts it is given.
\<close>

section \<open>Nodes, users and settings\<close>

datatype ambient_node = kUnknownNode | kSmartMicrophone | kDemoApplication | kDemoApplicationASR
  | kDemoApplicationAudioStore

datatype user = kUnknownUser | kOwner | kGuest

datatype settings = kUnknownSettings | kStreaming | kASR | kRecording

definition kSystemSettingsManager :: string where
  "kSystemSettingsManager = ''SystemSettingsManager''"

fun GetSettingsName :: "settings \<Rightarrow> string result" where
  "GetSettingsName kASR = Inr ''ASR''"
| "GetSettingsName kStreaming = Inr ''Streaming''"
| "GetSettingsName kRecording = Inr ''Recording''"
| "GetSettingsName kUnknownSettings = Inl (Check_failed ''Unknown settings'')"

definition GetSettings :: "string \<Rightarrow> settings result" where
  "GetSettings name = (if name = ''ASR'' then Inr kASR
     else if name = ''Streaming'' then Inr kStreaming
     else if name = ''Recording'' then Inr kRecording
     else Inl (Check_failed ''Unknown settings''))"

fun GetUserName :: "user \<Rightarrow> string result" where
  "GetUserName kOwner = Inr ''OwnerUser''"
| "GetUserName kGuest = Inr ''GuestUser''"
| "GetUserName kUnknownUser = Inl (Check_failed ''Unknown user'')"

fun GetDataConnectionName :: "ambient_node \<Rightarrow> bool \<Rightarrow> string result" where
  "GetDataConnectionName kSmartMicrophone in_bound =
     (if in_bound then Inl (Check_failed ''No inbound connections for SmartMicrophone'')
      else Inr ''R.mic_audio_stream_out'')"
| "GetDataConnectionName kDemoApplication in_bound =
     Inr (if in_bound then ''R.app_audio_stream_in'' else ''R.app_audio_stream_out'')"
| "GetDataConnectionName kDemoApplicationASR in_bound =
     (if in_bound then Inr ''R.asr_audio_stream_in''
      else Inl (Check_failed ''No outbound connections for ASR application.''))"
| "GetDataConnectionName kDemoApplicationAudioStore in_bound =
     (if in_bound then Inr ''R.store_audio_stream_in''
      else Inl (Check_failed ''No outbound connections for ASR application.''))"
| "GetDataConnectionName kUnknownNode in_bound = Inl (Check_failed ''Unknown node'')"

section \<open>The checker\<close>

type_synonym data_flow_edge = "string \<times> string"
type_synonym usage = "string \<times> string \<times> string \<times> string"

text \<open>What the Souffle program derives from the facts of its relations \<^verbatim>\<open>edge\<close> and
  \<^verbatim>\<open>says_isEnabled\<close>, in the order of the relation's iterator; \<open>says_canSay_isEnabled\<close> is read from a
  program that was run without facts.\<close>

record souffle_program =
  disallowedUsage :: "data_flow_edge set \<Rightarrow> (string \<times> string) set \<Rightarrow> usage list"
  says_canSay_isEnabled :: "(string \<times> string \<times> string) list"

type_synonym settings_map = "(settings, bool) hash_map"

record policy_checker =
  flow_edges :: "data_flow_edge set"
  user_settings :: "(user, settings_map) hash_map"

definition initial_settings :: settings_map where
  "initial_settings = [(kASR, True), (kStreaming, True), (kRecording, True)]"

definition new_policy_checker :: policy_checker where
  "new_policy_checker = \<lparr>flow_edges = {}, user_settings =
     hm_assign kGuest initial_settings (hm_assign kOwner initial_settings [])\<rparr>"

definition AddEdge :: "string \<Rightarrow> string \<Rightarrow> policy_checker \<Rightarrow> policy_checker" where
  "AddEdge src tgt c = c\<lparr>flow_edges := insert (src, tgt) (flow_edges c)\<rparr>"

definition IsEdgePresent :: "string \<Rightarrow> string \<Rightarrow> policy_checker \<Rightarrow> bool" where
  "IsEdgePresent src tgt c \<longleftrightarrow> (src, tgt) \<in> flow_edges c"

definition RemoveEdge :: "string \<Rightarrow> string \<Rightarrow> policy_checker \<Rightarrow> policy_checker" where
  "RemoveEdge src tgt c = c\<lparr>flow_edges := flow_edges c - {(src, tgt)}\<rparr>"

definition setting_tuple :: "user \<Rightarrow> settings \<times> bool \<Rightarrow> (string \<times> string) set \<Rightarrow> (string \<times> string) set result" where
  "setting_tuple user entry rel = (case entry of (usage, allowed) \<Rightarrow>
     if allowed then rbind (GetUserName user) (\<lambda>u. rbind (GetSettingsName usage) (\<lambda>s. Inr (insert (u, s) rel)))
     else Inr rel)"

definition UpdateSettings :: "(user, settings_map) hash_map \<Rightarrow> (string \<times> string) set result" where
  "UpdateSettings all_settings =
     fold_result (\<lambda>(user, settings). fold_result (setting_tuple user) settings) all_settings {}"

definition usage_line :: "usage \<Rightarrow> string" where
  "usage_line output = (case output of (data_consumer, usage, owner, tag) \<Rightarrow>
     '' '' @ [CHR 39] @ usage @ [CHR 39] @ '' for '' @ [CHR 39] @ tag @ [CHR 39] @ '' of '' @ [CHR 39] @ owner @
     [CHR 39, CHR 10])"

definition ValidatePolicyCompliance :: "souffle_program \<Rightarrow> policy_checker \<Rightarrow> (bool \<times> string) result" where
  "ValidatePolicyCompliance prog c =
     rbind (UpdateSettings (user_settings c)) (\<lambda>enabled.
     let disallowed_usage = disallowedUsage prog (flow_edges c) enabled
     in if length disallowed_usage = 0 then Inr (True, ''Success'')
        else Inr (False, ''Disallowed Usages:'' @ [CHR 10] @ concat (map usage_line disallowed_usage)))"

definition AddIfValidEdge_names ::
  "souffle_program \<Rightarrow> string \<Rightarrow> string \<Rightarrow> policy_checker \<Rightarrow> ((bool \<times> string) \<times> policy_checker) result" where
  "AddIfValidEdge_names prog src tgt c =
     (let edge_already_in_context = IsEdgePresent src tgt c;
          c = (if \<not> edge_already_in_context then AddEdge src tgt c else c)
      in rbind (ValidatePolicyCompliance prog c) (\<lambda>res.
         Inr (res, if \<not> fst res \<and> \<not> edge_already_in_context then RemoveEdge src tgt c else c)))"

definition AddIfValidEdge ::
  "souffle_program \<Rightarrow> ambient_node \<Rightarrow> ambient_node \<Rightarrow> policy_checker \<Rightarrow> ((bool \<times> string) \<times> policy_checker) result" where
  "AddIfValidEdge prog source target c =
     rbind (GetDataConnectionName source False) (\<lambda>src. rbind (GetDataConnectionName target True) (\<lambda>tgt.
     AddIfValidEdge_names prog src tgt c))"

definition IsValidEdge_names ::
  "souffle_program \<Rightarrow> string \<Rightarrow> string \<Rightarrow> policy_checker \<Rightarrow> ((bool \<times> string) \<times> policy_checker) result" where
  "IsValidEdge_names prog src tgt c =
     (let c = AddEdge src tgt c
      in rbind (ValidatePolicyCompliance prog c) (\<lambda>res. Inr (res, RemoveEdge src tgt c)))"

definition IsValidEdge ::
  "souffle_program \<Rightarrow> ambient_node \<Rightarrow> ambient_node \<Rightarrow> policy_checker \<Rightarrow> ((bool \<times> string) \<times> policy_checker) result" where
  "IsValidEdge prog source target c =
     rbind (GetDataConnectionName source False) (\<lambda>src. rbind (GetDataConnectionName target True) (\<lambda>tgt.
     IsValidEdge_names prog src tgt c))"

definition CanUserChangeSetting_names :: "souffle_program \<Rightarrow> string \<Rightarrow> string \<Rightarrow> bool" where
  "CanUserChangeSetting_names prog user setting_name =
     list_ex (\<lambda>(speaker, delegatee1, usage). speaker = kSystemSettingsManager \<and> delegatee1 = user \<and> usage = setting_name)
       (says_canSay_isEnabled prog)"

definition CanUserChangeSetting :: "souffle_program \<Rightarrow> user \<Rightarrow> settings \<Rightarrow> bool result" where
  "CanUserChangeSetting prog user setting =
     rbind (GetUserName user) (\<lambda>u. rbind (GetSettingsName setting) (\<lambda>s. Inr (CanUserChangeSetting_names prog u s)))"

definition AvailableSettings_names :: "souffle_program \<Rightarrow> string \<Rightarrow> string hash_set" where
  "AvailableSettings_names prog user =
     fold (\<lambda>(speaker, delegatee1, usage) res.
         if speaker = kSystemSettingsManager \<and> delegatee1 = user then hs_insert usage res else res)
       (says_canSay_isEnabled prog) []"

definition AvailableSettings ::
  "(string list \<Rightarrow> string list) \<Rightarrow> souffle_program \<Rightarrow> user \<Rightarrow> settings hash_set result" where
  "AvailableSettings ord prog user =
     rbind (GetUserName user) (\<lambda>u.
     fold_result (\<lambda>name res. rbind (GetSettings name) (\<lambda>s. Inr (hs_insert s res)))
       (ord (AvailableSettings_names prog u)) [])"

definition ChangeSetting ::
  "souffle_program \<Rightarrow> user \<Rightarrow> settings \<Rightarrow> bool \<Rightarrow> policy_checker \<Rightarrow> (bool \<times> policy_checker) result" where
  "ChangeSetting prog user setting new_value c =
     rbind (GetUserName user) (\<lambda>user_name.
     rbind (GetSettingsName setting) (\<lambda>settings_name.
     if \<not> CanUserChangeSetting_names prog user_name settings_name then Inr (False, c)
     else rbind (check (user = kOwner \<or> user = kGuest) ''user == User::kOwner || user == User::kGuest'') (\<lambda>_.
       let m = (case map_of (user_settings c) user of None \<Rightarrow> [] | Some m \<Rightarrow> m)
       in Inr (True, c\<lparr>user_settings := hm_assign user (hm_assign setting new_value m) (user_settings c)\<rparr>))))"

section \<open>The checker as a state machine\<close>

datatype request = AddRequest ambient_node ambient_node | TestRequest ambient_node ambient_node
  | ChangeRequest user settings bool

text \<open>A request that aborts the process is no step.\<close>

inductive checker_step :: "souffle_program \<Rightarrow> policy_checker \<Rightarrow> request \<Rightarrow> bool \<Rightarrow> policy_checker \<Rightarrow> bool" for prog where
  add: "AddIfValidEdge prog a b c = Inr ((ok, msg), c') \<Longrightarrow> checker_step prog c (AddRequest a b) ok c'"
| test: "IsValidEdge prog a b c = Inr ((ok, msg), c') \<Longrightarrow> checker_step prog c (TestRequest a b) ok c'"
| change: "ChangeSetting prog u s v c = Inr (ok, c') \<Longrightarrow> checker_step prog c (ChangeRequest u s v) ok c'"

inductive_cases add_stepE: "checker_step prog c (AddRequest a b) ok c'"
inductive_cases test_stepE: "checker_step prog c (TestRequest a b) ok c'"
inductive_cases change_stepE: "checker_step prog c (ChangeRequest u s v) ok c'"

inductive checker_run :: "souffle_program \<Rightarrow> request list \<Rightarrow> policy_checker \<Rightarrow> bool" for prog where
  start: "checker_run prog [] new_policy_checker"
| step: "checker_run prog rs c \<Longrightarrow> checker_step prog c r ok c' \<Longrightarrow> checker_run prog (rs @ [r]) c'"

section \<open>What the operations do\<close>

definition enabled_facts :: "policy_checker \<Rightarrow> (string \<times> string) set" where
  "enabled_facts c = (case UpdateSettings (user_settings c) of Inl e \<Rightarrow> {} | Inr s \<Rightarrow> s)"

definition complies :: "souffle_program \<Rightarrow> data_flow_edge set \<Rightarrow> policy_checker \<Rightarrow> bool" where
  "complies prog E c \<longleftrightarrow> disallowedUsage prog E (enabled_facts c) = []"

text \<open>The users and settings that are stored have names.\<close>

definition known_setting :: "settings \<times> bool \<Rightarrow> bool" where
  "known_setting entry \<longleftrightarrow> fst entry \<noteq> kUnknownSettings"

definition known_user :: "user \<times> settings_map \<Rightarrow> bool" where
  "known_user entry \<longleftrightarrow> fst entry \<noteq> kUnknownUser \<and> list_all known_setting (snd entry) \<and> hm_wf (snd entry)"

definition known :: "policy_checker \<Rightarrow> bool" where
  "known c \<longleftrightarrow> list_all known_user (user_settings c) \<and> hm_wf (user_settings c)"

lemma list_all_hm_assign: "list_all P m \<Longrightarrow> P (k, x) \<Longrightarrow> list_all P (hm_assign k x m)"
  unfolding hm_assign_def by (induction m) auto

lemma GetUserName_ok: "is_ok (GetUserName u) \<longleftrightarrow> u \<noteq> kUnknownUser"
  by (cases u) simp_all

lemma GetSettingsName_ok: "is_ok (GetSettingsName s) \<longleftrightarrow> s \<noteq> kUnknownSettings"
  by (cases s) simp_all

lemma UpdateSettings_ok:
  assumes "known c"
  shows "UpdateSettings (user_settings c) = Inr (enabled_facts c)"
proof -
  have tuple: "\<exists>d. setting_tuple u x r = Inr d" if "u \<noteq> kUnknownUser" "fst x \<noteq> kUnknownSettings" for u x r
    using that GetUserName_ok [of u] GetSettingsName_ok [of "fst x"]
    by (cases x) (auto simp: setting_tuple_def is_ok_iff)
  have "\<exists>d. (\<lambda>(user, settings). fold_result (setting_tuple user) settings) x r = Inr d \<and> True"
    if "x \<in> set (user_settings c)" for x r
  proof -
    obtain u m where x: "x = (u, m)" by (cases x)
    from assms that have "u \<noteq> kUnknownUser" "\<forall>y \<in> set m. fst y \<noteq> kUnknownSettings"
      by (auto simp: known_def x list_all_iff known_user_def known_setting_def)
    with tuple have "\<exists>d. fold_result (setting_tuple u) m r = Inr d \<and> True"
      by (intro fold_result_ok) auto
    then show ?thesis by (simp add: x)
  qed
  then have "\<exists>d. UpdateSettings (user_settings c) = Inr d \<and> True"
    unfolding UpdateSettings_def by (intro fold_result_ok) auto
  then show ?thesis by (auto simp: enabled_facts_def)
qed

lemma ValidatePolicyCompliance_eq:
  "known c \<Longrightarrow> \<exists>msg. ValidatePolicyCompliance prog c = Inr (complies prog (flow_edges c) c, msg)"
  by (simp add: ValidatePolicyCompliance_def UpdateSettings_ok complies_def Let_def)

lemma edge_updates [simp]:
  "enabled_facts (c\<lparr>flow_edges := E\<rparr>) = enabled_facts c" "known (c\<lparr>flow_edges := E\<rparr>) = known c"
  "complies prog E' (c\<lparr>flow_edges := E\<rparr>) = complies prog E' c"
  by (simp_all add: enabled_facts_def known_def complies_def)

lemma AddIfValidEdge_names_eq:
  assumes "known c"
  shows "\<exists>msg. AddIfValidEdge_names prog src tgt c =
    (let ok = complies prog (insert (src, tgt) (flow_edges c)) c
     in Inr ((ok, msg), if ok then c\<lparr>flow_edges := insert (src, tgt) (flow_edges c)\<rparr> else c))"
proof -
  let ?c = "c\<lparr>flow_edges := insert (src, tgt) (flow_edges c)\<rparr>"
  have c: "(if \<not> IsEdgePresent src tgt c then AddEdge src tgt c else c) = ?c"
    by (cases c) (auto simp: IsEdgePresent_def AddEdge_def)
  from ValidatePolicyCompliance_eq [of ?c prog] assms obtain msg where
    v: "ValidatePolicyCompliance prog ?c = Inr (complies prog (insert (src, tgt) (flow_edges c)) c, msg)" by auto
  have "AddIfValidEdge_names prog src tgt c = Inr ((complies prog (insert (src, tgt) (flow_edges c)) c, msg),
      if \<not> complies prog (insert (src, tgt) (flow_edges c)) c \<and> \<not> IsEdgePresent src tgt c then RemoveEdge src tgt ?c else ?c)"
    unfolding AddIfValidEdge_names_def Let_def c by (simp add: v)
  then show ?thesis
    by (cases c) (auto simp: Let_def IsEdgePresent_def RemoveEdge_def insert_absorb intro!: exI [of _ msg])
qed

lemma IsValidEdge_names_eq:
  assumes "known c"
  shows "\<exists>msg. IsValidEdge_names prog src tgt c =
    Inr ((complies prog (insert (src, tgt) (flow_edges c)) c, msg), c\<lparr>flow_edges := flow_edges c - {(src, tgt)}\<rparr>)"
proof -
  from ValidatePolicyCompliance_eq [of "AddEdge src tgt c" prog] assms obtain msg where
    "ValidatePolicyCompliance prog (AddEdge src tgt c) = Inr (complies prog (insert (src, tgt) (flow_edges c)) c, msg)"
    by (auto simp: AddEdge_def)
  then show ?thesis by (simp add: IsValidEdge_names_def Let_def) (simp add: AddEdge_def RemoveEdge_def)
qed

lemma checker_step_known:
  assumes "checker_step prog c r ok c'" and "known c"
  shows "known c'"
  using assms(1)
proof cases
  case (add a b msg)
  then obtain src tgt where "AddIfValidEdge_names prog src tgt c = Inr ((ok, msg), c')" by (auto simp: AddIfValidEdge_def)
  with AddIfValidEdge_names_eq [OF assms(2), of prog src tgt] assms(2) show ?thesis by (auto simp: Let_def split: if_splits)
next
  case (test a b msg)
  then obtain src tgt where "IsValidEdge_names prog src tgt c = Inr ((ok, msg), c')" by (auto simp: IsValidEdge_def)
  with IsValidEdge_names_eq [OF assms(2), of prog src tgt] assms(2) show ?thesis by auto
next
  case (change u s v)
  then have user: "u \<noteq> kUnknownUser" "s \<noteq> kUnknownSettings"
    using GetUserName_ok [of u] GetSettingsName_ok [of s] by (auto simp: ChangeSetting_def is_ok_iff)
  let ?m = "case map_of (user_settings c) u of None \<Rightarrow> [] | Some m \<Rightarrow> m"
  from change(2) have "c' = c \<or> c' = c\<lparr>user_settings := hm_assign u (hm_assign s v ?m) (user_settings c)\<rparr>"
    by (auto simp: ChangeSetting_def Let_def split: if_splits)
  moreover have "list_all known_setting ?m \<and> hm_wf ?m"
  proof (cases "map_of (user_settings c) u")
    case (Some m)
    then have "(u, m) \<in> set (user_settings c)" by (rule map_of_SomeD)
    with assms(2) Some show ?thesis by (auto simp: known_def known_user_def list_all_iff)
  qed (simp add: hm_wf_def)
  then have "known_user (u, hm_assign s v ?m)"
    using user by (simp add: known_user_def known_setting_def list_all_hm_assign)
  ultimately show ?thesis
    using assms(2) by (auto simp: known_def list_all_hm_assign)
qed

lemma checker_run_known: "checker_run prog rs c \<Longrightarrow> known c"
proof (induction rule: checker_run.induct)
  case start
  show ?case
    by (simp add: known_def known_user_def known_setting_def new_policy_checker_def initial_settings_def hm_assign_def hm_wf_def)
qed (rule checker_step_known)

lemma setting_tuples_eq:
  "fold_result (setting_tuple u) m r = Inr r' \<Longrightarrow>
    r' = r \<union> {(un, sn). GetUserName u = Inr un \<and> (\<exists>s. (s, True) \<in> set m \<and> GetSettingsName s = Inr sn)}"
proof (induction m arbitrary: r)
  case (Cons x m)
  then obtain r1 where r1: "setting_tuple u x r = Inr r1" and "fold_result (setting_tuple u) m r1 = Inr r'" by auto
  from Cons.IH [OF this(2)] r1 show ?case by (cases x) (auto simp: setting_tuple_def split: if_splits)
qed simp

lemma enabled_facts_iff:
  assumes "known c"
  shows "(un, sn) \<in> enabled_facts c \<longleftrightarrow> (\<exists>u m s. map_of (user_settings c) u = Some m \<and> map_of m s = Some True \<and>
    GetUserName u = Inr un \<and> GetSettingsName s = Inr sn)"
proof -
  have "fold_result (\<lambda>(user, settings). fold_result (setting_tuple user) settings) us r = Inr r' \<Longrightarrow>
    r' = r \<union> {(un, sn). \<exists>(u, m) \<in> set us. GetUserName u = Inr un \<and> (\<exists>s. (s, True) \<in> set m \<and> GetSettingsName s = Inr sn)}"
    for us r r'
  proof (induction us arbitrary: r)
    case (Cons x us)
    then obtain r1 where r1: "fold_result (setting_tuple (fst x)) (snd x) r = Inr r1"
      and "fold_result (\<lambda>(user, settings). fold_result (setting_tuple user) settings) us r1 = Inr r'"
      by (auto simp: split_def)
    from Cons.IH [OF this(2)] setting_tuples_eq [OF r1] show ?case by (auto simp: split_def)
  qed simp
  from this [OF UpdateSettings_ok [OF assms, unfolded UpdateSettings_def]]
  have "(un, sn) \<in> enabled_facts c \<longleftrightarrow> (\<exists>(u, m) \<in> set (user_settings c). GetUserName u = Inr un \<and>
      (\<exists>s. (s, True) \<in> set m \<and> GetSettingsName s = Inr sn))" by auto
  also have "\<dots> \<longleftrightarrow> (\<exists>u m s. map_of (user_settings c) u = Some m \<and> map_of m s = Some True \<and>
    GetUserName u = Inr un \<and> GetSettingsName s = Inr sn)"
  proof -
    have l1: "map_of (user_settings c) u = Some m \<longleftrightarrow> (u, m) \<in> set (user_settings c)" for u m
      using assms by (simp add: known_def hm_wf_def map_of_eq_Some_iff)
    have l2: "map_of m s = Some b \<longleftrightarrow> (s, b) \<in> set m" if "(u, m) \<in> set (user_settings c)" for u m s b
      using assms that by (auto simp: known_def known_user_def list_all_iff hm_wf_def map_of_eq_Some_iff)
    show ?thesis
    proof
      assume "\<exists>(u, m) \<in> set (user_settings c). GetUserName u = Inr un \<and> (\<exists>s. (s, True) \<in> set m \<and> GetSettingsName s = Inr sn)"
      then obtain u m s where "(u, m) \<in> set (user_settings c)" "GetUserName u = Inr un" "(s, True) \<in> set m" "GetSettingsName s = Inr sn"
        by blast
      with l1 l2 show "\<exists>u m s. map_of (user_settings c) u = Some m \<and> map_of m s = Some True \<and>
        GetUserName u = Inr un \<and> GetSettingsName s = Inr sn" by blast
    next
      assume "\<exists>u m s. map_of (user_settings c) u = Some m \<and> map_of m s = Some True \<and>
        GetUserName u = Inr un \<and> GetSettingsName s = Inr sn"
      then obtain u m s where *: "map_of (user_settings c) u = Some m" "map_of m s = Some True"
        "GetUserName u = Inr un" "GetSettingsName s = Inr sn" by blast
      with l1 have "(u, m) \<in> set (user_settings c)" by blast
      with * l2 show "\<exists>(u, m) \<in> set (user_settings c). GetUserName u = Inr un \<and>
        (\<exists>s. (s, True) \<in> set m \<and> GetSettingsName s = Inr sn)" by blast
    qed
  qed
  finally show ?thesis .
qed

text \<open>A setting changes exactly when the policy lets the user change it: then the user's fact for
  the setting is enabled or disabled and every other fact is as before; otherwise nothing
  changes. \<^verbatim>\<open>ChangeSetting\<close> aborts only for an unknown user or setting.\<close>

theorem change_setting_changes_fact:
  assumes "checker_run prog rs c"
  shows "case (GetUserName u, GetSettingsName s) of
      (Inr un, Inr sn) \<Rightarrow> (\<exists>c'. ChangeSetting prog u s v c = Inr (CanUserChangeSetting_names prog un sn, c') \<and>
        flow_edges c' = flow_edges c \<and> enabled_facts c' =
          (if \<not> CanUserChangeSetting_names prog un sn then enabled_facts c
           else if v then insert (un, sn) (enabled_facts c) else enabled_facts c - {(un, sn)}))
    | _ \<Rightarrow> \<not> is_ok (ChangeSetting prog u s v c)"
proof (cases "\<exists>un sn. GetUserName u = Inr un \<and> GetSettingsName s = Inr sn \<and> CanUserChangeSetting_names prog un sn")
  case False
  then show ?thesis by (auto simp: ChangeSetting_def split: sum.splits)
next
  case True
  then obtain un sn where names: "GetUserName u = Inr un" "GetSettingsName s = Inr sn" and can: "CanUserChangeSetting_names prog un sn"
    by blast
  have known: "known c" using assms by (rule checker_run_known)
  have u: "u = kOwner \<or> u = kGuest" using names(1) by (cases u) auto
  define m where "m = (case map_of (user_settings c) u of None \<Rightarrow> [] | Some m \<Rightarrow> m)"
  define c' where "c' = c\<lparr>user_settings := hm_assign u (hm_assign s v m) (user_settings c)\<rparr>"
  have step: "ChangeSetting prog u s v c = Inr (True, c')"
    using names can u by (auto simp: ChangeSetting_def Let_def m_def c'_def)
  then have "known c'" using checker_step_known [OF checker_step.change known] by blast
  have user: "GetUserName w = Inr un \<longleftrightarrow> w = u" for w using names(1) by (cases w; cases u) auto
  have setting: "GetSettingsName w = Inr sn \<longleftrightarrow> w = s" for w using names(2) by (cases w; cases s) auto
  have look: "(\<exists>m'. map_of (user_settings c') w = Some m' \<and> map_of m' t = Some True) \<longleftrightarrow>
      (if w = u \<and> t = s then v else \<exists>m'. map_of (user_settings c) w = Some m' \<and> map_of m' t = Some True)" for w t
    by (auto simp: c'_def m_def split: option.splits)
  have "(x, y) \<in> enabled_facts c' \<longleftrightarrow> (if (x, y) = (un, sn) then v else (x, y) \<in> enabled_facts c)" for x y
  proof -
    have "(x, y) \<in> enabled_facts c' \<longleftrightarrow> (\<exists>w t. (\<exists>m'. map_of (user_settings c') w = Some m' \<and> map_of m' t = Some True) \<and>
        GetUserName w = Inr x \<and> GetSettingsName t = Inr y)"
      unfolding enabled_facts_iff [OF \<open>known c'\<close>] by blast
    also have "\<dots> \<longleftrightarrow> (if (x, y) = (un, sn) then v else (x, y) \<in> enabled_facts c)"
    proof (cases "(x, y) = (un, sn)")
      case True
      then show ?thesis unfolding look using user setting by auto
    next
      case False
      have other: "(\<exists>m'. map_of (user_settings c') w = Some m' \<and> map_of m' t = Some True) \<longleftrightarrow>
          (\<exists>m'. map_of (user_settings c) w = Some m' \<and> map_of m' t = Some True)"
        if "GetUserName w = Inr x" "GetSettingsName t = Inr y" for w t
        unfolding look using False that names by auto
      from False have "(if (x, y) = (un, sn) then v else (x, y) \<in> enabled_facts c) \<longleftrightarrow> (\<exists>w t.
          (\<exists>m'. map_of (user_settings c) w = Some m' \<and> map_of m' t = Some True) \<and> GetUserName w = Inr x \<and> GetSettingsName t = Inr y)"
        unfolding enabled_facts_iff [OF known] by auto
      then show ?thesis using other by meson
    qed
    finally show ?thesis .
  qed
  then show ?thesis using step can by (auto simp: names c'_def split: if_splits)
qed

text \<open>An edge is added exactly when the policy allows no disallowed usage with it: in every state
  the checker reaches, \<^verbatim>\<open>AddIfValidEdge\<close> aborts only for nodes that have no such connection,
  answers whether the edges with the new one comply, and keeps the edge exactly then; the
  settings and the other edges stay, also when the edge was there before.\<close>

theorem add_if_valid_edge:
  assumes "checker_run prog rs c"
  shows "case (GetDataConnectionName a False, GetDataConnectionName b True) of
      (Inr src, Inr tgt) \<Rightarrow> (\<exists>msg. AddIfValidEdge prog a b c =
        (let ok = complies prog (insert (src, tgt) (flow_edges c)) c
         in Inr ((ok, msg), if ok then c\<lparr>flow_edges := insert (src, tgt) (flow_edges c)\<rparr> else c)))
    | _ \<Rightarrow> \<not> is_ok (AddIfValidEdge prog a b c)"
  using AddIfValidEdge_names_eq [OF checker_run_known [OF assms], of prog]
  by (auto simp: AddIfValidEdge_def split: sum.splits)

text \<open>C39: \<^verbatim>\<open>IsValidEdge\<close> gives the answer of \<^verbatim>\<open>AddIfValidEdge\<close>, but it is not a mere test: the edge is
  gone afterwards even when it had been added before.\<close>

theorem is_valid_edge_removes:
  assumes "checker_run prog rs c" and "GetDataConnectionName a False = Inr src" and "GetDataConnectionName b True = Inr tgt"
  shows "\<exists>ok msg c' msg'. AddIfValidEdge prog a b c = Inr ((ok, msg), c') \<and>
    IsValidEdge prog a b c = Inr ((ok, msg'), c\<lparr>flow_edges := flow_edges c - {(src, tgt)}\<rparr>)"
  using AddIfValidEdge_names_eq [OF checker_run_known [OF assms(1)], of prog src tgt]
    IsValidEdge_names_eq [OF checker_run_known [OF assms(1)], of prog src tgt] assms(2,3)
  by (auto simp: AddIfValidEdge_def IsValidEdge_def Let_def)

section \<open>Compliance is kept\<close>

definition monotone_policy :: "souffle_program \<Rightarrow> bool" where
  "monotone_policy prog \<longleftrightarrow> (\<forall>E E' S. E \<subseteq> E' \<longrightarrow> disallowedUsage prog E' S = [] \<longrightarrow> disallowedUsage prog E S = [])"

definition changes_setting :: "request \<Rightarrow> bool" where
  "changes_setting r \<longleftrightarrow> (\<exists>u s v. r = ChangeRequest u s v)"

lemma step_complies:
  assumes "checker_step prog c r ok c'" and "known c" and "monotone_policy prog" and "\<not> changes_setting r"
    and "complies prog (flow_edges c) c"
  shows "complies prog (flow_edges c') c'"
  using assms(1)
proof cases
  case (add a b msg)
  then obtain src tgt where "AddIfValidEdge_names prog src tgt c = Inr ((ok, msg), c')" by (auto simp: AddIfValidEdge_def)
  with AddIfValidEdge_names_eq [OF assms(2), of prog src tgt] assms(5) show ?thesis by (auto simp: Let_def split: if_splits)
next
  case (test a b msg)
  then obtain src tgt where "IsValidEdge_names prog src tgt c = Inr ((ok, msg), c')" by (auto simp: IsValidEdge_def)
  with IsValidEdge_names_eq [OF assms(2), of prog src tgt] have "c' = c\<lparr>flow_edges := flow_edges c - {(src, tgt)}\<rparr>" by auto
  with assms(3,5) show ?thesis unfolding monotone_policy_def complies_def by (auto simp: Diff_subset) (metis Diff_subset edge_updates(1))
qed (use assms(4) in \<open>simp add: changes_setting_def\<close>)

text \<open>C28: As long as no setting is changed, the checker's state complies with the policy after every
  request, if it does so at the start, for a policy in which fewer edges never disallow more.\<close>

theorem checker_stays_compliant:
  assumes "checker_run prog rs c" and "monotone_policy prog" and "\<forall>r \<in> set rs. \<not> changes_setting r"
    and "complies prog {} new_policy_checker"
  shows "complies prog (flow_edges c) c"
  using assms
proof (induction rule: checker_run.induct)
  case start
  then show ?case by (simp add: new_policy_checker_def complies_def)
next
  case (step rs c r ok c')
  then show ?case using step_complies [OF step.hyps(2) checker_run_known [OF step.hyps(1)]] by simp
qed

text \<open>The settings a user is offered are those the user can change: \<^verbatim>\<open>AvailableSettings\<close> and
  \<^verbatim>\<open>CanUserChangeSetting\<close> agree, and \<^verbatim>\<open>AvailableSettings\<close> aborts only for an unknown user or when
  the policy lets the user change a setting that has no counterpart in the code.\<close>

theorem available_settings_are_changeable:
  assumes "is_order ord"
  shows "case AvailableSettings ord prog u of
      Inl e \<Rightarrow> u = kUnknownUser \<or> (\<exists>name. GetUserName u = Inr name \<and>
        (\<exists>s. (kSystemSettingsManager, name, s) \<in> set (says_canSay_isEnabled prog) \<and> \<not> is_ok (GetSettings s)))
    | Inr ss \<Rightarrow> distinct ss \<and> set ss = {s. CanUserChangeSetting prog u s = Inr True}"
proof -
  have names: "set (fold (\<lambda>(speaker, delegatee1, usage) res.
      if speaker = kSystemSettingsManager \<and> delegatee1 = n then hs_insert usage res else res) xs r) =
      set r \<union> {s. (kSystemSettingsManager, n, s) \<in> set xs}" for n xs r
    by (induction xs arbitrary: r) (auto split: if_splits)
  have read: "case fold_result (\<lambda>name res. rbind (GetSettings name) (\<lambda>s. Inr (hs_insert s res))) ns r of
      Inl e \<Rightarrow> \<exists>n \<in> set ns. \<not> is_ok (GetSettings n)
    | Inr ss \<Rightarrow> (distinct r \<longrightarrow> distinct ss) \<and> set ss = set r \<union> {s. \<exists>n \<in> set ns. GetSettings n = Inr s}" for ns r
  proof (induction ns arbitrary: r)
    case (Cons n ns)
    show ?case
    proof (cases "GetSettings n")
      case (Inr s)
      with Cons.IH [of "hs_insert s r"] show ?thesis by (auto split: sum.splits)
    qed simp
  qed simp
  have name: "GetSettings n = Inr s \<longleftrightarrow> GetSettingsName s = Inr n" for n s
    by (cases s) (auto simp: GetSettings_def)
  show ?thesis
  proof (cases "GetUserName u")
    case (Inl e)
    then show ?thesis using GetUserName_ok [of u] by (simp add: AvailableSettings_def)
  next
    case (Inr n)
    have ns: "set (ord (AvailableSettings_names prog n)) = {s. (kSystemSettingsManager, n, s) \<in> set (says_canSay_isEnabled prog)}"
      using is_order_set [OF assms] names [of n "says_canSay_isEnabled prog" "[]"] by (simp add: AvailableSettings_names_def)
    have can: "CanUserChangeSetting prog u s = Inr True \<longleftrightarrow>
        (\<exists>m. GetSettingsName s = Inr m \<and> (kSystemSettingsManager, n, m) \<in> set (says_canSay_isEnabled prog))" for s
      by (auto simp: CanUserChangeSetting_def Inr CanUserChangeSetting_names_def list_ex_iff rbind_Inr_iff)
    from read [of "ord (AvailableSettings_names prog n)" "[]"] show ?thesis
      by (auto simp: AvailableSettings_def Inr ns can name split: sum.splits)
  qed
qed

section \<open>A policy for examples\<close>

text \<open>The owner may change the recording setting only, and what the application sends must not reach
  the recognizer unless the owner has enabled it.\<close>

definition demo_policy :: souffle_program where
  "demo_policy = \<lparr>disallowedUsage = (\<lambda>E S.
      if (''R.app_audio_stream_out'', ''R.asr_audio_stream_in'') \<in> E \<and> (''OwnerUser'', ''Recording'') \<in> S
      then [(''ASR'', ''Streaming'', ''OwnerUser'', ''audio'')] else []),
    says_canSay_isEnabled = [(''SystemSettingsManager'', ''OwnerUser'', ''Recording''), (''Other'', ''GuestUser'', ''ASR'')]\<rparr>"

definition demo_checker :: policy_checker where
  "demo_checker = new_policy_checker\<lparr>flow_edges := {(''R.mic_audio_stream_out'', ''R.app_audio_stream_in'')}\<rparr>"

lemmas demo_simps = demo_policy_def demo_checker_def new_policy_checker_def initial_settings_def hm_assign_def
  enabled_facts_def UpdateSettings_def setting_tuple_def

lemma demo_run: "checker_run demo_policy [AddRequest kSmartMicrophone kDemoApplication] demo_checker"
proof -
  have "AddIfValidEdge demo_policy kSmartMicrophone kDemoApplication new_policy_checker = Inr ((True, ''Success''), demo_checker)"
    by (simp add: demo_simps AddIfValidEdge_def AddIfValidEdge_names_def IsEdgePresent_def AddEdge_def ValidatePolicyCompliance_def)
  from checker_run.step [OF checker_run.start checker_step.add, OF this] show ?thesis by simp
qed

lemma demo_can: "CanUserChangeSetting_names demo_policy ''OwnerUser'' ''Recording''"
  by (simp add: CanUserChangeSetting_names_def kSystemSettingsManager_def demo_policy_def)

lemma demo_fact: "(''OwnerUser'', ''ASR'') \<in> enabled_facts demo_checker"
  by (simp add: demo_simps)

theorem change_setting_changes_fact_witness:
  "\<exists>c'. ChangeSetting demo_policy kOwner kRecording False demo_checker = Inr (True, c') \<and>
    (''OwnerUser'', ''Recording'') \<notin> enabled_facts c' \<and> (''OwnerUser'', ''ASR'') \<in> enabled_facts c'"
  using change_setting_changes_fact [OF demo_run, of kOwner kRecording False]
  by (simp add: demo_can) (use demo_fact in auto)

theorem add_if_valid_edge_witness:
  "\<exists>msg. AddIfValidEdge demo_policy kDemoApplication kDemoApplicationASR demo_checker = Inr ((False, msg), demo_checker)"
  using add_if_valid_edge [OF demo_run, of kDemoApplication kDemoApplicationASR]
  by (simp add: complies_def Let_def) (simp add: demo_simps)

lemma demo_again: "AddIfValidEdge demo_policy kSmartMicrophone kDemoApplication demo_checker = Inr ((True, ''Success''), demo_checker)"
  by (simp add: demo_simps AddIfValidEdge_def AddIfValidEdge_names_def IsEdgePresent_def AddEdge_def ValidatePolicyCompliance_def)

theorem is_valid_edge_removes_witness:
  "\<exists>msg. IsValidEdge demo_policy kSmartMicrophone kDemoApplication demo_checker = Inr ((True, msg), new_policy_checker)"
  using is_valid_edge_removes [OF demo_run, of kSmartMicrophone "''R.mic_audio_stream_out''" kDemoApplication "''R.app_audio_stream_in''"]
  by (simp add: demo_again) (auto simp: demo_checker_def new_policy_checker_def)

theorem checker_stays_compliant_witness: "complies demo_policy (flow_edges demo_checker) demo_checker"
proof -
  have "monotone_policy demo_policy" by (auto simp: monotone_policy_def demo_policy_def split: if_splits)
  moreover have "complies demo_policy {} new_policy_checker" by (simp add: complies_def demo_policy_def)
  ultimately show ?thesis using checker_stays_compliant [OF demo_run] by (simp add: changes_setting_def)
qed

theorem available_settings_are_changeable_witness:
  "\<exists>ss. AvailableSettings rev demo_policy kOwner = Inr ss \<and> set ss = {s. CanUserChangeSetting demo_policy kOwner s = Inr True}"
  using available_settings_are_changeable [where ord = rev and prog = demo_policy and u = kOwner]
  by (simp add: AvailableSettings_def AvailableSettings_names_def demo_policy_def kSystemSettingsManager_def GetSettings_def hs_insert_def)

end
