(* ===== verification/Ref_Count.thy ===== *)
theory Ref_Count imports
  Prelude
  "HOL-Library.Word"
begin

text \<open>
  Reference counting: \<^verbatim>\<open>src/common/utils/ref_counter.h\<close>, \<^verbatim>\<open>ref_counted.h\<close> and
  \<^verbatim>\<open>intrusive_ptr.h\<close>. The counter is a 64-bit \<^verbatim>\<open>size_t\<close>. The store holds the objects that are
  alive, each with its counter, and the \<^verbatim>\<open>intrusive_ptr\<close> variables that are alive, each with its
  \<^verbatim>\<open>ptr_\<close>. Pointers that are members of objects are variables too; that deleting an object destroys
  its members is left to the program, which destroys them by commands of its own. Work with an object or a variable that is not alive is undefined behaviour.
\<close>

section \<open>The counter\<close>

type_synonym size_t = "64 word"

text \<open>Both return the old count, here with the new one.\<close>

definition FetchAdd :: "size_t \<Rightarrow> size_t \<Rightarrow> size_t \<times> size_t" where
  "FetchAdd increment cnt = (let old = cnt in (old, cnt + increment))"

definition FetchSub :: "size_t \<Rightarrow> size_t \<Rightarrow> (size_t \<times> size_t) result" where
  "FetchSub decrement cnt =
     rbind (check (cnt \<ge> decrement) ''FetchSub can decrement below zero.'') (\<lambda>_.
     let old = cnt in Inr (old, cnt - decrement))"

section \<open>Objects and pointers\<close>

type_synonym obj_id = nat
type_synonym var_id = nat

record ptr_store =
  objects :: "obj_id \<Rightarrow> size_t option"
  ptr_vars :: "var_id \<Rightarrow> obj_id option option"

definition RefCounted_Retain :: "obj_id \<Rightarrow> ptr_store \<Rightarrow> ptr_store result" where
  "RefCounted_Retain this st = rbind (deref (objects st this) ''Retain'') (\<lambda>cnt.
     let (_, new) = FetchAdd 1 cnt in Inr (st\<lparr>objects := (objects st)(this \<mapsto> new)\<rparr>))"

definition RefCounted_Release :: "obj_id \<Rightarrow> ptr_store \<Rightarrow> ptr_store result" where
  "RefCounted_Release this st = rbind (deref (objects st this) ''Release'') (\<lambda>cnt.
     rbind (FetchSub 1 cnt) (\<lambda>(old, new).
     if old = 1 then Inr (st\<lparr>objects := (objects st)(this := None)\<rparr>)
     else Inr (st\<lparr>objects := (objects st)(this \<mapsto> new)\<rparr>)))"

definition Retain :: "obj_id option \<Rightarrow> ptr_store \<Rightarrow> ptr_store result" where
  "Retain p st = (case p of None \<Rightarrow> Inr st | Some a \<Rightarrow> RefCounted_Retain a st)"

definition Release :: "obj_id option \<Rightarrow> ptr_store \<Rightarrow> ptr_store result" where
  "Release p st = (case p of None \<Rightarrow> Inr st | Some a \<Rightarrow> RefCounted_Release a st)"

definition set_ptr :: "var_id \<Rightarrow> obj_id option \<Rightarrow> ptr_store \<Rightarrow> ptr_store" where
  "set_ptr v p st = st\<lparr>ptr_vars := (ptr_vars st)(v \<mapsto> p)\<rparr>"

definition ptr_of :: "var_id \<Rightarrow> ptr_store \<Rightarrow> obj_id option result" where
  "ptr_of v st = deref (ptr_vars st v) ''a pointer after its destructor''"

definition intrusive_ptr_default :: "var_id \<Rightarrow> ptr_store \<Rightarrow> ptr_store result" where
  "intrusive_ptr_default this st = Inr (set_ptr this None st)"

definition intrusive_ptr_raw :: "var_id \<Rightarrow> obj_id option \<Rightarrow> ptr_store \<Rightarrow> ptr_store result" where
  "intrusive_ptr_raw this ptr st = rbind (Retain ptr st) (\<lambda>st. Inr (set_ptr this ptr st))"

definition intrusive_ptr_create :: "var_id \<Rightarrow> obj_id \<Rightarrow> ptr_store \<Rightarrow> ptr_store result" where
  "intrusive_ptr_create this addr st =
     intrusive_ptr_raw this (Some addr) (st\<lparr>objects := (objects st)(addr \<mapsto> 0)\<rparr>)"

definition intrusive_ptr_copy :: "var_id \<Rightarrow> var_id \<Rightarrow> ptr_store \<Rightarrow> ptr_store result" where
  "intrusive_ptr_copy this other st =
     rbind (ptr_of other st) (\<lambda>p. rbind (Retain p st) (\<lambda>st. Inr (set_ptr this p st)))"

definition intrusive_ptr_move :: "var_id \<Rightarrow> var_id \<Rightarrow> ptr_store \<Rightarrow> ptr_store result" where
  "intrusive_ptr_move this other st =
     rbind (ptr_of other st) (\<lambda>p. Inr (set_ptr other None (set_ptr this p st)))"

definition intrusive_ptr_destroy :: "var_id \<Rightarrow> ptr_store \<Rightarrow> ptr_store result" where
  "intrusive_ptr_destroy this st =
     rbind (ptr_of this st) (\<lambda>p. rbind (Release p st) (\<lambda>st.
     Inr (st\<lparr>ptr_vars := (ptr_vars st)(this := None)\<rparr>)))"

definition Swap :: "var_id \<Rightarrow> var_id \<Rightarrow> ptr_store \<Rightarrow> ptr_store result" where
  "Swap this other st =
     rbind (ptr_of other st) (\<lambda>tmp. rbind (ptr_of this st) (\<lambda>p.
     Inr (set_ptr this tmp (set_ptr other p st))))"

text \<open>The parameter of \<^verbatim>\<open>operator=\<close> is passed by value: it is a variable of its own, built by the
  copy or the move constructor and destroyed when the call ends.\<close>

definition intrusive_ptr_assign ::
  "(var_id \<Rightarrow> ptr_store \<Rightarrow> ptr_store result) \<Rightarrow> var_id \<Rightarrow> var_id \<Rightarrow> ptr_store \<Rightarrow> ptr_store result" where
  "intrusive_ptr_assign build_other other this st =
     rbind (build_other other st) (\<lambda>st. rbind (Swap this other st) (intrusive_ptr_destroy other))"

definition intrusive_ptr_get :: "var_id \<Rightarrow> ptr_store \<Rightarrow> obj_id option result" where
  "intrusive_ptr_get this st = ptr_of this st"

text \<open>\<^verbatim>\<open>operator*\<close>: the object, which has to be alive.\<close>

definition intrusive_ptr_deref :: "var_id \<Rightarrow> ptr_store \<Rightarrow> obj_id result" where
  "intrusive_ptr_deref this st = rbind (ptr_of this st) (\<lambda>p.
     rbind (check (p \<noteq> None) ''Dereferencing a nullptr!'') (\<lambda>_.
     rbind (deref (objects st (the p)) ''a dangling pointer'') (\<lambda>_. Inr (the p))))"

section \<open>Programs that use pointers\<close>

text \<open>The names are those of the variables; an address in \<open>Create\<close> is what \<^verbatim>\<open>new\<close> returns, and
  \<open>other\<close> is the parameter variable of an assignment.\<close>

datatype ptr_command =
    Default var_id
  | Create var_id obj_id
  | FromGet var_id var_id
  | Copy var_id var_id
  | Move var_id var_id
  | AssignCopy var_id var_id var_id
  | AssignMove var_id var_id var_id
  | Destroy var_id

fun exec :: "ptr_command \<Rightarrow> ptr_store \<Rightarrow> ptr_store result" where
  "exec (Default v) st = intrusive_ptr_default v st"
| "exec (Create v a) st = intrusive_ptr_create v a st"
| "exec (FromGet v w) st = rbind (intrusive_ptr_get w st) (\<lambda>p. intrusive_ptr_raw v p st)"
| "exec (Copy v w) st = intrusive_ptr_copy v w st"
| "exec (Move v w) st = intrusive_ptr_move v w st"
| "exec (AssignCopy other v w) st = intrusive_ptr_assign (\<lambda>t. intrusive_ptr_copy t w) other v st"
| "exec (AssignMove other v w) st = intrusive_ptr_assign (\<lambda>t. intrusive_ptr_move t w) other v st"
| "exec (Destroy v) st = intrusive_ptr_destroy v st"

text \<open>What the language guarantees of a command: a variable that is built was not alive, one that
  is used is, and \<^verbatim>\<open>new\<close> returns the address of no object that is alive.\<close>

fun ready :: "ptr_command \<Rightarrow> ptr_store \<Rightarrow> bool" where
  "ready (Default v) st = (ptr_vars st v = None)"
| "ready (Create v a) st = (ptr_vars st v = None \<and> objects st a = None)"
| "ready (FromGet v w) st = (ptr_vars st v = None \<and> ptr_vars st w \<noteq> None)"
| "ready (Copy v w) st = (ptr_vars st v = None \<and> ptr_vars st w \<noteq> None)"
| "ready (Move v w) st = (ptr_vars st v = None \<and> ptr_vars st w \<noteq> None)"
| "ready (AssignCopy other v w) st = (ptr_vars st other = None \<and> ptr_vars st v \<noteq> None \<and> ptr_vars st w \<noteq> None)"
| "ready (AssignMove other v w) st = (ptr_vars st other = None \<and> ptr_vars st v \<noteq> None \<and> ptr_vars st w \<noteq> None)"
| "ready (Destroy v) st = (ptr_vars st v \<noteq> None)"

text \<open>The variables need memory of their own, so there are fewer than \<open>2 ^ 64\<close> of them; the parameter
  of an assignment is one more.\<close>

definition room :: "ptr_store \<Rightarrow> bool" where
  "room st \<longleftrightarrow> card (dom (ptr_vars st)) < 2 ^ 64 - 1"

inductive ptr_run :: "ptr_command list \<Rightarrow> ptr_store \<Rightarrow> bool" where
  start: "ptr_run [] \<lparr>objects = Map.empty, ptr_vars = Map.empty\<rparr>"
| step: "ptr_run cs st \<Longrightarrow> ready c st \<Longrightarrow> exec c st = Inr st' \<Longrightarrow> room st' \<Longrightarrow> ptr_run (cs @ [c]) st'"

inductive_cases ptr_run_snocE: "ptr_run (cs @ [c]) st"

section \<open>Counts are exact\<close>

definition refs :: "ptr_store \<Rightarrow> obj_id \<Rightarrow> var_id set" where
  "refs st a = {v. ptr_vars st v = Some (Some a)}"

definition counted :: "ptr_store \<Rightarrow> bool" where
  "counted st \<longleftrightarrow> finite (dom (ptr_vars st)) \<and>
     (\<forall>a. objects st a = (if refs st a = {} then None else Some (of_nat (card (refs st a)))))"

lemma refs_sub: "refs st a \<subseteq> dom (ptr_vars st)"
  by (auto simp: refs_def)

lemma counted_finite [simp]: "counted st \<Longrightarrow> finite (refs st a)"
  using refs_sub [of st a] by (auto simp: counted_def intro: finite_subset)

lemma set_ptr_simps [simp]:
  "objects (set_ptr v p st) = objects st" "ptr_vars (set_ptr v p st) = (ptr_vars st)(v \<mapsto> p)"
  by (simp_all add: set_ptr_def)

lemma refs_update [simp]:
  "refs (st\<lparr>objects := x\<rparr>) a = refs st a"
  "refs (set_ptr v p st) a = (if p = Some a then insert v (refs st a) else refs st a - {v})"
  "refs (st\<lparr>ptr_vars := (ptr_vars st)(v := None)\<rparr>) a = refs st a - {v}"
  by (auto simp: refs_def)

lemma counted_finite_vars: "counted st \<Longrightarrow> finite (dom (ptr_vars st))"
  by (simp add: counted_def)

lemma counted_objects: "counted st \<Longrightarrow> objects st a = (if refs st a = {} then None else Some (of_nat (card (refs st a))))"
  by (simp add: counted_def)

lemma in_refs [simp]: "v \<in> refs st a \<longleftrightarrow> ptr_vars st v = Some (Some a)"
  by (simp add: refs_def)

text \<open>Retaining the object and then building the variable, where the count is exact before.\<close>

lemma retain_set:
  assumes exact: "\<And>b. objects st b = (if refs st b = {} \<and> p \<noteq> Some b then None else Some (of_nat (card (refs st b))))"
    and v: "ptr_vars st v = None" and fin: "finite (dom (ptr_vars st))"
  shows "\<exists>st'. rbind (Retain p st) (\<lambda>st. Inr (set_ptr v p st)) = Inr st' \<and> counted st' \<and>
    ptr_vars st' = (ptr_vars st)(v \<mapsto> p)"
proof -
  have fin': "finite (refs st b)" for b using finite_subset [OF refs_sub fin] .
  have v': "refs st b - {v} = refs st b" for b using v by auto
  show ?thesis
  proof (cases p)
    case None
    then show ?thesis using exact fin by (simp add: Retain_def counted_def v')
  next
    case (Some a)
    define st' where "st' = set_ptr v p (st\<lparr>objects := (objects st)(a \<mapsto> of_nat (card (refs st a)) + 1)\<rparr>)"
    have "rbind (Retain p st) (\<lambda>st. Inr (set_ptr v p st)) = Inr st'"
      using exact [of a] Some by (simp add: Retain_def RefCounted_Retain_def FetchAdd_def st'_def Let_def)
    moreover have "objects st' b = (if refs st' b = {} then None else Some (of_nat (card (refs st' b))))" for b
      using exact [of b] Some fin' v v' by (simp add: st'_def ac_simps)
    ultimately show ?thesis using fin by (simp add: st'_def counted_def)
  qed
qed

lemma copy_ok:
  assumes "counted st" and "ptr_vars st v = None" and "ptr_vars st w \<noteq> None"
  shows "\<exists>st'. intrusive_ptr_copy v w st = Inr st' \<and> counted st' \<and> dom (ptr_vars st') = insert v (dom (ptr_vars st))"
proof -
  obtain p where p: "ptr_vars st w = Some p" using assms(3) by blast
  then have "objects st b = (if refs st b = {} \<and> p \<noteq> Some b then None else Some (of_nat (card (refs st b))))" for b
    using counted_objects [OF assms(1), of b] by (auto simp: refs_def)
  from retain_set [of st p v, OF this assms(2) counted_finite_vars [OF assms(1)]]
  obtain st' where "rbind (Retain p st) (\<lambda>st. Inr (set_ptr v p st)) = Inr st'" "counted st'"
    "ptr_vars st' = (ptr_vars st)(v \<mapsto> p)" by (elim exE conjE)
  then show ?thesis using p by (simp add: intrusive_ptr_copy_def ptr_of_def)
qed

lemma create_ok:
  assumes "counted st" and "ptr_vars st v = None" and "objects st a = None"
  shows "\<exists>st'. intrusive_ptr_create v a st = Inr st' \<and> counted st' \<and> dom (ptr_vars st') = insert v (dom (ptr_vars st))"
proof -
  let ?st = "st\<lparr>objects := (objects st)(a \<mapsto> 0)\<rparr>"
  have "objects ?st b = (if refs ?st b = {} \<and> Some a \<noteq> Some b then None else Some (of_nat (card (refs ?st b))))" for b
    using counted_objects [OF assms(1), of b] counted_objects [OF assms(1), of a] assms(3)
    by (auto split: if_splits)
  from retain_set [of ?st "Some a" v, OF this] assms(2) counted_finite_vars [OF assms(1)]
  obtain st' where "rbind (Retain (Some a) ?st) (\<lambda>st. Inr (set_ptr v (Some a) st)) = Inr st'" "counted st'"
    "ptr_vars st' = (ptr_vars st)(v \<mapsto> Some a)" by auto
  then show ?thesis by (simp add: intrusive_ptr_create_def intrusive_ptr_raw_def)
qed

text \<open>A move or a swap exchanges variables, so the number of references stays.\<close>

lemma counted_same_cards:
  assumes "counted st" and "objects st' = objects st" and "finite (dom (ptr_vars st'))"
    and "\<And>a. card (refs st' a) = card (refs st a)"
  shows "counted st'"
proof -
  have "finite (refs st' a)" for a using finite_subset [OF refs_sub assms(3)] .
  then have "refs st' a = {} \<longleftrightarrow> refs st a = {}" for a
    using assms(4) [of a] counted_finite [OF assms(1), of a] by (metis card_0_eq)
  then show ?thesis using assms by (simp add: counted_def)
qed

lemma move_ok:
  assumes "counted st" and "ptr_vars st v = None" and "ptr_vars st w \<noteq> None"
  shows "\<exists>st'. intrusive_ptr_move v w st = Inr st' \<and> counted st' \<and> dom (ptr_vars st') = insert v (dom (ptr_vars st))"
proof -
  obtain p where p: "ptr_vars st w = Some p" using assms(3) by blast
  let ?st = "set_ptr w None (set_ptr v p st)"
  have "card (refs ?st a) = card (refs st a)" for a
  proof (cases "p = Some a")
    case True
    then have "insert v (refs st a) - {w} = insert v (refs st a - {w})" "w \<in> refs st a" "v \<notin> refs st a"
      using assms(2) p by auto
    then show ?thesis
      using True counted_finite [OF assms(1), of a] card_Suc_Diff1 [of "refs st a" w] by simp
  next
    case False
    then have "refs st a - {v} - {w} = refs st a" using assms(2) p by auto
    with False show ?thesis by simp
  qed
  then have "counted ?st" using assms(1) by (intro counted_same_cards [OF assms(1)]) (simp_all add: counted_def)
  then show ?thesis using p by (auto simp: intrusive_ptr_move_def ptr_of_def)
qed

lemma swap_ok:
  assumes "counted st" and "ptr_vars st v \<noteq> None" and "ptr_vars st w \<noteq> None"
  shows "\<exists>st'. Swap v w st = Inr st' \<and> counted st' \<and> dom (ptr_vars st') = dom (ptr_vars st)"
proof -
  obtain p q where pq: "ptr_vars st v = Some p" "ptr_vars st w = Some q" using assms(2,3) by blast
  let ?f = "\<lambda>x. if x = v then w else if x = w then v else x"
  let ?st = "set_ptr v q (set_ptr w p st)"
  have "refs ?st a = ?f ` refs st a" for a
  proof (rule set_eqI)
    fix x
    have "x \<in> refs ?st a \<longleftrightarrow> ?f x \<in> refs st a" using pq by auto
    also have "\<dots> \<longleftrightarrow> x \<in> ?f ` refs st a" by force
    finally show "x \<in> refs ?st a \<longleftrightarrow> x \<in> ?f ` refs st a" .
  qed
  moreover have "inj_on ?f (refs st a)" for a by (auto simp: inj_on_def split: if_splits)
  ultimately have "card (refs ?st a) = card (refs st a)" for a by (simp only: card_image)
  then have "counted ?st" using assms(1) by (intro counted_same_cards [OF assms(1)]) (simp_all add: counted_def)
  then show ?thesis using pq by (auto simp: Swap_def ptr_of_def)
qed

lemma destroy_ok:
  assumes "counted st" and "ptr_vars st v \<noteq> None" and "card (dom (ptr_vars st)) < 2 ^ 64"
  shows "\<exists>st'. intrusive_ptr_destroy v st = Inr st' \<and> counted st' \<and> dom (ptr_vars st') = dom (ptr_vars st) - {v}"
proof -
  obtain p where p: "ptr_vars st v = Some p" using assms(2) by blast
  show ?thesis
  proof (cases p)
    case None
    then have "refs st a - {v} = refs st a" for a using p by auto
    with None p assms(1) show ?thesis
      by (auto simp: intrusive_ptr_destroy_def ptr_of_def Release_def counted_def)
  next
    case (Some a)
    let ?n = "card (refs st a)"
    have v: "v \<in> refs st a" using Some p by simp
    then have n: "0 < ?n" "?n < 2 ^ 64"
      using counted_finite [OF assms(1), of a] card_mono [OF _ refs_sub [of st a]] assms(1,3)
      by (auto simp: card_gt_0_iff counted_def)
    have obj: "objects st a = Some (of_nat ?n)" using counted_objects [OF assms(1), of a] v by auto
    have one: "of_nat ?n = (1 :: size_t) \<longleftrightarrow> ?n = 1" and ge: "(1 :: size_t) \<le> of_nat ?n"
      and minus: "of_nat ?n - (1 :: size_t) = of_nat (?n - 1)"
      using n by (simp_all add: word_of_nat_eq_iff word_unat_eq_iff word_le_nat_alt unat_of_nat of_nat_diff take_bit_nat_eq_self)
    let ?st = "st\<lparr>objects := (objects st)(a := if ?n = 1 then None else Some (of_nat (?n - 1))), ptr_vars := (ptr_vars st)(v := None)\<rparr>"
    have "intrusive_ptr_destroy v st = Inr ?st"
      using p Some obj one ge minus
      by (auto simp: intrusive_ptr_destroy_def ptr_of_def Release_def RefCounted_Release_def FetchSub_def Let_def)
    moreover have refs': "refs ?st b = refs st b - {v}" for b by (auto simp: refs_def)
    moreover have "objects ?st b = (if refs ?st b = {} then None else Some (of_nat (card (refs ?st b))))" for b
    proof (cases "b = a")
      case True
      have card: "card (refs st a - {v}) = ?n - 1" using v counted_finite [OF assms(1), of a] by simp
      have "finite (refs st a - {v})" using counted_finite [OF assms(1), of a] by simp
      then have "refs st a - {v} = {} \<longleftrightarrow> card (refs st a - {v}) = 0" by (simp only: card_0_eq)
      also have "\<dots> \<longleftrightarrow> ?n = 1" using card n by auto
      finally have empty: "refs st a - {v} = {} \<longleftrightarrow> ?n = 1" .
      show ?thesis unfolding True refs' by (simp only: empty card) simp
    next
      case False
      then have "refs ?st b = refs st b" using p Some by (auto simp: refs_def)
      with False counted_objects [OF assms(1), of b] show ?thesis by simp
    qed
    ultimately show ?thesis using assms(1) by (simp add: counted_def)
  qed
qed

section \<open>Every program runs\<close>

lemma assign_ok:
  assumes "build_other other st = Inr st1" and "counted st1" and "dom (ptr_vars st1) = insert other (dom (ptr_vars st))"
    and "ptr_vars st v \<noteq> None" and "ptr_vars st other = None" and "room st" and "finite (dom (ptr_vars st))"
  shows "\<exists>st'. intrusive_ptr_assign build_other other v st = Inr st' \<and> counted st'"
proof -
  have "ptr_vars st1 v \<noteq> None" "ptr_vars st1 other \<noteq> None" using assms(3,4) by auto
  from swap_ok [OF assms(2) this] obtain st2 where
    st2: "Swap v other st1 = Inr st2" "counted st2" "dom (ptr_vars st2) = dom (ptr_vars st1)" by blast
  have "card (dom (ptr_vars st2)) < 2 ^ 64"
    using assms(5-7) by (simp add: st2(3) assms(3) room_def domIff)
  moreover have "ptr_vars st2 other \<noteq> None" using st2(3) assms(3) by auto
  ultimately obtain st3 where "intrusive_ptr_destroy other st2 = Inr st3" "counted st3"
    using destroy_ok [OF st2(2), of other] by blast
  with st2(1) assms(1) show ?thesis by (auto simp: intrusive_ptr_assign_def)
qed

lemma exec_ok:
  assumes "counted st" and "ready c st" and "room st"
  shows "\<exists>st'. exec c st = Inr st' \<and> counted st'"
proof (cases c)
  case (Default v)
  then have "refs st a - {v} = refs st a" for a using assms(2) by auto
  with Default assms(1) show ?thesis by (simp add: intrusive_ptr_default_def counted_def)
next
  case (Create v a)
  with assms(2) show ?thesis using create_ok [OF assms(1), of v a] by auto
next
  case (FromGet v w)
  then have "exec c st = exec (Copy v w) st"
    by (simp add: intrusive_ptr_get_def intrusive_ptr_raw_def intrusive_ptr_copy_def)
  with FromGet assms(2) show ?thesis using copy_ok [OF assms(1), of v w] by auto
next
  case (Copy v w)
  with assms(2) show ?thesis using copy_ok [OF assms(1), of v w] by auto
next
  case (Move v w)
  with assms(2) show ?thesis using move_ok [OF assms(1), of v w] by auto
next
  case (AssignCopy other v w)
  with assms(2) copy_ok [OF assms(1), of other w] obtain st' where "intrusive_ptr_copy other w st = Inr st'" "counted st'"
    "dom (ptr_vars st') = insert other (dom (ptr_vars st))" by auto
  with AssignCopy assign_ok [of "\<lambda>t. intrusive_ptr_copy t w" other st st' v] assms counted_finite_vars [OF assms(1)] show ?thesis by auto
next
  case (AssignMove other v w)
  with assms(2) move_ok [OF assms(1), of other w] obtain st' where "intrusive_ptr_move other w st = Inr st'" "counted st'"
    "dom (ptr_vars st') = insert other (dom (ptr_vars st))" by auto
  with AssignMove assign_ok [of "\<lambda>t. intrusive_ptr_move t w" other st st' v] assms counted_finite_vars [OF assms(1)] show ?thesis by auto
next
  case (Destroy v)
  with assms show ?thesis using destroy_ok [OF assms(1), of v] by (auto simp: room_def)
qed

lemma ptr_run_counted: "ptr_run cs st \<Longrightarrow> counted st \<and> room st"
proof (induction rule: ptr_run.induct)
  case start
  show ?case by (simp add: counted_def refs_def room_def)
next
  case (step cs st c st')
  then show ?case using exec_ok [of st c] by auto
qed

text \<open>C29: The 64-bit count of an object is the number of pointer variables that point to it, so an
  object is alive exactly as long as there is one: after any program that uses pointers as the
  language allows, with fewer than \<open>2 ^ 64 - 1\<close> of them alive at a time, the count has not wrapped,
  no pointer dangles and no object without a pointer is left.\<close>

theorem reference_counts_exact:
  assumes "ptr_run cs st"
  shows "(case objects st a of None \<Rightarrow> refs st a = {} | Some n \<Rightarrow> refs st a \<noteq> {} \<and> unat n = card (refs st a))
    \<and> card (refs st a) < 2 ^ 64"
proof -
  have c: "counted st" and r: "room st" using ptr_run_counted [OF assms] by auto
  have "card (refs st a) \<le> card (dom (ptr_vars st))"
    using card_mono [OF counted_finite_vars [OF c] refs_sub] .
  with r have "card (refs st a) < 2 ^ 64" by (simp add: room_def)
  with counted_objects [OF c, of a] show ?thesis by (simp add: unat_of_nat)
qed

text \<open>C30: Whatever a program has done, no command that the language allows fails: neither the \<^verbatim>\<open>CHECK\<close> of
  \<^verbatim>\<open>FetchSub\<close> nor a use of a dead object occurs; and when the remaining pointers are destroyed, in any
  order, every object has been deleted.\<close>

theorem pointers_release_everything:
  assumes "ptr_run cs st" and "distinct vs" and "set vs = dom (ptr_vars st)"
  shows "(ready c st \<longrightarrow> is_ok (exec c st)) \<and>
    (\<exists>st'. fold_result (\<lambda>v. exec (Destroy v)) vs st = Inr st' \<and> (\<forall>a. objects st' a = None))"
proof
  have cr: "counted st" "room st" using ptr_run_counted [OF assms(1)] by auto
  then show "ready c st \<longrightarrow> is_ok (exec c st)" using exec_ok [of st c] by (auto simp: is_ok_iff)
  from cr assms(2,3) show "\<exists>st'. fold_result (\<lambda>v. exec (Destroy v)) vs st = Inr st' \<and> (\<forall>a. objects st' a = None)"
  proof (induction vs arbitrary: st)
    case Nil
    then show ?case by (auto simp: counted_def refs_def)
  next
    case (Cons v vs)
    then have "ptr_vars st v \<noteq> None" "card (dom (ptr_vars st)) < 2 ^ 64" by (auto simp: room_def)
    from destroy_ok [OF Cons.prems(1) this] obtain st' where
      st': "intrusive_ptr_destroy v st = Inr st'" "counted st'" "dom (ptr_vars st') = dom (ptr_vars st) - {v}" by blast
    moreover have "card (dom (ptr_vars st')) \<le> card (dom (ptr_vars st))"
      using st'(3) counted_finite_vars [OF Cons.prems(1)] by (simp add: card_Diff1_le)
    moreover have "set vs = dom (ptr_vars st')" using st'(3) Cons.prems(3,4) by auto
    ultimately show ?case using Cons.IH [of st'] Cons.prems(2,3) by (simp add: room_def)
  qed
qed

section \<open>A program\<close>

definition demo_store :: ptr_store where
  "demo_store = \<lparr>objects = [7 \<mapsto> 2], ptr_vars = [0 \<mapsto> Some 7, 1 \<mapsto> Some 7, 2 \<mapsto> None]\<rparr>"

text \<open>A new object, a second pointer to it, and a null pointer assigned to from the first by a copy.\<close>

lemma demo_pointers: "ptr_run [Create 0 7, Default 1, AssignCopy 5 1 0, Default 2] demo_store"
proof -
  note defs = intrusive_ptr_create_def intrusive_ptr_raw_def intrusive_ptr_default_def intrusive_ptr_assign_def
    intrusive_ptr_copy_def intrusive_ptr_destroy_def Swap_def Retain_def RefCounted_Retain_def FetchAdd_def
    Release_def ptr_of_def set_ptr_def
  have small: "dom m \<subseteq> {0, 1, 2} \<Longrightarrow> room \<lparr>objects = h, ptr_vars = m\<rparr>" for m h
    using card_mono [of "{0, 1, 2}" "dom m"] by (simp add: room_def)
  let ?s1 = "\<lparr>objects = [7 \<mapsto> 1], ptr_vars = [0 \<mapsto> Some 7]\<rparr>"
  let ?s2 = "\<lparr>objects = [7 \<mapsto> 1], ptr_vars = [0 \<mapsto> Some 7, 1 \<mapsto> None]\<rparr>"
  let ?s3 = "\<lparr>objects = [7 \<mapsto> 2], ptr_vars = [0 \<mapsto> Some 7, 1 \<mapsto> Some 7]\<rparr>"
  have "ptr_run [Create 0 7] ?s1"
    using ptr_run.step [OF ptr_run.start, of "Create 0 7" ?s1] by (simp add: defs small)
  then have "ptr_run [Create 0 7, Default 1] ?s2"
    using ptr_run.step [of "[Create 0 7]" ?s1 "Default 1" ?s2] by (simp add: defs small)
  then have "ptr_run [Create 0 7, Default 1, AssignCopy 5 1 0] ?s3"
  proof -
    have "exec (AssignCopy 5 1 0) ?s2 = Inr ?s3" by (simp add: defs)
    moreover have "room ?s3" by (rule small) auto
    ultimately show ?thesis
      using ptr_run.step [OF \<open>ptr_run [Create 0 7, Default 1] ?s2\<close>, of "AssignCopy 5 1 0" ?s3] by simp
  qed
  then show ?thesis
    using ptr_run.step [of "[Create 0 7, Default 1, AssignCopy 5 1 0]" ?s3 "Default 2" demo_store]
    by (simp add: defs small demo_store_def)
qed

theorem reference_counts_exact_witness: "card (refs demo_store 7) = 2 \<and> refs demo_store 9 = {}"
  using reference_counts_exact [OF demo_pointers, of 7] reference_counts_exact [OF demo_pointers, of 9]
  by (simp add: demo_store_def)

theorem pointers_release_everything_witness:
  "\<exists>st'. fold_result (\<lambda>v. exec (Destroy v)) [1, 0, 2] demo_store = Inr st' \<and> objects st' 7 = None"
proof -
  have "set [1, 0, 2] = dom (ptr_vars demo_store)" by (auto simp: demo_store_def split: if_splits)
  then show ?thesis using pointers_release_everything [OF demo_pointers, of "[1, 0, 2]" "Default 3"] by auto
qed

end
