(* ===== verification/Ir_Parser_Roundtrip.thy ===== *)
theory Ir_Parser_Roundtrip imports
  Ir_Parser
  Ir_Proto_Roundtrip
begin

text \<open>
  Printing a module and parsing the text. The text that \<^verbatim>\<open>src/ir/ir_printer.h\<close> prints is the layout
  of a parse tree of \<^verbatim>\<open>src/parser/ir/Ir.g4\<close>, and the visitor of \<^verbatim>\<open>src/parser/ir/ir_parser.cc\<close> builds
  the module again from that tree.
\<close>

section \<open>The layout of a tree\<close>

fun payload_text :: "payload_tree \<Rightarrow> string" where
  "payload_text (FloatLiteral s) = s"
| "payload_text (NumLiteral s) = s"
| "payload_text (StringLiteral s) = s"

fun value_text :: "value_tree \<Rightarrow> string" where
  "value_text AnyToken = Any_ToString"
| "value_text (NamedTempValue n) = n"

definition operation_text :: "operation_tree \<Rightarrow> string" where
  "operation_text t = replicate 4 (CHR '' '') @ str_join '', '' (tree_result t) @ '' = '' @ tree_operator_name t @ '' ['' @
     str_join '', '' (map (\<lambda>(n, p). n @ '': '' @ payload_text p) (tree_attributes t)) @ ''](''  @
     str_join '', '' (map value_text (tree_arguments t)) @ '')'' @ newline"

definition block_text :: "block_tree \<Rightarrow> string" where
  "block_text b = ''  block '' @ tree_block_id b @ '' {'' @ newline @ concat (map operation_text (tree_operations b)) @
     ''  }  // block '' @ tree_block_id b @ newline"

definition module_text :: "module_tree \<Rightarrow> string" where
  "module_text t = ''module '' @ tree_module_id t @ '' {'' @ newline @ concat (map block_text (tree_blocks t)) @
     ''}  // module '' @ tree_module_id t @ newline"

section \<open>The tokens of the grammar\<close>

definition id_start :: "char \<Rightarrow> bool" where
  "id_start c \<longleftrightarrow> is_letter c \<or> c \<in> set ''_/.''"

definition digits_text :: "string \<Rightarrow> bool" where
  "digits_text s \<longleftrightarrow> s \<noteq> [] \<and> list_all is_digit s"

definition drop_sign :: "string \<Rightarrow> string" where
  "drop_sign s = (if s \<noteq> [] \<and> hd s \<in> set ''+-'' then tl s else s)"

definition drop_fraction :: "string \<Rightarrow> string" where
  "drop_fraction s = (if s \<noteq> [] \<and> hd s = CHR ''.'' then dropWhile is_digit (tl s) else s)"

definition drop_exponent :: "string \<Rightarrow> string" where
  "drop_exponent s = (if s \<noteq> [] \<and> hd s \<in> set ''eE'' \<and> takeWhile is_digit (drop_sign (tl s)) \<noteq> []
     then dropWhile is_digit (drop_sign (tl s)) else s)"

definition float_tail :: "string \<Rightarrow> bool" where
  "float_tail s \<longleftrightarrow> s \<noteq> [] \<and> drop_exponent (drop_fraction s) \<in> {[], ''l''}"

definition float_text :: "string \<Rightarrow> bool" where
  "float_text s \<longleftrightarrow> takeWhile is_digit (drop_sign s) \<noteq> [] \<and> float_tail (dropWhile is_digit (drop_sign s))"

text \<open>An \<^verbatim>\<open>ID\<close> that no earlier rule matches as far: not a keyword, not a \<^verbatim>\<open>FLOAT_TAIL\<close>, not the
  start of a comment.\<close>

definition id_text :: "string \<Rightarrow> bool" where
  "id_text s \<longleftrightarrow> s \<noteq> [] \<and> id_start (hd s) \<and> list_all (\<lambda>c. id_start c \<or> is_digit c) (tl s) \<and>
     s \<noteq> ''block'' \<and> s \<noteq> ''module'' \<and> \<not> float_tail s \<and> take 2 s \<noteq> ''//''"

definition temporary_text :: "string \<Rightarrow> bool" where
  "temporary_text s \<longleftrightarrow> s \<noteq> [] \<and> hd s = CHR ''%'' \<and>
     (digits_text (tl s) \<or> tl s \<noteq> [] \<and> id_start (hd (tl s)) \<and> list_all (\<lambda>c. id_start c \<or> is_digit c) (tl (tl s)))"

definition string_text :: "string \<Rightarrow> bool" where
  "string_text s \<longleftrightarrow> (\<exists>r. s = [CHR 34] @ r @ [CHR 34] \<and> CHR 34 \<notin> set r)"

fun lexable_payload :: "payload_tree \<Rightarrow> bool" where
  "lexable_payload (FloatLiteral s) = float_text s"
| "lexable_payload (NumLiteral s) = digits_text s"
| "lexable_payload (StringLiteral s) = string_text s"

definition lexable_operation :: "operation_tree \<Rightarrow> bool" where
  "lexable_operation t \<longleftrightarrow> tree_result t \<noteq> [] \<and> list_all temporary_text (tree_result t) \<and> id_text (tree_operator_name t) \<and>
     tree_attribute_list t \<noteq> Some [] \<and> list_all (\<lambda>(n, p). id_text n \<and> lexable_payload p) (tree_attributes t) \<and>
     tree_argument_list t \<noteq> Some [] \<and>
     list_all (\<lambda>v. case v of AnyToken \<Rightarrow> True | NamedTempValue n \<Rightarrow> temporary_text n) (tree_arguments t)"

definition lexable_block :: "block_tree \<Rightarrow> bool" where
  "lexable_block b \<longleftrightarrow> id_text (tree_block_id b) \<and> list_all lexable_operation (tree_operations b)"

definition lexable_module :: "module_tree \<Rightarrow> bool" where
  "lexable_module t \<longleftrightarrow> id_text (tree_module_id t) \<and> list_all lexable_block (tree_blocks t)"

section \<open>The tree of a module\<close>

fun payload_of :: "(double \<Rightarrow> string) \<Rightarrow> attribute \<Rightarrow> payload_tree" where
  "payload_of lg (FloatAttribute d) = FloatLiteral (lg d @ ''l'')"
| "payload_of lg (Int64Attribute i) = NumLiteral (string_of_int i)"
| "payload_of lg (StringAttribute s) = StringLiteral ([CHR 34] @ s @ [CHR 34])"

definition in_name_order :: "named_attribute_map \<Rightarrow> named_attribute_map" where
  "in_name_order attrs = map (\<lambda>n. (n, the (map_of attrs n))) (sort (map fst attrs))"

definition some_list :: "'a list \<Rightarrow> 'a list option" where
  "some_list xs = (if xs = [] then None else Some xs)"

definition tree_of_value :: "ssa_names \<Rightarrow> ir_value \<Rightarrow> value_tree" where
  "tree_of_value t v = (case v of Any \<Rightarrow> AnyToken | _ \<Rightarrow> NamedTempValue (value_name t v))"

definition tree_of_operation :: "(double \<Rightarrow> string) \<Rightarrow> ssa_names \<Rightarrow> op_id \<times> operation \<Rightarrow> operation_tree" where
  "tree_of_operation lg t oper = \<lparr>tree_result = map (value_name t) (result_values oper),
     tree_operator_name = op_name (op_of (snd oper)),
     tree_attribute_list = some_list (map (\<lambda>(n, a). (n, payload_of lg a)) (in_name_order (attributes (snd oper)))),
     tree_argument_list = some_list (map (tree_of_value t) (inputs (snd oper)))\<rparr>"

definition tree_of_block :: "(double \<Rightarrow> string) \<Rightarrow> ssa_names \<Rightarrow> block_id \<times> block \<Rightarrow> block_tree" where
  "tree_of_block lg t b = \<lparr>tree_block_id = block_name t (fst b),
     tree_operations = map (tree_of_operation lg t) (operations (snd b))\<rparr>"

definition tree_of_module :: "(double \<Rightarrow> string) \<Rightarrow> ssa_names \<Rightarrow> module_id \<times> ir_module \<Rightarrow> module_tree" where
  "tree_of_module lg t m = \<lparr>tree_module_id = mod_name t (fst m), tree_blocks = map (tree_of_block lg t) (blocks (snd m))\<rparr>"

section \<open>Modules that can be printed and parsed\<close>

text \<open>The printer escapes nothing, prints integers with their sign and floats with six digits, and prints neither
  the declarations nor the results of a block; the grammar has no negative integer and no
  operation without a result.\<close>

definition printable_attribute :: "(double \<Rightarrow> string) \<Rightarrow> (string \<Rightarrow> double option) \<Rightarrow> attribute \<Rightarrow> bool" where
  "printable_attribute lg atod a = (case a of
     FloatAttribute d \<Rightarrow> float_text (lg d @ ''l'') \<and> atod (lg d) = Some d
   | Int64Attribute i \<Rightarrow> 0 \<le> i \<and> i < 2 ^ 63
   | StringAttribute s \<Rightarrow> CHR 34 \<notin> set s)"

definition printable_input :: "(op_id \<times> operation) list \<Rightarrow> ir_value \<Rightarrow> bool" where
  "printable_input opers v = (case v of
     Any \<Rightarrow> True
   | OperationResult oid i \<Rightarrow> (\<exists>y \<in> set opers. fst y = oid \<and> i < NumberOfOutputs (snd y))
   | _ \<Rightarrow> False)"

definition printable_operation ::
  "(double \<Rightarrow> string) \<Rightarrow> (string \<Rightarrow> double option) \<Rightarrow> (op_id \<times> operation) list \<Rightarrow> operation \<Rightarrow> bool" where
  "printable_operation lg atod opers oper \<longleftrightarrow> id_text (op_name (op_of oper)) \<and> 0 < NumberOfOutputs oper \<and>
     hm_wf (attributes oper) \<and> list_all (\<lambda>(n, a). id_text n \<and> printable_attribute lg atod a) (attributes oper) \<and>
     list_all (printable_input opers) (inputs oper)"

definition printable_block :: "(double \<Rightarrow> string) \<Rightarrow> (string \<Rightarrow> double option) \<Rightarrow> block \<Rightarrow> bool" where
  "printable_block lg atod b \<longleftrightarrow> block_inputs b = [] \<and> block_outputs b = [] \<and> results b = [] \<and>
     list_all (\<lambda>y. printable_operation lg atod (operations b) (snd y)) (operations b)"

definition one_operator_per_name :: "ir_module \<Rightarrow> bool" where
  "one_operator_per_name m \<longleftrightarrow> (\<forall>x \<in> set (module_operations m). \<forall>y \<in> set (module_operations m).
     op_name (op_of (snd x)) = op_name (op_of (snd y)) \<longrightarrow> op_of (snd x) = op_of (snd y))"

definition printable_module :: "(double \<Rightarrow> string) \<Rightarrow> (string \<Rightarrow> double option) \<Rightarrow> ir_module \<Rightarrow> bool" where
  "printable_module lg atod m \<longleftrightarrow> distinct (module_ptrs m) \<and> named_storage_map m = [] \<and> one_operator_per_name m \<and>
     list_all (\<lambda>b. printable_block lg atod (snd b)) (blocks m)"

section \<open>The printed text is the layout\<close>

lemma tree_lists [simp]:
  "tree_attributes (tree_of_operation lg t oper) = map (\<lambda>(n, a). (n, payload_of lg a)) (in_name_order (attributes (snd oper)))"
  "tree_arguments (tree_of_operation lg t oper) = map (tree_of_value t) (inputs (snd oper))"
  "tree_result (tree_of_operation lg t oper) = map (value_name t) (result_values oper)"
  "tree_operator_name (tree_of_operation lg t oper) = op_name (op_of (snd oper))"
  by (simp_all add: tree_of_operation_def tree_attributes_def tree_arguments_def some_list_def)

lemma payload_text_of [simp]: "payload_text (payload_of lg a) = Attribute_ToString lg a"
  by (cases a) simp_all

lemma render_operation_text:
  assumes "list_all (printable_input opers) (inputs (snd oper))"
  shows "render_operation heap lg oper 2 t = operation_text (tree_of_operation lg t oper)"
proof -
  have "map (render_value heap t) (inputs (snd oper)) = map (\<lambda>v. value_text (tree_of_value t v)) (inputs (snd oper))"
    using assms by (auto simp: list_all_iff render_value_def tree_of_value_def printable_input_def split: "ir_value.splits")
  then have join: "str_join sep (map (render_value heap t) (inputs (snd oper))) =
      str_join sep (map (\<lambda>v. value_text (tree_of_value t v)) (inputs (snd oper)))" for sep by (simp only:)
  show ?thesis
    by (simp add: render_operation_def operation_text_def render_attributes_def in_name_order_def comp_def join
        numeral_eq_Suc)
qed

lemma render_block_text:
  assumes "printable_block lg atod (snd b)"
  shows "render_block heap lg b 1 t = block_text (tree_of_block lg t b)"
proof -
  have "map (\<lambda>oper. render_operation heap lg oper 2 t) (operations (snd b)) =
      map (\<lambda>oper. operation_text (tree_of_operation lg t oper)) (operations (snd b))"
  proof (rule map_cong [OF refl])
    show "render_operation heap lg oper 2 t = operation_text (tree_of_operation lg t oper)" if "oper \<in> set (operations (snd b))" for oper
      using assms that by (intro render_operation_text [of "operations (snd b)"])
        (auto simp: printable_block_def printable_operation_def list_all_iff)
  qed
  then have ops: "concat (map (\<lambda>oper. render_operation heap lg oper (Suc (Suc 0)) t) (operations (snd b))) =
      concat (map (\<lambda>oper. operation_text (tree_of_operation lg t oper)) (operations (snd b)))"
    by (simp only: numeral_2_eq_2)
  show ?thesis by (simp add: render_block_def block_text_def tree_of_block_def comp_def ops numeral_eq_Suc)
qed

lemma render_module_text:
  assumes "printable_module lg atod (snd m)"
  shows "render_module heap lg m 0 t = module_text (tree_of_module lg t m)"
proof -
  have "map (\<lambda>b. render_block heap lg b 1 t) (blocks (snd m)) = map (\<lambda>b. block_text (tree_of_block lg t b)) (blocks (snd m))"
  proof (rule map_cong [OF refl])
    show "render_block heap lg b 1 t = block_text (tree_of_block lg t b)" if "b \<in> set (blocks (snd m))" for b
      using assms that by (intro render_block_text [of lg atod]) (auto simp: printable_module_def list_all_iff)
  qed
  then have blks: "concat (map (\<lambda>b. render_block heap lg b (Suc 0) t) (blocks (snd m))) =
      concat (map (\<lambda>b. block_text (tree_of_block lg t b)) (blocks (snd m)))"
    by (simp only: One_nat_def)
  show ?thesis by (simp add: render_module_def module_text_def tree_of_module_def comp_def blks)
qed

section \<open>The layout is in the grammar\<close>

text \<open>The names that printing has given.\<close>

definition numbered :: "string \<Rightarrow> 'k id_manager \<Rightarrow> bool" where
  "numbered prefix m \<longleftrightarrow> manager_ok m \<and> id_prefix m = prefix"

lemma numbered_name:
  assumes "numbered prefix m" and "k \<in> dom (map_of (item_ids m))"
  shows "\<exists>i. manager_name m k = prefix @ string_of_nat i"
proof -
  from assms(2) obtain n where n: "map_of (item_ids m) k = Some n" by blast
  then have "n \<in> set (map snd (item_ids m))" by (force dest: map_of_SomeD)
  with assms(1) have "\<exists>i. n = prefix @ string_of_nat i" by (auto simp: numbered_def manager_ok_def)
  with n show ?thesis by (simp add: manager_name_def)
qed

lemma digits_of_nat [simp]: "digits_text (string_of_nat n)"
  by (auto simp: digits_text_def list_all_iff intro: string_of_nat_digits)

lemma temporary_numbered: "temporary_text (''%'' @ string_of_nat i)"
  by (simp add: temporary_text_def)

lemma not_digits: "\<not> is_digit (CHR ''.'')" "\<not> is_digit (CHR ''l'')" "\<not> is_digit (CHR ''o'')" "\<not> is_digit (CHR ''/'')"
  by (simp_all add: is_digit_def)

lemma id_numbered:
  assumes "c = CHR ''b'' \<or> c = CHR ''m''"
  shows "id_text (c # string_of_nat i)"
proof -
  obtain d ds where d: "string_of_nat i = d # ds" by (cases "string_of_nat i") auto
  have digits: "list_all is_digit (d # ds)" using digits_of_nat [of i] by (simp add: digits_text_def d)
  then have "d \<noteq> CHR ''l''" "d \<noteq> CHR ''o''" "d \<noteq> CHR ''/''" using not_digits by auto
  moreover have "drop_exponent (drop_fraction (c # d # ds)) = c # d # ds"
    using assms by (auto simp: drop_exponent_def drop_fraction_def)
  then have "\<not> float_tail (c # d # ds)" using assms by (auto simp: float_tail_def)
  moreover have "id_start c" using assms by (auto simp: id_start_def is_letter_def)
  moreover have "list_all (\<lambda>c. id_start c \<or> is_digit c) (d # ds)" using digits by (auto simp: list_all_iff)
  ultimately show ?thesis unfolding id_text_def d by auto
qed

lemma lexable_attribute:
  assumes "printable_attribute lg atod a"
  shows "lexable_payload (payload_of lg a)"
  using assms by (cases a) (auto simp: printable_attribute_def string_of_int_def string_text_def)

text \<open>What the printer writes for a negative integer or a string with a quote is no token.\<close>

lemma unreadable_literals:
  shows "i < 0 \<Longrightarrow> \<not> lexable_payload (payload_of lg (Int64Attribute i))"
    and "CHR 34 \<in> set s \<Longrightarrow> \<not> lexable_payload (payload_of lg (StringAttribute s))"
proof -
  show "\<not> lexable_payload (payload_of lg (Int64Attribute i))" if "i < 0"
    using that by (simp add: string_of_int_def digits_text_def is_digit_def)
  show "\<not> lexable_payload (payload_of lg (StringAttribute s))" if "CHR 34 \<in> set s"
    using that by (auto simp: string_text_def)
qed

lemma in_name_order_set: "hm_wf attrs \<Longrightarrow> set (in_name_order attrs) = set attrs"
proof -
  assume wf: "hm_wf attrs"
  have "(\<lambda>n. (n, the (map_of attrs n))) ` fst ` set attrs = set attrs"
    using hm_wf_map_of [OF wf] by force
  then show ?thesis by (simp add: in_name_order_def)
qed

text \<open>A final state of the names: they are numbered, and everything in the module has one.\<close>

definition all_named :: "ssa_names \<Rightarrow> module_id \<times> ir_module \<Rightarrow> bool" where
  "all_named t m \<longleftrightarrow> numbered ''b'' (block_ids t) \<and> numbered ''m'' (module_ids t) \<and> numbered ''%'' (value_ids t) \<and>
     fst m \<in> dom (map_of (item_ids (module_ids t))) \<and> fst ` set (blocks (snd m)) \<subseteq> dom (map_of (item_ids (block_ids t))) \<and>
     named_values (module_operations (snd m)) \<subseteq> named t"

lemma named_temporary:
  assumes "all_named t m" and "v \<in> named_values (module_operations (snd m))"
  shows "temporary_text (value_name t v)"
proof -
  have "numbered ''%'' (value_ids t)" "v \<in> dom (map_of (item_ids (value_ids t)))"
    using assms by (auto simp: all_named_def named_def)
  from numbered_name [OF this] show ?thesis using temporary_numbered by (metis append_Cons append_Nil)
qed

lemma block_operations_named:
  assumes "b \<in> set (blocks (snd m))" and "y \<in> set (operations (snd b))"
  shows "set (result_values y) \<subseteq> named_values (module_operations (snd m))"
    and "v \<in> set (inputs (snd y)) \<Longrightarrow> ssa_named v \<Longrightarrow> v \<in> named_values (module_operations (snd m))"
proof -
  have "y \<in> set (module_operations (snd m))" using assms by (auto simp: module_operations_def)
  then show "set (result_values y) \<subseteq> named_values (module_operations (snd m))"
    and "v \<in> set (inputs (snd y)) \<Longrightarrow> ssa_named v \<Longrightarrow> v \<in> named_values (module_operations (snd m))"
    by (auto simp: named_values_def)
qed

lemma lexable_tree_of_operation:
  assumes t: "all_named t m" and b: "b \<in> set (blocks (snd m))" "y \<in> set (operations (snd b))"
    and y: "printable_operation lg atod opers (snd y)"
  shows "lexable_operation (tree_of_operation lg t y)"
proof -
  have "result_values y \<noteq> []" using y by (simp add: result_values_def printable_operation_def)
  moreover have "list_all temporary_text (map (value_name t) (result_values y))"
    using named_temporary [OF t] block_operations_named(1) [OF b] by (auto simp: list_all_iff)
  moreover have "list_all (\<lambda>(n, p). id_text n \<and> lexable_payload p) (map (\<lambda>(n, a). (n, payload_of lg a)) (in_name_order (attributes (snd y))))"
    using y in_name_order_set [of "attributes (snd y)"]
    by (auto simp: list_all_iff printable_operation_def intro: lexable_attribute)
  moreover have "case tree_of_value t v of AnyToken \<Rightarrow> True | NamedTempValue n \<Rightarrow> temporary_text n" if "v \<in> set (inputs (snd y))" for v
  proof -
    have "printable_input opers v" using that y by (simp add: printable_operation_def list_all_iff)
    then show ?thesis using named_temporary [OF t block_operations_named(2) [OF b that]]
      by (cases v) (simp_all add: tree_of_value_def printable_input_def)
  qed
  then have "list_all (\<lambda>v. case v of AnyToken \<Rightarrow> True | NamedTempValue n \<Rightarrow> temporary_text n) (map (tree_of_value t) (inputs (snd y)))"
    by (simp add: list_all_iff)
  moreover have "tree_attribute_list (tree_of_operation lg t y) \<noteq> Some []" "tree_argument_list (tree_of_operation lg t y) \<noteq> Some []"
    by (simp_all add: tree_of_operation_def some_list_def)
  ultimately show ?thesis using y by (simp add: lexable_operation_def printable_operation_def)
qed

lemma printable_operation_in:
  assumes "printable_module lg atod m" and "b \<in> set (blocks m)" and "y \<in> set (operations (snd b))"
  shows "printable_operation lg atod (operations (snd b)) (snd y)"
  using assms by (simp add: printable_module_def printable_block_def list_all_iff)

lemma lexable_tree:
  assumes m: "printable_module lg atod (snd m)" and t: "all_named t m"
  shows "lexable_module (tree_of_module lg t m)"
proof -
  have "\<exists>i. mod_name t (fst m) = ''m'' @ string_of_nat i"
    using t by (intro numbered_name) (auto simp: all_named_def)
  then have "id_text (mod_name t (fst m))" using id_numbered by (metis append_Cons append_Nil)
  moreover have "lexable_block (tree_of_block lg t b)" if b: "b \<in> set (blocks (snd m))" for b
  proof -
    have "\<exists>i. block_name t (fst b) = ''b'' @ string_of_nat i"
      using t b by (intro numbered_name) (auto simp: all_named_def)
    then have "id_text (block_name t (fst b))" using id_numbered by (metis append_Cons append_Nil)
    moreover have "lexable_operation (tree_of_operation lg t y)" if "y \<in> set (operations (snd b))" for y
      using lexable_tree_of_operation [OF t b that printable_operation_in [OF m b that]] .
    ultimately show ?thesis by (simp add: lexable_block_def tree_of_block_def list_all_iff)
  qed
  ultimately show ?thesis by (simp add: lexable_module_def tree_of_module_def list_all_iff)
qed

section \<open>The tree means the module\<close>

lemma StripAsciiWhitespace_digits: "list_all is_digit s \<Longrightarrow> StripAsciiWhitespace s = s"
proof -
  assume "list_all is_digit s"
  moreover have "\<not> ascii_space c" if "is_digit c" for c using that by (auto simp: is_digit_def ascii_space_def)
  ultimately have no: "\<forall>c \<in> set s. \<not> ascii_space c" by (auto simp: list_all_iff)
  then have "dropWhile ascii_space s = s" by (cases s) auto
  moreover have "dropWhile ascii_space (rev s) = rev s" using no by (cases "rev s") (auto dest!: arg_cong [of "rev s" _ set])
  ultimately show ?thesis by (simp add: StripAsciiWhitespace_def)
qed

lemma SimpleAtoi_string_of_nat:
  assumes "int n < 2 ^ 63"
  shows "SimpleAtoi (string_of_nat n) = Some (int n)"
proof -
  have d: "list_all is_digit (string_of_nat n)" using digits_of_nat [of n] by (simp add: digits_text_def)
  have "hd (string_of_nat n) \<in> set (string_of_nat n)" by simp
  then have "is_digit (hd (string_of_nat n))" by (rule string_of_nat_digits)
  then have "hd (string_of_nat n) \<noteq> CHR ''-''" "hd (string_of_nat n) \<noteq> CHR ''+''" by (auto simp: is_digit_def)
  with d assms show ?thesis
    by (simp add: SimpleAtoi_def StripAsciiWhitespace_digits Let_def)
qed

lemma visit_payload_of:
  assumes "printable_attribute lg atod a"
  shows "visit_payload atod (payload_of lg a) = Inr a"
proof (cases a)
  case (FloatAttribute d)
  with assms show ?thesis by (simp add: visitFloatAttribute_def printable_attribute_def Let_def)
next
  case (Int64Attribute i)
  then obtain n where "i = int n" "int n < 2 ^ 63" using assms nonneg_int_cases [of i]
    by (auto simp: printable_attribute_def)
  then show ?thesis using Int64Attribute SimpleAtoi_string_of_nat [of n]
    by (simp add: visitNumAttribute_def string_of_int_def)
next
  case (StringAttribute s)
  then show ?thesis by (simp add: visitStringAttribute_def visitStringLiteral_def)
qed

lemma parsed_attributes_of:
  assumes "printable_operation lg atod opers (snd y)"
  shows "parsed_attributes atod (tree_of_operation lg t y) = in_name_order (attributes (snd y))"
    and "operation_tree_ok atod (tree_of_operation lg t y)"
proof -
  let ?attrs = "in_name_order (attributes (snd y))"
  have wf: "hm_wf (attributes (snd y))" using assms by (simp add: printable_operation_def)
  have ok: "visit_payload atod (payload_of lg a) = Inr a" if "(n, a) \<in> set ?attrs" for n a
    using that assms in_name_order_set [OF wf] by (intro visit_payload_of) (auto simp: printable_operation_def list_all_iff)
  have "map (\<lambda>(n, p). (n, payload_value atod p)) (map (\<lambda>(n, a). (n, payload_of lg a)) ?attrs) = map (\<lambda>x. x) ?attrs"
    unfolding map_map by (rule map_cong [OF refl]) (auto simp: payload_value_def dest: ok)
  then show "parsed_attributes atod (tree_of_operation lg t y) = ?attrs" by (simp add: parsed_attributes_def)
  have "map fst (map (\<lambda>(n, a). (n, payload_of lg a)) ?attrs) = sort (map fst (attributes (snd y)))"
    by (simp add: in_name_order_def comp_def split_def)
  moreover have "distinct (sort (map fst (attributes (snd y))))" using wf by (simp add: hm_wf_def)
  moreover have "list_all (\<lambda>(n, p). is_ok (visit_payload atod p)) (map (\<lambda>(n, a). (n, payload_of lg a)) ?attrs)"
    using ok by (fastforce simp: list_all_iff)
  ultimately show "operation_tree_ok atod (tree_of_operation lg t y)" by (simp add: operation_tree_ok_def del: map_map)
qed

definition by_name :: proto_orders where
  "by_name = \<lparr>ord_operators = (\<lambda>xs. xs), ord_results = (\<lambda>xs. xs), ord_attributes = in_name_order\<rparr>"

text \<open>The results of a block, and the temporaries of its tree.\<close>

definition all_results :: "(op_id \<times> operation) list \<Rightarrow> ir_value list" where
  "all_results opers = concat (map result_values opers)"

lemma tree_temporaries_of: "tree_temporaries (map (tree_of_operation lg t) opers) = map (value_name t) (all_results opers)"
  by (simp add: tree_temporaries_def all_results_def map_concat comp_def)

lemma distinct_all_results: "distinct (map fst opers) \<Longrightarrow> distinct (all_results opers)"
proof (induction opers)
  case (Cons y opers)
  have "distinct (result_values y)" by (simp add: result_values_def distinct_map inj_on_def)
  moreover have "set (result_values y) \<inter> set (all_results opers) = {}"
    using Cons.prems by (force simp: result_values_def all_results_def)
  ultimately show ?case using Cons by (simp add: all_results_def)
qed (simp add: all_results_def)

lemma result_in: "OperationResult oid i \<in> set (all_results opers) \<longleftrightarrow> (\<exists>y \<in> set opers. fst y = oid \<and> i < NumberOfOutputs (snd y))"
  by (force simp: all_results_def result_values_def)

lemma enumerate_consecutive:
  "consecutive A a (map (\<lambda>y. OperationPtr (fst y)) opers) \<Longrightarrow>
    enumerate a (map f opers) = map (\<lambda>y. (A (OperationPtr (fst y)), f y)) opers"
  by (induction opers arbitrary: a) simp_all

lemma result_temporaries_of:
  "result_temporaries (A (OperationPtr (fst y))) (tree_of_operation lg t y) =
    map (\<lambda>v. (value_name t v, renamed_value A v)) (result_values y)"
  by (simp add: result_temporaries_def enumerate_map_upt result_values_def comp_def)

lemma block_temporaries_of:
  assumes "consecutive A (a + 1) (map (\<lambda>y. OperationPtr (fst y)) opers)"
  shows "block_temporaries a (map (tree_of_operation lg t) opers) =
    map (\<lambda>v. (value_name t v, renamed_value A v)) (all_results opers)"
  unfolding block_temporaries_def enumerate_consecutive [OF assms]
  by (simp add: comp_def result_temporaries_of all_results_def map_concat)

lemma operand_of:
  assumes "consecutive A (a + 1) (map (\<lambda>y. OperationPtr (fst y)) opers)" and "printable_input opers v"
    and "inj_on (value_name t) (set (all_results opers))"
  shows "operand (block_temporaries a (map (tree_of_operation lg t) opers)) (tree_of_value t v) = renamed_value A v"
proof (cases v)
  case (OperationResult oid i)
  then have v: "v \<in> set (all_results opers)" using assms(2) result_in by (simp add: printable_input_def)
  have "map_of (map (\<lambda>v. (f v, g v)) vs) (f v) = Some (g v)" if "inj_on f (set vs)" "v \<in> set vs" for f g and vs :: "ir_value list"
    using that by (induction vs) (auto simp: inj_on_def)
  from this [OF assms(3) v, of "renamed_value A"] show ?thesis
    by (simp add: operand_def tree_of_value_def block_temporaries_of [OF assms(1)] OperationResult)
qed (use assms(2) in \<open>simp_all add: operand_def tree_of_value_def printable_input_def\<close>)

lemma at_addresses_of:
  assumes "consecutive A a (concat (map block_ptrs bs))"
  shows "at_addresses a (map (tree_of_block lg t) bs) = map (\<lambda>b. (A (BlockPtr (fst b)), tree_of_block lg t b)) bs"
  using assms by (induction bs arbitrary: a) (simp_all add: block_ptrs_def consecutive_append tree_of_block_def)

lemma consecutive_block:
  assumes "consecutive A a (concat (map block_ptrs bs))" and "b \<in> set bs"
  shows "consecutive A (A (BlockPtr (fst b)) + 1) (map (\<lambda>y. OperationPtr (fst y)) (operations (snd b)))"
  using assms by (induction bs arbitrary: a) (auto simp: block_ptrs_def consecutive_append)

lemma block_results_injective:
  assumes "inj_on (value_name t) (named_values (module_operations m))" and "b \<in> set (blocks m)"
  shows "inj_on (value_name t) (set (all_results (operations (snd b))))"
proof (rule inj_on_subset [OF assms(1)])
  show "set (all_results (operations (snd b))) \<subseteq> named_values (module_operations m)"
    using block_operations_named(1) [where m = "(undefined, m)" and b = b] assms(2) by (auto simp: all_results_def)
qed

lemma tree_op_of [simp]: "tree_op (tree_of_operation lg t y) = op_of (snd y)"
  by (simp add: tree_op_def result_values_def NumberOfOutputs_def)

lemma tree_ok:
  assumes m: "printable_module lg atod (snd m)" and inj: "inj_on (value_name t) (named_values (module_operations (snd m)))"
  shows "module_tree_ok atod (tree_of_module lg t m)"
proof -
  have "block_tree_ok atod (tree_of_block lg t b)" if b: "b \<in> set (blocks (snd m))" for b
  proof -
    let ?opers = "operations (snd b)"
    have "distinct (concat (map block_ptrs (blocks (snd m))))"
      using m by (simp add: printable_module_def module_ptrs_def)
    then have "distinct (map fst ?opers)" using distinct_ptrs [of "blocks (snd m)"] b
      by (metis (no_types, lifting) distinct_concat_iff image_eqI list.set_map)
    then have "distinct (tree_temporaries (map (tree_of_operation lg t) ?opers))"
      using distinct_all_results [of ?opers] block_results_injective [OF inj b] by (simp add: tree_temporaries_of distinct_map)
    moreover have "list_all (operation_tree_ok atod) (map (tree_of_operation lg t) ?opers)"
      using parsed_attributes_of(2) printable_operation_in [OF m b] by (fastforce simp: list_all_iff)
    moreover have "operands_ok (map (tree_of_operation lg t) ?opers)"
      unfolding operands_ok_def
    proof (intro ballI allI impI)
      fix x n
      assume "x \<in> set (map (tree_of_operation lg t) ?opers)" and n: "NamedTempValue n \<in> set (tree_arguments x)"
      then obtain y where y: "y \<in> set ?opers" "x = tree_of_operation lg t y" by auto
      with n obtain v where v: "v \<in> set (inputs (snd y))" "tree_of_value t v = NamedTempValue n" by auto
      have "printable_input ?opers v" using printable_operation_in [OF m b y(1)] v(1) by (simp add: printable_operation_def list_all_iff)
      with v(2) have "v \<in> set (all_results ?opers)" "n = value_name t v"
        using result_in by (cases v; simp add: printable_input_def tree_of_value_def)+
      then show "n \<in> set (tree_temporaries (map (tree_of_operation lg t) ?opers))" by (simp add: tree_temporaries_of)
    qed
    ultimately show ?thesis by (simp add: block_tree_ok_def tree_of_block_def)
  qed
  moreover have "one_arity (all_operations (map (tree_of_block lg t) (blocks (snd m))))"
    using m by (auto simp: one_arity_def all_operations_def tree_of_block_def printable_module_def one_operator_per_name_def
        module_operations_def)
  ultimately show ?thesis by (simp add: module_tree_ok_def tree_of_module_def list_all_iff)
qed

lemma parsed_blocks_of:
  assumes m: "printable_module lg atod (snd m)" and inj: "inj_on (value_name t) (named_values (module_operations (snd m)))"
    and A: "consecutive A addr (module_ptrs (snd m))"
  shows "parsed_blocks atod this addr (tree_blocks (tree_of_module lg t m)) = map (renamed_block by_name A this) (blocks (snd m))"
proof -
  note A' = A [unfolded module_ptrs_def]
  have "parsed_block atod this (A (BlockPtr (fst b))) (tree_of_block lg t b) = renamed_block by_name A this b"
    if b: "b \<in> set (blocks (snd m))" for b
  proof -
    let ?opers = "operations (snd b)" and ?a = "A (BlockPtr (fst b))"
    note cons = consecutive_block [OF A' b]
    let ?temps = "block_temporaries ?a (map (tree_of_operation lg t) ?opers)"
    have "parsed_operation atod ?a ?temps (A (OperationPtr (fst y)), tree_of_operation lg t y) =
        (A (OperationPtr (fst y)), set_parent ?a (reread by_name A (snd y)))" if y: "y \<in> set ?opers" for y
    proof -
      note p = printable_operation_in [OF m b y]
      have "map (operand ?temps) (map (tree_of_value t) (inputs (snd y))) = map (renamed_value A) (inputs (snd y))"
        unfolding map_map using p operand_of [OF cons _ block_results_injective [OF inj b]]
        by (intro map_cong [OF refl]) (simp add: printable_operation_def list_all_iff)
      then show ?thesis using parsed_attributes_of(1) [OF p]
        by (simp add: parsed_operation_def reread_def by_name_def set_parent_def make_operation_def del: map_map)
    qed
    then have "map (parsed_operation atod ?a ?temps) (enumerate (?a + 1) (map (tree_of_operation lg t) ?opers)) =
        renamed_operations by_name A (fst b) ?opers"
      unfolding enumerate_consecutive [OF cons] by (simp add: renamed_operations_def)
    then show ?thesis by (simp add: parsed_block_def tree_of_block_def renamed_block_def)
  qed
  then show ?thesis
    by (simp add: parsed_blocks_def tree_of_module_def at_addresses_of [OF A'])
qed

section \<open>Printing and parsing\<close>

text \<open>The text is that of any later state of the names, so of one in which every block has its name.\<close>

lemma name_blocks:
  "\<exists>t. ssa_step s t \<and> set bs \<subseteq> dom (map_of (item_ids (block_ids t)))"
proof (induction bs)
  case Nil
  show ?case by (auto intro: exI [of _ s])
next
  case (Cons b bs)
  then obtain t where t: "ssa_step s t" "set bs \<subseteq> dom (map_of (item_ids (block_ids t)))" by blast
  obtain i t' where i: "GetOrCreateID_block b t = (i, t')" by (cases "GetOrCreateID_block b t")
  then obtain m where m: "Manager_GetOrCreateID b (block_ids t) = (i, m)" and t': "t' = t\<lparr>block_ids := m\<rparr>"
    by (auto simp: GetOrCreateID_block_def split: prod.splits)
  have "ssa_step s t'" using t(1) GetOrCreateID_block_step [OF i] ssa_step_trans by (metis ssa_step_def)
  moreover have "set (b # bs) \<subseteq> dom (map_of (item_ids (block_ids t')))"
    using t(2) Manager_GetOrCreateID_eq(5) [OF m] by (auto simp: t')
  ultimately show ?case by blast
qed

lemma name_module:
  "\<exists>t. ssa_step s t \<and> a \<in> dom (map_of (item_ids (module_ids t))) \<and> block_ids t = block_ids s"
proof -
  obtain i t' where i: "GetOrCreateID_module a s = (i, t')" by (cases "GetOrCreateID_module a s")
  then obtain m where m: "Manager_GetOrCreateID a (module_ids s) = (i, m)" and t': "t' = s\<lparr>module_ids := m\<rparr>"
    by (auto simp: GetOrCreateID_module_def split: prod.splits)
  have "ssa_step s t'" using GetOrCreateID_module_step [OF i] by (simp add: ssa_step_def)
  moreover have "a \<in> dom (map_of (item_ids (module_ids t')))" "block_ids t' = block_ids s"
    using Manager_GetOrCreateID_eq(5) [OF m] by (auto simp: t')
  ultimately show ?thesis by blast
qed

lemma printed_tree:
  assumes m: "printable_module lg atod (snd m)"
  shows "\<exists>t. IRPrinter_ToString heap lg m = Inr (module_text (tree_of_module lg t m)) \<and> all_named t m"
proof -
  let ?p = "\<lparr>out = [], indent = 0, ssa = new_ssa_names\<rparr>"
  have "known_storages heap (inputs (snd y))" if "y \<in> set (module_operations (snd m))" for y
  proof -
    from that obtain b where "b \<in> set (blocks (snd m))" "y \<in> set (operations (snd b))" by (auto simp: module_operations_def)
    from printable_operation_in [OF m this] show ?thesis
      by (auto simp: printable_operation_def known_storages_def list_all_iff printable_input_def split: "ir_value.splits")
  qed
  then have "prints (Visit_module (ir_printer heap lg) m) (named_values (module_operations (snd m))) (render_module heap lg m)"
    by (intro prints_module) blast
  then obtain p' where p': "Visit_module (ir_printer heap lg) m ?p = Inr ((), p')" "ssa_step (ssa ?p) (ssa p')"
    "named_values (module_operations (snd m)) \<subseteq> named (ssa p')"
    "\<forall>t. ssa_le (ssa p') t \<longrightarrow> out p' = out ?p @ render_module heap lg m (indent ?p) t"
    by (rule printsD [where p = ?p])
  obtain t1 where t1: "ssa_step (ssa p') t1" "set (map fst (blocks (snd m))) \<subseteq> dom (map_of (item_ids (block_ids t1)))"
    using name_blocks [of "ssa p'" "map fst (blocks (snd m))"] by blast
  obtain t where t: "ssa_step t1 t" "fst m \<in> dom (map_of (item_ids (module_ids t)))" "block_ids t = block_ids t1"
    using name_module [of t1 "fst m"] by blast
  have steps: "ssa_step (ssa p') t" "ssa_step new_ssa_names t"
    using ssa_step_trans [OF t1(1) t(1)] ssa_step_trans p'(2) by auto
  have "ssa_ok new_ssa_names" by (simp add: ssa_ok_def manager_ok_def new_ssa_names_def new_id_manager_def)
  with steps(2) have "numbered ''b'' (block_ids t)" "numbered ''m'' (module_ids t)" "numbered ''%'' (value_ids t)"
    by (simp_all add: ssa_step_def ssa_ok_def ssa_le_def numbered_def new_ssa_names_def new_id_manager_def)
  then have "all_named t m"
    using t t1(2) p'(3) ssa_step_named [OF steps(1)] by (auto simp: all_named_def)
  moreover have "IRPrinter_ToString heap lg m = Inr (render_module heap lg m 0 t)"
    using p'(1) p'(4) steps(1) by (simp add: IRPrinter_ToString_def IRPrinter_ToString_names_def ssa_step_def)
  ultimately show ?thesis using render_module_text [OF m] by auto
qed

text \<open>C5: A module is printed as the layout of a parse tree whose tokens the grammar has, and whatever
  parser reads this layout as that tree, the visitor gives the module back from it: the
  blocks and operations in their order at new addresses, with their operators, their
  attributes (by name) and their inputs, also where operations use each other's results, the references
  renamed by one injection, and the context knows the operators. It holds for the modules whose values, names and
  literals the grammar can express.\<close>

theorem print_parse_roundtrip:
  assumes "printable_module lg atod (snd m)" and "is_order ord"
  shows "\<exists>t A. IRPrinter_ToString heap lg m = Inr (module_text t) \<and> lexable_module t \<and>
    inj_on A (set (module_ptrs (snd m))) \<and>
    (\<forall>antlr. antlr (module_text t) = Some t \<longrightarrow> (\<exists>st. ParseProgram antlr ord atod this addr (module_text t) = Inr st \<and>
       parse_module st = \<lparr>blocks = map (renamed_block by_name A this) (blocks (snd m)), named_storage_map = []\<rparr> \<and>
       (\<forall>y \<in> set (module_operations (snd m)). GetOperator (op_name (op_of (snd y))) (parse_context st) = Some (op_of (snd y)))))"
proof -
  from printed_tree [OF assms(1), of heap] obtain t where
    printed: "IRPrinter_ToString heap lg m = Inr (module_text (tree_of_module lg t m))" and t: "all_named t m" by blast
  let ?t = "tree_of_module lg t m" and ?A = "address_of addr (module_ptrs (snd m))"
  have inj: "inj_on (value_name t) (named_values (module_operations (snd m)))"
    using t manager_name_inj [of "value_ids t"] by (auto simp: all_named_def numbered_def named_def intro: inj_on_subset)
  have A: "consecutive ?A addr (module_ptrs (snd m))"
    using address_of_consecutive [of "[]" "module_ptrs (snd m)" addr] assms(1) by (simp add: printable_module_def)
  have ok: "blocks_ok atod (tree_blocks ?t)"
    using tree_ok [OF assms(1) inj] by (simp add: blocks_ok_def module_tree_ok_def)
  from visitModule_eq [OF assms(2), where atod = atod and this = this and t = ?t and a = addr] ok obtain st where
    st: "visitModule ord atod this ?t (new_ir_visitor addr) = Inr st" and vis: "visited atod this addr (tree_blocks ?t) st"
    by (auto split: sum.splits)
  have "GetOperator (op_name (op_of (snd y))) (parse_context st) = Some (op_of (snd y))"
    if "y \<in> set (module_operations (snd m))" for y
  proof -
    have "tree_of_operation lg t y \<in> set (all_operations (tree_blocks ?t))"
      using that by (auto simp: all_operations_def tree_of_module_def tree_of_block_def module_operations_def)
    with vis have "GetOperator (tree_operator_name (tree_of_operation lg t y)) (parse_context st) = Some (tree_op (tree_of_operation lg t y))"
      unfolding visited_def operators_of_def by blast
    then show ?thesis by simp
  qed
  then have "\<exists>st. ParseProgram antlr ord atod this addr (module_text ?t) = Inr st \<and>
      parse_module st = \<lparr>blocks = map (renamed_block by_name ?A this) (blocks (snd m)), named_storage_map = []\<rparr> \<and>
      (\<forall>y \<in> set (module_operations (snd m)). GetOperator (op_name (op_of (snd y))) (parse_context st) = Some (op_of (snd y)))"
    if "antlr (module_text ?t) = Some ?t" for antlr
    using st vis parsed_blocks_of [OF assms(1) inj A] that by (auto simp: ParseProgram_def visitIrProgram_def visited_def)
  moreover have "inj_on ?A (set (module_ptrs (snd m)))" by (rule address_of_inj)
  ultimately show ?thesis using printed lexable_tree [OF assms(1) t] by blast
qed

text \<open>Two operations in a cycle, with attributes of every kind.\<close>

definition loop_module :: ir_module where
  "loop_module = \<lparr>blocks = [(3, empty_block\<lparr>parent_module := Some 1, operations :=
     [(7, make_operation (Some 3) (make_operator ''core.plus'') [(''b'', Int64Attribute 42), (''a'', StringAttribute ''x'')]
            [OperationResult 9 0, Any]),
      (9, make_operation (Some 3) (make_operator ''core.id'') [(''f'', FloatAttribute 0)] [OperationResult 7 0])]\<rparr>)],
     named_storage_map = []\<rparr>"

lemma loop_module_printable: "printable_module (\<lambda>_. ''0'') (\<lambda>_. Some 0) loop_module"
  by code_simp

theorem print_parse_roundtrip_witness:
  "\<exists>t st ops. IRPrinter_ToString (\<lambda>_. None) (\<lambda>_. ''0'') (1, loop_module) = Inr (module_text t) \<and>
     ParseProgram (\<lambda>_. Some t) rev (\<lambda>_. Some 0) 5 100 (module_text t) = Inr st \<and>
     map (\<lambda>b. operations (snd b)) (blocks (parse_module st)) = [ops] \<and>
     map (\<lambda>y. attributes (snd y)) ops = [[(''a'', StringAttribute ''x''), (''b'', Int64Attribute 42)], [(''f'', FloatAttribute 0)]] \<and>
     map (\<lambda>y. inputs (snd y)) ops = [[OperationResult (fst (ops ! 1)) 0, Any], [OperationResult (fst (ops ! 0)) 0]]"
proof -
  obtain t A where t: "IRPrinter_ToString (\<lambda>_. None) (\<lambda>_. ''0'') (1, loop_module) = Inr (module_text t)"
    and st: "\<forall>antlr. antlr (module_text t) = Some t \<longrightarrow> (\<exists>st. ParseProgram antlr rev (\<lambda>_. Some 0) 5 100 (module_text t) = Inr st \<and>
       parse_module st = \<lparr>blocks = map (renamed_block by_name A 5) (blocks (snd (1, loop_module))), named_storage_map = []\<rparr> \<and>
       (\<forall>y \<in> set (module_operations (snd (1, loop_module))). GetOperator (op_name (op_of (snd y))) (parse_context st) = Some (op_of (snd y))))"
    using print_parse_roundtrip [where m = "(1, loop_module)" and ord = rev and lg = "\<lambda>_. ''0''" and atod = "\<lambda>_. Some 0"
        and heap = "\<lambda>_. None" and this = 5 and addr = 100] loop_module_printable by auto
  from st [rule_format, of "\<lambda>_. Some t"] obtain st where
    "ParseProgram (\<lambda>_. Some t) rev (\<lambda>_. Some 0) 5 100 (module_text t) = Inr st"
    "blocks (parse_module st) = map (renamed_block by_name A 5) (blocks loop_module)" by auto
  moreover have "in_name_order [(''b'', Int64Attribute 42), (''a'', StringAttribute ''x'')] = [(''a'', StringAttribute ''x''), (''b'', Int64Attribute 42)]"
    "in_name_order [(''f'', FloatAttribute 0)] = [(''f'', FloatAttribute 0)]" by code_simp+
  ultimately show ?thesis using t
    by (intro exI [of _ t] exI [of _ st] exI [of _ "operations (snd (renamed_block by_name A 5 (hd (blocks loop_module))))"])
      (simp add: loop_module_def renamed_block_def renamed_operations_def reread_def make_operation_def set_parent_def by_name_def)
qed

end
