(* ===== verification/Datalog_Program.thy ===== *)
theory Datalog_Program imports
  Prelude
begin

text \<open>
  Datalog programs, \<^verbatim>\<open>src/ir/datalog/program.h\<close>, with the meaning of their rules over
  Herbrand interpretations: what the lowering of authorization logic is judged by. The
  classes' \<^verbatim>\<open>operator==\<close> compare all members, so they are HOL's equality.
\<close>

section \<open>Programs\<close>

datatype sign = kNegated | kPositive

record dl_predicate =
  pred_name :: string
  pred_args :: "string list"
  pred_sign :: sign

definition numeric_operators :: "string list" where
  "numeric_operators = [''<'', ''>'', ''='', ''!='', ''<='', ''>='']"

definition IsNumericOperator :: "dl_predicate \<Rightarrow> bool" where
  "IsNumericOperator p \<longleftrightarrow> pred_name p \<in> set numeric_operators"

datatype argument_kind = kNumber | kPrincipal | kCustom

record argument_type =
  argument_type_kind :: argument_kind
  argument_type_name :: string

definition MakePrincipalType :: argument_type where
  "MakePrincipalType = \<lparr>argument_type_kind = kPrincipal, argument_type_name = ''Principal''\<rparr>"

definition MakeNumberType :: argument_type where
  "MakeNumberType = \<lparr>argument_type_kind = kNumber, argument_type_name = ''Number''\<rparr>"

definition MakeCustomType :: "string \<Rightarrow> argument_type" where
  "MakeCustomType name = \<lparr>argument_type_kind = kCustom, argument_type_name = name\<rparr>"

record argument =
  argument_name :: string
  argument_type :: argument_type

record relation_declaration =
  relation_name :: string
  is_attribute :: bool
  relation_arguments :: "argument list"

record rule =
  rule_lhs :: dl_predicate
  rule_rhs :: "dl_predicate list"

definition make_fact :: "dl_predicate \<Rightarrow> rule" where
  "make_fact lhs = \<lparr>rule_lhs = lhs, rule_rhs = []\<rparr>"

record datalog_program =
  dl_declarations :: "relation_declaration list"
  dl_rules :: "rule list"
  dl_outputs :: "string list"

section \<open>Rules as conditions on interpretations\<close>

text \<open>
  An interpretation is a set of ground atoms, a valuation gives every name of a rule a
  constant; \<open>const\<close> says which names are constants.
\<close>

type_synonym atom = "string \<times> string list"

definition valuation :: "(string \<Rightarrow> bool) \<Rightarrow> (string \<Rightarrow> string) \<Rightarrow> bool" where
  "valuation const s \<longleftrightarrow> (\<forall>c. const c \<longrightarrow> s c = c)"

definition ground :: "(string \<Rightarrow> string) \<Rightarrow> dl_predicate \<Rightarrow> atom" where
  "ground s p = (pred_name p, map s (pred_args p))"

text \<open>A predicate that is named like a numeric operator is a comparison of its two arguments, as the
  emitter writes it between them: it is not looked up in the interpretation. What the
  comparisons of two constants are is the argument \<open>cmp\<close>.\<close>

type_synonym comparisons = "string \<Rightarrow> string \<Rightarrow> string \<Rightarrow> bool"

definition compared :: "comparisons \<Rightarrow> (string \<Rightarrow> string) \<Rightarrow> dl_predicate \<Rightarrow> bool" where
  "compared cmp s p \<longleftrightarrow> (case pred_args p of [x, y] \<Rightarrow> cmp (pred_name p) (s x) (s y) | _ \<Rightarrow> False)"

definition holds :: "comparisons \<Rightarrow> atom set \<Rightarrow> (string \<Rightarrow> string) \<Rightarrow> dl_predicate \<Rightarrow> bool" where
  "holds cmp I s p \<longleftrightarrow> (if IsNumericOperator p then compared cmp s p else (ground s p \<in> I) = (pred_sign p = kPositive))"

definition rule_holds :: "(string \<Rightarrow> bool) \<Rightarrow> comparisons \<Rightarrow> atom set \<Rightarrow> rule \<Rightarrow> bool" where
  "rule_holds const cmp I r \<longleftrightarrow> (\<forall>s. valuation const s \<longrightarrow> (\<forall>p \<in> set (rule_rhs r). holds cmp I s p) \<longrightarrow> holds cmp I s (rule_lhs r))"

definition models :: "(string \<Rightarrow> bool) \<Rightarrow> comparisons \<Rightarrow> atom set \<Rightarrow> rule list \<Rightarrow> bool" where
  "models const cmp I rs \<longleftrightarrow> (\<forall>r \<in> set rs. rule_holds const cmp I r)"

lemma models_append [simp]: "models const cmp I (rs @ rs') \<longleftrightarrow> models const cmp I rs \<and> models const cmp I rs'"
  by (auto simp: models_def)

lemma models_Cons [simp]: "models const cmp I (r # rs) \<longleftrightarrow> rule_holds const cmp I r \<and> models const cmp I rs"
  by (simp add: models_def)

lemma models_Nil [simp]: "models const cmp I []"
  by (simp add: models_def)

text \<open>Names a rule does not mention can be given any constant.\<close>

lemma holds_cong: "(\<And>a. a \<in> set (pred_args p) \<Longrightarrow> s a = t a) \<Longrightarrow> holds cmp I s p = holds cmp I t p"
  by (auto simp: holds_def ground_def compared_def cong: map_cong split: list.split)

lemma valuation_upd: "valuation const s \<Longrightarrow> \<not> const x \<Longrightarrow> valuation const (s(x := c))"
  by (simp add: valuation_def)

end
