(* ===== verification/Auth_Ast.thy ===== *)
theory Auth_Ast imports
  Datalog_Program
begin

text \<open>
  The abstract syntax of authorization logic, \<^verbatim>\<open>src/ir/auth_logic/ast.h\<close>. The classes'
  \<^verbatim>\<open>operator==\<close> compare all members, so they are HOL's equality; a \<^verbatim>\<open>std::variant\<close> is a datatype.
  The first principal of a \<^verbatim>\<open>delegation_chain\<close> is the one next to the base fact.
\<close>

datatype principal = Principal (principal_name: string)

record auth_attribute =
  attr_principal :: principal
  attr_predicate :: dl_predicate

record can_act_as =
  left_principal :: principal
  right_principal :: principal

datatype base_fact =
    PredicateFact dl_predicate
  | AttributeFact auth_attribute
  | CanActAsFact can_act_as

record fact =
  delegation_chain :: "principal list"
  fact_base :: base_fact

record conditional_assertion =
  cond_lhs :: fact
  cond_rhs :: "base_fact list"

datatype assertion =
    FactAssertion fact
  | Conditional conditional_assertion

record says_assertion =
  says_principal :: principal
  says_assertions :: "assertion list"

record query =
  query_name :: string
  query_principal :: principal
  query_fact :: fact

record auth_program =
  relation_declarations :: "relation_declaration list"
  program_says :: "says_assertion list"
  program_queries :: "query list"

section \<open>Constants\<close>

text \<open>\<^verbatim>\<open>src/ir/auth_logic/is_name_constant.cc\<close>: \<open>simple_atoi\<close> says whether \<^verbatim>\<open>absl::SimpleAtoi\<close> reads
  the string as an \<^verbatim>\<open>int\<close>.\<close>

definition quote :: char where
  "quote = CHR 0x22"

definition IsNameConstant :: "(string \<Rightarrow> bool) \<Rightarrow> string \<Rightarrow> bool" where
  "IsNameConstant simple_atoi i =
     (if i \<noteq> [] \<and> hd i = quote \<and> last i = quote then True else simple_atoi i)"

end
