(* ===== verification/Auth_Parser.thy ===== *)
theory Auth_Parser imports
  Auth_Ast
begin

text \<open>
  Reading authorization logic: the tokens and the parse trees of \<^verbatim>\<open>src/policy/auth_logic/AuthLogic.g4\<close>
  and the construction of the syntax tree, \<^verbatim>\<open>src/ir/auth_logic/ast_construction.cc\<close>. The lexer is
  the one that the rules describe: the longest token, and of two rules that match as far
  the first. A tree is given by its productions, and its tokens are those of its leaves;
  two trees with the same tokens are equal, so a parser for the grammar has no choice.
\<close>

section \<open>Tokens\<close>

datatype auth_token =
    Keyword string
  | Punct string
  | VARIABLE string
  | STRING_LITERAL string
  | MULTILINE_STRING_LITERAL string
  | NUMLITERAL string

definition auth_keywords :: "string list" where
  "auth_keywords = [''query'', ''says'', ''canActAs'', ''canSay'', ''exportTo'', ''import'', ''BindPrivKey'', ''BindPubKey'',
     ''Number'', ''Principal'', ''attribute'']"

definition auth_puncts :: "string list" where
  "auth_puncts = [''.decl'', '':-'', ''!='', ''<='', ''>='', ''('', '')'', '','', ''.'', ''{'', ''}'', ''?'', '':'', ''!'',
     ''<'', ''>'', ''='']"

definition white :: "char \<Rightarrow> bool" where
  "white c \<longleftrightarrow> c \<in> {CHR '' '', CHR 13, CHR 9, CHR 10}"

definition variable_start :: "char \<Rightarrow> bool" where
  "variable_start c \<longleftrightarrow> is_letter c \<or> c = CHR ''_''"

definition variable_char :: "char \<Rightarrow> bool" where
  "variable_char c \<longleftrightarrow> is_letter c \<or> is_digit c \<or> c \<in> set ''_/.#:''"

definition string_start :: "char \<Rightarrow> bool" where
  "string_start c \<longleftrightarrow> is_letter c \<or> c \<in> set ''_%''"

definition string_char :: "char \<Rightarrow> bool" where
  "string_char c \<longleftrightarrow> is_letter c \<or> is_digit c \<or> c \<in> set ''@_/.#:-''"

definition multiline_start :: "char \<Rightarrow> bool" where
  "multiline_start c \<longleftrightarrow> is_letter c \<or> c = CHR 10 \<or> c \<in> set '' _+-''"

definition multiline_char :: "char \<Rightarrow> bool" where
  "multiline_char c \<longleftrightarrow> is_letter c \<or> is_digit c \<or> c = CHR 10 \<or> c \<in> set '' _/.#:+=-''"

text \<open>One step of the lexer: a token or skipped text, and what is left; \<^verbatim>\<open>None\<close> is an error.\<close>

type_synonym lex_step = "(auth_token option \<times> string) option"

definition punct_step :: "string \<Rightarrow> lex_step" where
  "punct_step s = (case find (\<lambda>p. take (length p) s = p) auth_puncts of
     None \<Rightarrow> None
   | Some p \<Rightarrow> Some (Some (Punct p), drop (length p) s))"

definition string_step :: "string \<Rightarrow> lex_step" where
  "string_step cs =
     (if take 2 cs = [quote, quote] then
        let body = takeWhile multiline_char (drop 2 cs); rest = dropWhile multiline_char (drop 2 cs)
        in if body \<noteq> [] \<and> multiline_start (hd body) \<and> take 3 rest = [quote, quote, quote]
           then Some (Some (MULTILINE_STRING_LITERAL ([quote, quote, quote] @ body @ [quote, quote, quote])), drop 3 rest)
           else None
      else if cs \<noteq> [] \<and> string_start (hd cs) then
        let rest = dropWhile string_char (tl cs)
        in if rest \<noteq> [] \<and> hd rest = quote
           then Some (Some (STRING_LITERAL ([quote, hd cs] @ takeWhile string_char (tl cs) @ [quote])), tl rest)
           else None
      else None)"

fun after_multi_comment :: "string \<Rightarrow> string option" where
  "after_multi_comment (c # d # cs) = (if c = CHR ''*'' \<and> d = CHR ''/'' then Some cs else after_multi_comment (d # cs))"
| "after_multi_comment _ = None"

definition after_single_comment :: "string \<Rightarrow> string option" where
  "after_single_comment cs =
     (let rest = dropWhile (\<lambda>c. c \<noteq> CHR 13 \<and> c \<noteq> CHR 10) cs;
          rest = (if rest \<noteq> [] \<and> hd rest = CHR 13 then tl rest else rest)
      in if rest \<noteq> [] \<and> hd rest = CHR 10 then Some (tl rest) else None)"

definition comment_step :: "string \<Rightarrow> lex_step" where
  "comment_step cs = map_option (Pair None)
     (if cs = [] then None
      else if hd cs = CHR ''/'' then after_single_comment (tl cs)
      else if hd cs = CHR ''*'' then after_multi_comment (tl cs)
      else None)"

definition lex_one :: "char \<Rightarrow> string \<Rightarrow> lex_step" where
  "lex_one c cs =
     (if white c then Some (None, dropWhile white cs)
      else if variable_start c then
        let w = c # takeWhile variable_char cs
        in Some (Some (if w \<in> set auth_keywords then Keyword w else VARIABLE w), dropWhile variable_char cs)
      else if is_digit c then Some (Some (NUMLITERAL (c # takeWhile is_digit cs)), dropWhile is_digit cs)
      else if c = quote then string_step cs
      else if c = CHR ''/'' then comment_step cs
      else punct_step (c # cs))"

lemma after_multi_comment_length: "after_multi_comment s = Some r \<Longrightarrow> length r < length s"
  by (induction s rule: after_multi_comment.induct) (auto split: if_splits)

lemma after_single_comment_length: "after_single_comment s = Some r \<Longrightarrow> length r \<le> length s"
  using length_dropWhile_le [of "\<lambda>c. c \<noteq> CHR 13 \<and> c \<noteq> CHR 10" s]
  by (auto simp: after_single_comment_def Let_def split: if_splits)

lemma auth_puncts_nonempty: "[] \<notin> set auth_puncts"
  by (simp add: auth_puncts_def)

lemma punct_step_length:
  assumes "punct_step (c # cs) = Some (t, r)"
  shows "length r \<le> length cs"
proof -
  from assms obtain p where p: "find (\<lambda>p. take (length p) (c # cs) = p) auth_puncts = Some p" "r = drop (length p) (c # cs)"
    by (auto simp: punct_step_def split: option.splits)
  then have "p \<in> set auth_puncts" by (auto simp: find_Some_iff)
  then have "p \<noteq> []" using auth_puncts_nonempty by blast
  with p(2) show ?thesis by (cases p) auto
qed

lemma string_step_length: "string_step cs = Some (t, r) \<Longrightarrow> length r \<le> length cs"
  using length_dropWhile_le [of multiline_char "drop 2 cs"] length_dropWhile_le [of string_char "tl cs"]
  by (auto simp: string_step_def Let_def split: if_splits)

lemma comment_step_length: "comment_step cs = Some (t, r) \<Longrightarrow> length r \<le> length cs"
  by (cases cs) (auto simp: comment_step_def split: if_splits dest: after_multi_comment_length after_single_comment_length)

lemma lex_one_length:
  assumes "lex_one c cs = Some (t, r)"
  shows "length r \<le> length cs"
  using assms length_dropWhile_le [of _ cs]
  by (auto simp: lex_one_def Let_def split: if_splits dest: punct_step_length string_step_length comment_step_length)

function auth_lex :: "string \<Rightarrow> auth_token list option" where
  "auth_lex [] = Some []"
| "auth_lex (c # cs) = (case lex_one c cs of
     None \<Rightarrow> None
   | Some (t, rest) \<Rightarrow> map_option (\<lambda>ts. case t of None \<Rightarrow> ts | Some t \<Rightarrow> t # ts) (auth_lex rest))"
  by pat_completeness auto
termination
  by (relation "measure length") (auto dest: lex_one_length)

section \<open>Parse trees\<close>

datatype pred_arg_tree = constant_arg string | multilineConstant string | variable_arg string | number_arg string

record predicate_tree =
  tree_neg :: bool
  tree_predicate_name :: string
  tree_pred_args :: "pred_arg_tree list"

datatype verbphrase_tree = predphrase predicate_tree | actsAsPhrase string

datatype flat_fact_tree = prinFact string verbphrase_tree | predFact predicate_tree

datatype binop_tree = ltbinop | grbinop | eqbinop | nebinop | leqbinop | geqbinop

datatype rvalue_tree = flatFactRvalue flat_fact_tree | binopRvalue pred_arg_tree binop_tree pred_arg_tree

datatype fact_tree = flatFactFact flat_fact_tree | canSayFact string fact_tree

datatype assertion_tree = factAssertion fact_tree | hornClauseAssertion fact_tree "rvalue_tree list"

datatype says_assertion_tree =
    saysSingle string assertion_tree "string option"
  | saysMulti string "assertion_tree list" "string option"

datatype key_bind_tree = bindpriv string string | bindpub string string

record query_tree =
  tree_query_name :: string
  tree_query_principal :: string
  tree_query_fact :: fact_tree

datatype auth_logic_type_tree = numberType | principalType | customType string

record relation_declaration_tree =
  tree_attribute :: bool
  tree_relation_name :: string
  tree_parameters :: "(string \<times> auth_logic_type_tree) list"

datatype statement_tree =
    saysAssertion says_assertion_tree
  | queryStatement query_tree
  | keyBind key_bind_tree
  | importAssertion string string
  | relationDeclaration relation_declaration_tree

text \<open>The grammar asks for at least one statement; here the empty program has a tree too, which
  only adds the empty text to those that are read.\<close>

type_synonym program_tree = "statement_tree list"

section \<open>Construction of the syntax tree\<close>

text \<open>\<^verbatim>\<open>absl::StrReplaceAll\<close> of line ends and of three quotes, from left to right.\<close>

fun SanitizeMultilineStringForPredicateArgument :: "string \<Rightarrow> string" where
  "SanitizeMultilineStringForPredicateArgument [] = []"
| "SanitizeMultilineStringForPredicateArgument (c # cs) =
     (if c = CHR 10 then SanitizeMultilineStringForPredicateArgument cs
      else if take 3 (c # cs) = [quote, quote, quote] then quote # SanitizeMultilineStringForPredicateArgument (drop 2 cs)
      else c # SanitizeMultilineStringForPredicateArgument cs)"

definition ConstructPrincipal :: "string \<Rightarrow> principal" where
  "ConstructPrincipal text_of_literal = Principal text_of_literal"

fun construct_pred_arg :: "pred_arg_tree \<Rightarrow> string" where
  "construct_pred_arg (multilineConstant s) = SanitizeMultilineStringForPredicateArgument s"
| "construct_pred_arg (constant_arg s) = s"
| "construct_pred_arg (variable_arg s) = s"
| "construct_pred_arg (number_arg s) = s"

definition ConstructPredicate :: "predicate_tree \<Rightarrow> dl_predicate" where
  "ConstructPredicate t = \<lparr>pred_name = tree_predicate_name t, pred_args = map construct_pred_arg (tree_pred_args t),
     pred_sign = (if tree_neg t then kNegated else kPositive)\<rparr>"

fun ConstructVerbphrase :: "principal \<Rightarrow> verbphrase_tree \<Rightarrow> base_fact" where
  "ConstructVerbphrase left (predphrase p) = AttributeFact \<lparr>attr_principal = left, attr_predicate = ConstructPredicate p\<rparr>"
| "ConstructVerbphrase left (actsAsPhrase right) = CanActAsFact \<lparr>left_principal = left, right_principal = ConstructPrincipal right\<rparr>"

fun ConstructFlatFact :: "flat_fact_tree \<Rightarrow> base_fact" where
  "ConstructFlatFact (prinFact p v) = ConstructVerbphrase (ConstructPrincipal p) v"
| "ConstructFlatFact (predFact p) = PredicateFact (ConstructPredicate p)"

fun binop_text :: "binop_tree \<Rightarrow> string" where
  "binop_text ltbinop = ''<''"
| "binop_text grbinop = ''>''"
| "binop_text eqbinop = ''=''"
| "binop_text nebinop = ''!=''"
| "binop_text leqbinop = ''<=''"
| "binop_text geqbinop = ''>=''"

fun ConstructRvalue :: "rvalue_tree \<Rightarrow> base_fact" where
  "ConstructRvalue (flatFactRvalue f) = ConstructFlatFact f"
| "ConstructRvalue (binopRvalue a binop b) = PredicateFact \<lparr>pred_name = binop_text binop,
     pred_args = map construct_pred_arg [a, b], pred_sign = kPositive\<rparr>"

fun ConstructFact :: "principal list \<Rightarrow> fact_tree \<Rightarrow> fact" where
  "ConstructFact chain (flatFactFact f) = \<lparr>delegation_chain = chain, fact_base = ConstructFlatFact f\<rparr>"
| "ConstructFact chain (canSayFact p f) = ConstructFact (ConstructPrincipal p # chain) f"

fun ConstructArgumentType :: "auth_logic_type_tree \<Rightarrow> argument_type" where
  "ConstructArgumentType numberType = MakeNumberType"
| "ConstructArgumentType principalType = MakePrincipalType"
| "ConstructArgumentType (customType n) = MakeCustomType n"

definition ConstructRelationDeclaration :: "relation_declaration_tree \<Rightarrow> relation_declaration" where
  "ConstructRelationDeclaration t = \<lparr>relation_name = tree_relation_name t, is_attribute = tree_attribute t,
     relation_arguments = map (\<lambda>(n, ty). \<lparr>argument_name = n, argument_type = ConstructArgumentType ty\<rparr>) (tree_parameters t)\<rparr>"

definition ConstructQuery :: "query_tree \<Rightarrow> query" where
  "ConstructQuery t = \<lparr>query_name = tree_query_name t, query_principal = ConstructPrincipal (tree_query_principal t),
     query_fact = ConstructFact [] (tree_query_fact t)\<rparr>"

fun ConstructAssertion :: "assertion_tree \<Rightarrow> assertion" where
  "ConstructAssertion (factAssertion f) = FactAssertion (ConstructFact [] f)"
| "ConstructAssertion (hornClauseAssertion f rs) =
     Conditional \<lparr>cond_lhs = ConstructFact [] f, cond_rhs = map ConstructRvalue rs\<rparr>"

fun ConstructSaysAssertion :: "says_assertion_tree \<Rightarrow> says_assertion" where
  "ConstructSaysAssertion (saysSingle p a _) = \<lparr>says_principal = ConstructPrincipal p, says_assertions = [ConstructAssertion a]\<rparr>"
| "ConstructSaysAssertion (saysMulti p as _) =
     \<lparr>says_principal = ConstructPrincipal p, says_assertions = map ConstructAssertion as\<rparr>"

definition ConstructProgram :: "program_tree \<Rightarrow> auth_program" where
  "ConstructProgram t = \<lparr>
     relation_declarations = map ConstructRelationDeclaration (List.map_filter (\<lambda>s. case s of relationDeclaration d \<Rightarrow> Some d | _ \<Rightarrow> None) t),
     program_says = map ConstructSaysAssertion (List.map_filter (\<lambda>s. case s of saysAssertion a \<Rightarrow> Some a | _ \<Rightarrow> None) t),
     program_queries = map ConstructQuery (List.map_filter (\<lambda>s. case s of queryStatement q \<Rightarrow> Some q | _ \<Rightarrow> None) t)\<rparr>"

text \<open>\<open>antlr\<close> is the generated parser, on a text of the grammar. On any other text it reports the errors, repairs
  the tree as it can and the construction goes on, or aborts where a child is missing; such
  trees are not modelled.\<close>

definition auth_ParseProgram :: "(string \<Rightarrow> program_tree option) \<Rightarrow> string \<Rightarrow> auth_program result" where
  "auth_ParseProgram antlr prog_text = rbind (check_some (antlr prog_text) ''parser.program()'') (\<lambda>t. Inr (ConstructProgram t))"

section \<open>The grammar\<close>

text \<open>The tokens of a tree, by the productions.\<close>

fun comma_list :: "('a \<Rightarrow> auth_token list) \<Rightarrow> 'a list \<Rightarrow> auth_token list" where
  "comma_list f [] = []"
| "comma_list f [x] = f x"
| "comma_list f (x # y # xs) = f x @ Punct '','' # comma_list f (y # xs)"

fun arg_tokens :: "pred_arg_tree \<Rightarrow> auth_token list" where
  "arg_tokens (constant_arg s) = [STRING_LITERAL s]"
| "arg_tokens (multilineConstant s) = [MULTILINE_STRING_LITERAL s]"
| "arg_tokens (variable_arg s) = [VARIABLE s]"
| "arg_tokens (number_arg s) = [NUMLITERAL s]"

definition predicate_tokens :: "predicate_tree \<Rightarrow> auth_token list" where
  "predicate_tokens t = (if tree_neg t then [Punct ''!''] else []) @ [VARIABLE (tree_predicate_name t), Punct ''(''] @
     comma_list arg_tokens (tree_pred_args t) @ [Punct '')'']"

fun verbphrase_tokens :: "verbphrase_tree \<Rightarrow> auth_token list" where
  "verbphrase_tokens (predphrase p) = predicate_tokens p"
| "verbphrase_tokens (actsAsPhrase p) = [Keyword ''canActAs'', STRING_LITERAL p]"

fun flat_fact_tokens :: "flat_fact_tree \<Rightarrow> auth_token list" where
  "flat_fact_tokens (prinFact p v) = STRING_LITERAL p # verbphrase_tokens v"
| "flat_fact_tokens (predFact p) = predicate_tokens p"

fun rvalue_tokens :: "rvalue_tree \<Rightarrow> auth_token list" where
  "rvalue_tokens (flatFactRvalue f) = flat_fact_tokens f"
| "rvalue_tokens (binopRvalue a binop b) = arg_tokens a @ Punct (binop_text binop) # arg_tokens b"

fun fact_tokens :: "fact_tree \<Rightarrow> auth_token list" where
  "fact_tokens (flatFactFact f) = flat_fact_tokens f"
| "fact_tokens (canSayFact p f) = STRING_LITERAL p # Keyword ''canSay'' # fact_tokens f"

fun assertion_tokens :: "assertion_tree \<Rightarrow> auth_token list" where
  "assertion_tokens (factAssertion f) = fact_tokens f @ [Punct ''.'']"
| "assertion_tokens (hornClauseAssertion f rs) = fact_tokens f @ Punct '':-'' # comma_list rvalue_tokens rs @ [Punct ''.'']"

definition export_tokens :: "string option \<Rightarrow> auth_token list" where
  "export_tokens e = (case e of None \<Rightarrow> [] | Some v \<Rightarrow> [Keyword ''exportTo'', VARIABLE v])"

fun says_tokens :: "says_assertion_tree \<Rightarrow> auth_token list" where
  "says_tokens (saysSingle p a e) = STRING_LITERAL p # Keyword ''says'' # assertion_tokens a @ export_tokens e"
| "says_tokens (saysMulti p as e) = STRING_LITERAL p # Keyword ''says'' # Punct ''{'' #
     concat (map assertion_tokens as) @ Punct ''}'' # export_tokens e"

fun type_tokens :: "auth_logic_type_tree \<Rightarrow> auth_token list" where
  "type_tokens numberType = [Keyword ''Number'']"
| "type_tokens principalType = [Keyword ''Principal'']"
| "type_tokens (customType v) = [VARIABLE v]"

definition parameter_tokens :: "string \<times> auth_logic_type_tree \<Rightarrow> auth_token list" where
  "parameter_tokens = (\<lambda>(n, ty). VARIABLE n # Punct '':'' # type_tokens ty)"

fun statement_tokens :: "statement_tree \<Rightarrow> auth_token list" where
  "statement_tokens (saysAssertion a) = says_tokens a"
| "statement_tokens (queryStatement q) = [VARIABLE (tree_query_name q), Punct ''='', Keyword ''query'',
     STRING_LITERAL (tree_query_principal q), Keyword ''says''] @ fact_tokens (tree_query_fact q) @ [Punct ''?'']"
| "statement_tokens (keyBind (bindpriv p v)) = [Keyword ''BindPrivKey'', STRING_LITERAL p, VARIABLE v]"
| "statement_tokens (keyBind (bindpub p v)) = [Keyword ''BindPubKey'', STRING_LITERAL p, VARIABLE v]"
| "statement_tokens (importAssertion p v) = [Keyword ''import'', STRING_LITERAL p, Keyword ''says'', VARIABLE v]"
| "statement_tokens (relationDeclaration d) = Punct ''.decl'' # (if tree_attribute d then [Keyword ''attribute''] else []) @
     [VARIABLE (tree_relation_name d), Punct ''(''] @ comma_list parameter_tokens (tree_parameters d) @ [Punct '')'']"

definition program_tokens :: "program_tree \<Rightarrow> auth_token list" where
  "program_tokens t = concat (map statement_tokens t)"

section \<open>The grammar is unambiguous\<close>

definition follows :: "'a set \<Rightarrow> 'a list \<Rightarrow> bool" where
  "follows F r \<longleftrightarrow> r = [] \<or> hd r \<notin> F"

lemma follows_simps [simp]:
  "follows F []"
  "follows F (x # xs) \<longleftrightarrow> x \<notin> F"
  "follows {} r"
  by (simp_all add: follows_def)

text \<open>Trees whose tokens can be told from what comes after them, unless that begins with a token of \<open>bad\<close>.\<close>

definition comma_rest :: "('a \<Rightarrow> auth_token list) \<Rightarrow> 'a list \<Rightarrow> auth_token list" where
  "comma_rest f xs = (if xs = [] then [] else Punct '','' # comma_list f xs)"

lemma comma_list_Cons: "comma_list f (x # xs) = f x @ comma_rest f xs"
  by (cases xs) (simp_all add: comma_rest_def)

locale unambiguous =
  fixes tokens :: "'a \<Rightarrow> auth_token list" and first :: "auth_token set" and bad :: "auth_token set"
  assumes starts: "\<exists>t ts. tokens x = t # ts \<and> t \<in> first"
    and prefix_free: "tokens x @ r = tokens y @ s \<Longrightarrow> follows bad r \<Longrightarrow> follows bad s \<Longrightarrow> x = y \<and> r = s"
begin

lemma many_unambiguous:
  assumes "concat (map tokens xs) @ r = concat (map tokens ys) @ s" and "first \<inter> bad = {}"
    and "follows (first \<union> bad) r" and "follows (first \<union> bad) s"
  shows "xs = ys \<and> r = s"
  using assms(1)
proof (induction xs arbitrary: ys)
  case Nil
  show ?case
  proof (cases ys)
    case (Cons y ys')
    with Nil starts [of y] assms(3) show ?thesis by auto
  qed (use Nil in simp)
next
  case (Cons x xs)
  have ok: "follows bad (concat (map tokens zs) @ t)" if "follows (first \<union> bad) t" for zs t
    using that starts [of "hd zs"] assms(2) by (cases zs) (auto simp: follows_def)
  show ?case
  proof (cases ys)
    case Nil
    with Cons.prems starts [of x] assms(4) show ?thesis by auto
  next
    case (Cons y ys')
    with Cons.prems have "tokens x @ (concat (map tokens xs) @ r) = tokens y @ (concat (map tokens ys') @ s)" by simp
    from prefix_free [OF this ok [OF assms(3)] ok [OF assms(4)]] Cons.IH [of ys'] Cons show ?thesis by simp
  qed
qed

lemma commas_unambiguous:
  assumes "comma_list tokens xs @ r = comma_list tokens ys @ s" and "Punct '','' \<notin> bad"
    and r: "follows (insert (Punct '','') (first \<union> bad)) r" and s: "follows (insert (Punct '','') (first \<union> bad)) s"
  shows "xs = ys \<and> r = s"
  using assms(1)
proof (induction xs arbitrary: ys)
  case Nil
  show ?case
  proof (cases ys)
    case (Cons y ys')
    with Nil starts [of y] r show ?thesis by (auto simp: comma_list_Cons)
  qed (use Nil in simp)
next
  case (Cons x xs)
  have ok: "follows bad (comma_rest tokens zs @ t)" if "follows (insert (Punct '','') (first \<union> bad)) t" for zs t
    using that assms(2) by (auto simp: follows_def comma_rest_def)
  show ?case
  proof (cases ys)
    case Nil
    with Cons.prems starts [of x] s show ?thesis by (auto simp: comma_list_Cons)
  next
    case (Cons y ys')
    with Cons.prems have eq: "tokens x @ (comma_rest tokens xs @ r) = tokens y @ (comma_rest tokens ys' @ s)"
      by (simp add: comma_list_Cons)
    from prefix_free [OF this ok [OF r] ok [OF s]] have "x = y" "comma_rest tokens xs @ r = comma_rest tokens ys' @ s" by simp_all
    moreover from this(2) have "xs = ys' \<and> r = s"
      using Cons.IH [of ys'] r s by (auto simp: comma_rest_def split: if_splits)
    ultimately show ?thesis using Cons by simp
  qed
qed

end

text \<open>Each category of the grammar.\<close>

definition arg_first :: "auth_token set" where
  "arg_first = range STRING_LITERAL \<union> range MULTILINE_STRING_LITERAL \<union> range VARIABLE \<union> range NUMLITERAL"

definition fact_first :: "auth_token set" where
  "fact_first = insert (Punct ''!'') (range STRING_LITERAL \<union> range VARIABLE)"

interpretation args: unambiguous arg_tokens arg_first "{}"
proof
  show "\<exists>t ts. arg_tokens x = t # ts \<and> t \<in> arg_first" for x by (cases x) (auto simp: arg_first_def)
  show "x = y \<and> r = s" if "arg_tokens x @ r = arg_tokens y @ s" for x y r s using that by (cases x; cases y) auto
qed

lemma predicate_prefix_free:
  assumes "predicate_tokens x @ r = predicate_tokens y @ s"
  shows "x = y \<and> r = s"
proof -
  have neg: "tree_neg x = tree_neg y" using assms by (auto simp: predicate_tokens_def split: if_splits)
  with assms have "tree_predicate_name x = tree_predicate_name y"
    "comma_list arg_tokens (tree_pred_args x) @ Punct '')'' # r = comma_list arg_tokens (tree_pred_args y) @ Punct '')'' # s"
    by (auto simp: predicate_tokens_def split: if_splits)
  moreover have "Punct p \<notin> arg_first" for p by (auto simp: arg_first_def)
  ultimately have "tree_pred_args x = tree_pred_args y \<and> r = s"
    using args.commas_unambiguous [of "tree_pred_args x" "Punct '')'' # r" "tree_pred_args y" "Punct '')'' # s"] by simp
  with neg \<open>tree_predicate_name x = tree_predicate_name y\<close> show ?thesis by (auto intro: predicate_tree.equality)
qed

interpretation predicates: unambiguous predicate_tokens "insert (Punct ''!'') (range VARIABLE)" "{}"
proof
  show "\<exists>t ts. predicate_tokens x = t # ts \<and> t \<in> insert (Punct ''!'') (range VARIABLE)" for x
    by (simp add: predicate_tokens_def)
qed (rule predicate_prefix_free)

lemma predicate_tokens_head [simp]:
  "predicate_tokens p @ r \<noteq> Keyword k # ts" "Keyword k # ts \<noteq> predicate_tokens p @ r"
  "predicate_tokens p @ r \<noteq> STRING_LITERAL k # ts" "STRING_LITERAL k # ts \<noteq> predicate_tokens p @ r"
  by (auto simp: predicate_tokens_def)

lemma verbphrase_prefix_free:
  assumes "verbphrase_tokens x @ r = verbphrase_tokens y @ s"
  shows "x = y \<and> r = s"
  using assms by (cases x; cases y) (auto dest: predicate_prefix_free)

lemma flat_fact_prefix_free:
  assumes "flat_fact_tokens x @ r = flat_fact_tokens y @ s"
  shows "x = y \<and> r = s"
  using assms by (cases x; cases y) (auto dest: predicate_prefix_free verbphrase_prefix_free)

lemma flat_fact_starts: "\<exists>t ts. flat_fact_tokens f = t # ts \<and> t \<in> fact_first"
  by (cases f) (auto simp: predicate_tokens_def fact_first_def)

text \<open>A comparison begins with an argument and an operator, a fact never does.\<close>

lemma binop_text_inject [simp]: "binop_text a = binop_text b \<longleftrightarrow> a = b"
  by (cases a; cases b) simp_all

lemma flat_fact_not_comparison: "flat_fact_tokens f @ r \<noteq> arg_tokens a @ Punct (binop_text b) # s"
proof
  assume eq: "flat_fact_tokens f @ r = arg_tokens a @ Punct (binop_text b) # s"
  have "binop_text b \<noteq> ''!''" "binop_text b \<noteq> ''(''" by (cases b; simp)+
  with eq show False
  proof (cases f)
    case (prinFact p v)
    then show ?thesis using eq \<open>binop_text b \<noteq> ''!''\<close> by (cases a; cases v) (auto simp: predicate_tokens_def split: if_splits)
  qed (cases a; auto simp: predicate_tokens_def split: if_splits)
qed

interpretation rvalues: unambiguous rvalue_tokens "fact_first \<union> arg_first" "{}"
proof
  show "\<exists>t ts. rvalue_tokens x = t # ts \<and> t \<in> fact_first \<union> arg_first" for x
  proof (cases x)
    case (flatFactRvalue f)
    with flat_fact_starts [of f] show ?thesis by auto
  next
    case (binopRvalue a b c)
    with args.starts [of a] show ?thesis by auto
  qed
  show "x = y \<and> r = s" if "rvalue_tokens x @ r = rvalue_tokens y @ s" for x y r s
  proof (cases x; cases y)
    fix a b c a' b' c'
    assume "x = binopRvalue a b c" "y = binopRvalue a' b' c'"
    moreover from this that have "arg_tokens a @ Punct (binop_text b) # arg_tokens c @ r = arg_tokens a' @ Punct (binop_text b') # arg_tokens c' @ s"
      by simp
    from args.prefix_free [OF this] have "a = a'" "b = b'" "arg_tokens c @ r = arg_tokens c' @ s" by simp_all
    ultimately show ?thesis using args.prefix_free [of c r c' s] by simp
  next
    fix f a b c
    assume xy: "x = flatFactRvalue f" "y = binopRvalue a b c"
    with that have "flat_fact_tokens f @ r = arg_tokens a @ Punct (binop_text b) # (arg_tokens c @ s)" by simp
    with flat_fact_not_comparison show ?thesis by blast
  next
    fix f a b c
    assume xy: "x = binopRvalue a b c" "y = flatFactRvalue f"
    with that [symmetric] have "flat_fact_tokens f @ s = arg_tokens a @ Punct (binop_text b) # (arg_tokens c @ r)" by simp
    with flat_fact_not_comparison show ?thesis by blast
  next
    fix f g
    assume "x = flatFactRvalue f" "y = flatFactRvalue g"
    with that flat_fact_prefix_free [of f r g s] show ?thesis by simp
  qed
qed

lemma fact_starts: "\<exists>t ts. fact_tokens f = t # ts \<and> t \<in> fact_first"
  using flat_fact_starts by (cases f) (auto simp: fact_first_def)

lemma can_say_not_flat [simp]:
  "flat_fact_tokens f @ r \<noteq> STRING_LITERAL p # Keyword ''canSay'' # ts"
  "STRING_LITERAL p # Keyword ''canSay'' # ts \<noteq> flat_fact_tokens f @ r"
proof -
  show *: "flat_fact_tokens f @ r \<noteq> STRING_LITERAL p # Keyword ''canSay'' # ts"
  proof (cases f)
    case (prinFact q v)
    then show ?thesis by (cases v) auto
  qed simp
  show "STRING_LITERAL p # Keyword ''canSay'' # ts \<noteq> flat_fact_tokens f @ r" using * by metis
qed

lemma fact_prefix_free: "fact_tokens x @ r = fact_tokens y @ s \<Longrightarrow> x = y \<and> r = s"
proof (induction x arbitrary: y)
  case (flatFactFact f)
  then show ?case by (cases y) (auto dest: flat_fact_prefix_free)
next
  case (canSayFact p x)
  then show ?case by (cases y) auto
qed

interpretation assertions: unambiguous assertion_tokens fact_first "{}"
proof
  show "\<exists>t ts. assertion_tokens x = t # ts \<and> t \<in> fact_first" for x
    using fact_starts by (cases x) (metis append_Cons assertion_tokens.simps)+
  show "x = y \<and> r = s" if "assertion_tokens x @ r = assertion_tokens y @ s" for x y r s
  proof -
    have dot: "Punct ''.'' \<notin> fact_first" "Punct ''.'' \<notin> arg_first" by (auto simp: fact_first_def arg_first_def)
    show ?thesis
    proof (cases x)
      case (factAssertion f)
      with that show ?thesis by (cases y) (auto dest: fact_prefix_free)
    next
      case (hornClauseAssertion f rs)
      with that obtain g qs where y: "y = hornClauseAssertion g qs" by (cases y) (auto dest: fact_prefix_free)
      with that hornClauseAssertion have "fact_tokens f @ (Punct '':-'' # comma_list rvalue_tokens rs @ Punct ''.'' # r) =
          fact_tokens g @ (Punct '':-'' # comma_list rvalue_tokens qs @ Punct ''.'' # s)" by simp
      from fact_prefix_free [OF this] rvalues.commas_unambiguous [of rs "Punct ''.'' # r" qs "Punct ''.'' # s"] dot y hornClauseAssertion
      show ?thesis by simp
    qed
  qed
qed

text \<open>The part after \<^verbatim>\<open>says\<close> may be followed by anything but an export.\<close>

definition statement_first :: "auth_token set" where
  "statement_first = range STRING_LITERAL \<union> range VARIABLE \<union>
     {Keyword ''BindPrivKey'', Keyword ''BindPubKey'', Keyword ''import'', Punct ''.decl''}"

lemma export_prefix_free:
  assumes "export_tokens x @ r = export_tokens y @ s" and "follows {Keyword ''exportTo''} r" and "follows {Keyword ''exportTo''} s"
  shows "x = y \<and> r = s"
  using assms by (cases x; cases y) (auto simp: export_tokens_def)

lemma says_prefix_free:
  assumes "says_tokens x @ r = says_tokens y @ s" and "follows {Keyword ''exportTo''} r" and "follows {Keyword ''exportTo''} s"
  shows "x = y \<and> r = s"
proof -
  have brace: "Punct ''{'' # ts \<noteq> assertion_tokens a @ ts'" for a ts ts'
    using assertions.starts [of a] by (auto simp: fact_first_def)
  have close: "Punct ''}'' \<notin> fact_first" by (auto simp: fact_first_def)
  show ?thesis
  proof (cases x; cases y)
    fix p a e q b f
    assume "x = saysSingle p a e" "y = saysSingle q b f"
    with assms assertions.prefix_free [of a "export_tokens e @ r" b "export_tokens f @ s"] show ?thesis
      by (auto dest: export_prefix_free)
  next
    fix p as e q bs f
    assume "x = saysMulti p as e" "y = saysMulti q bs f"
    with assms close assertions.many_unambiguous [of as "Punct ''}'' # export_tokens e @ r" bs "Punct ''}'' # export_tokens f @ s"]
    show ?thesis by (auto dest: export_prefix_free)
  qed (use assms brace in \<open>auto dest: sym\<close>)
qed

interpretation parameters: unambiguous parameter_tokens "range VARIABLE" "{}"
proof
  show "\<exists>t ts. parameter_tokens x = t # ts \<and> t \<in> range VARIABLE" for x by (auto simp: parameter_tokens_def split: prod.split)
  show "x = y \<and> r = s" if "parameter_tokens x @ r = parameter_tokens y @ s" for x y r s
  proof -
    obtain n ty m ty' where "x = (n, ty)" "y = (m, ty')" by (cases x; cases y)
    with that show ?thesis by (cases ty; cases ty') (auto simp: parameter_tokens_def)
  qed
qed

lemma declaration_prefix_free:
  assumes "statement_tokens (relationDeclaration x) @ r = statement_tokens (relationDeclaration y) @ s"
  shows "x = y \<and> r = s"
proof -
  have attr: "tree_attribute x = tree_attribute y" using assms by (auto split: if_splits)
  with assms have names: "tree_relation_name x = tree_relation_name y" by (auto split: if_splits)
  from assms attr have "comma_list parameter_tokens (tree_parameters x) @ Punct '')'' # r =
      comma_list parameter_tokens (tree_parameters y) @ Punct '')'' # s" by (auto split: if_splits)
  from parameters.commas_unambiguous [OF this] have "tree_parameters x = tree_parameters y \<and> r = s" by auto
  with attr names show ?thesis by (auto intro: relation_declaration_tree.equality)
qed

lemma query_prefix_free:
  assumes "statement_tokens (queryStatement x) @ r = statement_tokens (queryStatement y) @ s"
  shows "x = y \<and> r = s"
proof -
  from assms have "fact_tokens (tree_query_fact x) @ Punct ''?'' # r = fact_tokens (tree_query_fact y) @ Punct ''?'' # s" by simp
  from fact_prefix_free [OF this] assms show ?thesis by (auto intro: query_tree.equality)
qed

lemma says_tokens_head: "\<exists>p ts. says_tokens x = STRING_LITERAL p # Keyword ''says'' # ts"
  by (cases x) simp_all

text \<open>The first token of a statement tells its production.\<close>

fun production :: "statement_tree \<Rightarrow> nat" where
  "production (saysAssertion _) = 0"
| "production (queryStatement _) = 1"
| "production (keyBind (bindpriv _ _)) = 2"
| "production (keyBind (bindpub _ _)) = 3"
| "production (importAssertion _ _) = 4"
| "production (relationDeclaration _) = 5"

definition production_of :: "auth_token \<Rightarrow> nat" where
  "production_of t = (case t of STRING_LITERAL _ \<Rightarrow> 0 | VARIABLE _ \<Rightarrow> 1
     | Keyword k \<Rightarrow> (if k = ''BindPrivKey'' then 2 else if k = ''BindPubKey'' then 3 else 4) | _ \<Rightarrow> 5)"

lemma statement_starts: "\<exists>t ts. statement_tokens x = t # ts \<and> t \<in> statement_first \<and> production_of t = production x"
proof (cases x rule: statement_tokens.cases)
  case (1 a)
  with says_tokens_head [of a] show ?thesis by (auto simp: statement_first_def production_of_def)
qed (simp_all add: statement_first_def production_of_def)

interpretation statements: unambiguous statement_tokens statement_first "{Keyword ''exportTo''}"
proof
  show "\<exists>t ts. statement_tokens x = t # ts \<and> t \<in> statement_first" for x using statement_starts by blast
  show "x = y \<and> r = s" if eq: "statement_tokens x @ r = statement_tokens y @ s"
    and follow: "follows {Keyword ''exportTo''} r" "follows {Keyword ''exportTo''} s" for x y r s
  proof -
    from eq statement_starts [of x] statement_starts [of y] have same: "production y = production x" by auto
    show ?thesis
    proof (cases x rule: statement_tokens.cases)
      case (1 a)
      with same obtain b where "y = saysAssertion b" by (cases y rule: production.cases) auto
      with eq follow 1 says_prefix_free [of a r b s] show ?thesis by simp
    next
      case (2 q)
      with same obtain q' where "y = queryStatement q'" by (cases y rule: production.cases) auto
      with eq 2 query_prefix_free [of q r q' s] show ?thesis by simp
    next
      case (6 d)
      with same obtain d' where "y = relationDeclaration d'" by (cases y rule: production.cases) auto
      with eq 6 declaration_prefix_free [of d r d' s] show ?thesis by simp
    qed (use same eq in \<open>cases y rule: production.cases; simp\<close>)+
  qed
qed

lemma program_unambiguous: "program_tokens x = program_tokens y \<Longrightarrow> x = y"
  using statements.many_unambiguous [of x "[]" y "[]"] by (auto simp: program_tokens_def statement_first_def)

end
