(* ===== verification/Auth_Printer.thy ===== *)
theory Auth_Printer imports
  Auth_Parser
begin

text \<open>
  Writing authorization logic, \<^verbatim>\<open>src/ir/auth_logic/ast_string.cc\<close>, and reading it again: the text of a
  program has the tokens of a tree from which the program is built again, up to the names
  of its custom types.
\<close>

section \<open>Printing\<close>

definition binary_operations :: "string list" where
  "binary_operations = [''<'', ''>'', ''='', ''!='', ''<='', ''>='']"

fun front_of :: "'a list \<Rightarrow> 'a option" where
  "front_of [] = None"
| "front_of (x # xs) = Some x"

definition predicate_ToString :: "dl_predicate \<Rightarrow> string result" where
  "predicate_ToString p =
     (if pred_name p \<in> set binary_operations
      then rbind (deref (front_of (pred_args p)) ''predicate.args().front()'') (\<lambda>left.
           Inr (left @ '' '' @ pred_name p @ '' '' @ last (pred_args p)))
      else Inr ((if pred_sign p = kNegated then ''!'' else []) @ pred_name p @ ''('' @ str_join '', '' (pred_args p) @ '')''))"

definition argument_type_ToString :: "argument_type \<Rightarrow> string" where
  "argument_type_ToString ty = (case argument_type_kind ty of
     kCustom \<Rightarrow> argument_type_name ty @ ''::Custom''
   | kNumber \<Rightarrow> ''Number''
   | kPrincipal \<Rightarrow> ''Principal'')"

definition argument_ToString :: "argument \<Rightarrow> string" where
  "argument_ToString a = argument_name a @ '' : '' @ argument_type_ToString (argument_type a)"

definition relation_declaration_ToString :: "relation_declaration \<Rightarrow> string" where
  "relation_declaration_ToString d = ''.decl '' @ (if is_attribute d then ''attribute '' else []) @ relation_name d @ ''('' @
     str_join '', '' (map argument_ToString (relation_arguments d)) @ '')''"

definition attribute_ToString :: "auth_attribute \<Rightarrow> string result" where
  "attribute_ToString a = rbind (predicate_ToString (attr_predicate a)) (\<lambda>p. Inr (principal_name (attr_principal a) @ '' '' @ p))"

definition can_act_as_ToString :: "can_act_as \<Rightarrow> string" where
  "can_act_as_ToString c = principal_name (left_principal c) @ '' canActAs '' @ principal_name (right_principal c)"

fun base_fact_ToString :: "base_fact \<Rightarrow> string result" where
  "base_fact_ToString (PredicateFact p) = predicate_ToString p"
| "base_fact_ToString (AttributeFact a) = attribute_ToString a"
| "base_fact_ToString (CanActAsFact c) = Inr (can_act_as_ToString c)"

definition fact_ToString :: "fact \<Rightarrow> string result" where
  "fact_ToString f =
     (let cansay_string = fold (\<lambda>delegatees cansay_string. str_join '' canSay '' [principal_name delegatees, cansay_string])
            (delegation_chain f) []
      in rbind (base_fact_ToString (fact_base f)) (\<lambda>b. Inr (cansay_string @ b)))"

definition conditional_assertion_ToString :: "conditional_assertion \<Rightarrow> string result" where
  "conditional_assertion_ToString c = rbind (fact_ToString (cond_lhs c)) (\<lambda>lhs.
     rbind (map_result base_fact_ToString (cond_rhs c)) (\<lambda>rhs. Inr (str_join '' :- '' [lhs, str_join '', '' rhs])))"

fun assertion_ToString :: "assertion \<Rightarrow> string result" where
  "assertion_ToString (FactAssertion f) = rbind (fact_ToString f) (\<lambda>s. Inr (s @ ''.''))"
| "assertion_ToString (Conditional c) = rbind (conditional_assertion_ToString c) (\<lambda>s. Inr (s @ ''.''))"

definition says_assertion_ToString :: "says_assertion \<Rightarrow> string result" where
  "says_assertion_ToString a = rbind (map_result assertion_ToString (says_assertions a)) (\<lambda>xs.
     Inr (principal_name (says_principal a) @ '' says {'' @ [CHR 10] @ str_join [CHR 10] xs @ ''}''))"

definition query_ToString :: "query \<Rightarrow> string result" where
  "query_ToString q = rbind (fact_ToString (query_fact q)) (\<lambda>f.
     Inr (query_name q @ '' = '' @ principal_name (query_principal q) @ '' says '' @ f @ ''?''))"

definition auth_program_ToString :: "auth_program \<Rightarrow> string result" where
  "auth_program_ToString p =
     rbind (map_result says_assertion_ToString (program_says p)) (\<lambda>says.
     rbind (map_result query_ToString (program_queries p)) (\<lambda>queries.
     Inr (str_join [CHR 10] [str_join [CHR 10] (map relation_declaration_ToString (relation_declarations p)),
       str_join [CHR 10] says, str_join [CHR 10] queries])))"

section \<open>Lexing texts in context\<close>

text \<open>\<open>lexes w ts bad\<close>: wherever \<open>w\<close> stands before a character that is not in \<open>bad\<close>, it is read as \<open>ts\<close>.\<close>

definition lexes :: "string \<Rightarrow> auth_token list \<Rightarrow> char set \<Rightarrow> bool" where
  "lexes w ts bad \<longleftrightarrow> (\<forall>r. follows bad r \<longrightarrow> auth_lex (w @ r) = map_option ((@) ts) (auth_lex r))"

lemma append_singleton [simp]: "(@) [t] = (#) t"
  by (rule ext) simp

lemma lexes_append:
  assumes "lexes v ts B" and "lexes w us C" and "B = {} \<or> w \<noteq> [] \<and> hd w \<notin> B"
  shows "lexes (v @ w) (ts @ us) C"
proof -
  have "auth_lex (v @ w @ r) = map_option ((@) ts) (auth_lex (w @ r))" if "follows C r" for r
    using assms(1,3) by (auto simp: lexes_def follows_def)
  moreover have "map_option ((@) ts) (map_option ((@) us) z) = map_option ((@) (ts @ us)) z" for z by (cases z) simp_all
  ultimately show ?thesis using assms(2) by (simp add: lexes_def)
qed

lemma lexes_mono: "lexes w ts B \<Longrightarrow> B \<subseteq> C \<Longrightarrow> lexes w ts C"
  by (auto simp: lexes_def follows_def)

lemma lexes_whole: "lexes w ts B \<Longrightarrow> auth_lex w = Some ts"
  unfolding lexes_def by (metis append_Nil2 auth_lex.simps(1) follows_simps(1) map_option_eq_Some)

lemma auth_lex_white: "auth_lex (dropWhile white r) = auth_lex r"
proof (cases r)
  case (Cons c cs)
  then show ?thesis by (cases "auth_lex (dropWhile white cs)") (simp_all add: lex_one_def)
qed simp

lemma lexes_Nil: "lexes [] [] {}"
  by (simp add: lexes_def option.map_ident_strong)

lemma lexes_white_char: "white c \<Longrightarrow> lexes [c] [] {}"
  by (simp add: lexes_def lex_one_def auth_lex_white option.map_ident_strong option.map_comp comp_def)

lemma char_classes:
  "is_letter c \<Longrightarrow> variable_start c \<and> variable_char c \<and> \<not> white c \<and> \<not> is_digit c"
  "is_digit c \<Longrightarrow> variable_char c \<and> \<not> white c \<and> \<not> variable_start c"
  "variable_start c \<Longrightarrow> variable_char c \<and> \<not> white c \<and> \<not> is_digit c \<and> c \<noteq> quote"
  by (auto simp: is_letter_def is_digit_def variable_start_def variable_char_def white_def quote_def)

definition variable_text :: "string \<Rightarrow> bool" where
  "variable_text s \<longleftrightarrow> s \<noteq> [] \<and> variable_start (hd s) \<and> list_all variable_char (tl s) \<and> s \<notin> set auth_keywords"

definition string_literal_text :: "string \<Rightarrow> bool" where
  "string_literal_text s \<longleftrightarrow> 3 \<le> length s \<and> hd s = quote \<and> last s = quote \<and> string_start (s ! 1) \<and>
     list_all string_char (butlast (tl (tl s)))"

definition number_text :: "string \<Rightarrow> bool" where
  "number_text s \<longleftrightarrow> s \<noteq> [] \<and> list_all is_digit s"

lemma takeWhile_follows: "list_all P w \<Longrightarrow> follows (Collect P) r \<Longrightarrow> takeWhile P (w @ r) = w \<and> dropWhile P (w @ r) = r"
  by (induction w) (cases r; auto)+

lemma lexes_word:
  assumes "w \<noteq> []" and "variable_start (hd w)" and "list_all variable_char (tl w)"
  shows "lexes w [if w \<in> set auth_keywords then Keyword w else VARIABLE w] (Collect variable_char)"
proof -
  obtain c cs where w: "w = c # cs" using assms(1) by (cases w) auto
  with assms char_classes(3) [of c] takeWhile_follows [of variable_char cs] show ?thesis
    by (auto simp: lexes_def lex_one_def Let_def)
qed

lemma lexes_variable: "variable_text s \<Longrightarrow> lexes s [VARIABLE s] (Collect variable_char)"
  using lexes_word [of s] by (simp add: variable_text_def)

lemma lexes_keyword: "s \<in> set auth_keywords \<Longrightarrow> lexes s [Keyword s] (Collect variable_char)"
  using lexes_word [of s]
  by (auto simp: auth_keywords_def variable_start_def variable_char_def is_letter_def split: if_splits)

lemma lexes_number: "number_text s \<Longrightarrow> lexes s [NUMLITERAL s] (Collect is_digit)"
proof -
  assume "number_text s"
  then obtain c cs where s: "s = c # cs" "is_digit c" "list_all is_digit cs" by (cases s) (auto simp: number_text_def)
  with char_classes(2) [of c] takeWhile_follows [of is_digit cs] show ?thesis
    by (auto simp: lexes_def lex_one_def Let_def)
qed

lemma string_literal_text_iff:
  "string_literal_text s \<longleftrightarrow> (\<exists>c body. s = [quote, c] @ body @ [quote] \<and> string_start c \<and> list_all string_char body)"
proof
  assume s: "string_literal_text s"
  then obtain c d where "s = quote # c # d" "d \<noteq> []"
    by (cases s; cases "tl s"; cases "tl (tl s)") (auto simp: string_literal_text_def)
  moreover from this s have "d = butlast d @ [quote]" by (simp add: string_literal_text_def) (metis append_butlast_last_id)
  ultimately show "\<exists>c body. s = [quote, c] @ body @ [quote] \<and> string_start c \<and> list_all string_char body"
    using s by (intro exI [of _ c] exI [of _ "butlast d"]) (simp add: string_literal_text_def)
qed (auto simp: string_literal_text_def)

lemma lexes_string:
  assumes "string_literal_text s"
  shows "lexes s [STRING_LITERAL s] {}"
proof -
  from assms obtain c body where s: "s = [quote, c] @ body @ [quote]" "string_start c" "list_all string_char body"
    by (auto simp: string_literal_text_iff)
  have c: "c \<noteq> quote" using s(2) by (auto simp: string_start_def is_letter_def quote_def)
  have "\<not> string_char quote" by (simp add: string_char_def is_letter_def is_digit_def quote_def)
  then have "takeWhile string_char (body @ quote # r) = body \<and> dropWhile string_char (body @ quote # r) = quote # r" for r
    using takeWhile_follows [OF s(3), of "quote # r"] by simp
  moreover have "\<not> white quote" "\<not> variable_start quote" "\<not> is_digit quote"
    by (simp_all add: white_def variable_start_def is_letter_def is_digit_def quote_def)
  ultimately show ?thesis using s(2) c
    by (auto simp: lexes_def lex_one_def string_step_def s(1) Let_def)
qed

lemma lex_punct:
  assumes "punct_step (w @ r) = Some (Some (Punct w), r)" and "w \<noteq> []"
    and "\<not> white (hd w)" "\<not> variable_start (hd w)" "\<not> is_digit (hd w)" "hd w \<noteq> quote" "hd w \<noteq> CHR ''/''"
  shows "auth_lex (w @ r) = map_option ((@) [Punct w]) (auth_lex r)"
  using assms by (cases w) (simp_all add: lex_one_def)

lemma follows_take: "follows {c} r \<Longrightarrow> take (Suc n) r \<noteq> c # w"
  by (cases r) simp_all

lemma lexes_punct:
  "lexes ''('' [Punct ''(''] {}" "lexes '')'' [Punct '')''] {}" "lexes '','' [Punct '',''] {}" "lexes ''{'' [Punct ''{''] {}"
  "lexes ''}'' [Punct ''}''] {}" "lexes ''?'' [Punct ''?''] {}" "lexes ''='' [Punct ''=''] {}" "lexes '':-'' [Punct '':-''] {}"
  "lexes ''.decl'' [Punct ''.decl''] {}" "lexes ''!='' [Punct ''!=''] {}" "lexes ''<='' [Punct ''<=''] {}" "lexes ''>='' [Punct ''>=''] {}"
  "lexes ''!'' [Punct ''!''] {CHR ''=''}" "lexes ''<'' [Punct ''<''] {CHR ''=''}" "lexes ''>'' [Punct ''>''] {CHR ''=''}"
  "lexes ''.'' [Punct ''.''] {CHR ''d''}" "lexes '':'' [Punct '':''] {CHR ''-''}"
  unfolding lexes_def
  by (intro allI impI lex_punct; auto simp: punct_step_def auth_puncts_def follows_take white_def variable_start_def
      is_letter_def is_digit_def quote_def)+

section \<open>Programs that can be printed and read\<close>

definition arg_text_ok :: "string \<Rightarrow> bool" where
  "arg_text_ok s \<longleftrightarrow> string_literal_text s \<or> number_text s \<or> variable_text s"

definition printable_predicate :: "dl_predicate \<Rightarrow> bool" where
  "printable_predicate p \<longleftrightarrow> variable_text (pred_name p) \<and> pred_args p \<noteq> [] \<and> list_all arg_text_ok (pred_args p)"

definition printable_principal :: "principal \<Rightarrow> bool" where
  "printable_principal p \<longleftrightarrow> string_literal_text (principal_name p)"

fun printable_flat :: "base_fact \<Rightarrow> bool" where
  "printable_flat (PredicateFact p) = printable_predicate p"
| "printable_flat (AttributeFact a) = (printable_principal (attr_principal a) \<and> printable_predicate (attr_predicate a))"
| "printable_flat (CanActAsFact c) = (printable_principal (left_principal c) \<and> printable_principal (right_principal c))"

text \<open>A comparison. At the end of a clause its right side must not be a variable, which would take
  in the full stop.\<close>

definition printable_comparison :: "base_fact \<Rightarrow> bool" where
  "printable_comparison f \<longleftrightarrow> (case f of PredicateFact p \<Rightarrow> pred_name p \<in> set binary_operations \<and> length (pred_args p) = 2 \<and>
     pred_sign p = kPositive \<and> list_all arg_text_ok (pred_args p) | _ \<Rightarrow> False)"

definition ends_in_variable :: "base_fact \<Rightarrow> bool" where
  "ends_in_variable f \<longleftrightarrow> (case f of PredicateFact p \<Rightarrow> pred_name p \<in> set binary_operations \<and> variable_text (last (pred_args p)) | _ \<Rightarrow> False)"

definition printable_fact :: "fact \<Rightarrow> bool" where
  "printable_fact f \<longleftrightarrow> list_all printable_principal (delegation_chain f) \<and> printable_flat (fact_base f)"

fun printable_assertion :: "assertion \<Rightarrow> bool" where
  "printable_assertion (FactAssertion f) = printable_fact f"
| "printable_assertion (Conditional c) = (printable_fact (cond_lhs c) \<and> cond_rhs c \<noteq> [] \<and>
     list_all (\<lambda>f. printable_flat f \<or> printable_comparison f) (cond_rhs c) \<and> \<not> ends_in_variable (last (cond_rhs c)))"

definition printable_says :: "says_assertion \<Rightarrow> bool" where
  "printable_says a \<longleftrightarrow> printable_principal (says_principal a) \<and> says_assertions a \<noteq> [] \<and> list_all printable_assertion (says_assertions a)"

definition printable_type :: "argument_type \<Rightarrow> bool" where
  "printable_type ty \<longleftrightarrow> ty \<in> {MakeNumberType, MakePrincipalType} \<or>
     argument_type_kind ty = kCustom \<and> variable_text (argument_type_name ty)"

definition printable_declaration :: "relation_declaration \<Rightarrow> bool" where
  "printable_declaration d \<longleftrightarrow> variable_text (relation_name d) \<and> relation_arguments d \<noteq> [] \<and>
     list_all (\<lambda>a. variable_text (argument_name a) \<and> printable_type (argument_type a)) (relation_arguments d)"

definition printable_auth_program :: "auth_program \<Rightarrow> bool" where
  "printable_auth_program p \<longleftrightarrow> list_all printable_declaration (relation_declarations p) \<and>
     list_all printable_says (program_says p) \<and> program_queries p = []"

section \<open>The tree of a program\<close>

definition arg_of :: "string \<Rightarrow> pred_arg_tree" where
  "arg_of s = (if s \<noteq> [] \<and> hd s = quote then constant_arg s else if s \<noteq> [] \<and> is_digit (hd s) then number_arg s else variable_arg s)"

definition predicate_tree_of :: "dl_predicate \<Rightarrow> predicate_tree" where
  "predicate_tree_of p = \<lparr>tree_neg = (pred_sign p = kNegated), tree_predicate_name = pred_name p, tree_pred_args = map arg_of (pred_args p)\<rparr>"

fun flat_of :: "base_fact \<Rightarrow> flat_fact_tree" where
  "flat_of (PredicateFact p) = predFact (predicate_tree_of p)"
| "flat_of (AttributeFact a) = prinFact (principal_name (attr_principal a)) (predphrase (predicate_tree_of (attr_predicate a)))"
| "flat_of (CanActAsFact c) = prinFact (principal_name (left_principal c)) (actsAsPhrase (principal_name (right_principal c)))"

definition binop_of :: "string \<Rightarrow> binop_tree" where
  "binop_of n = (if n = ''<'' then ltbinop else if n = ''>'' then grbinop else if n = ''='' then eqbinop
     else if n = ''!='' then nebinop else if n = ''<='' then leqbinop else geqbinop)"

definition rvalue_of :: "base_fact \<Rightarrow> rvalue_tree" where
  "rvalue_of f = (case f of
     PredicateFact p \<Rightarrow> (if pred_name p \<in> set binary_operations
       then binopRvalue (arg_of (hd (pred_args p))) (binop_of (pred_name p)) (arg_of (last (pred_args p)))
       else flatFactRvalue (flat_of f))
   | _ \<Rightarrow> flatFactRvalue (flat_of f))"

definition fact_tree_of :: "fact \<Rightarrow> fact_tree" where
  "fact_tree_of f = fold (\<lambda>d t. canSayFact (principal_name d) t) (delegation_chain f) (flatFactFact (flat_of (fact_base f)))"

fun assertion_tree_of :: "assertion \<Rightarrow> assertion_tree" where
  "assertion_tree_of (FactAssertion f) = factAssertion (fact_tree_of f)"
| "assertion_tree_of (Conditional c) = hornClauseAssertion (fact_tree_of (cond_lhs c)) (map rvalue_of (cond_rhs c))"

definition says_tree_of :: "says_assertion \<Rightarrow> says_assertion_tree" where
  "says_tree_of a = saysMulti (principal_name (says_principal a)) (map assertion_tree_of (says_assertions a)) None"

definition type_tree_of :: "argument_type \<Rightarrow> auth_logic_type_tree" where
  "type_tree_of ty = (case argument_type_kind ty of kNumber \<Rightarrow> numberType | kPrincipal \<Rightarrow> principalType
     | kCustom \<Rightarrow> customType (argument_type_name ty @ ''::Custom''))"

definition declaration_tree_of :: "relation_declaration \<Rightarrow> relation_declaration_tree" where
  "declaration_tree_of d = \<lparr>tree_attribute = is_attribute d, tree_relation_name = relation_name d,
     tree_parameters = map (\<lambda>a. (argument_name a, type_tree_of (argument_type a))) (relation_arguments d)\<rparr>"

definition program_tree_of :: "auth_program \<Rightarrow> program_tree" where
  "program_tree_of p = map (\<lambda>d. relationDeclaration (declaration_tree_of d)) (relation_declarations p) @
     map (\<lambda>a. saysAssertion (says_tree_of a)) (program_says p)"

text \<open>What reading changes: the name of a custom type gets the suffix that printing adds.\<close>

definition suffixed_type :: "argument_type \<Rightarrow> argument_type" where
  "suffixed_type ty = (if argument_type_kind ty = kCustom then MakeCustomType (argument_type_name ty @ ''::Custom'') else ty)"

definition suffixed_declaration :: "relation_declaration \<Rightarrow> relation_declaration" where
  "suffixed_declaration d = d\<lparr>relation_arguments := map (\<lambda>a. a\<lparr>argument_type := suffixed_type (argument_type a)\<rparr>) (relation_arguments d)\<rparr>"

definition suffixed_types :: "auth_program \<Rightarrow> auth_program" where
  "suffixed_types p = p\<lparr>relation_declarations := map suffixed_declaration (relation_declarations p)\<rparr>"

section \<open>The tree means the program\<close>

lemma construct_arg_of [simp]: "construct_pred_arg (arg_of s) = s"
  by (simp add: arg_of_def)

lemma ConstructPredicate_of [simp]: "ConstructPredicate (predicate_tree_of p) = p"
  by (cases "pred_sign p") (simp_all add: ConstructPredicate_def predicate_tree_of_def comp_def)

lemma ConstructFlatFact_of [simp]: "ConstructFlatFact (flat_of f) = f"
  by (cases f) (simp_all add: ConstructPrincipal_def)

lemma binop_text_of: "n \<in> set binary_operations \<Longrightarrow> binop_text (binop_of n) = n"
  by (auto simp: binary_operations_def binop_of_def)

lemma ConstructRvalue_of:
  assumes "printable_flat f \<or> printable_comparison f"
  shows "ConstructRvalue (rvalue_of f) = f"
proof (cases f)
  case (PredicateFact p)
  show ?thesis
  proof (cases "pred_name p \<in> set binary_operations")
    case True
    then have "\<not> variable_text (pred_name p)"
      by (auto simp: binary_operations_def variable_text_def variable_start_def is_letter_def)
    with assms PredicateFact have p: "length (pred_args p) = 2" "pred_sign p = kPositive"
      by (auto simp: printable_predicate_def printable_comparison_def)
    then obtain a b where "pred_args p = [a, b]" by (auto simp: numeral_2_eq_2 length_Suc_conv)
    with p True PredicateFact show ?thesis by (simp add: rvalue_of_def binop_text_of)
  qed (use PredicateFact in \<open>simp add: rvalue_of_def\<close>)
qed (simp_all add: rvalue_of_def ConstructPrincipal_def)

lemma ConstructFact_chain:
  "ConstructFact acc (fold (\<lambda>d t. canSayFact (principal_name d) t) chain t) = ConstructFact (chain @ acc) t"
  by (induction chain arbitrary: t) (simp_all add: ConstructPrincipal_def)

lemma ConstructFact_of [simp]: "ConstructFact [] (fact_tree_of f) = f"
  by (simp add: fact_tree_of_def ConstructFact_chain)

lemma map_back: "list_all P xs \<Longrightarrow> (\<And>x. P x \<Longrightarrow> f (g x) = x) \<Longrightarrow> map (f \<circ> g) xs = xs"
  by (induction xs) simp_all

lemma ConstructAssertion_of: "printable_assertion a \<Longrightarrow> ConstructAssertion (assertion_tree_of a) = a"
proof (cases a)
  case (Conditional c)
  assume "printable_assertion a"
  with Conditional have "map (ConstructRvalue \<circ> rvalue_of) (cond_rhs c) = cond_rhs c"
    by (intro map_back [where P = "\<lambda>f. printable_flat f \<or> printable_comparison f"]) (simp_all add: ConstructRvalue_of)
  with Conditional show ?thesis by simp
qed simp

lemma ConstructSaysAssertion_of: "printable_says a \<Longrightarrow> ConstructSaysAssertion (says_tree_of a) = a"
  using map_back [of printable_assertion "says_assertions a" ConstructAssertion assertion_tree_of]
  by (simp add: says_tree_of_def printable_says_def ConstructAssertion_of ConstructPrincipal_def)

lemma ConstructArgumentType_of: "printable_type ty \<Longrightarrow> ConstructArgumentType (type_tree_of ty) = suffixed_type ty"
  by (auto simp: printable_type_def type_tree_of_def suffixed_type_def MakeNumberType_def MakePrincipalType_def)

lemma ConstructRelationDeclaration_of:
  "printable_declaration d \<Longrightarrow> ConstructRelationDeclaration (declaration_tree_of d) = suffixed_declaration d"
  by (auto simp: ConstructRelationDeclaration_def declaration_tree_of_def suffixed_declaration_def printable_declaration_def
      list_all_iff ConstructArgumentType_of)

lemma map_filter_simps_append: "List.map_filter f (xs @ ys) = List.map_filter f xs @ List.map_filter f ys"
  by (simp add: List.map_filter_def)

lemma ConstructProgram_of:
  assumes "printable_auth_program p"
  shows "ConstructProgram (program_tree_of p) = suffixed_types p"
proof -
  have "map ConstructRelationDeclaration (map declaration_tree_of (relation_declarations p)) = map suffixed_declaration (relation_declarations p)"
    using assms by (auto simp: printable_auth_program_def list_all_iff ConstructRelationDeclaration_of)
  moreover have "map ConstructSaysAssertion (map says_tree_of (program_says p)) = program_says p"
    using assms by (auto simp: printable_auth_program_def list_all_iff ConstructSaysAssertion_of intro!: map_idI)
  moreover have "program_queries p = []" using assms by (simp add: printable_auth_program_def)
  ultimately show ?thesis
    by (simp add: ConstructProgram_def program_tree_of_def suffixed_types_def List.map_filter_def comp_def)
qed

section \<open>The text has the tokens of the tree\<close>

lemma lexes_space: "lexes '' '' [] {}" "lexes [CHR 10] [] {}"
  by (simp_all add: lexes_white_char white_def)

lemma not_variable_chars: "\<not> variable_char (CHR '' '')" "\<not> variable_char (CHR '','')" "\<not> variable_char (CHR '')'')"
  "\<not> variable_char (CHR ''('')" "\<not> variable_char (CHR ''?'')" "\<not> variable_char (CHR 10)"
  by (simp_all add: variable_char_def is_letter_def is_digit_def)

lemma arg_first_char:
  "string_literal_text s \<Longrightarrow> s \<noteq> [] \<and> hd s = quote" "number_text s \<Longrightarrow> s \<noteq> [] \<and> is_digit (hd s) \<and> hd s \<noteq> quote"
  "variable_text s \<Longrightarrow> s \<noteq> [] \<and> \<not> is_digit (hd s) \<and> hd s \<noteq> quote"
proof -
  show "string_literal_text s \<Longrightarrow> s \<noteq> [] \<and> hd s = quote" by (auto simp: string_literal_text_def)
  show "number_text s \<Longrightarrow> s \<noteq> [] \<and> is_digit (hd s) \<and> hd s \<noteq> quote"
    by (cases s) (auto simp: number_text_def is_digit_def quote_def)
  show "variable_text s \<Longrightarrow> s \<noteq> [] \<and> \<not> is_digit (hd s) \<and> hd s \<noteq> quote"
    using char_classes(3) [of "hd s"] by (simp add: variable_text_def)
qed

lemma lexes_arg: "arg_text_ok s \<Longrightarrow> lexes s (arg_tokens (arg_of s)) (Collect variable_char)"
proof -
  assume "arg_text_ok s"
  then consider "string_literal_text s" | "number_text s" | "variable_text s" by (auto simp: arg_text_ok_def)
  then show ?thesis
  proof cases
    case 1
    with arg_first_char(1) [OF 1] show ?thesis by (auto simp: arg_of_def intro: lexes_mono [OF lexes_string])
  next
    case 2
    have "Collect is_digit \<subseteq> Collect variable_char" using char_classes(2) by blast
    with 2 arg_first_char(2) [OF 2] show ?thesis by (auto simp: arg_of_def intro: lexes_mono [OF lexes_number])
  next
    case 3
    with arg_first_char(3) [OF 3] show ?thesis by (auto simp: arg_of_def intro: lexes_variable)
  qed
qed

lemma lexes_arg_not_variable:
  assumes "arg_text_ok s" and "\<not> variable_text s"
  shows "lexes s (arg_tokens (arg_of s)) (Collect is_digit)"
  using assms arg_first_char(1,2) [of s]
  by (auto simp: arg_text_ok_def arg_of_def intro: lexes_number lexes_mono [OF lexes_string])

lemma lexes_commas:
  assumes "xs \<noteq> []" and "\<forall>x \<in> set (butlast xs). lexes (f x) (g x) B" and "lexes (f (last xs)) (g (last xs)) C" and "CHR '','' \<notin> B"
  shows "lexes (str_join '', '' (map f xs)) (comma_list g xs) C"
  using assms(1-3)
proof (induction xs rule: induct_list012)
  case (3 x y xs)
  then have x: "lexes (f x) (g x) B" and IH: "lexes (str_join '', '' (map f (y # xs))) (comma_list g (y # xs)) C" by simp_all
  have "lexes ('','' @ '' '') ([Punct '',''] @ []) {}" by (rule lexes_append [OF lexes_punct(3) lexes_space(1)]) simp
  from lexes_append [OF this IH] have "lexes ('', '' @ str_join '', '' (map f (y # xs))) (Punct '','' # comma_list g (y # xs)) C" by simp
  from lexes_append [OF x this] assms(4) show ?case by simp
qed simp_all

lemma lexes_predicate:
  assumes "printable_predicate p"
  shows "\<exists>w. predicate_ToString p = Inr w \<and> w \<noteq> [] \<and> lexes w (predicate_tokens (predicate_tree_of p)) {}"
proof -
  have name: "variable_text (pred_name p)" and args: "pred_args p \<noteq> []" "list_all arg_text_ok (pred_args p)"
    using assms by (simp_all add: printable_predicate_def)
  have "pred_name p \<notin> set binary_operations"
    using name by (auto simp: binary_operations_def variable_text_def variable_start_def is_letter_def)
  moreover have "lexes (str_join '', '' (map (\<lambda>s. s) (pred_args p))) (comma_list (\<lambda>s. arg_tokens (arg_of s)) (pred_args p)) (Collect variable_char)"
    using args by (intro lexes_commas) (auto simp: list_all_iff not_variable_chars intro!: lexes_arg dest: in_set_butlastD)
  moreover have commas: "comma_list (\<lambda>s. arg_tokens (arg_of s)) xs = comma_list arg_tokens (map arg_of xs)" for xs
    by (induction xs rule: induct_list012) simp_all
  ultimately have body: "lexes (str_join '', '' (pred_args p)) (comma_list arg_tokens (map arg_of (pred_args p))) (Collect variable_char)" by simp
  from lexes_append [OF lexes_punct(1) lexes_append [OF this lexes_punct(2)]]
  have "lexes (''('' @ str_join '', '' (pred_args p) @ '')'') (Punct ''('' # comma_list arg_tokens (map arg_of (pred_args p)) @ [Punct '')'']) {}"
    by (simp add: not_variable_chars)
  from lexes_append [OF lexes_variable [OF name] this]
  have unsigned: "lexes (pred_name p @ ''('' @ str_join '', '' (pred_args p) @ '')'')
      ([VARIABLE (pred_name p), Punct ''(''] @ comma_list arg_tokens (map arg_of (pred_args p)) @ [Punct '')'']) {}"
    by (simp add: not_variable_chars)
  have "variable_start (hd (pred_name p))" "pred_name p \<noteq> []" using name by (simp_all add: variable_text_def)
  then have "pred_name p @ w \<noteq> [] \<and> hd (pred_name p @ w) \<notin> {CHR ''=''}" for w
    by (auto simp: variable_start_def is_letter_def)
  from lexes_append [OF lexes_punct(13) unsigned disjI2, OF this]
  have "lexes (''!'' @ pred_name p @ ''('' @ str_join '', '' (pred_args p) @ '')'')
      ([Punct ''!'', VARIABLE (pred_name p), Punct ''(''] @ comma_list arg_tokens (map arg_of (pred_args p)) @ [Punct '')'']) {}" by simp
  with unsigned \<open>pred_name p \<notin> set binary_operations\<close> show ?thesis
    by (cases "pred_sign p") (simp_all add: predicate_ToString_def predicate_tokens_def predicate_tree_of_def)
qed

lemma keyword_between: "k \<in> set auth_keywords \<Longrightarrow> lexes ('' '' @ k @ '' '') [Keyword k] {}"
  using lexes_append [OF lexes_space(1) lexes_append [OF lexes_keyword lexes_space(1)], of k] by (simp add: not_variable_chars)

lemma lexes_flat:
  assumes "printable_flat f"
  shows "\<exists>w. base_fact_ToString f = Inr w \<and> w \<noteq> [] \<and> lexes w (flat_fact_tokens (flat_of f)) {}"
proof (cases f)
  case (PredicateFact p)
  with assms lexes_predicate [of p] show ?thesis by simp
next
  case (AttributeFact a)
  with assms obtain w where w: "predicate_ToString (attr_predicate a) = Inr w" "w \<noteq> []"
    "lexes w (predicate_tokens (predicate_tree_of (attr_predicate a))) {}"
    using lexes_predicate [of "attr_predicate a"] by auto
  from assms AttributeFact have "lexes (principal_name (attr_principal a)) [STRING_LITERAL (principal_name (attr_principal a))] {}"
    by (simp add: printable_principal_def lexes_string)
  from lexes_append [OF this lexes_append [OF lexes_space(1) w(3)]] w AttributeFact show ?thesis
    by (simp add: attribute_ToString_def)
next
  case (CanActAsFact c)
  with assms have "lexes (principal_name (left_principal c)) [STRING_LITERAL (principal_name (left_principal c))] {}"
    "lexes (principal_name (right_principal c)) [STRING_LITERAL (principal_name (right_principal c))] {}"
    by (simp_all add: printable_principal_def lexes_string)
  from lexes_append [OF this(1) lexes_append [OF keyword_between [of "''canActAs''"] this(2)]] CanActAsFact show ?thesis
    by (simp add: can_act_as_ToString_def auth_keywords_def)
qed

lemma lexes_binop:
  assumes "n \<in> set binary_operations"
  shows "lexes ('' '' @ n @ '' '') [Punct n] {}"
proof -
  have "\<exists>B. lexes n [Punct n] B \<and> CHR '' '' \<notin> B \<and> n \<noteq> []"
    using assms lexes_punct by (auto simp: binary_operations_def)
  then obtain B where "lexes n [Punct n] B" "CHR '' '' \<notin> B" "n \<noteq> []" by blast
  from lexes_append [OF lexes_space(1) lexes_append [OF this(1) lexes_space(1)]] this(2,3) show ?thesis by simp
qed

lemma lexes_rvalue:
  assumes "printable_flat f \<or> printable_comparison f"
  shows "\<exists>w. base_fact_ToString f = Inr w \<and> w \<noteq> [] \<and>
    lexes w (rvalue_tokens (rvalue_of f)) (if ends_in_variable f then Collect variable_char else Collect is_digit)"
proof (cases "\<exists>p. f = PredicateFact p \<and> pred_name p \<in> set binary_operations")
  case True
  then obtain p where p: "f = PredicateFact p" "pred_name p \<in> set binary_operations" by blast
  then have "\<not> variable_text (pred_name p)"
    by (auto simp: binary_operations_def variable_text_def variable_start_def is_letter_def)
  with assms p have cmp: "printable_comparison f" by (auto simp: printable_predicate_def)
  then obtain a b where ab: "pred_args p = [a, b]" using p by (auto simp: printable_comparison_def numeral_2_eq_2 length_Suc_conv)
  with cmp p have ok: "arg_text_ok a" "arg_text_ok b" by (simp_all add: printable_comparison_def)
  let ?B = "if ends_in_variable f then Collect variable_char else Collect is_digit"
  have "lexes b (arg_tokens (arg_of b)) ?B"
    using lexes_arg [OF ok(2)] lexes_arg_not_variable [OF ok(2)] p ab by (simp add: ends_in_variable_def)
  from lexes_append [OF lexes_arg [OF ok(1)] lexes_append [OF lexes_binop [OF p(2)] this]]
  have "lexes (a @ '' '' @ pred_name p @ '' '' @ b) (arg_tokens (arg_of a) @ Punct (pred_name p) # arg_tokens (arg_of b)) ?B"
    by (simp add: not_variable_chars)
  with p ab binop_text_of [OF p(2)] show ?thesis
    by (simp add: predicate_ToString_def rvalue_of_def)
next
  case False
  then have flat: "printable_flat f" "rvalue_of f = flatFactRvalue (flat_of f)" "\<not> ends_in_variable f"
    using assms by (auto simp: printable_comparison_def rvalue_of_def ends_in_variable_def split: base_fact.splits)
  from lexes_flat [OF flat(1)] flat(2) show ?thesis by (auto intro: lexes_mono)
qed

lemma lexes_fact:
  assumes "printable_fact f"
  shows "\<exists>w. fact_ToString f = Inr w \<and> w \<noteq> [] \<and> lexes w (fact_tokens (fact_tree_of f)) {}"
proof -
  from assms lexes_flat [of "fact_base f"] obtain b where b: "base_fact_ToString (fact_base f) = Inr b" "b \<noteq> []"
    "lexes b (flat_fact_tokens (flat_of (fact_base f))) {}" by (auto simp: printable_fact_def)
  have chain: "lexes (fold (\<lambda>d s. str_join '' canSay '' [principal_name d, s]) ds c @ b)
      (fact_tokens (fold (\<lambda>d t. canSayFact (principal_name d) t) ds t)) {}"
    if "list_all printable_principal ds" "lexes (c @ b) (fact_tokens t) {}" for ds c t
    using that
  proof (induction ds arbitrary: c t)
    case (Cons d ds)
    then have "lexes (principal_name d) [STRING_LITERAL (principal_name d)] {}" by (simp add: printable_principal_def lexes_string)
    from lexes_append [OF this lexes_append [OF keyword_between [of "''canSay''"] Cons.prems(2)]]
    have "lexes (str_join '' canSay '' [principal_name d, c] @ b) (fact_tokens (canSayFact (principal_name d) t)) {}"
      by (simp add: auth_keywords_def)
    from Cons.IH [OF _ this] Cons.prems(1) show ?case by simp
  qed simp
  from chain [of "delegation_chain f" "[]" "flatFactFact (flat_of (fact_base f))"] assms b show ?thesis
    by (simp add: fact_ToString_def fact_tree_of_def printable_fact_def)
qed

text \<open>Lists of printed parts.\<close>

definition printed :: "('a \<Rightarrow> string result) \<Rightarrow> 'a \<Rightarrow> string" where
  "printed f x = (case f x of Inr w \<Rightarrow> w | Inl e \<Rightarrow> [])"

lemma map_result_printed:
  "list_all P xs \<Longrightarrow> (\<And>x. P x \<Longrightarrow> \<exists>w. f x = Inr w) \<Longrightarrow> map_result f xs = Inr (map (printed f) xs)"
  by (induction xs) (fastforce simp: printed_def)+

lemma lexes_printed: "\<exists>w. f x = Inr w \<and> lexes w ts B \<Longrightarrow> lexes (printed f x) ts B"
  by (auto simp: printed_def)

lemma comma_list_map [simp]: "comma_list f (map g xs) = comma_list (\<lambda>x. f (g x)) xs"
  by (induction xs rule: induct_list012) simp_all

lemma lexes_lines:
  assumes "list_all P xs" and "\<And>x. P x \<Longrightarrow> lexes (f x) (g x) B" and "CHR 10 \<notin> B"
  shows "lexes (str_join [CHR 10] (map f xs)) (concat (map g xs)) B"
  using assms(1)
proof (induction xs rule: induct_list012)
  case 1
  show ?case using lexes_mono [OF lexes_Nil] by simp
next
  case (3 x y xs)
  then have "lexes (str_join [CHR 10] (map f (y # xs))) (concat (map g (y # xs))) B" by simp
  from lexes_append [OF assms(2) [of x] lexes_append [OF lexes_space(2) this]] 3 assms(3) show ?case by simp
qed (simp add: assms(2))

lemma lexes_assertion:
  assumes "printable_assertion a"
  shows "\<exists>w. assertion_ToString a = Inr w \<and> lexes w (assertion_tokens (assertion_tree_of a)) {CHR ''d''}"
proof (cases a)
  case (FactAssertion f)
  with assms lexes_fact [of f] obtain w where "fact_ToString f = Inr w" "lexes w (fact_tokens (fact_tree_of f)) {}" by auto
  with lexes_append [OF this(2) lexes_punct(16)] FactAssertion show ?thesis by simp
next
  case (Conditional c)
  with assms have lhs: "printable_fact (cond_lhs c)" and rhs: "cond_rhs c \<noteq> []"
    "list_all (\<lambda>f. printable_flat f \<or> printable_comparison f) (cond_rhs c)" "\<not> ends_in_variable (last (cond_rhs c))" by simp_all
  from lexes_fact [OF lhs] obtain l where l: "fact_ToString (cond_lhs c) = Inr l" "lexes l (fact_tokens (fact_tree_of (cond_lhs c))) {}" by auto
  let ?r = "printed base_fact_ToString"
  have r: "map_result base_fact_ToString (cond_rhs c) = Inr (map ?r (cond_rhs c))"
    using map_result_printed [OF rhs(2), of base_fact_ToString] lexes_rvalue by blast
  have part: "lexes (?r f) (rvalue_tokens (rvalue_of f)) (if ends_in_variable f then Collect variable_char else Collect is_digit)"
    if "f \<in> set (cond_rhs c)" for f
    using that rhs(2) lexes_rvalue [of f] by (auto simp: list_all_iff printed_def)
  have digits: "Collect is_digit \<subseteq> Collect variable_char" using char_classes(2) by blast
  have "lexes (str_join '', '' (map ?r (cond_rhs c))) (comma_list (\<lambda>f. rvalue_tokens (rvalue_of f)) (cond_rhs c)) (Collect is_digit)"
  proof (rule lexes_commas [OF rhs(1), where B = "Collect variable_char"])
    show "\<forall>f \<in> set (butlast (cond_rhs c)). lexes (?r f) (rvalue_tokens (rvalue_of f)) (Collect variable_char)"
    proof
      fix f
      assume "f \<in> set (butlast (cond_rhs c))"
      then have "f \<in> set (cond_rhs c)" by (rule in_set_butlastD)
      from part [OF this] digits show "lexes (?r f) (rvalue_tokens (rvalue_of f)) (Collect variable_char)"
        by (auto split: if_splits intro: lexes_mono)
    qed
    show "lexes (?r (last (cond_rhs c))) (rvalue_tokens (rvalue_of (last (cond_rhs c)))) (Collect is_digit)"
      using part [of "last (cond_rhs c)"] rhs(1,3) by simp
  qed (simp add: not_variable_chars)
  from lexes_append [OF this lexes_punct(16)]
  have body: "lexes (str_join '', '' (map ?r (cond_rhs c)) @ ''.'') (comma_list (\<lambda>f. rvalue_tokens (rvalue_of f)) (cond_rhs c) @ [Punct ''.'']) {CHR ''d''}"
    by (simp add: is_digit_def)
  have "lexes '' :- '' [Punct '':-''] {}"
    using lexes_append [OF lexes_space(1) lexes_append [OF lexes_punct(8) lexes_space(1)]] by simp
  from lexes_append [OF l(2) lexes_append [OF this body]] Conditional show ?thesis
    by (simp add: conditional_assertion_ToString_def l(1) r)
qed

lemma lexes_says:
  assumes "printable_says a"
  shows "\<exists>w. says_assertion_ToString a = Inr w \<and> lexes w (says_tokens (says_tree_of a)) {}"
proof -
  let ?f = "printed assertion_ToString" and ?g = "\<lambda>a. assertion_tokens (assertion_tree_of a)"
  have as: "list_all printable_assertion (says_assertions a)" and p: "string_literal_text (principal_name (says_principal a))"
    using assms by (simp_all add: printable_says_def printable_principal_def)
  have texts: "map_result assertion_ToString (says_assertions a) = Inr (map ?f (says_assertions a))"
    using map_result_printed [OF as, of assertion_ToString] lexes_assertion by blast
  have "lexes (str_join [CHR 10] (map ?f (says_assertions a))) (concat (map ?g (says_assertions a))) {CHR ''d''}"
    by (rule lexes_lines [OF as]) (simp_all add: lexes_printed lexes_assertion)
  from lexes_append [OF this lexes_punct(5)]
  have body: "lexes (str_join [CHR 10] (map ?f (says_assertions a)) @ ''}'') (concat (map ?g (says_assertions a)) @ [Punct ''}'']) {}" by simp
  have head: "lexes ('' says {'' @ [CHR 10]) [Keyword ''says'', Punct ''{''] {}"
    using lexes_append [OF keyword_between [of "''says''"] lexes_append [OF lexes_punct(4) lexes_space(2)]] by (simp add: auth_keywords_def)
  from lexes_append [OF lexes_string [OF p] lexes_append [OF head body]] show ?thesis
    by (simp add: says_assertion_ToString_def texts says_tree_of_def export_tokens_def comp_def)
qed

lemma lexes_type: "printable_type ty \<Longrightarrow> lexes (argument_type_ToString ty) (type_tokens (type_tree_of ty)) (Collect variable_char)"
proof -
  have custom: "variable_text (n @ ''::Custom'')" if "variable_text n" for n
    using that by (cases n) (auto simp: variable_text_def auth_keywords_def variable_char_def is_letter_def list_all_iff)
  assume "printable_type ty"
  then show ?thesis
    using custom lexes_keyword [of "''Number''"] lexes_keyword [of "''Principal''"]
    by (auto simp: printable_type_def argument_type_ToString_def type_tree_of_def MakeNumberType_def MakePrincipalType_def
        auth_keywords_def intro!: lexes_variable)
qed

lemma lexes_declaration:
  assumes "printable_declaration d"
  shows "lexes (relation_declaration_ToString d) (statement_tokens (relationDeclaration (declaration_tree_of d))) {}"
proof -
  let ?g = "\<lambda>a. parameter_tokens (argument_name a, type_tree_of (argument_type a))"
  have colon: "lexes '' : '' [Punct '':''] {}"
    using lexes_append [OF lexes_space(1) lexes_append [OF lexes_punct(17) lexes_space(1)]] by simp
  have arg: "lexes (argument_ToString a) (?g a) (Collect variable_char)" if "a \<in> set (relation_arguments d)" for a
  proof -
    have "variable_text (argument_name a)" "printable_type (argument_type a)"
      using that assms by (simp_all add: printable_declaration_def list_all_iff)
    from lexes_append [OF lexes_variable [OF this(1)] lexes_append [OF colon lexes_type [OF this(2)]]] show ?thesis
      by (simp add: argument_ToString_def parameter_tokens_def not_variable_chars)
  qed
  have ne: "relation_arguments d \<noteq> []" and name: "variable_text (relation_name d)"
    using assms by (simp_all add: printable_declaration_def)
  have "lexes (str_join '', '' (map argument_ToString (relation_arguments d))) (comma_list ?g (relation_arguments d)) (Collect variable_char)"
    using arg ne by (intro lexes_commas) (auto simp: not_variable_chars dest: in_set_butlastD)
  from lexes_append [OF lexes_variable [OF name] lexes_append [OF lexes_punct(1) lexes_append [OF this lexes_punct(2)]]]
  have body: "lexes (relation_name d @ ''('' @ str_join '', '' (map argument_ToString (relation_arguments d)) @ '')'')
      ([VARIABLE (relation_name d), Punct ''(''] @ comma_list ?g (relation_arguments d) @ [Punct '')'']) {}"
    by (simp add: not_variable_chars)
  have attr: "lexes ((if b then ''attribute '' else []) @ w) ((if b then [Keyword ''attribute''] else []) @ ts) {}"
    if "lexes w ts {}" for b w ts
    using lexes_append [OF lexes_keyword [of "''attribute''"] lexes_append [OF lexes_space(1) that]] that
    by (simp add: auth_keywords_def not_variable_chars)
  from lexes_append [OF lexes_punct(9) lexes_append [OF lexes_space(1) attr [OF body, of "is_attribute d"]]] show ?thesis
    by (simp add: relation_declaration_ToString_def declaration_tree_of_def)
qed

text \<open>A query is printed without the keyword that the grammar wants after its name.\<close>

definition printable_query :: "query \<Rightarrow> bool" where
  "printable_query q \<longleftrightarrow> variable_text (query_name q) \<and> printable_principal (query_principal q) \<and> printable_fact (query_fact q)"

definition printed_query_tokens :: "query \<Rightarrow> auth_token list" where
  "printed_query_tokens q = [VARIABLE (query_name q), Punct ''='', STRING_LITERAL (principal_name (query_principal q)), Keyword ''says''] @
     fact_tokens (fact_tree_of (query_fact q)) @ [Punct ''?'']"

lemma lexes_query:
  assumes "printable_query q"
  shows "\<exists>w. query_ToString q = Inr w \<and> lexes w (printed_query_tokens q) {}"
proof -
  from assms lexes_fact [of "query_fact q"] obtain f where f: "fact_ToString (query_fact q) = Inr f"
    "lexes f (fact_tokens (fact_tree_of (query_fact q))) {}" by (auto simp: printable_query_def)
  have eq: "lexes '' = '' [Punct ''=''] {}"
    using lexes_append [OF lexes_space(1) lexes_append [OF lexes_punct(7) lexes_space(1)]] by simp
  have names: "variable_text (query_name q)" "string_literal_text (principal_name (query_principal q))"
    using assms by (simp_all add: printable_query_def printable_principal_def)
  have says: "lexes '' says '' [Keyword ''says''] {}" using keyword_between [of "''says''"] by (simp add: auth_keywords_def)
  from lexes_append [OF lexes_variable [OF names(1)] lexes_append [OF eq lexes_append [OF lexes_string [OF names(2)]
      lexes_append [OF says lexes_append [OF f(2) lexes_punct(6)]]]]]
  show ?thesis by (simp add: query_ToString_def f(1) printed_query_tokens_def not_variable_chars)
qed

definition printable_with_queries :: "auth_program \<Rightarrow> bool" where
  "printable_with_queries p \<longleftrightarrow> list_all printable_declaration (relation_declarations p) \<and>
     list_all printable_says (program_says p) \<and> list_all printable_query (program_queries p)"

lemma lexes_program:
  assumes "printable_with_queries p"
  shows "\<exists>w. auth_program_ToString p = Inr w \<and>
    auth_lex w = Some (program_tokens (program_tree_of p) @ concat (map printed_query_tokens (program_queries p)))"
proof -
  let ?f = "printed says_assertion_ToString" and ?g = "\<lambda>a. says_tokens (says_tree_of a)" and ?q = "printed query_ToString"
  let ?d = "\<lambda>d. statement_tokens (relationDeclaration (declaration_tree_of d))"
  have decls: "list_all printable_declaration (relation_declarations p)" and says: "list_all printable_says (program_says p)"
    and queries: "list_all printable_query (program_queries p)" using assms by (simp_all add: printable_with_queries_def)
  have texts: "map_result says_assertion_ToString (program_says p) = Inr (map ?f (program_says p))"
    "map_result query_ToString (program_queries p) = Inr (map ?q (program_queries p))"
    using map_result_printed [OF says, of says_assertion_ToString] map_result_printed [OF queries, of query_ToString]
      lexes_says lexes_query by blast+
  have "lexes (str_join [CHR 10] (map ?f (program_says p))) (concat (map ?g (program_says p))) {}"
    by (rule lexes_lines [OF says]) (simp_all add: lexes_printed lexes_says)
  moreover have "lexes (str_join [CHR 10] (map ?q (program_queries p))) (concat (map printed_query_tokens (program_queries p))) {}"
    by (rule lexes_lines [OF queries]) (simp_all add: lexes_printed lexes_query)
  moreover have "lexes (str_join [CHR 10] (map relation_declaration_ToString (relation_declarations p))) (concat (map ?d (relation_declarations p))) {}"
    by (rule lexes_lines [OF decls]) (simp_all add: lexes_declaration del: statement_tokens.simps)
  ultimately have "lexes (str_join [CHR 10] (map relation_declaration_ToString (relation_declarations p)) @ [CHR 10] @
      str_join [CHR 10] (map ?f (program_says p)) @ [CHR 10] @ str_join [CHR 10] (map ?q (program_queries p)))
      (program_tokens (program_tree_of p) @ concat (map printed_query_tokens (program_queries p))) {}"
    using lexes_append [OF _ lexes_append [OF lexes_space(2) lexes_append [OF _ lexes_append [OF lexes_space(2)]]]]
    by (simp add: program_tokens_def program_tree_of_def comp_def del: statement_tokens.simps(6))
  from lexes_whole [OF this] show ?thesis by (simp add: auth_program_ToString_def texts)
qed

lemma query_not_statement:
  assumes "printable_query q"
  shows "program_tokens t \<noteq> program_tokens t0 @ printed_query_tokens q @ r"
proof (induction t0 arbitrary: t)
  case Nil
  show ?case
  proof
    assume eq: "program_tokens t = program_tokens [] @ printed_query_tokens q @ r"
    then obtain x t' where "t = x # t'" by (cases t) (auto simp: program_tokens_def printed_query_tokens_def)
    with eq have tokens: "statement_tokens x @ program_tokens t' = printed_query_tokens q @ r" by (simp add: program_tokens_def)
    with statement_starts [of x] have "production x = production_of (VARIABLE (query_name q))"
      by (auto simp: printed_query_tokens_def)
    then obtain y where "x = queryStatement y" by (cases x rule: production.cases) (auto simp: production_of_def)
    with tokens show False by (simp add: printed_query_tokens_def)
  qed
next
  case (Cons x t0)
  have ok: "follows {Keyword ''exportTo''} (program_tokens zs @ printed_query_tokens q @ r')"
    "follows {Keyword ''exportTo''} (program_tokens zs)" for zs r'
    using statement_starts [of "hd zs"]
    by (cases zs; auto simp: program_tokens_def printed_query_tokens_def statement_first_def follows_def)+
  show ?case
  proof
    assume eq: "program_tokens t = program_tokens (x # t0) @ printed_query_tokens q @ r"
    with statement_starts [of x] obtain y t' where t: "t = y # t'" by (cases t) (auto simp: program_tokens_def)
    with eq have "statement_tokens y @ program_tokens t' = statement_tokens x @ (program_tokens t0 @ printed_query_tokens q @ r)"
      by (simp add: program_tokens_def)
    from statements.prefix_free [OF this ok(2) ok(1)] Cons.IH show False by blast
  qed
qed

section \<open>Properties\<close>

text \<open>C19: A printed program without queries is read again: its text is made of tokens, a parse tree has
  these tokens, and whatever tree of these tokens the generated parser returns, the program built from it is the printed one, except that a
  custom type \<open>T\<close> has become \<open>T::Custom\<close>. The delegations of a fact come back in their order, and
  so do negations and comparisons. What the grammar asks for is named: principals and constants
  are its string literals, and no clause ends in a variable.\<close>

theorem auth_print_parse:
  assumes "printable_auth_program p"
  shows "\<exists>w. auth_program_ToString p = Inr w \<and> (\<exists>t. auth_lex w = Some (program_tokens t)) \<and>
    (\<forall>antlr t. antlr w = Some t \<longrightarrow> auth_lex w = Some (program_tokens t) \<longrightarrow> auth_ParseProgram antlr w = Inr (suffixed_types p))"
proof -
  have queries: "program_queries p = []" "printable_with_queries p"
    using assms by (simp_all add: printable_auth_program_def printable_with_queries_def)
  from lexes_program [OF queries(2)] queries(1) obtain w where w: "auth_program_ToString p = Inr w"
    "auth_lex w = Some (program_tokens (program_tree_of p))" by auto
  moreover have "auth_ParseProgram antlr w = Inr (suffixed_types p)" if "antlr w = Some t" "auth_lex w = Some (program_tokens t)" for antlr t
  proof -
    have "t = program_tree_of p" using w(2) that(2) program_unambiguous by simp
    then show ?thesis using that(1) ConstructProgram_of [OF assms] by (simp add: auth_ParseProgram_def)
  qed
  ultimately show ?thesis by blast
qed

definition sample_auth_program :: auth_program where
  "sample_auth_program = \<lparr>
     relation_declarations = [\<lparr>relation_name = ''mayRead'', is_attribute = True,
       relation_arguments = [\<lparr>argument_name = ''who'', argument_type = MakePrincipalType\<rparr>,
         \<lparr>argument_name = ''what'', argument_type = MakeCustomType ''File''\<rparr>]\<rparr>],
     program_says = [\<lparr>says_principal = Principal ([quote] @ ''A'' @ [quote]), says_assertions = [
       FactAssertion \<lparr>delegation_chain = [Principal ([quote] @ ''B'' @ [quote]), Principal ([quote] @ ''C'' @ [quote])],
         fact_base = PredicateFact \<lparr>pred_name = ''p'', pred_args = [''x'', ''1''], pred_sign = kNegated\<rparr>\<rparr>,
       Conditional \<lparr>cond_lhs = \<lparr>delegation_chain = [], fact_base = PredicateFact \<lparr>pred_name = ''q'', pred_args = [''x''], pred_sign = kPositive\<rparr>\<rparr>,
         cond_rhs = [PredicateFact \<lparr>pred_name = ''<='', pred_args = [''x'', ''7''], pred_sign = kPositive\<rparr>]\<rparr>]\<rparr>],
     program_queries = []\<rparr>"

theorem auth_print_parse_witness:
  "\<exists>w t. auth_program_ToString sample_auth_program = Inr w \<and> auth_lex w = Some (program_tokens t) \<and>
    auth_ParseProgram (\<lambda>_. Some t) w = Inr (suffixed_types sample_auth_program)"
proof -
  have "printable_auth_program sample_auth_program" by code_simp
  from auth_print_parse [OF this] obtain w t where "auth_program_ToString sample_auth_program = Inr w"
    "auth_lex w = Some (program_tokens t)"
    and parse: "\<And>antlr t. antlr w = Some t \<Longrightarrow> auth_lex w = Some (program_tokens t) \<Longrightarrow>
      auth_ParseProgram antlr w = Inr (suffixed_types sample_auth_program)" by metis
  with parse [of "\<lambda>_. Some t" t] show ?thesis by blast
qed

text \<open>C40: A printed program with a query is never read again: it is made of tokens, but no parse tree
  has them, because the keyword \<^verbatim>\<open>query\<close> is missing.\<close>

theorem printed_query_unreadable:
  assumes "printable_with_queries p" and "program_queries p \<noteq> []"
  shows "\<exists>w ts. auth_program_ToString p = Inr w \<and> auth_lex w = Some ts \<and> (\<forall>t. program_tokens t \<noteq> ts)"
proof -
  obtain q qs where qs: "program_queries p = q # qs" using assms(2) by (cases "program_queries p") auto
  with assms(1) have "printable_query q" by (simp add: printable_with_queries_def)
  from query_not_statement [OF this] lexes_program [OF assms(1)] show ?thesis by (auto simp: qs)
qed

definition sample_query :: query where
  "sample_query = \<lparr>query_name = ''q1'', query_principal = Principal ([quote] @ ''A'' @ [quote]),
     query_fact = \<lparr>delegation_chain = [], fact_base = PredicateFact \<lparr>pred_name = ''p'', pred_args = [''1''], pred_sign = kPositive\<rparr>\<rparr>\<rparr>"

theorem printed_query_unreadable_witness:
  "\<exists>w ts. auth_program_ToString (sample_auth_program\<lparr>program_queries := [sample_query]\<rparr>) = Inr w \<and> auth_lex w = Some ts \<and>
     (\<forall>t. program_tokens t \<noteq> ts)"
proof -
  have "printable_with_queries (sample_auth_program\<lparr>program_queries := [sample_query]\<rparr>)" by code_simp
  from printed_query_unreadable [OF this] show ?thesis by simp
qed

end
