(* ===== verification/Auth_Visitor.thy ===== *)
theory Auth_Visitor imports
  Auth_Ast
begin

text \<open>
  The traversal of the abstract syntax, \<^verbatim>\<open>src/ir/auth_logic/auth_logic_ast_traversing_visitor.h\<close>.
  A visitor is the record of its overridable methods over the state of the derived class;
  \<^verbatim>\<open>Accept\<close> calls back \<^verbatim>\<open>Visit\<close>, so it is the \<open>Visit\<close> function of the node. Where C++ leaves the
  order of evaluating two arguments open, it is left to right here.
\<close>

section \<open>The overridable methods\<close>

type_synonym ('n, 's, 'r) pre_visit = "'n \<Rightarrow> 's \<Rightarrow> ('r \<times> 's) result"
type_synonym ('n, 's, 'r) post_visit = "'n \<Rightarrow> 'r \<Rightarrow> 's \<Rightarrow> ('r \<times> 's) result"

record ('s, 'r) ast_visitor =
  CombineResult :: "'r \<Rightarrow> 'r \<Rightarrow> 'r"
  PreVisit_principal :: "(principal, 's, 'r) pre_visit"
  PostVisit_principal :: "(principal, 's, 'r) post_visit"
  PreVisit_auth_attribute :: "(auth_attribute, 's, 'r) pre_visit"
  PostVisit_auth_attribute :: "(auth_attribute, 's, 'r) post_visit"
  PreVisit_can_act_as :: "(can_act_as, 's, 'r) pre_visit"
  PostVisit_can_act_as :: "(can_act_as, 's, 'r) post_visit"
  PreVisit_base_fact :: "(base_fact, 's, 'r) pre_visit"
  PostVisit_base_fact :: "(base_fact, 's, 'r) post_visit"
  PreVisit_fact :: "(fact, 's, 'r) pre_visit"
  PostVisit_fact :: "(fact, 's, 'r) post_visit"
  PreVisit_conditional :: "(conditional_assertion, 's, 'r) pre_visit"
  PostVisit_conditional :: "(conditional_assertion, 's, 'r) post_visit"
  PreVisit_assertion :: "(assertion, 's, 'r) pre_visit"
  PostVisit_assertion :: "(assertion, 's, 'r) post_visit"
  PreVisit_says :: "(says_assertion, 's, 'r) pre_visit"
  PostVisit_says :: "(says_assertion, 's, 'r) post_visit"
  PreVisit_query :: "(query, 's, 'r) pre_visit"
  PostVisit_query :: "(query, 's, 'r) post_visit"
  PreVisit_program :: "(auth_program, 's, 'r) pre_visit"
  PostVisit_program :: "(auth_program, 's, 'r) post_visit"
  Visit_declaration :: "(relation_declaration, 's, 'r) pre_visit"
  Visit_predicate :: "(dl_predicate, 's, 'r) pre_visit"

definition default_ast_visitor :: "'r \<Rightarrow> ('s, 'r) ast_visitor" where
  "default_ast_visitor d =
     (let pre = (\<lambda>s. Inr (d, s)); post = (\<lambda>r s. Inr (r, s))
      in \<lparr>CombineResult = (\<lambda>left_result right_result. left_result),
      PreVisit_principal = (\<lambda>_. pre), PostVisit_principal = (\<lambda>_. post),
      PreVisit_auth_attribute = (\<lambda>_. pre), PostVisit_auth_attribute = (\<lambda>_. post),
      PreVisit_can_act_as = (\<lambda>_. pre), PostVisit_can_act_as = (\<lambda>_. post),
      PreVisit_base_fact = (\<lambda>_. pre), PostVisit_base_fact = (\<lambda>_. post),
      PreVisit_fact = (\<lambda>_. pre), PostVisit_fact = (\<lambda>_. post),
      PreVisit_conditional = (\<lambda>_. pre), PostVisit_conditional = (\<lambda>_. post),
      PreVisit_assertion = (\<lambda>_. pre), PostVisit_assertion = (\<lambda>_. post),
      PreVisit_says = (\<lambda>_. pre), PostVisit_says = (\<lambda>_. post),
      PreVisit_query = (\<lambda>_. pre), PostVisit_query = (\<lambda>_. post),
      PreVisit_program = (\<lambda>_. pre), PostVisit_program = (\<lambda>_. post),
      Visit_declaration = (\<lambda>_. pre), Visit_predicate = (\<lambda>_. pre)\<rparr>)"

section \<open>The traversal\<close>

definition Visit_principal :: "('s, 'r) ast_visitor \<Rightarrow> principal \<Rightarrow> 's \<Rightarrow> ('r \<times> 's) result" where
  "Visit_principal v p s =
     rbind (PreVisit_principal v p s) (\<lambda>(pre_visit_result, s). PostVisit_principal v p pre_visit_result s)"

definition Visit_attribute :: "('s, 'r) ast_visitor \<Rightarrow> auth_attribute \<Rightarrow> 's \<Rightarrow> ('r \<times> 's) result" where
  "Visit_attribute v a s =
     rbind (PreVisit_auth_attribute v a s) (\<lambda>(pre_visit_result, s).
     rbind (Visit_principal v (attr_principal a) s) (\<lambda>(principal_result, s).
     rbind (Visit_predicate v (attr_predicate a) s) (\<lambda>(predicate_result, s).
     PostVisit_auth_attribute v a
       (CombineResult v (CombineResult v pre_visit_result principal_result) predicate_result) s)))"

definition Visit_can_act_as :: "('s, 'r) ast_visitor \<Rightarrow> can_act_as \<Rightarrow> 's \<Rightarrow> ('r \<times> 's) result" where
  "Visit_can_act_as v c s =
     rbind (PreVisit_can_act_as v c s) (\<lambda>(pre_visit_result, s).
     rbind (Visit_principal v (left_principal c) s) (\<lambda>(left_result, s).
     rbind (Visit_principal v (right_principal c) s) (\<lambda>(right_result, s).
     PostVisit_can_act_as v c
       (CombineResult v (CombineResult v pre_visit_result left_result) right_result) s)))"

definition Visit_base_fact :: "('s, 'r) ast_visitor \<Rightarrow> base_fact \<Rightarrow> 's \<Rightarrow> ('r \<times> 's) result" where
  "Visit_base_fact v b s =
     rbind (PreVisit_base_fact v b s) (\<lambda>(pre_visit_result, s).
     rbind (case b of PredicateFact p \<Rightarrow> Visit_predicate v p s
            | AttributeFact a \<Rightarrow> Visit_attribute v a s
            | CanActAsFact c \<Rightarrow> Visit_can_act_as v c s) (\<lambda>(variant_visit_result, s).
     PostVisit_base_fact v b (CombineResult v pre_visit_result variant_visit_result) s))"

definition FoldAccept ::
  "('s, 'r) ast_visitor \<Rightarrow> ('n \<Rightarrow> 's \<Rightarrow> ('r \<times> 's) result) \<Rightarrow> 'n list \<Rightarrow> 'r \<Rightarrow> 's \<Rightarrow> ('r \<times> 's) result" where
  "FoldAccept v visit container init s =
     fold_result (\<lambda>element (acc, s). rbind (visit element s) (\<lambda>(r, s). Inr (CombineResult v acc r, s)))
       container (init, s)"

definition Visit_fact :: "('s, 'r) ast_visitor \<Rightarrow> fact \<Rightarrow> 's \<Rightarrow> ('r \<times> 's) result" where
  "Visit_fact v f s =
     rbind (PreVisit_fact v f s) (\<lambda>(pre_visit_result, s).
     rbind (FoldAccept v (Visit_principal v) (delegation_chain f) pre_visit_result s) (\<lambda>(deleg_result, s).
     rbind (Visit_base_fact v (fact_base f) s) (\<lambda>(r, s).
     PostVisit_fact v f (CombineResult v deleg_result r) s)))"

definition Visit_conditional :: "('s, 'r) ast_visitor \<Rightarrow> conditional_assertion \<Rightarrow> 's \<Rightarrow> ('r \<times> 's) result" where
  "Visit_conditional v c s =
     rbind (PreVisit_conditional v c s) (\<lambda>(pre_visit_result, s).
     rbind (Visit_fact v (cond_lhs c) s) (\<lambda>(r, s).
     rbind (FoldAccept v (Visit_base_fact v) (cond_rhs c) (CombineResult v pre_visit_result r) s) (\<lambda>(r, s).
     PostVisit_conditional v c r s)))"

definition Visit_assertion :: "('s, 'r) ast_visitor \<Rightarrow> assertion \<Rightarrow> 's \<Rightarrow> ('r \<times> 's) result" where
  "Visit_assertion v a s =
     rbind (PreVisit_assertion v a s) (\<lambda>(pre_visit_result, s).
     rbind (case a of FactAssertion f \<Rightarrow> Visit_fact v f s | Conditional c \<Rightarrow> Visit_conditional v c s)
       (\<lambda>(variant_visit_result, s).
     PostVisit_assertion v a (CombineResult v pre_visit_result variant_visit_result) s))"

definition Visit_says :: "('s, 'r) ast_visitor \<Rightarrow> says_assertion \<Rightarrow> 's \<Rightarrow> ('r \<times> 's) result" where
  "Visit_says v d s =
     rbind (PreVisit_says v d s) (\<lambda>(pre_visit_result, s).
     rbind (Visit_principal v (says_principal d) s) (\<lambda>(r, s).
     rbind (FoldAccept v (Visit_assertion v) (says_assertions d) (CombineResult v pre_visit_result r) s) (\<lambda>(r, s).
     PostVisit_says v d r s)))"

definition Visit_query :: "('s, 'r) ast_visitor \<Rightarrow> query \<Rightarrow> 's \<Rightarrow> ('r \<times> 's) result" where
  "Visit_query v q s =
     rbind (PreVisit_query v q s) (\<lambda>(pre_visit_result, s).
     rbind (Visit_principal v (query_principal q) s) (\<lambda>(principal_result, s).
     rbind (Visit_fact v (query_fact q) s) (\<lambda>(fact_result, s).
     PostVisit_query v q
       (CombineResult v pre_visit_result (CombineResult v principal_result fact_result)) s)))"

definition Visit_program :: "('s, 'r) ast_visitor \<Rightarrow> auth_program \<Rightarrow> 's \<Rightarrow> ('r \<times> 's) result" where
  "Visit_program v prog s =
     rbind (PreVisit_program v prog s) (\<lambda>(pre_visit_result, s).
     rbind (FoldAccept v (Visit_declaration v) (relation_declarations prog) pre_visit_result s) (\<lambda>(r, s).
     rbind (FoldAccept v (Visit_says v) (program_says prog) r s) (\<lambda>(r, s).
     rbind (FoldAccept v (Visit_query v) (program_queries prog) r s) (\<lambda>(r, s).
     PostVisit_program v prog r s))))"

section \<open>Visitors of the leaves\<close>

text \<open>
  The visitors of this program override the methods of principals, predicates and declarations
  only, so they are folds over the leaves in the order of the traversal.
\<close>

datatype leaf = PrincipalLeaf principal | PredicateLeaf dl_predicate | DeclarationLeaf relation_declaration

fun base_leaves :: "base_fact \<Rightarrow> leaf list" where
  "base_leaves (PredicateFact p) = [PredicateLeaf p]"
| "base_leaves (AttributeFact a) = [PrincipalLeaf (attr_principal a), PredicateLeaf (attr_predicate a)]"
| "base_leaves (CanActAsFact c) = [PrincipalLeaf (left_principal c), PrincipalLeaf (right_principal c)]"

definition fact_leaves :: "fact \<Rightarrow> leaf list" where
  "fact_leaves f = map PrincipalLeaf (delegation_chain f) @ base_leaves (fact_base f)"

fun assertion_leaves :: "assertion \<Rightarrow> leaf list" where
  "assertion_leaves (FactAssertion f) = fact_leaves f"
| "assertion_leaves (Conditional c) = fact_leaves (cond_lhs c) @ concat (map base_leaves (cond_rhs c))"

definition says_leaves :: "says_assertion \<Rightarrow> leaf list" where
  "says_leaves d = PrincipalLeaf (says_principal d) # concat (map assertion_leaves (says_assertions d))"

definition query_leaves :: "query \<Rightarrow> leaf list" where
  "query_leaves q = PrincipalLeaf (query_principal q) # fact_leaves (query_fact q)"

definition program_leaves :: "auth_program \<Rightarrow> leaf list" where
  "program_leaves prog = map DeclarationLeaf (relation_declarations prog) @
     concat (map says_leaves (program_says prog)) @ concat (map query_leaves (program_queries prog))"

text \<open>The methods of a leaf visitor and its result: a sum over the leaves.\<close>

definition leaf_visitor ::
  "'r \<Rightarrow> ('r \<Rightarrow> 'r \<Rightarrow> 'r) \<Rightarrow> (leaf \<Rightarrow> 's \<Rightarrow> ('r \<times> 's) result) \<Rightarrow> ('s, 'r) ast_visitor" where
  "leaf_visitor d combine f = (default_ast_visitor d)\<lparr>CombineResult := combine,
     PreVisit_principal := (\<lambda>p. f (PrincipalLeaf p)), Visit_predicate := (\<lambda>p. f (PredicateLeaf p)),
     Visit_declaration := (\<lambda>p. f (DeclarationLeaf p))\<rparr>"

lemma leaf_visitor_simps:
  "CombineResult (leaf_visitor d c f) = c"
  "PreVisit_principal (leaf_visitor d c f) = (\<lambda>p. f (PrincipalLeaf p))"
  "Visit_predicate (leaf_visitor d c f) = (\<lambda>p. f (PredicateLeaf p))"
  "Visit_declaration (leaf_visitor d c f) = (\<lambda>p. f (DeclarationLeaf p))"
  "PostVisit_principal (leaf_visitor d c f) = (\<lambda>_ r s. Inr (r, s))"
  "PreVisit_auth_attribute (leaf_visitor d c f) = (\<lambda>_ s. Inr (d, s))"
  "PostVisit_auth_attribute (leaf_visitor d c f) = (\<lambda>_ r s. Inr (r, s))"
  "PreVisit_can_act_as (leaf_visitor d c f) = (\<lambda>_ s. Inr (d, s))"
  "PostVisit_can_act_as (leaf_visitor d c f) = (\<lambda>_ r s. Inr (r, s))"
  "PreVisit_base_fact (leaf_visitor d c f) = (\<lambda>_ s. Inr (d, s))"
  "PostVisit_base_fact (leaf_visitor d c f) = (\<lambda>_ r s. Inr (r, s))"
  "PreVisit_fact (leaf_visitor d c f) = (\<lambda>_ s. Inr (d, s))"
  "PostVisit_fact (leaf_visitor d c f) = (\<lambda>_ r s. Inr (r, s))"
  "PreVisit_conditional (leaf_visitor d c f) = (\<lambda>_ s. Inr (d, s))"
  "PostVisit_conditional (leaf_visitor d c f) = (\<lambda>_ r s. Inr (r, s))"
  "PreVisit_assertion (leaf_visitor d c f) = (\<lambda>_ s. Inr (d, s))"
  "PostVisit_assertion (leaf_visitor d c f) = (\<lambda>_ r s. Inr (r, s))"
  "PreVisit_says (leaf_visitor d c f) = (\<lambda>_ s. Inr (d, s))"
  "PostVisit_says (leaf_visitor d c f) = (\<lambda>_ r s. Inr (r, s))"
  "PreVisit_query (leaf_visitor d c f) = (\<lambda>_ s. Inr (d, s))"
  "PostVisit_query (leaf_visitor d c f) = (\<lambda>_ r s. Inr (r, s))"
  "PreVisit_program (leaf_visitor d c f) = (\<lambda>_ s. Inr (d, s))"
  "PostVisit_program (leaf_visitor d c f) = (\<lambda>_ r s. Inr (r, s))"
  by (simp_all add: leaf_visitor_def default_ast_visitor_def Let_def)

definition run_leaves ::
  "('r \<Rightarrow> 'r \<Rightarrow> 'r) \<Rightarrow> (leaf \<Rightarrow> 's \<Rightarrow> ('r \<times> 's) result) \<Rightarrow> leaf list \<Rightarrow> 'r \<times> 's \<Rightarrow> ('r \<times> 's) result" where
  "run_leaves combine f = fold_result (\<lambda>leaf (acc, s). rbind (f leaf s) (\<lambda>(r, s). Inr (combine acc r, s)))"

lemma rbind_Inr [simp]: "rbind m Inr = m"
  by (cases m) simp_all

lemma rbind_eta [simp]: "rbind m (\<lambda>(x, y). Inr (x, y)) = m"
  by (cases m) auto

lemma run_leaves_simps [simp]:
  "run_leaves c f [] acc = Inr acc"
  "run_leaves c f (l # ls) (r0, s) = rbind (f l s) (\<lambda>(r, s). run_leaves c f ls (c r0 r, s))"
  "run_leaves c f (ls @ ls') acc = rbind (run_leaves c f ls acc) (run_leaves c f ls')"
  by (simp_all add: run_leaves_def fold_result_append rbind_assoc case_prod_beta')

text \<open>When the results form a monoid with the default value, the traversal adds up the leaves.\<close>

locale result_monoid =
  fixes default :: 'r
    and combine :: "'r \<Rightarrow> 'r \<Rightarrow> 'r"
  assumes combine_assoc: "combine (combine x y) z = combine x (combine y z)"
    and default_left: "combine default x = x"
    and default_right: "combine x default = x"
begin

lemma run_leaves_acc:
  "run_leaves combine f ls (acc, s) = rbind (run_leaves combine f ls (default, s)) (\<lambda>(r, s). Inr (combine acc r, s))"
proof (induction ls arbitrary: acc s)
  case (Cons l ls)
  show ?case
  proof (cases "f l s")
    case (Inr rs)
    obtain r s' where rs: "rs = (r, s')" by (cases rs)
    have "run_leaves combine f ls (combine acc r, s') =
        rbind (run_leaves combine f ls (default, s')) (\<lambda>(q, s). Inr (combine (combine acc r) q, s))"
      by (rule Cons.IH)
    also have "\<dots> = rbind (run_leaves combine f ls (r, s')) (\<lambda>(q, s). Inr (combine acc q, s))"
      by (subst (2) Cons.IH) (simp add: rbind_assoc case_prod_beta' combine_assoc)
    finally show ?thesis by (simp add: Inr rs default_left)
  qed simp
qed (simp add: default_right)

lemma run_leaves_right:
  "rbind m (\<lambda>(r, s). rbind (run_leaves combine f ls (default, s)) (\<lambda>(q, s). Inr (combine r q, s))) =
   rbind m (run_leaves combine f ls)"
  by (cases m) (auto simp: run_leaves_acc [symmetric])

lemma run_leaves_left:
  "rbind (run_leaves combine f ls (default, s)) (\<lambda>(r, s). run_leaves combine f ls' (combine acc r, s)) =
   rbind (run_leaves combine f ls (acc, s)) (run_leaves combine f ls')"
  by (subst (3) run_leaves_acc) (simp add: rbind_assoc case_prod_beta')

abbreviation visitor :: "(leaf \<Rightarrow> 's \<Rightarrow> ('r \<times> 's) result) \<Rightarrow> ('s, 'r) ast_visitor" where
  "visitor \<equiv> leaf_visitor default combine"

lemma Visit_principal_leaf: "Visit_principal (visitor f) p s = f (PrincipalLeaf p) s"
  by (cases "f (PrincipalLeaf p) s") (simp_all add: Visit_principal_def leaf_visitor_simps case_prod_beta')

lemma run_single: "run_leaves combine f [l] (default, s) = f l s"
  by (cases "f l s") (auto simp: default_left)

lemma Visit_base_fact_leaves: "Visit_base_fact (visitor f) b s = run_leaves combine f (base_leaves b) (default, s)"
proof -
  have eta: "rbind m (\<lambda>(x, y). Inr (x, y)) = m" for m :: "('r \<times> 's) result"
    by (cases m) auto
  show ?thesis
    by (cases b) (simp_all add: Visit_base_fact_def Visit_attribute_def Visit_can_act_as_def Visit_principal_leaf
        leaf_visitor_simps default_left rbind_assoc case_prod_beta')
qed

lemma FoldAccept_leaves:
  assumes "\<And>n s. n \<in> set ns \<Longrightarrow> visit n s = run_leaves combine f (leaves n) (default, s)"
  shows "FoldAccept (visitor f) visit ns acc s = run_leaves combine f (concat (map leaves ns)) (acc, s)"
  using assms
proof (induction ns arbitrary: acc s)
  case (Cons n ns)
  have "FoldAccept (visitor f) visit (n # ns) acc s =
      rbind (visit n s) (\<lambda>(r, s). FoldAccept (visitor f) visit ns (combine acc r) s)"
    by (simp add: FoldAccept_def leaf_visitor_simps rbind_assoc case_prod_beta')
  also have "\<dots> = rbind (run_leaves combine f (leaves n) (default, s))
      (\<lambda>(r, s). run_leaves combine f (concat (map leaves ns)) (combine acc r, s))"
    using Cons by simp
  finally show ?case by (simp add: run_leaves_left)
qed (simp add: FoldAccept_def)

lemma Visit_fact_leaves: "Visit_fact (visitor f) x s = run_leaves combine f (fact_leaves x) (default, s)"
proof -
  have deleg: "FoldAccept (visitor f) (Visit_principal (visitor f)) (delegation_chain x) default s =
      run_leaves combine f (concat (map (\<lambda>p. [PrincipalLeaf p]) (delegation_chain x))) (default, s)"
    by (rule FoldAccept_leaves) (simp only: Visit_principal_leaf run_single)
  have "concat (map (\<lambda>p. [PrincipalLeaf p]) ps) = map PrincipalLeaf ps" for ps by (induction ps) simp_all
  then show ?thesis
    using run_leaves_right [of "run_leaves combine f (map PrincipalLeaf (delegation_chain x)) (default, s)" f
        "base_leaves (fact_base x)"] deleg
    by (simp add: Visit_fact_def fact_leaves_def leaf_visitor_simps Visit_base_fact_leaves)
qed

lemma Visit_conditional_leaves:
  "Visit_conditional (visitor f) c s = run_leaves combine f (assertion_leaves (Conditional c)) (default, s)"
proof -
  have "FoldAccept (visitor f) (Visit_base_fact (visitor f)) (cond_rhs c) acc t =
      run_leaves combine f (concat (map base_leaves (cond_rhs c))) (acc, t)" for acc t
    by (rule FoldAccept_leaves) (rule Visit_base_fact_leaves)
  then show ?thesis
    by (simp add: Visit_conditional_def leaf_visitor_simps Visit_fact_leaves default_left case_prod_beta')
qed

lemma Visit_assertion_leaves:
  "Visit_assertion (visitor f) a s = run_leaves combine f (assertion_leaves a) (default, s)"
  by (cases a; cases "run_leaves combine f (assertion_leaves a) (default, s)")
    (auto simp: Visit_assertion_def leaf_visitor_simps Visit_fact_leaves Visit_conditional_leaves default_left)

lemma Visit_says_leaves: "Visit_says (visitor f) d s = run_leaves combine f (says_leaves d) (default, s)"
proof -
  have "FoldAccept (visitor f) (Visit_assertion (visitor f)) (says_assertions d) acc t =
      run_leaves combine f (concat (map assertion_leaves (says_assertions d))) (acc, t)" for acc t
    by (rule FoldAccept_leaves) (rule Visit_assertion_leaves)
  then show ?thesis
    by (simp add: Visit_says_def says_leaves_def leaf_visitor_simps Visit_principal_leaf default_left case_prod_beta')
qed

lemma Visit_query_leaves: "Visit_query (visitor f) q s = run_leaves combine f (query_leaves q) (default, s)"
proof -
  have "rbind m (\<lambda>(r, s). rbind (run_leaves combine f ls (default, s)) (\<lambda>(q, s). Inr (combine r q, s))) =
      rbind m (run_leaves combine f ls)" for m ls by (rule run_leaves_right)
  then show ?thesis
    by (simp add: Visit_query_def query_leaves_def leaf_visitor_simps Visit_principal_leaf Visit_fact_leaves default_left)
qed

lemma Visit_program_leaves:
  "Visit_program (visitor f) prog s = run_leaves combine f (program_leaves prog) (default, s)"
proof -
  have decls: "FoldAccept (visitor f) (\<lambda>p. f (DeclarationLeaf p)) (relation_declarations prog) acc t =
      run_leaves combine f (concat (map (\<lambda>d. [DeclarationLeaf d]) (relation_declarations prog))) (acc, t)" for acc t
    by (rule FoldAccept_leaves) (simp only: run_single)
  have says: "FoldAccept (visitor f) (Visit_says (visitor f)) (program_says prog) acc t =
      run_leaves combine f (concat (map says_leaves (program_says prog))) (acc, t)" for acc t
    by (rule FoldAccept_leaves) (rule Visit_says_leaves)
  have queries: "FoldAccept (visitor f) (Visit_query (visitor f)) (program_queries prog) acc t =
      run_leaves combine f (concat (map query_leaves (program_queries prog))) (acc, t)" for acc t
    by (rule FoldAccept_leaves) (rule Visit_query_leaves)
  have "concat (map (\<lambda>d. [DeclarationLeaf d]) ds) = map DeclarationLeaf ds" for ds by (induction ds) simp_all
  moreover have "run_leaves combine f (ls @ ls') = (\<lambda>a. rbind (run_leaves combine f ls a) (run_leaves combine f ls'))" for ls ls'
    by (rule ext) simp
  ultimately show ?thesis
    by (simp add: Visit_program_def program_leaves_def leaf_visitor_simps decls says queries case_prod_beta')
qed

end

interpretation unit_results: result_monoid "()" "\<lambda>left_result right_result. left_result"
  by unfold_locales simp_all

interpretation list_results: result_monoid "[]" "(@)"
  by unfold_locales simp_all

end
