(* ===== verification/Auth_Environments.thy ===== *)
theory Auth_Environments imports
  Ir_Core Auth_Visitor
begin

text \<open>
  The two symbol tables of authorization logic, built by visitors of the program:
  \<^verbatim>\<open>src/ir/auth_logic/declaration_environment.cc\<close> (a relation's name to its declaration) and
  \<^verbatim>\<open>src/ir/auth_logic/type_environment.cc\<close> (a constant's name to its type). The first is only
  searched and is a map; the second is also iterated over and is a hash map.
\<close>

section \<open>Declarations\<close>

type_synonym declaration_environment = "string \<rightharpoonup> relation_declaration"

definition AddDeclaration ::
  "relation_declaration \<Rightarrow> declaration_environment \<Rightarrow> declaration_environment result" where
  "AddDeclaration rel_decl decl_map =
     (if decl_map (relation_name rel_decl) = None then Inr (decl_map(relation_name rel_decl \<mapsto> rel_decl))
      else Inl (Check_failed ''found multiple declarations''))"

definition RelationDeclarationEnvironmentVisitor :: "(declaration_environment, unit) ast_visitor" where
  "RelationDeclarationEnvironmentVisitor = (default_ast_visitor ())\<lparr>Visit_declaration :=
     (\<lambda>rel_decl decl_map. rbind (AddDeclaration rel_decl decl_map) (\<lambda>decl_map. Inr ((), decl_map)))\<rparr>"

definition DeclarationEnvironment :: "auth_program \<Rightarrow> declaration_environment result" where
  "DeclarationEnvironment prog =
     rbind (Visit_program RelationDeclarationEnvironmentVisitor prog Map.empty) (\<lambda>(_, decl_map). Inr decl_map)"

definition GetDeclarationOrFatal :: "string \<Rightarrow> declaration_environment \<Rightarrow> relation_declaration result" where
  "GetDeclarationOrFatal name decl_env = check_some (decl_env name) ''could not find declaration for relation''"

section \<open>Types of constants\<close>

type_synonym literal_type_map = "(string, argument_type) hash_map"

definition AddTyping ::
  "(string \<Rightarrow> bool) \<Rightarrow> string \<Rightarrow> argument_type \<Rightarrow> literal_type_map \<Rightarrow> literal_type_map result" where
  "AddTyping simple_atoi arg_name arg_type m =
     (if \<not> IsNameConstant simple_atoi arg_name then Inr m
      else case map_of m arg_name of
          None \<Rightarrow> Inr (fst (hm_insert arg_name arg_type m))
        | Some t \<Rightarrow> rbind (check (t = arg_type) ''Type error for constant'') (\<lambda>_. Inr m))"

definition argument_at :: "relation_declaration \<Rightarrow> nat \<Rightarrow> argument result" where
  "argument_at decl i =
     deref (if i < length (relation_arguments decl) then Some (relation_arguments decl ! i) else None)
       ''decl.arguments()[i]''"

definition type_principal ::
  "(string \<Rightarrow> bool) \<Rightarrow> principal \<Rightarrow> literal_type_map \<Rightarrow> literal_type_map result" where
  "type_principal simple_atoi p m = AddTyping simple_atoi (principal_name p) MakePrincipalType m"

definition type_predicate ::
  "(string \<Rightarrow> bool) \<Rightarrow> declaration_environment \<Rightarrow> dl_predicate \<Rightarrow> literal_type_map \<Rightarrow> literal_type_map result" where
  "type_predicate simple_atoi decl_env pred m =
     (if IsNumericOperator pred then
        fold_result (\<lambda>arg. AddTyping simple_atoi arg MakeNumberType) (pred_args pred) m
      else rbind (GetDeclarationOrFatal (pred_name pred) decl_env) (\<lambda>decl.
        fold_result (\<lambda>i m. rbind (argument_at decl i) (\<lambda>a.
            AddTyping simple_atoi (pred_args pred ! i) (argument_type a) m))
          [0..<length (pred_args pred)] m))"

definition TypeEnvironmentGenerationVisitor ::
  "(string \<Rightarrow> bool) \<Rightarrow> declaration_environment \<Rightarrow> (literal_type_map, unit) ast_visitor" where
  "TypeEnvironmentGenerationVisitor simple_atoi decl_env = (default_ast_visitor ())\<lparr>
     PreVisit_principal := (\<lambda>p m. rbind (type_principal simple_atoi p m) (\<lambda>m. Inr ((), m))),
     Visit_predicate := (\<lambda>pred m. rbind (type_predicate simple_atoi decl_env pred m) (\<lambda>m. Inr ((), m)))\<rparr>"

definition TypeEnvironment ::
  "(string \<Rightarrow> bool) \<Rightarrow> declaration_environment \<Rightarrow> auth_program \<Rightarrow> literal_type_map result" where
  "TypeEnvironment simple_atoi decl_env prog =
     rbind (Visit_program (TypeEnvironmentGenerationVisitor simple_atoi decl_env) prog []) (\<lambda>(_, m). Inr m)"

definition GetTypingOrFatal :: "string \<Rightarrow> literal_type_map \<Rightarrow> argument_type result" where
  "GetTypingOrFatal name m = check_some (map_of m name) ''Could not find typing for argument''"

section \<open>The declaration environment\<close>

interpretation declarations: node_registry AddDeclaration "\<lambda>k m. m k" relation_name "\<lambda>d. d"
  by unfold_locales (auto simp: AddDeclaration_def split: if_splits)

text \<open>A visitor whose results are units folds its effect over the leaves.\<close>

lemma run_unit_leaves:
  "run_leaves (\<lambda>l r. l) (\<lambda>l s. rbind (f l s) (\<lambda>s. Inr ((), s))) ls (u, s) = rbind (fold_result f ls s) (\<lambda>s. Inr (u, s))"
  by (induction ls arbitrary: s) (simp_all add: rbind_assoc)

lemma visit_unit_program:
  "rbind (Visit_program (leaf_visitor () (\<lambda>l r. l) (\<lambda>l s. rbind (f l s) (\<lambda>s. Inr ((), s)))) prog s) (\<lambda>(_, s). Inr s) =
   fold_result f (program_leaves prog) s"
  by (simp only: unit_results.Visit_program_leaves run_unit_leaves rbind_assoc rbind_simps prod.case rbind_Inr)

definition declare_leaf :: "leaf \<Rightarrow> declaration_environment \<Rightarrow> declaration_environment result" where
  "declare_leaf l m = (case l of DeclarationLeaf d \<Rightarrow> AddDeclaration d m | _ \<Rightarrow> Inr m)"

lemma fold_declare_leaf:
  "fold_result declare_leaf (map DeclarationLeaf ds @ ls) m = rbind (fold_result AddDeclaration ds m) (fold_result declare_leaf ls)"
proof (induction ds arbitrary: m)
  case (Cons d ds)
  then show ?case by (cases "AddDeclaration d m") (simp_all add: declare_leaf_def)
qed simp

lemma base_leaves_no_declaration: "DeclarationLeaf d \<notin> set (base_leaves b)"
  by (cases b) auto

lemma assertion_leaves_no_declaration: "DeclarationLeaf d \<notin> set (assertion_leaves a)"
  by (cases a) (auto simp: fact_leaves_def base_leaves_no_declaration)

lemma fold_declare_other: "(\<And>d. DeclarationLeaf d \<notin> set ls) \<Longrightarrow> fold_result declare_leaf ls m = Inr m"
proof (induction ls)
  case (Cons l ls)
  then show ?case by (cases l) (auto simp: declare_leaf_def)
qed simp

lemma DeclarationEnvironment_eq: "DeclarationEnvironment prog = fold_result AddDeclaration (relation_declarations prog) Map.empty"
proof -
  have visitor: "RelationDeclarationEnvironmentVisitor =
      leaf_visitor () (\<lambda>l r. l) (\<lambda>l m. rbind (declare_leaf l m) (\<lambda>m. Inr ((), m)))"
    by (simp add: RelationDeclarationEnvironmentVisitor_def leaf_visitor_def default_ast_visitor_def Let_def
        declare_leaf_def)
  have "fold_result declare_leaf (concat (map says_leaves ss) @ concat (map query_leaves qs)) m = Inr m" for ss qs m
    by (rule fold_declare_other)
      (auto simp: says_leaves_def query_leaves_def fact_leaves_def base_leaves_no_declaration
        assertion_leaves_no_declaration)
  then have "fold_result declare_leaf (program_leaves prog) Map.empty =
      fold_result AddDeclaration (relation_declarations prog) Map.empty"
    by (cases "fold_result AddDeclaration (relation_declarations prog) Map.empty")
      (simp_all add: program_leaves_def fold_declare_leaf)
  then show ?thesis
    by (simp only: DeclarationEnvironment_def visitor visit_unit_program)
qed

text \<open>Building the declaration environment succeeds exactly when no two declarations of the
  program have the same name, whatever assertions and queries it has; it then finds for every name
  the declaration of that name, and aborts otherwise.\<close>
theorem declaration_environment_correct:
  "DeclarationEnvironment prog =
     (if distinct (map relation_name (relation_declarations prog))
      then Inr (map_of (map (\<lambda>d. (relation_name d, d)) (relation_declarations prog)))
      else Inl (Check_failed ''found multiple declarations''))"
proof -
  let ?ds = "relation_declarations prog"
  have find_map: "map_of (map (\<lambda>d. (relation_name d, d)) ds) k = find (\<lambda>d. relation_name d = k) ds" for ds k
    by (induction ds) auto
  have abort: "fold_result AddDeclaration ds m = Inl e \<Longrightarrow> e = Check_failed ''found multiple declarations''" for ds m e
  proof (induction ds arbitrary: m)
    case (Cons d ds)
    then show ?case by (cases "AddDeclaration d m") (auto simp: AddDeclaration_def split: if_splits)
  qed simp
  have iff: "is_ok (fold_result AddDeclaration ?ds Map.empty) \<longleftrightarrow> distinct (map relation_name ?ds)"
    by (simp add: declarations.register_all_iff)
  show ?thesis
  proof (cases "fold_result AddDeclaration ?ds Map.empty")
    case (Inl e)
    with iff abort show ?thesis by (auto simp: DeclarationEnvironment_eq)
  next
    case (Inr env)
    have "env k = map_of (map (\<lambda>d. (relation_name d, d)) ?ds) k" for k
      using declarations.lookup_register_all [OF Inr, of k] by (simp add: find_map split: option.splits)
    then have "env = map_of (map (\<lambda>d. (relation_name d, d)) ?ds)" by (rule ext)
    with iff Inr show ?thesis by (simp add: DeclarationEnvironment_eq)
  qed
qed

section \<open>The type environment\<close>

text \<open>The uses of names that the visitor types: every principal, every argument of an operator and
  every argument of a declared predicate.\<close>

definition predicate_typings :: "declaration_environment \<Rightarrow> dl_predicate \<Rightarrow> (string \<times> argument_type) list" where
  "predicate_typings env p =
     (if IsNumericOperator p then map (\<lambda>a. (a, MakeNumberType)) (pred_args p)
      else case env (pred_name p) of None \<Rightarrow> []
        | Some d \<Rightarrow> zip (pred_args p) (map argument_type (relation_arguments d)))"

fun leaf_typings :: "declaration_environment \<Rightarrow> leaf \<Rightarrow> (string \<times> argument_type) list" where
  "leaf_typings env (PrincipalLeaf p) = [(principal_name p, MakePrincipalType)]"
| "leaf_typings env (PredicateLeaf p) = predicate_typings env p"
| "leaf_typings env (DeclarationLeaf d) = []"

fun leaf_declared :: "declaration_environment \<Rightarrow> leaf \<Rightarrow> bool" where
  "leaf_declared env (PredicateLeaf p) \<longleftrightarrow> IsNumericOperator p \<or>
     (\<exists>d. env (pred_name p) = Some d \<and> length (pred_args p) \<le> length (relation_arguments d))"
| "leaf_declared env _ \<longleftrightarrow> True"

definition program_typings :: "declaration_environment \<Rightarrow> auth_program \<Rightarrow> (string \<times> argument_type) list" where
  "program_typings env prog = concat (map (leaf_typings env) (program_leaves prog))"

definition add_typing :: "(string \<Rightarrow> bool) \<Rightarrow> string \<times> argument_type \<Rightarrow> literal_type_map \<Rightarrow> literal_type_map result" where
  "add_typing simple_atoi xt = AddTyping simple_atoi (fst xt) (snd xt)"

definition type_leaf ::
  "(string \<Rightarrow> bool) \<Rightarrow> declaration_environment \<Rightarrow> leaf \<Rightarrow> literal_type_map \<Rightarrow> literal_type_map result" where
  "type_leaf simple_atoi env l m = (case l of PrincipalLeaf p \<Rightarrow> type_principal simple_atoi p m
     | PredicateLeaf p \<Rightarrow> type_predicate simple_atoi env p m | DeclarationLeaf d \<Rightarrow> Inr m)"

lemma TypeEnvironment_eq: "TypeEnvironment simple_atoi env prog = fold_result (type_leaf simple_atoi env) (program_leaves prog) []"
proof -
  have "TypeEnvironmentGenerationVisitor simple_atoi env =
      leaf_visitor () (\<lambda>l r. l) (\<lambda>l m. rbind (type_leaf simple_atoi env l m) (\<lambda>m. Inr ((), m)))"
    by (simp add: TypeEnvironmentGenerationVisitor_def leaf_visitor_def default_ast_visitor_def Let_def type_leaf_def)
  then show ?thesis by (simp only: TypeEnvironment_def visit_unit_program)
qed

lemma fold_result_eta [simp]: "fold_result f [] = Inr" "fold_result f [x] = f x"
proof -
  show nil: "fold_result f [] = Inr" by (rule ext) simp
  show "fold_result f [x] = f x" by (rule ext) (simp add: nil)
qed

lemma fold_index_zip:
  assumes "length xs \<le> length (relation_arguments d)"
  shows "fold_result (\<lambda>i m. rbind (argument_at d i) (\<lambda>a. AddTyping simple_atoi (xs ! i) (argument_type a) m)) [0..<length xs] m =
    fold_result (add_typing simple_atoi) (zip xs (map argument_type (relation_arguments d))) m"
    (is "fold_result (?F xs) _ m = _")
  using assms
proof (induction xs arbitrary: m rule: rev_induct)
  case (snoc x xs)
  let ?ts = "map argument_type (relation_arguments d)" and ?t = "argument_type (relation_arguments d ! length xs)"
  have "drop (length xs) ?ts = ?t # drop (Suc (length xs)) ?ts"
    using snoc.prems by (simp add: Cons_nth_drop_Suc [symmetric] drop_map)
  moreover have "zip xs (take (length xs) ?ts) = zip xs ?ts"
    using take_zip [of "length xs" xs ?ts] by simp
  ultimately have zip: "zip (xs @ [x]) ?ts = zip xs ?ts @ [(x, ?t)]"
    by (simp add: zip_append1)
  have same: "fold_result (?F (xs @ [x])) [0..<length xs] m = fold_result (?F xs) [0..<length xs] m"
    by (rule fold_result_cong) (simp add: nth_append)
  have last: "?F (xs @ [x]) (length xs) = add_typing simple_atoi (x, ?t)"
    using snoc.prems by (simp add: argument_at_def add_typing_def fun_eq_iff)
  have "fold_result (?F (xs @ [x])) [0..<length (xs @ [x])] m =
      rbind (fold_result (?F (xs @ [x])) [0..<length xs] m) (?F (xs @ [x]) (length xs))"
    by (simp only: length_append_singleton upt_Suc_append le0 fold_result_append fold_result_eta)
  also have "\<dots> = rbind (fold_result (add_typing simple_atoi) (zip xs ?ts) m) (add_typing simple_atoi (x, ?t))"
    using snoc by (simp only: same last) simp
  finally show ?case by (simp only: zip fold_result_append fold_result_eta)
qed simp

lemma type_leaf_declared:
  "leaf_declared env l \<Longrightarrow> type_leaf simple_atoi env l m = fold_result (add_typing simple_atoi) (leaf_typings env l) m"
proof (cases l)
  case (PredicateLeaf p)
  have "fold_result (\<lambda>arg. AddTyping simple_atoi arg MakeNumberType) xs m =
      fold_result (add_typing simple_atoi) (map (\<lambda>a. (a, MakeNumberType)) xs) m" for xs
  proof (induction xs arbitrary: m)
    case (Cons x xs)
    then show ?case by (cases "AddTyping simple_atoi x MakeNumberType m") (simp_all add: add_typing_def)
  qed simp
  moreover assume "leaf_declared env l"
  ultimately show ?thesis
    by (auto simp: PredicateLeaf type_leaf_def type_predicate_def predicate_typings_def GetDeclarationOrFatal_def
        fold_index_zip)
qed (simp_all add: type_leaf_def type_principal_def add_typing_def)

lemma type_leaf_undeclared: "\<not> leaf_declared env l \<Longrightarrow> \<not> is_ok (type_leaf simple_atoi env l m)"
proof (cases l)
  case (PredicateLeaf p)
  assume undeclared: "\<not> leaf_declared env l"
  show ?thesis
  proof (cases "env (pred_name p)")
    case None
    with undeclared show ?thesis
      by (simp add: PredicateLeaf type_leaf_def type_predicate_def GetDeclarationOrFatal_def)
  next
    case (Some d)
    with undeclared have short: "length (relation_arguments d) < length (pred_args p)"
      and not_op: "\<not> IsNumericOperator p" by (auto simp: PredicateLeaf)
    have out: "argument_at d (length (relation_arguments d)) = Inl (Undefined_behaviour ''decl.arguments()[i]'')"
      by (simp add: argument_at_def)
    have "\<not> is_ok (fold_result f (is @ i # js) s)" if "\<And>s. \<not> is_ok (f i s)" for f :: "nat \<Rightarrow> literal_type_map \<Rightarrow> literal_type_map result" and "is" i js s
      by (auto simp: fold_result_append is_ok_rbind) (metis is_ok_simps(1) that)
    moreover have "[0..<length (pred_args p)] = [0..<length (relation_arguments d)] @
        length (relation_arguments d) # [Suc (length (relation_arguments d))..<length (pred_args p)]"
      using short by (metis le0 less_imp_le_nat upt_add_eq_append upt_conv_Cons le_add_diff_inverse)
    ultimately show ?thesis
      using not_op by (simp add: PredicateLeaf type_leaf_def type_predicate_def GetDeclarationOrFatal_def Some out)
  qed
qed simp_all

text \<open>Adding typings succeeds when no constant has two types.\<close>

lemma add_typings:
  assumes "hm_wf m"
  shows "case fold_result (add_typing simple_atoi) ts m of
      Inl e \<Rightarrow> \<exists>x t t'. IsNameConstant simple_atoi x \<and> (x, t) \<in> set ts \<and> ((x, t') \<in> set ts \<or> map_of m x = Some t') \<and> t \<noteq> t'
    | Inr m' \<Rightarrow> hm_wf m' \<and> (\<forall>x t. map_of m' x = Some t \<longleftrightarrow>
        map_of m x = Some t \<or> IsNameConstant simple_atoi x \<and> (x, t) \<in> set ts)"
  using assms
proof (induction ts arbitrary: m)
  case (Cons xt ts)
  obtain x t where xt: "xt = (x, t)" by (cases xt)
  note add = add_typing_def AddTyping_def
  consider (skip) "\<not> IsNameConstant simple_atoi x"
    | (new) "IsNameConstant simple_atoi x" "map_of m x = None"
    | (old) "IsNameConstant simple_atoi x" "map_of m x = Some t"
    | (clash) t' where "IsNameConstant simple_atoi x" "map_of m x = Some t'" "t' \<noteq> t" by fastforce
  then show ?case
  proof cases
    case skip
    with Cons.IH [OF Cons.prems] show ?thesis by (auto simp: xt add split: sum.splits)
  next
    case new
    have "hm_wf (fst (hm_insert x t m))" using Cons.prems by simp
    from Cons.IH [OF this] new show ?thesis
      by (fastforce simp: xt add map_of_hm_insert split: sum.splits if_splits)
  next
    case old
    with Cons.IH [OF Cons.prems] show ?thesis by (fastforce simp: xt add split: sum.splits)
  next
    case clash
    then show ?thesis by (auto simp: xt add)
  qed
qed simp

lemma type_leaves:
  assumes "\<forall>l \<in> set ls. leaf_declared env l"
  shows "fold_result (type_leaf simple_atoi env) ls m = fold_result (add_typing simple_atoi) (concat (map (leaf_typings env) ls)) m"
  using assms
proof (induction ls arbitrary: m)
  case (Cons l ls)
  then show ?case
    by (cases "fold_result (add_typing simple_atoi) (leaf_typings env l) m")
      (simp_all add: fold_result_append type_leaf_declared)
qed simp

lemma type_leaves_undeclared:
  assumes "\<exists>l \<in> set ls. \<not> leaf_declared env l"
  shows "\<not> is_ok (fold_result (type_leaf simple_atoi env) ls m)"
  using assms
proof (induction ls arbitrary: m)
  case (Cons l ls)
  then show ?case
    using type_leaf_undeclared [of env l simple_atoi m] by (cases "type_leaf simple_atoi env l m") auto
qed simp

text \<open>C24: The type environment of a program exists exactly when every predicate that is not an
  operator is declared with enough arguments and no constant is used at two types; every use of a
  constant then has the type the environment gives it, and the environment holds nothing else.\<close>
theorem type_environment_correct:
  "case TypeEnvironment simple_atoi env prog of
     Inl e \<Rightarrow> (\<exists>l \<in> set (program_leaves prog). \<not> leaf_declared env l) \<or>
       (\<exists>x t t'. IsNameConstant simple_atoi x \<and> (x, t) \<in> set (program_typings env prog) \<and>
          (x, t') \<in> set (program_typings env prog) \<and> t \<noteq> t')
   | Inr types \<Rightarrow> hm_wf types \<and> (\<forall>l \<in> set (program_leaves prog). leaf_declared env l) \<and>
       (\<forall>x t. map_of types x = Some t \<longleftrightarrow> IsNameConstant simple_atoi x \<and> (x, t) \<in> set (program_typings env prog))"
proof (cases "\<forall>l \<in> set (program_leaves prog). leaf_declared env l")
  case True
  then show ?thesis
    using add_typings [of "[]" simple_atoi "program_typings env prog"]
    by (auto simp: TypeEnvironment_eq type_leaves program_typings_def split: sum.splits)
next
  case False
  then show ?thesis
    using type_leaves_undeclared [of "program_leaves prog" env simple_atoi "[]"]
    by (auto simp: TypeEnvironment_eq split: sum.splits)
qed

definition typed_program :: auth_program where
  "typed_program = \<lparr>relation_declarations = [\<lparr>relation_name = ''foo'', is_attribute = False, relation_arguments =
       [\<lparr>argument_name = ''x'', argument_type = MakeCustomType ''T''\<rparr>]\<rparr>],
     program_says = [\<lparr>says_principal = Principal [quote, CHR ''A'', quote], says_assertions =
       [FactAssertion \<lparr>delegation_chain = [], fact_base = PredicateFact
          \<lparr>pred_name = ''foo'', pred_args = [[quote, CHR ''c'', quote]], pred_sign = kPositive\<rparr>\<rparr>]\<rparr>],
     program_queries = []\<rparr>"

theorem type_environment_correct_witness:
  "\<exists>types. rbind (DeclarationEnvironment typed_program) (\<lambda>env. TypeEnvironment (\<lambda>_. False) env typed_program) = Inr types \<and>
     hm_wf types \<and> map_of types [quote, CHR ''c'', quote] = Some (MakeCustomType ''T'') \<and>
     map_of types [quote, CHR ''A'', quote] = Some MakePrincipalType"
proof -
  let ?env = "map_of [(''foo'', hd (relation_declarations typed_program))]"
  have "is_ok (TypeEnvironment (\<lambda>_. False) ?env typed_program)" by code_simp
  then obtain types where types: "TypeEnvironment (\<lambda>_. False) ?env typed_program = Inr types" by (auto simp: is_ok_iff)
  moreover have "DeclarationEnvironment typed_program = Inr ?env"
    by (simp add: DeclarationEnvironment_eq typed_program_def AddDeclaration_def fun_eq_iff)
  moreover have "IsNameConstant (\<lambda>_. False) [quote, c, quote]" for c by (simp add: IsNameConstant_def)
  moreover have "set (program_typings ?env typed_program) =
      {([quote, CHR ''A'', quote], MakePrincipalType), ([quote, CHR ''c'', quote], MakeCustomType ''T'')}"
    by (simp add: program_typings_def typed_program_def program_leaves_def says_leaves_def fact_leaves_def
        predicate_typings_def IsNumericOperator_def numeric_operators_def)
  ultimately show ?thesis
    using type_environment_correct [where env = ?env and prog = typed_program and simple_atoi = "\<lambda>_. False"] by simp
qed

end
