(* ===== verification/Auth_Lowering.thy ===== *)
theory Auth_Lowering imports
  Auth_Ast
begin

text \<open>
  The lowering of authorization logic to datalog: \<^verbatim>\<open>src/ir/auth_logic/lowering_ast_datalog.h\<close>
  and \<^verbatim>\<open>lowering_ast_datalog.cc\<close>. The pass is a class with a counter for fresh variables and
  a map of the delegation depths; both are threaded through here. The map is iterated
  over once, in an order that is a parameter.
\<close>

section \<open>Predicates\<close>

definition PushOntoPredicate :: "string \<Rightarrow> string list \<Rightarrow> dl_predicate \<Rightarrow> dl_predicate" where
  "PushOntoPredicate modifier new_args p =
     \<lparr>pred_name = modifier @ pred_name p, pred_args = new_args @ pred_args p, pred_sign = pred_sign p\<rparr>"

definition PushPrincipal :: "string \<Rightarrow> principal \<Rightarrow> dl_predicate \<Rightarrow> dl_predicate" where
  "PushPrincipal modifier prin p = PushOntoPredicate modifier [principal_name prin] p"

definition AttributeToDLIR :: "auth_attribute \<Rightarrow> dl_predicate" where
  "AttributeToDLIR a = PushPrincipal [] (attr_principal a) (attr_predicate a)"

definition CanActAsToDLIR :: "can_act_as \<Rightarrow> dl_predicate" where
  "CanActAsToDLIR c = \<lparr>pred_name = ''canActAs'',
     pred_args = [principal_name (left_principal c), principal_name (right_principal c)], pred_sign = kPositive\<rparr>"

section \<open>The pass\<close>

record lowering =
  fresh_var_count :: nat
  can_say_depth :: "(string, nat) hash_map"

definition new_lowering :: lowering where
  "new_lowering = \<lparr>fresh_var_count = 0, can_say_depth = []\<rparr>"

definition uint64_max :: int where
  "uint64_max = 18446744073709551615"

definition FreshVar :: "lowering \<Rightarrow> (string \<times> lowering) result" where
  "FreshVar st = rbind (check (int (fresh_var_count st) < uint64_max) ''fresh_var_count_ < max'') (\<lambda>_.
     Inr (''x__'' @ string_of_nat (fresh_var_count st + 1), st\<lparr>fresh_var_count := fresh_var_count st + 1\<rparr>))"

definition UpdateCanSayDepth :: "string \<Rightarrow> nat \<Rightarrow> lowering \<Rightarrow> lowering" where
  "UpdateCanSayDepth name depth st =
     (case map_of (can_say_depth st) name of
        None \<Rightarrow> st\<lparr>can_say_depth := fst (hm_insert name depth (can_say_depth st))\<rparr>
      | Some d \<Rightarrow> st\<lparr>can_say_depth := hm_assign name (max depth d) (can_say_depth st)\<rparr>)"

definition SpokenAttributeToDLIR :: "principal \<Rightarrow> auth_attribute \<Rightarrow> lowering \<Rightarrow> (rule \<times> lowering) result" where
  "SpokenAttributeToDLIR speaker a st =
     rbind (FreshVar st) (\<lambda>(y, st).
     let prin_y = Principal y;
         y_predX = AttributeToDLIR \<lparr>attr_principal = prin_y, attr_predicate = attr_predicate a\<rparr>;
         generated_lhs = PushPrincipal ''says_'' speaker y_predX;
         y_can_act_as_x = CanActAsToDLIR \<lparr>left_principal = prin_y, right_principal = attr_principal a\<rparr>;
         main_predicate = AttributeToDLIR a
     in Inr (\<lparr>rule_lhs = generated_lhs, rule_rhs = [PushPrincipal ''says_'' speaker y_can_act_as_x,
               PushPrincipal ''says_'' speaker main_predicate]\<rparr>, st))"

definition SpokenCanActAsToDLIR :: "principal \<Rightarrow> can_act_as \<Rightarrow> lowering \<Rightarrow> (rule \<times> lowering) result" where
  "SpokenCanActAsToDLIR speaker c st =
     rbind (FreshVar st) (\<lambda>(y, st).
     let prin_y = Principal y;
         y_can_act_as_z = CanActAsToDLIR \<lparr>left_principal = prin_y, right_principal = right_principal c\<rparr>;
         generated_lhs = PushPrincipal ''says_'' speaker y_can_act_as_z;
         y_can_act_as_x = CanActAsToDLIR \<lparr>left_principal = prin_y, right_principal = left_principal c\<rparr>;
         main_predicate = CanActAsToDLIR c
     in Inr (\<lparr>rule_lhs = generated_lhs, rule_rhs = [PushPrincipal ''says_'' speaker y_can_act_as_x,
               PushPrincipal ''says_'' speaker main_predicate]\<rparr>, st))"

fun BaseFactToDLIR :: "principal \<Rightarrow> base_fact \<Rightarrow> lowering \<Rightarrow> ((dl_predicate \<times> rule list) \<times> lowering) result" where
  "BaseFactToDLIR speaker (PredicateFact p) st = Inr ((p, []), st)"
| "BaseFactToDLIR speaker (AttributeFact a) st =
     rbind (SpokenAttributeToDLIR speaker a st) (\<lambda>(r, st). Inr ((AttributeToDLIR a, [r]), st))"
| "BaseFactToDLIR speaker (CanActAsFact c) st =
     rbind (SpokenCanActAsToDLIR speaker c st) (\<lambda>(r, st). Inr ((CanActAsToDLIR c, [r]), st))"

text \<open>One principal of the delegation chain: the inner predicate so far, and the rules so far.\<close>

definition delegate ::
  "principal \<Rightarrow> principal \<Rightarrow> (dl_predicate \<times> rule list) \<times> lowering \<Rightarrow> ((dl_predicate \<times> rule list) \<times> lowering) result" where
  "delegate speaker delegatee acc =
     (case acc of ((inner_fact_dlir, gen_rules), st) \<Rightarrow>
        rbind (FreshVar st) (\<lambda>(x, st).
        let fresh_principal = Principal x;
            lhs = PushPrincipal ''says_'' speaker inner_fact_dlir;
            fresh_prin_says_inner = PushPrincipal ''says_'' fresh_principal inner_fact_dlir;
            speaker_says_fresh_cansay_inner =
              PushPrincipal ''says_'' speaker (PushPrincipal ''canSay_'' fresh_principal inner_fact_dlir);
            prin_cansay_pred = PushPrincipal ''canSay_'' delegatee inner_fact_dlir
        in Inr ((prin_cansay_pred, gen_rules @
             [\<lparr>rule_lhs = lhs, rule_rhs = [fresh_prin_says_inner, speaker_says_fresh_cansay_inner]\<rparr>]), st)))"

definition FactToDLIR :: "principal \<Rightarrow> fact \<Rightarrow> lowering \<Rightarrow> ((dl_predicate \<times> rule list) \<times> lowering) result" where
  "FactToDLIR speaker f st =
     rbind (BaseFactToDLIR speaker (fact_base f) st) (\<lambda>((base, gen_rules), st).
     rbind (fold_result (delegate speaker) (delegation_chain f) ((base, gen_rules), st)) (\<lambda>(r, st).
     Inr (r, UpdateCanSayDepth (pred_name base) (length (delegation_chain f)) st)))"

definition GenerateDLIRAssertions_fact :: "principal \<Rightarrow> fact \<Rightarrow> lowering \<Rightarrow> (rule list \<times> lowering) result" where
  "GenerateDLIRAssertions_fact speaker f st =
     rbind (FactToDLIR speaker f st) (\<lambda>((fact_predicate, generated_rules), st).
     Inr (generated_rules @ [make_fact (PushPrincipal ''says_'' speaker fact_predicate)], st))"

definition condition_to_DLIR :: "principal \<Rightarrow> base_fact \<Rightarrow> lowering \<Rightarrow> (dl_predicate \<times> lowering) result" where
  "condition_to_DLIR speaker b st =
     rbind (BaseFactToDLIR speaker b st) (\<lambda>((dlir_translation, _), st).
     Inr (PushPrincipal ''says_'' speaker dlir_translation, st))"

definition GenerateDLIRAssertions_conditional ::
  "principal \<Rightarrow> conditional_assertion \<Rightarrow> lowering \<Rightarrow> (rule list \<times> lowering) result" where
  "GenerateDLIRAssertions_conditional speaker c st =
     rbind (map_state (condition_to_DLIR speaker) (cond_rhs c) st) (\<lambda>(dlir_rhs, st).
     rbind (FactToDLIR speaker (cond_lhs c) st) (\<lambda>((dlir_lhs, gen_rules), st).
     let dlir_lhs_prime = PushPrincipal ''says_'' speaker dlir_lhs
     in Inr (gen_rules @ [\<lparr>rule_lhs = dlir_lhs_prime, rule_rhs = dlir_rhs\<rparr>], st)))"

fun SingleSaysAssertionToDLIR :: "principal \<Rightarrow> assertion \<Rightarrow> lowering \<Rightarrow> (rule list \<times> lowering) result" where
  "SingleSaysAssertionToDLIR speaker (FactAssertion f) st = GenerateDLIRAssertions_fact speaker f st"
| "SingleSaysAssertionToDLIR speaker (Conditional c) st = GenerateDLIRAssertions_conditional speaker c st"

definition SaysAssertionToDLIR :: "says_assertion \<Rightarrow> lowering \<Rightarrow> (rule list \<times> lowering) result" where
  "SaysAssertionToDLIR s st =
     rbind (map_state (SingleSaysAssertionToDLIR (says_principal s)) (says_assertions s) st)
       (\<lambda>(rs, st). Inr (concat rs, st))"

definition SaysAssertionsToDLIR :: "says_assertion list \<Rightarrow> lowering \<Rightarrow> (rule list \<times> lowering) result" where
  "SaysAssertionsToDLIR ss st = rbind (map_state SaysAssertionToDLIR ss st) (\<lambda>(rs, st). Inr (concat rs, st))"

definition dummy_constant :: string where
  "dummy_constant = [CHR 0x22] @ ''dummy_var'' @ [CHR 0x22]"

definition kDummyPredicate :: dl_predicate where
  "kDummyPredicate = \<lparr>pred_name = ''grounded_dummy'', pred_args = [dummy_constant], pred_sign = kPositive\<rparr>"

definition query_to_DLIR :: "query \<Rightarrow> lowering \<Rightarrow> (rule \<times> lowering) result" where
  "query_to_DLIR q st =
     rbind (FactToDLIR (query_principal q) (query_fact q) st) (\<lambda>((main_pred, _), st).
     let main_pred = PushPrincipal ''says_'' (query_principal q) main_pred;
         lhs = \<lparr>pred_name = query_name q, pred_args = [dummy_constant], pred_sign = kPositive\<rparr>
     in Inr (\<lparr>rule_lhs = lhs, rule_rhs = [main_pred, kDummyPredicate]\<rparr>, st))"

definition QueriesToDLIR :: "query list \<Rightarrow> lowering \<Rightarrow> (rule list \<times> lowering) result" where
  "QueriesToDLIR qs st = map_state query_to_DLIR qs st"

section \<open>Declarations\<close>

definition TransformAttributeDeclarations :: "relation_declaration list \<Rightarrow> relation_declaration list" where
  "TransformAttributeDeclarations ds = map (\<lambda>d. if \<not> is_attribute d then d else
     \<lparr>relation_name = relation_name d, is_attribute = False,
      relation_arguments = \<lparr>argument_name = ''attribute_prin'', argument_type = MakePrincipalType\<rparr> #
        relation_arguments d\<rparr>) ds"

definition delegatee_argument :: "nat \<Rightarrow> argument" where
  "delegatee_argument i = \<lparr>argument_name = ''delegatee'' @ string_of_nat i, argument_type = MakePrincipalType\<rparr>"

text \<open>One delegation depth of a relation; \<open>decls\<close> are all declarations built so far.\<close>

definition add_can_say_declaration ::
  "relation_declaration \<Rightarrow> nat \<Rightarrow> relation_declaration list \<Rightarrow> relation_declaration list result" where
  "add_can_say_declaration relation i decls =
     (if i = 1 then
        Inr (decls @ [\<lparr>relation_name = ''canSay_'' @ relation_name relation, is_attribute = False,
          relation_arguments = delegatee_argument i # relation_arguments relation\<rparr>])
      else rbind (check_some (if i - 2 < length decls then Some (decls ! (i - 2)) else None)
               ''can_say_declarations.at(i - 2)'') (\<lambda>prev.
        Inr (decls @ [\<lparr>relation_name = ''canSay_'' @ relation_name prev, is_attribute = False,
          relation_arguments = delegatee_argument i # relation_arguments prev\<rparr>])))"

type_synonym depth_order = "(string \<times> nat) list \<Rightarrow> (string \<times> nat) list"

definition add_can_say_declarations ::
  "(string, relation_declaration) hash_map \<Rightarrow> string \<times> nat \<Rightarrow> relation_declaration list
     \<Rightarrow> relation_declaration list result" where
  "add_can_say_declarations type_environment entry decls =
     (case entry of (name, depth) \<Rightarrow>
        if depth = 0 then Inr decls
        else case map_of type_environment name of
            None \<Rightarrow> Inr decls
          | Some relation \<Rightarrow> fold_result (add_can_say_declaration relation) [1..<Suc depth] decls)"

definition GetCanSayDeclarations ::
  "depth_order \<Rightarrow> (string, relation_declaration) hash_map \<Rightarrow> lowering \<Rightarrow> relation_declaration list result" where
  "GetCanSayDeclarations ord type_environment st =
     fold_result (add_can_say_declarations type_environment) (ord (can_say_depth st)) []"

definition GetSaysExtendRelationDeclarations :: "relation_declaration list \<Rightarrow> relation_declaration list" where
  "GetSaysExtendRelationDeclarations ds = map (\<lambda>d.
     \<lparr>relation_name = ''says_'' @ relation_name d, is_attribute = False,
      relation_arguments = \<lparr>argument_name = ''speaker'', argument_type = MakePrincipalType\<rparr> #
        relation_arguments d\<rparr>) ds"

definition can_act_as_declaration :: relation_declaration where
  "can_act_as_declaration = \<lparr>relation_name = ''canActAs'', is_attribute = False,
     relation_arguments = [\<lparr>argument_name = ''p1'', argument_type = MakePrincipalType\<rparr>,
       \<lparr>argument_name = ''p2'', argument_type = MakePrincipalType\<rparr>]\<rparr>"

definition RelationDeclarationToDLIR ::
  "depth_order \<Rightarrow> relation_declaration list \<Rightarrow> lowering \<Rightarrow> relation_declaration list result" where
  "RelationDeclarationToDLIR ord ds st =
     (let transformed_declarations = TransformAttributeDeclarations ds;
          type_environment = fold (\<lambda>d m. fst (hm_insert (relation_name d) d m)) transformed_declarations []
      in rbind (GetCanSayDeclarations ord type_environment st) (\<lambda>can_say_declarations.
         Inr (GetSaysExtendRelationDeclarations
           (transformed_declarations @ can_say_declarations @ [can_act_as_declaration]))))"

definition dummy_argument :: argument where
  "dummy_argument = \<lparr>argument_name = ''dummy_param'', argument_type = MakeCustomType ''DummyType''\<rparr>"

definition QueryRelationDeclarationToDLIR :: "query list \<Rightarrow> relation_declaration list" where
  "QueryRelationDeclarationToDLIR qs =
     map (\<lambda>q. \<lparr>relation_name = query_name q, is_attribute = False, relation_arguments = [dummy_argument]\<rparr>) qs @
     [\<lparr>relation_name = ''grounded_dummy'', is_attribute = False, relation_arguments = [dummy_argument]\<rparr>]"

definition ProgToDLIR :: "depth_order \<Rightarrow> auth_program \<Rightarrow> lowering \<Rightarrow> datalog_program result" where
  "ProgToDLIR ord prog st =
     rbind (SaysAssertionsToDLIR (program_says prog) st) (\<lambda>(dlir_assertions, st).
     let dummy_assertion = make_fact kDummyPredicate in
     rbind (QueriesToDLIR (program_queries prog) st) (\<lambda>(queries, st).
     let dlir_assertions = dlir_assertions @ queries @ [dummy_assertion];
         outputs = map query_name (program_queries prog)
     in rbind (RelationDeclarationToDLIR ord (relation_declarations prog) st) (\<lambda>dlir_relation_declarations.
        Inr \<lparr>dl_declarations = dlir_relation_declarations @ QueryRelationDeclarationToDLIR (program_queries prog),
          dl_rules = dlir_assertions, dl_outputs = outputs\<rparr>)))"

definition Lower :: "depth_order \<Rightarrow> auth_program \<Rightarrow> datalog_program result" where
  "Lower ord prog = ProgToDLIR ord prog new_lowering"

end
