(* ===== verification/Auth_Semantics.thy ===== *)
theory Auth_Semantics imports
  Auth_Lowering
begin

text \<open>
  What an authorization logic program means, and that the lowering keeps it. A statement is a
  speaker, the principals it delegates to (the innermost first) and an atom; a set of
  statements is a model of a program when it obeys the program's assertions, the delegation of
  every \<^verbatim>\<open>canSay\<close> and the inheritance along \<^verbatim>\<open>canActAs\<close>. The datalog rules of the lowered program
  hold in an interpretation exactly when the statements it encodes are such a model.
\<close>

section \<open>Models of authorization logic\<close>

type_synonym statement = "string \<times> string list \<times> atom"

fun base_positive :: "base_fact \<Rightarrow> bool" where
  "base_positive (PredicateFact p) \<longleftrightarrow> pred_sign p = kPositive"
| "base_positive (AttributeFact a) \<longleftrightarrow> pred_sign (attr_predicate a) = kPositive"
| "base_positive (CanActAsFact c) \<longleftrightarrow> True"

fun base_atom :: "(string \<Rightarrow> string) \<Rightarrow> base_fact \<Rightarrow> atom" where
  "base_atom s (PredicateFact p) = (pred_name p, map s (pred_args p))"
| "base_atom s (AttributeFact a) = (pred_name (attr_predicate a),
     s (principal_name (attr_principal a)) # map s (pred_args (attr_predicate a)))"
| "base_atom s (CanActAsFact c) =
     (''canActAs'', [s (principal_name (left_principal c)), s (principal_name (right_principal c))])"

definition states ::
  "statement set \<Rightarrow> (string \<Rightarrow> string) \<Rightarrow> string \<Rightarrow> string list \<Rightarrow> base_fact \<Rightarrow> bool" where
  "states J s speaker chain b \<longleftrightarrow> ((speaker, chain, base_atom s b) \<in> J) = base_positive b"

definition spoken :: "statement set \<Rightarrow> (string \<Rightarrow> string) \<Rightarrow> principal \<Rightarrow> fact \<Rightarrow> bool" where
  "spoken J s speaker f \<longleftrightarrow>
     states J s (s (principal_name speaker)) (map (s \<circ> principal_name) (delegation_chain f)) (fact_base f)"

text \<open>Who may say it for the speaker, and says it, is believed.\<close>

definition delegation_holds ::
  "(string \<Rightarrow> bool) \<Rightarrow> statement set \<Rightarrow> principal \<Rightarrow> principal list \<Rightarrow> base_fact \<Rightarrow> bool" where
  "delegation_holds const J speaker chain b \<longleftrightarrow> (\<forall>s p. valuation const s \<longrightarrow>
     (let ps = map (s \<circ> principal_name) chain; a = s (principal_name speaker) in
      states J s p ps b \<longrightarrow> states J s a (ps @ [p]) b \<longrightarrow> states J s a ps b))"

text \<open>Who can act as a principal has its attributes and its own \<^verbatim>\<open>canActAs\<close>.\<close>

fun acting_holds :: "(string \<Rightarrow> bool) \<Rightarrow> statement set \<Rightarrow> principal \<Rightarrow> base_fact \<Rightarrow> bool" where
  "acting_holds const J speaker (PredicateFact p) \<longleftrightarrow> True"
| "acting_holds const J speaker (AttributeFact a) \<longleftrightarrow> (\<forall>s y. valuation const s \<longrightarrow>
     (let sp = s (principal_name speaker); x = s (principal_name (attr_principal a));
          name = pred_name (attr_predicate a); args = map s (pred_args (attr_predicate a));
          pos = (pred_sign (attr_predicate a) = kPositive)
      in (sp, [], (''canActAs'', [y, x])) \<in> J \<longrightarrow> ((sp, [], (name, x # args)) \<in> J) = pos \<longrightarrow>
         ((sp, [], (name, y # args)) \<in> J) = pos))"
| "acting_holds const J speaker (CanActAsFact c) \<longleftrightarrow> (\<forall>s y. valuation const s \<longrightarrow>
     (let sp = s (principal_name speaker); x = s (principal_name (left_principal c));
          z = s (principal_name (right_principal c))
      in (sp, [], (''canActAs'', [y, x])) \<in> J \<longrightarrow> (sp, [], (''canActAs'', [x, z])) \<in> J \<longrightarrow>
         (sp, [], (''canActAs'', [y, z])) \<in> J))"

definition fact_rules_hold :: "(string \<Rightarrow> bool) \<Rightarrow> statement set \<Rightarrow> principal \<Rightarrow> fact \<Rightarrow> bool" where
  "fact_rules_hold const J speaker f \<longleftrightarrow> acting_holds const J speaker (fact_base f) \<and>
     (\<forall>k < length (delegation_chain f). delegation_holds const J speaker (take k (delegation_chain f)) (fact_base f))"

text \<open>A condition is a comparison, which is a fact about numbers and nobody's statement, or it has to be
  stated by the speaker.\<close>

fun comparison_of :: "base_fact \<Rightarrow> dl_predicate option" where
  "comparison_of (PredicateFact p) = (if IsNumericOperator p then Some p else None)"
| "comparison_of _ = None"

definition condition_holds :: "comparisons \<Rightarrow> statement set \<Rightarrow> (string \<Rightarrow> string) \<Rightarrow> principal \<Rightarrow> base_fact \<Rightarrow> bool" where
  "condition_holds cmp J s speaker b \<longleftrightarrow> (case comparison_of b of
     Some p \<Rightarrow> compared cmp s p
   | None \<Rightarrow> states J s (s (principal_name speaker)) [] b)"

fun assertion_holds :: "(string \<Rightarrow> bool) \<Rightarrow> comparisons \<Rightarrow> statement set \<Rightarrow> principal \<Rightarrow> assertion \<Rightarrow> bool" where
  "assertion_holds const cmp J speaker (FactAssertion f) \<longleftrightarrow> fact_rules_hold const J speaker f \<and>
     (\<forall>s. valuation const s \<longrightarrow> spoken J s speaker f)"
| "assertion_holds const cmp J speaker (Conditional c) \<longleftrightarrow> fact_rules_hold const J speaker (cond_lhs c) \<and>
     (\<forall>s. valuation const s \<longrightarrow>
        (\<forall>b \<in> set (cond_rhs c). condition_holds cmp J s speaker b) \<longrightarrow> spoken J s speaker (cond_lhs c))"

definition auth_model :: "(string \<Rightarrow> bool) \<Rightarrow> comparisons \<Rightarrow> statement set \<Rightarrow> auth_program \<Rightarrow> bool" where
  "auth_model const cmp J prog \<longleftrightarrow> (\<forall>d \<in> set (program_says prog). \<forall>a \<in> set (says_assertions d).
     assertion_holds const cmp J (says_principal d) a)"

fun without_comparisons :: "assertion \<Rightarrow> bool" where
  "without_comparisons (FactAssertion f) \<longleftrightarrow> True"
| "without_comparisons (Conditional c) \<longleftrightarrow> list_all (\<lambda>b. comparison_of b = None) (cond_rhs c)"

definition comparison_free :: "auth_program \<Rightarrow> bool" where
  "comparison_free prog \<longleftrightarrow> (\<forall>d \<in> set (program_says prog). \<forall>a \<in> set (says_assertions d). without_comparisons a) \<and>
     (\<forall>q \<in> set (program_queries prog). query_name q \<notin> set numeric_operators)"

text \<open>A query succeeds when its fact is stated for some values of its variables.\<close>

definition query_succeeds :: "(string \<Rightarrow> bool) \<Rightarrow> statement set \<Rightarrow> query \<Rightarrow> bool" where
  "query_succeeds const J q \<longleftrightarrow> (\<exists>s. valuation const s \<and> spoken J s (query_principal q) (query_fact q))"

section \<open>The encoding\<close>

definition can_says :: "nat \<Rightarrow> string" where
  "can_says n = concat (replicate n ''canSay_'')"

definition encode_statement :: "statement \<Rightarrow> atom" where
  "encode_statement st = (case st of (speaker, chain, (name, args)) \<Rightarrow>
     (''says_'' @ can_says (length chain) @ name, speaker # rev chain @ args))"

definition decoded_statements :: "atom set \<Rightarrow> statement set" where
  "decoded_statements I = {st. encode_statement st \<in> I}"

section \<open>Names\<close>

fun base_names :: "base_fact \<Rightarrow> string list" where
  "base_names (PredicateFact p) = pred_args p"
| "base_names (AttributeFact a) = principal_name (attr_principal a) # pred_args (attr_predicate a)"
| "base_names (CanActAsFact c) = [principal_name (left_principal c), principal_name (right_principal c)]"

definition fact_names :: "fact \<Rightarrow> string list" where
  "fact_names f = map principal_name (delegation_chain f) @ base_names (fact_base f)"

fun assertion_names :: "assertion \<Rightarrow> string list" where
  "assertion_names (FactAssertion f) = fact_names f"
| "assertion_names (Conditional c) = fact_names (cond_lhs c) @ concat (map base_names (cond_rhs c))"

definition program_names :: "auth_program \<Rightarrow> string list" where
  "program_names prog =
     concat (map (\<lambda>d. principal_name (says_principal d) # concat (map assertion_names (says_assertions d)))
       (program_says prog)) @
     concat (map (\<lambda>q. principal_name (query_principal q) # fact_names (query_fact q)) (program_queries prog))"

definition fresh_name :: "string \<Rightarrow> bool" where
  "fresh_name x \<longleftrightarrow> (\<exists>n. x = ''x__'' @ string_of_nat n)"

section \<open>The lowering keeps the meaning\<close>

fun base_predicate :: "base_fact \<Rightarrow> dl_predicate" where
  "base_predicate (PredicateFact p) = p"
| "base_predicate (AttributeFact a) = AttributeToDLIR a"
| "base_predicate (CanActAsFact c) = CanActAsToDLIR c"

fun delegated :: "principal list \<Rightarrow> dl_predicate \<Rightarrow> dl_predicate" where
  "delegated [] p = p"
| "delegated (d # ds) p = delegated ds (PushPrincipal ''canSay_'' d p)"

lemmas push_simps = PushPrincipal_def PushOntoPredicate_def AttributeToDLIR_def CanActAsToDLIR_def

lemma delegated_eq:
  "delegated ds p = \<lparr>pred_name = can_says (length ds) @ pred_name p,
     pred_args = rev (map principal_name ds) @ pred_args p, pred_sign = pred_sign p\<rparr>"
proof (induction ds arbitrary: p)
  case (Cons d ds)
  have "can_says n @ ''canSay_'' = ''canSay_'' @ can_says n" for n
    by (induction n) (simp_all add: can_says_def)
  then show ?case by (simp add: Cons.IH push_simps can_says_def flip: append_assoc) 
qed (simp add: can_says_def)

lemma base_predicate_simps:
  "pred_args (base_predicate b) = base_names b"
  "pred_sign (base_predicate b) = kPositive \<longleftrightarrow> base_positive b"
  "(pred_name (base_predicate b), map s (base_names b)) = base_atom s b"
  by (cases b; simp add: push_simps)+

text \<open>No lowered predicate is named like an operator, so none is read as a comparison.\<close>

lemmas operator_simps = IsNumericOperator_def numeric_operators_def

lemma said_not_operator [simp]: "\<not> IsNumericOperator (PushPrincipal ''says_'' speaker p)"
  by (simp add: operator_simps push_simps)

text \<open>A lowered predicate with its speaker holds when the statement is stated.\<close>

lemma says_holds_iff:
  "holds cmp I s (PushPrincipal ''says_'' speaker p) \<longleftrightarrow>
     (ground s (PushPrincipal ''says_'' speaker p) \<in> I) = (pred_sign p = kPositive)"
  by (simp add: holds_def) (simp add: push_simps)

lemma holds_says:
  "holds cmp I s (PushPrincipal ''says_'' speaker (delegated ds (base_predicate b))) \<longleftrightarrow>
     states (decoded_statements I) s (s (principal_name speaker)) (map (s \<circ> principal_name) ds) b"
  unfolding says_holds_iff
  by (simp add: ground_def push_simps delegated_eq states_def decoded_statements_def
      encode_statement_def base_predicate_simps rev_map comp_def split: prod.split)
    (metis base_predicate_simps(3) fst_conv snd_conv)

lemma delegated_append: "delegated (ds @ es) p = delegated es (delegated ds p)"
  by (induction ds arbitrary: p) simp_all

lemma base_atom_cong: "(\<And>a. a \<in> set (base_names b) \<Longrightarrow> s a = t a) \<Longrightarrow> base_atom s b = base_atom t b"
  by (cases b) auto

lemma states_cong:
  "(\<And>a. a \<in> set (base_names b) \<Longrightarrow> s a = t a) \<Longrightarrow> states J s sp ch b = states J t sp ch b"
  using base_atom_cong [of b s t] by (simp add: states_def)

lemma delegation_rule:
  assumes fresh: "\<not> const x" "x \<noteq> principal_name speaker" "x \<notin> set (map principal_name ds)" "x \<notin> set (base_names b)"
  shows "rule_holds const cmp I \<lparr>rule_lhs = PushPrincipal ''says_'' speaker (delegated ds (base_predicate b)),
      rule_rhs = [PushPrincipal ''says_'' (Principal x) (delegated ds (base_predicate b)),
        PushPrincipal ''says_'' speaker (PushPrincipal ''canSay_'' (Principal x) (delegated ds (base_predicate b)))]\<rparr> \<longleftrightarrow>
    delegation_holds const (decoded_statements I) speaker ds b"
proof -
  let ?J = "decoded_statements I"
  let ?a = "principal_name speaker"
  have cansay: "PushPrincipal ''canSay_'' (Principal x) (delegated ds (base_predicate b)) =
      delegated (ds @ [Principal x]) (base_predicate b)" by (simp add: delegated_append)
  have "rule_holds const cmp I \<lparr>rule_lhs = PushPrincipal ''says_'' speaker (delegated ds (base_predicate b)),
      rule_rhs = [PushPrincipal ''says_'' (Principal x) (delegated ds (base_predicate b)),
        PushPrincipal ''says_'' speaker (PushPrincipal ''canSay_'' (Principal x) (delegated ds (base_predicate b)))]\<rparr> \<longleftrightarrow>
    (\<forall>s. valuation const s \<longrightarrow> states ?J s (s x) (map (s \<circ> principal_name) ds) b \<longrightarrow>
      states ?J s (s ?a) (map (s \<circ> principal_name) ds @ [s x]) b \<longrightarrow>
      states ?J s (s ?a) (map (s \<circ> principal_name) ds) b)"
    unfolding rule_holds_def cansay by (simp add: holds_says) blast
  also have "\<dots> \<longleftrightarrow> delegation_holds const ?J speaker ds b"
  proof
    assume rule: "\<forall>s. valuation const s \<longrightarrow> states ?J s (s x) (map (s \<circ> principal_name) ds) b \<longrightarrow>
      states ?J s (s ?a) (map (s \<circ> principal_name) ds @ [s x]) b \<longrightarrow>
      states ?J s (s ?a) (map (s \<circ> principal_name) ds) b"
    show "delegation_holds const ?J speaker ds b"
      unfolding delegation_holds_def Let_def
    proof (intro allI impI)
      fix s p
      assume s: "valuation const s" and says: "states ?J s p (map (s \<circ> principal_name) ds) b"
        "states ?J s (s ?a) (map (s \<circ> principal_name) ds @ [p]) b"
      let ?s = "s(x := p)"
      have ds: "map (?s \<circ> principal_name) ds = map (s \<circ> principal_name) ds" using fresh(3) by auto
      have same: "states ?J ?s sp ch b = states ?J s sp ch b" for sp ch
        using fresh(4) by (intro states_cong) auto
      from rule valuation_upd [OF s fresh(1), of p] have "states ?J ?s (?s x) (map (?s \<circ> principal_name) ds) b \<longrightarrow>
        states ?J ?s (?s ?a) (map (?s \<circ> principal_name) ds @ [?s x]) b \<longrightarrow>
        states ?J ?s (?s ?a) (map (?s \<circ> principal_name) ds) b" by blast
      with says fresh(2) show "states ?J s (s ?a) (map (s \<circ> principal_name) ds) b"
        unfolding ds same by simp
    qed
  qed (simp add: delegation_holds_def Let_def)
  finally show ?thesis .
qed

lemma acting_rule_attribute:
  assumes fresh: "\<not> const x" "x \<noteq> principal_name speaker" "x \<notin> set (base_names (AttributeFact a))"
  shows "rule_holds const cmp I \<lparr>
      rule_lhs = PushPrincipal ''says_'' speaker (AttributeToDLIR \<lparr>attr_principal = Principal x, attr_predicate = attr_predicate a\<rparr>),
      rule_rhs = [PushPrincipal ''says_'' speaker (CanActAsToDLIR \<lparr>left_principal = Principal x, right_principal = attr_principal a\<rparr>),
        PushPrincipal ''says_'' speaker (AttributeToDLIR a)]\<rparr> \<longleftrightarrow>
    acting_holds const (decoded_statements I) speaker (AttributeFact a)" (is "?rule \<longleftrightarrow> ?acts")
proof
  assume rule: ?rule
  show ?acts
    unfolding acting_holds.simps Let_def
  proof (intro allI impI)
    fix s :: "string \<Rightarrow> string" and y :: string
    let ?s = "s(x := y)" and ?p = "attr_predicate a"
    assume s: "valuation const s"
      and says: "(s (principal_name speaker), [], ''canActAs'', [y, s (principal_name (attr_principal a))]) \<in> decoded_statements I"
        "((s (principal_name speaker), [], pred_name ?p, s (principal_name (attr_principal a)) # map s (pred_args ?p)) \<in>
           decoded_statements I) = (pred_sign ?p = kPositive)"
    have args: "map ?s (pred_args ?p) = map s (pred_args ?p)" using fresh(3) by auto
    from rule valuation_upd [OF s fresh(1), of y] says fresh args
    show "((s (principal_name speaker), [], pred_name ?p, y # map s (pred_args ?p)) \<in> decoded_statements I) =
        (pred_sign ?p = kPositive)"
      by (auto simp: rule_holds_def holds_def operator_simps ground_def push_simps decoded_statements_def encode_statement_def
          can_says_def)
  qed
next
  assume ?acts
  then show ?rule
    by (auto simp: rule_holds_def holds_def operator_simps ground_def push_simps decoded_statements_def encode_statement_def
        can_says_def Let_def)
qed

lemma acting_rule_can_act_as:
  assumes fresh: "\<not> const x" "x \<noteq> principal_name speaker" "x \<notin> set (base_names (CanActAsFact c))"
  shows "rule_holds const cmp I \<lparr>
      rule_lhs = PushPrincipal ''says_'' speaker (CanActAsToDLIR \<lparr>left_principal = Principal x, right_principal = right_principal c\<rparr>),
      rule_rhs = [PushPrincipal ''says_'' speaker (CanActAsToDLIR \<lparr>left_principal = Principal x, right_principal = left_principal c\<rparr>),
        PushPrincipal ''says_'' speaker (CanActAsToDLIR c)]\<rparr> \<longleftrightarrow>
    acting_holds const (decoded_statements I) speaker (CanActAsFact c)" (is "?rule \<longleftrightarrow> ?acts")
proof
  assume rule: ?rule
  show ?acts
    unfolding acting_holds.simps Let_def
  proof (intro allI impI)
    fix s :: "string \<Rightarrow> string" and y :: string
    let ?s = "s(x := y)"
    assume s: "valuation const s"
      and says: "(s (principal_name speaker), [], ''canActAs'', [y, s (principal_name (left_principal c))]) \<in> decoded_statements I"
        "(s (principal_name speaker), [], ''canActAs'', [s (principal_name (left_principal c)),
           s (principal_name (right_principal c))]) \<in> decoded_statements I"
    from rule valuation_upd [OF s fresh(1), of y] says fresh
    show "(s (principal_name speaker), [], ''canActAs'', [y, s (principal_name (right_principal c))]) \<in> decoded_statements I"
      by (auto simp: rule_holds_def holds_def operator_simps ground_def push_simps decoded_statements_def encode_statement_def
          can_says_def)
  qed
next
  assume ?acts
  then show ?rule
    by (auto simp: rule_holds_def holds_def operator_simps ground_def push_simps decoded_statements_def encode_statement_def
        can_says_def Let_def)
qed

definition names_ok :: "(string \<Rightarrow> bool) \<Rightarrow> string list \<Rightarrow> bool" where
  "names_ok const names \<longleftrightarrow> (\<forall>x \<in> set names. \<not> fresh_name x) \<and> (\<forall>x. fresh_name x \<longrightarrow> \<not> const x)"

lemma FreshVar_fresh: "FreshVar st = Inr (x, st') \<Longrightarrow> fresh_name x"
  unfolding FreshVar_def fresh_name_def by auto

lemma delegates_models:
  assumes "fold_result (delegate speaker) es ((delegated ds (base_predicate b), rs), st) = Inr ((q, rs'), st')"
    and "names_ok const (principal_name speaker # map principal_name (ds @ es) @ base_names b)"
  shows "q = delegated (ds @ es) (base_predicate b) \<and> (models const cmp I rs' \<longleftrightarrow> models const cmp I rs \<and>
    (\<forall>k < length es. delegation_holds const (decoded_statements I) speaker (ds @ take k es) b))"
  using assms
proof (induction es arbitrary: ds rs st)
  case (Cons e es)
  let ?q = "delegated ds (base_predicate b)"
  from Cons.prems(1) obtain acc where first: "delegate speaker e ((?q, rs), st) = Inr acc"
    and run: "fold_result (delegate speaker) es acc = Inr ((q, rs'), st')" by auto
  from first obtain x st1 where x: "FreshVar st = Inr (x, st1)"
    and acc: "acc = ((delegated (ds @ [e]) (base_predicate b), rs @
      [\<lparr>rule_lhs = PushPrincipal ''says_'' speaker ?q, rule_rhs = [PushPrincipal ''says_'' (Principal x) ?q,
        PushPrincipal ''says_'' speaker (PushPrincipal ''canSay_'' (Principal x) ?q)]\<rparr>]), st1)"
    by (auto simp: delegate_def Let_def delegated_append)
  note rest = run [unfolded acc]
  have "fresh_name x" using x by (rule FreshVar_fresh)
  then have fresh: "\<not> const x" "x \<noteq> principal_name speaker" "x \<notin> set (map principal_name ds)" "x \<notin> set (base_names b)"
    using Cons.prems(2) by (auto simp: names_ok_def)
  have "names_ok const (principal_name speaker # map principal_name ((ds @ [e]) @ es) @ base_names b)"
    using Cons.prems(2) by simp
  from Cons.IH [OF rest this] delegation_rule [of const x speaker ds b cmp I, OF fresh] show ?case
    by (auto simp: less_Suc_eq_0_disj)
qed simp

lemma BaseFactToDLIR_models:
  assumes "BaseFactToDLIR speaker b st = Inr ((q, rs), st')"
    and "names_ok const (principal_name speaker # base_names b)"
  shows "q = base_predicate b \<and> (models const cmp I rs \<longleftrightarrow> acting_holds const (decoded_statements I) speaker b)"
proof (cases b)
  case (PredicateFact p)
  with assms(1) show ?thesis by auto
next
  case (AttributeFact a)
  from assms(1) obtain x st1 where x: "FreshVar st = Inr (x, st1)" and q: "q = AttributeToDLIR a"
    and rs: "rs = [\<lparr>
      rule_lhs = PushPrincipal ''says_'' speaker (AttributeToDLIR \<lparr>attr_principal = Principal x, attr_predicate = attr_predicate a\<rparr>),
      rule_rhs = [PushPrincipal ''says_'' speaker (CanActAsToDLIR \<lparr>left_principal = Principal x, right_principal = attr_principal a\<rparr>),
        PushPrincipal ''says_'' speaker (AttributeToDLIR a)]\<rparr>]"
    by (auto simp: AttributeFact SpokenAttributeToDLIR_def Let_def)
  have "\<not> const x" "x \<noteq> principal_name speaker" "x \<notin> set (base_names (AttributeFact a))"
    using FreshVar_fresh [OF x] assms(2) by (auto simp: names_ok_def AttributeFact)
  from acting_rule_attribute [of const x, OF this] show ?thesis by (simp only: rs q AttributeFact models_Cons models_Nil base_predicate.simps)
      blast
next
  case (CanActAsFact c)
  from assms(1) obtain x st1 where x: "FreshVar st = Inr (x, st1)" and q: "q = CanActAsToDLIR c"
    and rs: "rs = [\<lparr>
      rule_lhs = PushPrincipal ''says_'' speaker (CanActAsToDLIR \<lparr>left_principal = Principal x, right_principal = right_principal c\<rparr>),
      rule_rhs = [PushPrincipal ''says_'' speaker (CanActAsToDLIR \<lparr>left_principal = Principal x, right_principal = left_principal c\<rparr>),
        PushPrincipal ''says_'' speaker (CanActAsToDLIR c)]\<rparr>]"
    by (auto simp: CanActAsFact SpokenCanActAsToDLIR_def Let_def)
  have "\<not> const x" "x \<noteq> principal_name speaker" "x \<notin> set (base_names (CanActAsFact c))"
    using FreshVar_fresh [OF x] assms(2) by (auto simp: names_ok_def CanActAsFact)
  from acting_rule_can_act_as [of const x, OF this] show ?thesis by (simp only: rs q CanActAsFact models_Cons models_Nil base_predicate.simps)
      blast
qed

lemma FactToDLIR_models:
  assumes "FactToDLIR speaker f st = Inr ((q, rs), st')"
    and "names_ok const (principal_name speaker # fact_names f)"
  shows "q = delegated (delegation_chain f) (base_predicate (fact_base f)) \<and>
    (models const cmp I rs \<longleftrightarrow> fact_rules_hold const (decoded_statements I) speaker f)"
proof -
  from assms(1) obtain base rs1 st1 st2 where b: "BaseFactToDLIR speaker (fact_base f) st = Inr ((base, rs1), st1)"
    and d: "fold_result (delegate speaker) (delegation_chain f) ((base, rs1), st1) = Inr ((q, rs), st2)"
    by (auto simp: FactToDLIR_def)
  have ok: "names_ok const (principal_name speaker # base_names (fact_base f))"
    "names_ok const (principal_name speaker # map principal_name ([] @ delegation_chain f) @ base_names (fact_base f))"
    using assms(2) by (auto simp: names_ok_def fact_names_def)
  note base = BaseFactToDLIR_models [OF b ok(1)]
  with d have "fold_result (delegate speaker) (delegation_chain f)
      ((delegated [] (base_predicate (fact_base f)), rs1), st1) = Inr ((q, rs), st2)" by simp
  from delegates_models [OF this ok(2)] base show ?thesis by (auto simp: fact_rules_hold_def)
qed

lemma conditions_results:
  assumes "map_state (condition_to_DLIR speaker) bs st = Inr (ps, st')"
    and "\<And>b. b \<in> set bs \<Longrightarrow> names_ok const (principal_name speaker # base_names b)"
  shows "ps = map (\<lambda>b. PushPrincipal ''says_'' speaker (base_predicate b)) bs"
  using assms
proof (induction bs arbitrary: st ps)
  case (Cons b bs)
  from Cons.prems(1) obtain p ps' st1 where p: "condition_to_DLIR speaker b st = Inr (p, st1)"
    and rest: "map_state (condition_to_DLIR speaker) bs st1 = Inr (ps', st')" and ps: "ps = p # ps'" by auto
  from p obtain q rs st2 where "BaseFactToDLIR speaker b st = Inr ((q, rs), st2)"
    and "p = PushPrincipal ''says_'' speaker q" by (auto simp: condition_to_DLIR_def)
  with BaseFactToDLIR_models [of speaker b st q rs st2 const cmp "{}"] Cons.prems(2) Cons.IH [OF rest] ps
  show ?case by simp
qed simp

lemma assertion_models:
  assumes "SingleSaysAssertionToDLIR speaker a st = Inr (rs, st')"
    and "names_ok const (principal_name speaker # assertion_names a)" and "without_comparisons a"
  shows "models const cmp I rs \<longleftrightarrow> assertion_holds const cmp (decoded_statements I) speaker a"
proof (cases a)
  case (FactAssertion f)
  with assms obtain q rs1 st1 where q: "FactToDLIR speaker f st = Inr ((q, rs1), st1)"
    and rs: "rs = rs1 @ [make_fact (PushPrincipal ''says_'' speaker q)]"
    by (auto simp: GenerateDLIRAssertions_fact_def)
  from FactToDLIR_models [OF q, of const cmp I] assms(2) FactAssertion show ?thesis
    by (auto simp: rs rule_holds_def make_fact_def holds_says spoken_def)
next
  case (Conditional c)
  with assms obtain ps q rs1 st1 st2 where ps: "map_state (condition_to_DLIR speaker) (cond_rhs c) st = Inr (ps, st1)"
    and q: "FactToDLIR speaker (cond_lhs c) st1 = Inr ((q, rs1), st2)"
    and rs: "rs = rs1 @ [\<lparr>rule_lhs = PushPrincipal ''says_'' speaker q, rule_rhs = ps\<rparr>]"
    by (auto simp: GenerateDLIRAssertions_conditional_def Let_def)
  have ok: "names_ok const (principal_name speaker # fact_names (cond_lhs c))"
    "\<And>b. b \<in> set (cond_rhs c) \<Longrightarrow> names_ok const (principal_name speaker # base_names b)"
    using assms(2) Conditional by (auto simp: names_ok_def)
  note ps = conditions_results [OF ps ok(2)]
  have cond: "holds cmp I s (PushPrincipal ''says_'' speaker (base_predicate b)) \<longleftrightarrow>
      condition_holds cmp (decoded_statements I) s speaker b" if "b \<in> set (cond_rhs c)" for s b
    using holds_says [of cmp I s speaker "[]" b] assms(3) that by (simp add: condition_holds_def Conditional list_all_iff)
  from FactToDLIR_models [OF q ok(1), of cmp I] Conditional show ?thesis
    by (auto simp: rs ps rule_holds_def holds_says spoken_def cond)
qed

lemma assertions_models:
  assumes "map_state (SingleSaysAssertionToDLIR speaker) as st = Inr (rss, st')"
    and "\<And>a. a \<in> set as \<Longrightarrow> names_ok const (principal_name speaker # assertion_names a)"
    and "\<forall>a \<in> set as. without_comparisons a"
  shows "models const cmp I (concat rss) \<longleftrightarrow> (\<forall>a \<in> set as. assertion_holds const cmp (decoded_statements I) speaker a)"
  using assms
proof (induction as arbitrary: st rss)
  case (Cons a as)
  from Cons.prems(1) obtain rs rss' st1 where a: "SingleSaysAssertionToDLIR speaker a st = Inr (rs, st1)"
    and rest: "map_state (SingleSaysAssertionToDLIR speaker) as st1 = Inr (rss', st')" and rss: "rss = rs # rss'" by auto
  from assertion_models [OF a Cons.prems(2)] Cons.IH [OF rest Cons.prems(2)] Cons.prems(3) show ?case by (simp add: rss)
qed simp

lemma says_models:
  assumes "map_state SaysAssertionToDLIR ds st = Inr (rss, st')"
    and "\<And>d a. d \<in> set ds \<Longrightarrow> a \<in> set (says_assertions d) \<Longrightarrow>
      names_ok const (principal_name (says_principal d) # assertion_names a)"
    and "\<forall>d \<in> set ds. \<forall>a \<in> set (says_assertions d). without_comparisons a"
  shows "models const cmp I (concat rss) \<longleftrightarrow> (\<forall>d \<in> set ds. \<forall>a \<in> set (says_assertions d).
    assertion_holds const cmp (decoded_statements I) (says_principal d) a)"
  using assms
proof (induction ds arbitrary: st rss)
  case (Cons d ds)
  from Cons.prems(1) obtain rs rss' st1 where d: "SaysAssertionToDLIR d st = Inr (rs, st1)"
    and rest: "map_state SaysAssertionToDLIR ds st1 = Inr (rss', st')" and rss: "rss = rs # rss'" by auto
  from d obtain rss1 st2 where "map_state (SingleSaysAssertionToDLIR (says_principal d)) (says_assertions d) st = Inr (rss1, st2)"
    and rs: "rs = concat rss1" by (auto simp: SaysAssertionToDLIR_def)
  from assertions_models [OF this(1), of const cmp I] Cons.prems(2,3) Cons.IH [OF rest] show ?case
    by (simp add: rss rs)
qed simp

lemma queries_models:
  assumes "map_state query_to_DLIR qs st = Inr (rs, st')" and "const dummy_constant"
    and "\<And>q. q \<in> set qs \<Longrightarrow> names_ok const (principal_name (query_principal q) # fact_names (query_fact q))"
    and "(''grounded_dummy'', [dummy_constant]) \<in> I" and "\<forall>q \<in> set qs. query_name q \<notin> set numeric_operators"
  shows "models const cmp I rs \<longleftrightarrow> (\<forall>q \<in> set qs. query_succeeds const (decoded_statements I) q \<longrightarrow>
    (query_name q, [dummy_constant]) \<in> I)"
  using assms(1,3,5)
proof (induction qs arbitrary: st rs)
  case (Cons q qs)
  from Cons.prems(1) obtain r rs' st1 where r: "query_to_DLIR q st = Inr (r, st1)"
    and rest: "map_state query_to_DLIR qs st1 = Inr (rs', st')" and rs: "rs = r # rs'" by auto
  from r obtain p gen st2 where p: "FactToDLIR (query_principal q) (query_fact q) st = Inr ((p, gen), st2)"
    and r: "r = \<lparr>rule_lhs = \<lparr>pred_name = query_name q, pred_args = [dummy_constant], pred_sign = kPositive\<rparr>,
       rule_rhs = [PushPrincipal ''says_'' (query_principal q) p, kDummyPredicate]\<rparr>"
    by (auto simp: query_to_DLIR_def Let_def)
  from FactToDLIR_models [OF p, of const cmp "{}"] Cons.prems(2)
  have p: "p = delegated (delegation_chain (query_fact q)) (base_predicate (fact_base (query_fact q)))" by simp
  have dummy: "s dummy_constant = dummy_constant" if "valuation const s" for s
    using that assms(2) by (simp add: valuation_def)
  have "rule_holds const cmp I r \<longleftrightarrow>
      (query_succeeds const (decoded_statements I) q \<longrightarrow> (query_name q, [dummy_constant]) \<in> I)"
  proof -
    let ?says = "\<lambda>s. spoken (decoded_statements I) s (query_principal q) (query_fact q)"
    have "rule_holds const cmp I r \<longleftrightarrow> (\<forall>s. valuation const s \<longrightarrow> ?says s \<longrightarrow>
        (''grounded_dummy'', [s dummy_constant]) \<in> I \<longrightarrow> (query_name q, [s dummy_constant]) \<in> I)"
      using Cons.prems(3) by (auto simp: r p rule_holds_def holds_says spoken_def)
        (auto simp: holds_def ground_def kDummyPredicate_def operator_simps)
    then show ?thesis using assms(4) dummy unfolding query_succeeds_def by metis
  qed
  with Cons.IH [OF rest] Cons.prems(2,3) show ?case by (simp add: rs)
qed simp

lemma dummy_is_constant: "IsNameConstant simple_atoi dummy_constant"
  by (simp add: IsNameConstant_def dummy_constant_def quote_def)

lemma fresh_not_constant: "fresh_name x \<Longrightarrow> \<not> simple_atoi x \<Longrightarrow> \<not> IsNameConstant simple_atoi x"
  by (auto simp: IsNameConstant_def fresh_name_def quote_def)

text \<open>C3: The datalog rules that authorization logic is lowered to hold in an interpretation
  exactly when the statements it encodes are a model of the program: they obey every
  assertion, whoever may say a fact for the speaker and says it is believed at every depth of
  delegation, who can act as a principal has its attributes; and every query whose fact is
  stated has its name in the interpretation. The program must not use the names of the pass's
  fresh variables, \<^verbatim>\<open>x__1\<close>, \<^verbatim>\<open>x__2\<close> and so on, which are not integer literals. It must not
  have comparisons either: a comparison in a condition is a fact about numbers, but is lowered to a statement of the speaker
  (\<open>comparisons_lose_meaning\<close>).\<close>

theorem lowering_keeps_meaning:
  assumes "Lower ord prog = Inr dl" and "\<forall>x \<in> set (program_names prog). \<not> fresh_name x"
    and "\<forall>x. fresh_name x \<longrightarrow> \<not> simple_atoi x" and "comparison_free prog"
  shows "models (IsNameConstant simple_atoi) cmp I (dl_rules dl) \<longleftrightarrow>
    auth_model (IsNameConstant simple_atoi) cmp (decoded_statements I) prog \<and>
    (''grounded_dummy'', [dummy_constant]) \<in> I \<and>
    (\<forall>q \<in> set (program_queries prog). query_succeeds (IsNameConstant simple_atoi) (decoded_statements I) q \<longrightarrow>
       (query_name q, [dummy_constant]) \<in> I)"
proof -
  let ?const = "IsNameConstant simple_atoi"
  from assms(1) obtain rs st1 qs st2 where rs: "SaysAssertionsToDLIR (program_says prog) new_lowering = Inr (rs, st1)"
    and qs: "map_state query_to_DLIR (program_queries prog) st1 = Inr (qs, st2)"
    and dl: "dl_rules dl = rs @ qs @ [make_fact kDummyPredicate]"
    by (auto simp: Lower_def ProgToDLIR_def Let_def QueriesToDLIR_def)
  from rs obtain rss where rss: "map_state SaysAssertionToDLIR (program_says prog) new_lowering = Inr (rss, st1)"
    and concat: "rs = concat rss" by (auto simp: SaysAssertionsToDLIR_def)
  have fresh: "fresh_name x \<longrightarrow> \<not> ?const x" for x using assms(3) fresh_not_constant by blast
  have "names_ok ?const (principal_name (says_principal d) # assertion_names a)"
    if "d \<in> set (program_says prog)" "a \<in> set (says_assertions d)" for d a
    using that assms(2) fresh by (auto simp: names_ok_def program_names_def)
  from says_models [OF rss this, of cmp I] assms(4) have says: "models ?const cmp I rs \<longleftrightarrow>
      auth_model ?const cmp (decoded_statements I) prog" by (simp add: concat auth_model_def comparison_free_def)
  have "names_ok ?const (principal_name (query_principal q) # fact_names (query_fact q))"
    if "q \<in> set (program_queries prog)" for q
    using that assms(2) fresh by (auto simp: names_ok_def program_names_def)
  note queries = queries_models [OF qs dummy_is_constant this]
  have "rule_holds ?const cmp I (make_fact kDummyPredicate) \<longleftrightarrow> (''grounded_dummy'', [dummy_constant]) \<in> I"
  proof -
    have "\<exists>s. valuation ?const s" by (auto simp: valuation_def intro: exI [of _ id])
    moreover have "s dummy_constant = dummy_constant" if "valuation ?const s" for s
      using that dummy_is_constant by (simp add: valuation_def)
    moreover have "rule_holds ?const cmp I (make_fact kDummyPredicate) \<longleftrightarrow>
        (\<forall>s. valuation ?const s \<longrightarrow> (''grounded_dummy'', [s dummy_constant]) \<in> I)"
      by (simp add: rule_holds_def make_fact_def holds_def ground_def kDummyPredicate_def operator_simps)
    ultimately show ?thesis by metis
  qed
  with says queries assms(4) show ?thesis by (auto simp: dl comparison_free_def)
qed

definition delegation_program :: auth_program where
  "delegation_program = \<lparr>relation_declarations = [\<lparr>relation_name = ''foo'', is_attribute = False, relation_arguments =
       [\<lparr>argument_name = ''x'', argument_type = MakeCustomType ''T''\<rparr>]\<rparr>],
     program_says = [\<lparr>says_principal = Principal [quote, CHR ''A'', quote], says_assertions =
       [FactAssertion \<lparr>delegation_chain = [Principal [quote, CHR ''B'', quote]],
          fact_base = PredicateFact \<lparr>pred_name = ''foo'', pred_args = [''y''], pred_sign = kPositive\<rparr>\<rparr>]\<rparr>],
     program_queries = []\<rparr>"

lemma delegation_program_lowers: "is_ok (Lower id delegation_program)"
  by code_simp

theorem lowering_keeps_meaning_witness:
  "\<exists>dl. Lower id delegation_program = Inr dl \<and> \<not> models (IsNameConstant (list_all is_digit)) (\<lambda>_ _ _. True) {} (dl_rules dl)"
proof -
  from delegation_program_lowers obtain dl where dl: "Lower id delegation_program = Inr dl" by (auto simp: is_ok_iff)
  moreover have "\<forall>x \<in> set (program_names delegation_program). \<not> fresh_name x"
    by (auto simp: program_names_def delegation_program_def fact_names_def fresh_name_def quote_def)
  moreover have "\<forall>x. fresh_name x \<longrightarrow> \<not> list_all is_digit x"
    by (auto simp: fresh_name_def is_digit_def)
  moreover have "comparison_free delegation_program" by (simp add: comparison_free_def delegation_program_def)
  ultimately show ?thesis
    using lowering_keeps_meaning [of id delegation_program dl "list_all is_digit" "\<lambda>_ _ _. True" "{}"] by simp
qed

text \<open>A comparison in a condition loses its meaning: \<^verbatim>\<open>A says p(x) :- q(x), x <= 7\<close> is lowered to a rule that asks for
  the statement \<^verbatim>\<open>says_<=(A, x, 7)\<close>, which nobody makes. An interpretation in which \<open>A\<close> says \<open>q(3)\<close> and
  nothing more is a model of the lowered rules, but not of the program as soon as 3 is at most 7.\<close>

definition comparison_program :: auth_program where
  "comparison_program = (let base = (\<lambda>n as. PredicateFact \<lparr>pred_name = n, pred_args = as, pred_sign = kPositive\<rparr>)
    in \<lparr>relation_declarations = [], program_says = [\<lparr>says_principal = Principal [quote, CHR ''A'', quote], says_assertions =
         [Conditional \<lparr>cond_lhs = \<lparr>delegation_chain = [], fact_base = base ''p'' [''x'']\<rparr>,
            cond_rhs = [base ''q'' [''x''], base ''<='' [''x'', ''7'']]\<rparr>]\<rparr>], program_queries = []\<rparr>)"

lemma comparison_program_lowered:
  "(case Lower id comparison_program of Inl _ \<Rightarrow> False | Inr dl \<Rightarrow> dl_rules dl =
     [\<lparr>rule_lhs = \<lparr>pred_name = ''says_p'', pred_args = [[quote, CHR ''A'', quote], ''x''], pred_sign = kPositive\<rparr>,
        rule_rhs = [\<lparr>pred_name = ''says_q'', pred_args = [[quote, CHR ''A'', quote], ''x''], pred_sign = kPositive\<rparr>,
          \<lparr>pred_name = ''says_<='', pred_args = [[quote, CHR ''A'', quote], ''x'', ''7''], pred_sign = kPositive\<rparr>]\<rparr>,
      make_fact kDummyPredicate])"
  by code_simp

theorem comparisons_lose_meaning:
  assumes "cmp ''<='' ''3'' ''7''"
  shows "\<exists>dl I. Lower id comparison_program = Inr dl \<and> models (IsNameConstant (list_all is_digit)) cmp I (dl_rules dl) \<and>
    \<not> auth_model (IsNameConstant (list_all is_digit)) cmp (decoded_statements I) comparison_program"
proof -
  let ?const = "IsNameConstant (list_all is_digit)" and ?A = "[quote, CHR ''A'', quote]"
  let ?I = "{(''says_q'', [?A, ''3'']), (''grounded_dummy'', [dummy_constant])}"
  let ?s = "\<lambda>x. if x = ''x'' then ''3'' else x"
  from comparison_program_lowered obtain dl where dl: "Lower id comparison_program = Inr dl"
    and rules: "dl_rules dl =
     [\<lparr>rule_lhs = \<lparr>pred_name = ''says_p'', pred_args = [?A, ''x''], pred_sign = kPositive\<rparr>,
        rule_rhs = [\<lparr>pred_name = ''says_q'', pred_args = [?A, ''x''], pred_sign = kPositive\<rparr>,
          \<lparr>pred_name = ''says_<='', pred_args = [?A, ''x'', ''7''], pred_sign = kPositive\<rparr>]\<rparr>,
      make_fact kDummyPredicate]" by (auto split: sum.splits)
  have "s dummy_constant = dummy_constant" if "valuation ?const s" for s
    using that dummy_is_constant by (simp add: valuation_def)
  then have "models ?const cmp ?I (dl_rules dl)"
    by (simp add: rules rule_holds_def make_fact_def holds_def ground_def kDummyPredicate_def operator_simps)
  moreover have "valuation ?const ?s" by (simp add: valuation_def IsNameConstant_def is_digit_def quote_def)
  then have "\<not> auth_model ?const cmp (decoded_statements ?I) comparison_program"
    using assms
    by (auto simp: auth_model_def comparison_program_def Let_def condition_holds_def compared_def states_def spoken_def
        decoded_statements_def encode_statement_def can_says_def operator_simps quote_def
        intro!: exI [of _ ?s])
  ultimately show ?thesis using dl by blast
qed

definition two_delegations :: auth_program where
  "two_delegations = (let decl = (\<lambda>n. \<lparr>relation_name = n, is_attribute = False, relation_arguments = []\<rparr>);
      fact = (\<lambda>ps n. FactAssertion \<lparr>delegation_chain = map Principal ps,
          fact_base = PredicateFact \<lparr>pred_name = n, pred_args = [], pred_sign = kPositive\<rparr>\<rparr>)
    in \<lparr>relation_declarations = [decl ''foo'', decl ''bar''],
     program_says = [\<lparr>says_principal = Principal ''A'', says_assertions = [fact [''B''] ''foo'', fact [''B'', ''C''] ''bar'']\<rparr>],
     program_queries = []\<rparr>)"

text \<open>When two relations are delegated, the declarations of the deeper delegations are built from
  the wrong entry of the common vector: here the relation \<^verbatim>\<open>says_canSay_canSay_bar\<close>, which a rule of
  the lowered program uses, is declared or not depending on the iteration order of a hash map.\<close>

theorem delegation_declaration_missing:
  "(case Lower id two_delegations of Inl _ \<Rightarrow> False | Inr dl \<Rightarrow>
      ''says_canSay_canSay_bar'' \<in> set (map (\<lambda>r. pred_name (rule_lhs r)) (dl_rules dl)) \<and>
      ''says_canSay_canSay_bar'' \<notin> set (map relation_name (dl_declarations dl))) \<and>
   (case Lower rev two_delegations of Inl _ \<Rightarrow> False | Inr dl \<Rightarrow>
      ''says_canSay_canSay_bar'' \<in> set (map relation_name (dl_declarations dl)))"
  by code_simp

end
