(* ===== verification/Auth_Universe.thy ===== *)
theory Auth_Universe imports
  Auth_Environments Auth_Semantics
begin

text \<open>
  Universe relations, \<^verbatim>\<open>src/ir/auth_logic/universe_relation_insertion.cc\<close>: a pass over the abstract
  syntax that declares a relation for every type, fills it with the constants of the program and
  conditions every assertion on its variables being in their universes. The hash containers it
  iterates over have an order that is a parameter.
\<close>

section \<open>Universes\<close>

definition TypeToUniverseName :: "argument_type \<Rightarrow> string" where
  "TypeToUniverseName t = (case argument_type_kind t of kNumber \<Rightarrow> ''isNumber''
     | kPrincipal \<Rightarrow> ''isPrincipal'' | kCustom \<Rightarrow> ''is'' @ argument_type_name t)"

definition MakeUniverseMembershipFact :: "string \<Rightarrow> argument_type \<Rightarrow> base_fact" where
  "MakeUniverseMembershipFact element_name arg_type = PredicateFact
     \<lparr>pred_name = TypeToUniverseName arg_type, pred_args = [element_name], pred_sign = kPositive\<rparr>"

definition TypeToUniverseDeclaration :: "argument_type \<Rightarrow> relation_declaration" where
  "TypeToUniverseDeclaration arg_type = \<lparr>relation_name = TypeToUniverseName arg_type, is_attribute = False,
     relation_arguments = [\<lparr>argument_name = ''x'', argument_type = arg_type\<rparr>]\<rparr>"

type_synonym literal_order = "(string \<times> argument_type) list \<Rightarrow> (string \<times> argument_type) list"
type_synonym declaration_order = "relation_declaration list \<Rightarrow> relation_declaration list"

definition GetUniverseDefiningFacts :: "literal_order \<Rightarrow> literal_type_map \<Rightarrow> says_assertion list" where
  "GetUniverseDefiningFacts ord type_env =
     (let constant_principals = map (\<lambda>typing. Principal (fst typing))
            (filter (\<lambda>typing. argument_type_kind (snd typing) = kPrincipal) (ord type_env))
      in concat (map (\<lambda>prin. map (\<lambda>typing. \<lparr>says_principal = prin,
           says_assertions = [FactAssertion \<lparr>delegation_chain = [],
             fact_base = MakeUniverseMembershipFact (fst typing) (snd typing)\<rparr>]\<rparr>)
         (ord type_env)) constant_principals))"

section \<open>Declarations of universes\<close>

definition hs_merge :: "'a hash_set \<Rightarrow> 'a hash_set \<Rightarrow> 'a hash_set" where
  "hs_merge left_set right_set = left_set @ filter (\<lambda>x. x \<notin> set left_set) right_set"

definition visit_declared_universes :: "relation_declaration \<Rightarrow> relation_declaration hash_set" where
  "visit_declared_universes d =
     fold (\<lambda>a. hs_insert (TypeToUniverseDeclaration (argument_type a))) (relation_arguments d) []"

definition UniverseDeclarationGenerationVisitor :: "(unit, relation_declaration hash_set) ast_visitor" where
  "UniverseDeclarationGenerationVisitor = (default_ast_visitor [])\<lparr>CombineResult := hs_merge,
     Visit_declaration := (\<lambda>d s. Inr (visit_declared_universes d, s))\<rparr>"

definition GetUniverseDeclarations :: "auth_program \<Rightarrow> relation_declaration hash_set result" where
  "GetUniverseDeclarations prog =
     rbind (Visit_program UniverseDeclarationGenerationVisitor prog ()) (\<lambda>(ret, _).
     Inr (hs_merge ret (hs_insert (TypeToUniverseDeclaration MakePrincipalType)
       (hs_insert (TypeToUniverseDeclaration MakeNumberType) []))))"

section \<open>Conditions\<close>

definition condition_principal :: "(string \<Rightarrow> bool) \<Rightarrow> principal \<Rightarrow> base_fact list" where
  "condition_principal simple_atoi prin =
     (if \<not> IsNameConstant simple_atoi (principal_name prin)
      then [MakeUniverseMembershipFact (principal_name prin) MakePrincipalType] else [])"

definition condition_predicate ::
  "(string \<Rightarrow> bool) \<Rightarrow> declaration_environment \<Rightarrow> dl_predicate \<Rightarrow> base_fact list result" where
  "condition_predicate simple_atoi decl_env pred =
     rbind (GetDeclarationOrFatal (pred_name pred) decl_env) (\<lambda>decl.
     fold_result (\<lambda>i conditions. let arg = pred_args pred ! i in
         if \<not> IsNameConstant simple_atoi arg
         then rbind (argument_at decl i) (\<lambda>a. Inr (conditions @ [MakeUniverseMembershipFact arg (argument_type a)]))
         else Inr conditions)
       [0..<length (pred_args pred)] [])"

definition GroundingConditionTransformer ::
  "(string \<Rightarrow> bool) \<Rightarrow> declaration_environment \<Rightarrow> (unit, base_fact list) ast_visitor" where
  "GroundingConditionTransformer simple_atoi decl_env = (default_ast_visitor [])\<lparr>CombineResult := (@),
     PreVisit_principal := (\<lambda>p s. Inr (condition_principal simple_atoi p, s)),
     Visit_predicate := (\<lambda>p s. rbind (condition_predicate simple_atoi decl_env p) (\<lambda>c. Inr (c, s)))\<rparr>"

definition GetUniverseConditions ::
  "(string \<Rightarrow> bool) \<Rightarrow> declaration_environment \<Rightarrow> base_fact \<Rightarrow> base_fact list result" where
  "GetUniverseConditions simple_atoi decl_env b =
     rbind (Visit_base_fact (GroundingConditionTransformer simple_atoi decl_env) b ()) (\<lambda>(r, _). Inr r)"

definition AddUniverseConditions_fact ::
  "(string \<Rightarrow> bool) \<Rightarrow> declaration_environment \<Rightarrow> fact \<Rightarrow> assertion result" where
  "AddUniverseConditions_fact simple_atoi decl_env f =
     rbind (GetUniverseConditions simple_atoi decl_env (fact_base f)) (\<lambda>conditions.
     Inr (if length conditions > 0 then Conditional \<lparr>cond_lhs = f, cond_rhs = conditions\<rparr> else FactAssertion f))"

definition AddUniverseConditions_conditional ::
  "(string \<Rightarrow> bool) \<Rightarrow> declaration_environment \<Rightarrow> conditional_assertion \<Rightarrow> assertion result" where
  "AddUniverseConditions_conditional simple_atoi decl_env c =
     rbind (GetUniverseConditions simple_atoi decl_env (fact_base (cond_lhs c))) (\<lambda>conditions.
     Inr (Conditional \<lparr>cond_lhs = cond_lhs c, cond_rhs = conditions @ cond_rhs c\<rparr>))"

definition AddUniverseConditions_assertion ::
  "(string \<Rightarrow> bool) \<Rightarrow> declaration_environment \<Rightarrow> assertion \<Rightarrow> assertion result" where
  "AddUniverseConditions_assertion simple_atoi decl_env a = (case a of
       FactAssertion f \<Rightarrow> AddUniverseConditions_fact simple_atoi decl_env f
     | Conditional c \<Rightarrow> AddUniverseConditions_conditional simple_atoi decl_env c)"

definition AddUniverseConditions ::
  "(string \<Rightarrow> bool) \<Rightarrow> declaration_environment \<Rightarrow> says_assertion \<Rightarrow> says_assertion result" where
  "AddUniverseConditions simple_atoi decl_env d =
     rbind (map_result (AddUniverseConditions_assertion simple_atoi decl_env) (says_assertions d)) (\<lambda>assertion_list.
     Inr \<lparr>says_principal = says_principal d, says_assertions = assertion_list\<rparr>)"

definition InsertUniverseRelations ::
  "(string \<Rightarrow> bool) \<Rightarrow> literal_order \<Rightarrow> declaration_order \<Rightarrow> auth_program \<Rightarrow> auth_program result" where
  "InsertUniverseRelations simple_atoi lit_order decl_order prog =
     rbind (DeclarationEnvironment prog) (\<lambda>decl_env.
     rbind (TypeEnvironment simple_atoi decl_env prog) (\<lambda>type_env.
     rbind (map_result (AddUniverseConditions simple_atoi decl_env) (program_says prog)) (\<lambda>conditioned.
     rbind (GetUniverseDeclarations prog) (\<lambda>universe_declarations.
     Inr \<lparr>relation_declarations = relation_declarations prog @ decl_order universe_declarations,
       program_says = GetUniverseDefiningFacts lit_order type_env @ conditioned,
       program_queries = program_queries prog\<rparr>))))"

section \<open>What the visitors compute\<close>

lemma hs_merge_simps [simp]:
  "hs_merge [] xs = xs" "hs_merge xs [] = xs" "set (hs_merge xs ys) = set xs \<union> set ys"
  by (auto simp: hs_merge_def)

lemma distinct_hs_merge [simp]: "distinct xs \<Longrightarrow> distinct ys \<Longrightarrow> distinct (hs_merge xs ys)"
  by (auto simp: hs_merge_def)

interpretation set_results: result_monoid "[]" hs_merge
  by unfold_locales (auto simp: hs_merge_def intro!: filter_cong)

definition universes_of_leaf :: "leaf \<Rightarrow> relation_declaration list" where
  "universes_of_leaf l = (case l of DeclarationLeaf d \<Rightarrow> visit_declared_universes d | _ \<Rightarrow> [])"

lemma run_pure_leaves: "run_leaves c (\<lambda>l s. Inr (f l, s)) ls (r, s) = Inr (fold (\<lambda>l r. c r (f l)) ls r, s)"
  by (induction ls arbitrary: r) simp_all

lemma GetUniverseDeclarations_eq:
  "GetUniverseDeclarations prog = Inr (hs_merge (fold (\<lambda>l r. hs_merge r (universes_of_leaf l)) (program_leaves prog) [])
     [TypeToUniverseDeclaration MakeNumberType, TypeToUniverseDeclaration MakePrincipalType])"
proof -
  have visitor: "UniverseDeclarationGenerationVisitor = leaf_visitor [] hs_merge (\<lambda>l s. Inr (universes_of_leaf l, s))"
    by (simp add: UniverseDeclarationGenerationVisitor_def leaf_visitor_def default_ast_visitor_def Let_def
        universes_of_leaf_def)
  have "Visit_program UniverseDeclarationGenerationVisitor prog () =
      Inr (fold (\<lambda>l r. hs_merge r (universes_of_leaf l)) (program_leaves prog) [], ())"
    unfolding visitor set_results.Visit_program_leaves run_pure_leaves by (rule refl)
  moreover have "TypeToUniverseDeclaration MakeNumberType \<noteq> TypeToUniverseDeclaration MakePrincipalType"
    by (simp add: TypeToUniverseDeclaration_def MakeNumberType_def MakePrincipalType_def)
  ultimately show ?thesis
    by (simp add: GetUniverseDeclarations_def hs_insert_def)
qed

definition condition_leaf ::
  "(string \<Rightarrow> bool) \<Rightarrow> declaration_environment \<Rightarrow> leaf \<Rightarrow> base_fact list result" where
  "condition_leaf simple_atoi env l = (case l of PrincipalLeaf p \<Rightarrow> Inr (condition_principal simple_atoi p)
     | PredicateLeaf p \<Rightarrow> condition_predicate simple_atoi env p | DeclarationLeaf d \<Rightarrow> Inr [])"

lemma GetUniverseConditions_eq:
  "GetUniverseConditions simple_atoi env b =
     rbind (map_result (condition_leaf simple_atoi env) (base_leaves b)) (\<lambda>cs. Inr (concat cs))"
proof -
  have visitor: "GroundingConditionTransformer simple_atoi env =
      leaf_visitor [] (@) (\<lambda>l s. rbind (condition_leaf simple_atoi env l) (\<lambda>c. Inr (c, s)))"
    by (simp add: GroundingConditionTransformer_def leaf_visitor_def default_ast_visitor_def Let_def condition_leaf_def)
  have leaves: "run_leaves (@) (\<lambda>l s. rbind (f l) (\<lambda>c. Inr (c, s))) ls (r, s) =
      rbind (map_result f ls) (\<lambda>cs. Inr (r @ concat cs, s))" for f :: "leaf \<Rightarrow> base_fact list result" and ls r and s :: unit
  proof (induction ls arbitrary: r)
    case (Cons l ls)
    then show ?case by (cases "f l"; cases "map_result f ls") simp_all
  qed simp
  show ?thesis
    by (simp only: GetUniverseConditions_def visitor list_results.Visit_base_fact_leaves leaves rbind_assoc
        rbind_simps prod.case append_Nil)
qed

section \<open>The conditions cover the variables\<close>

lemma condition_predicate_covers:
  assumes "condition_predicate simple_atoi env p = Inr cs" and "x \<in> set (pred_args p)"
    and "\<not> IsNameConstant simple_atoi x"
  shows "\<exists>t. MakeUniverseMembershipFact x t \<in> set cs"
proof -
  let ?step = "\<lambda>d i conditions. let arg = pred_args p ! i in
         if \<not> IsNameConstant simple_atoi arg
         then rbind (argument_at d i) (\<lambda>a. Inr (conditions @ [MakeUniverseMembershipFact arg (argument_type a)]))
         else Inr conditions"
  have loop: "\<forall>i \<in> set is. \<not> IsNameConstant simple_atoi (pred_args p ! i) \<longrightarrow>
      (\<exists>t. MakeUniverseMembershipFact (pred_args p ! i) t \<in> set cs)"
    if "fold_result (?step d) is [] = Inr cs" for d "is" cs
    using that
  proof (induction "is" arbitrary: cs rule: rev_induct)
    case (snoc i js)
    from snoc.prems obtain cs1 where js: "fold_result (?step d) js [] = Inr cs1" and i: "?step d i cs1 = Inr cs"
      by (auto simp: fold_result_append)
    from i have "set cs1 \<subseteq> set cs" and "\<not> IsNameConstant simple_atoi (pred_args p ! i) \<longrightarrow>
        (\<exists>t. MakeUniverseMembershipFact (pred_args p ! i) t \<in> set cs)"
      by (auto simp: Let_def split: if_splits)
    with snoc.IH [OF js] show ?case by auto
  qed simp
  from assms(1) obtain d where "fold_result (?step d) [0..<length (pred_args p)] [] = Inr cs"
    by (auto simp: condition_predicate_def)
  from loop [OF this] assms(2,3) show ?thesis by (auto simp: in_set_conv_nth)
qed

definition leaf_names :: "leaf \<Rightarrow> string list" where
  "leaf_names l = (case l of PrincipalLeaf p \<Rightarrow> [principal_name p] | PredicateLeaf p \<Rightarrow> pred_args p | DeclarationLeaf d \<Rightarrow> [])"

lemma base_leaves_names: "concat (map leaf_names (base_leaves b)) = base_names b"
  by (cases b) (simp_all add: leaf_names_def)

lemma conditions_cover:
  assumes "GetUniverseConditions simple_atoi env b = Inr cs" and "x \<in> set (base_names b)"
    and "\<not> IsNameConstant simple_atoi x"
  shows "\<exists>t. MakeUniverseMembershipFact x t \<in> set cs"
proof -
  from assms(1) obtain css where css: "map_result (condition_leaf simple_atoi env) (base_leaves b) = Inr css"
    and cs: "cs = concat css" by (auto simp: GetUniverseConditions_eq)
  from assms(2) obtain l where l: "l \<in> set (base_leaves b)" and x: "x \<in> set (leaf_names l)"
    by (auto simp: base_leaves_names [symmetric])
  from l obtain i where i: "i < length (base_leaves b)" "l = base_leaves b ! i" by (auto simp: in_set_conv_nth)
  from map_result_nth [OF css i(1)] map_result_length [OF css] i
  have step: "condition_leaf simple_atoi env l = Inr (css ! i)" and mem: "css ! i \<in> set css" by simp_all
  have "\<exists>t. MakeUniverseMembershipFact x t \<in> set (css ! i)"
  proof (cases l)
    case (PrincipalLeaf p)
    with step x assms(3) have "css ! i = [MakeUniverseMembershipFact x MakePrincipalType]"
      by (simp add: condition_leaf_def leaf_names_def condition_principal_def)
    then show ?thesis by auto
  next
    case (PredicateLeaf p)
    with step x assms(3) show ?thesis
      by (auto simp: condition_leaf_def leaf_names_def intro!: condition_predicate_covers)
  qed (use x in \<open>simp add: leaf_names_def\<close>)
  with mem show ?thesis by (auto simp: cs)
qed

fun assertion_head :: "assertion \<Rightarrow> fact" where
  "assertion_head (FactAssertion f) = f"
| "assertion_head (Conditional c) = cond_lhs c"

fun assertion_conditions :: "assertion \<Rightarrow> base_fact list" where
  "assertion_conditions (FactAssertion f) = []"
| "assertion_conditions (Conditional c) = cond_rhs c"

text \<open>An assertion whose head's variables are conditioned.\<close>

definition conditioned :: "(string \<Rightarrow> bool) \<Rightarrow> assertion \<Rightarrow> bool" where
  "conditioned simple_atoi a \<longleftrightarrow> (\<forall>x \<in> set (base_names (fact_base (assertion_head a))).
     IsNameConstant simple_atoi x \<or> (\<exists>t. MakeUniverseMembershipFact x t \<in> set (assertion_conditions a)))"

lemma AddUniverseConditions_assertion_correct:
  assumes "AddUniverseConditions_assertion simple_atoi env a = Inr a'"
  shows "conditioned simple_atoi a' \<and> assertion_head a' = assertion_head a \<and>
    (\<exists>cs. assertion_conditions a' = cs @ assertion_conditions a)"
proof -
  have cover: "\<forall>x \<in> set (base_names b). IsNameConstant simple_atoi x \<or> (\<exists>t. MakeUniverseMembershipFact x t \<in> set cs)"
    if "GetUniverseConditions simple_atoi env b = Inr cs" for b cs
    using conditions_cover [OF that] by blast
  show ?thesis
  proof (cases a)
    case (FactAssertion f)
    with assms obtain cs where cs: "GetUniverseConditions simple_atoi env (fact_base f) = Inr cs"
      and a': "a' = (if cs \<noteq> [] then Conditional \<lparr>cond_lhs = f, cond_rhs = cs\<rparr> else FactAssertion f)"
      by (auto simp: AddUniverseConditions_assertion_def AddUniverseConditions_fact_def)
    from cover [OF cs] show ?thesis by (cases "cs = []") (simp_all add: a' FactAssertion conditioned_def)
  next
    case (Conditional c)
    with assms obtain cs where cs: "GetUniverseConditions simple_atoi env (fact_base (cond_lhs c)) = Inr cs"
      and a': "a' = Conditional \<lparr>cond_lhs = cond_lhs c, cond_rhs = cs @ cond_rhs c\<rparr>"
      by (auto simp: AddUniverseConditions_assertion_def AddUniverseConditions_conditional_def)
    from cover [OF cs] show ?thesis by (auto simp: a' Conditional conditioned_def)
  qed
qed

lemma TypeEnvironment_constants:
  assumes "TypeEnvironment simple_atoi env prog = Inr types"
  shows "hm_wf types \<and> (\<forall>xt \<in> set types. IsNameConstant simple_atoi (fst xt))"
proof -
  let ?inv = "\<lambda>m. hm_wf m \<and> (\<forall>xt \<in> set m. IsNameConstant simple_atoi (fst xt))"
  have add: "?inv m \<Longrightarrow> AddTyping simple_atoi x t m = Inr m' \<Longrightarrow> ?inv m'" for x t m m'
  proof -
    assume m: "?inv m" and a: "AddTyping simple_atoi x t m = Inr m'"
    then have "hm_wf m'" by (auto simp: AddTyping_def split: if_splits option.splits)
    moreover from m a have "\<forall>xt \<in> set m'. IsNameConstant simple_atoi (fst xt)"
      by (auto simp: AddTyping_def hm_insert_def split: if_splits option.splits)
    ultimately show "?inv m'" by simp
  qed
  have leaf: "?inv m'" if "?inv m" "type_leaf simple_atoi env l m = Inr m'" for l m m'
  proof (cases l)
    case (PrincipalLeaf p)
    with that(2) have "AddTyping simple_atoi (principal_name p) MakePrincipalType m = Inr m'"
      by (simp add: type_leaf_def type_principal_def)
    with that(1) show ?thesis by (rule add)
  next
    case (PredicateLeaf p)
    show ?thesis
    proof (cases "IsNumericOperator p")
      case True
      with that PredicateLeaf have "fold_result (\<lambda>arg. AddTyping simple_atoi arg MakeNumberType) (pred_args p) m = Inr m'"
        by (simp add: type_leaf_def type_predicate_def)
      then show ?thesis using that(1) by (rule fold_result_invariant) (rule add)
    next
      case False
      with that PredicateLeaf obtain d where
        "fold_result (\<lambda>i m. rbind (argument_at d i) (\<lambda>a. AddTyping simple_atoi (pred_args p ! i) (argument_type a) m))
           [0..<length (pred_args p)] m = Inr m'"
        by (auto simp: type_leaf_def type_predicate_def)
      then show ?thesis using that(1) by (rule fold_result_invariant) (elim rbind_InrE, rule add)
    qed
  next
    case (DeclarationLeaf d)
    with that show ?thesis by (simp add: type_leaf_def)
  qed
  from assms have "fold_result (type_leaf simple_atoi env) (program_leaves prog) [] = Inr types"
    by (simp add: TypeEnvironment_eq)
  then show ?thesis by (rule fold_result_invariant) (simp, rule leaf)
qed

end
