(* ===== verification/Auth_Safety.thy ===== *)
theory Auth_Safety imports
  Auth_Universe
begin

text \<open>
  What the universe pass is for: after it, the rules that authorization logic is lowered to are
  safe datalog, every variable of a head occurs in a positive condition. The pass does not
  condition the principals of a delegation chain, so those have to be constants.
\<close>

section \<open>The result of the pass\<close>

lemma InsertUniverseRelations_says:
  assumes "InsertUniverseRelations simple_atoi lit_order decl_order prog = Inr prog'" and "is_order lit_order"
    and "d \<in> set (program_says prog')" and "a \<in> set (says_assertions d)"
  shows "conditioned simple_atoi a \<and>
    (IsNameConstant simple_atoi (principal_name (says_principal d)) \<and> delegation_chain (assertion_head a) = [] \<and>
       base_positive (fact_base (assertion_head a)) \<or>
     (\<exists>d0 \<in> set (program_says prog). says_principal d = says_principal d0 \<and>
       (\<exists>a0 \<in> set (says_assertions d0). assertion_head a = assertion_head a0)))"
proof -
  from assms(1) obtain env types cond where types: "TypeEnvironment simple_atoi env prog = Inr types"
    and cond: "map_result (AddUniverseConditions simple_atoi env) (program_says prog) = Inr cond"
    and says: "program_says prog' = GetUniverseDefiningFacts lit_order types @ cond"
    by (auto simp: InsertUniverseRelations_def)
  from assms(3) consider "d \<in> set (GetUniverseDefiningFacts lit_order types)" | "d \<in> set cond"
    by (auto simp: says)
  then show ?thesis
  proof cases
    case 1
    note ord = is_order_set [OF assms(2)]
    from 1 assms(4) obtain p xt where "p \<in> set types" and "xt \<in> set types" and d: "says_principal d = Principal (fst p)"
      and a: "a = FactAssertion \<lparr>delegation_chain = [], fact_base = MakeUniverseMembershipFact (fst xt) (snd xt)\<rparr>"
      by (auto simp: GetUniverseDefiningFacts_def Let_def ord)
    with TypeEnvironment_constants [OF types] show ?thesis
      by (simp add: conditioned_def MakeUniverseMembershipFact_def)
  next
    case 2
    from map_result_set [OF cond 2] obtain d0 where d0: "d0 \<in> set (program_says prog)"
      and step: "AddUniverseConditions simple_atoi env d0 = Inr d" by auto
    from step obtain as' where as': "map_result (AddUniverseConditions_assertion simple_atoi env) (says_assertions d0) = Inr as'"
      and d: "d = \<lparr>says_principal = says_principal d0, says_assertions = as'\<rparr>"
      by (auto simp: AddUniverseConditions_def)
    from assms(4) d have "a \<in> set as'" by simp
    from map_result_set [OF as' this] obtain a0 where "a0 \<in> set (says_assertions d0)"
      and "AddUniverseConditions_assertion simple_atoi env a0 = Inr a" by auto
    with AddUniverseConditions_assertion_correct [OF this(2)] d0 d show ?thesis by auto
  qed
qed

section \<open>Safe rules\<close>

definition safe_rule :: "(string \<Rightarrow> bool) \<Rightarrow> rule \<Rightarrow> bool" where
  "safe_rule const r \<longleftrightarrow> (\<forall>x \<in> set (pred_args (rule_lhs r)). const x \<or>
     (\<exists>p \<in> set (rule_rhs r). pred_sign p = kPositive \<and> x \<in> set (pred_args p)))"

lemma BaseFactToDLIR_safe:
  assumes "BaseFactToDLIR speaker b st = Inr ((q, rs), st')" and "base_positive b"
  shows "q = base_predicate b \<and> (\<forall>r \<in> set rs. safe_rule const r)"
  using assms
  by (cases b) (auto simp: SpokenAttributeToDLIR_def SpokenCanActAsToDLIR_def Let_def safe_rule_def push_simps)

lemma delegates_safe:
  assumes "fold_result (delegate speaker) es ((q, rs), st) = Inr ((q', rs'), st')"
    and "pred_sign q = kPositive" and "\<forall>r \<in> set rs. safe_rule const r"
  shows "q' = delegated es q \<and> (\<forall>r \<in> set rs'. safe_rule const r)"
  using assms
proof (induction es arbitrary: q rs st)
  case (Cons e es)
  from Cons.prems(1) obtain acc where first: "delegate speaker e ((q, rs), st) = Inr acc"
    and run: "fold_result (delegate speaker) es acc = Inr ((q', rs'), st')" by auto
  from first obtain x st1 where
    acc: "acc = ((PushPrincipal ''canSay_'' e q, rs @
      [\<lparr>rule_lhs = PushPrincipal ''says_'' speaker q, rule_rhs = [PushPrincipal ''says_'' (Principal x) q,
        PushPrincipal ''says_'' speaker (PushPrincipal ''canSay_'' (Principal x) q)]\<rparr>]), st1)"
    by (auto simp: delegate_def Let_def)
  from Cons.IH [OF run [unfolded acc]] Cons.prems(2,3) show ?case
    by (auto simp: safe_rule_def push_simps)
qed simp

lemma FactToDLIR_safe:
  assumes "FactToDLIR speaker f st = Inr ((q, rs), st')" and "base_positive (fact_base f)"
  shows "q = delegated (delegation_chain f) (base_predicate (fact_base f)) \<and> (\<forall>r \<in> set rs. safe_rule const r)"
proof -
  from assms(1) obtain base rs1 st1 st2 where b: "BaseFactToDLIR speaker (fact_base f) st = Inr ((base, rs1), st1)"
    and d: "fold_result (delegate speaker) (delegation_chain f) ((base, rs1), st1) = Inr ((q, rs), st2)"
    by (auto simp: FactToDLIR_def)
  from BaseFactToDLIR_safe [OF b assms(2), of const] delegates_safe [OF d, of const] assms(2) show ?thesis
    by (auto simp: base_predicate_simps)
qed

lemma FactToDLIR_predicate:
  assumes "map_state (condition_to_DLIR speaker) bs st = Inr (ps, st')" and "PredicateFact p \<in> set bs"
  shows "PushPrincipal ''says_'' speaker p \<in> set ps"
  using assms
  by (induction bs arbitrary: st ps) (auto simp: condition_to_DLIR_def)

definition constant_principals :: "(string \<Rightarrow> bool) \<Rightarrow> principal \<Rightarrow> fact \<Rightarrow> bool" where
  "constant_principals const speaker f \<longleftrightarrow>
     (\<forall>p \<in> set (speaker # delegation_chain f). const (principal_name p))"

lemma head_names:
  "pred_args (PushPrincipal ''says_'' speaker (delegated ds (base_predicate b))) =
     principal_name speaker # rev (map principal_name ds) @ base_names b"
  by (simp add: push_simps delegated_eq base_predicate_simps)

lemma assertion_safe:
  assumes "SingleSaysAssertionToDLIR speaker a st = Inr (rs, st')" and "conditioned simple_atoi a"
    and "constant_principals (IsNameConstant simple_atoi) speaker (assertion_head a)"
    and "base_positive (fact_base (assertion_head a))"
  shows "\<forall>r \<in> set rs. safe_rule (IsNameConstant simple_atoi) r"
proof (cases a)
  case (FactAssertion f)
  with assms obtain q rs1 st1 where q: "FactToDLIR speaker f st = Inr ((q, rs1), st1)"
    and rs: "rs = rs1 @ [make_fact (PushPrincipal ''says_'' speaker q)]"
    by (auto simp: GenerateDLIRAssertions_fact_def)
  from FactToDLIR_safe [OF q] FactAssertion assms(2-4) show ?thesis
    by (auto simp: rs safe_rule_def make_fact_def head_names constant_principals_def conditioned_def)
next
  case (Conditional c)
  with assms obtain ps q rs1 st1 st2 where ps: "map_state (condition_to_DLIR speaker) (cond_rhs c) st = Inr (ps, st1)"
    and q: "FactToDLIR speaker (cond_lhs c) st1 = Inr ((q, rs1), st2)"
    and rs: "rs = rs1 @ [\<lparr>rule_lhs = PushPrincipal ''says_'' speaker q, rule_rhs = ps\<rparr>]"
    by (auto simp: GenerateDLIRAssertions_conditional_def Let_def)
  have "\<exists>p \<in> set ps. pred_sign p = kPositive \<and> x \<in> set (pred_args p)"
    if "MakeUniverseMembershipFact x t \<in> set (cond_rhs c)" for x t
    using that unfolding MakeUniverseMembershipFact_def
    by (intro bexI [OF _ FactToDLIR_predicate [OF ps]]) (auto simp: push_simps)
  with FactToDLIR_safe [OF q] Conditional assms(2-4) show ?thesis
    by (fastforce simp: rs safe_rule_def head_names constant_principals_def conditioned_def)
qed

lemma assertions_safe:
  assumes "map_state (SingleSaysAssertionToDLIR speaker) as st = Inr (rss, st')"
    and "\<And>a st rs st'. a \<in> set as \<Longrightarrow> SingleSaysAssertionToDLIR speaker a st = Inr (rs, st') \<Longrightarrow> \<forall>r \<in> set rs. P r"
  shows "\<forall>r \<in> set (concat rss). P r"
  using assms by (induction as arbitrary: st rss) fastforce+

lemma Lower_rules:
  assumes "Lower ord prog = Inr dl" and "r \<in> set (dl_rules dl)"
  shows "(\<exists>d \<in> set (program_says prog). \<exists>a \<in> set (says_assertions d). \<exists>st rs st'.
      SingleSaysAssertionToDLIR (says_principal d) a st = Inr (rs, st') \<and> r \<in> set rs) \<or>
    pred_args (rule_lhs r) = [dummy_constant]"
proof -
  from assms(1) obtain rs st1 qs st2 where rs: "SaysAssertionsToDLIR (program_says prog) new_lowering = Inr (rs, st1)"
    and qs: "map_state query_to_DLIR (program_queries prog) st1 = Inr (qs, st2)"
    and dl: "dl_rules dl = rs @ qs @ [make_fact kDummyPredicate]"
    by (auto simp: Lower_def ProgToDLIR_def Let_def QueriesToDLIR_def)
  from rs obtain rss where rss: "map_state SaysAssertionToDLIR (program_says prog) new_lowering = Inr (rss, st1)"
    and concat: "rs = concat rss" by (auto simp: SaysAssertionsToDLIR_def)
  from assms(2) consider "r \<in> set rs" | "r \<in> set qs" | "r = make_fact kDummyPredicate" by (auto simp: dl)
  then show ?thesis
  proof cases
    case 1
    then obtain rs1 where rs1: "rs1 \<in> set rss" "r \<in> set rs1" by (auto simp: concat)
    from map_state_results [OF rss] rs1(1) obtain d t t' where d: "d \<in> set (program_says prog)"
      and step: "SaysAssertionToDLIR d t = Inr (rs1, t')"
      by (auto simp: list_all2_conv_all_nth in_set_conv_nth) metis
    from step obtain rss1 where rss1: "map_state (SingleSaysAssertionToDLIR (says_principal d)) (says_assertions d) t = Inr (rss1, t')"
      and "rs1 = concat rss1" by (auto simp: SaysAssertionToDLIR_def)
    with rs1(2) obtain rs2 where rs2: "rs2 \<in> set rss1" "r \<in> set rs2" by auto
    from map_state_results [OF rss1] rs2(1) obtain a u u' where "a \<in> set (says_assertions d)"
      and "SingleSaysAssertionToDLIR (says_principal d) a u = Inr (rs2, u')"
      by (auto simp: list_all2_conv_all_nth in_set_conv_nth) metis
    with d rs2(2) show ?thesis by blast
  next
    case 2
    from map_state_results [OF qs] 2 obtain q t t' where "query_to_DLIR q t = Inr (r, t')"
      by (auto simp: list_all2_conv_all_nth in_set_conv_nth)
    then show ?thesis by (auto simp: query_to_DLIR_def Let_def)
  qed (simp add: make_fact_def kDummyPredicate_def)
qed

lemma lowered_rules_safe:
  assumes "InsertUniverseRelations simple_atoi lit_order decl_order prog = Inr prog'" and "is_order lit_order"
    and "Lower depth_order prog' = Inr dl"
    and "\<forall>d \<in> set (program_says prog). \<forall>a \<in> set (says_assertions d).
      constant_principals (IsNameConstant simple_atoi) (says_principal d) (assertion_head a) \<and>
      base_positive (fact_base (assertion_head a))"
  shows "\<forall>r \<in> set (dl_rules dl). safe_rule (IsNameConstant simple_atoi) r"
proof
  fix r
  assume "r \<in> set (dl_rules dl)"
  from Lower_rules [OF assms(3) this] show "safe_rule (IsNameConstant simple_atoi) r"
  proof (elim disjE bexE exE conjE)
    fix d a st rs st'
    assume da: "d \<in> set (program_says prog')" "a \<in> set (says_assertions d)"
      and step: "SingleSaysAssertionToDLIR (says_principal d) a st = Inr (rs, st')" and r: "r \<in> set rs"
    note says = InsertUniverseRelations_says [OF assms(1,2) da]
    then have "constant_principals (IsNameConstant simple_atoi) (says_principal d) (assertion_head a) \<and>
        base_positive (fact_base (assertion_head a))"
      using assms(4) by (auto simp: constant_principals_def)
    with assertion_safe [OF step] says r show ?thesis by blast
  qed (simp add: safe_rule_def dummy_is_constant)
qed

text \<open>C7: The universe pass followed by the lowering gives safe datalog: every variable of a rule's
  head occurs in a positive predicate of its body. The principals that speak and delegate in the
  program have to be constants, which the pass does not see to, and the heads positive.\<close>

theorem lowered_rules_are_safe:
  assumes "InsertUniverseRelations simple_atoi lit_order decl_order prog = Inr prog'" and "is_order lit_order"
    and "Lower depth_order prog' = Inr dl"
    and "\<forall>d \<in> set (program_says prog). \<forall>a \<in> set (says_assertions d).
      constant_principals (IsNameConstant simple_atoi) (says_principal d) (assertion_head a) \<and>
      base_positive (fact_base (assertion_head a))"
  shows "\<forall>r \<in> set (dl_rules dl). safe_rule (IsNameConstant simple_atoi) r"
  using assms by (rule lowered_rules_safe)

theorem lowered_rules_are_safe_witness:
  "\<exists>dl. rbind (InsertUniverseRelations (list_all is_digit) rev rev delegation_program) (Lower rev) = Inr dl \<and>
     length (dl_rules dl) = 7 \<and> (\<forall>r \<in> set (dl_rules dl). safe_rule (IsNameConstant (list_all is_digit)) r)"
proof -
  have "case rbind (InsertUniverseRelations (list_all is_digit) rev rev delegation_program) (Lower rev) of
      Inl _ \<Rightarrow> False | Inr dl \<Rightarrow> length (dl_rules dl) = 7"
    by code_simp
  then obtain prog' dl where prog': "InsertUniverseRelations (list_all is_digit) rev rev delegation_program = Inr prog'"
    and dl: "Lower rev prog' = Inr dl" and "length (dl_rules dl) = 7"
    by (auto split: sum.splits)
  moreover have "\<forall>d \<in> set (program_says delegation_program). \<forall>a \<in> set (says_assertions d).
      constant_principals (IsNameConstant (list_all is_digit)) (says_principal d) (assertion_head a) \<and>
      base_positive (fact_base (assertion_head a))"
    by code_simp
  from lowered_rules_are_safe [OF prog' _ dl this] have "\<forall>r \<in> set (dl_rules dl). safe_rule (IsNameConstant (list_all is_digit)) r"
    by simp
  ultimately show ?thesis by auto
qed

definition variable_delegatee :: auth_program where
  "variable_delegatee = \<lparr>relation_declarations = [\<lparr>relation_name = ''foo'', is_attribute = False, relation_arguments = []\<rparr>],
     program_says = [\<lparr>says_principal = Principal [quote, CHR ''A'', quote], says_assertions =
       [FactAssertion \<lparr>delegation_chain = [Principal ''anyone''],
          fact_base = PredicateFact \<lparr>pred_name = ''foo'', pred_args = [], pred_sign = kPositive\<rparr>\<rparr>]\<rparr>],
     program_queries = []\<rparr>"

text \<open>A variable in a delegation chain gets no universe condition: the program that lets anyone
  say a fact is lowered, after the universe pass, to a fact with a variable, which is not safe
  datalog.\<close>

theorem delegatee_variable_unsafe:
  "case rbind (InsertUniverseRelations (list_all is_digit) id id variable_delegatee) (Lower id) of
     Inl _ \<Rightarrow> False
   | Inr dl \<Rightarrow> make_fact \<lparr>pred_name = ''says_canSay_foo'', pred_args = [[quote, CHR ''A'', quote], ''anyone''],
         pred_sign = kPositive\<rparr> \<in> set (dl_rules dl) \<and>
       \<not> safe_rule (IsNameConstant (list_all is_digit))
           (make_fact \<lparr>pred_name = ''says_canSay_foo'', pred_args = [[quote, CHR ''A'', quote], ''anyone''],
              pred_sign = kPositive\<rparr>)"
  by code_simp

section \<open>The declarations of the result\<close>

definition proper_type :: "argument_type \<Rightarrow> bool" where
  "proper_type t \<longleftrightarrow> (case argument_type_kind t of kNumber \<Rightarrow> t = MakeNumberType
     | kPrincipal \<Rightarrow> t = MakePrincipalType
     | kCustom \<Rightarrow> argument_type_name t \<notin> {''Number'', ''Principal''})"

definition declared_types :: "auth_program \<Rightarrow> argument_type list" where
  "declared_types prog = concat (map (\<lambda>d. map argument_type (relation_arguments d)) (relation_declarations prog))"

lemma universe_name_inj:
  "proper_type t \<Longrightarrow> proper_type u \<Longrightarrow> TypeToUniverseName t = TypeToUniverseName u \<Longrightarrow> t = u"
  by (cases t; cases u)
    (auto simp: TypeToUniverseName_def proper_type_def MakeNumberType_def MakePrincipalType_def split: argument_kind.splits)

lemma set_fold_merge: "set (fold (\<lambda>l r. hs_merge r (f l)) ls r) = set r \<union> (\<Union>l \<in> set ls. set (f l))"
  by (induction ls arbitrary: r) auto

lemma distinct_fold_merge: "distinct r \<Longrightarrow> (\<And>l. distinct (f l)) \<Longrightarrow> distinct (fold (\<lambda>l r. hs_merge r (f l)) ls r)"
  by (induction ls arbitrary: r) auto

lemma visit_declared_universes_eq:
  "visit_declared_universes d = fold hs_insert (map (\<lambda>a. TypeToUniverseDeclaration (argument_type a)) (relation_arguments d)) []"
  by (simp add: visit_declared_universes_def fold_map comp_def)

lemma DeclarationLeaf_in_program: "DeclarationLeaf d \<in> set (program_leaves prog) \<longleftrightarrow> d \<in> set (relation_declarations prog)"
  by (auto simp: program_leaves_def says_leaves_def query_leaves_def fact_leaves_def base_leaves_no_declaration
      assertion_leaves_no_declaration)

lemma universe_declarations:
  assumes "GetUniverseDeclarations prog = Inr us"
  shows "distinct us" and "set us = TypeToUniverseDeclaration ` ({MakeNumberType, MakePrincipalType} \<union> set (declared_types prog))"
proof -
  have us: "us = hs_merge (fold (\<lambda>l r. hs_merge r (universes_of_leaf l)) (program_leaves prog) [])
     [TypeToUniverseDeclaration MakeNumberType, TypeToUniverseDeclaration MakePrincipalType]"
    using assms by (simp add: GetUniverseDeclarations_eq)
  have leaf: "distinct (universes_of_leaf l)" for l
    by (cases l) (simp_all add: universes_of_leaf_def visit_declared_universes_eq)
  have "TypeToUniverseDeclaration MakeNumberType \<noteq> TypeToUniverseDeclaration MakePrincipalType"
    by (simp add: TypeToUniverseDeclaration_def MakeNumberType_def MakePrincipalType_def)
  then show "distinct us" by (simp add: us distinct_fold_merge leaf)
  have "(\<Union>l \<in> set (program_leaves prog). set (universes_of_leaf l)) =
      TypeToUniverseDeclaration ` set (declared_types prog)"
  proof -
    have "u \<in> set (universes_of_leaf l) \<longleftrightarrow> (\<exists>d. l = DeclarationLeaf d \<and>
        u \<in> TypeToUniverseDeclaration ` argument_type ` set (relation_arguments d))" for u l
      by (cases l) (auto simp: universes_of_leaf_def visit_declared_universes_eq)
    then have "(\<Union>l \<in> set (program_leaves prog). set (universes_of_leaf l)) =
        (\<Union>d \<in> {d. DeclarationLeaf d \<in> set (program_leaves prog)}. TypeToUniverseDeclaration ` argument_type ` set (relation_arguments d))"
      by (intro set_eqI) (simp only: UN_iff, blast)
    also have "\<dots> = TypeToUniverseDeclaration ` set (declared_types prog)"
      by (auto simp: declared_types_def DeclarationLeaf_in_program)
    finally show ?thesis .
  qed
  then show "set us = TypeToUniverseDeclaration ` ({MakeNumberType, MakePrincipalType} \<union> set (declared_types prog))"
    by (auto simp: us set_fold_merge)
qed

text \<open>C33: The universe pass keeps the declarations consistent. When no declared relation has a
  name of the form \<^verbatim>\<open>is...\<close> and no custom type is called Number or Principal, no name is declared
  twice in the result, and every universe of a declared type is declared with that type.\<close>

theorem universe_pass_declares_once:
  assumes "InsertUniverseRelations simple_atoi lit_order decl_order prog = Inr prog'" and "is_order decl_order"
    and "\<forall>d \<in> set (relation_declarations prog). take 2 (relation_name d) \<noteq> ''is''"
    and "\<forall>t \<in> set (declared_types prog). proper_type t"
  shows "distinct (map relation_name (relation_declarations prog')) \<and>
    (\<forall>t \<in> set (declared_types prog). TypeToUniverseDeclaration t \<in> set (relation_declarations prog'))"
proof -
  from assms(1) obtain env us where "DeclarationEnvironment prog = Inr env"
    and us: "GetUniverseDeclarations prog = Inr us"
    and prog': "relation_declarations prog' = relation_declarations prog @ decl_order us"
    by (auto simp: InsertUniverseRelations_def)
  then have dist: "distinct (map relation_name (relation_declarations prog))"
    using declarations.register_all_iff [of "relation_declarations prog" Map.empty] by (simp add: DeclarationEnvironment_eq)
  note us = universe_declarations [OF us]
  note ord = is_order_set [OF assms(2)] is_order_distinct [OF assms(2)]
  have proper: "proper_type t" if "t \<in> {MakeNumberType, MakePrincipalType} \<union> set (declared_types prog)" for t
    using that assms(4) by (auto simp: proper_type_def MakeNumberType_def MakePrincipalType_def)
  have name: "relation_name (TypeToUniverseDeclaration t) = TypeToUniverseName t" for t
    by (simp add: TypeToUniverseDeclaration_def)
  have "inj_on relation_name (set us)"
  proof (rule inj_onI)
    fix u v
    assume "u \<in> set us" "v \<in> set us" and same: "relation_name u = relation_name v"
    then obtain t t' where "u = TypeToUniverseDeclaration t" "v = TypeToUniverseDeclaration t'"
      and "proper_type t" "proper_type t'" using proper unfolding us(2) by blast
    with same universe_name_inj [of t t'] show "u = v" by (simp add: name)
  qed
  moreover have "take 2 (TypeToUniverseName t) = ''is''" for t
    by (simp add: TypeToUniverseName_def split: argument_kind.splits)
  then have "relation_name d \<noteq> relation_name u" if "d \<in> set (relation_declarations prog)" "u \<in> set us" for d u
    using that assms(3) unfolding us(2) by (metis (no_types, lifting) imageE name)
  ultimately have "distinct (map relation_name (relation_declarations prog'))"
    using dist us(1) by (auto simp: prog' distinct_map ord)
  moreover have "\<forall>t \<in> set (declared_types prog). TypeToUniverseDeclaration t \<in> set (relation_declarations prog')"
    using us(2) by (simp add: prog' ord)
  ultimately show ?thesis by simp
qed

theorem universe_pass_declares_once_witness:
  "\<exists>prog'. InsertUniverseRelations (list_all is_digit) id rev delegation_program = Inr prog' \<and>
     distinct (map relation_name (relation_declarations prog')) \<and>
     TypeToUniverseDeclaration (MakeCustomType ''T'') \<in> set (relation_declarations prog')"
proof -
  have "is_ok (InsertUniverseRelations (list_all is_digit) id rev delegation_program)" by code_simp
  then obtain prog' where prog': "InsertUniverseRelations (list_all is_digit) id rev delegation_program = Inr prog'"
    by (auto simp: is_ok_iff)
  have decls: "\<forall>d \<in> set (relation_declarations delegation_program). take 2 (relation_name d) \<noteq> ''is''"
    "\<forall>t \<in> set (declared_types delegation_program). proper_type t"
    "MakeCustomType ''T'' \<in> set (declared_types delegation_program)"
    by (simp_all add: delegation_program_def declared_types_def proper_type_def MakeCustomType_def)
  from universe_pass_declares_once [OF prog' _ decls(1,2)] decls(3) prog' show ?thesis by simp
qed

end
