(* ===== verification/Souffle_Emitter.thy ===== *)
theory Souffle_Emitter imports
  Datalog_Program
  "HOL-Library.List_Lexorder"
  "HOL-Library.Char_ord"
begin

text \<open>
  The text of a datalog program for Souffle, \<^verbatim>\<open>src/ir/auth_logic/souffle_emitter.h\<close>. The emitter
  collects the predicates it has written in a hash set, which its methods that emit rules thread
  through; \<^verbatim>\<open>std::sort\<close> of strings is \<open>sort\<close> for the lexicographic order of their bytes.
\<close>

section \<open>Rules\<close>

definition PredToDeclaration :: "dl_predicate \<Rightarrow> dl_predicate" where
  "PredToDeclaration p = \<lparr>pred_name = pred_name p,
     pred_args = map (\<lambda>i. ''x'' @ string_of_nat i) [0..<length (pred_args p)], pred_sign = kPositive\<rparr>"

definition comparison_operators :: "string list" where
  "comparison_operators = [''<'', ''>'', ''='', ''!='', ''<='', ''>='']"

definition EmitPredicate :: "dl_predicate \<Rightarrow> dl_predicate hash_set \<Rightarrow> (string \<times> dl_predicate hash_set) result" where
  "EmitPredicate p declarations =
     (if pred_name p \<in> set comparison_operators then
        rbind (check (length (pred_args p) = 2) ''predicate.args().size() == 2'') (\<lambda>_.
          Inr (hd (pred_args p) @ pred_name p @ last (pred_args p), declarations))
      else Inr ((if pred_sign p = kNegated then ''!'' else '''') @ pred_name p @ ''('' @
          str_join '', '' (pred_args p) @ '')'', hs_insert (PredToDeclaration p) declarations))"

definition EmitAssertion :: "rule \<Rightarrow> dl_predicate hash_set \<Rightarrow> (string \<times> dl_predicate hash_set) result" where
  "EmitAssertion cond_assertion declarations =
     rbind (map_state EmitPredicate (rule_rhs cond_assertion) declarations) (\<lambda>(rhs_translated, declarations).
     rbind (EmitPredicate (rule_lhs cond_assertion) declarations) (\<lambda>(lhs_translated, declarations).
     Inr (lhs_translated @ (if length rhs_translated = 0 then '''' else '' :- '' @ str_join '', '' rhs_translated) @ ''.'',
       declarations)))"

definition line_break :: string where
  "line_break = [CHR 0x0A]"

definition EmitProgramBody :: "datalog_program \<Rightarrow> dl_predicate hash_set \<Rightarrow> (string \<times> dl_predicate hash_set) result" where
  "EmitProgramBody prog declarations =
     rbind (map_state EmitAssertion (dl_rules prog) declarations) (\<lambda>(lines, declarations).
     Inr (str_join line_break lines, declarations))"

definition EmitOutputs :: "datalog_program \<Rightarrow> string" where
  "EmitOutputs prog = str_join line_break (map (\<lambda>prog_out. ''.output '' @ prog_out) (dl_outputs prog))"

section \<open>Declarations\<close>

definition EmitDeclaration :: "dl_predicate \<Rightarrow> string" where
  "EmitDeclaration p = ''.decl '' @ pred_name p @ ''('' @
     str_join '', '' (map (\<lambda>arg. arg @ '': symbol'') (pred_args p)) @ '')''"

definition GetRelationsToNotDeclare :: "string list" where
  "GetRelationsToNotDeclare = [''Principal'', ''Tag'', ''AccessPath'', ''Epsilon'', ''Delta'',
     ''says_isAccessPath'', ''says_isTag'', ''says_isPrincipal'', ''says_ownsTag'', ''says_ownsAccessPath'',
     ''says_hasTag'', ''says_removeTag'', ''says_may'', ''says_will'', ''says_isGlobalEpsilon'',
     ''says_isGlobalDelta'', ''isAccessPath'', ''isTag'', ''isPrincipal'', ''Operation'']"

definition EmitArguments :: "argument list \<Rightarrow> string" where
  "EmitArguments as = str_join '', '' (map (\<lambda>a. argument_name a @ '' : '' @ argument_type_name (argument_type a)) as)"

definition relation_line :: "relation_declaration \<Rightarrow> string" where
  "relation_line d = ''.decl '' @ relation_name d @ ''('' @ EmitArguments (relation_arguments d) @ '')''"

definition EmitRelationDeclarations :: "datalog_program \<Rightarrow> bool \<Rightarrow> string" where
  "EmitRelationDeclarations prog skip_declarations =
     (let declaration_strings = map relation_line (filter (\<lambda>d.
            \<not> (\<not> skip_declarations \<and> relation_name d \<in> set GetRelationsToNotDeclare)) (dl_declarations prog))
      in str_join line_break (sort declaration_strings))"

definition type_line :: "string \<Rightarrow> string" where
  "type_line name = ''.type '' @ name @ '' <: symbol''"

definition type_names_of :: "bool \<Rightarrow> relation_declaration list \<Rightarrow> string hash_set" where
  "type_names_of skip_declarations ds =
     fold (\<lambda>d. fold (\<lambda>a type_names. let t = argument_type a in
         if \<not> skip_declarations \<and> argument_type_kind t \<noteq> kCustom then type_names
         else if \<not> skip_declarations \<and> argument_type_name t \<in> set GetRelationsToNotDeclare then type_names
         else hs_insert (type_line (argument_type_name t)) type_names) (relation_arguments d)) ds []"

definition EmitTypeDeclarations :: "datalog_program \<Rightarrow> bool \<Rightarrow> string" where
  "EmitTypeDeclarations prog skip_declarations =
     (let type_names = hs_insert (type_line ''Number'') (type_names_of skip_declarations (dl_declarations prog))
      in str_join line_break (sort type_names))"

definition EmitProgram :: "datalog_program \<Rightarrow> bool \<Rightarrow> string result" where
  "EmitProgram prog skip_declarations =
     rbind (EmitProgramBody prog []) (\<lambda>(body, declarations).
     let outs = EmitOutputs prog;
         decls = EmitRelationDeclarations prog skip_declarations;
         type_declarations = EmitTypeDeclarations prog skip_declarations
     in Inr (type_declarations @ line_break @ decls @ line_break @ body @ line_break @ outs))"

section \<open>What is emitted\<close>

text \<open>The text of a predicate and of a rule.\<close>

definition predicate_text :: "dl_predicate \<Rightarrow> string" where
  "predicate_text p = (if IsNumericOperator p then hd (pred_args p) @ pred_name p @ last (pred_args p)
     else (if pred_sign p = kNegated then ''!'' else '''') @ pred_name p @ ''('' @ str_join '', '' (pred_args p) @ '')'')"

definition rule_text :: "rule \<Rightarrow> string" where
  "rule_text r = predicate_text (rule_lhs r) @
     (if rule_rhs r = [] then '''' else '' :- '' @ str_join '', '' (map predicate_text (rule_rhs r))) @ ''.''"

lemma operators_same: "pred_name p \<in> set comparison_operators \<longleftrightarrow> IsNumericOperator p"
  by (simp add: comparison_operators_def IsNumericOperator_def numeric_operators_def)

text \<open>Emitting does not read the set it fills.\<close>

lemma map_state_text:
  assumes "\<And>x s. x \<in> set xs \<Longrightarrow> if P x then \<exists>s'. f x s = Inr (g x, s') else f x s = Inl e"
  shows "if \<forall>x \<in> set xs. P x then \<exists>s'. map_state f xs s = Inr (map g xs, s') else map_state f xs s = Inl e"
  using assms
proof (induction xs arbitrary: s)
  case (Cons x xs)
  show ?case
  proof (cases "P x")
    case True
    with Cons.prems [of x s] obtain s' where x: "f x s = Inr (g x, s')" by auto
    have "if \<forall>x \<in> set xs. P x then \<exists>s''. map_state f xs s' = Inr (map g xs, s'') else map_state f xs s' = Inl e"
      by (rule Cons.IH) (simp add: Cons.prems)
    with True x show ?thesis by (auto split: if_splits)
  next
    case False
    with Cons.prems [of x s] show ?thesis by auto
  qed
qed simp

abbreviation operator_abort :: "error" where
  "operator_abort \<equiv> Check_failed ''predicate.args().size() == 2''"

lemma EmitPredicate_text:
  "if IsNumericOperator p \<longrightarrow> length (pred_args p) = 2 then \<exists>s'. EmitPredicate p s = Inr (predicate_text p, s')
   else EmitPredicate p s = Inl operator_abort"
  by (auto simp: EmitPredicate_def operators_same predicate_text_def)

definition rule_binary :: "rule \<Rightarrow> bool" where
  "rule_binary r \<longleftrightarrow> (\<forall>p \<in> set (rule_lhs r # rule_rhs r). IsNumericOperator p \<longrightarrow> length (pred_args p) = 2)"

lemma EmitAssertion_text:
  "if rule_binary r then \<exists>s'. EmitAssertion r s = Inr (rule_text r, s') else EmitAssertion r s = Inl operator_abort"
proof -
  have body: "if \<forall>p \<in> set (rule_rhs r). IsNumericOperator p \<longrightarrow> length (pred_args p) = 2
      then \<exists>s'. map_state EmitPredicate (rule_rhs r) s = Inr (map predicate_text (rule_rhs r), s')
      else map_state EmitPredicate (rule_rhs r) s = Inl operator_abort"
    by (rule map_state_text) (rule EmitPredicate_text)
  show ?thesis
  proof (cases "\<forall>p \<in> set (rule_rhs r). IsNumericOperator p \<longrightarrow> length (pred_args p) = 2")
    case True
    with body obtain s1 where "map_state EmitPredicate (rule_rhs r) s = Inr (map predicate_text (rule_rhs r), s1)"
      by auto
    with True EmitPredicate_text [of "rule_lhs r" s1] show ?thesis
      by (auto simp: EmitAssertion_def rule_binary_def rule_text_def)
  next
    case False
    with body show ?thesis by (auto simp: EmitAssertion_def rule_binary_def)
  qed
qed

text \<open>The emitter aborts exactly on a comparison that does not have two arguments; otherwise it
  writes the declared types, the declared relations, one line for every rule in the order of the
  program, with comparisons in infix notation, and the outputs.\<close>

theorem emitted_program_text:
  "EmitProgram prog skip =
     (if list_all rule_binary (dl_rules prog)
      then Inr (EmitTypeDeclarations prog skip @ line_break @ EmitRelationDeclarations prog skip @ line_break @
        str_join line_break (map rule_text (dl_rules prog)) @ line_break @ EmitOutputs prog)
      else Inl operator_abort)"
proof -
  have "if \<forall>r \<in> set (dl_rules prog). rule_binary r
      then \<exists>s'. map_state EmitAssertion (dl_rules prog) [] = Inr (map rule_text (dl_rules prog), s')
      else map_state EmitAssertion (dl_rules prog) [] = Inl operator_abort"
    by (rule map_state_text) (rule EmitAssertion_text)
  then show ?thesis
    by (auto simp: EmitProgram_def EmitProgramBody_def Let_def list_all_iff split: if_splits)
qed

section \<open>Declared types\<close>

definition type_written :: "bool \<Rightarrow> argument_type \<Rightarrow> bool" where
  "type_written skip t \<longleftrightarrow> skip \<or> argument_type_kind t = kCustom \<and> argument_type_name t \<notin> set GetRelationsToNotDeclare"

lemma set_type_names_of:
  "set (type_names_of skip ds) = (\<lambda>a. type_line (argument_type_name (argument_type a))) `
     {a. (\<exists>d \<in> set ds. a \<in> set (relation_arguments d)) \<and> type_written skip (argument_type a)}"
proof -
  let ?f = "\<lambda>a type_names. let t = argument_type a in
         if \<not> skip \<and> argument_type_kind t \<noteq> kCustom then type_names
         else if \<not> skip \<and> argument_type_name t \<in> set GetRelationsToNotDeclare then type_names
         else hs_insert (type_line (argument_type_name t)) type_names"
  let ?line = "\<lambda>a. type_line (argument_type_name (argument_type a))"
  have inner: "set (fold ?f as s) = set s \<union> ?line ` {a \<in> set as. type_written skip (argument_type a)}" for as s
  proof (induction as arbitrary: s)
    case (Cons a as)
    then show ?case by (simp only: fold_simps list.set comp_def Cons.IH)
        (auto simp: Let_def type_written_def)
  qed simp
  have "set (fold (\<lambda>d. fold ?f (relation_arguments d)) ds s) =
      set s \<union> ?line ` {a. (\<exists>d \<in> set ds. a \<in> set (relation_arguments d)) \<and> type_written skip (argument_type a)}" for s
  proof (induction ds arbitrary: s)
    case (Cons d ds)
    show ?case by (simp only: fold_simps Cons.IH inner) auto
  qed simp
  then show ?thesis by (simp add: type_names_of_def)
qed

text \<open>The types of the relations that are declared are declared: the lines of the text.\<close>

definition type_lines :: "datalog_program \<Rightarrow> bool \<Rightarrow> string list" where
  "type_lines prog skip = sort (hs_insert (type_line ''Number'') (type_names_of skip (dl_declarations prog)))"

text \<open>The type declarations are sorted, without duplicates, and declare Number and the types of
  the arguments of the program's relations: all of them when \<^verbatim>\<open>skip_declarations\<close> is set, and
  otherwise the custom types that are not among the relations not to declare.\<close>

theorem emitted_types:
  "EmitTypeDeclarations prog skip = str_join line_break (type_lines prog skip) \<and>
   sorted (type_lines prog skip) \<and> distinct (type_lines prog skip) \<and>
   set (type_lines prog skip) = insert (type_line ''Number'') {type_line (argument_type_name (argument_type a)) |a.
     (\<exists>d. d \<in> set (dl_declarations prog) \<and> a \<in> set (relation_arguments d)) \<and> type_written skip (argument_type a)}"
proof -
  have keep: "distinct (fold f xs s)" if "distinct s" and "\<And>x s. distinct s \<Longrightarrow> distinct (f x s)"
    for s :: "string list" and xs :: "'x list" and f
    using that by (induction xs arbitrary: s) auto
  have "distinct (type_names_of skip (dl_declarations prog))"
    unfolding type_names_of_def by (intro keep) (auto simp: Let_def intro!: keep)
  then show ?thesis
    by (auto simp: EmitTypeDeclarations_def type_lines_def Let_def set_type_names_of)
qed

section \<open>The text determines the rule\<close>

text \<open>For names without punctuation; a constant can be a string between quotes, which is free but for
  quotes and line ends. The arguments of a comparison are written around it, and its sign is not
  written.\<close>

abbreviation quote_char :: char where
  "quote_char \<equiv> CHR 0x22"

definition plain :: "char \<Rightarrow> bool" where
  "plain c \<longleftrightarrow> c \<notin> set '' (),.:!<>='' \<and> c \<noteq> quote_char \<and> c \<noteq> CHR 0x0A"

definition plain_name :: "string \<Rightarrow> bool" where
  "plain_name s \<longleftrightarrow> s \<noteq> [] \<and> list_all plain s"

definition quoted :: "string \<Rightarrow> bool" where
  "quoted s \<longleftrightarrow> 2 \<le> length s \<and> hd s = quote_char \<and> last s = quote_char \<and>
     list_all (\<lambda>c. c \<noteq> quote_char \<and> c \<noteq> CHR 0x0A) (butlast (tl s))"

definition plain_term :: "string \<Rightarrow> bool" where
  "plain_term s \<longleftrightarrow> plain_name s \<or> quoted s"

definition plain_predicate :: "dl_predicate \<Rightarrow> bool" where
  "plain_predicate p \<longleftrightarrow> list_all plain_term (pred_args p) \<and>
     (if IsNumericOperator p then length (pred_args p) = 2 \<and> pred_sign p = kPositive else plain_name (pred_name p))"

definition plain_rule :: "rule \<Rightarrow> bool" where
  "plain_rule r \<longleftrightarrow> list_all plain_predicate (rule_lhs r # rule_rhs r)"

definition stops :: "(char \<Rightarrow> bool) \<Rightarrow> string \<Rightarrow> bool" where
  "stops P s \<longleftrightarrow> s \<noteq> [] \<and> \<not> P (hd s)"

lemma stops_simps [simp]: "stops P (c # s) \<longleftrightarrow> \<not> P c" "\<not> stops P []"
  by (simp_all add: stops_def)

lemma span_unique:
  assumes "xs @ r = ys @ r'" and "list_all P xs" "list_all P ys" and "stops P r" "stops P r'"
  shows "xs = ys \<and> r = r'"
  using assms
proof (induction xs arbitrary: ys)
  case Nil
  then show ?case by (cases ys) (auto simp: stops_def)
next
  case (Cons x xs)
  then show ?case by (cases ys) (auto simp: stops_def)
qed

lemma plain_punctuation [simp]:
  "\<not> plain (CHR '' '')" "\<not> plain (CHR ''('')" "\<not> plain (CHR '')'')" "\<not> plain (CHR '','')" "\<not> plain (CHR ''.'')"
  "\<not> plain (CHR ''!'')" "\<not> plain (CHR ''<'')" "\<not> plain (CHR ''>'')" "\<not> plain (CHR ''='')" "\<not> plain (CHR '':'')"
  "\<not> plain quote_char" "\<not> plain (CHR 0x0A)"
  by (simp_all add: plain_def)

lemma name_unique:
  "s @ r = t @ r' \<Longrightarrow> plain_name s \<Longrightarrow> plain_name t \<Longrightarrow> stops plain r \<Longrightarrow> stops plain r' \<Longrightarrow> s = t \<and> r = r'"
  unfolding plain_name_def by (elim conjE) (rule span_unique)

lemma plain_name_first: "plain_name s \<Longrightarrow> s @ r = c # r' \<Longrightarrow> plain c"
  by (cases s) (auto simp: plain_name_def)

lemma quotedE:
  assumes "quoted s"
  obtains i where "s = quote_char # i @ [quote_char]" "list_all (\<lambda>c. c \<noteq> quote_char \<and> c \<noteq> CHR 0x0A) i"
proof -
  from assms obtain c i where s: "s = c # i" "i \<noteq> []"
    by (cases s) (auto simp: quoted_def Suc_le_length_iff numeral_2_eq_2)
  with assms show ?thesis using that [of "butlast i"] append_butlast_last_id [of i] by (simp add: quoted_def)
qed

lemma plain_term_first: "plain_term s \<Longrightarrow> s @ r = c # r' \<Longrightarrow> plain c \<or> c = quote_char"
  unfolding plain_term_def by (auto elim: quotedE dest: plain_name_first)

lemma term_unique:
  assumes eq: "s @ r = t @ r'" and "plain_term s" "plain_term t" and "stops plain r" "stops plain r'"
  shows "s = t \<and> r = r'"
proof -
  have mixed: False if "plain_name a" "quoted b" "a @ u = b @ v" for a b u v
  proof -
    from that(2) obtain i where "b = quote_char # i @ [quote_char]" by (rule quotedE)
    with plain_name_first [OF that(1), of u quote_char] that(3) show False by simp
  qed
  have quotes: ?thesis if "quoted s" "quoted t"
  proof -
    let ?P = "\<lambda>c. c \<noteq> quote_char \<and> c \<noteq> CHR 0x0A"
    from that obtain i j where s: "s = quote_char # i @ [quote_char]" "list_all ?P i"
      and t: "t = quote_char # j @ [quote_char]" "list_all ?P j" by (elim quotedE)
    from eq have "i @ quote_char # r = j @ quote_char # r'" by (simp add: s(1) t(1))
    from span_unique [OF this s(2) t(2)] show ?thesis by (simp add: s(1) t(1))
  qed
  show ?thesis
    using assms(2,3) name_unique [OF eq] mixed [OF _ _ eq] mixed [OF _ _ eq [symmetric]] quotes assms(4,5)
    unfolding plain_term_def by blast
qed

text \<open>A list of texts that are separated by commas and closed by a character that none begins with.\<close>

lemma str_join_Cons: "str_join sep (x # xs) = x @ (if xs = [] then [] else sep @ str_join sep xs)"
  by (cases xs) simp_all

lemma joined_unique:
  assumes eq: "str_join '', '' (map f xs) @ c # r = str_join '', '' (map f ys) @ c # r'"
    and "list_all P xs" "list_all P ys" and c: "c \<noteq> CHR '',''" "\<not> plain c"
    and starts: "\<And>x u v. P x \<Longrightarrow> f x @ u \<noteq> c # v"
    and unique: "\<And>x y u v. P x \<Longrightarrow> P y \<Longrightarrow> f x @ u = f y @ v \<Longrightarrow> stops plain u \<Longrightarrow> stops plain v \<Longrightarrow> x = y \<and> u = v"
  shows "xs = ys \<and> r = r'"
  using eq assms(2,3)
proof (induction xs arbitrary: ys)
  case Nil
  show ?case
  proof (cases ys)
    case (Cons y ys')
    with Nil.prems have "f y @ (if ys' = [] then [] else '', '' @ str_join '', '' (map f ys')) @ c # r' = c # r"
      by (simp add: str_join_Cons)
    moreover have "P y" using Nil.prems Cons by simp
    ultimately show ?thesis using starts [of y] by blast
  qed (use Nil in simp)
next
  case (Cons x xs)
  let ?tail = "\<lambda>zs u. (if zs = [] then [] else '', '' @ str_join '', '' (map f zs)) @ c # u"
  have x: "P x" "list_all P xs" using Cons.prems(2) by simp_all
  show ?case
  proof (cases ys)
    case Nil
    with Cons.prems have "f x @ ?tail xs r = c # r'" by (simp add: str_join_Cons)
    with starts [OF x(1)] show ?thesis by blast
  next
    case ys: (Cons y ys')
    from Cons.prems(1) have "f x @ ?tail xs r = f y @ ?tail ys' r'" by (simp add: ys str_join_Cons)
    moreover have "stops plain (?tail zs u)" for zs u using c(2) by simp
    moreover have y: "P y" "list_all P ys'" using Cons.prems(3) by (simp_all add: ys)
    ultimately have "x = y \<and> ?tail xs r = ?tail ys' r'" using unique [OF x(1) y(1)] by blast
    then have xy: "x = y" and tails: "?tail xs r = ?tail ys' r'" by (rule conjunct1, rule conjunct2)
    show ?thesis
    proof (cases "xs = []")
      case True
      with tails c(1) xy show ?thesis by (auto simp: ys split: if_splits)
    next
      case False
      with tails c(1) have "str_join '', '' (map f xs) @ c # r = str_join '', '' (map f ys') @ c # r'"
        by (auto split: if_splits)
      from Cons.IH [OF this x(2) y(2)] xy show ?thesis by (simp add: ys)
    qed
  qed
qed

lemma arguments_unique:
  assumes "str_join '', '' as @ '')'' @ r = str_join '', '' bs @ '')'' @ r'"
    and "list_all plain_term as" "list_all plain_term bs"
  shows "as = bs \<and> r = r'"
proof (rule joined_unique [where f = "\<lambda>a. a" and c = "CHR '')''" and P = plain_term])
  show "str_join '', '' (map (\<lambda>a. a) as) @ CHR '')'' # r = str_join '', '' (map (\<lambda>a. a) bs) @ CHR '')'' # r'"
    using assms(1) by simp
  show "a @ u \<noteq> CHR '')'' # v" if "plain_term a" for a u v
    using plain_term_first [OF that, of u "CHR '')''" v] by auto
  show "a = b \<and> u = v" if "plain_term a" "plain_term b" "a @ u = b @ v" "stops plain u" "stops plain v" for a b u v
    using term_unique [OF that(3,1,2,4,5)] .
qed (use assms(2,3) in simp_all)

lemma operator_punctuation:
  "IsNumericOperator p \<Longrightarrow> pred_name p \<noteq> [] \<and> list_all (\<lambda>c. c \<in> set ''<>=!'') (pred_name p)"
  by (auto simp: IsNumericOperator_def numeric_operators_def)

lemma operator_stops: "IsNumericOperator p \<Longrightarrow> stops plain (pred_name p @ s)"
  using operator_punctuation [of p] by (cases "pred_name p") auto

lemma plain_term_starts: "plain_term s \<Longrightarrow> stops (\<lambda>c. c \<in> set ''<>=!'') (s @ r)"
  using plain_term_first [of s r] by (cases "s @ r") (auto simp: plain_term_def plain_name_def quoted_def)

lemma predicate_unique:
  assumes eq: "predicate_text p @ r = predicate_text q @ r'" and "plain_predicate p" "plain_predicate q"
    and "stops plain r" "stops plain r'"
  shows "p = q \<and> r = r'"
proof -
  have op: ?thesis if ops: "IsNumericOperator p" "IsNumericOperator q"
  proof -
    from assms(2,3) ops obtain a b c d where p: "pred_args p = [a, b]" and q: "pred_args q = [c, d]"
      and names: "plain_term a" "plain_term b" "plain_term c" "plain_term d"
      and sign: "pred_sign p = kPositive" "pred_sign q = kPositive"
      by (auto simp: plain_predicate_def length_Suc_conv numeral_2_eq_2)
    from eq have "a @ pred_name p @ b @ r = c @ pred_name q @ d @ r'" by (simp add: predicate_text_def ops p q)
    from term_unique [OF this names(1,3) operator_stops [OF ops(1)] operator_stops [OF ops(2)]]
    have ac: "a = c" and "pred_name p @ b @ r = pred_name q @ d @ r'" by auto
    from span_unique [OF this(2) _ _ plain_term_starts [OF names(2)] plain_term_starts [OF names(4)]]
      operator_punctuation [OF ops(1)] operator_punctuation [OF ops(2)]
    have pn: "pred_name p = pred_name q" and "b @ r = d @ r'" by auto
    with term_unique [OF this(2) names(2,4)] assms(4,5) ac p q sign show ?thesis by simp
  qed
  have mixed: False
    if "predicate_text p @ r = predicate_text q @ r'" "plain_predicate p" "plain_predicate q"
      "IsNumericOperator p" "\<not> IsNumericOperator q" for p q r r'
  proof -
    from that(2,4) obtain a b where p: "pred_args p = [a, b]" and names: "plain_term a"
      by (auto simp: plain_predicate_def length_Suc_conv numeral_2_eq_2)
    have q: "plain_name (pred_name q)" using that(3,5) by (simp add: plain_predicate_def)
    have eq: "a @ pred_name p @ b @ r = (if pred_sign q = kNegated then ''!'' else '''') @ pred_name q @ ''('' @
        str_join '', '' (pred_args q) @ '')'' @ r'" using that(1) by (simp add: predicate_text_def that(4,5) p)
    show False
    proof (cases "pred_sign q = kNegated")
      case True
      with eq have "a @ pred_name p @ b @ r = CHR ''!'' # pred_name q @ ''('' @ str_join '', '' (pred_args q) @ '')'' @ r'"
        by simp
      from plain_term_first [OF names this] show ?thesis by simp
    next
      case False
      from operator_punctuation [OF that(4)] obtain c s where c: "pred_name p = c # s" "c \<in> set ''<>=!''"
        by (cases "pred_name p") auto
      from eq False have "a @ c # s @ b @ r = pred_name q @ ''('' @ str_join '', '' (pred_args q) @ '')'' @ r'"
        by (simp add: c)
      from term_unique [OF this names] q c(2) show ?thesis by (auto simp: plain_term_def)
    qed
  qed
  have plain: ?thesis if preds: "\<not> IsNumericOperator p" "\<not> IsNumericOperator q"
  proof -
    have names: "plain_name (pred_name p)" "plain_name (pred_name q)"
      and args: "list_all plain_term (pred_args p)" "list_all plain_term (pred_args q)"
      using assms(2,3) preds by (simp_all add: plain_predicate_def)
    let ?rest = "\<lambda>p r. ''('' @ str_join '', '' (pred_args p) @ '')'' @ r"
    from eq have eq: "(if pred_sign p = kNegated then ''!'' else '''') @ pred_name p @ ?rest p r =
        (if pred_sign q = kNegated then ''!'' else '''') @ pred_name q @ ?rest q r'"
      by (simp add: predicate_text_def preds)
    have sign: "pred_sign p = pred_sign q"
      using eq plain_name_first [OF names(1), of "?rest p r" "CHR ''!''"]
        plain_name_first [OF names(2), of "?rest q r'" "CHR ''!''"]
      by (cases "pred_sign p"; cases "pred_sign q") (auto dest: sym)
    with eq have "pred_name p @ ?rest p r = pred_name q @ ?rest q r'" by simp
    from name_unique [OF this names] have "pred_name p = pred_name q"
      and "str_join '', '' (pred_args p) @ '')'' @ r = str_join '', '' (pred_args q) @ '')'' @ r'" by auto
    with arguments_unique [OF this(2) args] sign show ?thesis by simp
  qed
  show ?thesis
    using op plain mixed [OF eq assms(2,3)] mixed [OF eq [symmetric] assms(3,2)] by blast
qed

lemma predicate_text_starts:
  assumes "plain_predicate p" shows "predicate_text p @ u \<noteq> CHR ''.'' # v"
proof
  assume eq: "predicate_text p @ u = CHR ''.'' # v"
  show False
  proof (cases "IsNumericOperator p")
    case True
    with assms obtain a b where p: "pred_args p = [a, b]" "plain_term a"
      by (auto simp: plain_predicate_def length_Suc_conv numeral_2_eq_2)
    from eq True have "a @ pred_name p @ b @ u = CHR ''.'' # v" by (simp add: predicate_text_def p(1))
    from plain_term_first [OF p(2) this] show False by simp
  next
    case False
    then have p: "plain_name (pred_name p)" using assms by (simp add: plain_predicate_def)
    have "pred_sign p \<noteq> kNegated" using eq False by (auto simp: predicate_text_def)
    with eq False have "pred_name p @ ''('' @ str_join '', '' (pred_args p) @ '')'' @ u = CHR ''.'' # v"
      by (simp add: predicate_text_def)
    from plain_name_first [OF p this] show False by simp
  qed
qed

lemma body_unique:
  assumes "str_join '', '' (map predicate_text ps) @ ''.'' = str_join '', '' (map predicate_text qs) @ ''.''"
    and "list_all plain_predicate ps" "list_all plain_predicate qs"
  shows "ps = qs"
proof -
  have "ps = qs \<and> ([] :: string) = []"
  proof (rule joined_unique [where f = predicate_text and c = "CHR ''.''" and P = plain_predicate])
    show "predicate_text p @ u \<noteq> CHR ''.'' # v" if "plain_predicate p" for p u v
      using that by (rule predicate_text_starts)
    show "p = q \<and> u = v" if "plain_predicate p" "plain_predicate q" "predicate_text p @ u = predicate_text q @ v"
      "stops plain u" "stops plain v" for p q u v
      using predicate_unique [OF that(3,1,2,4,5)] .
  qed (use assms in simp_all)
  then show ?thesis by simp
qed

lemma rule_text_unique:
  assumes "rule_text r = rule_text r'" and "plain_rule r" "plain_rule r'"
  shows "r = r'"
proof -
  let ?tail = "\<lambda>r. (if rule_rhs r = [] then [] else '' :- '' @ str_join '', '' (map predicate_text (rule_rhs r))) @ ''.''"
  from assms(1) have "predicate_text (rule_lhs r) @ ?tail r = predicate_text (rule_lhs r') @ ?tail r'"
    by (simp add: rule_text_def)
  moreover have "stops plain (?tail r)" for r by simp
  moreover have "plain_predicate (rule_lhs r)" "plain_predicate (rule_lhs r')"
    using assms(2,3) by (simp_all add: plain_rule_def)
  ultimately have "rule_lhs r = rule_lhs r' \<and> ?tail r = ?tail r'" by (intro predicate_unique)
  then have lhs: "rule_lhs r = rule_lhs r'" and tails: "?tail r = ?tail r'" by (rule conjunct1, rule conjunct2)
  have "rule_rhs r = rule_rhs r'"
  proof (cases "rule_rhs r = []")
    case False
    with tails have "str_join '', '' (map predicate_text (rule_rhs r)) @ ''.'' =
        str_join '', '' (map predicate_text (rule_rhs r')) @ ''.''"
      by (auto split: if_splits)
    from body_unique [OF this] assms(2,3) show ?thesis by (simp add: plain_rule_def)
  qed (use tails in \<open>auto split: if_splits\<close>)
  with lhs show ?thesis by simp
qed

text \<open>The line that the emitter writes for a rule determines the rule, when its names have no
  punctuation and its comparisons are positive: no two of them are written as the same line,
  whatever has been emitted before.\<close>

theorem emitted_rule_determines_rule:
  assumes "plain_rule r" and "plain_rule r'"
    and "EmitAssertion r declarations = Inr (line, s)" and "EmitAssertion r' declarations' = Inr (line, s')"
  shows "r = r'"
proof -
  from EmitAssertion_text [of r declarations] EmitAssertion_text [of r' declarations'] assms(3,4)
  have "rule_text r = rule_text r'" by (auto split: if_splits)
  then show ?thesis using assms(1,2) by (rule rule_text_unique)
qed

theorem emitted_rule_determines_rule_witness:
  "\<exists>line s. EmitAssertion \<lparr>rule_lhs = \<lparr>pred_name = ''says_foo'', pred_args = [''A'', ''y''], pred_sign = kPositive\<rparr>,
       rule_rhs = [\<lparr>pred_name = ''bar'', pred_args = [''y''], pred_sign = kNegated\<rparr>,
         \<lparr>pred_name = ''<='', pred_args = [''y'', ''3''], pred_sign = kPositive\<rparr>]\<rparr> [] = Inr (line, s) \<and>
     line = ''says_foo(A, y) :- !bar(y), y<=3.'' \<and>
     (\<forall>r s'. plain_rule r \<and> EmitAssertion r [] = Inr (line, s') \<longrightarrow> rule_rhs r \<noteq> [])"
proof -
  let ?r = "\<lparr>rule_lhs = \<lparr>pred_name = ''says_foo'', pred_args = [''A'', ''y''], pred_sign = kPositive\<rparr>,
       rule_rhs = [\<lparr>pred_name = ''bar'', pred_args = [''y''], pred_sign = kNegated\<rparr>,
         \<lparr>pred_name = ''<='', pred_args = [''y'', ''3''], pred_sign = kPositive\<rparr>]\<rparr>"
  have plain: "plain_rule ?r" by code_simp
  have "case EmitAssertion ?r [] of Inl _ \<Rightarrow> False | Inr (line, _) \<Rightarrow> line = ''says_foo(A, y) :- !bar(y), y<=3.''" by code_simp
  then obtain s where emit: "EmitAssertion ?r [] = Inr (''says_foo(A, y) :- !bar(y), y<=3.'', s)"
    by (auto split: sum.splits)
  have "rule_rhs r \<noteq> []" if "plain_rule r" "EmitAssertion r [] = Inr (''says_foo(A, y) :- !bar(y), y<=3.'', s')" for r s'
    using emitted_rule_determines_rule [OF that(1) plain that(2) emit] by simp
  with emit show ?thesis by blast
qed

section \<open>The text determines the program\<close>

text \<open>What of a program is to be written: the relations that are not provided elsewhere, with the names
  and the types of their arguments, and the types of \<open>type_written\<close> and Number.\<close>

definition declaration_shape :: "relation_declaration \<Rightarrow> string \<times> (string \<times> string) list" where
  "declaration_shape d =
     (relation_name d, map (\<lambda>a. (argument_name a, argument_type_name (argument_type a))) (relation_arguments d))"

definition written_declarations :: "bool \<Rightarrow> datalog_program \<Rightarrow> relation_declaration list" where
  "written_declarations skip prog = filter (\<lambda>d. skip \<or> relation_name d \<notin> set GetRelationsToNotDeclare) (dl_declarations prog)"

definition written_types :: "bool \<Rightarrow> datalog_program \<Rightarrow> string set" where
  "written_types skip prog = insert ''Number'' {argument_type_name (argument_type a) |a.
     (\<exists>d. d \<in> set (dl_declarations prog) \<and> a \<in> set (relation_arguments d)) \<and> type_written skip (argument_type a)}"

definition plain_declaration :: "relation_declaration \<Rightarrow> bool" where
  "plain_declaration d \<longleftrightarrow> plain_name (relation_name d) \<and>
     list_all (\<lambda>a. plain_name (argument_name a) \<and> plain_name (argument_type_name (argument_type a))) (relation_arguments d)"

definition plain_program :: "datalog_program \<Rightarrow> bool" where
  "plain_program prog \<longleftrightarrow> list_all plain_rule (dl_rules prog) \<and> list_all plain_declaration (dl_declarations prog) \<and>
     list_all (\<lambda>x. CHR 0x0A \<notin> set x) (dl_outputs prog)"

text \<open>The line of a relation determines its shape.\<close>

definition argument_text :: "string \<times> string \<Rightarrow> string" where
  "argument_text x = fst x @ '' : '' @ snd x"

definition shape_line :: "string \<times> (string \<times> string) list \<Rightarrow> string" where
  "shape_line x = ''.decl '' @ fst x @ ''('' @ str_join '', '' (map argument_text (snd x)) @ '')''"

lemma relation_line_shape: "relation_line d = shape_line (declaration_shape d)"
  by (simp add: relation_line_def shape_line_def declaration_shape_def EmitArguments_def argument_text_def comp_def)

lemma argument_text_unique:
  assumes "argument_text x @ u = argument_text y @ v" and "plain_name (fst x)" "plain_name (snd x)" "plain_name (fst y)" "plain_name (snd y)"
    and "stops plain u" "stops plain v"
  shows "x = y \<and> u = v"
proof -
  from assms(1) have "fst x @ '' : '' @ snd x @ u = fst y @ '' : '' @ snd y @ v" by (simp add: argument_text_def)
  from name_unique [OF this assms(2,4)] have "fst x = fst y" and "snd x @ u = snd y @ v" by auto
  with name_unique [OF this(2) assms(3,5,6,7)] show ?thesis by (simp add: prod_eq_iff)
qed

lemma shape_line_unique:
  assumes "shape_line x = shape_line y" and names: "plain_name (fst x)" "plain_name (fst y)"
    and args: "list_all (\<lambda>a. plain_name (fst a) \<and> plain_name (snd a)) (snd x)"
      "list_all (\<lambda>a. plain_name (fst a) \<and> plain_name (snd a)) (snd y)"
  shows "x = y"
proof -
  from assms(1) have "fst x @ ''('' @ str_join '', '' (map argument_text (snd x)) @ '')'' =
      fst y @ ''('' @ str_join '', '' (map argument_text (snd y)) @ '')''" by (simp add: shape_line_def)
  from name_unique [OF this names] have "fst x = fst y"
    and eq: "str_join '', '' (map argument_text (snd x)) @ '')'' = str_join '', '' (map argument_text (snd y)) @ '')''" by auto
  have "snd x = snd y \<and> ([] :: string) = []"
  proof (rule joined_unique [where f = argument_text and c = "CHR '')''" and P = "\<lambda>a. plain_name (fst a) \<and> plain_name (snd a)", OF eq args])
    show "argument_text a @ u \<noteq> CHR '')'' # v" if "plain_name (fst a) \<and> plain_name (snd a)" for a u v
      using that plain_name_first [of "fst a" _ "CHR '')''"] by (auto simp: argument_text_def)
    show "a = b \<and> u = v" if "plain_name (fst a) \<and> plain_name (snd a)" "plain_name (fst b) \<and> plain_name (snd b)"
      "argument_text a @ u = argument_text b @ v" "stops plain u" "stops plain v" for a b u v
      using argument_text_unique [OF that(3)] that by blast
  qed simp_all
  with \<open>fst x = fst y\<close> show ?thesis by (simp add: prod_eq_iff)
qed

lemma plain_shape:
  "plain_declaration d \<Longrightarrow> plain_name (fst (declaration_shape d)) \<and>
     list_all (\<lambda>a. plain_name (fst a) \<and> plain_name (snd a)) (snd (declaration_shape d))"
  by (simp add: plain_declaration_def declaration_shape_def list_all_iff)

lemma relation_lines_unique:
  assumes "list_all plain_declaration ds" "list_all plain_declaration ds'"
  shows "sort (map relation_line ds) = sort (map relation_line ds') \<longleftrightarrow>
    mset (map declaration_shape ds) = mset (map declaration_shape ds')"
proof -
  have shape: "relation_line = shape_line \<circ> declaration_shape"
    by (rule ext) (simp add: relation_line_shape)
  have lines: "mset (map relation_line xs) = image_mset shape_line (mset (map declaration_shape xs))" for xs
    by (simp only: mset_map shape multiset.map_comp)
  have "x = y" if "x \<in># mset (map declaration_shape ds)" "y \<in># mset (map declaration_shape ds')" "shape_line x = shape_line y" for x y
    using that assms plain_shape by (auto simp: list_all_iff intro!: shape_line_unique)
  then have "mset (map declaration_shape ds) = mset (map declaration_shape ds')"
    if "image_mset shape_line (mset (map declaration_shape ds)) = image_mset shape_line (mset (map declaration_shape ds'))"
    using that by (rule multiset.inj_map_strong)
  then have "image_mset shape_line (mset (map declaration_shape ds)) = image_mset shape_line (mset (map declaration_shape ds')) \<longleftrightarrow>
      mset (map declaration_shape ds) = mset (map declaration_shape ds')"
    by (rule iffI [OF _ arg_cong])
  moreover have "sort xs = sort ys \<longleftrightarrow> mset xs = mset ys" for xs ys :: "string list"
  proof
    assume "sort xs = sort ys"
    then have "mset (sort xs) = mset (sort ys)" by (rule arg_cong)
    then show "mset xs = mset ys" by simp
  next
    assume "mset xs = mset ys"
    then show "sort xs = sort ys" by (intro properties_for_sort) simp_all
  qed
  ultimately show ?thesis by (simp only: lines)
qed

text \<open>The lines of the text. A section without lines is an empty line.\<close>

definition section_lines :: "string list \<Rightarrow> string list" where
  "section_lines xs = (if xs = [] then [[]] else xs)"

definition program_lines :: "datalog_program \<Rightarrow> bool \<Rightarrow> string list" where
  "program_lines prog skip = type_lines prog skip @ section_lines (sort (map relation_line (written_declarations skip prog))) @
     section_lines (map rule_text (dl_rules prog)) @ section_lines (map (\<lambda>x. ''.output '' @ x) (dl_outputs prog))"

lemma join_append: "xs \<noteq> [] \<Longrightarrow> ys \<noteq> [] \<Longrightarrow> str_join sep (xs @ ys) = str_join sep xs @ sep @ str_join sep ys"
  by (induction xs) (auto simp: str_join_Cons)

lemma section_lines_simps [simp]: "section_lines xs \<noteq> []" "str_join sep (section_lines xs) = str_join sep xs"
  by (simp_all add: section_lines_def)

lemma type_lines_not_empty: "type_lines prog skip \<noteq> []"
  using emitted_types [of prog skip] by auto

lemma program_text_lines:
  assumes "list_all rule_binary (dl_rules prog)"
  shows "EmitProgram prog skip = Inr (str_join line_break (program_lines prog skip))"
proof -
  have decls: "EmitRelationDeclarations prog skip = str_join line_break (sort (map relation_line (written_declarations skip prog)))"
    by (simp add: EmitRelationDeclarations_def written_declarations_def)
  have types: "EmitTypeDeclarations prog skip = str_join line_break (type_lines prog skip)"
    by (simp add: EmitTypeDeclarations_def type_lines_def Let_def)
  show ?thesis
    using assms type_lines_not_empty
    by (simp add: emitted_program_text program_lines_def join_append decls types EmitOutputs_def)
qed

lemma lines_unique:
  assumes "str_join line_break xs = str_join line_break ys" and "xs \<noteq> []" "ys \<noteq> []"
    and "\<forall>x \<in> set xs \<union> set ys. CHR 0x0A \<notin> set x"
  shows "xs = ys"
  using assms
proof (induction xs arbitrary: ys)
  case (Cons x xs)
  then obtain y ys' where ys: "ys = y # ys'" by (cases ys) auto
  let ?rest = "\<lambda>zs. (if zs = [] then [] else line_break @ str_join line_break zs) @ [CHR 0x0A]"
  have "x @ ?rest xs = y @ ?rest ys'" using Cons.prems(1) by (simp add: ys str_join_Cons)
  moreover have "stops (\<lambda>c. c \<noteq> CHR 0x0A) (?rest zs)" for zs by (simp add: line_break_def)
  moreover have "list_all (\<lambda>c. c \<noteq> CHR 0x0A) x" "list_all (\<lambda>c. c \<noteq> CHR 0x0A) y"
    using Cons.prems(4) by (auto simp: ys list_all_iff)
  ultimately have "x = y \<and> ?rest xs = ?rest ys'" by (intro span_unique)
  then show ?case
    using Cons.IH [of ys'] Cons.prems(4) by (auto simp: ys line_break_def split: if_splits)
qed simp

lemma plain_name_line: "plain_name s \<Longrightarrow> CHR 0x0A \<notin> set s"
  by (auto simp: plain_name_def list_all_iff)

lemma plain_term_line: "plain_term s \<Longrightarrow> CHR 0x0A \<notin> set s"
  using plain_name_line [of s] quotedE [of s "CHR 0x0A \<notin> set s"] by (auto simp: plain_term_def list_all_iff)

lemma join_line: "\<forall>x \<in> set xs. c \<notin> set x \<Longrightarrow> c \<notin> set sep \<Longrightarrow> c \<notin> set (str_join sep xs)"
  by (induction xs) (auto simp: str_join_Cons)

lemma operator_line: "IsNumericOperator p \<Longrightarrow> CHR 0x0A \<notin> set (pred_name p)"
  by (auto simp: IsNumericOperator_def numeric_operators_def)

lemma predicate_line:
  assumes "plain_predicate p" shows "CHR 0x0A \<notin> set (predicate_text p)"
proof -
  have args: "\<forall>x \<in> set (pred_args p). CHR 0x0A \<notin> set x"
    using assms by (auto simp: plain_predicate_def list_all_iff dest: plain_term_line)
  show ?thesis
  proof (cases "IsNumericOperator p")
    case True
    then have "pred_args p \<noteq> []" using assms by (auto simp: plain_predicate_def)
    with args True show ?thesis by (simp add: predicate_text_def operator_line)
  next
    case False
    with assms have "plain_name (pred_name p)" by (simp add: plain_predicate_def)
    with args False show ?thesis by (simp add: predicate_text_def plain_name_line join_line)
  qed
qed

lemma rule_line: "plain_rule r \<Longrightarrow> CHR 0x0A \<notin> set (rule_text r) \<and> rule_text r \<noteq> [] \<and> hd (rule_text r) \<noteq> CHR ''.''"
proof
  assume r: "plain_rule r"
  then show "CHR 0x0A \<notin> set (rule_text r)"
    by (simp add: rule_text_def plain_rule_def list_all_iff predicate_line join_line)
  have "predicate_text (rule_lhs r) @ u \<noteq> CHR ''.'' # v" for u v
    using r by (simp add: plain_rule_def predicate_text_starts)
  then have "rule_text r \<noteq> CHR ''.'' # v" for v by (simp add: rule_text_def)
  moreover have "rule_text r \<noteq> []" by (simp add: rule_text_def)
  ultimately show "rule_text r \<noteq> [] \<and> hd (rule_text r) \<noteq> CHR ''.''" by (cases "rule_text r") auto
qed

lemma shape_line_line:
  "plain_declaration d \<Longrightarrow> CHR 0x0A \<notin> set (relation_line d) \<and> take 2 (relation_line d) = ''.d''"
proof -
  assume d: "plain_declaration d"
  then have "\<forall>x \<in> set (map (\<lambda>a. argument_name a @ '' : '' @ argument_type_name (argument_type a)) (relation_arguments d)). CHR 0x0A \<notin> set x"
    by (auto simp: plain_declaration_def list_all_iff plain_name_line)
  then have "CHR 0x0A \<notin> set (EmitArguments (relation_arguments d))"
    unfolding EmitArguments_def by (rule join_line) simp
  with d show ?thesis by (simp add: relation_line_def plain_declaration_def plain_name_line)
qed

lemma type_lines_line:
  assumes "list_all plain_declaration (dl_declarations prog)" and "l \<in> set (type_lines prog skip)"
  shows "CHR 0x0A \<notin> set l \<and> take 2 l = ''.t''"
proof -
  from emitted_types [of prog skip] assms(2) obtain t where l: "l = type_line t" and t: "t = ''Number'' \<or>
      (\<exists>d a. d \<in> set (dl_declarations prog) \<and> a \<in> set (relation_arguments d) \<and> t = argument_type_name (argument_type a))"
    by auto
  have "CHR 0x0A \<notin> set t" using t assms(1) by (auto simp: list_all_iff plain_declaration_def plain_name_line)
  then show ?thesis by (simp add: l type_line_def)
qed

lemma filter_section:
  "\<not> P [] \<Longrightarrow> \<forall>x \<in> set xs. P x \<Longrightarrow> filter P (section_lines xs) = xs"
  "\<not> P [] \<Longrightarrow> \<forall>x \<in> set xs. \<not> P x \<Longrightarrow> filter P (section_lines xs) = []"
  by (auto simp: section_lines_def filter_empty_conv)

lemma plain_program_lines:
  assumes "plain_program prog"
  shows "\<forall>l \<in> set (program_lines prog skip). CHR 0x0A \<notin> set l"
    and "filter (\<lambda>l. take 2 l = ''.t'') (program_lines prog skip) = type_lines prog skip"
    and "filter (\<lambda>l. take 2 l = ''.d'') (program_lines prog skip) = sort (map relation_line (written_declarations skip prog))"
    and "filter (\<lambda>l. take 2 l = ''.o'') (program_lines prog skip) = map (\<lambda>x. ''.output '' @ x) (dl_outputs prog)"
    and "filter (\<lambda>l. l \<noteq> [] \<and> hd l \<noteq> CHR ''.'') (program_lines prog skip) = map rule_text (dl_rules prog)"
proof -
  let ?decls = "sort (map relation_line (written_declarations skip prog))"
  let ?outs = "map (\<lambda>x. ''.output '' @ x) (dl_outputs prog)"
  have types: "\<forall>l \<in> set (type_lines prog skip). CHR 0x0A \<notin> set l \<and> take 2 l = ''.t'' \<and> l \<noteq> [] \<and> hd l = CHR ''.''"
  proof
    fix l assume "l \<in> set (type_lines prog skip)"
    with type_lines_line [of prog l skip] assms have "CHR 0x0A \<notin> set l \<and> take 2 l = ''.t''" by (simp add: plain_program_def)
    then show "CHR 0x0A \<notin> set l \<and> take 2 l = ''.t'' \<and> l \<noteq> [] \<and> hd l = CHR ''.''" by (cases l) auto
  qed
  have decls: "\<forall>l \<in> set ?decls. CHR 0x0A \<notin> set l \<and> take 2 l = ''.d'' \<and> l \<noteq> [] \<and> hd l = CHR ''.''"
  proof
    fix l assume "l \<in> set ?decls"
    then obtain d where "l = relation_line d" "d \<in> set (dl_declarations prog)" by (auto simp: written_declarations_def)
    with shape_line_line [of d] assms show "CHR 0x0A \<notin> set l \<and> take 2 l = ''.d'' \<and> l \<noteq> [] \<and> hd l = CHR ''.''"
      by (auto simp: plain_program_def list_all_iff relation_line_def)
  qed
  have outs: "\<forall>l \<in> set ?outs. CHR 0x0A \<notin> set l \<and> take 2 l = ''.o'' \<and> l \<noteq> [] \<and> hd l = CHR ''.''"
    using assms by (auto simp: plain_program_def list_all_iff)
  have rules: "\<forall>l \<in> set (map rule_text (dl_rules prog)). CHR 0x0A \<notin> set l \<and> l \<noteq> [] \<and> hd l \<noteq> CHR ''.''"
    using assms rule_line by (auto simp: plain_program_def list_all_iff)
  then have not: "\<forall>l \<in> set (map rule_text (dl_rules prog)). take 2 l \<noteq> CHR ''.'' # s" for s
    by (metis list.sel(1) take_eq_Nil hd_take zero_less_numeral)
  show "\<forall>l \<in> set (program_lines prog skip). CHR 0x0A \<notin> set l"
    using types decls outs rules by (auto simp: program_lines_def section_lines_def)
  show "filter (\<lambda>l. take 2 l = ''.t'') (program_lines prog skip) = type_lines prog skip"
    using types decls outs not by (simp add: program_lines_def filter_section)
  show "filter (\<lambda>l. take 2 l = ''.d'') (program_lines prog skip) = ?decls"
    using types decls outs not by (simp add: program_lines_def filter_section)
  show "filter (\<lambda>l. take 2 l = ''.o'') (program_lines prog skip) = ?outs"
    using types decls outs not by (simp add: program_lines_def filter_section)
  show "filter (\<lambda>l. l \<noteq> [] \<and> hd l \<noteq> CHR ''.'') (program_lines prog skip) = map rule_text (dl_rules prog)"
    using types decls outs rules by (simp add: program_lines_def filter_section)
qed

lemma plain_rule_binary: "plain_rule r \<Longrightarrow> rule_binary r"
  by (auto simp: plain_rule_def rule_binary_def plain_predicate_def list_all_iff)

lemma rule_texts_unique:
  assumes "list_all plain_rule rs" "list_all plain_rule rs'" and "map rule_text rs = map rule_text rs'"
  shows "rs = rs'"
proof -
  have "x = y" if "x \<in> set rs" "y \<in> set rs'" "rule_text x = rule_text y" for x y
    using that assms(1,2) by (auto simp: list_all_iff intro: rule_text_unique)
  then show ?thesis using assms(3) by (rule list.inj_map_strong)
qed

lemma type_lines_same: "type_lines prog skip = type_lines prog' skip \<longleftrightarrow> written_types skip prog = written_types skip prog'"
proof -
  have lines: "set (type_lines p skip) = type_line ` written_types skip p" for p
    using emitted_types [of p skip] by (auto simp: written_types_def)
  have "inj type_line" by (rule injI) (simp add: type_line_def)
  then have "written_types skip prog = written_types skip prog' \<longleftrightarrow> set (type_lines prog skip) = set (type_lines prog' skip)"
    by (simp add: lines inj_image_eq_iff)
  then show ?thesis using emitted_types [of prog skip] emitted_types [of prog' skip] sorted_distinct_set_unique by metis
qed

text \<open>C34: The emitter writes every plain program, and the text says neither more nor less than it
  should: two plain programs have the same text exactly when they have the same rules and the same outputs in
  the same order, the same relations to be written, up to their order, with the names and
  the types of their arguments, and the same declared types. A relation is to be written if it is
  not provided elsewhere or if \<^verbatim>\<open>skip_declarations\<close> is set. In a plain program names have no punctuation
  and no line end (constants may be quoted strings), and comparisons have two arguments and are positive.\<close>

theorem emitted_text_determines_program:
  assumes "plain_program prog" "plain_program prog'"
  shows "(\<exists>written. EmitProgram prog skip = Inr written) \<and>
    (EmitProgram prog skip = EmitProgram prog' skip \<longleftrightarrow>
      dl_rules prog = dl_rules prog' \<and> dl_outputs prog = dl_outputs prog' \<and>
      mset (map declaration_shape (written_declarations skip prog)) = mset (map declaration_shape (written_declarations skip prog')) \<and>
      written_types skip prog = written_types skip prog')" (is "?ok \<and> (_ \<longleftrightarrow> ?same)")
proof -
  have rules: "list_all plain_rule (dl_rules prog)" "list_all plain_rule (dl_rules prog')"
    and ds: "list_all plain_declaration (written_declarations skip prog)" "list_all plain_declaration (written_declarations skip prog')"
    using assms by (auto simp: plain_program_def written_declarations_def list_all_iff)
  then have binary: "list_all rule_binary (dl_rules prog)" "list_all rule_binary (dl_rules prog')"
    by (auto simp: list_all_iff plain_rule_binary)
  note emitted = program_text_lines [OF binary(1), of skip] program_text_lines [OF binary(2), of skip]
  have sections: "?same" if same: "program_lines prog skip = program_lines prog' skip"
  proof (intro conjI)
    note lines = plain_program_lines [OF assms(1), of skip, unfolded same] plain_program_lines [OF assms(2), of skip]
    show "dl_rules prog = dl_rules prog'" using rules by (rule rule_texts_unique) (metis lines(5,10))
    have "map (\<lambda>x. ''.output '' @ x) (dl_outputs prog) = map (\<lambda>x. ''.output '' @ x) (dl_outputs prog')"
      by (metis lines(4,9))
    then show "dl_outputs prog = dl_outputs prog'" by (auto simp: inj_on_def dest: map_injective)
    show "mset (map declaration_shape (written_declarations skip prog)) = mset (map declaration_shape (written_declarations skip prog'))"
      by (metis lines(3,8) relation_lines_unique [OF ds])
    show "written_types skip prog = written_types skip prog'"
      by (metis lines(2,7) type_lines_same)
  qed
  have "program_lines prog skip = program_lines prog' skip"
    if "str_join line_break (program_lines prog skip) = str_join line_break (program_lines prog' skip)"
    using that
  proof (rule lines_unique)
    show "\<forall>x \<in> set (program_lines prog skip) \<union> set (program_lines prog' skip). CHR 0x0A \<notin> set x"
      using plain_program_lines(1) [OF assms(1), of skip] plain_program_lines(1) [OF assms(2), of skip] by blast
  qed (simp_all add: program_lines_def type_lines_not_empty)
  moreover have "program_lines prog skip = program_lines prog' skip" if ?same
    using that relation_lines_unique [OF ds] type_lines_same [of prog skip prog'] by (simp add: program_lines_def)
  moreover have "EmitProgram prog skip = EmitProgram prog' skip \<longleftrightarrow>
      str_join line_break (program_lines prog skip) = str_join line_break (program_lines prog' skip)"
    by (simp add: emitted)
  ultimately have "EmitProgram prog skip = EmitProgram prog' skip \<longleftrightarrow> ?same" using sections by metis
  with emitted(1) show ?thesis by blast
qed

lemma written_types_list:
  "written_types skip prog = insert ''Number'' (set (map (\<lambda>a. argument_type_name (argument_type a))
     (filter (\<lambda>a. type_written skip (argument_type a)) (concat (map relation_arguments (dl_declarations prog))))))"
  by (auto simp: written_types_def)

definition emitter_example :: datalog_program where
  "emitter_example = \<lparr>dl_declarations =
       [\<lparr>relation_name = ''foo'', is_attribute = False, relation_arguments =
          [\<lparr>argument_name = ''x'', argument_type = MakeCustomType ''T''\<rparr>]\<rparr>,
        \<lparr>relation_name = ''isTag'', is_attribute = False, relation_arguments =
          [\<lparr>argument_name = ''x'', argument_type = MakeNumberType\<rparr>]\<rparr>,
        \<lparr>relation_name = ''bar'', is_attribute = True, relation_arguments = []\<rparr>],
     dl_rules = [\<lparr>rule_lhs = \<lparr>pred_name = ''foo'', pred_args = [quote_char # ''a.b'' @ [quote_char]], pred_sign = kPositive\<rparr>,
       rule_rhs = [\<lparr>pred_name = ''bar'', pred_args = [], pred_sign = kNegated\<rparr>,
         \<lparr>pred_name = ''<='', pred_args = [''y'', ''3''], pred_sign = kPositive\<rparr>]\<rparr>],
     dl_outputs = [''foo'']\<rparr>"

theorem emitted_text_determines_program_witness:
  "EmitProgram emitter_example False = EmitProgram (emitter_example\<lparr>dl_declarations := rev (dl_declarations emitter_example)\<rparr>) False \<and>
   EmitProgram emitter_example False = EmitProgram (emitter_example\<lparr>dl_declarations :=
     [dl_declarations emitter_example ! 2, dl_declarations emitter_example ! 0]\<rparr>) False \<and>
   EmitProgram emitter_example True \<noteq> EmitProgram (emitter_example\<lparr>dl_declarations :=
     [dl_declarations emitter_example ! 2, dl_declarations emitter_example ! 0]\<rparr>) True \<and>
   EmitProgram emitter_example False \<noteq> EmitProgram (emitter_example\<lparr>dl_outputs := []\<rparr>) False"
proof -
  let ?p = "emitter_example" and ?rev = "emitter_example\<lparr>dl_declarations := rev (dl_declarations emitter_example)\<rparr>"
    and ?two = "emitter_example\<lparr>dl_declarations := [dl_declarations emitter_example ! 2, dl_declarations emitter_example ! 0]\<rparr>"
    and ?none = "emitter_example\<lparr>dl_outputs := []\<rparr>"
  have plain: "plain_program ?p" "plain_program ?rev" "plain_program ?two" "plain_program ?none" by code_simp+
  have provided: "''isTag'' \<in> set GetRelationsToNotDeclare" "''foo'' \<notin> set GetRelationsToNotDeclare"
    "''bar'' \<notin> set GetRelationsToNotDeclare" by code_simp+
  show ?thesis
  proof (intro conjI)
    show "EmitProgram ?p False = EmitProgram ?rev False"
      using emitted_text_determines_program [OF plain(1,2), of False]
      by (simp add: written_declarations_def written_types_def rev_filter [symmetric] rev_map [symmetric])
    show "EmitProgram ?p False = EmitProgram ?two False"
      using emitted_text_determines_program [OF plain(1,3), of False] provided
      by (simp add: emitter_example_def written_declarations_def written_types_list type_written_def MakeNumberType_def)
    show "EmitProgram ?p True \<noteq> EmitProgram ?two True"
      using emitted_text_determines_program [OF plain(1,3), of True]
      by (simp add: emitter_example_def written_declarations_def declaration_shape_def)
    show "EmitProgram ?p False \<noteq> EmitProgram ?none False"
      using emitted_text_determines_program [OF plain(1,4), of False] by (simp add: emitter_example_def)
  qed
qed

end
