(* ===== verification/Command_Line.thy ===== *)
theory Command_Line imports
  Policy_Engine
  Ir_Parser_Roundtrip
  Auth_Printer
  Auth_Safety
  Souffle_Emitter
begin

text \<open>
  Two programs that join the components: \<^verbatim>\<open>src/parser/ir/ir_to_operation_facts.cc\<close> writes the facts of a
  text of the IR, and \<^verbatim>\<open>src/backends/policy_engine/souffle/raksha_policy_datalog_emitter.cc\<close> turns a policy in
  authorization logic into a Souffle program. The log is not modelled.
\<close>

section \<open>The programs\<close>

text \<open>A file is written when it can be opened.\<close>

definition write_file :: "(string \<Rightarrow> bool) \<Rightarrow> string \<Rightarrow> string \<Rightarrow> files \<Rightarrow> files option" where
  "write_file can_open path contents fs = (if can_open path then Some (fs(path \<mapsto> Some contents)) else None)"

definition ir_to_operation_facts_MainInner ::
  "readers \<Rightarrow> (double \<Rightarrow> string) \<Rightarrow> (string \<Rightarrow> bool) \<Rightarrow> string \<Rightarrow> string \<Rightarrow> files \<Rightarrow> (nat \<times> files) result" where
  "ir_to_operation_facts_MainInner R lg can_open ir_file out_file fs =
     (case ReadFileContents fs ir_file of
        Inl _ \<Rightarrow> Inr (1, fs)
      | Inr contents \<Rightarrow>
          rbind (ParseProgram (antlr_parser R) (temporary_order_of R) (simple_atod R) (module_address R) (first_address R) contents) (\<lambda>res.
          rbind (lower_module (module_storages (parse_module res)) (parse_names res) (module_address R, parse_module res)) (\<lambda>v.
          case write_file can_open out_file (facts_file_text lg (is_operation_facts (datalog_facts v)) @ [CHR 10]) fs of
            None \<Rightarrow> Inr (1, fs)
          | Some fs \<Rightarrow> Inr (0, fs))))"




section \<open>The facts of a text\<close>

text \<open>The fact of an operation as it is written in the text.\<close>

definition tree_fact :: "(string \<Rightarrow> double option) \<Rightarrow> operation_tree \<Rightarrow> input_relation_fact" where
  "tree_fact atod t = IsOperationFact (Record (Some [Symbol ''sql'', Symbol (tree_operator_name t),
     record_of (map Symbol (tree_result t)), record_of (map (\<lambda>v. Symbol (value_text v)) (tree_arguments t)),
     record_of (map (\<lambda>(n, a). datalog_attribute n (payload_value_of a)) (sort_key fst (parsed_attributes atod t)))]))"

lemma names_of_value_name:
  assumes "names_of s temps" and "ssa_le s t" and "(n, v) \<in> set temps"
  shows "value_name t v = n"
proof -
  from assms(1,3) have "map_of (item_ids (value_ids s)) v = Some n" by (simp add: names_of_def)
  moreover have "map_of (item_ids (value_ids s)) \<subseteq>\<^sub>m map_of (item_ids (value_ids t))" using assms(2) by (simp add: ssa_le_def)
  ultimately have "map_of (item_ids (value_ids t)) v = Some n" by (auto simp: map_le_def dom_def)
  then show ?thesis by (simp add: manager_name_def)
qed

lemma parsed_operation_fact:
  assumes names: "\<And>n v. (n, v) \<in> set (block_temporaries a ts) \<Longrightarrow> value_name s v = n"
    and ts: "operands_ok ts" "(j, u) \<in> set (enumerate (a + 1) ts)"
  shows "operation_fact heap s (parsed_operation atod a (block_temporaries a ts) (j, u)) = tree_fact atod u"
proof -
  let ?oper = "parsed_operation atod a (block_temporaries a ts) (j, u)"
  have temps: "(tree_result u ! i, OperationResult j i) \<in> set (block_temporaries a ts)" if "i < length (tree_result u)" for i
  proof -
    have "(i, tree_result u ! i) \<in> set (enumerate 0 (tree_result u))" using that by (simp add: in_set_enumerate_eq)
    then have "(tree_result u ! i, OperationResult j i) \<in> set (result_temporaries j u)"
      unfolding result_temporaries_def by (force simp: image_iff)
    with ts(2) show ?thesis unfolding block_temporaries_def by fastforce
  qed
  have results: "map (\<lambda>v. Symbol (value_name s v)) (result_values ?oper) = map Symbol (tree_result u)"
    using names [OF temps]
    by (intro nth_equalityI) (simp_all add: result_values_def NumberOfOutputs_def parsed_operation_def make_operation_def tree_op_def
        del: One_nat_def)
  have arg: "render_value heap s (operand (block_temporaries a ts) v) = value_text v" if "v \<in> set (tree_arguments u)" for v
  proof (cases v)
    case AnyToken
    then show ?thesis by (simp add: operand_def render_value_def)
  next
    case (NamedTempValue n)
    have "u \<in> set ts" using ts(2) by (rule enumerate_members)
    with parsed_operation_inputs [OF ts(1) this that, of a]
    have shape: "\<exists>k i. operand (block_temporaries a ts) v = OperationResult k i \<or> operand (block_temporaries a ts) v = Any" by blast
    from ts(1) \<open>u \<in> set ts\<close> that NamedTempValue have "n \<in> set (map fst (block_temporaries a ts))"
      by (auto simp: keys_block_temporaries operands_ok_def)
    then obtain w where w: "map_of (block_temporaries a ts) n = Some w" by (metis map_of_eq_None_iff list.set_map option.exhaust)
    then have "(n, w) \<in> set (block_temporaries a ts)" by (rule map_of_SomeD)
    moreover from this have "in_range a (a + 1 + length ts) w" using fresh_block_temporaries [of a ts] by (auto simp: fresh_values_def)
    ultimately show ?thesis using names [of n w] NamedTempValue w by (auto simp: operand_def in_range_def render_value_def)
  qed
  have inputs: "inputs (snd ?oper) = map (operand (block_temporaries a ts)) (tree_arguments u)"
    by (rule parsed_operation_operands)
  have "map (\<lambda>v. Symbol (render_value heap s v)) (inputs (snd ?oper)) = map (\<lambda>v. Symbol (value_text v)) (tree_arguments u)"
    unfolding inputs using arg by simp
  moreover have "op_of (snd ?oper) = tree_op u" "attributes (snd ?oper) = parsed_attributes atod u"
    by (simp_all add: parsed_operation_def make_operation_def)
  ultimately show ?thesis
    unfolding operation_fact_def tree_fact_def results by (simp add: tree_op_def)
qed

lemma at_addresses_snd: "map snd (at_addresses a bs) = bs"
  by (induction a bs rule: at_addresses.induct) simp_all

lemma parsed_module_facts:
  assumes ok: "module_tree_ok (simple_atod R) t"
    and names: "\<And>n v. (n, v) \<in> set (module_temporaries (first_address R) (tree_blocks t)) \<Longrightarrow> value_name s v = n"
  shows "map (operation_fact heap s) (module_operations (parsed_ir R t)) = map (tree_fact (simple_atod R)) (all_operations (tree_blocks t))"
proof -
  let ?ab = "at_addresses (first_address R) (tree_blocks t)"
  let ?opers = "\<lambda>(a, b). map (parsed_operation (simple_atod R) a (block_temporaries a (tree_operations b))) (enumerate (a + 1) (tree_operations b))"
  have ops: "module_operations (parsed_ir R t) = concat (map ?opers ?ab)"
    by (auto simp: module_operations_def parsed_ir_def parsed_blocks_def parsed_block_def comp_def split_def simp del: One_nat_def)
  have block: "map (operation_fact heap s) (?opers ab) = map (tree_fact (simple_atod R)) (tree_operations (snd ab))" if ab: "ab \<in> set ?ab" for ab
  proof -
    obtain a b where "ab = (a, b)" by (cases ab)
    with ab have b: "(a, b) \<in> set ?ab" by simp
    have "operands_ok (tree_operations b)" using at_addresses_blocks [OF b] ok by (auto simp: module_tree_ok_def block_tree_ok_def list_all_iff)
    moreover have "(n, v) \<in> set (block_temporaries a (tree_operations b)) \<Longrightarrow> value_name s v = n" for n v
      using b by (intro names) (auto simp: module_temporaries_def)
    ultimately have "map (operation_fact heap s) (?opers (a, b)) = map (\<lambda>ju. tree_fact (simple_atod R) (snd ju)) (enumerate (a + 1) (tree_operations b))"
      using parsed_operation_fact by (auto simp del: One_nat_def)
    also have "\<dots> = map (tree_fact (simple_atod R)) (map snd (enumerate (a + 1) (tree_operations b)))" by (simp only: map_map comp_def)
    finally show ?thesis by (simp only: map_snd_enumerate \<open>ab = (a, b)\<close> snd_conv)
  qed
  have "map (operation_fact heap s) (module_operations (parsed_ir R t)) = concat (map (\<lambda>ab. map (operation_fact heap s) (?opers ab)) ?ab)"
    unfolding ops map_concat map_map comp_def ..
  also have "\<dots> = concat (map (\<lambda>ab. map (tree_fact (simple_atod R)) (tree_operations (snd ab))) ?ab)"
    by (rule arg_cong [where f = concat], rule map_cong [OF refl]) (rule block)
  also have "\<dots> = map (tree_fact (simple_atod R)) (concat (map tree_operations (map snd ?ab)))"
    by (simp only: map_concat map_map comp_def)
  also have "map snd ?ab = tree_blocks t"
    by (rule at_addresses_snd)
  finally show ?thesis by (simp only: all_operations_def)
qed

section \<open>Properties\<close>

lemma facts_of_text:
  assumes ord: "is_order (temporary_order_of R)" and t: "antlr_parser R contents = Some t" "module_tree_ok (simple_atod R) t"
    and input_file: "fs ir_file = Some (Some contents)"
  shows "ir_to_operation_facts_MainInner R lg can_open ir_file out_file fs = Inr (if can_open out_file
    then (0, fs(out_file \<mapsto> Some (facts_file_text lg (map (tree_fact (simple_atod R)) (all_operations (tree_blocks t))) @ [CHR 10])))
    else (1, fs))"
proof -
  obtain st where st: "visitModule (temporary_order_of R) (simple_atod R) (module_address R) t (new_ir_visitor (first_address R)) = Inr st"
    "parse_module st = parsed_ir R t" "names_of (parse_names st) (module_temporaries (first_address R) (tree_blocks t))"
    using visitModule_eq [OF ord, where atod = "simple_atod R" and this = "module_address R" and t = t and a = "first_address R"] t(2)
    by (auto simp: visited_def parsed_ir_def blocks_ok_def module_tree_ok_def split: sum.splits)
  have "\<forall>oper \<in> set (module_operations (snd (module_address R, parsed_ir R t))). known_storages Map.empty (inputs (snd oper))"
    using parsed_ir_storages [OF t(2)] by simp
  from lowers_module [OF this, of "parse_names st"] obtain v where
    v: "lower_module Map.empty (parse_names st) (module_address R, parsed_ir R t) = Inr v"
      "lowers Map.empty (module_operations (parsed_ir R t)) (new_datalog_lowering_visitor (parse_names st)) v" by auto
  then have le: "ssa_le (parse_names st) (dl_ssa_names v)" by (simp add: lowers_def ssa_step_def new_datalog_lowering_visitor_def)
  have "is_operation_facts (datalog_facts v) = map (operation_fact Map.empty (dl_ssa_names v)) (module_operations (parsed_ir R t))"
    using v(2) by (simp add: lowers_def new_datalog_lowering_visitor_def)
  also have "\<dots> = map (tree_fact (simple_atod R)) (all_operations (tree_blocks t))"
    using parsed_module_facts [OF t(2)] names_of_value_name [OF st(3) le] by blast
  finally have facts: "is_operation_facts (datalog_facts v) = map (tree_fact (simple_atod R)) (all_operations (tree_blocks t))" .
  have "module_storages (parsed_ir R t) = Map.empty" by (simp add: module_storages_def parsed_ir_def)
  with st v(1) t(1) input_file facts show ?thesis
    by (simp add: ir_to_operation_facts_MainInner_def ReadFileContents_def ParseProgram_def visitIrProgram_def write_file_def)
qed

text \<open>C21: The program that writes the facts of a text writes one line for each operation of the text, in its order, with
  its operator, results, operands and attributes: the symbols are the temporaries of the
  text themselves, whatever the order of the hash map of temporaries is. As a temporary belongs to its block and the
  facts do not name the block, two blocks that use one temporary share its symbol.\<close>

theorem operation_facts_of_text:
  assumes "is_order (temporary_order_of R)" and "antlr_parser R contents = Some t" and "module_tree_ok (simple_atod R) t"
    and "fs ir_file = Some (Some contents)" and "can_open out_file"
  shows "ir_to_operation_facts_MainInner R lg can_open ir_file out_file fs = Inr (0, fs(out_file \<mapsto> Some (
    str_join [CHR 10] (map (\<lambda>u. ToDatalogFactsFileString lg (tree_fact (simple_atod R) u)) (all_operations (tree_blocks t))) @ [CHR 10])))"
  using facts_of_text [where fs = fs and ir_file = ir_file and contents = contents, OF assms(1-4)] assms(5) by (simp add: facts_file_text_def comp_def)

text \<open>Two blocks with a temporary of the same name.\<close>

definition two_blocks_tree :: module_tree where
  "two_blocks_tree = (let input = (\<lambda>op_text. \<lparr>tree_result = [''%0''], tree_operator_name = op_text, tree_attribute_list = None,
      tree_argument_list = None\<rparr>)
    in \<lparr>tree_module_id = ''m0'', tree_blocks = [\<lparr>tree_block_id = ''b0'', tree_operations = [input ''secret'']\<rparr>,
      \<lparr>tree_block_id = ''b1'', tree_operations = [input ''public'']\<rparr>]\<rparr>)"

theorem operation_facts_of_text_witness:
  "\<exists>fs. ir_to_operation_facts_MainInner (sample_readers\<lparr>antlr_parser := \<lambda>_. Some two_blocks_tree\<rparr>) (\<lambda>_. []) (\<lambda>_. True) ''a'' ''b''
      (\<lambda>_. Some (Some [])) = Inr (0, fs) \<and>
    fs ''b'' = Some (Some (''['' @ [quote] @ ''sql'' @ [quote] @ '', '' @ [quote] @ ''secret'' @ [quote] @ '', ['' @ [quote] @ ''%0'' @ [quote] @ '', nil], nil, nil]'' @
      [CHR 10] @ ''['' @ [quote] @ ''sql'' @ [quote] @ '', '' @ [quote] @ ''public'' @ [quote] @ '', ['' @ [quote] @ ''%0'' @ [quote] @ '', nil], nil, nil]'' @ [CHR 10]))"
proof -
  let ?R = "sample_readers\<lparr>antlr_parser := \<lambda>_. Some two_blocks_tree\<rparr>"
  have ok: "module_tree_ok (simple_atod ?R) two_blocks_tree"
    by (simp add: module_tree_ok_def two_blocks_tree_def block_tree_ok_def operation_tree_ok_def tree_attributes_def Let_def
        tree_temporaries_def operands_ok_def tree_arguments_def one_arity_def all_operations_def)
  have facts: "str_join [CHR 10] (map (\<lambda>u. ToDatalogFactsFileString (\<lambda>_. []) (tree_fact atod u)) (all_operations (tree_blocks two_blocks_tree))) =
      ''['' @ [quote] @ ''sql'' @ [quote] @ '', '' @ [quote] @ ''secret'' @ [quote] @ '', ['' @ [quote] @ ''%0'' @ [quote] @ '', nil], nil, nil]'' @
      [CHR 10] @ ''['' @ [quote] @ ''sql'' @ [quote] @ '', '' @ [quote] @ ''public'' @ [quote] @ '', ['' @ [quote] @ ''%0'' @ [quote] @ '', nil], nil, nil]''" for atod
    by (simp add: two_blocks_tree_def all_operations_def tree_fact_def ToDatalogFactsFileString_def IsOperationFact_def Let_def
        tree_arguments_def parsed_attributes_def tree_attributes_def quote_def)
  from operation_facts_of_text [where R = ?R and contents = "[]" and t = two_blocks_tree and fs = "\<lambda>_. Some (Some [])" and ir_file = "''a''"
      and out_file = "''b''" and can_open = "\<lambda>_. True" and lg = "\<lambda>_. []"] ok sample_platform_works(2)
  show ?thesis by (simp add: facts)
qed





end
