(* ===== verification/Worklist_Fixpoint.thy ===== *)
theory Worklist_Fixpoint imports
  Ifc_Tags
begin

text \<open>
  \<^verbatim>\<open>WorklistFixpointIterator::ComputeFixpoint\<close>, \<^verbatim>\<open>src/analysis/common/worklist_fixpoint_iterator.h\<close>: the
  iterator over any graph. The template's semantics and graph are the record \<open>graph_semantics\<close>; the
  locale \<open>worklist_semantics\<close> is what the iterator needs of them to end in a solution. The
  instance of \<^verbatim>\<open>worklist_fixpoint_iterator_test.cc\<close>, on any finite graph, is one of its models.
\<close>

section \<open>The iterator\<close>

record ('n, 'e, 'a) graph_semantics =
  GetOutEdges :: "'n \<Rightarrow> 'e list"
  GetEdgeTarget :: "'e \<Rightarrow> 'n"
  GetEntryNodes :: "'n list"
  GetInitialState :: "'n \<Rightarrow> 'a"
  ApplyNodeTransformer :: "'n \<Rightarrow> 'a \<Rightarrow> 'a"
  ApplyEdgeTransformer :: "'e \<Rightarrow> 'a \<Rightarrow> 'a"
  AreStatesEqual :: "'a \<Rightarrow> 'a \<Rightarrow> bool"
  CombineStates :: "'a \<Rightarrow> 'a \<Rightarrow> 'a"

record ('n, 'a) worklist_state =
  node_states :: "('n, 'a) hash_map"
  node_worklist :: "'n hash_set"

definition enter_node :: "('n, 'e, 'a) graph_semantics \<Rightarrow> 'n \<Rightarrow> ('n, 'a) worklist_state \<Rightarrow> ('n, 'a) worklist_state" where
  "enter_node sem entry st = \<lparr>node_states = hm_assign entry (GetInitialState sem entry) (node_states st),
     node_worklist = hs_insert entry (node_worklist st)\<rparr>"

definition propagate ::
  "('n, 'e, 'a) graph_semantics \<Rightarrow> 'a \<Rightarrow> 'e \<Rightarrow> ('n, 'a) worklist_state \<Rightarrow> ('n, 'a) worklist_state" where
  "propagate sem node_state_out edge st =
     (let edge_out = ApplyEdgeTransformer sem edge node_state_out;
          target = GetEdgeTarget sem edge;
          find_result = map_of (node_states st) target;
          first_visit = (find_result = None);
          target_old_state_in = (case find_result of None \<Rightarrow> GetInitialState sem target | Some x \<Rightarrow> x);
          target_new_state_in = CombineStates sem edge_out target_old_state_in
      in if first_visit \<or> \<not> AreStatesEqual sem target_new_state_in target_old_state_in
         then \<lparr>node_states = hm_assign target target_new_state_in (node_states st),
           node_worklist = hs_insert target (node_worklist st)\<rparr>
         else st)"

definition visit_node ::
  "('e list \<Rightarrow> 'e list) \<Rightarrow> ('n list \<Rightarrow> 'n list) \<Rightarrow> ('n, 'e, 'a) graph_semantics \<Rightarrow> ('n, 'a) worklist_state
     \<Rightarrow> ('n, 'a) worklist_state result" where
  "visit_node edge_order node_order sem st =
     (let node = hd (node_order (node_worklist st));
          st = st\<lparr>node_worklist := hs_erase node (node_worklist st)\<rparr>
      in rbind (check_some (map_of (node_states st) node) ''Node in worklist without a corresponding state.'') (\<lambda>node_state_in.
         Inr (fold (propagate sem (ApplyNodeTransformer sem node node_state_in)) (edge_order (GetOutEdges sem node)) st)))"

definition more_nodes :: "('n, 'a) worklist_state result \<Rightarrow> bool" where
  "more_nodes r = (case r of Inl _ \<Rightarrow> False | Inr st \<Rightarrow> node_worklist st \<noteq> [])"

definition Worklist_ComputeFixpoint ::
  "('e list \<Rightarrow> 'e list) \<Rightarrow> ('n list \<Rightarrow> 'n list) \<Rightarrow> ('n, 'e, 'a) graph_semantics \<Rightarrow> ('n, 'a) hash_map result option" where
  "Worklist_ComputeFixpoint edge_order node_order sem =
     map_option (\<lambda>r. rbind r (\<lambda>st. Inr (node_states st)))
       (while_option more_nodes (\<lambda>r. rbind r (visit_node edge_order node_order sem))
         (Inr (fold (enter_node sem) (node_order (GetEntryNodes sem)) \<lparr>node_states = [], node_worklist = []\<rparr>)))"

section \<open>Solutions\<close>

text \<open>States for some nodes that hold at the entries and that every edge carries on.\<close>

definition graph_solution :: "('n, 'e, 'a) graph_semantics \<Rightarrow> ('n \<Rightarrow> 'a option) \<Rightarrow> bool" where
  "graph_solution sem S \<longleftrightarrow>
     (\<forall>n \<in> set (GetEntryNodes sem). \<exists>x. S n = Some x \<and> below (CombineStates sem) (GetInitialState sem n) x) \<and>
     (\<forall>n x. S n = Some x \<longrightarrow> (\<forall>e \<in> set (GetOutEdges sem n). \<exists>y. S (GetEdgeTarget sem e) = Some y \<and>
        below (CombineStates sem) (GetInitialState sem (GetEdgeTarget sem e)) y \<and>
        below (CombineStates sem) (ApplyEdgeTransformer sem e (ApplyNodeTransformer sem n x)) y))"

locale worklist_semantics = abstract_join "CombineStates sem" "AreStatesEqual sem"
  for sem :: "('n, 'e, 'a) graph_semantics" +
  fixes nodes :: "'n set" and carrier :: "'a set" and rank :: "'a \<Rightarrow> nat" and height :: nat
  assumes finite_nodes: "finite nodes"
    and entries: "set (GetEntryNodes sem) \<subseteq> nodes"
    and targets: "n \<in> nodes \<Longrightarrow> e \<in> set (GetOutEdges sem n) \<Longrightarrow> GetEdgeTarget sem e \<in> nodes"
    and initial_carrier: "n \<in> nodes \<Longrightarrow> GetInitialState sem n \<in> carrier"
    and node_carrier: "n \<in> nodes \<Longrightarrow> x \<in> carrier \<Longrightarrow> ApplyNodeTransformer sem n x \<in> carrier"
    and edge_carrier: "n \<in> nodes \<Longrightarrow> e \<in> set (GetOutEdges sem n) \<Longrightarrow> x \<in> carrier \<Longrightarrow> ApplyEdgeTransformer sem e x \<in> carrier"
    and combine_carrier: "x \<in> carrier \<Longrightarrow> y \<in> carrier \<Longrightarrow> CombineStates sem x y \<in> carrier"
    and rank_less: "x \<in> carrier \<Longrightarrow> y \<in> carrier \<Longrightarrow> below (CombineStates sem) x y \<Longrightarrow> x \<noteq> y \<Longrightarrow> rank x < rank y"
    and rank_height: "x \<in> carrier \<Longrightarrow> rank x \<le> height"
    and node_mono: "below (CombineStates sem) x y \<Longrightarrow> below (CombineStates sem) (ApplyNodeTransformer sem n x) (ApplyNodeTransformer sem n y)"
    and edge_mono: "below (CombineStates sem) x y \<Longrightarrow> below (CombineStates sem) (ApplyEdgeTransformer sem e x) (ApplyEdgeTransformer sem e y)"
begin

abbreviation le :: "'a \<Rightarrow> 'a \<Rightarrow> bool" where
  "le \<equiv> below (CombineStates sem)"

abbreviation init :: "'n \<Rightarrow> 'a" where
  "init \<equiv> GetInitialState sem"

abbreviation out :: "'n \<Rightarrow> 'e \<Rightarrow> 'a \<Rightarrow> 'a" where
  "out n e x \<equiv> ApplyEdgeTransformer sem e (ApplyNodeTransformer sem n x)"

text \<open>The edge has been propagated: its target's state is above what it carries.\<close>

definition carried :: "('n \<Rightarrow> 'a option) \<Rightarrow> 'a \<Rightarrow> 'e \<Rightarrow> bool" where
  "carried S x e \<longleftrightarrow> (\<exists>y. S (GetEdgeTarget sem e) = Some y \<and> le (init (GetEdgeTarget sem e)) y \<and> le (ApplyEdgeTransformer sem e x) y)"

text \<open>States grow, and what is pending is a node of the graph with a state.\<close>

definition consistent :: "('n \<Rightarrow> 'a option) \<Rightarrow> 'n set \<Rightarrow> bool" where
  "consistent S wl \<longleftrightarrow> wl \<subseteq> dom S \<and> dom S \<subseteq> nodes \<and> ran S \<subseteq> carrier \<and>
     (\<forall>n x. S n = Some x \<longrightarrow> le (init n) x) \<and>
     (\<forall>T. graph_solution sem T \<longrightarrow> (\<forall>n x. S n = Some x \<longrightarrow> (\<exists>y. T n = Some y \<and> le x y)))"

definition grows :: "('n \<Rightarrow> 'a option) \<Rightarrow> 'n set \<Rightarrow> ('n \<Rightarrow> 'a option) \<Rightarrow> 'n set \<Rightarrow> bool" where
  "grows S wl S' wl' \<longleftrightarrow> wl \<subseteq> wl' \<and>
     (\<forall>n x. S n = Some x \<longrightarrow> (\<exists>y. S' n = Some y \<and> le x y)) \<and> (\<forall>n. S' n \<noteq> S n \<longrightarrow> n \<in> wl') \<and>
     (S' = S \<longrightarrow> wl' = wl)"

lemma consistent_above:
  "consistent S wl \<Longrightarrow> graph_solution sem T \<Longrightarrow> S n = Some x \<Longrightarrow> \<exists>y. T n = Some y \<and> le x y"
  by (simp add: consistent_def)

lemma grows_refl: "grows S wl S wl"
  by (auto simp: grows_def below_refl)

lemma grows_above: "grows S wl S' wl' \<Longrightarrow> S n = Some x \<Longrightarrow> \<exists>y. S' n = Some y \<and> le x y"
  by (simp add: grows_def)

lemma grows_trans:
  assumes "grows S wl S' wl'" and "grows S' wl' S'' wl''"
  shows "grows S wl S'' wl''"
proof -
  have "S' = S" if eq: "S'' = S"
  proof (rule ext)
    fix n
    show "S' n = S n"
    proof (cases "S' n")
      case None
      with grows_above [OF assms(1), of n] show ?thesis by (cases "S n") auto
    next
      case (Some y)
      with grows_above [OF assms(2)] eq obtain x where "S n = Some x" "le y x" by auto
      with grows_above [OF assms(1), of n x] Some show ?thesis by (auto dest: below_antisym)
    qed
  qed
  moreover have "\<exists>y. S'' n = Some y \<and> le x y" if "S n = Some x" for n x
    using grows_above [OF assms(1) that] grows_above [OF assms(2)] below_trans by blast
  ultimately show ?thesis using assms unfolding grows_def by (metis subset_trans in_mono)
qed

lemma carried_grows: "carried S x e \<Longrightarrow> grows S wl S' wl' \<Longrightarrow> carried S' x e"
  unfolding carried_def by (metis below_trans grows_above)

lemma propagate_ok:
  fixes st :: "('n, 'a) worklist_state"
  defines "S \<equiv> map_of (node_states st)" and "wl \<equiv> set (node_worklist st)"
  assumes cons: "consistent S wl" and n: "n \<in> nodes" "e \<in> set (GetOutEdges sem n)"
    and x: "x \<in> carrier" "\<forall>T. graph_solution sem T \<longrightarrow> (\<exists>y. T n = Some y \<and> le x y)"
    and st': "st' = propagate sem (ApplyNodeTransformer sem n x) e st"
  shows "consistent (map_of (node_states st')) (set (node_worklist st')) \<and>
    grows S wl (map_of (node_states st')) (set (node_worklist st')) \<and>
    carried (map_of (node_states st')) (ApplyNodeTransformer sem n x) e"
proof -
  let ?t = "GetEdgeTarget sem e" and ?o = "out n e x"
  define old where "old = (case S ?t of None \<Rightarrow> init ?t | Some z \<Rightarrow> z)"
  define new where "new = CombineStates sem ?o old"
  have t: "?t \<in> nodes" using targets n by blast
  have old: "old \<in> carrier" "le (init ?t) old"
    using cons t initial_carrier unfolding old_def consistent_def by (auto simp: ran_def below_refl split: option.splits)
  have o: "?o \<in> carrier" using x(1) n edge_carrier node_carrier by blast
  show ?thesis
  proof (cases "S ?t = None \<or> new \<noteq> old")
    case True
    then have upd: "map_of (node_states st') = S(?t \<mapsto> new)" "set (node_worklist st') = insert ?t wl"
      unfolding st' propagate_def Let_def old_def new_def S_def wl_def equivalent_iff by auto
    have init_new: "le (init ?t) new" using old(2) below_join2 below_trans unfolding new_def by blast
    have above: "\<exists>z. T ?t = Some z \<and> le new z" if T: "graph_solution sem T" for T
    proof -
      from x(2) T obtain y where y: "T n = Some y" "le x y" by blast
      with T n(2) obtain z where z: "T ?t = Some z" "le (init ?t) z" "le (out n e y) z"
        unfolding graph_solution_def by blast
      have "le ?o z" using y(2) z(3) node_mono edge_mono below_trans by blast
      moreover have "le old z"
        using z consistent_above [OF cons T, of ?t] by (cases "S ?t") (auto simp: old_def)
      ultimately show ?thesis using z(1) join_below unfolding new_def by blast
    qed
    have "consistent (S(?t \<mapsto> new)) (insert ?t wl)"
      unfolding consistent_def
    proof (intro conjI allI impI)
      show "insert ?t wl \<subseteq> dom (S(?t \<mapsto> new))" "dom (S(?t \<mapsto> new)) \<subseteq> nodes"
        using cons t by (auto simp: consistent_def)
      show "ran (S(?t \<mapsto> new)) \<subseteq> carrier"
        using cons combine_carrier [OF o old(1)] by (auto simp: consistent_def ran_def new_def)
      show "le (init m) y" if "(S(?t \<mapsto> new)) m = Some y" for m y
        using that cons init_new by (auto simp: consistent_def split: if_splits)
      show "\<exists>z. T m = Some z \<and> le y z" if "graph_solution sem T" "(S(?t \<mapsto> new)) m = Some y" for T m y
        using that cons above by (auto simp: consistent_def split: if_splits)
    qed
    moreover have "grows S wl (S(?t \<mapsto> new)) (insert ?t wl)"
      unfolding grows_def
    proof (intro conjI allI impI)
      show "\<exists>y. (S(?t \<mapsto> new)) m = Some y \<and> le z y" if "S m = Some z" for m z
        using that below_join2 below_refl by (auto simp: old_def new_def)
      show "insert ?t wl = wl" if "S(?t \<mapsto> new) = S"
        using fun_cong [OF that, of ?t] True by (auto simp: old_def split: option.splits)
    qed (auto split: if_splits)
    moreover have "carried (S(?t \<mapsto> new)) (ApplyNodeTransformer sem n x) e"
      using init_new below_join1 by (auto simp: carried_def new_def)
    ultimately show ?thesis by (simp add: upd)
  next
    case False
    then have "st' = st" "S ?t = Some old" "new = old"
      unfolding st' propagate_def Let_def old_def new_def S_def equivalent_iff by (auto split: option.splits)
    then show ?thesis using cons old(2) by (auto simp: S_def wl_def grows_refl carried_def below_def new_def)
  qed
qed

lemma fold_propagate_ok:
  assumes "consistent (map_of (node_states st)) (set (node_worklist st))" and "n \<in> nodes" and "set es \<subseteq> set (GetOutEdges sem n)"
    and "x \<in> carrier" "\<forall>T. graph_solution sem T \<longrightarrow> (\<exists>y. T n = Some y \<and> le x y)"
    and "st' = fold (propagate sem (ApplyNodeTransformer sem n x)) es st"
  shows "consistent (map_of (node_states st')) (set (node_worklist st')) \<and>
    grows (map_of (node_states st)) (set (node_worklist st)) (map_of (node_states st')) (set (node_worklist st')) \<and>
    (\<forall>e \<in> set es. carried (map_of (node_states st')) (ApplyNodeTransformer sem n x) e)"
  using assms(1,3,6)
proof (induction es arbitrary: st)
  case Nil
  then show ?case by (simp add: grows_refl)
next
  case (Cons e es)
  define st1 where "st1 = propagate sem (ApplyNodeTransformer sem n x) e st"
  have e: "e \<in> set (GetOutEdges sem n)" and es: "set es \<subseteq> set (GetOutEdges sem n)" using Cons.prems(2) by auto
  note first = propagate_ok [OF Cons.prems(1) assms(2) e assms(4,5) st1_def]
  have st': "st' = fold (propagate sem (ApplyNodeTransformer sem n x)) es st1" using Cons.prems(3) by (simp add: st1_def)
  note rest = Cons.IH [OF conjunct1 [OF first] es st']
  have "carried (map_of (node_states st')) (ApplyNodeTransformer sem n x) e" using first rest carried_grows by blast
  with first rest grows_trans show ?case by auto
qed

text \<open>Nodes that are not pending have carried their state over all their edges.\<close>

definition settled :: "('n \<Rightarrow> 'a option) \<Rightarrow> 'n set \<Rightarrow> bool" where
  "settled S wl \<longleftrightarrow> consistent S wl \<and> set (GetEntryNodes sem) \<subseteq> dom S \<and>
     (\<forall>n x. S n = Some x \<and> n \<notin> wl \<longrightarrow> (\<forall>e \<in> set (GetOutEdges sem n). carried S (ApplyNodeTransformer sem n x) e))"

definition node_grade :: "'a option \<Rightarrow> nat" where
  "node_grade x = (case x of None \<Rightarrow> 0 | Some y \<Rightarrow> Suc (rank y))"

definition node_deficit :: "('n \<Rightarrow> 'a option) \<Rightarrow> nat" where
  "node_deficit S = (\<Sum>n \<in> nodes. Suc height - node_grade (S n))"

definition work_left :: "('n \<Rightarrow> 'a option) \<Rightarrow> 'n set \<Rightarrow> nat" where
  "work_left S wl = node_deficit S * Suc (card nodes) + card wl"

lemma work_left_grows:
  assumes S: "consistent S wl" and S': "consistent S' wl'" and grows: "grows S wl S' wl'"
  shows "S' = S \<and> wl' = wl \<or> node_deficit S' < node_deficit S"
proof (cases "S' = S")
  case True
  with grows show ?thesis by (simp add: grows_def)
next
  case False
  have carrier: "x \<in> carrier" if "S m = Some x \<or> S' m = Some x" for m x
    using that S S' by (auto simp: consistent_def ran_def)
  have less: "node_grade (S m) < node_grade (S' m) \<and> node_grade (S' m) \<le> Suc height" if "S' m \<noteq> S m" for m
  proof (cases "S m")
    case None
    with that carrier [of m] rank_height show ?thesis by (cases "S' m") (auto simp: node_grade_def)
  next
    case (Some x)
    with grows_above [OF grows, of m x] obtain y where "S' m = Some y" "le x y" by blast
    with Some that carrier [of m] rank_less [of x y] rank_height [of y] show ?thesis by (auto simp: node_grade_def)
  qed
  have le: "node_grade (S m) \<le> node_grade (S' m)" for m
    using less [of m] by (cases "S' m = S m") auto
  obtain m where m: "S' m \<noteq> S m" using False by blast
  then have "m \<in> dom S \<or> m \<in> dom S'" by (cases "S m"; cases "S' m") auto
  then have "m \<in> nodes" using S S' by (auto simp: consistent_def)
  have "node_deficit S' < node_deficit S"
    unfolding node_deficit_def
  proof (rule sum_strict_mono_ex1 [OF finite_nodes])
    show "\<exists>a \<in> nodes. Suc height - node_grade (S' a) < Suc height - node_grade (S a)"
      using less [OF m] by (intro bexI [OF _ \<open>m \<in> nodes\<close>] diff_less_mono2) auto
  qed (use le in \<open>auto intro: diff_le_mono2\<close>)
  then show ?thesis ..
qed

lemma visit_node_ok:
  assumes orders: "is_order edge_order" "is_order node_order" and more: "node_worklist st \<noteq> []"
    and inv: "settled (map_of (node_states st)) (set (node_worklist st))"
  shows "\<exists>st'. visit_node edge_order node_order sem st = Inr st' \<and> settled (map_of (node_states st')) (set (node_worklist st')) \<and>
    work_left (map_of (node_states st')) (set (node_worklist st')) < work_left (map_of (node_states st)) (set (node_worklist st))"
proof -
  let ?S = "map_of (node_states st)" and ?wl = "set (node_worklist st)"
  define n where "n = hd (node_order (node_worklist st))"
  define st0 where "st0 = st\<lparr>node_worklist := hs_erase n (node_worklist st)\<rparr>"
  have "node_order (node_worklist st) \<noteq> []" using more is_order_length [OF orders(2), of "node_worklist st"] by auto
  then have n: "n \<in> ?wl" using is_order_set [OF orders(2), of "node_worklist st"] by (metis hd_in_set n_def)
  have cons: "consistent ?S ?wl" using inv by (simp add: settled_def)
  with n obtain x where x: "?S n = Some x" "n \<in> nodes" "x \<in> carrier" unfolding consistent_def
    by (metis domD in_mono ranI)
  have cons0: "consistent (map_of (node_states st0)) (set (node_worklist st0))"
    using cons unfolding consistent_def st0_def by auto
  define st' where "st' = fold (propagate sem (ApplyNodeTransformer sem n x)) (edge_order (GetOutEdges sem n)) st0"
  have run: "visit_node edge_order node_order sem st = Inr st'"
    by (simp add: visit_node_def Let_def st'_def x(1) flip: n_def st0_def)
  have edges: "set (edge_order (GetOutEdges sem n)) = set (GetOutEdges sem n)" by (rule is_order_set [OF orders(1)])
  have fold: "consistent (map_of (node_states st')) (set (node_worklist st')) \<and>
      grows ?S (?wl - {n}) (map_of (node_states st')) (set (node_worklist st')) \<and>
      (\<forall>e \<in> set (GetOutEdges sem n). carried (map_of (node_states st')) (ApplyNodeTransformer sem n x) e)"
    using fold_propagate_ok [OF cons0 x(2) _ x(3) _ st'_def] edges consistent_above [OF cons _ x(1)]
    by (simp add: st0_def)
  let ?S' = "map_of (node_states st')" and ?wl' = "set (node_worklist st')"
  have unchanged: "?S' m = ?S m" if "m \<notin> ?wl'" for m using fold that by (auto simp: grows_def)
  have "settled ?S' ?wl'"
    unfolding settled_def
  proof (intro conjI allI impI ballI)
    show "consistent ?S' ?wl'" using fold by simp
    show "set (GetEntryNodes sem) \<subseteq> dom ?S'"
      using inv fold unfolding settled_def grows_def by (metis (no_types, lifting) domD domI subset_iff)
    fix m y e
    assume m: "?S' m = Some y \<and> m \<notin> ?wl'" and e: "e \<in> set (GetOutEdges sem m)"
    then have Sm: "?S m = Some y" using unchanged [of m] by auto
    show "carried ?S' (ApplyNodeTransformer sem m y) e"
    proof (cases "m = n")
      case True
      with Sm x(1) e fold show ?thesis by simp
    next
      case False
      with m fold have "m \<notin> ?wl" by (auto simp: grows_def)
      with Sm e inv have "carried ?S (ApplyNodeTransformer sem m y) e" by (simp add: settled_def)
      with fold carried_grows show ?thesis by blast
    qed
  qed
  moreover have "work_left ?S' ?wl' < work_left ?S ?wl"
  proof -
    have "?wl' \<subseteq> nodes" using fold by (auto simp: consistent_def)
    then have "card ?wl' \<le> card nodes" by (rule card_mono [OF finite_nodes])
    moreover have "card (?wl - {n}) < card ?wl" using n by (intro card_Diff1_less) simp_all
    moreover have "consistent ?S (?wl - {n})" using cons0 by (simp add: st0_def)
    from work_left_grows [OF this _ conjunct1 [OF conjunct2 [OF fold]]] fold
    have "?S' = ?S \<and> ?wl' = ?wl - {n} \<or> node_deficit ?S' < node_deficit ?S" by blast
    ultimately show ?thesis
    proof (elim disjE)
      assume "node_deficit ?S' < node_deficit ?S" "card ?wl' \<le> card nodes"
      then have "Suc (node_deficit ?S') * Suc (card nodes) \<le> node_deficit ?S * Suc (card nodes)"
        by (intro mult_le_mono1) simp
      with \<open>card ?wl' \<le> card nodes\<close> show ?thesis by (simp add: work_left_def)
    qed (simp add: work_left_def)
  qed
  ultimately show ?thesis using run by blast
qed

definition entered :: "'n set \<Rightarrow> ('n, 'a) worklist_state \<Rightarrow> bool" where
  "entered D st \<longleftrightarrow> map_of (node_states st) = (\<lambda>n. if n \<in> D then Some (init n) else None) \<and> set (node_worklist st) = D"

lemma enter_nodes: "entered D st \<Longrightarrow> entered (D \<union> set es) (fold (enter_node sem) es st)"
proof (induction es arbitrary: st D)
  case (Cons e es)
  from Cons.prems have "entered (insert e D) (enter_node sem e st)" by (auto simp: entered_def enter_node_def fun_eq_iff)
  from Cons.IH [OF this] show ?case by simp
qed simp

lemma settled_start:
  "settled (\<lambda>n. if n \<in> set (GetEntryNodes sem) then Some (init n) else None) (set (GetEntryNodes sem))"
  using entries initial_carrier
  by (auto simp: settled_def consistent_def graph_solution_def ran_def below_refl split: if_splits)

text \<open>The iterator ends, with the least solution.\<close>

theorem worklist_least:
  assumes orders: "is_order edge_order" "is_order node_order"
  shows "\<exists>vs. Worklist_ComputeFixpoint edge_order node_order sem = Some (Inr vs) \<and> graph_solution sem (map_of vs) \<and>
    (\<forall>T. graph_solution sem T \<longrightarrow> (\<forall>n x. map_of vs n = Some x \<longrightarrow> (\<exists>y. T n = Some y \<and> le x y)))"
proof -
  let ?body = "\<lambda>r. rbind r (visit_node edge_order node_order sem)"
  let ?P = "\<lambda>r. \<exists>st. r = Inr st \<and> settled (map_of (node_states st)) (set (node_worklist st))"
  let ?f = "\<lambda>r. case r of Inl e \<Rightarrow> 0 | Inr st \<Rightarrow> work_left (map_of (node_states st)) (set (node_worklist st))"
  define st0 where "st0 = fold (enter_node sem) (node_order (GetEntryNodes sem)) \<lparr>node_states = [], node_worklist = []\<rparr>"
  have start: "?P (Inr st0)"
    using enter_nodes [of "{}" "\<lparr>node_states = [], node_worklist = []\<rparr>" "node_order (GetEntryNodes sem)"] settled_start
      is_order_set [OF orders(2), of "GetEntryNodes sem"] by (simp add: st0_def entered_def)
  have step: "?P (?body r) \<and> ?f (?body r) < ?f r" if "?P r" "more_nodes r" for r
    using that visit_node_ok [OF orders] by (fastforce simp: more_nodes_def)
  obtain r where r: "while_option more_nodes ?body (Inr st0) = Some r"
    using measure_while_option_Some [of ?P more_nodes ?body ?f, OF step start] by blast
  have "?P r" using while_option_rule [of ?P more_nodes ?body, OF _ r start] step by blast
  moreover have "\<not> more_nodes r" using while_option_stop [OF r] .
  ultimately obtain st where st: "r = Inr st" "settled (map_of (node_states st)) {}" by (auto simp: more_nodes_def)
  then have cons: "consistent (map_of (node_states st)) {}" by (simp add: settled_def)
  have "\<exists>x. map_of (node_states st) n = Some x \<and> le (init n) x" if n: "n \<in> set (GetEntryNodes sem)" for n
  proof -
    from st(2) n obtain x where "map_of (node_states st) n = Some x" by (auto simp: settled_def)
    with cons show ?thesis by (auto simp: consistent_def)
  qed
  then have "graph_solution sem (map_of (node_states st))"
    using st(2) unfolding graph_solution_def settled_def carried_def by blast
  moreover have "Worklist_ComputeFixpoint edge_order node_order sem = Some (Inr (node_states st))"
    using r st(1) by (simp add: Worklist_ComputeFixpoint_def st0_def)
  ultimately show ?thesis using consistent_above [OF cons] by blast
qed

end

section \<open>Reaching nodes and edges\<close>

text \<open>The semantics of the test: a state is the set of the nodes and edges on the paths to a node. An edge from
  \<open>m\<close> to \<open>n\<close> is the number \<open>1000 * m + n\<close>. The graph of the test checks that the node it is asked for is a key. Every
  target in the test's graph is one, as is the entry 1, so the check cannot fail there; here a node that is not a key has no edges.\<close>

definition GetOutEdges_of :: "(int \<times> int list) list \<Rightarrow> int \<Rightarrow> (int \<times> int) list" where
  "GetOutEdges_of g n = (case map_of g n of None \<Rightarrow> [] | Some targets \<Rightarrow> map (Pair n) targets)"

definition ReachingNodesAndEdgesSemantics :: "(int \<times> int list) list \<Rightarrow> (int, int \<times> int, int set) graph_semantics" where
  "ReachingNodesAndEdgesSemantics g = \<lparr>GetOutEdges = GetOutEdges_of g, GetEdgeTarget = snd, GetEntryNodes = [1],
     GetInitialState = (\<lambda>n. {n}), ApplyNodeTransformer = insert, ApplyEdgeTransformer = (\<lambda>e. insert (fst e * 1000 + snd e)),
     AreStatesEqual = (=), CombineStates = (\<union>)\<rparr>"

definition int_graph_nodes :: "(int \<times> int list) list \<Rightarrow> int set" where
  "int_graph_nodes g = insert 1 (fst ` set g \<union> (\<Union>x \<in> set g. set (snd x)))"

definition int_graph_elements :: "(int \<times> int list) list \<Rightarrow> int set" where
  "int_graph_elements g = int_graph_nodes g \<union> (\<Union>n \<in> int_graph_nodes g. (\<lambda>e. fst e * 1000 + snd e) ` set (GetOutEdges_of g n))"

lemma below_union [simp]: "below (\<union>) x y \<longleftrightarrow> x \<subseteq> y"
  by (auto simp: below_def)

lemma int_graph_closed:
  assumes "e \<in> set (GetOutEdges_of g n)"
  shows "snd e \<in> int_graph_nodes g"
proof -
  from assms obtain targets where "map_of g n = Some targets" "snd e \<in> set targets"
    by (cases "map_of g n") (auto simp: GetOutEdges_of_def)
  then have "(n, targets) \<in> set g" "snd e \<in> set targets" by (simp_all add: map_of_SomeD)
  then show ?thesis by (force simp: int_graph_nodes_def)
qed

lemma finite_int_graph: "finite (int_graph_nodes g)" "finite (int_graph_elements g)"
  by (simp_all add: int_graph_nodes_def int_graph_elements_def)

lemma int_graph_elementsI:
  "n \<in> int_graph_nodes g \<Longrightarrow> n \<in> int_graph_elements g"
  "n \<in> int_graph_nodes g \<Longrightarrow> e \<in> set (GetOutEdges_of g n) \<Longrightarrow> fst e * 1000 + snd e \<in> int_graph_elements g"
  by (auto simp: int_graph_elements_def)

lemma card_of_elements:
  "x \<subseteq> int_graph_elements g \<Longrightarrow> card x \<le> card (int_graph_elements g)"
  "y \<subseteq> int_graph_elements g \<Longrightarrow> x \<subset> y \<Longrightarrow> card x < card y"
  using finite_int_graph(2) [of g] by (auto intro: card_mono psubset_card_mono finite_subset)

interpretation reaching: worklist_semantics "ReachingNodesAndEdgesSemantics g" "int_graph_nodes g" "Pow (int_graph_elements g)" card
    "card (int_graph_elements g)"
  for g
proof
  show "set (GetEntryNodes (ReachingNodesAndEdgesSemantics g)) \<subseteq> int_graph_nodes g"
    by (simp add: ReachingNodesAndEdgesSemantics_def int_graph_nodes_def)
  show "card x < card y"
    if "x \<in> Pow (int_graph_elements g)" "y \<in> Pow (int_graph_elements g)" "x \<noteq> y"
      "below (CombineStates (ReachingNodesAndEdgesSemantics g)) x y" for x y
    using that card_of_elements(2) [of y g x] by (auto simp: ReachingNodesAndEdgesSemantics_def)
qed (auto simp: ReachingNodesAndEdgesSemantics_def card_of_elements(1) finite_int_graph int_graph_closed int_graph_elementsI
    dest: int_graph_elementsI(2))

section \<open>Properties\<close>

text \<open>C17: With states that can be joined, transformers that are monotone, a finite graph and no infinite rise of
  states, the iterator ends, without failing its check, in every order of its hash containers, and its result is the
  least assignment of states that holds at the entries and is carried over every edge: it is
  defined exactly for the nodes that every solution has to reach, and below every solution there.\<close>

theorem worklist_fixpoint_least:
  assumes "worklist_semantics sem nodes carrier rank height" and "is_order edge_order" and "is_order node_order"
  shows "\<exists>vs. Worklist_ComputeFixpoint edge_order node_order sem = Some (Inr vs) \<and> graph_solution sem (map_of vs) \<and>
    (\<forall>T. graph_solution sem T \<longrightarrow> (\<forall>n x. map_of vs n = Some x \<longrightarrow> (\<exists>y. T n = Some y \<and> below (CombineStates sem) x y)))"
  using worklist_semantics.worklist_least [OF assms] .

theorem worklist_fixpoint_least_witness:
  "\<exists>vs. Worklist_ComputeFixpoint rev rev (ReachingNodesAndEdgesSemantics [(1, [2]), (2, [1, 3]), (3, [])]) = Some (Inr vs) \<and>
     map_of vs 3 \<noteq> None"
proof -
  let ?sem = "ReachingNodesAndEdgesSemantics [(1, [2]), (2, [1, 3]), (3, [])]"
  from worklist_fixpoint_least [OF reaching.worklist_semantics_axioms is_order_id(3) is_order_id(3)]
  obtain vs where vs: "Worklist_ComputeFixpoint rev rev ?sem = Some (Inr vs)" "graph_solution ?sem (map_of vs)" by blast
  from vs(2) have step: "\<exists>y. map_of vs (snd e) = Some y" if "map_of vs n \<noteq> None" "e \<in> set (GetOutEdges ?sem n)" for n e
    using that vs(2) unfolding graph_solution_def ReachingNodesAndEdgesSemantics_def by fastforce
  have "map_of vs 1 \<noteq> None" using vs(2) by (auto simp: graph_solution_def ReachingNodesAndEdgesSemantics_def)
  from step [OF this, of "(1, 2)"] have "map_of vs 2 \<noteq> None" by (simp add: ReachingNodesAndEdgesSemantics_def GetOutEdges_of_def)
  from step [OF this, of "(2, 3)"] have "map_of vs 3 \<noteq> None" by (simp add: ReachingNodesAndEdgesSemantics_def GetOutEdges_of_def)
  with vs(1) show ?thesis by blast
qed

end
