(* ===== verification/Dot_Generator.thy ===== *)
theory Dot_Generator imports
  Ir_Printer
begin

text \<open>
  The drawing of a module as a graph: \<^verbatim>\<open>src/ir/dot/dot_generator.cc\<close> and
  \<^verbatim>\<open>dot_generator_config.h\<close>, a visitor of the traversal in \<open>Ir_Core\<close>.

  \<open>ops\<close> finds the operation behind the address in an operation result, \<open>heap\<close> the storage of a
  stored value. The order in which the three hash containers are iterated is the record
  \<open>dot_orders\<close>. Operations have fewer than \<open>2 ^ 31\<close> inputs, so that the counters of the code
  (\<^verbatim>\<open>int\<close>, \<^verbatim>\<open>unsigned\<close>, \<^verbatim>\<open>size_t\<close>) are numbers.
\<close>

section \<open>The state\<close>

type_synonym operation_heap = "op_id \<Rightarrow> operation option"

text \<open>A \<^verbatim>\<open>btree_set\<close> of strings is the sorted list of its members.\<close>

type_synonym string_btree_set = "string list"

record dot_generator_config =
  operation_labeler :: "op_id \<times> operation \<Rightarrow> string_btree_set \<Rightarrow> string"

definition GetDefault :: dot_generator_config where
  "GetDefault = \<lparr>operation_labeler = (\<lambda>op results. [])\<rparr>"

record dot_generator =
  dot_blocks :: "(string, block_id \<times> block) hash_map"
  dot_operations :: "(string, op_id \<times> operation) hash_map"
  operation_results :: "(string, string_btree_set) hash_map"
  edges :: "(string \<times> string) hash_set"
  dot_names :: ssa_names

definition new_dot_generator :: dot_generator where
  "new_dot_generator = \<lparr>dot_blocks = [], dot_operations = [], operation_results = [], edges = [],
     dot_names = new_ssa_names\<rparr>"

record dot_orders =
  ord_dot_blocks :: "(string, block_id \<times> block) hash_map \<Rightarrow> (string, block_id \<times> block) hash_map"
  ord_dot_operations :: "(string, op_id \<times> operation) hash_map \<Rightarrow> (string, op_id \<times> operation) hash_map"
  ord_dot_edges :: "(string \<times> string) hash_set \<Rightarrow> (string \<times> string) hash_set"

definition dot_orders_ok :: "dot_orders \<Rightarrow> bool" where
  "dot_orders_ok ords \<longleftrightarrow> is_order (ord_dot_blocks ords) \<and> is_order (ord_dot_operations ords) \<and>
     is_order (ord_dot_edges ords)"

section \<open>Names of nodes\<close>

definition in_quotes :: "string \<Rightarrow> string" where
  "in_quotes t = [CHR 34] @ t @ [CHR 34]"

definition GetNodeName_block :: "block_id \<Rightarrow> ssa_names \<Rightarrow> string \<times> ssa_names" where
  "GetNodeName_block b s = GetOrCreateID_block b s"

definition GetNodeName_operation :: "op_id \<times> operation \<Rightarrow> ssa_names \<Rightarrow> string \<times> ssa_names" where
  "GetNodeName_operation oper s =
     (let (i, s) = GetOrCreateID_value (MakeDefaultOperationResultValue (fst oper)) s;
          (b, s) = (case parent (snd oper) of None \<Rightarrow> (''g'', s) | Some b \<Rightarrow> GetNodeName_block b s)
      in (in_quotes (b @ ''_'' @ i), s))"

definition AddOperationNode ::
  "string \<Rightarrow> op_id \<times> operation \<Rightarrow> dot_generator \<Rightarrow> dot_generator result" where
  "AddOperationNode node_name oper g =
     (let (m, inserted) = hm_insert node_name oper (dot_operations g)
      in rbind (check inserted ''Adding a duplicate node for an op'') (\<lambda>_. Inr (g\<lparr>dot_operations := m\<rparr>)))"

definition AddBlockNode ::
  "string \<Rightarrow> block_id \<times> block \<Rightarrow> dot_generator \<Rightarrow> dot_generator result" where
  "AddBlockNode node_name b g =
     (let (m, inserted) = hm_insert node_name b (dot_blocks g)
      in rbind (check inserted ''Adding a duplicate node for a block'') (\<lambda>_. Inr (g\<lparr>dot_blocks := m\<rparr>)))"

definition AddResult :: "op_id \<times> operation \<Rightarrow> string \<Rightarrow> dot_generator \<Rightarrow> dot_generator" where
  "AddResult oper name g =
     (let (node_name, s) = GetNodeName_operation oper (dot_names g); g = g\<lparr>dot_names := s\<rparr>
      in case map_of (operation_results g) node_name of
           None \<Rightarrow> g\<lparr>operation_results := fst (hm_insert node_name [name] (operation_results g))\<rparr>
         | Some rs \<Rightarrow> g\<lparr>operation_results :=
             hm_assign node_name (insort_insert name rs) (operation_results g)\<rparr>)"

definition Generator_AddEdge :: "string \<Rightarrow> string \<Rightarrow> dot_generator \<Rightarrow> dot_generator" where
  "Generator_AddEdge src tgt g = g\<lparr>edges := hs_insert (src, tgt) (edges g)\<rparr>"

section \<open>The visitor\<close>

definition add_input ::
  "operation_heap \<Rightarrow> storage_heap \<Rightarrow> string \<Rightarrow> nat \<times> ir_value \<Rightarrow> dot_generator \<Rightarrow> dot_generator result" where
  "add_input ops heap node_name = (\<lambda>(input_index, v) g.
     let input_name = node_name @ '':I'' @ string_of_nat input_index
     in case v of
       BlockArgument b index \<Rightarrow>
         (let (block_node, s) = GetNodeName_block b (dot_names g)
          in Inr (Generator_AddEdge (block_node @ '':'' @ string_of_nat index) input_name (g\<lparr>dot_names := s\<rparr>)))
     | OperationResult oid index \<Rightarrow>
         rbind (deref (ops oid) ''op_result->operation()'') (\<lambda>other_op.
         let (op_node, s) = GetNodeName_operation (oid, other_op) (dot_names g)
         in Inr (AddResult (oid, other_op) (string_of_nat index)
              (Generator_AddEdge (op_node @ '':'' @ string_of_nat index) input_name (g\<lparr>dot_names := s\<rparr>))))
     | StoredValue sid \<Rightarrow>
         rbind (deref (heap sid) ''stored_value->storage()'') (\<lambda>st.
         Inr (Generator_AddEdge (storage_name st) input_name g))
     | Any \<Rightarrow> Inr g)"

definition dot_PreVisit_operation ::
  "operation_heap \<Rightarrow> storage_heap \<Rightarrow> op_id \<times> operation \<Rightarrow> dot_generator \<Rightarrow> (unit \<times> dot_generator) result" where
  "dot_PreVisit_operation ops heap oper g =
     (let (node_name, s) = GetNodeName_operation oper (dot_names g)
      in rbind (AddOperationNode node_name oper (g\<lparr>dot_names := s\<rparr>)) (\<lambda>g.
         rbind (fold_result (add_input ops heap node_name) (enumerate 0 (inputs (snd oper))) g) (\<lambda>g.
         Inr ((), g))))"

definition dot_PreVisit_block :: "block_id \<times> block \<Rightarrow> dot_generator \<Rightarrow> (unit \<times> dot_generator) result" where
  "dot_PreVisit_block b g =
     (let (block_node, s) = GetNodeName_block (fst b) (dot_names g)
      in rbind (AddBlockNode block_node b (g\<lparr>dot_names := s\<rparr>)) (\<lambda>g. Inr ((), g)))"

definition dot_visitor :: "operation_heap \<Rightarrow> storage_heap \<Rightarrow> (dot_generator, unit) visitor" where
  "dot_visitor ops heap = (default_visitor ())\<lparr>PreVisit_block := dot_PreVisit_block,
     PreVisit_operation := dot_PreVisit_operation ops heap\<rparr>"

section \<open>The text\<close>

definition td_start :: "nat \<Rightarrow> string" where
  "td_start colspan = ''<TD COLSPAN='' @ in_quotes (string_of_nat colspan)"

definition port_cell :: "nat \<Rightarrow> string \<Rightarrow> string" where
  "port_cell colspan name = td_start colspan @ '' PORT='' @ in_quotes name @ ''>'' @ name @ ''</TD>''"

text \<open>The text of a node with the given name and result ports.\<close>

definition node_text ::
  "(double \<Rightarrow> string) \<Rightarrow> dot_generator_config \<Rightarrow> string \<Rightarrow> string_btree_set \<Rightarrow> op_id \<times> operation \<Rightarrow> string result" where
  "node_text lg config node_name rs oper =
     (let input_cols = max 1 (length (inputs (snd oper)));
          output_cols = max 1 (length rs);
          total_colspan = lcm input_cols output_cols;
          input_colspan = total_colspan div input_cols;
          output_colspan = total_colspan div output_cols;
          input_ports = (if inputs (snd oper) = [] then td_start total_colspan @ ''>&nbsp;</TD>''
            else str_join [] (map (\<lambda>(node_num, v). port_cell input_colspan (''I'' @ string_of_nat node_num))
                   (enumerate 0 (inputs (snd oper)))));
          output_ports = (if rs = [] then port_cell total_colspan ''out''
            else str_join [] (map (port_cell output_colspan) rs));
          additional_label = operation_labeler config oper rs;
          additional_label_directive = (if additional_label = [] then []
            else ''<TR>'' @ td_start total_colspan @ ''>'' @ additional_label @ '' </TD></TR>'')
      in rbind (if attributes (snd oper) = [] then Inr []
                else rbind (PrintNamedMapInNameOrder (Attribute_ToString lg) (attributes (snd oper)))
                       (\<lambda>t. Inr ('' ['' @ t @ ''] ''))) (\<lambda>attribute_text.
         Inr (node_name @ '' [label=<<TABLE BORDER='' @ in_quotes ''0'' @ '' CELLBORDER='' @ in_quotes ''1'' @
              '' CELLSPACING='' @ in_quotes ''0'' @ ''><TR>'' @ input_ports @ ''</TR><TR>'' @
              td_start total_colspan @ ''>'' @ op_name (op_of (snd oper)) @ attribute_text @ ''</TD></TR>'' @
              additional_label_directive @ ''<TR>'' @ output_ports @ ''</TR></TABLE>>]'')))"

definition GetDotNode ::
  "(double \<Rightarrow> string) \<Rightarrow> dot_generator_config \<Rightarrow> op_id \<times> operation \<Rightarrow> dot_generator
     \<Rightarrow> (string \<times> dot_generator) result" where
  "GetDotNode lg config oper g =
     (let (node_name, s) = GetNodeName_operation oper (dot_names g);
          rs = (case map_of (operation_results g) node_name of None \<Rightarrow> [] | Some rs \<Rightarrow> rs)
      in rbind (node_text lg config node_name rs oper) (\<lambda>t. Inr (t, g\<lparr>dot_names := s\<rparr>)))"

definition kDigraphFormat :: "string \<Rightarrow> string \<Rightarrow> string \<Rightarrow> string" where
  "kDigraphFormat block_text operation_text edge_text =
     ''digraph G {'' @ newline @
     ''  node[shape=none];'' @ newline @
     ''  // Nodes:'' @ newline @
     ''  '' @ block_text @ newline @
     ''  '' @ operation_text @ newline @
     ''  // Edges:'' @ newline @
     ''  '' @ edge_text @ newline @
     ''  // End:'' @ newline @
     ''}'' @ newline"

definition dot_line :: string where
  "dot_line = newline @ ''  ''"

definition GetDotGraph ::
  "(double \<Rightarrow> string) \<Rightarrow> dot_generator_config \<Rightarrow> dot_orders \<Rightarrow> dot_generator \<Rightarrow> (string \<times> dot_generator) result" where
  "GetDotGraph lg config ords g =
     (let block_text = str_join dot_line
            (map (\<lambda>node_entry. fst node_entry @ '' [shape=Mrecord]'') (ord_dot_blocks ords (dot_blocks g)))
      in rbind (map_state (\<lambda>node_entry. GetDotNode lg config (snd node_entry))
             (ord_dot_operations ords (dot_operations g)) g) (\<lambda>(operation_lines, g).
         let operation_text = str_join dot_line operation_lines;
             edge_text = str_join dot_line
               (map (\<lambda>(src, tgt). src @ '' -> '' @ tgt) (ord_dot_edges ords (edges g)))
         in Inr (kDigraphFormat block_text operation_text edge_text, g)))"

definition ModuleAsDot ::
  "operation_heap \<Rightarrow> storage_heap \<Rightarrow> (double \<Rightarrow> string) \<Rightarrow> dot_orders \<Rightarrow> module_id \<times> ir_module
     \<Rightarrow> dot_generator_config \<Rightarrow> string result" where
  "ModuleAsDot ops heap lg ords m config =
     rbind (Visit_module (dot_visitor ops heap) m new_dot_generator) (\<lambda>(_, visitor).
     rbind (GetDotGraph lg config ords visitor) (\<lambda>(t, _). Inr t))"


section \<open>Names of nodes are unique\<close>

definition node_name_in :: "ssa_names \<Rightarrow> op_id \<times> operation \<Rightarrow> string" where
  "node_name_in t oper = in_quotes ((case parent (snd oper) of None \<Rightarrow> ''g'' | Some b \<Rightarrow> block_name t b) @ ''_'' @
     value_name t (MakeDefaultOperationResultValue (fst oper)))"

definition named_blocks :: "ssa_names \<Rightarrow> block_id set" where
  "named_blocks t = dom (map_of (item_ids (block_ids t)))"

lemma block_name_no_underscore:
  assumes "generated_names t"
  shows "CHR ''_'' \<notin> set (block_name t b)"
proof (cases "b \<in> named_blocks t")
  case True
  then obtain i where "block_name t b = ''b'' @ string_of_nat i"
    using generated_names_ok [OF assms] manager_name_text [of "block_ids t" b]
    by (auto simp: ssa_ok_def named_blocks_def)
  moreover have "\<not> is_digit (CHR ''_'')" by (simp add: is_digit_def)
  ultimately show ?thesis using string_of_nat_digits by auto
next
  case False
  then show ?thesis by (auto simp: named_blocks_def manager_name_def domIff)
qed

lemma split_at_first:
  assumes "c \<notin> set xs" "c \<notin> set xs'" "xs @ c # ys = xs' @ c # ys'"
  shows "ys = ys'"
  using assms
proof (induction xs arbitrary: xs')
  case Nil
  then show ?case by (cases xs') auto
next
  case (Cons x xs)
  then show ?case by (cases xs') auto
qed

lemma node_name_eq:
  assumes "generated_names t" "MakeDefaultOperationResultValue (fst x) \<in> named t"
    and "node_name_in t x = node_name_in t y"
  shows "fst x = fst y"
proof -
  let ?b = "\<lambda>x. case parent (snd x) of None \<Rightarrow> ''g'' | Some b \<Rightarrow> block_name t b"
  let ?v = "\<lambda>x :: op_id \<times> operation. value_name t (MakeDefaultOperationResultValue (fst x))"
  have "CHR ''_'' \<notin> set (?b x)" "CHR ''_'' \<notin> set (?b y)"
    using block_name_no_underscore [OF assms(1)] by (simp_all split: option.splits)
  moreover have "?b x @ CHR ''_'' # ?v x = ?b y @ CHR ''_'' # ?v y"
    using assms(3) by (simp add: node_name_in_def in_quotes_def)
  ultimately have "?v x = ?v y" by (rule split_at_first)
  from value_name_eq [OF assms(1,2) this] show ?thesis by (simp add: MakeDefaultOperationResultValue_def)
qed

lemma block_node_name_eq:
  assumes "generated_names t" "a \<in> named_blocks t" "b \<in> named_blocks t" "block_name t a = block_name t b"
  shows "a = b"
  using manager_name_inj [of "block_ids t"] generated_names_ok(1) [OF assms(1)] assms(2-)
  by (auto simp: ssa_ok_def named_blocks_def inj_on_def)

lemma ssa_le_named: "ssa_le s t \<Longrightarrow> named s \<subseteq> named t"
  by (auto simp: ssa_le_def named_def map_le_implies_dom_le)

lemma ssa_le_named_blocks: "ssa_le s t \<Longrightarrow> named_blocks s \<subseteq> named_blocks t"
  by (auto simp: ssa_le_def named_blocks_def map_le_implies_dom_le)

lemma GetNodeName_block_names:
  "\<exists>n s'. GetNodeName_block b s = (n, s') \<and> ssa_step s s' \<and> b \<in> named_blocks s' \<and>
    (\<forall>t. ssa_le s' t \<longrightarrow> block_name t b = n)"
proof -
  obtain n s' where n: "GetNodeName_block b s = (n, s')" by (cases "GetNodeName_block b s")
  then obtain m where m: "Manager_GetOrCreateID b (block_ids s) = (n, m)" "s' = s\<lparr>block_ids := m\<rparr>"
    by (auto simp: GetNodeName_block_def GetOrCreateID_block_def split: prod.splits)
  with Manager_GetOrCreateID_eq(3) [OF m(1)] n
    GetOrCreateID_block_step [OF n [unfolded GetNodeName_block_def]] show ?thesis
    by (auto simp: ssa_step_def named_blocks_def)
qed

lemma GetNodeName_operation_names:
  "\<exists>n s'. GetNodeName_operation oper s = (n, s') \<and> ssa_step s s' \<and>
    MakeDefaultOperationResultValue (fst oper) \<in> named s' \<and> (\<forall>t. ssa_le s' t \<longrightarrow> node_name_in t oper = n)"
proof -
  let ?v = "MakeDefaultOperationResultValue (fst oper)"
  obtain i s1 where i: "GetOrCreateID_value ?v s = (i, s1)" "ssa_step s s1" "?v \<in> named s1"
    "\<forall>t. ssa_le s1 t \<longrightarrow> value_name t ?v = i" using GetOrCreateID_value_names [of ?v s] by auto
  show ?thesis
  proof (cases "parent (snd oper)")
    case None
    with i show ?thesis by (simp add: GetNodeName_operation_def node_name_in_def)
  next
    case (Some b)
    obtain n s2 where n: "GetNodeName_block b s1 = (n, s2)" "ssa_step s1 s2" "\<forall>t. ssa_le s2 t \<longrightarrow> block_name t b = n"
      using GetNodeName_block_names [of b s1] by auto
    have "?v \<in> named s2" using i(3) ssa_step_named [OF n(2)] by blast
    with Some i n ssa_step_trans [OF i(2) n(2)] ssa_step_le [OF n(2)] show ?thesis
      by (simp add: GetNodeName_operation_def node_name_in_def)
  qed
qed


section \<open>The graph of a module\<close>

text \<open>A use is an operand: the operation, the index of the input and the value. Its edge goes
  from the port of the value to the port of the input.\<close>

type_synonym dot_use = "(op_id \<times> operation) \<times> nat \<times> ir_value"

definition operation_uses :: "op_id \<times> operation \<Rightarrow> dot_use set" where
  "operation_uses oper = (\<lambda>(i, v). (oper, i, v)) ` set (enumerate 0 (inputs (snd oper)))"

definition source_port :: "operation_heap \<Rightarrow> storage_heap \<Rightarrow> ssa_names \<Rightarrow> ir_value \<Rightarrow> string option" where
  "source_port ops heap t v = (case v of
     BlockArgument b i \<Rightarrow> Some (block_name t b @ '':'' @ string_of_nat i)
   | OperationResult oid i \<Rightarrow> Some (node_name_in t (oid, the (ops oid)) @ '':'' @ string_of_nat i)
   | StoredValue sid \<Rightarrow> Some (storage_name (the (heap sid)))
   | Any \<Rightarrow> None)"

definition input_port :: "ssa_names \<Rightarrow> op_id \<times> operation \<Rightarrow> nat \<Rightarrow> string" where
  "input_port t oper i = node_name_in t oper @ '':I'' @ string_of_nat i"

definition use_edges :: "operation_heap \<Rightarrow> storage_heap \<Rightarrow> ssa_names \<Rightarrow> dot_use set \<Rightarrow> (string \<times> string) set" where
  "use_edges ops heap t U = (\<Union>(oper, i, v) \<in> U. case source_port ops heap t v of
     None \<Rightarrow> {} | Some src \<Rightarrow> {(src, input_port t oper i)})"

definition used_results :: "dot_use set \<Rightarrow> op_id \<Rightarrow> string set" where
  "used_results U oid = {string_of_nat i |i. \<exists>u \<in> U. snd (snd u) = OperationResult oid i}"

definition known_value :: "operation_heap \<Rightarrow> storage_heap \<Rightarrow> ir_value \<Rightarrow> bool" where
  "known_value ops heap v \<longleftrightarrow> (case v of OperationResult oid i \<Rightarrow> ops oid \<noteq> None
     | StoredValue sid \<Rightarrow> heap sid \<noteq> None | _ \<Rightarrow> True)"

text \<open>What the state says of the blocks \<open>B\<close> and operations \<open>D\<close> visited and of the uses \<open>U\<close> with
  an edge and \<open>R\<close> with a result port, under the names of any later state.\<close>

definition ports_of :: "dot_use set \<Rightarrow> op_id \<Rightarrow> string list option" where
  "ports_of R oid = (if used_results R oid = {} then None else Some (sorted_list_of_set (used_results R oid)))"

definition later_names :: "dot_generator \<Rightarrow> ssa_names \<Rightarrow> bool" where
  "later_names g t \<longleftrightarrow> generated_names t \<and> ssa_le (dot_names g) t"

definition dot_state :: "operation_heap \<Rightarrow> storage_heap \<Rightarrow> (block_id \<times> block) list \<Rightarrow>
    (op_id \<times> operation) list \<Rightarrow> dot_use set \<Rightarrow> dot_use set \<Rightarrow> dot_generator \<Rightarrow> bool" where
  "dot_state ops heap B D U R g \<longleftrightarrow> generated_names (dot_names g) \<and> distinct (edges g) \<and>
     (\<forall>b \<in> set B. fst b \<in> named_blocks (dot_names g)) \<and>
     (\<forall>oper \<in> set D. MakeDefaultOperationResultValue (fst oper) \<in> named (dot_names g)) \<and>
     (\<forall>oid. finite (used_results R oid)) \<and>
     (\<forall>t. later_names g t \<longrightarrow>
        dot_blocks g = map (\<lambda>b. (block_name t (fst b), b)) B \<and>
        dot_operations g = map (\<lambda>oper. (node_name_in t oper, oper)) D \<and>
        set (edges g) = use_edges ops heap t U \<and>
        (\<forall>oid oper. ops oid = Some oper \<longrightarrow>
           map_of (operation_results g) (node_name_in t (oid, oper)) = ports_of R oid))"

lemma dot_state_named:
  assumes "dot_state ops heap B D U R g"
  shows "generated_names (dot_names g)"
    and "b \<in> set B \<Longrightarrow> fst b \<in> named_blocks (dot_names g)"
    and "oper \<in> set D \<Longrightarrow> MakeDefaultOperationResultValue (fst oper) \<in> named (dot_names g)"
  using assms by (simp_all add: dot_state_def)

lemma dot_state_later:
  assumes "dot_state ops heap B D U R g" "later_names g t"
  shows "dot_blocks g = map (\<lambda>b. (block_name t (fst b), b)) B"
    and "dot_operations g = map (\<lambda>oper. (node_name_in t oper, oper)) D"
    and "set (edges g) = use_edges ops heap t U"
    and "ops oid = Some oper \<Longrightarrow> map_of (operation_results g) (node_name_in t (oid, oper)) = ports_of R oid"
  using assms by (simp_all add: dot_state_def)

lemma later_names_refl: "generated_names (dot_names g) \<Longrightarrow> later_names g (dot_names g)"
  by (simp add: later_names_def)

lemma later_names_step:
  "ssa_step (dot_names g) (dot_names g') \<Longrightarrow> later_names g' t \<Longrightarrow> later_names g t"
  by (auto simp: later_names_def intro: ssa_step_le)

lemma dot_state_names:
  assumes "dot_state ops heap B D U R g" "ssa_step (dot_names g) s"
  shows "dot_state ops heap B D U R (g\<lparr>dot_names := s\<rparr>)"
proof -
  have le: "ssa_le (dot_names g) s" using assms(2) by (simp add: ssa_step_def)
  have "later_names g t" if "later_names (g\<lparr>dot_names := s\<rparr>) t" for t
    using later_names_step [OF _ that] assms(2) by simp
  with assms(1) generated_names_step [OF _ assms(2)] ssa_le_named [OF le] ssa_le_named_blocks [OF le]
  show ?thesis by (auto simp: dot_state_def)
qed

lemma dot_state_edge:
  assumes "dot_state ops heap B D U R g"
    and "\<forall>t. later_names g t \<longrightarrow> source_port ops heap t v = Some src \<and> input_port t oper i = tgt"
  shows "dot_state ops heap B D (insert (oper, i, v) U) R (Generator_AddEdge src tgt g)"
proof -
  have later: "later_names (Generator_AddEdge src tgt g) t = later_names g t" for t
    by (simp add: later_names_def Generator_AddEdge_def)
  have "use_edges ops heap t (insert (oper, i, v) U) = insert (src, tgt) (use_edges ops heap t U)"
    if "later_names g t" for t
    using assms(2) that by (simp add: use_edges_def)
  with assms(1) show ?thesis
    by (simp add: dot_state_def later) (simp add: Generator_AddEdge_def)
qed

lemma used_results_insert:
  "used_results (insert (oper, j, OperationResult oid i) R) oid' =
     (if oid' = oid then insert (string_of_nat i) (used_results R oid) else used_results R oid')"
  by (auto simp: used_results_def)

lemma insort_insert_ports:
  assumes "finite A"
  shows "insort_insert x (sorted_list_of_set A) = sorted_list_of_set (insert x A)"
proof (rule sorted_distinct_set_unique)
  show "sorted (insort_insert x (sorted_list_of_set A))" by (rule sorted_insort_insert) simp
  show "distinct (insort_insert x (sorted_list_of_set A))" by (rule distinct_insort_insert) simp
  show "set (insort_insert x (sorted_list_of_set A)) = set (sorted_list_of_set (insert x A))"
    using assms by (simp only: set_insort_insert set_sorted_list_of_set finite_insert)
qed simp_all

lemma dot_state_result:
  assumes inv: "dot_state ops heap B D U R g" and op: "ops oid = Some other_op"
  shows "dot_state ops heap B D U (insert (oper, j, OperationResult oid i) R)
      (AddResult (oid, other_op) (string_of_nat i) g) \<and>
    ssa_step (dot_names g) (dot_names (AddResult (oid, other_op) (string_of_nat i) g))"
proof -
  let ?x = "string_of_nat i" and ?R = "insert (oper, j, OperationResult oid i) R"
  obtain n s where n: "GetNodeName_operation (oid, other_op) (dot_names g) = (n, s)" "ssa_step (dot_names g) s"
    "MakeDefaultOperationResultValue oid \<in> named s" "\<forall>t. ssa_le s t \<longrightarrow> node_name_in t (oid, other_op) = n"
    using GetNodeName_operation_names [of "(oid, other_op)" "dot_names g"] by auto
  let ?g = "g\<lparr>dot_names := s\<rparr>"
  note inv' = dot_state_names [OF inv n(2)]
  have fin: "finite (used_results R oid')" for oid' using inv by (simp add: dot_state_def)
  have "later_names ?g s"
    using later_names_refl [of ?g] generated_names_step [OF dot_state_named(1) [OF inv] n(2)] by simp
  from dot_state_later(4) [OF inv' this op] n(4)
  have entry: "map_of (operation_results g) n = ports_of R oid" by simp
  define m where "m = operation_results (AddResult (oid, other_op) ?x g)"
  have add: "AddResult (oid, other_op) ?x g = ?g\<lparr>operation_results := m\<rparr>"
    unfolding m_def by (simp add: AddResult_def n(1) Let_def split: option.splits)
  have m: "map_of m k = (if k = n then ports_of ?R oid else map_of (operation_results g) k)" for k
    using entry fin [of oid]
    by (auto simp: m_def AddResult_def n(1) Let_def ports_of_def used_results_insert insort_insert_ports
        map_of_hm_insert split: option.splits if_splits)
  have later: "later_names (?g\<lparr>operation_results := m\<rparr>) t = later_names ?g t" for t by (simp add: later_names_def)
  have "map_of m (node_name_in t (oid', oper')) = ports_of ?R oid'"
    if t: "later_names ?g t" and op': "ops oid' = Some oper'" for t oid' oper'
  proof (cases "oid' = oid")
    case True
    with op op' have "node_name_in t (oid', oper') = n" using n(4) t by (simp add: later_names_def)
    with m True show ?thesis by simp
  next
    case False
    have "MakeDefaultOperationResultValue oid \<in> named t"
      using n(3) t ssa_le_named [of s t] by (auto simp: later_names_def)
    with False node_name_eq [of t "(oid, other_op)" "(oid', oper')"] t n(4)
    have "node_name_in t (oid', oper') \<noteq> n" by (auto simp: later_names_def)
    with m False dot_state_later(4) [OF inv' t op'] show ?thesis
      by (simp add: ports_of_def used_results_insert)
  qed
  moreover have "finite (used_results ?R oid')" for oid' using fin by (simp add: used_results_insert)
  ultimately have "dot_state ops heap B D U ?R (?g\<lparr>operation_results := m\<rparr>)"
    using inv' by (simp add: dot_state_def later)
  with add n(2) show ?thesis by simp
qed


lemma dot_state_no_result:
  assumes "dot_state ops heap B D U R g" "\<And>oid i. v \<noteq> OperationResult oid i"
  shows "dot_state ops heap B D U (insert (oper, j, v) R) g"
proof -
  have "used_results (insert (oper, j, v) R) = used_results R"
    using assms(2) by (auto simp: used_results_def fun_eq_iff)
  with assms(1) show ?thesis by (simp add: dot_state_def ports_of_def)
qed

lemma dot_state_no_edge:
  "dot_state ops heap B D U R g \<Longrightarrow> dot_state ops heap B D (insert (oper, i, Any) U) R g"
  by (simp add: dot_state_def use_edges_def source_port_def)

lemma Generator_AddEdge_names [simp]: "dot_names (Generator_AddEdge src tgt g) = dot_names g"
  by (simp add: Generator_AddEdge_def)

lemma add_input_state:
  assumes inv: "dot_state ops heap B D U U g" and v: "known_value ops heap v"
    and nn: "\<forall>t. later_names g t \<longrightarrow> node_name_in t oper = node_name"
  shows "\<exists>g'. add_input ops heap node_name (i, v) g = Inr g' \<and>
    dot_state ops heap B D (insert (oper, i, v) U) (insert (oper, i, v) U) g' \<and>
    ssa_step (dot_names g) (dot_names g')"
proof -
  let ?tgt = "node_name @ '':I'' @ string_of_nat i"
  have tgt: "input_port t oper i = ?tgt" if "later_names g t" for t using nn that by (simp add: input_port_def)
  have edge: "dot_state ops heap B D (insert (oper, i, v) U) U (Generator_AddEdge src ?tgt (g\<lparr>dot_names := s\<rparr>))"
    if s: "ssa_step (dot_names g) s" and src: "\<forall>t. ssa_le s t \<longrightarrow> source_port ops heap t v = Some src" for s src
  proof (rule dot_state_edge [OF dot_state_names [OF inv s]], intro allI impI)
    fix t assume t: "later_names (g\<lparr>dot_names := s\<rparr>) t"
    then have "ssa_le s t" by (simp add: later_names_def)
    moreover have "later_names g t" using later_names_step [OF _ t] s by simp
    ultimately show "source_port ops heap t v = Some src \<and> input_port t oper i = ?tgt" using src tgt by simp
  qed
  show ?thesis
  proof (cases v)
    case (BlockArgument b k)
    obtain n s where n: "GetNodeName_block b (dot_names g) = (n, s)" "ssa_step (dot_names g) s"
      "\<forall>t. ssa_le s t \<longrightarrow> block_name t b = n" using GetNodeName_block_names [of b "dot_names g"] by auto
    from edge [OF n(2), of "n @ '':'' @ string_of_nat k"] n(3) BlockArgument
    have "dot_state ops heap B D (insert (oper, i, v) U) U
        (Generator_AddEdge (n @ '':'' @ string_of_nat k) ?tgt (g\<lparr>dot_names := s\<rparr>))" by (simp add: source_port_def)
    from dot_state_no_result [OF this, of v oper i] show ?thesis
      using n BlockArgument by (simp add: add_input_def)
  next
    case (OperationResult oid k)
    with v obtain other_op where op: "ops oid = Some other_op" by (auto simp: known_value_def)
    obtain n s where n: "GetNodeName_operation (oid, other_op) (dot_names g) = (n, s)" "ssa_step (dot_names g) s"
      "\<forall>t. ssa_le s t \<longrightarrow> node_name_in t (oid, other_op) = n"
      using GetNodeName_operation_names [of "(oid, other_op)" "dot_names g"] by auto
    let ?g = "Generator_AddEdge (n @ '':'' @ string_of_nat k) ?tgt (g\<lparr>dot_names := s\<rparr>)"
    have "dot_state ops heap B D (insert (oper, i, v) U) U ?g"
      using edge [OF n(2), of "n @ '':'' @ string_of_nat k"] n(3) OperationResult op by (simp add: source_port_def)
    from dot_state_result [OF this op, of oper i k] n OperationResult op ssa_step_trans [OF n(2)]
    show ?thesis by (simp add: add_input_def)
  next
    case (StoredValue sid)
    with v obtain st where st: "heap sid = Some st" by (auto simp: known_value_def)
    have "dot_state ops heap B D (insert (oper, i, v) U) U (Generator_AddEdge (storage_name st) ?tgt g)"
      using edge [of "dot_names g" "storage_name st"] StoredValue st by (simp add: source_port_def)
    from dot_state_no_result [OF this, of v oper i] show ?thesis using StoredValue st by (simp add: add_input_def)
  next
    case Any
    from dot_state_no_result [OF dot_state_no_edge [OF inv, of oper i], of Any oper i]
    show ?thesis using Any by (simp add: add_input_def)
  qed
qed

lemma add_inputs_state:
  assumes "dot_state ops heap B D U U g" "\<forall>(i, v) \<in> set ivs. known_value ops heap v"
    and "\<forall>t. later_names g t \<longrightarrow> node_name_in t oper = node_name"
  shows "\<exists>g'. fold_result (add_input ops heap node_name) ivs g = Inr g' \<and>
    dot_state ops heap B D (U \<union> (\<lambda>(i, v). (oper, i, v)) ` set ivs) (U \<union> (\<lambda>(i, v). (oper, i, v)) ` set ivs) g' \<and>
    ssa_step (dot_names g) (dot_names g')"
  using assms
proof (induction ivs arbitrary: g U)
  case Nil
  then show ?case by simp
next
  case (Cons iv ivs)
  obtain i v where iv: "iv = (i, v)" by (cases iv)
  with Cons.prems have v: "known_value ops heap v" by simp
  from add_input_state [OF Cons.prems(1) v Cons.prems(3), of i] obtain g1 where g1:
    "add_input ops heap node_name (i, v) g = Inr g1"
    "dot_state ops heap B D (insert (oper, i, v) U) (insert (oper, i, v) U) g1"
    "ssa_step (dot_names g) (dot_names g1)" by blast
  have "\<forall>t. later_names g1 t \<longrightarrow> node_name_in t oper = node_name"
    using Cons.prems(3) later_names_step [OF g1(3)] by blast
  from Cons.IH [OF g1(2) _ this] Cons.prems(2) obtain g2 where g2:
    "fold_result (add_input ops heap node_name) ivs g1 = Inr g2" "ssa_step (dot_names g1) (dot_names g2)"
    "dot_state ops heap B D (insert (oper, i, v) U \<union> (\<lambda>(i, v). (oper, i, v)) ` set ivs)
       (insert (oper, i, v) U \<union> (\<lambda>(i, v). (oper, i, v)) ` set ivs) g2" by auto
  moreover have "insert (oper, i, v) U \<union> (\<lambda>(i, v). (oper, i, v)) ` set ivs =
      U \<union> (\<lambda>(i, v). (oper, i, v)) ` set (iv # ivs)" using iv by auto
  ultimately show ?case using g1(1) iv ssa_step_trans [OF g1(3) g2(2)] by simp
qed

lemma dot_PreVisit_operation_state:
  assumes inv: "dot_state ops heap B D U U g" and new: "fst oper \<notin> fst ` set D"
    and v: "\<forall>v \<in> set (inputs (snd oper)). known_value ops heap v"
  shows "\<exists>g'. dot_PreVisit_operation ops heap oper g = Inr ((), g') \<and>
    dot_state ops heap B (D @ [oper]) (U \<union> operation_uses oper) (U \<union> operation_uses oper) g'"
proof -
  obtain n s where n: "GetNodeName_operation oper (dot_names g) = (n, s)" "ssa_step (dot_names g) s"
    "MakeDefaultOperationResultValue (fst oper) \<in> named s" "\<forall>t. ssa_le s t \<longrightarrow> node_name_in t oper = n"
    using GetNodeName_operation_names [of oper "dot_names g"] by auto
  let ?g = "g\<lparr>dot_names := s\<rparr>"
  note inv1 = dot_state_names [OF inv n(2)]
  have gen: "generated_names s" using generated_names_step [OF dot_state_named(1) [OF inv] n(2)] .
  have later: "later_names ?g s" using later_names_refl [of ?g] gen by simp
  have "n \<notin> fst ` set (dot_operations ?g)"
  proof
    assume "n \<in> fst ` set (dot_operations ?g)"
    then obtain x where x: "x \<in> set D" "node_name_in s x = n"
      by (auto simp: dot_state_later(2) [OF inv1 later] image_iff)
    from n(4) x(2) have "node_name_in s oper = node_name_in s x" by simp
    with node_name_eq [OF gen n(3)] have "fst oper = fst x" by blast
    with x(1) new show False by auto
  qed
  then have free: "map_of (dot_operations g) n = None" by (simp add: map_of_eq_None_iff)
  let ?g1 = "?g\<lparr>dot_operations := dot_operations g @ [(n, oper)]\<rparr>"
  have add: "AddOperationNode n oper ?g = Inr ?g1"
    using free by (simp add: AddOperationNode_def hm_insert_def)
  have later1: "later_names ?g1 t = later_names ?g t" for t by (simp add: later_names_def)
  have "dot_state ops heap B (D @ [oper]) U U ?g1"
    using inv1 n(3,4) by (simp add: dot_state_def later1) (simp add: later_names_def)
  moreover have "\<forall>(i, v) \<in> set (enumerate 0 (inputs (snd oper))). known_value ops heap v"
    using v by (auto simp: in_set_enumerate_eq)
  moreover have "\<forall>t. later_names ?g1 t \<longrightarrow> node_name_in t oper = n" using n(4) by (simp add: later_names_def)
  ultimately obtain g' where g': "fold_result (add_input ops heap n) (enumerate 0 (inputs (snd oper))) ?g1 = Inr g'"
    "dot_state ops heap B (D @ [oper]) (U \<union> operation_uses oper) (U \<union> operation_uses oper) g'"
    using add_inputs_state [where ivs = "enumerate 0 (inputs (snd oper))" and node_name = n and oper = oper]
    unfolding operation_uses_def by blast
  then show ?thesis using n(1) add by (simp add: dot_PreVisit_operation_def)
qed

lemma dot_PreVisit_block_state:
  assumes inv: "dot_state ops heap B D U U g" and new: "fst b \<notin> fst ` set B"
  shows "\<exists>g'. dot_PreVisit_block b g = Inr ((), g') \<and> dot_state ops heap (B @ [b]) D U U g'"
proof -
  obtain n s where n: "GetNodeName_block (fst b) (dot_names g) = (n, s)" "ssa_step (dot_names g) s"
    "fst b \<in> named_blocks s" "\<forall>t. ssa_le s t \<longrightarrow> block_name t (fst b) = n"
    using GetNodeName_block_names [of "fst b" "dot_names g"] by auto
  let ?g = "g\<lparr>dot_names := s\<rparr>"
  note inv1 = dot_state_names [OF inv n(2)]
  have gen: "generated_names s" using generated_names_step [OF dot_state_named(1) [OF inv] n(2)] .
  have later: "later_names ?g s" using later_names_refl [of ?g] gen by simp
  have "n \<notin> fst ` set (dot_blocks ?g)"
  proof
    assume "n \<in> fst ` set (dot_blocks ?g)"
    then obtain x where x: "x \<in> set B" "block_name s (fst x) = n"
      by (auto simp: dot_state_later(1) [OF inv1 later] image_iff)
    moreover have "fst x \<in> named_blocks s" using dot_state_named(2) [OF inv1 x(1)] by simp
    ultimately have "fst b = fst x" using block_node_name_eq [OF gen n(3)] n(4) by simp
    with x(1) new show False by auto
  qed
  then have free: "map_of (dot_blocks g) n = None" by (simp add: map_of_eq_None_iff)
  let ?g1 = "?g\<lparr>dot_blocks := dot_blocks g @ [(n, b)]\<rparr>"
  have add: "AddBlockNode n b ?g = Inr ?g1" using free by (simp add: AddBlockNode_def hm_insert_def)
  have later1: "later_names ?g1 t = later_names ?g t" for t by (simp add: later_names_def)
  have "dot_state ops heap (B @ [b]) D U U ?g1"
    using inv1 n(3,4) by (simp add: dot_state_def later1) (simp add: later_names_def)
  with add n(1) show ?thesis by (simp add: dot_PreVisit_block_def)
qed


lemma dot_visitor_simps [simp]:
  "Visit_operation (dot_visitor ops heap) oper = dot_PreVisit_operation ops heap oper"
  "FoldResult (dot_visitor ops heap) = (\<lambda>acc child s. Inr (acc, s))"
  "PreVisit_block (dot_visitor ops heap) = dot_PreVisit_block"
  "PostVisit_block (dot_visitor ops heap) = (\<lambda>_ r s. Inr (r, s))"
  "PreVisit_module (dot_visitor ops heap) = (\<lambda>_ s. Inr ((), s))"
  "PostVisit_module (dot_visitor ops heap) = (\<lambda>_ r s. Inr (r, s))"
  by (auto simp: dot_visitor_def default_visitor_def Visit_operation_def fun_eq_iff rbind_def split: sum.splits)

definition uses_of :: "(op_id \<times> operation) list \<Rightarrow> dot_use set" where
  "uses_of opers = (\<Union>oper \<in> set opers. operation_uses oper)"

lemma dot_operations_state:
  assumes "dot_state ops heap B D (uses_of D) (uses_of D) g" "distinct (map fst (D @ opers))"
    and "\<forall>oper \<in> set opers. \<forall>v \<in> set (inputs (snd oper)). known_value ops heap v"
  shows "\<exists>g'. fold_result (\<lambda>oper (acc, s). rbind (dot_PreVisit_operation ops heap oper s)
      (\<lambda>(child, s). Inr (acc, s))) opers ((), g) = Inr ((), g') \<and>
    dot_state ops heap B (D @ opers) (uses_of (D @ opers)) (uses_of (D @ opers)) g'"
  using assms
proof (induction opers arbitrary: D g)
  case Nil
  then show ?case by simp
next
  case (Cons oper opers)
  have "fst oper \<notin> fst ` set D" using Cons.prems(2) by auto
  from dot_PreVisit_operation_state [OF Cons.prems(1) this] Cons.prems(3) obtain g1 where g1:
    "dot_PreVisit_operation ops heap oper g = Inr ((), g1)"
    "dot_state ops heap B (D @ [oper]) (uses_of D \<union> operation_uses oper) (uses_of D \<union> operation_uses oper) g1"
    by auto
  then have "dot_state ops heap B (D @ [oper]) (uses_of (D @ [oper])) (uses_of (D @ [oper])) g1"
    by (simp add: uses_of_def Un_commute)
  from Cons.IH [OF this] Cons.prems(2,3) g1(1) show ?case by simp
qed

lemma Visit_block_dot_state:
  assumes inv: "dot_state ops heap B D (uses_of D) (uses_of D) g" and new: "fst b \<notin> fst ` set B"
    and d: "distinct (map fst (D @ operations (snd b)))"
    and v: "\<forall>oper \<in> set (operations (snd b)). \<forall>v \<in> set (inputs (snd oper)). known_value ops heap v"
  shows "\<exists>g'. Visit_block (dot_visitor ops heap) b g = Inr ((), g') \<and>
    dot_state ops heap (B @ [b]) (D @ operations (snd b)) (uses_of (D @ operations (snd b)))
      (uses_of (D @ operations (snd b))) g'"
proof -
  from dot_PreVisit_block_state [OF inv new] obtain g1 where g1: "dot_PreVisit_block b g = Inr ((), g1)"
    "dot_state ops heap (B @ [b]) D (uses_of D) (uses_of D) g1" by blast
  from dot_operations_state [OF g1(2) d v] obtain g2 where g2:
    "fold_result (\<lambda>oper (acc, s). rbind (dot_PreVisit_operation ops heap oper s)
      (\<lambda>(child, s). Inr (acc, s))) (operations (snd b)) ((), g1) = Inr ((), g2)"
    "dot_state ops heap (B @ [b]) (D @ operations (snd b)) (uses_of (D @ operations (snd b)))
      (uses_of (D @ operations (snd b))) g2" by blast
  have "Visit_block (dot_visitor ops heap) b g = Inr ((), g2)" using g1(1) g2(1) by (simp add: Visit_block_def)
  with g2(2) show ?thesis by blast
qed

lemma dot_blocks_state:
  assumes "dot_state ops heap B D (uses_of D) (uses_of D) g" "distinct (map fst (B @ bs))"
    and "distinct (map fst (D @ concat (map (\<lambda>b. operations (snd b)) bs)))"
    and "\<forall>b \<in> set bs. \<forall>oper \<in> set (operations (snd b)). \<forall>v \<in> set (inputs (snd oper)). known_value ops heap v"
  shows "\<exists>g'. fold_result (\<lambda>b (acc, s). rbind (Visit_block (dot_visitor ops heap) b s)
      (\<lambda>(child, s). Inr (acc, s))) bs ((), g) = Inr ((), g') \<and>
    dot_state ops heap (B @ bs) (D @ concat (map (\<lambda>b. operations (snd b)) bs))
      (uses_of (D @ concat (map (\<lambda>b. operations (snd b)) bs)))
      (uses_of (D @ concat (map (\<lambda>b. operations (snd b)) bs))) g'"
  using assms
proof (induction bs arbitrary: B D g)
  case Nil
  then show ?case by simp
next
  case (Cons b bs)
  have "fst b \<notin> fst ` set B" "distinct (map fst (D @ operations (snd b)))" using Cons.prems(2,3) by auto
  from Visit_block_dot_state [OF Cons.prems(1) this] Cons.prems(4) obtain g1 where g1:
    "Visit_block (dot_visitor ops heap) b g = Inr ((), g1)"
    "dot_state ops heap (B @ [b]) (D @ operations (snd b)) (uses_of (D @ operations (snd b)))
      (uses_of (D @ operations (snd b))) g1" by auto
  from Cons.IH [OF g1(2)] Cons.prems(2-4) g1(1) show ?case by simp
qed

lemma dot_state_new: "dot_state ops heap [] [] (uses_of []) (uses_of []) new_dot_generator"
  by (simp add: dot_state_def new_dot_generator_def uses_of_def use_edges_def used_results_def ports_of_def)

section \<open>The text of the graph\<close>

lemma node_text_ok: "\<exists>line. node_text lg config node_name rs oper = Inr line"
  by (simp add: node_text_def Let_def PrintNamedMapInNameOrder_eq)

definition result_ports :: "dot_use set \<Rightarrow> op_id \<Rightarrow> string list" where
  "result_ports U oid = sorted_list_of_set (used_results U oid)"

definition node_line ::
  "(double \<Rightarrow> string) \<Rightarrow> dot_generator_config \<Rightarrow> dot_use set \<Rightarrow> ssa_names \<Rightarrow> op_id \<times> operation \<Rightarrow> string \<Rightarrow> bool" where
  "node_line lg config U t oper line \<longleftrightarrow>
     node_text lg config (node_name_in t oper) (result_ports U (fst oper)) oper = Inr line"

lemma GetDotNode_state:
  assumes inv: "dot_state ops heap B D U R g" and op: "ops (fst oper) = Some (snd oper)"
  shows "\<exists>line g'. GetDotNode lg config oper g = Inr (line, g') \<and> dot_state ops heap B D U R g' \<and>
    ssa_step (dot_names g) (dot_names g') \<and> (\<forall>t. later_names g' t \<longrightarrow> node_line lg config R t oper line)"
proof -
  obtain n s where n: "GetNodeName_operation oper (dot_names g) = (n, s)" "ssa_step (dot_names g) s"
    "\<forall>t. ssa_le s t \<longrightarrow> node_name_in t oper = n"
    using GetNodeName_operation_names [of oper "dot_names g"] by auto
  let ?g = "g\<lparr>dot_names := s\<rparr>"
  note inv1 = dot_state_names [OF inv n(2)]
  have "later_names ?g s" using later_names_refl [of ?g] dot_state_named(1) [OF inv1] by simp
  from dot_state_later(4) [OF inv1 this op] n(3)
  have "map_of (operation_results g) n = ports_of R (fst oper)" by simp
  then have rs: "(case map_of (operation_results g) n of None \<Rightarrow> [] | Some rs \<Rightarrow> rs) = result_ports R (fst oper)"
    by (simp add: ports_of_def result_ports_def)
  obtain line where line: "node_text lg config n (result_ports R (fst oper)) oper = Inr line"
    using node_text_ok by blast
  have "GetDotNode lg config oper g = Inr (line, ?g)" by (simp add: GetDotNode_def n(1) rs line)
  with inv1 n(2,3) line show ?thesis by (simp add: node_line_def later_names_def)
qed

lemma GetDotNodes_state:
  assumes "dot_state ops heap B D U R g" "\<forall>(n, oper) \<in> set entries. ops (fst oper) = Some (snd oper)"
  shows "\<exists>lines g'. map_state (\<lambda>node_entry. GetDotNode lg config (snd node_entry)) entries g = Inr (lines, g') \<and>
    dot_state ops heap B D U R g' \<and> ssa_step (dot_names g) (dot_names g') \<and>
    (\<forall>t. later_names g' t \<longrightarrow> list_all2 (\<lambda>node_entry. node_line lg config R t (snd node_entry)) entries lines)"
  using assms
proof (induction entries arbitrary: g)
  case Nil
  then show ?case by simp
next
  case (Cons node_entry entries)
  then have "ops (fst (snd node_entry)) = Some (snd (snd node_entry))" by auto
  from GetDotNode_state [OF Cons.prems(1) this, of lg config] obtain line g1 where g1:
    "GetDotNode lg config (snd node_entry) g = Inr (line, g1)" "dot_state ops heap B D U R g1"
    "ssa_step (dot_names g) (dot_names g1)" "\<forall>t. later_names g1 t \<longrightarrow> node_line lg config R t (snd node_entry) line"
    by blast
  from Cons.IH [OF g1(2)] Cons.prems(2) obtain lines g2 where g2:
    "map_state (\<lambda>node_entry. GetDotNode lg config (snd node_entry)) entries g1 = Inr (lines, g2)"
    "dot_state ops heap B D U R g2" "ssa_step (dot_names g1) (dot_names g2)"
    "\<forall>t. later_names g2 t \<longrightarrow> list_all2 (\<lambda>node_entry. node_line lg config R t (snd node_entry)) entries lines" by auto
  from g1(4) later_names_step [OF g2(3)] g2(4)
  have "\<forall>t. later_names g2 t \<longrightarrow> list_all2 (\<lambda>node_entry. node_line lg config R t (snd node_entry))
      (node_entry # entries) (line # lines)" by auto
  moreover have "map_state (\<lambda>node_entry. GetDotNode lg config (snd node_entry)) (node_entry # entries) g =
      Inr (line # lines, g2)" using g1(1) g2(1) by simp
  ultimately show ?case using g2(2) ssa_step_trans [OF g1(3) g2(3)] by blast
qed


lemma GetDotGraph_text:
  assumes inv: "dot_state ops heap B D U R g" and ords: "dot_orders_ok ords"
    and ops: "\<forall>oper \<in> set D. ops (fst oper) = Some (snd oper)"
  shows "\<exists>t bs opers es lines g'. generated_names t \<and> later_names g t \<and>
    mset bs = mset B \<and> mset opers = mset D \<and> distinct es \<and> set es = use_edges ops heap t U \<and>
    list_all2 (node_line lg config R t) opers lines \<and>
    GetDotGraph lg config ords g = Inr (kDigraphFormat
      (str_join dot_line (map (\<lambda>b. block_name t (fst b) @ '' [shape=Mrecord]'') bs))
      (str_join dot_line lines)
      (str_join dot_line (map (\<lambda>(src, tgt). src @ '' -> '' @ tgt) es)), g')"
proof -
  let ?oe = "ord_dot_operations ords (dot_operations g)"
  have orders: "is_order (ord_dot_blocks ords)" "is_order (ord_dot_operations ords)" "is_order (ord_dot_edges ords)"
    using ords by (simp_all add: dot_orders_ok_def)
  have refl: "later_names g (dot_names g)" using later_names_refl dot_state_named(1) [OF inv] by blast
  have "\<forall>(n, oper) \<in> set ?oe. ops (fst oper) = Some (snd oper)"
    using ops by (auto simp: is_order_set [OF orders(2)] dot_state_later(2) [OF inv refl])
  from GetDotNodes_state [OF inv this, of lg config] obtain lines g' where g':
    "map_state (\<lambda>node_entry. GetDotNode lg config (snd node_entry)) ?oe g = Inr (lines, g')"
    "dot_state ops heap B D U R g'" "ssa_step (dot_names g) (dot_names g')"
    "\<forall>t. later_names g' t \<longrightarrow> list_all2 (\<lambda>node_entry. node_line lg config R t (snd node_entry)) ?oe lines" by blast
  let ?t = "dot_names g'"
  let ?es = "ord_dot_edges ords (edges g')"
  have t': "later_names g' ?t" using later_names_refl dot_state_named(1) [OF g'(2)] by blast
  have t: "later_names g ?t" by (rule later_names_step [OF g'(3) t'])
  define be where "be = ord_dot_blocks ords (dot_blocks g)"
  define oe where "oe = ?oe"
  have be: "mset be = mset (map (\<lambda>b. (block_name ?t (fst b), b)) B)"
    using orders(1) by (simp add: be_def is_order_def dot_state_later(1) [OF inv t])
  have oe: "mset oe = mset (map (\<lambda>oper. (node_name_in ?t oper, oper)) D)"
    using orders(2) by (simp add: oe_def is_order_def dot_state_later(2) [OF inv t])
  have "mset (map snd be) = mset B" "mset (map snd oe) = mset D" by (simp_all add: be oe multiset.map_comp comp_def)
  moreover have "distinct ?es" "set ?es = use_edges ops heap ?t U"
    using is_order_distinct [OF orders(3)] is_order_set [OF orders(3)] g'(2) dot_state_later(3) [OF g'(2) t']
    by (simp_all add: dot_state_def)
  moreover have "list_all2 (node_line lg config R ?t) (map snd oe) lines"
    using g'(4) t' by (simp add: list_all2_map1 oe_def)
  moreover have "set be = set (map (\<lambda>b. (block_name ?t (fst b), b)) B)"
    using be by (metis set_mset_mset)
  then have block_lines: "map (\<lambda>b. block_name ?t (fst b) @ '' [shape=Mrecord]'') (map snd be) =
      map (\<lambda>node_entry. fst node_entry @ '' [shape=Mrecord]'') be" by auto
  have "GetDotGraph lg config ords g = Inr (kDigraphFormat
      (str_join dot_line (map (\<lambda>b. block_name ?t (fst b) @ '' [shape=Mrecord]'') (map snd be)))
      (str_join dot_line lines)
      (str_join dot_line (map (\<lambda>(src, tgt). src @ '' -> '' @ tgt) ?es)), g')"
    unfolding block_lines by (simp add: GetDotGraph_def be_def g'(1))
  ultimately show ?thesis
    using dot_state_named(1) [OF g'(2)] t
    by (intro exI [of _ ?t] exI [of _ "map snd be"] exI [of _ "map snd oe"] exI [of _ ?es] exI [of _ lines] exI [of _ g'])
      (intro conjI)
qed

section \<open>Properties\<close>

text \<open>C26: Drawing a module whose blocks and operations are different objects always succeeds: no
  two nodes get the same name. The text has one node for every block and every operation, whose
  name no other operation has, with a port for every result that an operand of the module
  refers to, and exactly one edge for every pair of a source port and an input port that an
  operand connects, whatever the iteration order of the hash containers is.\<close>

theorem module_drawing:
  assumes blocks: "distinct (map fst (blocks (snd m)))"
    and opers: "distinct (map fst (module_operations (snd m)))"
    and known: "\<forall>oper \<in> set (module_operations (snd m)). ops (fst oper) = Some (snd oper) \<and>
      (\<forall>v \<in> set (inputs (snd oper)). known_value ops heap v)"
    and ords: "dot_orders_ok ords"
  shows "\<exists>t bs opers es lines.
    inj_on (block_name t) (set (map fst (blocks (snd m)))) \<and>
    inj_on (node_name_in t) (set (module_operations (snd m))) \<and>
    mset bs = mset (blocks (snd m)) \<and> mset opers = mset (module_operations (snd m)) \<and> distinct es \<and>
    set es = use_edges ops heap t (uses_of (module_operations (snd m))) \<and>
    list_all2 (node_line lg config (uses_of (module_operations (snd m))) t) opers lines \<and>
    ModuleAsDot ops heap lg ords m config = Inr (kDigraphFormat
      (str_join dot_line (map (\<lambda>b. block_name t (fst b) @ '' [shape=Mrecord]'') bs))
      (str_join dot_line lines)
      (str_join dot_line (map (\<lambda>(src, tgt). src @ '' -> '' @ tgt) es)))"
proof -
  let ?D = "module_operations (snd m)" and ?B = "blocks (snd m)"
  have vals: "\<forall>b \<in> set ?B. \<forall>oper \<in> set (operations (snd b)). \<forall>v \<in> set (inputs (snd oper)). known_value ops heap v"
    using known by (auto simp: module_operations_def)
  obtain g where g: "Visit_module (dot_visitor ops heap) m new_dot_generator = Inr ((), g)"
    "dot_state ops heap ?B ?D (uses_of ?D) (uses_of ?D) g"
    using dot_blocks_state [OF dot_state_new _ _ vals] blocks opers
    by (auto simp: Visit_module_def module_operations_def)
  from GetDotGraph_text [OF g(2) ords, of lg config] known obtain t bs ops' es lines g' where t:
    "generated_names t" "later_names g t" "mset bs = mset ?B" "mset ops' = mset ?D" "distinct es"
    "set es = use_edges ops heap t (uses_of ?D)" "list_all2 (node_line lg config (uses_of ?D) t) ops' lines"
    "GetDotGraph lg config ords g = Inr (kDigraphFormat
      (str_join dot_line (map (\<lambda>b. block_name t (fst b) @ '' [shape=Mrecord]'') bs))
      (str_join dot_line lines)
      (str_join dot_line (map (\<lambda>(src, tgt). src @ '' -> '' @ tgt) es)), g')" by blast
  have le: "ssa_le (dot_names g) t" using t(2) by (simp add: later_names_def)
  have "fst b \<in> named_blocks t" if "b \<in> set ?B" for b
    using dot_state_named(2) [OF g(2) that] ssa_le_named_blocks [OF le] by blast
  then have "inj_on (block_name t) (set (map fst ?B))"
    using block_node_name_eq [OF t(1)] by (auto simp: inj_on_def)
  moreover have "inj_on (node_name_in t) (set ?D)"
  proof (rule inj_onI)
    fix x y assume xy: "x \<in> set ?D" "y \<in> set ?D" "node_name_in t x = node_name_in t y"
    have "MakeDefaultOperationResultValue (fst x) \<in> named t"
      using dot_state_named(3) [OF g(2) xy(1)] ssa_le_named [OF le] by blast
    from node_name_eq [OF t(1) this xy(3)] opers xy(1,2) show "x = y" by (auto simp: distinct_map inj_on_def)
  qed
  ultimately show ?thesis using t(3-8) g(1)
    by (intro exI [of _ t] exI [of _ bs] exI [of _ ops'] exI [of _ es] exI [of _ lines]) (simp add: ModuleAsDot_def)
qed

definition drawn_pair :: operation where
  "drawn_pair = make_operation (Some 0) (make_operator ''core.pair'') [] [BlockArgument 0 1]"

definition drawn_plus :: operation where
  "drawn_plus = make_operation (Some 0) (make_operator ''core.plus'') [(''ttl'', Int64Attribute 10)]
     [OperationResult 1 0, OperationResult 1 1, StoredValue 5]"

definition drawn_module :: ir_module where
  "drawn_module = empty_module\<lparr>blocks := [(0, empty_block\<lparr>operations := [(1, drawn_pair), (2, drawn_plus)]\<rparr>)]\<rparr>"

definition drawn_operations :: operation_heap where
  "drawn_operations = [1 \<mapsto> drawn_pair, 2 \<mapsto> drawn_plus]"

definition drawn_storages :: storage_heap where
  "drawn_storages = [5 \<mapsto> make_storage ''disk'' PrimitiveType]"

definition drawn_orders :: dot_orders where
  "drawn_orders = \<lparr>ord_dot_blocks = rev, ord_dot_operations = id, ord_dot_edges = rev\<rparr>"

theorem module_drawing_witness:
  "\<exists>t es drawing. set es = use_edges drawn_operations drawn_storages t (uses_of [(1, drawn_pair), (2, drawn_plus)]) \<and>
     distinct es \<and> ModuleAsDot drawn_operations drawn_storages (\<lambda>_. []) drawn_orders (0, drawn_module) GetDefault =
       Inr drawing \<and> node_name_in t (1, drawn_pair) \<noteq> node_name_in t (2, drawn_plus)"
proof -
  let ?m = "(0, drawn_module)"
  have opers: "module_operations (snd ?m) = [(1, drawn_pair), (2, drawn_plus)]"
    by (simp add: drawn_module_def module_operations_def)
  have hyps: "distinct (map fst (blocks (snd ?m)))" "distinct (map fst (module_operations (snd ?m)))"
    "\<forall>oper \<in> set (module_operations (snd ?m)). drawn_operations (fst oper) = Some (snd oper) \<and>
      (\<forall>v \<in> set (inputs (snd oper)). known_value drawn_operations drawn_storages v)"
    "dot_orders_ok drawn_orders"
    unfolding opers by (simp_all add: drawn_module_def drawn_operations_def drawn_storages_def known_value_def
      drawn_pair_def drawn_plus_def make_operation_def drawn_orders_def dot_orders_ok_def)
  from module_drawing [OF hyps, where config = GetDefault and lg = "\<lambda>_. []"] show ?thesis
    unfolding opers
    by (elim exE conjE, intro exI conjI) (assumption, assumption, assumption, auto dest: inj_onD)
qed

end
