(* ===== verification/Spec2Isabelle.thy ===== *)
theory Spec2Isabelle imports
  Sql_Policy_Rules
  Sql_Driver
  Sql_Verdict
  Engines_Agree
  Message_Compliance
  Ambient_Checker
  Ref_Count
  Command_Line
  Worklist_Fixpoint
  Dot_Generator
begin

text \<open>
  A verification development for Raksha (\<^verbatim>\<open>src/\<close>), a program that checks data flow policies. A front end
  turns its input into an intermediate representation (IR): a module of blocks of operations over values. An
  analysis finds the tags that data may have, and a policy engine decides whether the module complies. Policies
  can be written in authorization logic, which is compiled to datalog for the Souffle engine.

  How the parts interact. The SQL front end decodes an arena of expressions into a module
  (\<^verbatim>\<open>frontends/sql/decode.cc\<close>) and its policy rules into inference rules. The text and the message readers
  (\<^verbatim>\<open>parser/ir\<close>, \<^verbatim>\<open>ir/proto_to_ir.cc\<close>) build modules too. From a module there are two ways to a verdict: the
  abstract interpretation checker runs a fixpoint iterator over the module's graph with the taint analysis, and the
  Souffle checker lowers the module to facts and runs a compiled datalog program on them. Authorization
  logic is parsed, extended by universe relations, lowered to datalog and emitted as Souffle text. The ambient
  front end keeps a graph of its own and asks a compiled program on every change.

  \<^bold>\<open>Conventions\<close> (theory \<open>Prelude\<close>). A failed check of the code is the value \<open>Inl (Check_failed _)\<close>, a read that
  C++ leaves undefined is \<open>Inl (Undefined_behaviour _)\<close>; every operation that can fail returns \<open>error + 'a\<close> and every
  abort of the source is a branch. An object behind a pointer is a pair of its address (a number) and its value; a
  definition that follows a pointer to an object it does not own takes a heap, a partial function from addresses. Hash
  containers are association lists, and a definition that iterates over one takes the order as an argument: the
  properties hold for every order. A message of a log is not modelled, nor is the wording of an error.

  \<^bold>\<open>Data model.\<close> \<open>Type_System\<close>: types, selectors, access paths and their messages (\<^verbatim>\<open>ir/types\<close>,
  \<^verbatim>\<open>ir/access_path_selectors_set.h\<close>); the access paths of a type are its paths from root to leaf, and types survive
  their messages up to the order of their fields. \<open>Ir_Core\<close>: operators, values, attributes, operations, blocks, modules, the block builder, the
  context and the traversing visitor (\<^verbatim>\<open>ir/module.h\<close>, \<^verbatim>\<open>ir/block_builder.h\<close>, \<^verbatim>\<open>ir/ir_context.h\<close>,
  \<^verbatim>\<open>ir/ir_traversing_visitor.h\<close>); the locale \<open>node_registry\<close> is the contract of the registries. \<open>Ref_Count\<close>: the
  reference counts of \<^verbatim>\<open>common/utils\<close> as a step relation, with a 64 bit counter.

  \<^bold>\<open>Text, drawings and messages of a module.\<close> \<open>Ir_Printer\<close> (\<^verbatim>\<open>ir/ssa_names.h\<close>, \<^verbatim>\<open>ir/ir_printer.h\<close>): the text is that
  of one injective naming. \<open>Dot_Generator\<close> (\<^verbatim>\<open>ir/dot\<close>): the drawing has the nodes, ports and edges of the module.
  \<open>Ir_Parser\<close>, \<open>Ir_Parser_Roundtrip\<close> (\<^verbatim>\<open>parser/ir/ir_parser.cc\<close>, \<^verbatim>\<open>Ir.g4\<close>): which programs are accepted, what they
  mean, and that a printed module is parsed again. \<open>Ir_Proto\<close>, \<open>Ir_Proto_Roundtrip\<close> (\<^verbatim>\<open>ir/ir_to_proto.cc\<close>,
  \<^verbatim>\<open>ir/proto_to_ir.cc\<close>): unique ids, and that the operations of a written module are read again (the declared inputs and
  outputs of its blocks and its storages are not). \<open>Address_Independence\<close>: visitors write
  the same text and facts for copies at other addresses (locale \<open>parallel_visits\<close>).

  \<^bold>\<open>Taint analysis.\<close> \<open>Ifc_Tags\<close> (the domain and the locales of abstract domains), \<open>Inference_Rules\<close> (rules and their
  builder), \<open>Module_Graph\<close> (the use/def graph), \<open>Fixpoint\<close> (the iterator of \<^verbatim>\<open>module_fixpoint_iterator.h\<close> and the
  abstract algorithm it refines), \<open>Fixpoint_Contract\<close> (what a semantics promises: locales \<open>fixpoint_semantics\<close> and
  \<open>monotone_semantics\<close>), \<open>Taint_Semantics\<close> (\<^verbatim>\<open>abstract_semantics.cc\<close> meets the contract), \<open>Taint_Fixpoint\<close> (the
  analysis terminates in a solution, the least one for monotone rules), \<open>Policy_Check\<close> (the verdict) and
  \<open>Worklist_Fixpoint\<close> (the iterator over any graph).

  \<^bold>\<open>SQL front end.\<close> \<open>Sql_Ops\<close>, \<open>Sql_Decode\<close>, \<open>Sql_Policy_Rules\<close>, \<open>Sql_Driver\<close> (\<^verbatim>\<open>frontends/sql\<close>): which arenas decode,
  the order of the decoded module, its verdict under the taint analysis and under the Souffle checker.
  \<open>Sql_Verifier\<close>: the datalog program that this checker runs, \<^verbatim>\<open>sql_policy_verifier_interface.dl\<close> of
  \<^verbatim>\<open>analysis/souffle\<close> with the files it includes, each relation as the predicate that its rules define.
  \<open>Sql_Verifier_Pass\<close>: an executable pass over the operations in definition order, the specification.
  \<open>Sql_Verifier_Correct\<close>: the relations hold exactly what the pass computes. \<open>Sql_Verdict\<close>: the answer of the driver is
  that of the pass on the decoded operations; that the compiled program derives what the rules say is its hypothesis.
  \<open>Engines_Agree\<close>: the taint analysis with the decoded inference rules and this checker give the same verdict, when no
  transform asks for a special merge and confidentiality is added without preconditions.

  \<^bold>\<open>Authorization logic.\<close> \<open>Auth_Ast\<close>, \<open>Auth_Parser\<close>, \<open>Auth_Printer\<close> (the syntax tree, the lexer and the grammar of
  \<^verbatim>\<open>AuthLogic.g4\<close>, the construction of the tree and its printing), \<open>Auth_Visitor\<close> (the traversal),
  \<open>Auth_Environments\<close> (declarations and types), \<open>Auth_Universe\<close> (universe relations), \<open>Auth_Lowering\<close> with
  \<open>Datalog_Program\<close> (lowering to datalog), \<open>Auth_Semantics\<close> (the meaning of a program, which the lowering keeps
  where there are no comparisons; a lowered comparison has lost its meaning), \<open>Auth_Safety\<close> (the lowered rules are
  safe), \<open>Souffle_Emitter\<close> (the emitted text, which determines what of the program is to be written).

  \<^bold>\<open>Souffle engine and command lines.\<close> \<open>Souffle_Facts\<close> (the facts of a module), \<open>Policy_Engine\<close> (policies, fact files,
  the checker and \<^verbatim>\<open>check_policy_compliance.cc\<close>), \<open>Command_Line\<close> (the programs that write facts and policies),
  \<open>Message_Compliance\<close> (the program on a message of a module), \<open>Ambient_Checker\<close> (the ambient front end as a state
  machine over requests).

  \<^bold>\<open>Loops and bounds.\<close> The two fixpoint loops are \<open>while_option\<close>, so that a run that does not end is \<open>None\<close>; the
  properties say that the result is \<open>Some\<close>. The bound is the number of operations or nodes times the number of
  times a state can rise, which the domain limits by its finitely many tags. Every other loop is a recursion over a
  list or tree. Reference counts are \<open>64 word\<close> and do not wrap as long as fewer than \<open>2 ^ 64 - 1\<close> pointers exist; indices
  of operands, addresses and generated numbers in names are unbounded, since they are bounded by the size of an object in
  memory.

  \<^bold>\<open>Not modelled.\<close> Parameters stand for code outside \<^verbatim>\<open>src/\<close> or that the build generates: ANTLR's parsers, the compiled
  Souffle programs, protobuf's JSON reader, \<^verbatim>\<open>absl\<close>'s conversions of numbers and the layout of a double, the file system.
  Left out are the log, the iterator adapters and ranges of \<^verbatim>\<open>common/utils\<close> (lists here), the functor for Souffle that
  takes a logarithm, \<^verbatim>\<open>policy/parser.cc\<close> (it only runs a generated parser), the classes of \<^verbatim>\<open>frontends/sqlite/ast.h\<close>
  (data that no code uses), the test support and the tests, and the datalog of \<^verbatim>\<open>analysis/souffle\<close> for
  the other checkers (arcsjs, differential privacy, may/will, predicates), which is not C++.
\<close>

end
